(* ===== verification/Prelude.thy ===== *)
theory Prelude
  imports Main "HOL-Library.Word"
begin

text \<open>
  Shared vocabulary of the development: the C integer types of the lp64 ABI as fixed-width
  words, bounds-checked array stores, single-bit updates, the address alignment idiom
  \<open>p & ~(n - 1)\<close> that the task tables and the virtqueue layout use, and the collections of
  rewrite rules the component theories extend.
\<close>

unbundle bit_operations_syntax

type_synonym u8 = "8 word"
type_synonym u16 = "16 word"
type_synonym u32 = "32 word"
type_synonym u64 = "64 word"

named_theorems machine_simps \<open>one step of the RISC-V hart\<close>
named_theorems console_simps \<open>text sent to the console\<close>
named_theorems driver_simps \<open>state updates of the C drivers\<close>


subsection \<open>Bounds-checked arrays\<close>

text \<open>
  A C array store is undefined outside the array. \<open>store_at\<close> makes that a value: \<open>None\<close>
  stands for a store past the end. \<open>load_at\<close> is the same for reads.
\<close>

definition store_at :: "'a list \<Rightarrow> nat \<Rightarrow> 'a \<Rightarrow> 'a list option" where
  "store_at a i v = (if i < length a then Some (a[i := v]) else None)"

definition load_at :: "'a list \<Rightarrow> nat \<Rightarrow> 'a option" where
  "load_at a i = (if i < length a then Some (a ! i) else None)"

lemma store_at_Some [simp]: "i < length a \<Longrightarrow> store_at a i v = Some (a[i := v])"
  by (simp add: store_at_def)

lemma store_at_None [simp]: "length a \<le> i \<Longrightarrow> store_at a i v = None"
  by (simp add: store_at_def)

lemma store_at_eq_Some_iff: "store_at a i v = Some b \<longleftrightarrow> i < length a \<and> b = a[i := v]"
  by (auto simp: store_at_def)

lemma load_at_Some [simp]: "i < length a \<Longrightarrow> load_at a i = Some (a ! i)"
  by (simp add: load_at_def)

lemma load_at_None [simp]: "length a \<le> i \<Longrightarrow> load_at a i = None"
  by (simp add: load_at_def)

lemma load_after_store:
  "store_at a i v = Some b \<Longrightarrow> load_at b j = (if j = i then Some v else load_at a j)"
  by (auto simp: store_at_eq_Some_iff load_at_def)


subsection \<open>Single bits\<close>

definition put_bit :: "nat \<Rightarrow> bool \<Rightarrow> u64 \<Rightarrow> u64" where
  "put_bit n b w = (if b then set_bit n w else unset_bit n w)"

lemma bit_put_bit:
  "m < 64 \<Longrightarrow> bit (put_bit n b w) m \<longleftrightarrow> (if m = n then b else bit w m)"
  by (auto simp: put_bit_def bit_set_bit_iff bit_unset_bit_iff)

text \<open>Testing one bit with a mask.\<close>

lemma and_single_bit: "n < 64 \<Longrightarrow> (w AND 2 ^ n = 0) \<longleftrightarrow> \<not> bit (w :: u64) n"
  by (simp add: and_exp_eq_0_iff_not_bit)

lemma word_eq_by_bits: "(\<And>n. n < 64 \<Longrightarrow> bit (a :: u64) n = bit b n) \<Longrightarrow> a = b"
  by (rule bit_word_eqI) simp


subsection \<open>Alignment\<close>

definition aligned8 :: "u64 \<Rightarrow> bool" where
  "aligned8 a \<longleftrightarrow> a AND 7 = 0"

text \<open>Masking keeps the remainder, masking with the complement rounds down to a multiple.\<close>

lemma unat_and_mask: "unat (w AND mask n) = unat w mod 2 ^ n" for w :: "'a :: len word"
proof -
  have "unat (take_bit n w) = take_bit n (unat w)" by (simp add: unsigned_take_bit_eq)
  then show ?thesis by (simp add: take_bit_eq_mask flip: take_bit_eq_mod)
qed

lemma and_not_mask_split: "w = (w AND NOT (mask n)) + (w AND mask n)" for w :: "'a :: len word"
proof -
  have "w = (w AND NOT (mask n)) OR (w AND mask n)"
    by (rule bit_word_eqI) (auto simp: bit_simps)
  moreover have "(w AND NOT (mask n)) OR (w AND mask n)
      = (w AND NOT (mask n)) + (w AND mask n)"
    by (rule disjunctive_add [symmetric]) (auto simp: bit_simps)
  ultimately show ?thesis by simp
qed

lemma unat_and_not_mask: "unat (w AND NOT (mask n)) = unat w - unat w mod 2 ^ n"
  for w :: "'a :: len word"
proof -
  have "w AND NOT (mask n) = w - (w AND mask n)"
    using and_not_mask_split [of w n] by (simp add: eq_diff_eq)
  moreover have "(w AND mask n) \<le> w"
    by (simp add: word_le_nat_alt unat_and_mask)
  ultimately show ?thesis
    by (simp add: unat_sub unat_and_mask)
qed

lemma aligned8_mod: "aligned8 a \<longleftrightarrow> unat a mod 8 = 0"
proof -
  have "(7 :: u64) = mask 3" by (simp add: mask_eq_exp_minus_1)
  then have "aligned8 a \<longleftrightarrow> unat (a AND mask 3) = 0"
    by (simp only: aligned8_def unat_eq_0)
  then show ?thesis by (simp add: unat_and_mask)
qed

lemma aligned8_add:
  assumes "aligned8 a" and "aligned8 b"
  shows "aligned8 (a + b)"
  using assms unfolding aligned8_mod
  by (simp add: unat_word_ariths mod_mod_cancel mod_add_eq)
     (presburger)

lemma aligned8_zero [simp]: "aligned8 0"
  by (simp add: aligned8_def)

lemma aligned8_offset [machine_simps]:
  "aligned8 a \<Longrightarrow> off AND 7 = 0 \<Longrightarrow> aligned8 (a + off)"
  by (rule aligned8_add) (simp_all only: aligned8_def)



text \<open>The sum of two multiples of \<open>2 ^ n\<close> is one.\<close>

lemma and_mask_0: "a AND mask n = 0 \<longleftrightarrow> unat a mod 2 ^ n = 0" for a :: "'a :: len word"
  by (metis unat_and_mask unat_eq_0)

lemma and_mask_add_0:
  fixes a b :: "'a :: len word"
  assumes "a AND mask n = 0" "b AND mask n = 0" "n \<le> LENGTH('a)"
  shows "(a + b) AND mask n = 0"
proof -
  have "(2 :: nat) ^ n dvd 2 ^ LENGTH('a)" using assms(3) by (rule le_imp_power_dvd)
  then have "unat (a + b) mod 2 ^ n = (unat a + unat b) mod 2 ^ n"
    by (simp add: unat_word_ariths mod_mod_cancel)
  also have "\<dots> = 0" using assms(1,2) by (simp add: and_mask_0 mod_add_eq [symmetric] flip: mod_add_eq)
  finally show ?thesis by (simp add: and_mask_0)
qed


subsection \<open>Counting loops over machine words\<close>

lemma unat_inc_less: "unat (i + 1) = unat i + 1" if "i < n" for i n :: "'a :: len word"
proof -
  have "unat i + 1 \<le> unat n" using that by (simp add: word_less_nat_alt)
  also have "unat n < 2 ^ LENGTH('a)" by (rule unsigned_less)
  finally show ?thesis by (simp add: unat_word_ariths)
qed

lemma unat_countdown: "unat (n - (i + 1)) < unat (n - i)" if "i < n" for i n :: "'a :: len word"
proof -
  have "i + 1 \<le> n" "unat i < unat n"
    using that by (simp_all add: inc_le word_less_nat_alt)
  then show ?thesis
    using that by (simp add: unat_sub unat_inc_less word_le_nat_alt less_imp_le)
qed

lemma small_bits: "unat w < 2 ^ k \<Longrightarrow> k \<le> i \<Longrightarrow> \<not> bit w i" for w :: u64
proof -
  assume "unat w < 2 ^ k" "k \<le> i"
  then have "unat w < 2 ^ i" by (meson less_le_trans one_le_numeral power_increasing)
  then have "\<not> bit (unat w) i" by (simp add: bit_iff_odd)
  then show ?thesis by (auto simp: bit_unsigned_iff dest: bit_imp_le_length)
qed


subsection \<open>Widening\<close>

lemma unat_widen: "LENGTH('a :: len) \<le> LENGTH('b :: len) \<Longrightarrow> unat (ucast (x :: 'a word) :: 'b word) = unat x"
proof -
  assume le: "LENGTH('a) \<le> LENGTH('b)"
  have "unat x < 2 ^ LENGTH('a)" by (rule unsigned_less)
  also have "(2 :: nat) ^ LENGTH('a) \<le> 2 ^ LENGTH('b)" using le by simp
  finally show ?thesis by (simp add: unsigned_ucast_eq take_bit_nat_eq_self)
qed

lemma unat_widen_simps [simp]:
  "unat (ucast (x :: u32) :: u64) = unat x" "unat (ucast (y :: u16) :: u64) = unat y"
  "unat (ucast (y :: u16) :: u32) = unat y" "unat (ucast (z :: u8) :: u64) = unat z"
  "unat (ucast (z :: u8) :: u32) = unat z"
  by (rule unat_widen; simp)+

end
