(* ===== verification/Riscv.thy ===== *)
theory Riscv
  imports Prelude
begin

text \<open>
  The part of the RV64 instruction set that the assembly files and the inline assembly of the
  C files use: the integer registers, doubleword loads and stores, the CSR instructions of
  Zicsr, \<open>rdtime\<close>/\<open>rdcycle\<close>, the trap-return instructions, and what the privileged
  architecture does on a trap. It gives the meaning of the assembly the component theories
  translate; it is not itself a translation of a source file.

  Two things are left open, because the architecture leaves them open. \<open>legal\<close> is the hart's
  WARL behaviour: the value a CSR takes when a value is written over an old one. \<open>clock\<close> gives
  what \<open>rdtime\<close> and \<open>rdcycle\<close> return at each retired instruction, and \<open>instret\<close> what \<open>rdinstret\<close> returns there. Memory is addressed by
  doublewords at 8-byte aligned addresses; every store and load of the modelled assembly is a
  64-bit one, and a misaligned one is a \<open>Fault\<close>.
\<close>

unbundle bit_operations_syntax


subsection \<open>State\<close>

datatype csr =
    Mstatus | Misa | Medeleg | Mideleg | Mie | Mtvec | Mcounteren | Menvcfg | Mscratch | Mepc
  | Mcause | Mtval | Mip | Pmpcfg0 | Pmpaddr0 | Pmpaddr1 | Mhartid
  | Sstatus | Sie | Stvec | Sscratch | Sepc | Scause | Stval | Sip | Stimecmp | Satp | Scounteren

datatype priv_mode = UMode | SMode | MMode

record hart =
  gpr :: "nat \<Rightarrow> u64"
  csrf :: "csr \<Rightarrow> u64"
  ram :: "u64 \<Rightarrow> u64"
  pc :: u64
  priv :: priv_mode
  clock :: "nat \<Rightarrow> u64 \<times> u64"
  retired :: nat
  legal :: "csr \<Rightarrow> u64 \<Rightarrow> u64 \<Rightarrow> u64"
  instret :: "nat \<Rightarrow> u64"

definition reg_get :: "nat \<Rightarrow> hart \<Rightarrow> u64" where
  "reg_get r h = (if r = 0 then 0 else gpr h r)"

definition reg_set :: "nat \<Rightarrow> u64 \<Rightarrow> hart \<Rightarrow> hart" where
  "reg_set r v h = (if r = 0 then h else h\<lparr>gpr := (gpr h)(r := v)\<rparr>)"


subsection \<open>Control and status registers\<close>

text \<open>
  \<open>sstatus\<close>, \<open>sie\<close> and \<open>sip\<close> are views of the machine registers. The writable part of
  \<open>sip\<close> is the software interrupt bit alone.
\<close>

definition sstatus_mask :: u64 where
  "sstatus_mask = 0x80000003000DE762"

fun csr_read :: "csr \<Rightarrow> hart \<Rightarrow> u64" where
  "csr_read Sstatus h = csrf h Mstatus AND sstatus_mask"
| "csr_read Sie h = csrf h Mie AND csrf h Mideleg"
| "csr_read Sip h = csrf h Mip AND csrf h Mideleg"
| "csr_read c h = csrf h c"

definition csr_store :: "csr \<Rightarrow> u64 \<Rightarrow> hart \<Rightarrow> hart" where
  "csr_store c v h = h\<lparr>csrf := (csrf h)(c := legal h c (csrf h c) v)\<rparr>"

fun csr_write :: "csr \<Rightarrow> u64 \<Rightarrow> hart \<Rightarrow> hart" where
  "csr_write Sstatus v h =
     csr_store Mstatus ((csrf h Mstatus AND NOT sstatus_mask) OR (v AND sstatus_mask)) h"
| "csr_write Sie v h =
     csr_store Mie ((csrf h Mie AND NOT (csrf h Mideleg)) OR (v AND csrf h Mideleg)) h"
| "csr_write Sip v h =
     csr_store Mip ((csrf h Mip AND NOT (csrf h Mideleg AND 2)) OR (v AND csrf h Mideleg AND 2)) h"
| "csr_write c v h = csr_store c v h"

text \<open>A CSR that keeps every value written to it, as \<open>mscratch\<close> does.\<close>

definition plain_csr :: "hart \<Rightarrow> csr \<Rightarrow> bool" where
  "plain_csr h c \<longleftrightarrow> (\<forall>old v. legal h c old v = v)"


subsection \<open>Traps and trap returns\<close>

definition mpp_of :: "u64 \<Rightarrow> priv_mode" where
  "mpp_of s = (if bit s 12 then MMode else if bit s 11 then SMode else UMode)"

definition put_mpp :: "priv_mode \<Rightarrow> u64 \<Rightarrow> u64" where
  "put_mpp p s = put_bit 12 (p = MMode) (put_bit 11 (p \<noteq> UMode) s)"

text \<open>A trap into M-mode with a direct-mode vector: bits 1:0 of \<open>mtvec\<close> are the mode.\<close>

definition trap_to_m :: "u64 \<Rightarrow> u64 \<Rightarrow> u64 \<Rightarrow> hart \<Rightarrow> hart" where
  "trap_to_m cause epc tval h =
     h\<lparr>csrf := (csrf h)(Mcause := cause, Mepc := epc, Mtval := tval,
         Mstatus := put_mpp (priv h) (put_bit 7 (bit (csrf h Mstatus) 3)
                      (put_bit 3 False (csrf h Mstatus)))),
       priv := MMode,
       pc := csrf h Mtvec AND NOT 3\<rparr>"

text \<open>A trap into S-mode, as delegated.\<close>

definition trap_to_s :: "u64 \<Rightarrow> u64 \<Rightarrow> u64 \<Rightarrow> hart \<Rightarrow> hart" where
  "trap_to_s cause epc tval h =
     h\<lparr>csrf := (csrf h)(Scause := cause, Sepc := epc, Stval := tval,
         Mstatus := put_bit 8 (priv h \<noteq> UMode) (put_bit 5 (bit (csrf h Mstatus) 1)
                      (put_bit 1 False (csrf h Mstatus)))),
       priv := SMode,
       pc := csrf h Stvec AND NOT 3\<rparr>"

definition do_mret :: "hart \<Rightarrow> hart" where
  "do_mret h =
     h\<lparr>csrf := (csrf h)(Mstatus := put_mpp UMode (put_bit 7 True
          (put_bit 3 (bit (csrf h Mstatus) 7) (csrf h Mstatus)))),
       priv := mpp_of (csrf h Mstatus),
       pc := csrf h Mepc\<rparr>"

definition do_sret :: "hart \<Rightarrow> hart" where
  "do_sret h =
     h\<lparr>csrf := (csrf h)(Mstatus := put_bit 8 False (put_bit 5 True
          (put_bit 1 (bit (csrf h Mstatus) 5) (csrf h Mstatus)))),
       priv := (if bit (csrf h Mstatus) 8 then SMode else UMode),
       pc := csrf h Sepc\<rparr>"


subsection \<open>Instructions\<close>

text \<open>
  \<open>Li\<close> also stands for \<open>la\<close>: the linker has chosen the address. The only branches of the
  modelled assembly leave for a park loop (\<open>wfi; j .\<close>), so \<open>Bne_park\<close> ends the run in
  \<open>Parked\<close> when it is taken. The program counter matters at control transfers only and is
  set there.
\<close>

datatype instr =
    Li nat u64
  | Addi nat nat u64
  | Mv nat nat
  | Sd nat u64 nat
  | Ld nat u64 nat
  | Csrr nat csr
  | Csrw csr nat
  | Csrrw nat csr nat
  | Rdtime nat
  | Rdcycle nat
  | Bne_park nat nat
  | Mret
  | Sret
  | Ret

datatype outcome = Running hart | Parked hart | Fault hart

definition retire :: "hart \<Rightarrow> hart" where
  "retire h = h\<lparr>retired := Suc (retired h)\<rparr>"

fun instr_step :: "instr \<Rightarrow> hart \<Rightarrow> outcome" where
  "instr_step (Li rd v) h = Running (retire (reg_set rd v h))"
| "instr_step (Addi rd rs v) h = Running (retire (reg_set rd (reg_get rs h + v) h))"
| "instr_step (Mv rd rs) h = Running (retire (reg_set rd (reg_get rs h) h))"
| "instr_step (Sd rs off base) h =
     (let a = reg_get base h + off in
      if aligned8 a then Running (retire (h\<lparr>ram := (ram h)(a := reg_get rs h)\<rparr>)) else Fault h)"
| "instr_step (Ld rd off base) h =
     (let a = reg_get base h + off in
      if aligned8 a then Running (retire (reg_set rd (ram h a) h)) else Fault h)"
| "instr_step (Csrr rd c) h = Running (retire (reg_set rd (csr_read c h) h))"
| "instr_step (Csrw c rs) h = Running (retire (csr_write c (reg_get rs h) h))"
| "instr_step (Csrrw rd c rs) h =
     Running (retire (reg_set rd (csr_read c h) (csr_write c (reg_get rs h) h)))"
| "instr_step (Rdtime rd) h = Running (retire (reg_set rd (fst (clock h (retired h))) h))"
| "instr_step (Rdcycle rd) h = Running (retire (reg_set rd (snd (clock h (retired h))) h))"
| "instr_step (Bne_park r s) h =
     (if reg_get r h \<noteq> reg_get s h then Parked (retire h) else Running (retire h))"
| "instr_step Mret h = Running (retire (do_mret h))"
| "instr_step Sret h = Running (retire (do_sret h))"
| "instr_step Ret h = Running (retire (h\<lparr>pc := reg_get 1 h\<rparr>))"

fun run_code :: "instr list \<Rightarrow> hart \<Rightarrow> outcome" where
  "run_code [] h = Running h"
| "run_code (i # is) h =
     (case instr_step i h of Running h' \<Rightarrow> run_code is h' | Parked h' \<Rightarrow> Parked h' | Fault h' \<Rightarrow> Fault h')"

text \<open>ABI register numbers.\<close>

abbreviation (input) "xra \<equiv> (1::nat)"
abbreviation (input) "xsp \<equiv> (2::nat)"
abbreviation (input) "xgp \<equiv> (3::nat)"
abbreviation (input) "xtp \<equiv> (4::nat)"
abbreviation (input) "xt0 \<equiv> (5::nat)"
abbreviation (input) "xt1 \<equiv> (6::nat)"
abbreviation (input) "xt2 \<equiv> (7::nat)"
abbreviation (input) "xs0 \<equiv> (8::nat)"
abbreviation (input) "xs1 \<equiv> (9::nat)"
abbreviation (input) "xa0 \<equiv> (10::nat)"
abbreviation (input) "xa1 \<equiv> (11::nat)"
abbreviation (input) "xa2 \<equiv> (12::nat)"
abbreviation (input) "xa3 \<equiv> (13::nat)"
abbreviation (input) "xa4 \<equiv> (14::nat)"
abbreviation (input) "xa5 \<equiv> (15::nat)"
abbreviation (input) "xa6 \<equiv> (16::nat)"
abbreviation (input) "xa7 \<equiv> (17::nat)"
abbreviation (input) "xs2 \<equiv> (18::nat)"
abbreviation (input) "xs3 \<equiv> (19::nat)"
abbreviation (input) "xs4 \<equiv> (20::nat)"
abbreviation (input) "xs5 \<equiv> (21::nat)"
abbreviation (input) "xs6 \<equiv> (22::nat)"
abbreviation (input) "xs7 \<equiv> (23::nat)"
abbreviation (input) "xs8 \<equiv> (24::nat)"
abbreviation (input) "xs9 \<equiv> (25::nat)"
abbreviation (input) "xs10 \<equiv> (26::nat)"
abbreviation (input) "xs11 \<equiv> (27::nat)"
abbreviation (input) "xt3 \<equiv> (28::nat)"
abbreviation (input) "xt4 \<equiv> (29::nat)"
abbreviation (input) "xt5 \<equiv> (30::nat)"
abbreviation (input) "xt6 \<equiv> (31::nat)"


subsection \<open>Execution lemmas\<close>

lemma run_code_append:
  "run_code (xs @ ys) h =
     (case run_code xs h of Running h' \<Rightarrow> run_code ys h' | Parked h' \<Rightarrow> Parked h' | Fault h' \<Rightarrow> Fault h')"
  by (induction xs arbitrary: h) (auto split: outcome.splits)

lemma reg_get_set [machine_simps]:
  "reg_get r (reg_set q v h) = (if r = q \<and> q \<noteq> 0 then v else reg_get r h)"
  by (simp add: reg_get_def reg_set_def)

lemma reg_set_frame [machine_simps]:
  "csrf (reg_set r v h) = csrf h" "ram (reg_set r v h) = ram h" "priv (reg_set r v h) = priv h"
  "clock (reg_set r v h) = clock h" "instret (reg_set r v h) = instret h" "retired (reg_set r v h) = retired h"
  "legal (reg_set r v h) = legal h" "pc (reg_set r v h) = pc h"
  by (simp_all add: reg_set_def)

lemma retire_frame [machine_simps]:
  "reg_get r (retire h) = reg_get r h" "csrf (retire h) = csrf h" "ram (retire h) = ram h"
  "priv (retire h) = priv h" "clock (retire h) = clock h" "instret (retire h) = instret h" "legal (retire h) = legal h"
  "pc (retire h) = pc h" "retired (retire h) = Suc (retired h)"
  by (simp_all add: retire_def reg_get_def)

lemma csr_store_frame [machine_simps]:
  "reg_get r (csr_store c v h) = reg_get r h" "ram (csr_store c v h) = ram h"
  "priv (csr_store c v h) = priv h" "clock (csr_store c v h) = clock h" "instret (csr_store c v h) = instret h"
  "legal (csr_store c v h) = legal h" "retired (csr_store c v h) = retired h"
  "pc (csr_store c v h) = pc h"
  "csrf (csr_store c v h) = (csrf h)(c := legal h c (csrf h c) v)"
  by (simp_all add: csr_store_def reg_get_def)

lemma ram_update_frame [machine_simps]:
  "reg_get r (h\<lparr>ram := m\<rparr>) = reg_get r h"
  "reg_get r (h\<lparr>csrf := f\<rparr>) = reg_get r h"
  "reg_get r (h\<lparr>priv := p\<rparr>) = reg_get r h"
  "reg_get r (h\<lparr>pc := a\<rparr>) = reg_get r h"
  "reg_get r (h\<lparr>retired := n\<rparr>) = reg_get r h"
  by (simp_all add: reg_get_def)


subsection \<open>Blocks of register saves and restores\<close>

text \<open>
  A context save is a run of \<open>sd r, off(base)\<close> and a restore a run of \<open>ld r, off(base)\<close>. The
  two lemmas below execute a whole block at once, whatever its register table is; the
  \<open>save_regs\<close> and \<open>load_regs\<close> lemmas then read single slots back.
\<close>

fun save_regs :: "(nat \<Rightarrow> u64) \<Rightarrow> u64 \<Rightarrow> (nat \<times> u64) list \<Rightarrow> (u64 \<Rightarrow> u64) \<Rightarrow> u64 \<Rightarrow> u64" where
  "save_regs f base [] m = m"
| "save_regs f base ((r, off) # rs) m = save_regs f base rs (m(base + off := f r))"

fun load_regs :: "(u64 \<Rightarrow> u64) \<Rightarrow> u64 \<Rightarrow> (nat \<times> u64) list \<Rightarrow> (nat \<Rightarrow> u64) \<Rightarrow> nat \<Rightarrow> u64" where
  "load_regs m base [] g = g"
| "load_regs m base ((r, off) # rs) g = load_regs m base rs (g(r := m (base + off)))"

abbreviation save_block :: "nat \<Rightarrow> (nat \<times> u64) list \<Rightarrow> instr list" where
  "save_block b rs \<equiv> map (\<lambda>(r, off). Sd r off b) rs"

abbreviation load_block :: "nat \<Rightarrow> (nat \<times> u64) list \<Rightarrow> instr list" where
  "load_block b rs \<equiv> map (\<lambda>(r, off). Ld r off b) rs"

definition offsets_aligned :: "(nat \<times> u64) list \<Rightarrow> bool" where
  "offsets_aligned rs \<longleftrightarrow> list_all (\<lambda>(r, off). off AND 7 = 0) rs"

lemma run_save_block:
  "aligned8 (reg_get b h) \<Longrightarrow> offsets_aligned rs \<Longrightarrow>
   run_code (save_block b rs) h =
     Running (h\<lparr>ram := save_regs (\<lambda>r. reg_get r h) (reg_get b h) rs (ram h),
                retired := retired h + length rs\<rparr>)"
proof (induction rs arbitrary: h)
  case Nil
  then show ?case by simp
next
  case (Cons p rs)
  obtain r off where p: "p = (r, off)" by (cases p)
  let ?h1 = "retire (h\<lparr>ram := (ram h)(reg_get b h + off := reg_get r h)\<rparr>)"
  from Cons.prems have "aligned8 (reg_get b h + off)"
    by (simp add: offsets_aligned_def p aligned8_offset)
  moreover have regs: "reg_get q ?h1 = reg_get q h" for q
    by (simp add: machine_simps)
  moreover have "run_code (save_block b rs) ?h1 =
      Running (?h1\<lparr>ram := save_regs (\<lambda>r. reg_get r ?h1) (reg_get b ?h1) rs (ram ?h1),
                   retired := retired ?h1 + length rs\<rparr>)"
    by (rule Cons.IH) (use Cons.prems regs in \<open>simp_all add: offsets_aligned_def p\<close>)
  ultimately show ?case
    by (simp add: p Let_def machine_simps) (simp add: retire_def)
qed

lemma run_load_block:
  "aligned8 (reg_get b h) \<Longrightarrow> offsets_aligned rs \<Longrightarrow> b \<notin> fst ` set rs \<Longrightarrow> 0 \<notin> fst ` set rs \<Longrightarrow>
   run_code (load_block b rs) h =
     Running (h\<lparr>gpr := load_regs (ram h) (reg_get b h) rs (gpr h),
                retired := retired h + length rs\<rparr>)"
proof (induction rs arbitrary: h)
  case Nil
  then show ?case by simp
next
  case (Cons p rs)
  obtain r off where p: "p = (r, off)" by (cases p)
  let ?h1 = "retire (reg_set r (ram h (reg_get b h + off)) h)"
  from Cons.prems have r: "r \<noteq> b" "r \<noteq> 0" by (auto simp: p)
  from Cons.prems have "aligned8 (reg_get b h + off)"
    by (simp add: offsets_aligned_def p aligned8_offset)
  moreover have base: "reg_get b ?h1 = reg_get b h" using r by (simp add: machine_simps)
  moreover have "run_code (load_block b rs) ?h1 =
      Running (?h1\<lparr>gpr := load_regs (ram ?h1) (reg_get b ?h1) rs (gpr ?h1),
                   retired := retired ?h1 + length rs\<rparr>)"
    by (rule Cons.IH) (use Cons.prems base in \<open>auto simp: offsets_aligned_def p\<close>)
  ultimately show ?case
    using r by (simp add: p Let_def) (simp add: retire_def reg_set_def)
qed

lemma save_regs_other: "a \<notin> (\<lambda>(r, off). base + off) ` set rs \<Longrightarrow> save_regs f base rs m a = m a"
  by (induction rs arbitrary: m) auto

lemma save_regs_slot:
  "distinct (map snd rs) \<Longrightarrow> (r, off) \<in> set rs \<Longrightarrow> save_regs f base rs m (base + off) = f r"
proof (induction rs arbitrary: m)
  case Nil
  then show ?case by simp
next
  case (Cons p rs)
  show ?case
  proof (cases "p = (r, off)")
    case True
    with Cons.prems have "base + off \<notin> (\<lambda>(r, off). base + off) ` set rs"
      by (force simp: image_iff)
    with True show ?thesis by (simp add: save_regs_other)
  next
    case False
    with Cons show ?thesis by (cases p) auto
  qed
qed

lemma load_regs_other: "r \<notin> fst ` set rs \<Longrightarrow> load_regs m base rs g r = g r"
  by (induction rs arbitrary: g) auto

lemma load_regs_slot:
  "distinct (map fst rs) \<Longrightarrow> (r, off) \<in> set rs \<Longrightarrow> load_regs m base rs g r = m (base + off)"
proof (induction rs arbitrary: g)
  case Nil
  then show ?case by simp
next
  case (Cons p rs)
  show ?case
  proof (cases "p = (r, off)")
    case True
    with Cons.prems have "r \<notin> fst ` set rs" by auto
    with True show ?thesis by (simp add: load_regs_other)
  next
    case False
    with Cons show ?thesis by (cases p) auto
  qed
qed

lemma load_regs_cong:
  "(\<And>r off. (r, off) \<in> set rs \<Longrightarrow> m (base + off) = m' (base + off)) \<Longrightarrow>
   load_regs m base rs g = load_regs m' base rs g"
proof (induction rs arbitrary: g)
  case Nil
  then show ?case by simp
next
  case (Cons p rs)
  obtain r off where p: "p = (r, off)" by (cases p)
  have "m (base + off) = m' (base + off)" by (rule Cons.prems [of r]) (simp add: p)
  moreover have "load_regs m base rs g' = load_regs m' base rs g'" for g'
    by (rule Cons.IH) (metis Cons.prems list.set_intros(2))
  ultimately show ?case by (simp add: p)
qed

lemma mpp_trap: "mpp_of (csrf (trap_to_m c e t h) Mstatus) = priv h"
  by (cases "priv h") (simp_all add: trap_to_m_def mpp_of_def put_mpp_def bit_put_bit)

end
