(* ===== verification/Uart.thy ===== *)
theory Uart
  imports Prelude "HOL-Library.Monad_Syntax"
begin

text \<open>
  \<open>src/src/uart.c\<close>: the polled ns16550a driver that every program of the repository prints
  with. The device is not part of the repository. What it answers to a status read and to a
  receive-buffer read is a parameter (\<open>lsr_src\<close>, \<open>rbr_src\<close>: the value of the n-th read), what
  the driver writes to it is logged. The driver's operations return \<open>None\<close> where the C code
  would poll forever or leave its buffer.

  The second half is the view of the driver the other components use: text appended to a
  console. The last theorem of this theory relates the two.
\<close>

unbundle bit_operations_syntax


subsection \<open>The driver\<close>

record uart_dev =
  lsr_src :: "nat \<Rightarrow> u8"
  lsr_reads :: nat
  rbr_src :: "nat \<Rightarrow> u8"
  rbr_reads :: nat
  thr_log :: "u8 list"
  lcr :: u8

definition LSR_THRE :: u8 where "LSR_THRE = push_bit 5 1"
definition LSR_DR :: u8 where "LSR_DR = push_bit 0 1"

definition read_lsr :: "uart_dev \<Rightarrow> u8 \<times> uart_dev" where
  "read_lsr d = (lsr_src d (lsr_reads d), d\<lparr>lsr_reads := Suc (lsr_reads d)\<rparr>)"

definition read_rbr :: "uart_dev \<Rightarrow> u8 \<times> uart_dev" where
  "read_rbr d = (rbr_src d (rbr_reads d), d\<lparr>rbr_reads := Suc (rbr_reads d)\<rparr>)"

definition write_thr :: "u8 \<Rightarrow> uart_dev \<Rightarrow> uart_dev" where
  "write_thr v d = d\<lparr>thr_log := thr_log d @ [v]\<rparr>"

definition uart_init :: "uart_dev \<Rightarrow> uart_dev" where
  "uart_init d = d\<lparr>lcr := 0x03\<rparr>"

text \<open>\<open>while ((*uart_reg(UART_LSR) & m) == 0) ;\<close>\<close>

partial_function (option) poll_lsr :: "u8 \<Rightarrow> uart_dev \<Rightarrow> uart_dev option" where
  "poll_lsr m d =
     (case read_lsr d of (v, d') \<Rightarrow> if v AND m = 0 then poll_lsr m d' else Some d')"

abbreviation LF :: char where "LF \<equiv> CHR 0x0A"
abbreviation CR :: char where "CR \<equiv> CHR 0x0D"
abbreviation NUL :: char where "NUL \<equiv> CHR 0x00"

function uart_putc :: "char \<Rightarrow> uart_dev \<Rightarrow> uart_dev option" where
  "uart_putc c d =
     (case (if c = LF then uart_putc CR d else Some d) of
        None \<Rightarrow> None
      | Some d1 \<Rightarrow> (case poll_lsr LSR_THRE d1 of
                      None \<Rightarrow> None
                    | Some d2 \<Rightarrow> Some (write_thr (of_char c) d2)))"
  by pat_completeness auto
termination
  by (relation "measure (\<lambda>(c, d). if c = LF then 1 else 0)") auto

fun uart_puts :: "string \<Rightarrow> uart_dev \<Rightarrow> uart_dev option" where
  "uart_puts [] d = Some d"
| "uart_puts (c # cs) d =
     (if c = NUL then Some d
      else case uart_putc c d of None \<Rightarrow> None | Some d' \<Rightarrow> uart_puts cs d')"

text \<open>
  The digit loop of \<open>uart_put_uint\<close> fills \<open>char buf[24]\<close> from the least significant digit;
  a 25th store would leave the buffer. The second loop prints the buffer backwards.
\<close>

function digit_loop :: "u64 \<Rightarrow> u64 \<Rightarrow> string \<Rightarrow> string \<Rightarrow> string option" where
  "digit_loop v base digits buf =
     (if v > 0
      then if length buf < 24
           then digit_loop (v div base) base digits (buf @ [digits ! unat (v mod base)])
           else None
      else Some buf)"
  by pat_completeness auto
termination
  by (relation "measure (\<lambda>(v, base, digits, buf). 24 - length buf)") auto

fun put_backwards :: "string \<Rightarrow> uart_dev \<Rightarrow> uart_dev option" where
  "put_backwards [] d = Some d"
| "put_backwards (c # cs) d =
     (case uart_putc c d of None \<Rightarrow> None | Some d' \<Rightarrow> put_backwards cs d')"

definition uart_put_uint :: "u64 \<Rightarrow> u64 \<Rightarrow> string \<Rightarrow> uart_dev \<Rightarrow> uart_dev option" where
  "uart_put_uint v base digits d =
     (if v = 0 then uart_putc (CHR ''0'') d
      else case digit_loop v base digits [] of
             None \<Rightarrow> None
           | Some buf \<Rightarrow> put_backwards (rev buf) d)"

definition uart_put_hex :: "u64 \<Rightarrow> uart_dev \<Rightarrow> uart_dev option" where
  "uart_put_hex v d =
     (case uart_puts ''0x'' d of
        None \<Rightarrow> None
      | Some d' \<Rightarrow> uart_put_uint v 16 ''0123456789abcdef'' d')"

definition uart_put_dec :: "u64 \<Rightarrow> uart_dev \<Rightarrow> uart_dev option" where
  "uart_put_dec v d = uart_put_uint v 10 ''0123456789'' d"

definition uart_getc :: "uart_dev \<Rightarrow> (char \<times> uart_dev) option" where
  "uart_getc d =
     (case poll_lsr LSR_DR d of
        None \<Rightarrow> None
      | Some d' \<Rightarrow> (case read_rbr d' of (v, d'') \<Rightarrow> Some (char_of (unat v), d'')))"


subsection \<open>The console view\<close>

text \<open>
  A program prints string literals, characters, decimal and hexadecimal numbers. \<open>show_base\<close>
  is ordinary positional notation; \<open>crlf\<close> is the newline expansion of \<open>uart_putc\<close>.
\<close>

definition digit_char :: "nat \<Rightarrow> char" where
  "digit_char d = ''0123456789abcdef'' ! d"

function show_base :: "nat \<Rightarrow> nat \<Rightarrow> string" where
  "show_base b n =
     (if b < 2 \<or> n < b then [digit_char n] else show_base b (n div b) @ [digit_char (n mod b)])"
  by pat_completeness auto
termination
  by (relation "measure snd") auto

declare show_base.simps [simp del] digit_loop.simps [simp del] uart_putc.simps [simp del]

definition digit_val :: "char \<Rightarrow> nat" where
  "digit_val c = (let n = of_char c in if n < 58 then n - 48 else n - 87)"

definition parse_base :: "nat \<Rightarrow> string \<Rightarrow> nat" where
  "parse_base b s = foldl (\<lambda>a c. a * b + digit_val c) 0 s"

definition crlf :: "string \<Rightarrow> string" where
  "crlf s = concat (map (\<lambda>c. if c = LF then [CR, LF] else [c]) s)"

datatype piece = Str string | Chr char | Dec u64 | Hex u64

fun piece_text :: "piece \<Rightarrow> string" where
  "piece_text (Str s) = s"
| "piece_text (Chr c) = [c]"
| "piece_text (Dec v) = show_base 10 (unat v)"
| "piece_text (Hex v) = ''0x'' @ show_base 16 (unat v)"

definition text_of :: "piece list \<Rightarrow> string" where
  "text_of ps = concat (map piece_text ps)"

lemma text_of_append: "text_of (ps @ qs) = text_of ps @ text_of qs"
  by (simp add: text_of_def)

record console =
  out :: string

definition emit :: "piece list \<Rightarrow> 'a console_scheme \<Rightarrow> 'a console_scheme" where
  "emit ps s = s\<lparr>out := out s @ text_of ps\<rparr>"

text \<open>The same pieces sent through the driver, one call per piece.\<close>

fun drive_piece :: "piece \<Rightarrow> uart_dev \<Rightarrow> uart_dev option" where
  "drive_piece (Str s) d = uart_puts s d"
| "drive_piece (Chr c) d = uart_putc c d"
| "drive_piece (Dec v) d = uart_put_dec v d"
| "drive_piece (Hex v) d = uart_put_hex v d"

fun drive :: "piece list \<Rightarrow> uart_dev \<Rightarrow> uart_dev option" where
  "drive [] d = Some d"
| "drive (p # ps) d = (case drive_piece p d of None \<Rightarrow> None | Some d' \<Rightarrow> drive ps d')"

fun nul_free :: "piece \<Rightarrow> bool" where
  "nul_free (Str s) = (NUL \<notin> set s)"
| "nul_free (Chr c) = True"
| "nul_free (Dec v) = True"
| "nul_free (Hex v) = True"

text \<open>
  What the data sheet promises of the device: from any point on, a status read will
  eventually show the transmitter empty (respectively a received byte ready).
\<close>

definition lsr_live :: "u8 \<Rightarrow> uart_dev \<Rightarrow> bool" where
  "lsr_live m d \<longleftrightarrow> (\<forall>n. \<exists>k\<ge>n. lsr_src d k AND m \<noteq> 0)"

definition sent :: "uart_dev \<Rightarrow> string" where
  "sent d = map (\<lambda>b. char_of (unat b)) (thr_log d)"



subsection \<open>Polling\<close>

lemma lsr_live_reads [simp]: "lsr_live m (d\<lparr>lsr_reads := k\<rparr>) = lsr_live m d"
  by (simp add: lsr_live_def)

lemma poll_lsr_hit:
  "lsr_src d (lsr_reads d + n) AND m \<noteq> 0 \<Longrightarrow> \<exists>k. poll_lsr m d = Some (d\<lparr>lsr_reads := k\<rparr>)"
proof (induction n arbitrary: d)
  case 0
  then have "poll_lsr m d = Some (d\<lparr>lsr_reads := Suc (lsr_reads d)\<rparr>)"
    by (simp add: poll_lsr.simps read_lsr_def)
  then show ?case by blast
next
  case (Suc n)
  let ?d = "d\<lparr>lsr_reads := Suc (lsr_reads d)\<rparr>"
  show ?case
  proof (cases "lsr_src d (lsr_reads d) AND m = 0")
    case True
    from Suc.prems have "\<exists>k. poll_lsr m ?d = Some (?d\<lparr>lsr_reads := k\<rparr>)"
      by (intro Suc.IH) simp
    with True show ?thesis
      by (subst poll_lsr.simps) (simp add: read_lsr_def)
  next
    case False
    then have "poll_lsr m d = Some ?d" by (subst poll_lsr.simps) (simp add: read_lsr_def)
    then show ?thesis by blast
  qed
qed

lemma poll_lsr_live: "lsr_live m d \<Longrightarrow> \<exists>k. poll_lsr m d = Some (d\<lparr>lsr_reads := k\<rparr>)"
proof -
  assume "lsr_live m d"
  then obtain k where "lsr_reads d \<le> k" "lsr_src d k AND m \<noteq> 0"
    by (auto simp: lsr_live_def)
  then have "lsr_src d (lsr_reads d + (k - lsr_reads d)) AND m \<noteq> 0" by simp
  then show ?thesis by (rule poll_lsr_hit)
qed


subsection \<open>A character device\<close>

text \<open>
  What a client of \<open>uart_putc\<close> relies on: on a live device a character is accepted, its
  expansion is appended to what was sent, and the device stays live. Strings and digit
  buffers follow for any such device.
\<close>

locale char_device =
  fixes send :: "char \<Rightarrow> 'd \<Rightarrow> 'd option"
    and expand :: "char \<Rightarrow> string"
    and log :: "'d \<Rightarrow> string"
    and live :: "'d \<Rightarrow> bool"
  assumes send_live: "live d \<Longrightarrow> \<exists>d'. send c d = Some d' \<and> log d' = log d @ expand c \<and> live d'"
begin

fun send_all :: "string \<Rightarrow> 'd \<Rightarrow> 'd option" where
  "send_all [] d = Some d"
| "send_all (c # cs) d = (case send c d of None \<Rightarrow> None | Some d' \<Rightarrow> send_all cs d')"

lemma send_all_live:
  "live d \<Longrightarrow> \<exists>d'. send_all s d = Some d' \<and> log d' = log d @ concat (map expand s) \<and> live d'"
proof (induction s arbitrary: d)
  case Nil
  then show ?case by simp
next
  case (Cons c s)
  from send_live [OF Cons.prems, of c] obtain d1
    where "send c d = Some d1" "log d1 = log d @ expand c" "live d1" by blast
  with Cons.IH [of d1] show ?case by auto
qed

end

lemma char_of_unat_of_char: "char_of (unat (of_char c :: u8)) = c"
proof -
  have "(of_char c :: u8) = of_nat (of_char c)" by (simp only: of_nat_of_char)
  moreover have "(of_char c :: nat) mod 256 = of_char c" by simp
  ultimately have "unat (of_char c :: u8) = of_char c"
    by (simp add: unat_of_nat)
  then show ?thesis by simp
qed

lemma sent_write_thr: "sent (write_thr (of_char c) d) = sent d @ [c]"
  by (simp add: sent_def write_thr_def char_of_unat_of_char)

lemma sent_lsr_reads [simp]: "sent (d\<lparr>lsr_reads := k\<rparr>) = sent d"
  by (simp add: sent_def)

lemma lsr_live_write_thr [simp]: "lsr_live m (write_thr v d) = lsr_live m d"
  by (simp add: lsr_live_def write_thr_def)

text \<open>\<open>uart_putc\<close> on a character other than newline: one poll, one store.\<close>

lemma uart_putc_plain:
  assumes "lsr_live LSR_THRE d" and "c \<noteq> LF"
  shows "\<exists>k. uart_putc c d = Some (write_thr (of_char c) (d\<lparr>lsr_reads := k\<rparr>))"
  using poll_lsr_live [OF assms(1)] assms(2) by (auto simp: uart_putc.simps)

lemma uart_putc_live:
  assumes "lsr_live LSR_THRE d"
  shows "\<exists>d'. uart_putc c d = Some d' \<and> sent d' = sent d @ crlf [c] \<and> lsr_live LSR_THRE d'"
proof (cases "c = LF")
  case False
  from uart_putc_plain [OF assms False] obtain k
    where "uart_putc c d = Some (write_thr (of_char c) (d\<lparr>lsr_reads := k\<rparr>))" by blast
  with False assms show ?thesis by (simp add: sent_write_thr crlf_def)
next
  case True
  from uart_putc_plain [OF assms, of CR] obtain k
    where cr: "uart_putc CR d = Some (write_thr (of_char CR) (d\<lparr>lsr_reads := k\<rparr>))" by auto
  let ?d1 = "write_thr (of_char CR) (d\<lparr>lsr_reads := k\<rparr>)"
  have "lsr_live LSR_THRE ?d1" using assms by simp
  from poll_lsr_live [OF this] obtain j
    where "poll_lsr LSR_THRE ?d1 = Some (?d1\<lparr>lsr_reads := j\<rparr>)" by blast
  with True cr have "uart_putc c d = Some (write_thr (of_char LF) (?d1\<lparr>lsr_reads := j\<rparr>))"
    by (simp add: uart_putc.simps [of LF d])
  moreover have "sent (write_thr (of_char LF) (?d1\<lparr>lsr_reads := j\<rparr>)) = sent d @ [CR, LF]"
    by (simp only: sent_write_thr sent_lsr_reads append_assoc append.simps)
  ultimately show ?thesis using True assms by (simp add: crlf_def)
qed

interpretation uart: char_device uart_putc "\<lambda>c. crlf [c]" sent "lsr_live LSR_THRE"
  by unfold_locales (rule uart_putc_live)

lemma crlf_concat: "concat (map (\<lambda>c. crlf [c]) s) = crlf s"
  by (simp add: crlf_def)

lemma crlf_append: "crlf (s @ t) = crlf s @ crlf t"
  by (simp add: crlf_def)

lemma uart_puts_send_all: "NUL \<notin> set s \<Longrightarrow> uart_puts s d = uart.send_all s d"
  by (induction s arbitrary: d) (auto split: option.split)

lemma put_backwards_send_all: "put_backwards s d = uart.send_all s d"
  by (induction s arbitrary: d) (auto split: option.split)



subsection \<open>Numbers as text\<close>

text \<open>
  Computing with \<open>w\<close> in base 10 or 16 on words agrees with \<open>nat\<close> arithmetic, and the digit
  loop produces the digits of \<open>show_base\<close> in reverse. A 64-bit value has at most 20 decimal
  and 16 hexadecimal digits, so the 24-byte buffer suffices.
\<close>

lemma length_show_base:
  "2 \<le> b \<Longrightarrow> n < b ^ k \<Longrightarrow> 0 < k \<Longrightarrow> length (show_base b n) \<le> k"
proof (induction b n arbitrary: k rule: show_base.induct)
  case (1 b n)
  show ?case
  proof (cases "b < 2 \<or> n < b")
    case True
    with "1.prems" show ?thesis by (subst show_base.simps) simp
  next
    case False
    from "1.prems" obtain j where j: "k = Suc j" by (cases k) auto
    with False "1.prems" have k: "k = Suc j" "0 < j" by (cases j; auto)+
    from False "1.prems" k have "n div b < b ^ j"
      by (simp add: less_mult_imp_div_less mult.commute)
    with False k "1.IH" "1.prems" have "length (show_base b (n div b)) \<le> j" by blast
    with False k show ?thesis by (subst show_base.simps) simp
  qed
qed

lemma show_base_nonempty [simp]: "show_base b n \<noteq> []"
  by (subst show_base.simps) simp

lemma digit_loop_show_base:
  assumes "2 \<le> b" "b \<le> 16" "unat base = b"
    and "\<And>d. d < b \<Longrightarrow> digits ! d = digit_char d"
  shows "0 < v \<Longrightarrow> length buf + length (show_base b (unat v)) \<le> 24 \<Longrightarrow>
    digit_loop v base digits buf = Some (buf @ rev (show_base b (unat v)))"
proof (induction "unat v" arbitrary: v buf rule: less_induct)
  case less
  have div: "unat (v div base) = unat v div b" and mod: "unat (v mod base) = unat v mod b"
    using assms(3) by (simp_all add: unat_div unat_mod)
  have pos: "0 < unat v" using less.prems by (simp add: unat_gt_0)
  have digit: "digits ! unat (v mod base) = digit_char (unat v mod b)"
    using assms(1,4) mod by simp
  have step: "digit_loop v base digits buf =
      digit_loop (v div base) base digits (buf @ [digit_char (unat v mod b)])"
  proof -
    have "0 < length (show_base b (unat v))" by simp
    then have "length buf < 24" using less.prems by linarith
    with less.prems digit show ?thesis by (subst digit_loop.simps) simp
  qed
  show ?case
  proof (cases "unat v < b")
    case True
    then have "v div base = 0" using div by (simp add: unat_eq_0 [symmetric])
    with True step show ?thesis
      by (simp add: digit_loop.simps [of 0] show_base.simps [of b "unat v"])
  next
    case False
    have smaller: "unat (v div base) < unat v" using div assms(1) pos by simp
    have nz: "0 < v div base" using False div assms(1) by (simp add: word_less_nat_alt div_greater_zero_iff)
    have sb: "show_base b (unat v) = show_base b (unat v div b) @ [digit_char (unat v mod b)]"
      using False assms(1) by (subst show_base.simps) simp
    have "digit_loop (v div base) base digits (buf @ [digit_char (unat v mod b)])
        = Some ((buf @ [digit_char (unat v mod b)]) @ rev (show_base b (unat (v div base))))"
      by (rule less.hyps [OF smaller nz]) (use less.prems sb div in simp)
    with step sb div show ?thesis by simp
  qed
qed

lemma unat_base: "unat (10 :: u64) = 10" "unat (16 :: u64) = 16"
  by simp_all

lemma digits10: "d < 10 \<Longrightarrow> ''0123456789'' ! d = digit_char d"
  by (simp add: digit_char_def nth_Cons split: nat.splits)

lemma digits16: "d < 16 \<Longrightarrow> ''0123456789abcdef'' ! d = digit_char d"
  by (simp add: digit_char_def)

lemma show_base_fits:
  "length (show_base 10 (unat (v :: u64))) \<le> 20" "length (show_base 16 (unat (v :: u64))) \<le> 16"
proof -
  have v: "unat v < 2 ^ 64" using unsigned_less [of v] by simp
  show "length (show_base 10 (unat v)) \<le> 20"
    by (rule length_show_base) (use v in simp_all)
  show "length (show_base 16 (unat v)) \<le> 16"
    by (rule length_show_base) (use v in simp_all)
qed

lemma show_base_0 [simp]: "show_base b 0 = ''0''"
  by (subst show_base.simps) (auto simp: digit_char_def)

lemma uart_put_uint_live:
  assumes "lsr_live LSR_THRE d"
    and "2 \<le> b" "b \<le> 16" "unat base = b" "\<And>d. d < b \<Longrightarrow> digits ! d = digit_char d"
    and "length (show_base b (unat v)) \<le> 24"
  shows "\<exists>d'. uart_put_uint v base digits d = Some d' \<and>
    sent d' = sent d @ crlf (show_base b (unat v)) \<and> lsr_live LSR_THRE d'"
proof (cases "v = 0")
  case True
  with uart.send_live [OF assms(1)] show ?thesis by (simp add: uart_put_uint_def)
next
  case False
  then have "0 < v" by (simp add: word_gt_0)
  have "digit_loop v base digits [] = Some ([] @ rev (show_base b (unat v)))"
    by (rule digit_loop_show_base) (use assms \<open>0 < v\<close> in simp_all)
  with False uart.send_all_live [OF assms(1), of "show_base b (unat v)"] show ?thesis
    by (simp add: uart_put_uint_def put_backwards_send_all crlf_concat)
qed

lemma drive_piece_live:
  assumes "lsr_live LSR_THRE d" "nul_free p"
  shows "\<exists>d'. drive_piece p d = Some d' \<and> sent d' = sent d @ crlf (piece_text p) \<and>
    lsr_live LSR_THRE d'"
proof (cases p)
  case (Str s)
  with assms uart.send_all_live [OF assms(1), of s] show ?thesis
    by (simp add: uart_puts_send_all crlf_concat)
next
  case (Chr c)
  with uart.send_live [OF assms(1)] show ?thesis by simp
next
  case (Dec v)
  have "length (show_base 10 (unat v)) \<le> 24"
    using show_base_fits(1) [of v] by linarith
  with uart_put_uint_live [OF assms(1) _ _ _ digits10] Dec show ?thesis
    by (simp add: uart_put_dec_def)
next
  case (Hex v)
  have "uart_puts ''0x'' d = uart.send_all ''0x'' d" by (rule uart_puts_send_all) simp
  then obtain d1 where d1: "uart_puts ''0x'' d = Some d1" "sent d1 = sent d @ crlf ''0x''"
    "lsr_live LSR_THRE d1"
    using uart.send_all_live [OF assms(1), of "''0x''"] unfolding crlf_concat by metis
  have len: "length (show_base 16 (unat v)) \<le> 24"
    using show_base_fits(2) [of v] by linarith
  have "\<exists>d2. uart_put_uint v 16 ''0123456789abcdef'' d1 = Some d2 \<and>
      sent d2 = sent d1 @ crlf (show_base 16 (unat v)) \<and> lsr_live LSR_THRE d2"
    by (rule uart_put_uint_live [OF d1(3) _ _ unat_base(2) digits16]) (use len in simp_all)
  then obtain d2 where d2: "uart_put_uint v 16 ''0123456789abcdef'' d1 = Some d2"
      "sent d2 = sent d1 @ crlf (show_base 16 (unat v))" "lsr_live LSR_THRE d2" by blast
  have "drive_piece p d = Some d2" by (simp only: Hex drive_piece.simps uart_put_hex_def d1 d2 option.case)
  moreover have "sent d2 = sent d @ crlf (piece_text p)"
    by (simp only: Hex piece_text.simps crlf_append d1 d2 append_assoc)
  ultimately show ?thesis using d2(3) by blast
qed

lemma drive_live:
  assumes "lsr_live LSR_THRE d" "list_all nul_free ps"
  shows "\<exists>d'. drive ps d = Some d' \<and> sent d' = sent d @ crlf (text_of ps) \<and> lsr_live LSR_THRE d'"
  using assms
proof (induction ps arbitrary: d)
  case Nil
  then show ?case by (simp add: text_of_def crlf_def)
next
  case (Cons p ps)
  then obtain d1 where d1: "drive_piece p d = Some d1" "sent d1 = sent d @ crlf (piece_text p)"
    "lsr_live LSR_THRE d1"
    using drive_piece_live [of d p] by auto
  from Cons.prems have "list_all nul_free ps" by simp
  from Cons.IH [OF d1(3) this] d1 show ?case
    by (auto simp: text_of_def crlf_append)
qed


lemma digit_val_digit_char: "d < 16 \<Longrightarrow> digit_val (digit_char d) = d"
proof -
  have "list_all (\<lambda>d. digit_val (digit_char d) = d) [0..<16]" by code_simp
  then show "d < 16 \<Longrightarrow> digit_val (digit_char d) = d" by (simp add: list_all_iff)
qed

lemma parse_show_base: "2 \<le> b \<Longrightarrow> b \<le> 16 \<Longrightarrow> parse_base b (show_base b n) = n"
proof (induction b n rule: show_base.induct)
  case (1 b n)
  show ?case
  proof (cases "n < b")
    case True
    with "1.prems" show ?thesis
      by (subst show_base.simps) (simp add: parse_base_def digit_val_digit_char)
  next
    case False
    with "1.prems" have "parse_base b (show_base b (n div b)) = n div b"
      by (intro "1.IH") auto
    moreover have "digit_val (digit_char (n mod b)) = n mod b"
    proof -
      have "n mod b < b" using "1.prems" by (intro mod_less_divisor) linarith
      then show ?thesis using "1.prems" by (intro digit_val_digit_char) linarith
    qed
    ultimately show ?thesis
      using False "1.prems" by (subst show_base.simps) (simp add: parse_base_def)
  qed
qed

lemma digit_loop_text:
  assumes "base = 10 \<and> digits = ''0123456789'' \<and> b = 10 \<or>
    base = 16 \<and> digits = ''0123456789abcdef'' \<and> b = 16"
  shows "\<exists>buf. digit_loop v base digits [] = Some buf \<and> length buf \<le> 20 \<and>
    parse_base b (rev buf) = unat v"
proof (cases "v = 0")
  case True
  then show ?thesis by (simp add: digit_loop.simps parse_base_def)
next
  case False
  then have v: "0 < v" by (simp add: word_gt_0)
  have fits: "length (show_base b (unat v)) \<le> 20"
    using assms show_base_fits [of v] by auto
  have b: "2 \<le> b" "b \<le> 16" "unat base = b" using assms unat_base by auto
  have "digit_loop v base digits [] = Some ([] @ rev (show_base b (unat v)))"
    by (rule digit_loop_show_base [OF b _ v])
       (use assms fits digits10 digits16 in \<open>auto simp del: nth_Cons'\<close>)
  then show ?thesis using fits b by (simp add: parse_show_base)
qed


subsection \<open>Properties\<close>

text \<open>
  C1. On a device whose transmitter keeps becoming ready, any sequence of \<open>uart_puts\<close>,
  \<open>uart_putc\<close>, \<open>uart_put_dec\<close> and \<open>uart_put_hex\<close> calls returns, and the bytes stored to the
  transmit register are exactly the printed text with every newline sent as CR LF.
\<close>

theorem uart_sends_console_text:
  assumes "lsr_live LSR_THRE d" and "list_all nul_free ps"
  shows "\<exists>d'. drive ps d = Some d' \<and> sent d' = sent d @ crlf (text_of ps) \<and> lsr_live LSR_THRE d'"
  using assms by (rule drive_live)

theorem uart_sends_console_text_witness:
  "\<exists>d'. drive [Str ''tick '', Dec 42, Chr LF]
       \<lparr>lsr_src = (\<lambda>n. if even n then 0 else 0x60), lsr_reads = 0, rbr_src = (\<lambda>_. 0),
        rbr_reads = 0, thr_log = [], lcr = 3\<rparr> = Some d' \<and>
     sent d' = crlf (text_of [Str ''tick '', Dec 42, Chr LF])"
proof -
  let ?d = "\<lparr>lsr_src = (\<lambda>n. if even n then 0 else 0x60), lsr_reads = 0, rbr_src = (\<lambda>_. 0),
        rbr_reads = 0, thr_log = [], lcr = 3\<rparr> :: uart_dev"
  have "\<exists>k\<ge>n. (if even k then 0 else 0x60 :: u8) AND LSR_THRE \<noteq> 0" for n :: nat
    by (rule exI [of _ "2 * n + 1"]) (simp add: LSR_THRE_def)
  then have live: "lsr_live LSR_THRE ?d" by (simp add: lsr_live_def)
  have "list_all nul_free [Str ''tick '', Dec 42, Chr LF]" by simp
  from uart_sends_console_text [OF live this] obtain d'
    where "drive [Str ''tick '', Dec 42, Chr LF] ?d = Some d'"
      "sent d' = sent ?d @ crlf (text_of [Str ''tick '', Dec 42, Chr LF])" by blast
  moreover have "sent ?d = []" by (simp add: sent_def)
  ultimately show ?thesis by (simp only: append_Nil) blast
qed

text \<open>
  The digit loop of \<open>uart_put_uint\<close> never leaves its 24-byte buffer for any 64-bit value in
  either base the driver uses, it stores at most 20 digits, and the digits read in print order
  denote the value that was passed.
\<close>

theorem uart_put_uint_digits_exact:
  "(\<exists>buf. digit_loop v 10 ''0123456789'' [] = Some buf \<and> length buf \<le> 20 \<and>
      parse_base 10 (rev buf) = unat v) \<and>
   (\<exists>buf. digit_loop v 16 ''0123456789abcdef'' [] = Some buf \<and> length buf \<le> 20 \<and>
      parse_base 16 (rev buf) = unat v)"
  using digit_loop_text [of 10 "''0123456789''" 10 v]
    digit_loop_text [of 16 "''0123456789abcdef''" 16 v] by blast

end
