(* ===== verification/Sched.thy ===== *)
theory Sched
  imports Riscv Uart
begin

text \<open>
  The cooperative round-robin scheduler: \<open>src/src/switch.S\<close> (the register context switch, as
  an instruction list run on the hart of \<open>Riscv\<close>) and \<open>src/src/sched.c\<close> (the task table and
  the scheduling loop, as state passing).

  A task body is a C function that calls \<open>sched_yield\<close>. What its private stack and saved
  context hold between two switches is a continuation of type \<open>'l\<close>, and running it from
  there to the next \<open>sched_yield\<close> or to its return is the parameter \<open>seg\<close>: the text it prints
  and either the next continuation or \<open>None\<close> when the body returned.
\<close>

unbundle bit_operations_syntax


subsection \<open>switch.S\<close>

record context_t =
  ctx_ra :: u64
  ctx_sp :: u64
  ctx_s0 :: u64
  ctx_s1 :: u64
  ctx_s2 :: u64
  ctx_s3 :: u64
  ctx_s4 :: u64
  ctx_s5 :: u64
  ctx_s6 :: u64
  ctx_s7 :: u64
  ctx_s8 :: u64
  ctx_s9 :: u64
  ctx_s10 :: u64
  ctx_s11 :: u64

definition swtch_code :: "instr list" where
  "swtch_code =
    [Sd xra 0 xa0, Sd xsp 8 xa0, Sd xs0 16 xa0, Sd xs1 24 xa0, Sd xs2 32 xa0, Sd xs3 40 xa0,
     Sd xs4 48 xa0, Sd xs5 56 xa0, Sd xs6 64 xa0, Sd xs7 72 xa0, Sd xs8 80 xa0, Sd xs9 88 xa0,
     Sd xs10 96 xa0, Sd xs11 104 xa0,
     Ld xra 0 xa1, Ld xsp 8 xa1, Ld xs0 16 xa1, Ld xs1 24 xa1, Ld xs2 32 xa1, Ld xs3 40 xa1,
     Ld xs4 48 xa1, Ld xs5 56 xa1, Ld xs6 64 xa1, Ld xs7 72 xa1, Ld xs8 80 xa1, Ld xs9 88 xa1,
     Ld xs10 96 xa1, Ld xs11 104 xa1,
     Ret]"

text \<open>The C view of a saved context in memory, and of the callee-saved registers.\<close>

definition ctx_at :: "(u64 \<Rightarrow> u64) \<Rightarrow> u64 \<Rightarrow> context_t" where
  "ctx_at m p = \<lparr>ctx_ra = m (p + 0), ctx_sp = m (p + 8), ctx_s0 = m (p + 16), ctx_s1 = m (p + 24),
     ctx_s2 = m (p + 32), ctx_s3 = m (p + 40), ctx_s4 = m (p + 48), ctx_s5 = m (p + 56),
     ctx_s6 = m (p + 64), ctx_s7 = m (p + 72), ctx_s8 = m (p + 80), ctx_s9 = m (p + 88),
     ctx_s10 = m (p + 96), ctx_s11 = m (p + 104)\<rparr>"

definition callee_saved :: "hart \<Rightarrow> context_t" where
  "callee_saved h = \<lparr>ctx_ra = reg_get xra h, ctx_sp = reg_get xsp h, ctx_s0 = reg_get xs0 h,
     ctx_s1 = reg_get xs1 h, ctx_s2 = reg_get xs2 h, ctx_s3 = reg_get xs3 h,
     ctx_s4 = reg_get xs4 h, ctx_s5 = reg_get xs5 h, ctx_s6 = reg_get xs6 h,
     ctx_s7 = reg_get xs7 h, ctx_s8 = reg_get xs8 h, ctx_s9 = reg_get xs9 h,
     ctx_s10 = reg_get xs10 h, ctx_s11 = reg_get xs11 h\<rparr>"

definition ctx_table :: "(nat \<times> u64) list" where
  "ctx_table = [(xra, 0), (xsp, 8), (xs0, 16), (xs1, 24), (xs2, 32), (xs3, 40), (xs4, 48),
     (xs5, 56), (xs6, 64), (xs7, 72), (xs8, 80), (xs9, 88), (xs10, 96), (xs11, 104)]"

definition ctx_slots :: "u64 \<Rightarrow> u64 set" where
  "ctx_slots p = (\<lambda>(r, off). p + off) ` set ctx_table"


subsection \<open>sched.c\<close>

abbreviation (input) MAX_TASKS :: nat where "MAX_TASKS \<equiv> 3"
abbreviation (input) STACK_SIZE :: u64 where "STACK_SIZE \<equiv> 4096"

datatype task_state = TASK_READY | TASK_DONE

text \<open>
  \<open>task_t\<close>. Only \<open>sp\<close> and \<open>ra\<close> of the saved context are written by C code; the private stack
  is the continuation. A zeroed table entry has no body (\<open>cont = None\<close>).
\<close>

record 'l task_t =
  task_sp :: u64
  task_ra :: u64
  cont :: "'l option"
  task_name :: string
  tstate :: task_state

record 'l sched = console +
  tasks :: "'l task_t list"
  num_tasks :: nat
  current :: "nat option"

definition empty_task :: "'l task_t" where
  "empty_task = \<lparr>task_sp = 0, task_ra = 0, cont = None, task_name = [], tstate = TASK_READY\<rparr>"

definition sched_boot :: "'l sched" where
  "sched_boot = \<lparr>out = [], tasks = replicate MAX_TASKS empty_task, num_tasks = 0, current = None\<rparr>"

text \<open>\<open>stack_of i\<close> is the address of \<open>tasks[i].stack\<close>, \<open>tramp\<close> that of \<open>task_trampoline\<close>.\<close>

definition task_create ::
  "(nat \<Rightarrow> u64) \<Rightarrow> u64 \<Rightarrow> 'l \<Rightarrow> string \<Rightarrow> 'l sched \<Rightarrow> 'l sched" where
  "task_create stack_of tramp fn name s =
     (if num_tasks s \<ge> MAX_TASKS then s
      else s\<lparr>num_tasks := Suc (num_tasks s),
             tasks := (tasks s)[num_tasks s :=
               \<lparr>task_sp = (stack_of (num_tasks s) + STACK_SIZE) AND NOT 15,
                task_ra = tramp, cont = Some fn, task_name = name, tstate = TASK_READY\<rparr>]\<rparr>)"

text \<open>
  Switching into task \<open>i\<close>: the body (entered through \<open>task_trampoline\<close>) runs until it yields
  or returns; on return the trampoline marks the task done and yields.
\<close>

definition task_switch_in ::
  "('l \<Rightarrow> piece list \<times> 'l option) \<Rightarrow> nat \<Rightarrow> 'l sched \<Rightarrow> 'l sched" where
  "task_switch_in seg i s =
     (case cont (tasks s ! i) of
        None \<Rightarrow> s
      | Some l \<Rightarrow>
         (case seg l of
            (ps, Some l') \<Rightarrow> (emit ps s)\<lparr>tasks := (tasks s)[i := (tasks s ! i)\<lparr>cont := Some l'\<rparr>]\<rparr>
          | (ps, None) \<Rightarrow> (emit ps s)\<lparr>tasks := (tasks s)[i := (tasks s ! i)\<lparr>tstate := TASK_DONE\<rparr>]\<rparr>))"

text \<open>One turn of the inner \<open>for\<close> loop, the whole inner loop, and the outer \<open>while\<close>.\<close>

definition sched_slot ::
  "('l \<Rightarrow> piece list \<times> 'l option) \<Rightarrow> nat \<Rightarrow> int \<times> 'l sched \<Rightarrow> int \<times> 'l sched" where
  "sched_slot seg i rs =
     (case rs of (remaining, s) \<Rightarrow>
        if tstate (tasks s ! i) = TASK_DONE then (remaining, s)
        else let s' = task_switch_in seg i (s\<lparr>current := Some i\<rparr>)
             in (if tstate (tasks s' ! i) = TASK_DONE then remaining - 1 else remaining, s'))"

definition sched_pass ::
  "('l \<Rightarrow> piece list \<times> 'l option) \<Rightarrow> int \<Rightarrow> 'l sched \<Rightarrow> int \<times> 'l sched" where
  "sched_pass seg remaining s = fold (sched_slot seg) [0..<num_tasks s] (remaining, s)"

partial_function (option) sched_while ::
  "('l \<Rightarrow> piece list \<times> 'l option) \<Rightarrow> int \<Rightarrow> 'l sched \<Rightarrow> 'l sched option" where
  "sched_while seg remaining s =
     (if remaining > 0
      then (case sched_pass seg remaining s of (r, s') \<Rightarrow> sched_while seg r s')
      else Some s)"

definition sched_run :: "('l \<Rightarrow> piece list \<times> 'l option) \<Rightarrow> 'l sched \<Rightarrow> 'l sched option" where
  "sched_run seg s = sched_while seg (int (num_tasks s)) s"


subsection \<open>Reference schedule\<close>

text \<open>
  The text of a task, one entry per turn, and the round-robin merge of several tasks: the
  first turns of all unfinished tasks in table order, then the second turns, and so on.
\<close>

fun turns :: "('l \<Rightarrow> piece list \<times> 'l option) \<Rightarrow> nat \<Rightarrow> 'l \<Rightarrow> string list" where
  "turns seg 0 l = []"
| "turns seg (Suc n) l =
     (case seg l of (ps, Some l') \<Rightarrow> text_of ps # turns seg n l' | (ps, None) \<Rightarrow> [text_of ps])"

function round_robin :: "string list list \<Rightarrow> string" where
  "round_robin tss =
     (if \<forall>ts\<in>set tss. ts = [] then []
      else concat (map (\<lambda>ts. if ts = [] then [] else hd ts) tss) @ round_robin (map tl tss))"
  by pat_completeness auto
termination
proof (relation "measure (\<lambda>tss. sum_list (map length tss))")
  show "wf (measure (\<lambda>tss. sum_list (map length (tss :: string list list))))" by simp
next
  fix tss :: "string list list"
  assume "\<not> (\<forall>ts\<in>set tss. ts = [])"
  then obtain ts where ts: "ts \<in> set tss" "ts \<noteq> []" by blast
  have "sum_list (map length (map tl tss)) < sum_list (map length tss)"
    using ts
  proof (induction tss)
    case (Cons a tss)
    have le: "sum_list (map length (map tl us)) \<le> sum_list (map length us)" for us :: "string list list"
      by (induction us) auto
    show ?case
    proof (cases "a = []")
      case True
      with Cons show ?thesis by auto
    next
      case False
      with le [of tss] show ?thesis by (cases a) auto
    qed
  qed simp
  then show "(map tl tss, tss) \<in> measure (\<lambda>tss. sum_list (map length tss))" by simp
qed

declare round_robin.simps [simp del]



subsection \<open>The context switch\<close>

lemma swtch_blocks:
  "swtch_code = save_block xa0 ctx_table @ load_block xa1 ctx_table @ [Ret]"
  by (simp add: swtch_code_def ctx_table_def)

lemma ctx_table_facts:
  "offsets_aligned ctx_table" "distinct (map fst ctx_table)" "distinct (map snd ctx_table)"
  "xa0 \<notin> fst ` set ctx_table" "xa1 \<notin> fst ` set ctx_table" "0 \<notin> fst ` set ctx_table"
  "length ctx_table = 14"
  by (simp_all add: ctx_table_def offsets_aligned_def)

lemma swtch_run:
  assumes "aligned8 (reg_get xa0 h)" and "aligned8 (reg_get xa1 h)"
  defines "m \<equiv> save_regs (\<lambda>r. reg_get r h) (reg_get xa0 h) ctx_table (ram h)"
  shows "\<exists>h'. run_code swtch_code h = Running h' \<and> ram h' = m \<and> csrf h' = csrf h \<and>
    gpr h' = load_regs m (reg_get xa1 h) ctx_table (gpr h) \<and> pc h' = reg_get xra h'"
proof -
  let ?h1 = "h\<lparr>ram := m, retired := retired h + length ctx_table\<rparr>"
  let ?h2 = "?h1\<lparr>gpr := load_regs m (reg_get xa1 h) ctx_table (gpr h),
      retired := retired ?h1 + length ctx_table\<rparr>"
  have "run_code (save_block xa0 ctx_table) h = Running ?h1"
    unfolding m_def by (rule run_save_block [OF assms(1) ctx_table_facts(1)])
  moreover have a1: "reg_get xa1 ?h1 = reg_get xa1 h" by (simp add: reg_get_def)
  have "run_code (load_block xa1 ctx_table) ?h1 = Running ?h2"
    using run_load_block [of xa1 ?h1 ctx_table] assms(2) a1 ctx_table_facts by simp
  ultimately have "run_code swtch_code h = Running (retire (?h2\<lparr>pc := reg_get xra ?h2\<rparr>))"
    by (simp add: swtch_blocks run_code_append)
  then show ?thesis by (simp add: retire_def reg_get_def)
qed

text \<open>A memory that holds the register table at \<open>p\<close> is the saved context at \<open>p\<close>.\<close>

lemma ctx_at_eqI:
  assumes "\<And>r off. (r, off) \<in> set ctx_table \<Longrightarrow> m (p + off) = reg_get r h"
  shows "ctx_at m p = callee_saved h"
proof -
  have "\<forall>(r, off)\<in>set ctx_table. m (p + off) = reg_get r h" using assms by blast
  then show ?thesis by (simp add: ctx_table_def ctx_at_def callee_saved_def)
qed

lemma ctx_at_save: "ctx_at (save_regs (\<lambda>r. reg_get r h) p ctx_table m) p = callee_saved h"
  by (rule ctx_at_eqI) (rule save_regs_slot [OF ctx_table_facts(3)])

lemma callee_saved_load:
  assumes "gpr h = load_regs m p ctx_table g"
  shows "callee_saved h = ctx_at m p"
proof (rule ctx_at_eqI [symmetric])
  fix r off assume slot: "(r, off) \<in> set ctx_table"
  then have "r \<noteq> 0" using ctx_table_facts(6) by force
  then show "m (p + off) = reg_get r h"
    using load_regs_slot [OF ctx_table_facts(2) slot] assms by (simp add: reg_get_def)
qed

lemma swtch_effect:
  assumes "aligned8 (reg_get xa0 h)" and "aligned8 (reg_get xa1 h)"
  shows "\<exists>h'. run_code swtch_code h = Running h' \<and>
    ctx_at (ram h') (reg_get xa0 h) = callee_saved h \<and>
    callee_saved h' = ctx_at (ram h') (reg_get xa1 h) \<and>
    pc h' = ctx_ra (ctx_at (ram h') (reg_get xa1 h)) \<and>
    (\<forall>a. a \<notin> ctx_slots (reg_get xa0 h) \<longrightarrow> ram h' a = ram h a)"
proof -
  let ?m = "save_regs (\<lambda>r. reg_get r h) (reg_get xa0 h) ctx_table (ram h)"
  obtain h' where h': "run_code swtch_code h = Running h'" "ram h' = ?m"
    "gpr h' = load_regs ?m (reg_get xa1 h) ctx_table (gpr h)" "pc h' = reg_get xra h'"
    using swtch_run [OF assms] by blast
  have saved: "callee_saved h' = ctx_at (ram h') (reg_get xa1 h)"
    using h' by (simp add: callee_saved_load)
  moreover have "reg_get xra h' = ctx_ra (callee_saved h')" by (simp add: callee_saved_def)
  moreover have "\<forall>a. a \<notin> ctx_slots (reg_get xa0 h) \<longrightarrow> ram h' a = ram h a"
    using h'(2) by (simp add: ctx_slots_def save_regs_other)
  ultimately show ?thesis using h' by (simp add: ctx_at_save)
qed

lemma ctx_at_cong: "(\<And>a. a \<in> ctx_slots p \<Longrightarrow> m a = m' a) \<Longrightarrow> ctx_at m p = ctx_at m' p"
  by (simp add: ctx_at_def ctx_slots_def ctx_table_def)



subsection \<open>The scheduling loop\<close>

definition sched_ok :: "'l sched \<Rightarrow> bool" where
  "sched_ok s \<longleftrightarrow> num_tasks s \<le> length (tasks s) \<and> (\<forall>i<num_tasks s. cont (tasks s ! i) \<noteq> None)"

lemma length_filter_tl:
  "length (filter (\<lambda>ts. ts \<noteq> []) (map tl tss)) =
   length (filter (\<lambda>ts. ts \<noteq> []) tss) - length (filter (\<lambda>ts. length ts = 1) tss)"
  "length (filter (\<lambda>ts. length ts = 1) tss) \<le> length (filter (\<lambda>ts. ts \<noteq> []) tss)"
proof -
  have "length (filter (\<lambda>ts. ts \<noteq> []) (map tl tss)) + length (filter (\<lambda>ts. length ts = 1) tss)
      = length (filter (\<lambda>ts. ts \<noteq> []) tss)"
  proof (induction tss)
    case (Cons ts tss)
    then show ?case by (cases ts; cases "tl ts") auto
  qed simp
  then show "length (filter (\<lambda>ts. ts \<noteq> []) (map tl tss)) =
      length (filter (\<lambda>ts. ts \<noteq> []) tss) - length (filter (\<lambda>ts. length ts = 1) tss)"
    "length (filter (\<lambda>ts. length ts = 1) tss) \<le> length (filter (\<lambda>ts. ts \<noteq> []) tss)"
    by linarith+
qed

text \<open>
  What the scheduler relies on in a task body: between two switches it makes progress, so
  that it returns after finitely many turns.
\<close>

locale finite_task =
  fixes seg :: "'l \<Rightarrow> piece list \<times> 'l option"
    and len :: "'l \<Rightarrow> nat"
  assumes seg_len: "seg l = (ps, Some l') \<Longrightarrow> len l' < len l"
begin

definition script :: "'l \<Rightarrow> string list" where
  "script l = turns seg (Suc (len l)) l"

definition todo :: "'l task_t \<Rightarrow> string list" where
  "todo t = (if tstate t = TASK_DONE then [] else case cont t of None \<Rightarrow> [] | Some l \<Rightarrow> script l)"

definition todos :: "'l sched \<Rightarrow> string list list" where
  "todos s = map (\<lambda>i. todo (tasks s ! i)) [0..<num_tasks s]"

lemma turns_fuel: "len l < n \<Longrightarrow> len l < m \<Longrightarrow> turns seg n l = turns seg m l"
proof (induction n arbitrary: l m)
  case (Suc n)
  then obtain m' where m: "m = Suc m'" by (cases m) auto
  have "turns seg n l' = turns seg m' l'" if "seg l = (ps, Some l')" for ps l'
    using Suc.IH [of l' m'] Suc.prems seg_len [OF that] m by auto
  then show ?case by (simp add: m split: option.splits prod.splits)
qed simp

lemma script_unfold:
  "script l = (case seg l of (ps, Some l') \<Rightarrow> text_of ps # script l' | (ps, None) \<Rightarrow> [text_of ps])"
proof -
  have "turns seg (len l) l' = script l'" if "seg l = (ps, Some l')" for ps l'
    unfolding script_def using seg_len [OF that] by (intro turns_fuel) auto
  then show ?thesis by (auto simp: script_def split: option.splits prod.splits)
qed

lemma script_nonempty: "script l \<noteq> []"
  by (subst script_unfold) (auto split: option.splits prod.splits)

lemma todo_empty: "cont t \<noteq> None \<Longrightarrow> todo t = [] \<longleftrightarrow> tstate t = TASK_DONE"
  by (auto simp: todo_def script_nonempty)

text \<open>One turn of the inner loop runs exactly the next turn of task \<open>i\<close>.\<close>

lemma slot_done:
  assumes "sched_ok s" "i < num_tasks s" "todo (tasks s ! i) = []"
  shows "sched_slot seg i (r, s) = (r, s)"
proof -
  have "tstate (tasks s ! i) = TASK_DONE"
    using assms todo_empty by (auto simp: sched_ok_def)
  then show ?thesis by (simp add: sched_slot_def)
qed

lemma slot_runs:
  assumes "sched_ok s" "i < num_tasks s" "todo (tasks s ! i) = t # ts"
  shows "\<exists>s' u. sched_slot seg i (r, s) = (if ts = [] then r - 1 else r, s') \<and>
    out s' = out s @ t \<and> num_tasks s' = num_tasks s \<and> sched_ok s' \<and>
    tasks s' = (tasks s)[i := u] \<and> todo u = ts"
proof -
  have len: "i < length (tasks s)" using assms by (simp add: sched_ok_def)
  from assms obtain l where l: "tstate (tasks s ! i) = TASK_READY" "cont (tasks s ! i) = Some l"
    "script l = t # ts"
    by (cases "tstate (tasks s ! i)") (auto simp: todo_def split: option.splits if_splits)
  have ok: "sched_ok s'" if "tasks s' = (tasks s)[i := u]" "num_tasks s' = num_tasks s"
    "cont u \<noteq> None" for s' u
    using assms(1) that len by (auto simp: sched_ok_def nth_list_update)
  obtain ps rest where seg: "seg l = (ps, rest)" by (cases "seg l")
  show ?thesis
  proof (cases rest)
    case None
    let ?u = "(tasks s ! i)\<lparr>tstate := TASK_DONE\<rparr>"
    have "t = text_of ps" "ts = []" using l(3) seg None by (simp_all add: script_unfold [of l])
    moreover have "todo ?u = []" by (simp add: todo_def)
    ultimately show ?thesis
      using l seg None len
      by (intro exI [of _ "(emit ps (s\<lparr>current := Some i\<rparr>))\<lparr>tasks := (tasks s)[i := ?u]\<rparr>"] exI [of _ ?u])
         (auto simp: sched_slot_def task_switch_in_def emit_def Let_def intro!: ok)
  next
    case (Some l')
    let ?u = "(tasks s ! i)\<lparr>cont := Some l'\<rparr>"
    have "t = text_of ps" "ts = script l'" using l(3) seg Some by (simp_all add: script_unfold [of l])
    moreover have "todo ?u = script l'" using l by (simp add: todo_def)
    ultimately show ?thesis
      using l seg Some len script_nonempty [of l']
      by (intro exI [of _ "(emit ps (s\<lparr>current := Some i\<rparr>))\<lparr>tasks := (tasks s)[i := ?u]\<rparr>"] exI [of _ ?u])
         (auto simp: sched_slot_def task_switch_in_def emit_def Let_def intro!: ok)
  qed
qed

text \<open>The inner loop runs the next turn of every unfinished task, in table order.\<close>

lemma slots_run:
  assumes "sched_ok s" "k \<le> num_tasks s"
  shows "\<exists>s'. fold (sched_slot seg) [0..<k] (r, s) =
      (r - int (length (filter (\<lambda>ts. length ts = 1) (take k (todos s)))), s') \<and>
    out s' = out s @ concat (map (\<lambda>ts. if ts = [] then [] else hd ts) (take k (todos s))) \<and>
    num_tasks s' = num_tasks s \<and> sched_ok s' \<and>
    todos s' = map tl (take k (todos s)) @ drop k (todos s)"
  using assms(2)
proof (induction k)
  case 0
  then show ?case using assms(1) by simp
next
  case (Suc k)
  then obtain s1 where s1: "fold (sched_slot seg) [0..<k] (r, s) =
      (r - int (length (filter (\<lambda>ts. length ts = 1) (take k (todos s)))), s1)"
    "out s1 = out s @ concat (map (\<lambda>ts. if ts = [] then [] else hd ts) (take k (todos s)))"
    "num_tasks s1 = num_tasks s" "sched_ok s1"
    "todos s1 = map tl (take k (todos s)) @ drop k (todos s)" by auto
  let ?ts = "todos s ! k"
  have k: "k < num_tasks s" "k < length (todos s)" using Suc.prems by (simp_all add: todos_def)
  have len1: "length (todos s1) = num_tasks s" using s1(3) by (simp add: todos_def)
  have "todo (tasks s1 ! k) = todos s1 ! k" using k s1(3) by (simp add: todos_def)
  also have "\<dots> = ?ts" using k s1(5) by (simp add: nth_append min_def)
  finally have now: "todo (tasks s1 ! k) = ?ts" .
  have k1: "k < num_tasks s1" "k < length (tasks s1)" using k s1(3,4) by (simp_all add: sched_ok_def)
  have take: "take (Suc k) (todos s) = take k (todos s) @ [?ts]" using k by (simp add: take_Suc_conv_app_nth)
  have drop: "drop k (todos s) = ?ts # drop (Suc k) (todos s)" using k by (simp add: Cons_nth_drop_Suc)
  show ?case
  proof (cases ?ts)
    case Nil
    with slot_done [OF s1(4) k1(1)] now s1 have
      "fold (sched_slot seg) [0..<Suc k] (r, s) =
        (r - int (length (filter (\<lambda>ts. length ts = 1) (take k (todos s)))), s1)" by simp
    with Nil s1 take drop show ?thesis by simp
  next
    case (Cons t ts)
    let ?r = "r - int (length (filter (\<lambda>ts. length ts = 1) (take k (todos s))))"
    obtain s2 u where s2: "sched_slot seg k (?r, s1) = (if ts = [] then ?r - 1 else ?r, s2)"
      "out s2 = out s1 @ t" "num_tasks s2 = num_tasks s1" "sched_ok s2"
      "tasks s2 = (tasks s1)[k := u]" "todo u = ts"
      using slot_runs [OF s1(4) k1(1), of t ts ?r] now Cons by auto
    have "todos s2 = (todos s1)[k := ts]"
      by (rule nth_equalityI) (use k1 in \<open>auto simp: todos_def s2 nth_list_update\<close>)
    also have "\<dots> = map tl (take k (todos s)) @ ts # drop (Suc k) (todos s)"
      using k by (simp add: s1(5) drop list_update_append)
    finally have "todos s2 = map tl (take (Suc k) (todos s)) @ drop (Suc k) (todos s)"
      by (simp add: take Cons)
    moreover have "fold (sched_slot seg) [0..<Suc k] (r, s) = sched_slot seg k (?r, s1)"
      using s1(1) by simp
    ultimately show ?thesis using s1 s2 take Cons by auto
  qed
qed

lemma pass_runs:
  assumes "sched_ok s" "r = int (length (filter (\<lambda>ts. ts \<noteq> []) (todos s)))"
  shows "\<exists>s'. sched_pass seg r s = (int (length (filter (\<lambda>ts. ts \<noteq> []) (todos s'))), s') \<and>
    out s' = out s @ concat (map (\<lambda>ts. if ts = [] then [] else hd ts) (todos s)) \<and>
    num_tasks s' = num_tasks s \<and> sched_ok s' \<and> todos s' = map tl (todos s)"
proof -
  have len: "length (todos s) = num_tasks s" by (simp add: todos_def)
  then obtain s' where s': "sched_pass seg r s = (r - int (length (filter (\<lambda>ts. length ts = 1) (todos s))), s')"
    "out s' = out s @ concat (map (\<lambda>ts. if ts = [] then [] else hd ts) (todos s))"
    "num_tasks s' = num_tasks s" "sched_ok s'" "todos s' = map tl (todos s)"
    using slots_run [OF assms(1), of "num_tasks s" r] by (auto simp: sched_pass_def)
  moreover have "r - int (length (filter (\<lambda>ts. length ts = 1) (todos s))) =
      int (length (filter (\<lambda>ts. ts \<noteq> []) (todos s')))"
    unfolding s'(5) length_filter_tl(1) using assms(2) length_filter_tl(2) [of "todos s"] by linarith
  ultimately show ?thesis by auto
qed

lemma while_runs:
  "sched_ok s \<Longrightarrow> tss = todos s \<Longrightarrow> r = int (length (filter (\<lambda>ts. ts \<noteq> []) (todos s))) \<Longrightarrow>
   \<exists>s'. sched_while seg r s = Some s' \<and> out s' = out s @ round_robin tss \<and>
     num_tasks s' = num_tasks s \<and> sched_ok s' \<and> (\<forall>ts\<in>set (todos s'). ts = [])"
proof (induction tss arbitrary: s r rule: round_robin.induct)
  case (1 tss)
  show ?case
  proof (cases "\<forall>ts\<in>set tss. ts = []")
    case True
    then have "filter (\<lambda>ts. ts \<noteq> []) (todos s) = []" using 1 by (simp add: filter_empty_conv)
    moreover have "round_robin tss = []" using True by (subst round_robin.simps) simp
    ultimately show ?thesis using True 1 by (subst sched_while.simps) simp
  next
    case False
    then have "filter (\<lambda>ts. ts \<noteq> []) (todos s) \<noteq> []" using 1 by (auto simp: filter_empty_conv)
    then have pos: "0 < r" using 1 by simp
    obtain s1 where s1: "sched_pass seg r s = (int (length (filter (\<lambda>ts. ts \<noteq> []) (todos s1))), s1)"
      "out s1 = out s @ concat (map (\<lambda>ts. if ts = [] then [] else hd ts) (todos s))"
      "num_tasks s1 = num_tasks s" "sched_ok s1" "todos s1 = map tl (todos s)"
      using pass_runs [OF "1.prems"(1,3)] by blast
    from "1.IH" [OF False s1(4) _ refl] s1(5) "1.prems"(2) obtain s2
      where s2: "sched_while seg (int (length (filter (\<lambda>ts. ts \<noteq> []) (todos s1)))) s1 = Some s2"
        "out s2 = out s1 @ round_robin (map tl tss)" "num_tasks s2 = num_tasks s1" "sched_ok s2"
        "\<forall>ts\<in>set (todos s2). ts = []" by auto
    have "sched_while seg r s = Some s2" using pos s1(1) s2(1) by (subst sched_while.simps) simp
    moreover have "round_robin tss = concat (map (\<lambda>ts. if ts = [] then [] else hd ts) tss)
        @ round_robin (map tl tss)"
      by (subst round_robin.simps) (simp only: False if_False)
    then have "out s2 = out s @ round_robin tss" using s1(2) s2(2) "1.prems"(2) by simp
    ultimately show ?thesis using s1(3) s2 by auto
  qed
qed

text \<open>
  \<open>sched_run\<close> on a table of ready tasks: it returns, every task is done, and the console shows
  the round-robin merge of the tasks' turns.
\<close>

lemma run_round_robin:
  assumes "sched_ok s" "\<forall>i<num_tasks s. tstate (tasks s ! i) = TASK_READY"
  shows "\<exists>s'. sched_run seg s = Some s' \<and> out s' = out s @ round_robin (todos s) \<and>
    num_tasks s' = num_tasks s \<and> (\<forall>i<num_tasks s. tstate (tasks s' ! i) = TASK_DONE)"
proof -
  have "\<forall>ts\<in>set (todos s). ts \<noteq> []"
    using assms by (auto simp: todos_def todo_empty sched_ok_def)
  then have "length (filter (\<lambda>ts. ts \<noteq> []) (todos s)) = num_tasks s"
    by (simp add: filter_id_conv [THEN iffD2] todos_def)
  then have "int (num_tasks s) = int (length (filter (\<lambda>ts. ts \<noteq> []) (todos s)))" by simp
  from while_runs [OF assms(1) refl this] obtain s' where s': "sched_run seg s = Some s'"
    "out s' = out s @ round_robin (todos s)" "num_tasks s' = num_tasks s" "sched_ok s'"
    "\<forall>ts\<in>set (todos s'). ts = []" by (auto simp: sched_run_def)
  then have "\<forall>i<num_tasks s. tstate (tasks s' ! i) = TASK_DONE"
    by (auto simp: todos_def todo_empty sched_ok_def)
  with s' show ?thesis by blast
qed

end



subsection \<open>Task creation\<close>

lemma stack_top_aligned:
  fixes st :: u64
  assumes "unat st + 4096 < 2 ^ 64"
  shows "unat ((st + 4096) AND NOT 15) mod 16 = 0"
    and "unat st + 4080 < unat ((st + 4096) AND NOT 15)"
    and "unat ((st + 4096) AND NOT 15) \<le> unat st + 4096"
proof -
  have mask: "(15 :: u64) = mask 4" by (simp add: mask_eq_exp_minus_1)
  have top: "unat (st + 4096) = unat st + 4096" using assms by (simp add: unat_word_ariths)
  have "unat ((st + 4096) AND NOT 15) = unat (st + 4096) - unat (st + 4096) mod 2 ^ 4"
    unfolding mask by (rule unat_and_not_mask)
  with top have sp: "unat ((st + 4096) AND NOT 15) = unat st + 4096 - (unat st + 4096) mod 16"
    by (simp only: top) simp
  have "n - n mod 16 = 16 * (n div 16)" for n :: nat
    by (simp add: minus_mod_eq_mult_div)
  with sp show "unat ((st + 4096) AND NOT 15) mod 16 = 0" by simp
  have "(unat st + 4096) mod 16 < 16" by simp
  with sp show "unat st + 4080 < unat ((st + 4096) AND NOT 15)"
    "unat ((st + 4096) AND NOT 15) \<le> unat st + 4096" by linarith+
qed

lemma task_create_full: "MAX_TASKS \<le> num_tasks s \<Longrightarrow> task_create stack_of tramp fn name s = s"
  by (simp add: task_create_def)

lemma task_create_frame:
  "out (task_create stack_of tramp fn name s) = out s"
  "length (tasks (task_create stack_of tramp fn name s)) = length (tasks s)"
  by (simp_all add: task_create_def)

lemma task_create_ok:
  assumes "sched_ok s" "length (tasks s) = MAX_TASKS"
  shows "sched_ok (task_create stack_of tramp fn name s)"
  using assms by (auto simp: task_create_def sched_ok_def nth_list_update less_Suc_eq)


subsection \<open>Properties\<close>

text \<open>
  \<open>swtch(old, new)\<close> stores exactly the fourteen callee-saved registers into \<open>*old\<close>, loads
  them from \<open>*new\<close>, returns to the address in \<open>new->ra\<close>, and writes no other memory.
\<close>

theorem swtch_saves_and_restores:
  assumes "aligned8 (reg_get xa0 h)" and "aligned8 (reg_get xa1 h)"
  shows "\<exists>h'. run_code swtch_code h = Running h' \<and>
    ctx_at (ram h') (reg_get xa0 h) = callee_saved h \<and>
    callee_saved h' = ctx_at (ram h') (reg_get xa1 h) \<and>
    pc h' = ctx_ra (ctx_at (ram h') (reg_get xa1 h)) \<and>
    (\<forall>a. a \<notin> ctx_slots (reg_get xa0 h) \<longrightarrow> ram h' a = ram h a)"
  using assms by (rule swtch_effect)

definition demo_hart :: hart where
  "demo_hart = \<lparr>gpr = (\<lambda>r. if r = xa0 then 0x80001000 else if r = xa1 then 0x80002000 else of_nat r),
     csrf = (\<lambda>_. 0), ram = (\<lambda>a. a), pc = 0x80000000, priv = MMode, clock = (\<lambda>n. (of_nat n, of_nat n)),
     retired = 0, legal = (\<lambda>c old v. v), instret = (\<lambda>_. 0)\<rparr>"

theorem swtch_saves_and_restores_witness:
  "\<exists>h'. run_code swtch_code demo_hart = Running h' \<and>
     ctx_at (ram h') 0x80001000 = callee_saved demo_hart"
proof -
  have "aligned8 (reg_get xa0 demo_hart)" "aligned8 (reg_get xa1 demo_hart)"
    by (simp_all add: demo_hart_def reg_get_def aligned8_def)
  from swtch_saves_and_restores [OF this] show ?thesis
    by (auto simp: demo_hart_def reg_get_def)
qed

text \<open>
  C2. A switch away and a later switch back is the identity on a task: if the task's saved
  context is still in memory when some other code switches to it (saving its own context
  elsewhere), the callee-saved registers are those the task had at its own call of \<open>swtch\<close> and
  execution continues at that call's return address.
\<close>

theorem swtch_round_trip:
  assumes "aligned8 (reg_get xa0 h)" and "aligned8 (reg_get xa1 h)"
    and "run_code swtch_code h = Running h1"
    and "ctx_at (ram h2) (reg_get xa0 h) = ctx_at (ram h1) (reg_get xa0 h)"
    and "reg_get xa1 h2 = reg_get xa0 h" and "aligned8 (reg_get xa0 h2)"
    and "ctx_slots (reg_get xa0 h2) \<inter> ctx_slots (reg_get xa0 h) = {}"
  shows "\<exists>h3. run_code swtch_code h2 = Running h3 \<and> callee_saved h3 = callee_saved h \<and>
    pc h3 = reg_get xra h"
proof -
  let ?p = "reg_get xa0 h"
  have saved: "ctx_at (ram h1) ?p = callee_saved h"
    using swtch_effect [OF assms(1,2)] assms(3) by auto
  obtain h3 where h3: "run_code swtch_code h2 = Running h3" "callee_saved h3 = ctx_at (ram h3) ?p"
    "pc h3 = ctx_ra (ctx_at (ram h3) ?p)"
    "\<forall>a. a \<notin> ctx_slots (reg_get xa0 h2) \<longrightarrow> ram h3 a = ram h2 a"
    using swtch_effect [of h2] assms(1,5,6) by auto
  have "ctx_at (ram h3) ?p = ctx_at (ram h2) ?p"
    using h3(4) assms(7) by (intro ctx_at_cong) blast
  then have "ctx_at (ram h3) ?p = callee_saved h" using assms(4) saved by simp
  with h3 show ?thesis by (simp add: callee_saved_def)
qed

theorem swtch_round_trip_witness:
  "\<exists>h1 h3. run_code swtch_code demo_hart = Running h1 \<and>
     run_code swtch_code (h1\<lparr>gpr := (gpr h1)(xa0 := 0x80002000, xa1 := 0x80001000)\<rparr>) = Running h3 \<and>
     callee_saved h3 = callee_saved demo_hart \<and> pc h3 = 1"
proof -
  have al: "aligned8 (reg_get xa0 demo_hart)" "aligned8 (reg_get xa1 demo_hart)"
    by (simp_all add: demo_hart_def reg_get_def aligned8_def)
  obtain h1 where h1: "run_code swtch_code demo_hart = Running h1"
    using swtch_effect [OF al] by blast
  let ?h2 = "h1\<lparr>gpr := (gpr h1)(xa0 := 0x80002000, xa1 := 0x80001000)\<rparr>"
  have r: "reg_get xa1 ?h2 = reg_get xa0 demo_hart" "aligned8 (reg_get xa0 ?h2)"
    by (simp_all add: demo_hart_def reg_get_def aligned8_def)
  have "ctx_slots (reg_get xa0 ?h2) \<inter> ctx_slots (reg_get xa0 demo_hart) = {}"
    by (simp add: ctx_slots_def ctx_table_def demo_hart_def reg_get_def)
  from swtch_round_trip [OF al h1 _ r this] h1 show ?thesis
    by (auto simp: demo_hart_def reg_get_def)
qed

text \<open>
  C5. \<open>task_create\<close> on a table with room claims the next entry: its stack pointer is 16-byte
  aligned and points at the top of the entry's own stack, its return address is the
  trampoline, it is ready, and no other entry changes. On a full table nothing changes.
\<close>

theorem task_create_claims_entry:
  assumes "length (tasks s) = MAX_TASKS"
    and "\<And>i. i < MAX_TASKS \<Longrightarrow> unat (stack_of i) + 4096 < 2 ^ 64"
  shows "let s' = task_create stack_of tramp fn name s; n = num_tasks s; t = tasks s' ! n in
    if n < MAX_TASKS
    then num_tasks s' = n + 1 \<and> unat (task_sp t) mod 16 = 0 \<and>
      unat (stack_of n) + 4080 < unat (task_sp t) \<and> unat (task_sp t) \<le> unat (stack_of n) + 4096 \<and>
      task_ra t = tramp \<and> cont t = Some fn \<and> tstate t = TASK_READY \<and>
      (\<forall>i. i \<noteq> n \<longrightarrow> tasks s' ! i = tasks s ! i)
    else s' = s"
proof (cases "num_tasks s < MAX_TASKS")
  case True
  with assms stack_top_aligned [of "stack_of (num_tasks s)"] show ?thesis
    by (simp add: task_create_def Let_def)
next
  case False
  then show ?thesis by (simp add: task_create_full)
qed

theorem task_create_claims_entry_witness:
  "let s' = task_create (\<lambda>i. 0x80003000 + of_nat i * 0x1090) 0x80000200 (7 :: nat) ''t'' sched_boot in
     num_tasks s' = 1 \<and> unat (task_sp (tasks s' ! 0)) mod 16 = 0"
proof -
  have "unat (0x80003000 + of_nat i * 0x1090 :: u64) + 4096 < 2 ^ 64" if "i < MAX_TASKS" for i
  proof -
    have "i = 0 \<or> i = 1 \<or> i = 2" using that by linarith
    then show ?thesis by auto
  qed
  moreover have "length (tasks (sched_boot :: nat sched)) = MAX_TASKS" by (simp add: sched_boot_def)
  ultimately show ?thesis
    using task_create_claims_entry [where s = sched_boot and stack_of = "\<lambda>i. 0x80003000 + of_nat i * 0x1090"
      and tramp = "0x80000200" and fn = "7 :: nat" and name = "''t''"]
    by (simp add: Let_def sched_boot_def)
qed

text \<open>
  C3. Whatever the task bodies print, if each of them returns after finitely many turns (\<open>len\<close>
  decreases from turn to turn) then \<open>sched_run\<close> returns, every task is then done, and the
  console shows the first turns of all tasks in table order, then the second turns of those
  still running, and so on.
\<close>

theorem sched_run_round_robin:
  assumes "\<And>l ps l'. seg l = (ps, Some l') \<Longrightarrow> len l' < len l"
    and "sched_ok s" and "\<forall>i<num_tasks s. tstate (tasks s ! i) = TASK_READY"
  shows "\<exists>s'. sched_run seg s = Some s' \<and>
    out s' = out s @ round_robin (map (\<lambda>i. case cont (tasks s ! i) of None \<Rightarrow> [] | Some l \<Rightarrow>
      turns seg (Suc (len l)) l) [0..<num_tasks s]) \<and>
    (\<forall>i<num_tasks s. tstate (tasks s' ! i) = TASK_DONE)"
proof -
  have ft: "finite_task seg len" by (rule finite_task.intro) (rule assms(1))
  have "finite_task.todos seg len s = map (\<lambda>i. case cont (tasks s ! i) of None \<Rightarrow> [] | Some l \<Rightarrow>
      turns seg (Suc (len l)) l) [0..<num_tasks s]"
    using assms(3) by (auto simp: finite_task.todos_def [OF ft] finite_task.todo_def [OF ft]
      finite_task.script_def [OF ft] split: option.split)
  with finite_task.run_round_robin [OF ft assms(2,3)] show ?thesis by auto
qed

end
