(* ===== verification/Tasks.thy ===== *)
theory Tasks
  imports Sched
begin

text \<open>
  \<open>src/src/tasks.c\<close> and \<open>src/src/main.c\<close>: the three demo workloads of the cooperative
  scheduler and the program that runs them. A continuation is the value of a body's local
  variables at the loop test, where each body resumes after \<open>sched_yield\<close>. The spinner's busy
  loop over a volatile local changes no state outside the loop and is not represented.
\<close>

datatype task_body = Heartbeat u64 | Fibonacci u64 u64 u64 | Spinner u64

abbreviation (input) ITERATIONS :: u64 where "ITERATIONS \<equiv> 5"

definition frames :: string where
  "frames = [CHR ''|'', CHR ''/'', CHR ''-'', CHR 0x5C]"

definition task_heartbeat :: "u64 \<Rightarrow> piece list \<times> task_body option" where
  "task_heartbeat i =
     (if i \<le> ITERATIONS
      then ([Str ''[heartbeat] tick '', Dec i, Str '' (task 1 of 3)\<newline>''], Some (Heartbeat (i + 1)))
      else ([], None))"

definition task_fibonacci :: "u64 \<Rightarrow> u64 \<Rightarrow> u64 \<Rightarrow> piece list \<times> task_body option" where
  "task_fibonacci a b i =
     (if i \<le> ITERATIONS
      then ([Str ''[fibonacci] fib('', Dec i, Str '') = '', Dec b, Str '' (task 2 of 3)\<newline>''],
            Some (Fibonacci b (a + b) (i + 1)))
      else ([], None))"

definition task_spinner :: "u64 \<Rightarrow> piece list \<times> task_body option" where
  "task_spinner i =
     (if i < ITERATIONS
      then ([Str ''[spinner] working '', Chr (frames ! unat (i mod 4)), Str '' (task 3 of 3)\<newline>''],
            Some (Spinner (i + 1)))
      else ([], None))"

fun task_seg :: "task_body \<Rightarrow> piece list \<times> task_body option" where
  "task_seg (Heartbeat i) = task_heartbeat i"
| "task_seg (Fibonacci a b i) = task_fibonacci a b i"
| "task_seg (Spinner i) = task_spinner i"

definition tasks_register :: "(nat \<Rightarrow> u64) \<Rightarrow> u64 \<Rightarrow> task_body sched \<Rightarrow> task_body sched" where
  "tasks_register stack_of tramp s =
     task_create stack_of tramp (Spinner 0) ''spinner''
       (task_create stack_of tramp (Fibonacci 0 1 1) ''fibonacci''
         (task_create stack_of tramp (Heartbeat 1) ''heartbeat'' s))"

text \<open>\<open>main\<close> up to its final \<open>wfi\<close> loop.\<close>

definition main_banner :: "piece list" where
  "main_banner =
     [Str ''\<newline>========================================\<newline>'',
      Str ''riscv-baremetal-demo: QEMU virt (rv64imac)\<newline>'',
      Str ''UART driver + cooperative round-robin scheduler\<newline>'',
      Str ''========================================\<newline>\<newline>'']"

definition main_coop :: "(nat \<Rightarrow> u64) \<Rightarrow> u64 \<Rightarrow> task_body sched option" where
  "main_coop stack_of tramp =
     (let s1 = emit main_banner sched_boot;
          s2 = tasks_register stack_of tramp s1;
          s3 = emit [Str ''scheduler: starting 3 tasks...\<newline>\<newline>''] s2
      in case sched_run task_seg s3 of
           None \<Rightarrow> None
         | Some s4 \<Rightarrow> Some (emit [Str ''\<newline>scheduler: all tasks finished. halting.\<newline>''] s4))"


subsection \<open>The bodies terminate\<close>

fun task_len :: "task_body \<Rightarrow> nat" where
  "task_len (Heartbeat i) = unat (6 - i)"
| "task_len (Fibonacci a b i) = unat (6 - i)"
| "task_len (Spinner i) = unat (5 - i)"

lemma task_seg_len: "task_seg l = (ps, Some l') \<Longrightarrow> task_len l' < task_len l"
proof -
  have "unat (5 - i) < unat (6 - i)" if "i \<le> 5" for i :: u64
    using unat_countdown [of i 6] that by (simp add: word_le_nat_alt word_less_nat_alt)
  moreover have "unat (4 - i) < unat (5 - i)" if "i < 5" for i :: u64
    using unat_countdown [of i 5] that by simp
  ultimately show "task_seg l = (ps, Some l') \<Longrightarrow> task_len l' < task_len l"
    by (cases l) (auto simp: task_heartbeat_def task_fibonacci_def task_spinner_def split: if_splits)
qed

interpretation demo: finite_task task_seg task_len
  by unfold_locales (rule task_seg_len)

lemmas demo_script = demo.script_unfold [of "Heartbeat i" for i]
  demo.script_unfold [of "Fibonacci a b i" for a b i] demo.script_unfold [of "Spinner i" for i]
  task_heartbeat_def task_fibonacci_def task_spinner_def

lemma demo_scripts:
  "demo.script (Heartbeat 1) = map (\<lambda>i. text_of [Str ''[heartbeat] tick '', Dec i,
      Str '' (task 1 of 3)\<newline>'']) [1, 2, 3, 4, 5] @ [[]]"
  "demo.script (Fibonacci 0 1 1) = map (\<lambda>(i, b). text_of [Str ''[fibonacci] fib('', Dec i, Str '') = '',
      Dec b, Str '' (task 2 of 3)\<newline>'']) [(1, 1), (2, 1), (3, 2), (4, 3), (5, 5)] @ [[]]"
  "demo.script (Spinner 0) = map (\<lambda>c. text_of [Str ''[spinner] working '', Chr c,
      Str '' (task 3 of 3)\<newline>'']) [CHR ''|'', CHR ''/'', CHR ''-'', CHR 0x5C, CHR ''|''] @ [[]]"
  by (simp_all add: demo_script frames_def text_of_def)


lemma registered:
  assumes "out s = t" "s = emit main_banner sched_boot"
  shows "num_tasks (tasks_register stack_of tramp s) = 3"
    "sched_ok (tasks_register stack_of tramp s)"
    "map (\<lambda>i. cont (tasks (tasks_register stack_of tramp s) ! i)) [0..<3] =
      [Some (Heartbeat 1), Some (Fibonacci 0 1 1), Some (Spinner 0)]"
    "\<forall>i<3. tstate (tasks (tasks_register stack_of tramp s) ! i) = TASK_READY"
    "out (tasks_register stack_of tramp s) = t"
proof -
  have s: "num_tasks s = 0" "tasks s = [empty_task, empty_task, empty_task]" "out s = t"
    using assms by (simp_all add: emit_def sched_boot_def numeral_3_eq_3)
  then have r: "num_tasks (tasks_register stack_of tramp s) = 3"
    "map cont (tasks (tasks_register stack_of tramp s)) =
       [Some (Heartbeat 1), Some (Fibonacci 0 1 1), Some (Spinner 0)]"
    "map tstate (tasks (tasks_register stack_of tramp s)) = [TASK_READY, TASK_READY, TASK_READY]"
    "out (tasks_register stack_of tramp s) = t"
    by (simp_all add: tasks_register_def task_create_def)
  show "num_tasks (tasks_register stack_of tramp s) = 3"
    "out (tasks_register stack_of tramp s) = t" using r by simp_all
  have len: "length (tasks (tasks_register stack_of tramp s)) = 3"
    using arg_cong [OF r(2), of length] by simp
  have i: "i = 0 \<or> i = 1 \<or> i = 2" if "i < 3" for i :: nat using that by linarith
  obtain x y z where xyz: "tasks (tasks_register stack_of tramp s) = [x, y, z]"
    using len by (auto simp: length_Suc_conv numeral_3_eq_3)
  from r(2,3) show "map (\<lambda>i. cont (tasks (tasks_register stack_of tramp s) ! i)) [0..<3] =
      [Some (Heartbeat 1), Some (Fibonacci 0 1 1), Some (Spinner 0)]"
    "sched_ok (tasks_register stack_of tramp s)"
    "\<forall>i<3. tstate (tasks (tasks_register stack_of tramp s) ! i) = TASK_READY"
    using r(1) by (auto simp: xyz sched_ok_def numeral_3_eq_3 less_Suc_eq)
qed

text \<open>The text of one round of the scheduler over the three tasks.\<close>

definition demo_round :: "u64 \<Rightarrow> u64 \<Rightarrow> char \<Rightarrow> string" where
  "demo_round i fib frame = text_of
     [Str ''[heartbeat] tick '', Dec i, Str '' (task 1 of 3)\<newline>'',
      Str ''[fibonacci] fib('', Dec i, Str '') = '', Dec fib, Str '' (task 2 of 3)\<newline>'',
      Str ''[spinner] working '', Chr frame, Str '' (task 3 of 3)\<newline>'']"

lemma demo_round_robin:
  "round_robin [demo.script (Heartbeat 1), demo.script (Fibonacci 0 1 1), demo.script (Spinner 0)] =
     demo_round 1 1 (CHR ''|'') @ demo_round 2 1 (CHR ''/'') @ demo_round 3 2 (CHR ''-'') @
     demo_round 4 3 (CHR 0x5C) @ demo_round 5 5 (CHR ''|'')"
  by (simp add: demo_scripts round_robin.simps demo_round_def text_of_def)


subsection \<open>Properties\<close>

text \<open>
  C4. The cooperative demo halts: \<open>main\<close> reaches its final loop, and its console output is the
  banner, five rounds in which heartbeat, fibonacci and spinner print one line each in this
  order (with the Fibonacci numbers 1, 1, 2, 3, 5), and the closing line, whatever addresses the
  linker gave the stacks and the trampoline.
\<close>

theorem main_coop_output:
  "\<exists>s. main_coop stack_of tramp = Some s \<and>
    out s = text_of main_banner @ ''scheduler: starting 3 tasks...\<newline>\<newline>'' @
      demo_round 1 1 (CHR ''|'') @ demo_round 2 1 (CHR ''/'') @ demo_round 3 2 (CHR ''-'') @
      demo_round 4 3 (CHR 0x5C) @ demo_round 5 5 (CHR ''|'') @
      ''\<newline>scheduler: all tasks finished. halting.\<newline>''"
proof -
  let ?s1 = "emit main_banner sched_boot"
  let ?s2 = "tasks_register stack_of tramp ?s1"
  let ?s3 = "emit [Str ''scheduler: starting 3 tasks...\<newline>\<newline>''] ?s2"
  note reg = registered [OF refl refl, where stack_of = stack_of and tramp = tramp]
  have tasks: "tasks ?s3 = tasks ?s2" "num_tasks ?s3 = 3" using reg(1) by (simp_all add: emit_def)
  have "sched_ok ?s3" "\<forall>i<num_tasks ?s3. tstate (tasks ?s3 ! i) = TASK_READY"
    using reg(1,2,4) tasks by (simp_all add: sched_ok_def)
  from demo.run_round_robin [OF this] obtain s4 where s4: "sched_run task_seg ?s3 = Some s4"
    "out s4 = out ?s3 @ round_robin (demo.todos ?s3)" by blast
  have "demo.todos ?s3 = map (\<lambda>c. case c of None \<Rightarrow> [] | Some l \<Rightarrow> demo.script l)
      (map (\<lambda>i. cont (tasks ?s2 ! i)) [0..<3])"
    using reg(4) tasks by (simp add: demo.todos_def demo.todo_def)
  then have "demo.todos ?s3 =
      [demo.script (Heartbeat 1), demo.script (Fibonacci 0 1 1), demo.script (Spinner 0)]"
    by (simp only: reg(3)) simp
  with s4 reg(5) show ?thesis
    by (simp add: main_coop_def Let_def emit_def demo_round_robin sched_boot_def text_of_def)
qed

theorem sched_run_round_robin_witness:
  "\<exists>s'. sched_run task_seg (tasks_register (\<lambda>i. 0x80003000 + of_nat i * 0x1090) 0x80000200
      (emit main_banner sched_boot)) = Some s' \<and>
    (\<forall>i<3. tstate (tasks s' ! i) = TASK_DONE)"
proof -
  let ?s = "tasks_register (\<lambda>i. 0x80003000 + of_nat i * 0x1090) 0x80000200 (emit main_banner sched_boot)"
  note reg = registered [OF refl refl, where stack_of = "\<lambda>i. 0x80003000 + of_nat i * 0x1090"
    and tramp = "0x80000200"]
  have "\<forall>i<num_tasks ?s. tstate (tasks ?s ! i) = TASK_READY" using reg(1,4) by simp
  from sched_run_round_robin [where seg = task_seg and len = task_len, OF _ reg(2) this]
    task_seg_len reg(1)
  show ?thesis by fastforce
qed

end
