(* ===== verification/Shell.thy ===== *)
theory Shell
  imports Riscv Uart
begin

text \<open>
  \<open>src/src/shell/\<close>: the UART command interpreter (\<open>cmds.c\<close>), its trap entry (\<open>trap.S\<close>) and
  its entry point (\<open>sh_main.c\<close>). The characters \<open>uart_getc\<close> will return are a list; when it is
  used up the shell is waiting for input. The hart that runs the shell is part of the state,
  because the \<open>regs\<close> command snapshots it through an \<open>ecall\<close>.
\<close>

unbundle bit_operations_syntax


subsection \<open>trap.S\<close>

definition trap_entry_code :: "instr list" where
  "trap_entry_code =
    [Csrrw xt0 Mscratch xt0,
     Sd 1 0 xt0, Sd 2 8 xt0, Sd 3 16 xt0, Sd 4 24 xt0,
     Sd 6 40 xt0, Sd 7 48 xt0, Sd 8 56 xt0, Sd 9 64 xt0, Sd 10 72 xt0, Sd 11 80 xt0,
     Sd 12 88 xt0, Sd 13 96 xt0, Sd 14 104 xt0, Sd 15 112 xt0, Sd 16 120 xt0, Sd 17 128 xt0,
     Sd 18 136 xt0, Sd 19 144 xt0, Sd 20 152 xt0, Sd 21 160 xt0, Sd 22 168 xt0, Sd 23 176 xt0,
     Sd 24 184 xt0, Sd 25 192 xt0, Sd 26 200 xt0, Sd 27 208 xt0, Sd 28 216 xt0, Sd 29 224 xt0,
     Sd 30 232 xt0, Sd 31 240 xt0,
     Csrr xt1 Mscratch, Sd xt1 32 xt0,
     Csrr xt1 Mepc, Sd xt1 248 xt0,
     Csrr xt1 Mstatus, Sd xt1 256 xt0,
     Csrr xt1 Mcause, Sd xt1 264 xt0,
     Li xt2 11, Bne_park xt1 xt2,
     Csrr xt1 Mepc, Addi xt1 xt1 4, Csrw Mepc xt1,
     Ld xt0 32 xt0,
     Mret]"

definition bank_table :: "(nat \<times> u64) list" where
  "bank_table = [(1, 0), (2, 8), (3, 16), (4, 24), (6, 40), (7, 48), (8, 56), (9, 64), (10, 72),
     (11, 80), (12, 88), (13, 96), (14, 104), (15, 112), (16, 120), (17, 128), (18, 136),
     (19, 144), (20, 152), (21, 160), (22, 168), (23, 176), (24, 184), (25, 192), (26, 200),
     (27, 208), (28, 216), (29, 224), (30, 232), (31, 240)]"

text \<open>\<open>trap_bank[i]\<close> in memory.\<close>

definition bank_word :: "(u64 \<Rightarrow> u64) \<Rightarrow> u64 \<Rightarrow> nat \<Rightarrow> u64" where
  "bank_word m bank i = m (bank + 8 * of_nat i)"


subsection \<open>cmds.c\<close>

abbreviation (input) LINE_MAX :: nat where "LINE_MAX \<equiv> 128"

record shell = console +
  line :: string
  line_len :: nat
  cpu :: hart
  trap_bank :: u64
  mtime_src :: "nat \<Rightarrow> u64"
  mtime_reads :: nat

text \<open>
  \<open>streq\<close> walks two NUL-terminated arrays; \<open>None\<close> stands for a read past the end of one.
\<close>

fun streq :: "string \<Rightarrow> string \<Rightarrow> bool option" where
  "streq (a # as) (b # bs) = (if a \<noteq> NUL \<and> a = b then streq as bs else Some (a = b))"
| "streq _ _ = None"

definition is_echo :: "string \<Rightarrow> bool option" where
  "is_echo s =
     (case streq s (''echo'' @ [NUL]) of
        None \<Rightarrow> None
      | Some True \<Rightarrow> Some True
      | Some False \<Rightarrow> Some (s ! 0 = CHR ''e'' \<and> s ! 1 = CHR ''c'' \<and> s ! 2 = CHR ''h'' \<and>
                           s ! 3 = CHR ''o'' \<and> s ! 4 = CHR '' ''))"

text \<open>The C string that starts at the head of an array.\<close>

definition cstr :: "string \<Rightarrow> string" where
  "cstr s = takeWhile (\<lambda>c. c \<noteq> NUL) s"

definition cmd_help :: "shell \<Rightarrow> shell" where
  "cmd_help s = emit
     [Str ''commands:\<newline>'',
      Str ''  help    list commands\<newline>'',
      Str ''  echo    print text back byte-for-byte\<newline>'',
      Str ''  regs    dump registers saved by the trap handler\<newline>'',
      Str ''  uptime  print mtime ticks since reset\<newline>''] s"

definition cmd_echo :: "string \<Rightarrow> shell \<Rightarrow> shell" where
  "cmd_echo t s =
     (let u = (if t \<noteq> [] \<and> hd t = CHR '' '' then tl t else t)
      in emit [Str (cstr u), Chr LF] s)"

definition reg_names :: "string list" where
  "reg_names =
    [''ra'', ''sp'', ''gp'', ''tp'', ''t0'', ''t1'', ''t2'', ''s0'', ''s1'',
     ''a0'', ''a1'', ''a2'', ''a3'', ''a4'', ''a5'', ''a6'', ''a7'',
     ''s2'', ''s3'', ''s4'', ''s5'', ''s6'', ''s7'', ''s8'', ''s9'', ''s10'', ''s11'',
     ''t3'', ''t4'', ''t5'', ''t6'']"

text \<open>\<open>ecall\<close> at the current program counter, then the handler.\<close>

definition snapshot_regs :: "hart \<Rightarrow> outcome" where
  "snapshot_regs h = run_code trap_entry_code (trap_to_m 11 (pc h) 0 h)"

definition cmd_regs :: "shell \<Rightarrow> shell option" where
  "cmd_regs s =
     (case snapshot_regs (cpu s) of
        Running h \<Rightarrow>
          (let w = bank_word (ram h) (trap_bank s) in
           Some (emit (concat (map (\<lambda>i. [Str (reg_names ! i), Str '' = '', Hex (w i), Chr LF]) [0..<31]) @
             [Str ''mepc    = '', Hex (w 31), Chr LF,
              Str ''mstatus = '', Hex (w 32), Chr LF,
              Str ''mcause  = '', Hex (w 33), Chr LF]) (s\<lparr>cpu := h\<rparr>)))
      | _ \<Rightarrow> None)"

definition cmd_uptime :: "shell \<Rightarrow> shell" where
  "cmd_uptime s =
     emit [Str ''mtime = '', Dec (mtime_src s (mtime_reads s)), Str '' ticks\<newline>'']
       (s\<lparr>mtime_reads := Suc (mtime_reads s)\<rparr>)"

definition run_command :: "shell \<Rightarrow> shell option" where
  "run_command s =
     (if line_len s = 0 then Some s
      else case streq (line s) (''help'' @ [NUL]) of
        None \<Rightarrow> None
      | Some True \<Rightarrow> Some (cmd_help s)
      | Some False \<Rightarrow> (case is_echo (line s) of
          None \<Rightarrow> None
        | Some True \<Rightarrow> Some (cmd_echo (drop 4 (line s)) s)
        | Some False \<Rightarrow> (case streq (line s) (''regs'' @ [NUL]) of
            None \<Rightarrow> None
          | Some True \<Rightarrow> cmd_regs s
          | Some False \<Rightarrow> (case streq (line s) (''uptime'' @ [NUL]) of
              None \<Rightarrow> None
            | Some True \<Rightarrow> Some (cmd_uptime s)
            | Some False \<Rightarrow> Some (emit [Str ''unknown command: '', Str (cstr (line s)), Chr LF] s)))))"

text \<open>
  \<open>read_line\<close>. \<open>Overrun\<close> is a store outside \<open>line\<close>; \<open>Waiting\<close> is the state in which
  \<open>uart_getc\<close> polls for a character that has not arrived.
\<close>

datatype read_result = Waiting shell | Overrun shell | Line shell string

abbreviation BS :: char where "BS \<equiv> CHR 0x08"
abbreviation DEL :: char where "DEL \<equiv> CHR 0x7F"

fun read_loop :: "string \<Rightarrow> shell \<Rightarrow> read_result" where
  "read_loop [] s = Waiting s"
| "read_loop (c # cs) s =
     (if c = CR \<or> c = LF then
        (case store_at (line s) (line_len s) NUL of
           None \<Rightarrow> Overrun s
         | Some l \<Rightarrow> Line ((emit [Chr LF] s)\<lparr>line := l\<rparr>) cs)
      else if c = DEL \<or> c = BS then
        (if line_len s > 0
         then read_loop cs (emit [Str [BS, CHR '' '', BS]] (s\<lparr>line_len := line_len s - 1\<rparr>))
         else read_loop cs s)
      else if of_char c < (0x20 :: nat) then read_loop cs s
      else if line_len s < LINE_MAX - 1 then
        (case store_at (line s) (line_len s) c of
           None \<Rightarrow> Overrun s
         | Some l \<Rightarrow> read_loop cs (emit [Chr c] (s\<lparr>line := l, line_len := Suc (line_len s)\<rparr>)))
      else read_loop cs s)"

definition read_line :: "string \<Rightarrow> shell \<Rightarrow> read_result" where
  "read_line inp s = read_loop inp (s\<lparr>line_len := 0\<rparr>)"

text \<open>
  \<open>shell_run\<close> never returns. \<open>shell_loop\<close> runs it until it waits for input, overruns its
  buffer, or a trap parks the hart; each turn consumes at least the line's terminator.
\<close>

datatype shell_stop = Blocked shell | Smashed shell | Hung shell

lemma read_loop_consumes: "read_loop inp s = Line s' rest \<Longrightarrow> length rest < length inp"
  by (induction inp s rule: read_loop.induct) (auto split: if_splits option.splits)

function shell_loop :: "string \<Rightarrow> shell \<Rightarrow> shell_stop" where
  "shell_loop inp s =
     (case read_line inp (emit [Str ''> ''] s) of
        Waiting s' \<Rightarrow> Blocked s'
      | Overrun s' \<Rightarrow> Smashed s'
      | Line s' rest \<Rightarrow> (case run_command s' of None \<Rightarrow> Hung s' | Some s'' \<Rightarrow> shell_loop rest s''))"
  by pat_completeness auto
termination
  by (relation "measure (\<lambda>(inp, s). length inp)") (auto simp: read_line_def dest: read_loop_consumes)

declare shell_loop.simps [simp del]

definition shell_run :: "string \<Rightarrow> shell \<Rightarrow> shell_stop" where
  "shell_run inp s = shell_loop inp (emit [Str ''uart-shell ready\<newline>''] s)"

text \<open>\<open>sh_main.c\<close>; \<open>entry\<close> is the address of \<open>trap_entry\<close>.\<close>

definition install_trap_handler :: "u64 \<Rightarrow> shell \<Rightarrow> shell" where
  "install_trap_handler entry s =
     s\<lparr>cpu := csr_write Mtvec entry (csr_write Mscratch (trap_bank s) (cpu s))\<rparr>"

definition sh_main :: "u64 \<Rightarrow> string \<Rightarrow> shell \<Rightarrow> shell_stop" where
  "sh_main entry inp s = shell_run inp (install_trap_handler entry s)"



subsection \<open>Strings\<close>

lemma streq_terminated:
  "NUL \<notin> set a \<Longrightarrow> NUL \<notin> set b \<Longrightarrow> streq (a @ NUL # x) (b @ NUL # y) = Some (a = b)"
proof (induction a arbitrary: b)
  case Nil
  then show ?case by (cases b) auto
next
  case (Cons c a)
  then show ?case by (cases b) auto
qed

lemma cstr_terminated: "NUL \<notin> set a \<Longrightarrow> cstr (a @ NUL # x) = a"
  by (auto simp: cstr_def takeWhile_append)

lemma is_echo_terminated:
  assumes "NUL \<notin> set t"
  shows "is_echo (t @ NUL # x) = Some (t = ''echo'' \<or> (\<exists>u. t = ''echo '' @ u))"
proof -
  have eq: "streq (t @ NUL # x) (''echo'' @ [NUL]) = Some (t = ''echo'')"
    using streq_terminated [OF assms, of "''echo''" x "[]"] by simp
  have "(t @ NUL # x) ! 0 = CHR ''e'' \<and> (t @ NUL # x) ! 1 = CHR ''c'' \<and> (t @ NUL # x) ! 2 = CHR ''h'' \<and>
      (t @ NUL # x) ! 3 = CHR ''o'' \<and> (t @ NUL # x) ! 4 = CHR '' '' \<longleftrightarrow> (\<exists>u. t = ''echo '' @ u)"
    if "t \<noteq> ''echo''"
    using that
    by (cases t; cases "tl t"; cases "tl (tl t)"; cases "tl (tl (tl t))"; cases "tl (tl (tl (tl t)))")
       (auto simp: numeral_eq_Suc)
  then show ?thesis using eq by (cases "t = ''echo''") (auto simp: is_echo_def)
qed


subsection \<open>Line editing\<close>

text \<open>The reference editor: the text kept so far, and what is echoed, character by character.\<close>

definition edit :: "string \<Rightarrow> char \<Rightarrow> string" where
  "edit t c =
     (if c = DEL \<or> c = BS then butlast t
      else if of_char c < (0x20 :: nat) then t
      else if length t < 127 then t @ [c] else t)"

fun echo_of :: "string \<Rightarrow> string \<Rightarrow> string" where
  "echo_of t [] = []"
| "echo_of t (c # cs) =
     (if c = DEL \<or> c = BS then (if t = [] then [] else [BS, CHR '' '', BS])
      else if of_char c < (0x20 :: nat) then []
      else if length t < 127 then [c] else []) @ echo_of (edit t c) cs"

definition typed :: "shell \<Rightarrow> string" where
  "typed s = take (line_len s) (line s)"

definition line_ok :: "shell \<Rightarrow> bool" where
  "line_ok s \<longleftrightarrow> length (line s) = LINE_MAX \<and> line_len s < LINE_MAX \<and> NUL \<notin> set (typed s)"

lemma length_typed: "line_ok s \<Longrightarrow> length (typed s) = line_len s"
  by (simp add: line_ok_def typed_def)

lemma ctrl_nul: "\<not> of_char c < (0x20 :: nat) \<Longrightarrow> c \<noteq> NUL"
  by auto

text \<open>One character that does not end the line.\<close>

lemma read_loop_step:
  assumes "line_ok s" "c \<noteq> CR" "c \<noteq> LF"
  shows "\<exists>s1. read_loop (c # cs) s = read_loop cs s1 \<and> line_ok s1 \<and> typed s1 = edit (typed s) c \<and>
    out s1 = out s @ echo_of (typed s) [c] \<and> cpu s1 = cpu s \<and> trap_bank s1 = trap_bank s"
proof (cases "c = DEL \<or> c = BS")
  case True
  show ?thesis
  proof (cases "line_len s = 0")
    case True
    with assms \<open>c = DEL \<or> c = BS\<close> show ?thesis
      by (intro exI [of _ s]) (auto simp: typed_def edit_def)
  next
    case False
    let ?s = "emit [Str [BS, CHR '' '', BS]] (s\<lparr>line_len := line_len s - 1\<rparr>)"
    have "typed ?s = butlast (typed s)"
      using assms(1) by (simp add: typed_def emit_def line_ok_def butlast_take)
    moreover have "typed s \<noteq> []" using False assms(1) length_typed [of s] by auto
    moreover have "line_ok ?s"
      using assms(1) calculation(1) in_set_butlastD [of NUL "typed s"]
      by (auto simp: line_ok_def) (simp_all add: emit_def)
    ultimately show ?thesis using True False assms
      by (intro exI [of _ ?s]) (auto simp: edit_def emit_def text_of_def)
  qed
next
  case False
  show ?thesis
  proof (cases "of_char c < (0x20 :: nat) \<or> 127 \<le> line_len s")
    case True
    with assms False show ?thesis
      by (intro exI [of _ s]) (auto simp: edit_def length_typed)
  next
    case ins: False
    let ?s = "emit [Chr c] (s\<lparr>line := (line s)[line_len s := c], line_len := Suc (line_len s)\<rparr>)"
    have len: "line_len s < length (line s)" using assms(1) by (simp add: line_ok_def)
    have "typed ?s = typed s @ [c]"
      using len by (simp add: typed_def emit_def take_Suc_conv_app_nth)
    moreover have "line_ok ?s"
      using assms(1) ins calculation ctrl_nul [of c] by (auto simp: line_ok_def) (simp_all add: emit_def)
    ultimately show ?thesis using False ins assms len
      by (intro exI [of _ ?s]) (auto simp: edit_def emit_def text_of_def length_typed)
  qed
qed

lemma read_loop_body:
  assumes "line_ok s" "CR \<notin> set body" "LF \<notin> set body"
  shows "\<exists>s1. read_loop (body @ cs) s = read_loop cs s1 \<and> line_ok s1 \<and>
    typed s1 = foldl edit (typed s) body \<and> out s1 = out s @ echo_of (typed s) body \<and>
    cpu s1 = cpu s \<and> trap_bank s1 = trap_bank s"
  using assms
proof (induction body arbitrary: s)
  case Nil
  then show ?case by auto
next
  case (Cons c body)
  then obtain s1 where s1: "read_loop (c # body @ cs) s = read_loop (body @ cs) s1" "line_ok s1"
    "typed s1 = edit (typed s) c" "out s1 = out s @ echo_of (typed s) [c]"
    "cpu s1 = cpu s" "trap_bank s1 = trap_bank s"
    using read_loop_step [of s c "body @ cs"] by auto
  from Cons.IH [OF s1(2)] Cons.prems obtain s2 where
    "read_loop (body @ cs) s1 = read_loop cs s2" "line_ok s2"
    "typed s2 = foldl edit (typed s1) body" "out s2 = out s1 @ echo_of (typed s1) body"
    "cpu s2 = cpu s1" "trap_bank s2 = trap_bank s1" by auto
  with s1 show ?case by auto
qed

text \<open>The terminator closes the buffer.\<close>

lemma read_loop_close:
  assumes "line_ok s" "nl = CR \<or> nl = LF"
  shows "\<exists>s1 x. read_loop (nl # cs) s = Line s1 cs \<and> line s1 = typed s @ NUL # x \<and>
    length (line s1) = LINE_MAX \<and> line_len s1 = length (typed s) \<and> out s1 = out s @ [LF] \<and>
    cpu s1 = cpu s \<and> trap_bank s1 = trap_bank s"
proof -
  have len: "line_len s < length (line s)" using assms(1) by (simp add: line_ok_def)
  have "(line s)[line_len s := NUL] = typed s @ NUL # drop (Suc (line_len s)) (line s)"
    using len by (simp add: typed_def upd_conv_take_nth_drop)
  with assms len show ?thesis
    by (auto simp: emit_def text_of_def length_typed line_ok_def)
qed

lemma read_line_result:
  assumes "length (line s) = LINE_MAX" "CR \<notin> set body" "LF \<notin> set body" "nl = CR \<or> nl = LF"
  shows "\<exists>s1 x. read_line (body @ nl # rest) s = Line s1 rest \<and>
    line s1 = foldl edit [] body @ NUL # x \<and> NUL \<notin> set (foldl edit [] body) \<and>
    length (line s1) = LINE_MAX \<and> line_len s1 = length (foldl edit [] body) \<and>
    out s1 = out s @ echo_of [] body @ [LF] \<and> cpu s1 = cpu s \<and> trap_bank s1 = trap_bank s"
proof -
  let ?s = "s\<lparr>line_len := 0\<rparr>"
  have ok: "line_ok ?s" using assms(1) by (simp add: line_ok_def typed_def)
  have t: "typed ?s = []" by (simp add: typed_def)
  obtain s1 where s1: "read_loop (body @ nl # rest) ?s = read_loop (nl # rest) s1" "line_ok s1"
    "typed s1 = foldl edit [] body" "out s1 = out s @ echo_of [] body"
    "cpu s1 = cpu s" "trap_bank s1 = trap_bank s"
    using read_loop_body [OF ok assms(2,3), of "nl # rest"] t by auto
  with read_loop_close [OF s1(2) assms(4), of rest] show ?thesis
    by (auto simp: read_line_def line_ok_def)
qed

lemma read_loop_no_overrun: "line_ok s \<Longrightarrow> read_loop inp s \<noteq> Overrun s'"
proof (induction inp arbitrary: s)
  case Nil
  then show ?case by simp
next
  case (Cons c inp)
  show ?case
  proof (cases "c = CR \<or> c = LF")
    case True
    with read_loop_close [OF Cons.prems True, of inp] show ?thesis by auto
  next
    case False
    with read_loop_step [OF Cons.prems, of c inp] obtain s1
      where "read_loop (c # inp) s = read_loop inp s1" "line_ok s1" by auto
    with Cons.IH [of s1] show ?thesis by auto
  qed
qed


subsection \<open>The register snapshot\<close>

definition trap_tail :: "instr list" where
  "trap_tail =
    [Csrr xt1 Mscratch, Sd xt1 32 xt0,
     Csrr xt1 Mepc, Sd xt1 248 xt0,
     Csrr xt1 Mstatus, Sd xt1 256 xt0,
     Csrr xt1 Mcause, Sd xt1 264 xt0,
     Li xt2 11, Bne_park xt1 xt2,
     Csrr xt1 Mepc, Addi xt1 xt1 4, Csrw Mepc xt1,
     Ld xt0 32 xt0,
     Mret]"

lemma trap_entry_blocks:
  "trap_entry_code = Csrrw xt0 Mscratch xt0 # save_block xt0 bank_table @ trap_tail"
  by (simp add: trap_entry_code_def bank_table_def trap_tail_def)

definition bank_offsets :: "u64 list" where
  "bank_offsets = map (\<lambda>i. 8 * of_nat i) [0..<34]"

lemma bank_offsets_eval:
  "bank_offsets = [0, 8, 16, 24, 32, 40, 48, 56, 64, 72, 80, 88, 96, 104, 112, 120, 128, 136, 144,
     152, 160, 168, 176, 184, 192, 200, 208, 216, 224, 232, 240, 248, 256, 264]"
  by (simp add: bank_offsets_def upt_rec)

definition bank_slots :: "u64 \<Rightarrow> u64 set" where
  "bank_slots b = (\<lambda>off. b + off) ` set bank_offsets"

lemma bank_table_facts:
  "offsets_aligned bank_table" "distinct (map snd bank_table)" "length bank_table = 30"
  by (simp_all add: bank_table_def offsets_aligned_def)

lemma bank_table_slots: "(\<lambda>(r, off). b + off) ` set bank_table \<subseteq> bank_slots b"
  by (auto simp: bank_slots_def bank_table_def bank_offsets_eval)

text \<open>The handler after the block of saves, for a cause \<open>c\<close>.\<close>

lemma trap_tail_run:
  assumes "reg_get xt0 h = b" "aligned8 b" "csrf h Mcause = 11"
  shows "\<exists>h'. run_code trap_tail h = Running h' \<and>
    ram h' = (ram h)(b + 32 := csrf h Mscratch, b + 248 := csrf h Mepc, b + 256 := csrf h Mstatus,
                     b + 264 := 11) \<and>
    (\<forall>r. r \<notin> {0, xt0, xt1, xt2} \<longrightarrow> reg_get r h' = reg_get r h) \<and>
    reg_get xt0 h' = csrf h Mscratch \<and> reg_get xt1 h' = csrf h Mepc + 4 \<and> reg_get xt2 h' = 11 \<and>
    csrf h' Mscratch = csrf h Mscratch \<and> priv h' = mpp_of (csrf h Mstatus) \<and>
    pc h' = legal h Mepc (csrf h Mepc) (csrf h Mepc + 4) \<and> legal h' = legal h"
proof -
  have al: "aligned8 (b + 32)" "aligned8 (b + 248)" "aligned8 (b + 256)" "aligned8 (b + 264)"
    using assms(2) by (simp_all add: aligned8_offset)
  show ?thesis
    using assms(1,3) al by (simp add: trap_tail_def Let_def machine_simps do_mret_def)
qed

lemma trap_tail_parks:
  assumes "reg_get xt0 h = b" "aligned8 b" "csrf h Mcause \<noteq> 11"
  shows "\<exists>h'. run_code trap_tail h = Parked h'"
proof -
  have al: "aligned8 (b + 32)" "aligned8 (b + 248)" "aligned8 (b + 256)" "aligned8 (b + 264)"
    using assms(2) by (simp_all add: aligned8_offset)
  show ?thesis
    using assms(1,3) al by (simp add: trap_tail_def Let_def machine_simps)
qed


lemma trap_entry_run:
  assumes "aligned8 (csrf h Mscratch)"
  defines "b \<equiv> csrf h Mscratch"
  defines "m \<equiv> save_regs (\<lambda>r. if r = xt0 then b else reg_get r h) b bank_table (ram h)"
  shows "run_code trap_entry_code h =
    run_code trap_tail ((reg_set xt0 b (csr_store Mscratch (reg_get xt0 h) h))
      \<lparr>ram := m, retired := 31 + retired h\<rparr>)"
proof -
  let ?h1 = "retire (reg_set xt0 b (csr_store Mscratch (reg_get xt0 h) h))"
  have r1: "reg_get r ?h1 = (if r = xt0 then b else reg_get r h)" for r by (simp add: machine_simps)
  have "run_code (save_block xt0 bank_table) ?h1 =
      Running (?h1\<lparr>ram := save_regs (\<lambda>r. reg_get r ?h1) (reg_get xt0 ?h1) bank_table (ram ?h1),
                retired := retired ?h1 + length bank_table\<rparr>)"
    by (rule run_save_block) (use assms(1) r1 bank_table_facts in \<open>simp_all add: b_def\<close>)
  moreover have "ram ?h1 = ram h" "retired ?h1 = Suc (retired h)" by (simp_all add: machine_simps)
  ultimately show ?thesis
    unfolding trap_entry_blocks
    by (simp add: run_code_append r1 bank_table_facts(3) flip: b_def m_def)
       (simp add: retire_def)
qed

text \<open>The interrupted register \<open>r\<close> and the saved one, for all 31 slots.\<close>

lemma bank_table_index: "i < 31 \<Longrightarrow> i \<noteq> 4 \<Longrightarrow> (Suc i, 8 * of_nat i) \<in> set bank_table"
proof -
  have "\<forall>i \<in> set [0..<31]. i \<noteq> 4 \<longrightarrow> (Suc i, 8 * of_nat i) \<in> set bank_table"
    by (simp add: upt_rec bank_table_def)
  then show "i < 31 \<Longrightarrow> i \<noteq> 4 \<Longrightarrow> (Suc i, 8 * of_nat i) \<in> set bank_table" by simp
qed

lemma bank_word_saved:
  fixes b :: u64
  assumes "i < 31" "i \<noteq> 4"
  shows "bank_word ((save_regs f b bank_table m)(b + 32 := v1, b + 248 := v2, b + 256 := v3, b + 264 := v4)) b i
    = f (Suc i)"
proof -
  have mem: "(Suc i, 8 * of_nat i) \<in> set bank_table" using assms by (rule bank_table_index)
  then have "8 * (of_nat i :: u64) \<notin> {32, 248, 256, 264}" by (auto simp: bank_table_def)
  with save_regs_slot [OF bank_table_facts(2) mem] show ?thesis by (simp add: bank_word_def)
qed

lemma snapshot_run:
  assumes "aligned8 (csrf h Mscratch)" "plain_csr h Mscratch" "priv h = MMode"
  shows "\<exists>h'. snapshot_regs h = Running h' \<and>
    ram h' = (save_regs (\<lambda>r. if r = xt0 then csrf h Mscratch else reg_get r h)
        (csrf h Mscratch) bank_table (ram h))
      (csrf h Mscratch + 32 := reg_get xt0 h, csrf h Mscratch + 248 := pc h,
       csrf h Mscratch + 256 := csrf (trap_to_m 11 (pc h) 0 h) Mstatus, csrf h Mscratch + 264 := 11) \<and>
    (\<forall>r. r \<notin> {xt1, xt2} \<longrightarrow> reg_get r h' = reg_get r h) \<and>
    reg_get xt1 h' = pc h + 4 \<and> reg_get xt2 h' = 11 \<and>
    csrf h' Mscratch = reg_get xt0 h \<and> priv h' = MMode \<and>
    pc h' = legal h Mepc (pc h) (pc h + 4) \<and> legal h' = legal h"
proof -
  let ?t = "trap_to_m 11 (pc h) 0 h"
  let ?h1 = "(reg_set xt0 (csrf h Mscratch) (csr_store Mscratch (reg_get xt0 h) ?t))
      \<lparr>ram := save_regs (\<lambda>r. if r = xt0 then csrf h Mscratch else reg_get r h) (csrf h Mscratch) bank_table (ram h),
       retired := 31 + retired h\<rparr>"
  have t: "csrf ?t Mscratch = csrf h Mscratch" "reg_get r ?t = reg_get r h" "ram ?t = ram h"
    "retired ?t = retired h" "legal ?t = legal h" "csrf ?t Mepc = pc h" "csrf ?t Mcause = 11" for r
    by (simp_all add: trap_to_m_def reg_get_def)
  have run: "snapshot_regs h = run_code trap_tail ?h1"
    unfolding snapshot_regs_def using trap_entry_run [of ?t] assms(1) by (simp add: t cong: if_cong)
  have h1: "reg_get xt0 ?h1 = csrf h Mscratch" "csrf ?h1 Mcause = 11" "csrf ?h1 Mscratch = reg_get xt0 h"
    "csrf ?h1 Mepc = pc h" "csrf ?h1 Mstatus = csrf ?t Mstatus" "legal ?h1 = legal h"
    "r \<noteq> xt0 \<Longrightarrow> reg_get r ?h1 = reg_get r h" for r
    using assms(2) by (simp_all add: machine_simps t plain_csr_def)
  have mpp: "mpp_of (csrf ?t Mstatus) = MMode"
    using assms(3) by (simp add: trap_to_m_def mpp_of_def put_mpp_def bit_put_bit)
  from trap_tail_run [OF h1(1) assms(1) h1(2)] obtain h' where h': "run_code trap_tail ?h1 = Running h'"
    "ram h' = (ram ?h1)(csrf h Mscratch + 32 := csrf ?h1 Mscratch, csrf h Mscratch + 248 := csrf ?h1 Mepc,
        csrf h Mscratch + 256 := csrf ?h1 Mstatus, csrf h Mscratch + 264 := 11)"
    "\<forall>r. r \<notin> {0, xt0, xt1, xt2} \<longrightarrow> reg_get r h' = reg_get r ?h1"
    "reg_get xt0 h' = csrf ?h1 Mscratch" "reg_get xt1 h' = csrf ?h1 Mepc + 4" "reg_get xt2 h' = 11"
    "csrf h' Mscratch = csrf ?h1 Mscratch" "priv h' = mpp_of (csrf ?h1 Mstatus)"
    "pc h' = legal ?h1 Mepc (csrf ?h1 Mepc) (csrf ?h1 Mepc + 4)" "legal h' = legal ?h1" by blast
  have "reg_get r h' = reg_get r h" if "r \<notin> {xt1, xt2}" for r
    using that h'(3,4) h1(3,7) by (cases "r = 0"; cases "r = xt0") (auto simp: reg_get_def [of 0])
  with h' run h1 mpp show ?thesis by simp
qed


subsection \<open>The command loop\<close>

lemma emit_frame [simp]:
  "line (emit ps s) = line s" "line_len (emit ps s) = line_len s" "cpu (emit ps s) = cpu s"
  "trap_bank (emit ps s) = trap_bank s"
  by (simp_all add: emit_def)

lemma run_command_line: "run_command s = Some s' \<Longrightarrow> line s' = line s"
  by (auto simp: run_command_def cmd_help_def cmd_echo_def cmd_regs_def cmd_uptime_def Let_def
      split: if_splits option.splits bool.splits outcome.splits)

lemma read_loop_line: "read_loop inp s = Line s' rest \<Longrightarrow> length (line s') = length (line s)"
  by (induction inp s rule: read_loop.induct)
     (auto simp: store_at_def split: if_splits option.splits)

lemma shell_loop_no_overrun: "length (line s) = LINE_MAX \<Longrightarrow> shell_loop inp s \<noteq> Smashed s'"
proof (induction inp s rule: shell_loop.induct)
  case (1 inp s)
  let ?s0 = "(emit [Str ''> ''] s)\<lparr>line_len := 0\<rparr>"
  have ok: "line_ok ?s0" using 1 by (simp add: line_ok_def typed_def)
  show ?case
  proof (cases "read_line inp (emit [Str ''> ''] s)")
    case (Line s1 rest)
    then have "length (line s1) = LINE_MAX"
      using read_loop_line [of inp ?s0 s1 rest] 1(2) by (simp add: read_line_def)
    then have "shell_loop rest s2 \<noteq> Smashed s'" if "run_command s1 = Some s2" for s2
      using 1(1) [OF Line that] run_command_line [OF that] by simp
    then show ?thesis
      using Line by (subst shell_loop.simps) (auto split: option.splits)
  qed (use read_loop_no_overrun [OF ok, of inp] in
        \<open>subst shell_loop.simps, auto simp: read_line_def\<close>)
qed

text \<open>A line of printable characters is kept and echoed as typed.\<close>

lemma edit_printable:
  "list_all (\<lambda>c. \<not> of_char c < (0x20 :: nat) \<and> c \<noteq> DEL) u \<Longrightarrow> length t + length u \<le> 127 \<Longrightarrow>
   foldl edit t u = t @ u \<and> echo_of t u = u"
proof (induction u arbitrary: t)
  case Nil
  then show ?case by simp
next
  case (Cons c u)
  then have "c \<noteq> DEL" "c \<noteq> BS" "\<not> of_char c < (0x20 :: nat)" by auto
  with Cons.prems have "edit t c = t @ [c]" by (simp add: edit_def)
  with Cons \<open>c \<noteq> DEL\<close> \<open>c \<noteq> BS\<close> show ?case by auto
qed

lemma run_command_echo:
  assumes "line s = (''echo '' @ u) @ NUL # x" "line_len s \<noteq> 0" "NUL \<notin> set u"
  shows "run_command s = Some (emit [Str u, Chr LF] s)"
proof -
  have t: "NUL \<notin> set (''echo '' @ u)" using assms(3) by simp
  have "streq (line s) (''help'' @ [NUL]) = Some False"
    using streq_terminated [OF t, of "''help''" x "[]"] assms(1) by simp
  moreover have "is_echo (line s) = Some True"
    using is_echo_terminated [OF t, of x] assms(1) by simp
  ultimately show ?thesis
    using assms cstr_terminated [OF assms(3)] by (simp add: run_command_def cmd_echo_def)
qed


subsection \<open>Properties\<close>

text \<open>
  C6. The \<open>regs\<close> snapshot is exact: with \<open>mscratch\<close> holding the bank's address, an \<open>ecall\<close>
  from M-mode returns to the caller with \<open>trap_bank[i]\<close> equal to register \<open>x(i+1)\<close> at the
  \<open>ecall\<close>, for all 31 registers, entries 31 to 33 equal to the \<open>ecall\<close>'s address, the
  trapped \<open>mstatus\<close> and cause 11, no memory outside the bank changed, and every register but
  \<open>t1\<close> and \<open>t2\<close> as it was.
\<close>

theorem snapshot_bank_exact:
  assumes "csrf h Mscratch = bank" "aligned8 bank" "plain_csr h Mscratch" "priv h = MMode"
  shows "\<exists>h'. snapshot_regs h = Running h' \<and> priv h' = MMode \<and>
    pc h' = legal h Mepc (pc h) (pc h + 4) \<and>
    (\<forall>i < 31. bank_word (ram h') bank i = reg_get (Suc i) h) \<and>
    bank_word (ram h') bank 31 = pc h \<and>
    bank_word (ram h') bank 32 = csrf (trap_to_m 11 (pc h) 0 h) Mstatus \<and>
    bank_word (ram h') bank 33 = 11 \<and>
    (\<forall>a. a \<notin> bank_slots bank \<longrightarrow> ram h' a = ram h a) \<and>
    (\<forall>r. r \<notin> {xt1, xt2} \<longrightarrow> reg_get r h' = reg_get r h)"
proof -
  let ?f = "\<lambda>r. if r = xt0 then bank else reg_get r h"
  have "aligned8 (csrf h Mscratch)" using assms by simp
  from snapshot_run [OF this assms(3,4)] obtain h' where h': "snapshot_regs h = Running h'"
    "ram h' = (save_regs ?f bank bank_table (ram h))
      (bank + 32 := reg_get xt0 h, bank + 248 := pc h,
       bank + 256 := csrf (trap_to_m 11 (pc h) 0 h) Mstatus, bank + 264 := 11)"
    "\<forall>r. r \<notin> {xt1, xt2} \<longrightarrow> reg_get r h' = reg_get r h"
    "priv h' = MMode" "pc h' = legal h Mepc (pc h) (pc h + 4)"
    using assms(1) by auto
  have "bank_word (ram h') bank i = reg_get (Suc i) h" if "i < 31" for i
  proof (cases "i = 4")
    case True
    then show ?thesis by (simp add: h'(2) bank_word_def)
  next
    case False
    have "bank_word (ram h') bank i = ?f (Suc i)"
      unfolding h'(2) by (rule bank_word_saved [OF that False])
    with False show ?thesis by simp
  qed
  moreover have "ram h' a = ram h a" if "a \<notin> bank_slots bank" for a
  proof -
    have "a \<notin> (\<lambda>(r, off). bank + off) ` set bank_table" using that bank_table_slots by blast
    moreover have "a \<notin> {bank + 32, bank + 248, bank + 256, bank + 264}"
      using that by (auto simp: bank_slots_def bank_offsets_eval)
    ultimately show ?thesis by (simp add: h'(2) save_regs_other)
  qed
  ultimately show ?thesis using h' by (simp add: bank_word_def)
qed

definition shell_hart :: hart where
  "shell_hart = \<lparr>gpr = (\<lambda>r. if r = xt0 then 0x80008000 else of_nat r),
     csrf = (\<lambda>c. if c = Mscratch then 0x80004000 else 0), ram = (\<lambda>a. 0), pc = 0x80000100,
     priv = MMode, clock = (\<lambda>n. (of_nat n, of_nat n)), retired = 0, legal = (\<lambda>c old v. v), instret = (\<lambda>_. 0)\<rparr>"

lemma shell_hart_ok:
  "csrf shell_hart Mscratch = 0x80004000" "plain_csr shell_hart Mscratch" "priv shell_hart = MMode"
  "reg_get xt0 shell_hart = 0x80008000" "aligned8 0x80004000" "aligned8 0x80008000"
  by (simp_all add: shell_hart_def plain_csr_def aligned8_def reg_get_def)

theorem snapshot_bank_exact_witness:
  "\<exists>h'. snapshot_regs shell_hart = Running h' \<and> bank_word (ram h') 0x80004000 6 = 7"
proof -
  have "reg_get 7 shell_hart = 7" by (simp add: shell_hart_def reg_get_def)
  then show ?thesis
    using snapshot_bank_exact [OF shell_hart_ok(1,5,2,3)] by (auto dest!: spec [of _ 6])
qed

text \<open>
  C7. The snapshot is not transparent to its caller. It returns with \<open>t1\<close> and \<open>t2\<close> overwritten
  and with \<open>mscratch\<close> holding the caller's \<open>t0\<close> instead of the bank's address, so the next
  snapshot stores through that stale \<open>t0\<close>: every word of \<open>trap_bank\<close> keeps its old value
  whenever the 34 doublewords at \<open>t0\<close> lie outside the bank.
\<close>

theorem second_snapshot_misses_bank:
  assumes "csrf h Mscratch = bank" "aligned8 bank" "plain_csr h Mscratch" "priv h = MMode"
    and "snapshot_regs h = Running h1"
    and "csrf h2 Mscratch = csrf h1 Mscratch" "plain_csr h2 Mscratch" "priv h2 = MMode"
    and "aligned8 (reg_get xt0 h)" "bank_slots bank \<inter> bank_slots (reg_get xt0 h) = {}"
  shows "reg_get xt1 h1 = pc h + 4 \<and> reg_get xt2 h1 = 11 \<and> csrf h1 Mscratch = reg_get xt0 h \<and>
    (\<exists>h3. snapshot_regs h2 = Running h3 \<and>
       (\<forall>i < 34. bank_word (ram h3) bank i = bank_word (ram h2) bank i))"
proof -
  have al: "aligned8 (csrf h Mscratch)" using assms(1,2) by simp
  from snapshot_run [OF al assms(3,4)] assms(5)
  have h1: "reg_get xt1 h1 = pc h + 4" "reg_get xt2 h1 = 11" "csrf h1 Mscratch = reg_get xt0 h" by auto
  let ?b = "csrf h2 Mscratch"
  let ?f = "\<lambda>r. if r = xt0 then ?b else reg_get r h2"
  have b: "?b = reg_get xt0 h" using h1(3) assms(6) by simp
  then have "aligned8 ?b" using assms(9) by simp
  from snapshot_run [OF this assms(7,8)] obtain h3 where h3: "snapshot_regs h2 = Running h3"
    "ram h3 = (save_regs ?f ?b bank_table (ram h2))
      (?b + 32 := reg_get xt0 h2, ?b + 248 := pc h2,
       ?b + 256 := csrf (trap_to_m 11 (pc h2) 0 h2) Mstatus, ?b + 264 := 11)" by auto
  have "ram h3 a = ram h2 a" if "a \<notin> bank_slots ?b" for a
  proof -
    have "a \<notin> (\<lambda>(r, off). ?b + off) ` set bank_table" using that bank_table_slots by blast
    moreover have "a \<notin> {?b + 32, ?b + 248, ?b + 256, ?b + 264}"
      using that by (auto simp: bank_slots_def bank_offsets_eval)
    ultimately show ?thesis by (simp add: h3(2) save_regs_other)
  qed
  moreover have "bank + 8 * of_nat i \<notin> bank_slots ?b" if "i < 34" for i
  proof -
    have "bank + 8 * of_nat i \<in> bank_slots bank"
      using that by (auto simp: bank_slots_def bank_offsets_def)
    with assms(10) b show ?thesis by auto
  qed
  ultimately show ?thesis using h1 h3(1) by (auto simp: bank_word_def)
qed

theorem second_snapshot_misses_bank_witness:
  "\<exists>h1 h3. snapshot_regs shell_hart = Running h1 \<and> snapshot_regs h1 = Running h3 \<and>
     bank_word (ram h3) 0x80004000 31 = bank_word (ram h1) 0x80004000 31"
proof -
  have al: "aligned8 (csrf shell_hart Mscratch)" by (simp add: shell_hart_ok)
  from snapshot_run [OF al shell_hart_ok(2,3)] obtain h1 where
    h1: "snapshot_regs shell_hart = Running h1" "csrf h1 Mscratch = 0x80008000" "priv h1 = MMode"
      "legal h1 = legal shell_hart"
    by (auto simp: shell_hart_ok)
  have disj: "bank_slots 0x80004000 \<inter> bank_slots (reg_get xt0 shell_hart) = {}"
    by (simp add: bank_slots_def bank_offsets_eval shell_hart_ok)
  have "plain_csr h1 Mscratch" using shell_hart_ok(2) h1(4) by (simp add: plain_csr_def)
  from second_snapshot_misses_bank [OF shell_hart_ok(1,5,2,3) h1(1) refl this h1(3) _ disj]
  show ?thesis using h1(1) by (auto simp: shell_hart_ok dest!: spec [of _ 31])
qed

text \<open>
  C8. Line editing: when the characters before the terminator are \<open>body\<close>, \<open>read_line\<close> returns
  with the buffer holding the text the reference editor keeps (erasing on \<open>DEL\<close> and \<open>BS\<close>,
  dropping control characters and whatever exceeds 127 characters), NUL-terminated inside the
  128-byte array, and the terminal has been sent exactly the editor's echo and a newline.
\<close>

theorem read_line_edits:
  assumes "length (line s) = LINE_MAX" "CR \<notin> set body" "LF \<notin> set body" "nl = CR \<or> nl = LF"
  shows "\<exists>s1 x. read_line (body @ nl # rest) s = Line s1 rest \<and>
    line s1 = foldl edit [] body @ NUL # x \<and> length (line s1) = LINE_MAX \<and>
    line_len s1 = length (foldl edit [] body) \<and> NUL \<notin> set (foldl edit [] body) \<and>
    out s1 = out s @ echo_of [] body @ [LF]"
  using read_line_result [OF assms] by blast

definition demo_shell :: shell where
  "demo_shell = \<lparr>out = [], line = replicate 128 NUL, line_len = 0, cpu = shell_hart,
     trap_bank = 0x80004000, mtime_src = of_nat, mtime_reads = 0\<rparr>"

theorem read_line_edits_witness:
  "\<exists>s1 x. read_line (''hx'' @ [DEL] @ ''i'' @ [CR]) demo_shell = Line s1 [] \<and>
     line s1 = ''hi'' @ NUL # x"
proof -
  have "length (line demo_shell) = LINE_MAX" by (simp add: demo_shell_def)
  then show ?thesis
    using read_line_edits [of demo_shell "''hx'' @ [DEL] @ ''i''" CR "[]"]
    by (auto simp: edit_def)
qed

text \<open>
  C9. Whatever is typed, the shell never stores outside its line buffer.
\<close>

theorem shell_never_overruns_line:
  assumes "length (line s) = LINE_MAX"
  shows "sh_main entry inp s \<noteq> Smashed s'"
  using assms
  by (simp add: sh_main_def shell_run_def install_trap_handler_def shell_loop_no_overrun)

theorem shell_never_overruns_line_witness:
  "sh_main 0x80000000 (replicate 300 CHR ''x'') demo_shell \<noteq> Smashed demo_shell"
proof -
  have "length (line demo_shell) = LINE_MAX" by (simp add: demo_shell_def)
  then show ?thesis by (rule shell_never_overruns_line)
qed

text \<open>
  \<open>echo\<close> prints back byte for byte: typing \<open>echo \<close>, at most 122 printable characters
  \<open>u\<close> and a carriage return at the prompt makes the shell print the prompt, the echo of the
  line, and then \<open>u\<close> on a line of its own, before it reads the rest of the input.
\<close>

theorem shell_echo_session:
  assumes "length (line s) = LINE_MAX" "length u \<le> 122"
    and "list_all (\<lambda>c. \<not> of_char c < (0x20 :: nat) \<and> c \<noteq> DEL) u"
  shows "\<exists>s'. shell_loop (''echo '' @ u @ CR # rest) s = shell_loop rest s' \<and>
    out s' = out s @ ''> '' @ (''echo '' @ u @ [LF]) @ (u @ [LF]) \<and> length (line s') = LINE_MAX"
proof -
  let ?b = "''echo '' @ u" and ?s = "emit [Str ''> ''] s"
  have pr: "list_all (\<lambda>c. \<not> of_char c < (0x20 :: nat) \<and> c \<noteq> DEL) ?b" using assms(3) by simp
  have b: "foldl edit [] ?b = ?b" "echo_of [] ?b = ?b"
    using edit_printable [OF pr, of "[]"] assms(2) by simp_all
  have ctl: "c \<notin> set u" if "of_char c < (0x20 :: nat)" for c
    using assms(3) that unfolding list_all_iff by blast
  have crlf: "CR \<notin> set ?b" "LF \<notin> set ?b" "NUL \<notin> set u"
    using ctl [of CR] ctl [of LF] ctl [of NUL] by simp_all
  have "length (line ?s) = LINE_MAX" using assms(1) by simp
  from read_line_result [OF this crlf(1,2), of CR rest] b obtain s1 x where
    s1: "read_line (?b @ CR # rest) ?s = Line s1 rest" "line s1 = ?b @ NUL # x" "line_len s1 = length ?b"
      "length (line s1) = LINE_MAX" "out s1 = out ?s @ ?b @ [LF]" by auto
  have "run_command s1 = Some (emit [Str u, Chr LF] s1)"
    by (rule run_command_echo [where x = x]) (use s1 crlf in simp_all)
  then have "shell_loop (?b @ CR # rest) s = shell_loop rest (emit [Str u, Chr LF] s1)"
    using s1(1) shell_loop.simps [of "?b @ CR # rest" s] by (simp only: read_result.case option.case)
  then show ?thesis using s1
    by (intro exI [of _ "emit [Str u, Chr LF] s1"]) (simp add: emit_def text_of_def)
qed

theorem shell_echo_session_witness:
  "\<exists>s'. shell_loop (''echo hello'' @ [CR]) demo_shell = shell_loop [] s' \<and>
     out s' = ''> echo hello'' @ [LF] @ ''hello'' @ [LF]"
  using shell_echo_session [of demo_shell "''hello''" "[]"] by (auto simp: demo_shell_def)

end
