(* ===== verification/Ticks.thy ===== *)
theory Ticks
  imports Uart Riscv
begin

text \<open>
  What the two timer-driven schedulers (\<open>preempt/\<close> and \<open>smode/\<close>) share on the C side: trap
  frames, the loop that arms the timer, the spinning task bodies, one timer tick as the
  hardware and the trap assembly deliver it to the C handler, and the running minimum,
  maximum and sum. The locale at the end is the contract of a scheduler that is driven by
  ticks; both schedulers interpret it.
\<close>

subsection \<open>Trap frames and ticks\<close>

record trapframe =
  tf_regs :: "u64 list"
  tf_epc :: u64
  mtime_at_entry :: u64
  cycle_at_entry :: u64

text \<open>The frame a handler resumes: \<open>&sched_tf\<close> or \<open>&tasks[i].tf\<close>.\<close>

datatype frame_ref = BootFrame | TaskFrame nat

text \<open>
  One trap, as seen from C: how many iterations the interrupted task body completed since it
  was resumed, the cause, what the entry path stored in the frame (registers, exception PC and
  the two stamps), and the two stamps the exit path writes to \<open>g_exit_cycles\<close> and
  \<open>g_exit_mtime\<close>.
\<close>

record tick_in =
  i_iters :: nat
  i_cause :: u64
  i_regs :: "u64 list"
  i_epc :: u64
  i_entry_mtime :: u64
  i_entry_cycle :: u64
  i_exit_cycle :: u64
  i_exit_mtime :: u64

definition frame_of :: "tick_in \<Rightarrow> trapframe" where
  "frame_of i = \<lparr>tf_regs = i_regs i, tf_epc = i_epc i, mtime_at_entry = i_entry_mtime i,
     cycle_at_entry = i_entry_cycle i\<rparr>"


subsection \<open>The spinning task bodies\<close>

text \<open>Task body \<open>k\<close> (0, 1, 2 for a, b, c): its congruential state and its counter.\<close>

record spinners =
  lcg :: "u64 list"
  iters :: "u64 list"

definition spinners_boot :: spinners where
  "spinners_boot = \<lparr>lcg = [1, 2, 3], iters = [0, 0, 0]\<rparr>"

definition lcg_next :: "nat \<Rightarrow> u64 \<Rightarrow> u64" where
  "lcg_next k x =
     (if k = 0 then x * 6364136223846793005 + 1442695040888963407
      else if k = 1 then x * 2862933555777941757 + 3037000493
      else x * 1597334677 + 1013904223)"

definition spin_once :: "nat \<Rightarrow> spinners \<Rightarrow> spinners" where
  "spin_once k sp =
     sp\<lparr>lcg := (lcg sp)[k := lcg_next k (lcg sp ! k)], iters := (iters sp)[k := iters sp ! k + 1]\<rparr>"

definition spin :: "nat \<Rightarrow> nat \<Rightarrow> spinners \<Rightarrow> spinners" where
  "spin k n sp = (spin_once k ^^ n) sp"

lemma spin_iters:
  "k < length (iters sp) \<Longrightarrow> iters (spin k n sp) = (iters sp)[k := iters sp ! k + of_nat n]"
  unfolding spin_def by (induction n) (auto simp: spin_once_def algebra_simps)

lemma spin_lengths [simp]:
  "length (iters (spin k n sp)) = length (iters sp)" "length (lcg (spin k n sp)) = length (lcg sp)"
  unfolding spin_def by (induction n) (auto simp: spin_once_def)


subsection \<open>State\<close>

text \<open>\<open>ptask_t\<close> and \<open>stask_t\<close>; a task body is named by its number.\<close>

record task_entry =
  ptf :: trapframe
  pfn :: nat
  pname :: string

text \<open>
  The static variables both schedulers have, the hart they run on, the stream of timer reads,
  and the frame the scratch register points at.
\<close>

record tick_state = console +
  tasks :: "task_entry list"
  n_tasks :: nat
  current :: int
  sched_tf :: trapframe
  g_exit_cycles :: u64
  g_exit_mtime :: u64
  g_entry_cycles :: u64
  g_entry_mtime :: u64
  have_prev :: bool
  ticks :: u64
  done_flag :: bool
  deadline :: u64
  swn :: u64
  mtime_src :: "nat \<Rightarrow> u64"
  mtime_reads :: nat
  cpu :: hart
  running :: frame_ref
  spins :: spinners

definition empty_frame :: trapframe where
  "empty_frame = \<lparr>tf_regs = replicate 32 0, tf_epc = 0, mtime_at_entry = 0, cycle_at_entry = 0\<rparr>"

definition empty_ptask :: task_entry where
  "empty_ptask = \<lparr>ptf = empty_frame, pfn = 0, pname = []\<rparr>"

definition frame_at :: "frame_ref \<Rightarrow> 'a tick_state_scheme \<Rightarrow> trapframe" where
  "frame_at f s = (case f of BootFrame \<Rightarrow> sched_tf s | TaskFrame k \<Rightarrow> ptf (tasks s ! k))"

definition frame_put :: "frame_ref \<Rightarrow> trapframe \<Rightarrow> 'a tick_state_scheme \<Rightarrow> 'a tick_state_scheme" where
  "frame_put f tf s =
     (case f of BootFrame \<Rightarrow> s\<lparr>sched_tf := tf\<rparr>
      | TaskFrame k \<Rightarrow> s\<lparr>tasks := (tasks s)[k := (tasks s ! k)\<lparr>ptf := tf\<rparr>]\<rparr>)"


text \<open>
  A task body's progress until the next trap. The body that spins is the one the trampoline
  called for the running task.
\<close>

definition run_body :: "nat \<Rightarrow> 'a tick_state_scheme \<Rightarrow> 'a tick_state_scheme" where
  "run_body n s =
     (case running s of BootFrame \<Rightarrow> s
      | TaskFrame k \<Rightarrow> s\<lparr>spins := spin (pfn (tasks s ! k)) n (spins s)\<rparr>)"


subsection \<open>Arming the timer\<close>

abbreviation (input) QUANTUM_TICKS :: u64 where "QUANTUM_TICKS \<equiv> 10000"
abbreviation (input) N_TICKS :: nat where "N_TICKS \<equiv> 200"

text \<open>
  \<open>while (deadline <= mtime) deadline += QUANTUM_TICKS;\<close> where read number \<open>n\<close> of the timer
  returns \<open>mt n\<close>. The loop may outlast any bound if the reads outrun it, hence the option type.
\<close>

partial_function (option) arm_loop :: "(nat \<Rightarrow> u64) \<Rightarrow> nat \<Rightarrow> u64 \<Rightarrow> (u64 \<times> nat) option" where
  "arm_loop mt n d =
     (if d \<le> mt n then arm_loop mt (Suc n) (d + QUANTUM_TICKS) else Some (d, Suc n))"

lemma arm_loop_skips:
  "(\<And>j. j < k \<Longrightarrow> d + 10000 * of_nat j \<le> mt (n + j)) \<Longrightarrow> mt (n + k) < d + 10000 * of_nat k \<Longrightarrow>
   arm_loop mt n d = Some (d + 10000 * of_nat k, Suc (n + k))"
proof (induction k arbitrary: n d)
  case 0
  then show ?case by (subst arm_loop.simps) (auto dest: leD)
next
  case (Suc k)
  have "d \<le> mt n" using Suc.prems(1) [of 0] by simp
  moreover have "arm_loop mt (Suc n) (d + 10000) = Some (d + 10000 + 10000 * of_nat k, Suc (Suc n + k))"
  proof (rule Suc.IH)
    show "d + 10000 + 10000 * of_nat j \<le> mt (Suc n + j)" if "j < k" for j
      using Suc.prems(1) [of "Suc j"] that by (simp add: algebra_simps)
    show "mt (Suc n + k) < d + 10000 + 10000 * of_nat k"
      using Suc.prems(2) by (simp add: algebra_simps)
  qed
  ultimately show ?case by (subst arm_loop.simps) (simp add: algebra_simps)
qed

text \<open>The loop returns as soon as some read is behind the deadline of that round.\<close>

lemma arm_loop_returns:
  assumes "mt (n + k) < d + 10000 * of_nat k"
  shows "\<exists>j \<le> k. arm_loop mt n d = Some (d + 10000 * of_nat j, Suc (n + j)) \<and>
    mt (n + j) < d + 10000 * of_nat j"
proof -
  define j where "j = (LEAST j. mt (n + j) < d + 10000 * of_nat j)"
  have j: "mt (n + j) < d + 10000 * of_nat j" unfolding j_def using assms by (rule LeastI)
  moreover have "j \<le> k" unfolding j_def using assms by (rule Least_le)
  moreover have "d + 10000 * of_nat i \<le> mt (n + i)" if "i < j" for i
    by (rule leI) (use that not_less_Least in \<open>unfold j_def, blast\<close>)
  ultimately show ?thesis using arm_loop_skips [of j d mt n] by blast
qed


text \<open>A timer whose two reads in one arming are less than a quantum apart.\<close>

definition steady :: "(nat \<Rightarrow> u64) \<Rightarrow> bool" where
  "steady mt \<longleftrightarrow> (\<forall>j. mt (2 * j + 1) < mt (2 * j) + 10000)"


subsection \<open>Running statistics\<close>

record stat =
  s_min :: u64
  s_max :: u64
  s_sum :: u64

definition stat_boot :: stat where
  "stat_boot = \<lparr>s_min = - 1, s_max = 0, s_sum = 0\<rparr>"

definition stat_add :: "u64 \<Rightarrow> stat \<Rightarrow> stat" where
  "stat_add v st =
     (let st1 = (if v < s_min st then st\<lparr>s_min := v\<rparr> else st);
          st2 = (if v > s_max st1 then st1\<lparr>s_max := v\<rparr> else st1)
      in st2\<lparr>s_sum := s_sum st2 + v\<rparr>)"

definition stats_of :: "u64 list \<Rightarrow> stat" where
  "stats_of xs = fold stat_add xs stat_boot"

lemma stats_of_snoc: "stats_of (xs @ [v]) = stat_add v (stats_of xs)"
  by (simp add: stats_of_def)

lemma stats_of_Nil [simp]: "stats_of [] = stat_boot"
  by (simp add: stats_of_def)

lemma stat_add_fields [simp]:
  "s_min (stat_add v st) = min v (s_min st)" "s_max (stat_add v st) = max v (s_max st)"
  "s_sum (stat_add v st) = s_sum st + v"
  by (auto simp: stat_add_def Let_def min_def max_def)

lemma stats_of_spec:
  "s_sum (stats_of xs) = sum_list xs \<and>
   (xs \<noteq> [] \<longrightarrow> s_min (stats_of xs) = Min (set xs) \<and> s_max (stats_of xs) = Max (set xs))"
proof (induction xs rule: rev_induct)
  case Nil
  then show ?case by (simp add: stat_boot_def)
next
  case (snoc v xs)
  then show ?case
    by (cases "xs = []") (simp_all add: stats_of_snoc, simp add: stats_of_def stat_boot_def)
qed

text \<open>\<open>a / b\<close> on unsigned operands; dividing by zero has no defined result.\<close>

definition udiv :: "u64 \<Rightarrow> u64 \<Rightarrow> u64 option" where
  "udiv a b = (if b = 0 then None else Some (a div b))"


subsection \<open>Schedulers driven by ticks\<close>

fun run_ticks :: "('i \<Rightarrow> 's \<Rightarrow> 's option) \<Rightarrow> 'i list \<Rightarrow> 's \<Rightarrow> 's option" where
  "run_ticks tick [] s = Some s"
| "run_ticks tick (i # is) s = (case tick i s of None \<Rightarrow> None | Some s' \<Rightarrow> run_ticks tick is s')"

lemma run_ticks_append:
  "run_ticks tick (xs @ ys) s =
     (case run_ticks tick xs s of None \<Rightarrow> None | Some s' \<Rightarrow> run_ticks tick ys s')"
  by (induction xs arbitrary: s) (auto split: option.splits)

text \<open>The frame that runs after \<open>k\<close> of the 200 ticks, with \<open>n\<close> tasks.\<close>

definition turn :: "nat \<Rightarrow> nat \<Rightarrow> frame_ref" where
  "turn n k = (if k = 0 \<or> N_TICKS \<le> k then BootFrame else TaskFrame ((k - 1) mod n))"

definition cycle_cost :: "tick_in \<Rightarrow> u64" where
  "cycle_cost i = i_exit_cycle i - i_entry_cycle i"

definition mtime_cost :: "tick_in \<Rightarrow> u64" where
  "mtime_cost i = i_exit_mtime i - i_entry_mtime i"

text \<open>Tick \<open>j\<close> is late by its entry stamp less the deadline the \<open>j\<close>th arming set.\<close>

definition latencies :: "(nat \<Rightarrow> u64) \<Rightarrow> tick_in list \<Rightarrow> u64 list" where
  "latencies mt h = map (\<lambda>j. i_entry_mtime (h ! j) - (mt (2 * j) + 10000)) [0..<length h]"

lemma latencies_snoc:
  "latencies mt (h @ [i]) = latencies mt h @ [i_entry_mtime i - (mt (2 * length h) + 10000)]"
  by (simp add: latencies_def nth_append)

text \<open>The iterations task \<open>k\<close> completed: those of the slices in which it was its turn.\<close>

definition progress :: "nat \<Rightarrow> tick_in list \<Rightarrow> nat \<Rightarrow> nat" where
  "progress n h k = (\<Sum>j < length h. if turn n j = TaskFrame k then i_iters (h ! j) else 0)"

lemma progress_snoc:
  "progress n (h @ [i]) k = progress n h k + (if turn n (length h) = TaskFrame k then i_iters i else 0)"
  unfolding progress_def by (simp add: nth_append cong: if_cong sum.cong_simp)

text \<open>What the entry path does before the handler keeps everything but frames and counters.\<close>

lemma frame_put_fields [simp]:
  "out (frame_put f tf s) = out s" "n_tasks (frame_put f tf s) = n_tasks s" "current (frame_put f tf s) = current s"
  "g_exit_cycles (frame_put f tf s) = g_exit_cycles s" "g_exit_mtime (frame_put f tf s) = g_exit_mtime s"
  "g_entry_cycles (frame_put f tf s) = g_entry_cycles s" "g_entry_mtime (frame_put f tf s) = g_entry_mtime s"
  "have_prev (frame_put f tf s) = have_prev s" "ticks (frame_put f tf s) = ticks s"
  "done_flag (frame_put f tf s) = done_flag s" "deadline (frame_put f tf s) = deadline s"
  "swn (frame_put f tf s) = swn s" "mtime_src (frame_put f tf s) = mtime_src s"
  "mtime_reads (frame_put f tf s) = mtime_reads s"
  "cpu (frame_put f tf s) = cpu s" "running (frame_put f tf s) = running s" "spins (frame_put f tf s) = spins s"
  "length (tasks (frame_put f tf s)) = length (tasks s)"
  by (simp_all add: frame_put_def split: frame_ref.split)

lemma frame_put_pfn [simp]: "map pfn (tasks (frame_put f tf s)) = map pfn (tasks s)"
proof (cases f)
  case (TaskFrame k)
  have "map pfn ((tasks s)[k := (tasks s ! k)\<lparr>ptf := tf\<rparr>]) = (map pfn (tasks s))[k := pfn (tasks s ! k)]"
    by (simp add: map_update)
  also have "\<dots> = map pfn (tasks s)"
    by (cases "k < length (tasks s)") (simp_all add: list_update_same_conv list_update_beyond)
  finally show ?thesis by (simp add: frame_put_def TaskFrame)
qed (simp add: frame_put_def)

lemma frame_at_put:
  "(case f of BootFrame \<Rightarrow> True | TaskFrame k \<Rightarrow> k < length (tasks s)) \<Longrightarrow> frame_at f (frame_put f tf s) = tf"
  by (auto simp: frame_at_def frame_put_def split: frame_ref.splits)

lemma run_body_fields [simp]:
  "out (run_body m s) = out s" "n_tasks (run_body m s) = n_tasks s" "current (run_body m s) = current s"
  "g_exit_cycles (run_body m s) = g_exit_cycles s" "g_exit_mtime (run_body m s) = g_exit_mtime s"
  "g_entry_cycles (run_body m s) = g_entry_cycles s" "g_entry_mtime (run_body m s) = g_entry_mtime s"
  "have_prev (run_body m s) = have_prev s" "ticks (run_body m s) = ticks s"
  "done_flag (run_body m s) = done_flag s" "deadline (run_body m s) = deadline s"
  "swn (run_body m s) = swn s" "mtime_src (run_body m s) = mtime_src s"
  "mtime_reads (run_body m s) = mtime_reads s"
  "cpu (run_body m s) = cpu s" "running (run_body m s) = running s" "tasks (run_body m s) = tasks s"
  by (simp_all add: run_body_def split: frame_ref.split)

lemma turn_bound: "turn 3 k = TaskFrame j \<Longrightarrow> j < 3"
  by (auto simp: turn_def split: if_splits)

lemma map_pfn_nth: "map pfn ts = [0, 1, 2] \<Longrightarrow> k < 3 \<Longrightarrow> length ts = 3 \<and> pfn (ts ! k) = k"
proof -
  assume a: "map pfn ts = [0, 1, 2]" "k < 3"
  then have l: "length ts = 3" by (metis length_map length_Cons list.size(3) numeral_3_eq_3)
  then have "pfn (ts ! k) = [0, 1, 2] ! k" using a by (metis nth_map)
  with a(2) l show ?thesis by (auto simp: less_Suc_eq numeral_3_eq_3)
qed

text \<open>The slice before the trap: only the running task's counter moves.\<close>

lemma run_body_progress:
  assumes "map pfn (tasks s) = [0, 1, 2]" "length (iters (spins s)) = 3" "running s = turn 3 (length h)"
    and "\<forall>k < 3. iters (spins s) ! k = of_nat (progress 3 h k)"
  shows "length (iters (spins (run_body (i_iters i) s))) = 3 \<and>
    (\<forall>k < 3. iters (spins (run_body (i_iters i) s)) ! k = of_nat (progress 3 (h @ [i]) k))"
proof (cases "turn 3 (length h)")
  case BootFrame
  then show ?thesis using assms by (simp add: run_body_def progress_snoc)
next
  case (TaskFrame j)
  have "j < 3" using turn_bound TaskFrame by blast
  then have f: "pfn (tasks s ! j) = j" using map_pfn_nth [OF assms(1)] by blast
  show ?thesis
    using assms TaskFrame \<open>j < 3\<close>
    by (auto simp: run_body_def f spin_iters progress_snoc nth_list_update)
qed


lemma ticks_reach: "l < 200 \<Longrightarrow> ((200 :: u64) \<le> of_nat l + 1) = (200 \<le> Suc l)"
proof -
  assume "l < 200"
  then have "unat (of_nat (Suc l) :: u64) = Suc l" by (simp add: unat_of_nat del: of_nat_Suc)
  moreover have "unat (200 :: u64) = 200" by simp
  ultimately show ?thesis unfolding word_le_nat_alt by (simp only: of_nat_Suc add.commute)
qed

lemma next_turn:
  assumes "l < 200" "c = (if l = 0 then - 1 else int ((min l 199 - 1) mod 3))"
  shows "(c + 1) mod 3 = int (l mod 3)" and "200 \<le> Suc l \<Longrightarrow> c = int ((min (Suc l) 199 - 1) mod 3)"
proof -
  show "(c + 1) mod 3 = int (l mod 3)"
    using assms by (auto simp: min_def zmod_int of_nat_diff mod_simps)
  show "c = int ((min (Suc l) 199 - 1) mod 3)" if "200 \<le> Suc l"
  proof -
    have "l = 199" using that assms(1) by simp
    then show ?thesis using assms(2) by simp
  qed
qed

text \<open>
  The contract: \<open>inv h s\<close> relates the state to the history \<open>h\<close> of ticks so far. A tick with a
  valid cause is served, extends the history and hands the hart to the frame whose turn it is.
\<close>

locale tick_scheduler =
  fixes tick :: "tick_in \<Rightarrow> 's \<Rightarrow> 's option"
    and inv :: "tick_in list \<Rightarrow> 's \<Rightarrow> bool"
    and valid :: "tick_in \<Rightarrow> bool"
    and running :: "'s \<Rightarrow> frame_ref"
    and finished :: "'s \<Rightarrow> bool"
    and n :: nat
  assumes tick_served: "inv h s \<Longrightarrow> length h < N_TICKS \<Longrightarrow> valid i \<Longrightarrow>
      \<exists>s'. tick i s = Some s' \<and> inv (h @ [i]) s'"
    and inv_running: "inv h s \<Longrightarrow> running s = turn n (length h)"
    and inv_finished: "inv h s \<Longrightarrow> finished s \<longleftrightarrow> N_TICKS \<le> length h"
begin

lemma run_served:
  "inv h s \<Longrightarrow> length h + length is \<le> N_TICKS \<Longrightarrow> list_all valid is \<Longrightarrow>
   \<exists>s'. run_ticks tick is s = Some s' \<and> inv (h @ is) s'"
proof (induction "is" arbitrary: h s)
  case Nil
  then show ?case by simp
next
  case (Cons i "is")
  then obtain s1 where "tick i s = Some s1" "inv (h @ [i]) s1"
    using tick_served [of h s i] by auto
  with Cons show ?case using Cons.IH [of "h @ [i]" s1] by auto
qed

text \<open>Round robin: after every prefix of the ticks the frame whose turn it is runs.\<close>

lemma round_robin:
  assumes "inv [] s" "length is \<le> N_TICKS" "list_all valid is" "k \<le> length is"
  shows "\<exists>s'. run_ticks tick (take k is) s = Some s' \<and> running s' = turn n k \<and>
    (finished s' \<longleftrightarrow> k = N_TICKS)"
proof -
  have "list_all valid (take k is)" using assms(3) by (auto simp: list_all_iff dest: in_set_takeD)
  then obtain s' where "run_ticks tick (take k is) s = Some s'" "inv (take k is) s'"
    using run_served [OF assms(1), of "take k is"] assms(2,4) by auto
  then show ?thesis using inv_running [of "take k is" s'] inv_finished [of "take k is" s'] assms by auto
qed

text \<open>The wait loop of the boot context ends after exactly 200 ticks.\<close>

lemma waits_for_quota:
  assumes "inv [] s" "length is = N_TICKS" "list_all valid is"
  shows "\<exists>s'. run_ticks tick is s = Some s' \<and> inv is s' \<and> finished s' \<and> running s' = BootFrame"
proof -
  obtain s' where "run_ticks tick is s = Some s'" "inv is s'"
    using run_served [OF assms(1), of "is"] assms(2,3) by auto
  then show ?thesis using inv_running [of "is" s'] inv_finished [of "is" s'] assms(2)
    by (auto simp: turn_def)
qed

end

text \<open>
  The boot context's loop \<open>while (!done)\<close>: it goes on consuming ticks until \<open>done\<close> is set. \<open>None\<close>
  means that the ticks delivered did not end it.
\<close>

fun wait_done :: "('s \<Rightarrow> bool) \<Rightarrow> (tick_in \<Rightarrow> 's \<Rightarrow> 's option) \<Rightarrow> tick_in list \<Rightarrow> 's \<Rightarrow> 's option" where
  "wait_done fin tick [] s = (if fin s then Some s else None)"
| "wait_done fin tick (i # is) s =
     (if fin s then Some s
      else case tick i s of None \<Rightarrow> None | Some s' \<Rightarrow> wait_done fin tick is s')"

context tick_scheduler
begin

lemma wait_done_run:
  "inv h s \<Longrightarrow> length h + length is = N_TICKS \<Longrightarrow> list_all valid is \<Longrightarrow>
   \<exists>s'. wait_done finished tick (is @ later) s = Some s' \<and> inv (h @ is) s'"
proof (induction "is" arbitrary: h s)
  case Nil
  then show ?case using inv_finished [of h s] by (cases later) auto
next
  case (Cons i "is")
  then obtain s1 where "tick i s = Some s1" "inv (h @ [i]) s1"
    using tick_served [of h s i] by auto
  with Cons show ?case using Cons.IH [of "h @ [i]" s1] inv_finished [of h s] by auto
qed

end

end
