(* ===== verification/Trapframe.thy ===== *)
theory Trapframe
  imports Riscv
begin

text \<open>
  The full-context switch that \<open>preempt/trap.S\<close> and \<open>smode/strap.S\<close> share: the entry path
  that saves the interrupted registers in the trap frame \<open>mscratch\<close>/\<open>sscratch\<close> points at, and
  the exit path that stamps the end of the switch and restores the frame the C handler chose.
  The scratch and exception-PC registers and the return instruction are parameters, as they
  are in \<open>strap.S\<close>.
\<close>

unbundle bit_operations_syntax

text \<open>Register slots of \<open>trapframe_t\<close>, in the order of the \<open>sd\<close> instructions: all but x5.\<close>

definition tf_saves :: "(nat \<times> u64) list" where
  "tf_saves = [(1, 8), (2, 16), (3, 24), (4, 32), (6, 48), (7, 56), (8, 64), (9, 72), (10, 80),
     (11, 88), (12, 96), (13, 104), (14, 112), (15, 120), (16, 128), (17, 136), (18, 144),
     (19, 152), (20, 160), (21, 168), (22, 176), (23, 184), (24, 192), (25, 200), (26, 208),
     (27, 216), (28, 224), (29, 232), (30, 240), (31, 248)]"

text \<open>The loads of the exit path that go through t1: all but x5, x6.\<close>

definition tf_loads :: "(nat \<times> u64) list" where
  "tf_loads = [(1, 8), (2, 16), (3, 24), (4, 32), (7, 56), (8, 64), (9, 72), (10, 80),
     (11, 88), (12, 96), (13, 104), (14, 112), (15, 120), (16, 128), (17, 136), (18, 144),
     (19, 152), (20, 160), (21, 168), (22, 176), (23, 184), (24, 192), (25, 200), (26, 208),
     (27, 216), (28, 224), (29, 232), (30, 240), (31, 248)]"

text \<open>Entry, up to the call of the C handler; \<open>stk\<close> is the handler's stack.\<close>

definition tf_entry :: "csr \<Rightarrow> csr \<Rightarrow> u64 \<Rightarrow> instr list" where
  "tf_entry scratch epc stk =
     [Csrrw xt0 scratch xt0, Rdtime xt1, Sd xt1 264 xt0, Rdcycle xt1, Sd xt1 272 xt0] @
     save_block xt0 tf_saves @
     [Csrr xt1 scratch, Sd xt1 40 xt0, Csrr xt1 epc, Sd xt1 256 xt0, Li xsp stk, Mv xa0 xt0]"

text \<open>Exit, from the handler's return with the next frame in a0.\<close>

definition tf_exit :: "csr \<Rightarrow> csr \<Rightarrow> u64 \<Rightarrow> u64 \<Rightarrow> instr \<Rightarrow> instr list" where
  "tf_exit scratch epc exit_cycles exit_mtime ret =
     [Rdcycle xt1, Li xt2 exit_cycles, Sd xt1 0 xt2, Rdtime xt1, Li xt2 exit_mtime, Sd xt1 0 xt2,
      Mv xt1 xa0, Ld xt2 256 xt1, Csrw epc xt2] @
     load_block xt1 tf_loads @
     [Ld xt0 40 xt1, Csrw scratch xt1, Ld xt1 48 xt1, ret]"

text \<open>\<open>regs[r]\<close> of the frame at \<open>tf\<close>, and the doublewords the frame occupies.\<close>

definition tf_reg :: "(u64 \<Rightarrow> u64) \<Rightarrow> u64 \<Rightarrow> nat \<Rightarrow> u64" where
  "tf_reg m tf r = m (tf + 8 * of_nat r)"

definition tf_slots :: "u64 \<Rightarrow> u64 set" where
  "tf_slots tf = (\<lambda>i. tf + 8 * of_nat i) ` set [0..<35]"

text \<open>The control registers the two builds use for the switch.\<close>

definition switch_csrs :: "csr \<Rightarrow> csr \<Rightarrow> bool" where
  "switch_csrs scratch epc \<longleftrightarrow> (scratch, epc) \<in> {(Mscratch, Mepc), (Sscratch, Sepc)}"

lemma switch_csrs_plain:
  assumes "switch_csrs scratch epc"
  shows "csr_read scratch h = csrf h scratch" "csr_read epc h = csrf h epc"
    "csr_write scratch v h = csr_store scratch v h" "csr_write epc v h = csr_store epc v h"
    "scratch \<noteq> epc"
  using assms by (auto simp: switch_csrs_def)

lemma tf_table_facts:
  "offsets_aligned tf_saves" "distinct (map snd tf_saves)" "length tf_saves = 30"
  "offsets_aligned tf_loads" "distinct (map fst tf_loads)" "length tf_loads = 29"
  "xt1 \<notin> fst ` set tf_loads" "0 \<notin> fst ` set tf_loads"
  by (simp_all add: tf_saves_def tf_loads_def offsets_aligned_def)

lemma tf_save_slot: "0 < r \<Longrightarrow> r < 32 \<Longrightarrow> r \<noteq> xt0 \<Longrightarrow> (r, 8 * of_nat r) \<in> set tf_saves"
proof -
  have "\<forall>r \<in> set [1..<32]. r \<noteq> xt0 \<longrightarrow> (r, 8 * of_nat r) \<in> set tf_saves"
    by (simp add: upt_rec tf_saves_def)
  then show "0 < r \<Longrightarrow> r < 32 \<Longrightarrow> r \<noteq> xt0 \<Longrightarrow> (r, 8 * of_nat r) \<in> set tf_saves" by simp
qed

lemma tf_load_slot:
  "0 < r \<Longrightarrow> r < 32 \<Longrightarrow> r \<noteq> xt0 \<Longrightarrow> r \<noteq> xt1 \<Longrightarrow> (r, 8 * of_nat r) \<in> set tf_loads"
proof -
  have "\<forall>r \<in> set [1..<32]. r \<noteq> xt0 \<and> r \<noteq> xt1 \<longrightarrow> (r, 8 * of_nat r) \<in> set tf_loads"
    by (simp add: upt_rec tf_loads_def)
  then show "0 < r \<Longrightarrow> r < 32 \<Longrightarrow> r \<noteq> xt0 \<Longrightarrow> r \<noteq> xt1 \<Longrightarrow> (r, 8 * of_nat r) \<in> set tf_loads" by simp
qed

lemma tf_offsets_eval:
  "tf_slots tf = (\<lambda>off. tf + off) ` {0, 8, 16, 24, 32, 40, 48, 56, 64, 72, 80, 88, 96, 104, 112, 120,
     128, 136, 144, 152, 160, 168, 176, 184, 192, 200, 208, 216, 224, 232, 240, 248, 256, 264, 272}"
  by (simp add: tf_slots_def upt_rec)

lemma tf_saves_slots: "(\<lambda>(r, off). tf + off) ` set tf_saves \<subseteq> tf_slots tf"
  by (auto simp: tf_offsets_eval tf_saves_def)


subsection \<open>Entry\<close>

lemma tf_entry_head:
  assumes "switch_csrs scratch epc" "aligned8 (csrf h scratch)" "plain_csr h scratch"
  shows "\<exists>h1. run_code [Csrrw xt0 scratch xt0, Rdtime xt1, Sd xt1 264 xt0, Rdcycle xt1, Sd xt1 272 xt0] h
      = Running h1 \<and>
    reg_get xt0 h1 = csrf h scratch \<and> reg_get xt1 h1 = snd (clock h (retired h + 3)) \<and>
    (\<forall>r. r \<notin> {xt0, xt1} \<longrightarrow> reg_get r h1 = reg_get r h) \<and>
    ram h1 = (ram h)(csrf h scratch + 264 := fst (clock h (Suc (retired h))),
                     csrf h scratch + 272 := snd (clock h (retired h + 3))) \<and>
    csrf h1 = (csrf h)(scratch := reg_get xt0 h) \<and> legal h1 = legal h \<and> clock h1 = clock h \<and>
    retired h1 = retired h + 5 \<and> priv h1 = priv h"
proof -
  have al: "aligned8 (csrf h scratch + 264)" "aligned8 (csrf h scratch + 272)"
    using assms(2) by (simp_all add: aligned8_offset)
  show ?thesis
    using assms(3) al
    by (simp add: switch_csrs_plain [OF assms(1)] Let_def machine_simps plain_csr_def
        eval_nat_numeral del: fun_upd_apply)
qed

lemma tf_entry_tail:
  assumes "switch_csrs scratch epc" "aligned8 (reg_get xt0 h)"
  shows "\<exists>h1. run_code [Csrr xt1 scratch, Sd xt1 40 xt0, Csrr xt1 epc, Sd xt1 256 xt0, Li xsp stk, Mv xa0 xt0] h
      = Running h1 \<and>
    reg_get xa0 h1 = reg_get xt0 h \<and> reg_get xsp h1 = stk \<and>
    ram h1 = (ram h)(reg_get xt0 h + 40 := csrf h scratch, reg_get xt0 h + 256 := csrf h epc) \<and>
    csrf h1 = csrf h \<and> legal h1 = legal h \<and> clock h1 = clock h \<and> priv h1 = priv h"
proof -
  have al: "aligned8 (reg_get xt0 h + 40)" "aligned8 (reg_get xt0 h + 256)"
    using assms(2) by (simp_all add: aligned8_offset)
  show ?thesis
    using al by (simp add: switch_csrs_plain [OF assms(1)] Let_def machine_simps)
qed

text \<open>
  The frame after entry: every register is in its slot, except that slot 6 (t1) receives the
  cycle stamp, since t1 has been overwritten by then.
\<close>

lemma tf_entry_saves:
  assumes cs: "switch_csrs scratch epc" and al: "aligned8 (csrf h scratch)" and pl: "plain_csr h scratch"
  defines "tf \<equiv> csrf h scratch"
  shows "\<exists>h'. run_code (tf_entry scratch epc stk) h = Running h' \<and>
    reg_get xa0 h' = tf \<and> reg_get xsp h' = stk \<and>
    (\<forall>r. 0 < r \<and> r < 32 \<and> r \<noteq> xt1 \<longrightarrow> tf_reg (ram h') tf r = reg_get r h) \<and>
    tf_reg (ram h') tf xt1 = snd (clock h (retired h + 3)) \<and>
    tf_reg (ram h') tf 32 = csrf h epc \<and>
    tf_reg (ram h') tf 33 = fst (clock h (Suc (retired h))) \<and>
    tf_reg (ram h') tf 34 = snd (clock h (retired h + 3)) \<and>
    (\<forall>a. a \<notin> tf_slots tf \<longrightarrow> ram h' a = ram h a) \<and>
    csrf h' = (csrf h)(scratch := reg_get xt0 h) \<and> legal h' = legal h \<and> clock h' = clock h \<and>
    priv h' = priv h"
proof -
  let ?c = "snd (clock h (retired h + 3))" and ?t = "fst (clock h (Suc (retired h)))"
  let ?hd = "[Csrrw xt0 scratch xt0, Rdtime xt1, Sd xt1 264 xt0, Rdcycle xt1, Sd xt1 272 xt0]"
  let ?tl = "[Csrr xt1 scratch, Sd xt1 40 xt0, Csrr xt1 epc, Sd xt1 256 xt0, Li xsp stk, Mv xa0 xt0]"
  let ?f = "\<lambda>r. if r = xt0 then tf else if r = xt1 then ?c else reg_get r h"
  obtain h1 where h1: "run_code ?hd h = Running h1" "reg_get xt0 h1 = tf" "reg_get xt1 h1 = ?c"
    "\<forall>r. r \<notin> {xt0, xt1} \<longrightarrow> reg_get r h1 = reg_get r h"
    "ram h1 = (ram h)(tf + 264 := ?t, tf + 272 := ?c)"
    "csrf h1 = (csrf h)(scratch := reg_get xt0 h)" "legal h1 = legal h" "clock h1 = clock h"
    "priv h1 = priv h"
    using tf_entry_head [OF cs al pl] unfolding tf_def by blast
  have f: "reg_get r h1 = ?f r" for r using h1(2,3,4) by simp
  define h2 where "h2 = h1\<lparr>ram := save_regs ?f tf tf_saves (ram h1), retired := retired h1 + length tf_saves\<rparr>"
  have al1: "aligned8 (reg_get xt0 h1)" using al h1(2) by (simp add: tf_def)
  have run2: "run_code (save_block xt0 tf_saves) h1 = Running h2"
    using run_save_block [OF al1 tf_table_facts(1)] unfolding h2_def by (simp add: f h1(2))
  have r2: "reg_get r h2 = ?f r" for r using f by (simp add: h2_def machine_simps)
  have al2: "aligned8 (reg_get xt0 h2)" using al r2 [of xt0] by (simp add: tf_def)
  obtain h' where h': "run_code ?tl h2 = Running h'" "reg_get xa0 h' = tf" "reg_get xsp h' = stk"
    "ram h' = (ram h2)(tf + 40 := csrf h2 scratch, tf + 256 := csrf h2 epc)"
    "csrf h' = csrf h2" "legal h' = legal h2" "clock h' = clock h2" "priv h' = priv h2"
    using tf_entry_tail [OF cs al2, of stk] r2 [of xt0] by auto
  have c2: "csrf h2 = (csrf h)(scratch := reg_get xt0 h)" "legal h2 = legal h" "clock h2 = clock h" "priv h2 = priv h"
    using h1 by (simp_all add: h2_def)
  have run: "run_code (tf_entry scratch epc stk) h = Running h'"
    unfolding tf_entry_def using h1(1) run2 h'(1) by (simp only: run_code_append outcome.case)
  have mem: "ram h' = (save_regs ?f tf tf_saves ((ram h)(tf + 264 := ?t, tf + 272 := ?c)))
      (tf + 40 := reg_get xt0 h, tf + 256 := csrf h epc)"
    using h'(4) c2(1) h1(5) switch_csrs_plain(5) [OF cs] by (simp add: h2_def)
  have slot: "tf_reg (ram h') tf r = ?f r" if "0 < r" "r < 32" "r \<noteq> xt0" for r
  proof -
    have i: "(r, 8 * of_nat r) \<in> set tf_saves" using that by (rule tf_save_slot)
    then have "8 * (of_nat r :: u64) \<notin> {40, 256}" by (auto simp: tf_saves_def)
    with save_regs_slot [OF tf_table_facts(2) i] show ?thesis by (simp add: tf_reg_def mem)
  qed
  have other: "save_regs ?f tf tf_saves m (tf + off) = m (tf + off)" if "off \<in> {264, 272}" for m off
    by (rule save_regs_other) (use that in \<open>auto simp: tf_saves_def\<close>)
  have frame: "ram h' a = ram h a" if "a \<notin> tf_slots tf" for a
  proof -
    have "a \<notin> (\<lambda>(r, off). tf + off) ` set tf_saves" using that tf_saves_slots by blast
    moreover have "a \<notin> {tf + 40, tf + 256, tf + 264, tf + 272}"
      using that by (auto simp: tf_offsets_eval)
    ultimately show ?thesis by (simp add: mem save_regs_other)
  qed
  have x: "tf_reg (ram h') tf xt0 = reg_get xt0 h" "tf_reg (ram h') tf 32 = csrf h epc"
    "tf_reg (ram h') tf 33 = ?t" "tf_reg (ram h') tf 34 = ?c"
    using other [of 264] other [of 272] by (simp_all add: tf_reg_def mem)
  have "tf_reg (ram h') tf r = reg_get r h" if "0 < r" "r < 32" "r \<noteq> xt1" for r
    using that slot [of r] x(1) by (cases "r = xt0") simp_all
  with run h'(2,3) slot [of xt1] x frame h'(5-8) c2 show ?thesis by simp
qed


subsection \<open>Exit\<close>

lemma tf_exit_head:
  assumes "switch_csrs scratch epc" "aligned8 (reg_get xa0 h)" "aligned8 gc" "aligned8 gt"
    and "reg_get xa0 h + 256 \<notin> {gc, gt}"
  shows "\<exists>h1. run_code [Rdcycle xt1, Li xt2 gc, Sd xt1 0 xt2, Rdtime xt1, Li xt2 gt, Sd xt1 0 xt2,
      Mv xt1 xa0, Ld xt2 256 xt1, Csrw epc xt2] h = Running h1 \<and>
    reg_get xt1 h1 = reg_get xa0 h \<and>
    ram h1 = (ram h)(gc := snd (clock h (retired h)), gt := fst (clock h (retired h + 3))) \<and>
    csrf h1 = (csrf h)(epc := legal h epc (csrf h epc) (ram h (reg_get xa0 h + 256))) \<and>
    legal h1 = legal h \<and> priv h1 = priv h"
proof -
  have al: "aligned8 (reg_get xa0 h + 256)"
    using assms(2) by (simp add: aligned8_offset)
  show ?thesis
    using al assms(3-5)
    by (simp add: switch_csrs_plain [OF assms(1)] Let_def machine_simps eval_nat_numeral del: fun_upd_apply)
       (simp add: fun_upd_other)
qed

text \<open>\<open>mret\<close> and \<open>sret\<close> resume at the exception PC and keep registers, memory and scratch.\<close>

definition returns_to :: "csr \<Rightarrow> instr \<Rightarrow> bool" where
  "returns_to epc ret \<longleftrightarrow> (epc = Mepc \<and> ret = Mret) \<or> (epc = Sepc \<and> ret = Sret)"

lemma returns_to_step:
  assumes "returns_to epc ret"
  shows "\<exists>h'. instr_step ret h = Running h' \<and> pc h' = csrf h epc \<and> ram h' = ram h \<and>
    (\<forall>r. reg_get r h' = reg_get r h) \<and> (\<forall>c. c \<noteq> Mstatus \<longrightarrow> csrf h' c = csrf h c)"
  using assms by (auto simp: returns_to_def machine_simps do_mret_def do_sret_def)

lemma tf_exit_tail:
  assumes "switch_csrs scratch epc" "returns_to epc ret" "aligned8 (reg_get xt1 h)" "plain_csr h scratch"
  shows "\<exists>h'. run_code [Ld xt0 40 xt1, Csrw scratch xt1, Ld xt1 48 xt1, ret] h = Running h' \<and>
    reg_get xt0 h' = ram h (reg_get xt1 h + 40) \<and> reg_get xt1 h' = ram h (reg_get xt1 h + 48) \<and>
    (\<forall>r. r \<notin> {xt0, xt1} \<longrightarrow> reg_get r h' = reg_get r h) \<and> ram h' = ram h \<and>
    csrf h' scratch = reg_get xt1 h \<and> pc h' = csrf h epc"
proof -
  have al: "aligned8 (reg_get xt1 h + 40)" "aligned8 (reg_get xt1 h + 48)"
    using assms(3) by (simp_all add: aligned8_offset)
  let ?h3 = "retire (reg_set xt1 (ram h (reg_get xt1 h + 48)) (retire (csr_store scratch (reg_get xt1 h)
      (retire (reg_set xt0 (ram h (reg_get xt1 h + 40)) h)))))"
  define ld where "ld = [Ld xt0 40 xt1, Csrw scratch xt1, Ld xt1 48 xt1]"
  have "run_code ld h = Running ?h3"
    unfolding ld_def using al by (simp add: switch_csrs_plain [OF assms(1)] Let_def machine_simps)
  moreover obtain h' where h': "instr_step ret ?h3 = Running h'" "pc h' = csrf ?h3 epc" "ram h' = ram ?h3"
    "\<forall>r. reg_get r h' = reg_get r ?h3" "\<forall>c. c \<noteq> Mstatus \<longrightarrow> csrf h' c = csrf ?h3 c"
    using returns_to_step [OF assms(2)] by blast
  ultimately have "run_code (ld @ [ret]) h = Running h'"
    by (simp only: run_code_append run_code.simps outcome.case)
  moreover have "scratch \<noteq> Mstatus" using assms(1) by (auto simp: switch_csrs_def)
  ultimately show ?thesis
    using h' assms(4) switch_csrs_plain(5) [OF assms(1)]
    unfolding ld_def append.simps by (intro exI [of _ h']) (auto simp: machine_simps plain_csr_def simp del: run_code.simps)
qed

lemma tf_exit_restores:
  assumes cs: "switch_csrs scratch epc" and rt: "returns_to epc ret" and pl: "plain_csr h scratch"
    and al: "aligned8 (reg_get xa0 h)" "aligned8 gc" "aligned8 gt"
    and out: "gc \<notin> tf_slots (reg_get xa0 h)" "gt \<notin> tf_slots (reg_get xa0 h)"
  defines "tf \<equiv> reg_get xa0 h"
  shows "\<exists>h'. run_code (tf_exit scratch epc gc gt ret) h = Running h' \<and>
    (\<forall>r. 0 < r \<and> r < 32 \<longrightarrow> reg_get r h' = tf_reg (ram h) tf r) \<and>
    ram h' = (ram h)(gc := snd (clock h (retired h)), gt := fst (clock h (retired h + 3))) \<and>
    csrf h' scratch = tf \<and> pc h' = legal h epc (csrf h epc) (tf_reg (ram h) tf 32)"
proof -
  let ?hd = "[Rdcycle xt1, Li xt2 gc, Sd xt1 0 xt2, Rdtime xt1, Li xt2 gt, Sd xt1 0 xt2,
      Mv xt1 xa0, Ld xt2 256 xt1, Csrw epc xt2]"
  let ?tl = "[Ld xt0 40 xt1, Csrw scratch xt1, Ld xt1 48 xt1, ret]"
  let ?m = "(ram h)(gc := snd (clock h (retired h)), gt := fst (clock h (retired h + 3)))"
  have "tf + 256 \<notin> {gc, gt}" using out by (auto simp: tf_def tf_offsets_eval)
  with tf_exit_head [OF cs al] obtain h1 where h1: "run_code ?hd h = Running h1" "reg_get xt1 h1 = tf"
    "ram h1 = ?m" "csrf h1 = (csrf h)(epc := legal h epc (csrf h epc) (ram h (tf + 256)))"
    "legal h1 = legal h" unfolding tf_def by blast
  define h2 where "h2 = h1\<lparr>gpr := load_regs ?m tf tf_loads (gpr h1), retired := retired h1 + length tf_loads\<rparr>"
  have al1: "aligned8 (reg_get xt1 h1)" using al(1) h1(2) by (simp add: tf_def)
  have run2: "run_code (load_block xt1 tf_loads) h1 = Running h2"
    using run_load_block [OF al1 tf_table_facts(4,7,8)] unfolding h2_def by (simp add: h1(2,3))
  have r2: "reg_get xt1 h2 = tf"
    using h1(2) tf_table_facts(7) by (simp add: h2_def reg_get_def load_regs_other)
  have al2: "aligned8 (reg_get xt1 h2)" using r2 al1 h1(2) by simp
  have pl2: "plain_csr h2 scratch" using pl h1(5) by (simp add: plain_csr_def h2_def)
  obtain h' where h': "run_code ?tl h2 = Running h'" "reg_get xt0 h' = ram h2 (tf + 40)"
    "reg_get xt1 h' = ram h2 (tf + 48)" "\<forall>r. r \<notin> {xt0, xt1} \<longrightarrow> reg_get r h' = reg_get r h2"
    "ram h' = ram h2" "csrf h' scratch = tf" "pc h' = csrf h2 epc"
    using tf_exit_tail [OF cs rt al2 pl2] r2 by auto
  have run: "run_code (tf_exit scratch epc gc gt ret) h = Running h'"
    unfolding tf_exit_def using h1(1) run2 h'(1) by (simp only: run_code_append outcome.case)
  have m: "?m (tf + 8 * of_nat r) = tf_reg (ram h) tf r" if "r < 35" for r
  proof -
    have "tf + 8 * of_nat r \<in> tf_slots tf" using that by (auto simp: tf_slots_def)
    with out have "tf + 8 * of_nat r \<noteq> gc" "tf + 8 * of_nat r \<noteq> gt" by (auto simp: tf_def)
    then show ?thesis by (simp add: tf_reg_def)
  qed
  have ram2: "ram h2 = ?m" using h1(3) by (simp add: h2_def)
  have regs: "reg_get r h' = tf_reg (ram h) tf r" if r: "0 < r" "r < 32" for r
  proof (cases "r \<in> {xt0, xt1}")
    case True
    then show ?thesis using h'(2,3) m [of 5] m [of 6] ram2 by auto
  next
    case False
    then have "(r, 8 * of_nat r) \<in> set tf_loads" using r tf_load_slot [of r] by simp
    then have "reg_get r h2 = ?m (tf + 8 * of_nat r)"
      using r load_regs_slot [OF tf_table_facts(5)] by (simp add: h2_def reg_get_def)
    then show ?thesis using False h'(4) m [of r] r by simp
  qed
  have "pc h' = legal h epc (csrf h epc) (tf_reg (ram h) tf 32)"
    using h'(7) h1(4) by (simp add: h2_def tf_reg_def)
  with run regs h'(5,6) ram2 show ?thesis by simp
qed

text \<open>
  The round trip of a context: saved by one trap, its frame untouched, restored by a later
  trap exit. Every register but t1 comes back; t1 comes back as the cycle stamp of the entry.
\<close>

lemma tf_round_trip:
  assumes cs: "switch_csrs scratch epc" and rt: "returns_to epc ret"
    and h: "aligned8 (csrf h scratch)" "plain_csr h scratch"
    and h1: "run_code (tf_entry scratch epc stk) h = Running h1"
    and h2: "\<forall>a \<in> tf_slots (csrf h scratch). ram h2 a = ram h1 a"
      "reg_get xa0 h2 = csrf h scratch" "plain_csr h2 scratch"
    and g: "aligned8 gc" "aligned8 gt" "gc \<notin> tf_slots (csrf h scratch)" "gt \<notin> tf_slots (csrf h scratch)"
  shows "\<exists>h3. run_code (tf_exit scratch epc gc gt ret) h2 = Running h3 \<and>
    (\<forall>r. 0 < r \<and> r < 32 \<and> r \<noteq> xt1 \<longrightarrow> reg_get r h3 = reg_get r h) \<and>
    reg_get xt1 h3 = snd (clock h (retired h + 3)) \<and>
    csrf h3 scratch = csrf h scratch \<and> pc h3 = legal h2 epc (csrf h2 epc) (csrf h epc)"
proof -
  let ?tf = "csrf h scratch"
  have e: "\<forall>r. 0 < r \<and> r < 32 \<and> r \<noteq> xt1 \<longrightarrow> tf_reg (ram h1) ?tf r = reg_get r h"
    "tf_reg (ram h1) ?tf xt1 = snd (clock h (retired h + 3))" "tf_reg (ram h1) ?tf 32 = csrf h epc"
    using tf_entry_saves [OF cs h, of stk] h1 by auto
  have eq: "tf_reg (ram h2) ?tf r = tf_reg (ram h1) ?tf r" if "r < 35" for r
    using h2(1) that by (auto simp: tf_reg_def tf_slots_def)
  have "aligned8 (reg_get xa0 h2)" "gc \<notin> tf_slots (reg_get xa0 h2)" "gt \<notin> tf_slots (reg_get xa0 h2)"
    using h(1) g h2(2) by simp_all
  from tf_exit_restores [OF cs rt h2(3) this(1) g(1,2) this(2,3)] obtain h3 where
    "run_code (tf_exit scratch epc gc gt ret) h2 = Running h3"
    "\<forall>r. 0 < r \<and> r < 32 \<longrightarrow> reg_get r h3 = tf_reg (ram h2) ?tf r"
    "csrf h3 scratch = ?tf" "pc h3 = legal h2 epc (csrf h2 epc) (tf_reg (ram h2) ?tf 32)"
    unfolding h2(2) by blast
  with e eq show ?thesis by auto
qed

end
