(* ===== verification/Preempt.thy ===== *)
theory Preempt
  imports Ticks Trapframe
begin

text \<open>
  \<open>src/src/preempt/\<close>: the scheduler driven by the CLINT machine timer (\<open>psched.c\<close>, \<open>clint.c\<close>),
  its tasks (\<open>ptasks.c\<close>), its entry point (\<open>pmain.c\<close>) and its trap entry and exit
  (\<open>trap.S\<close>). Reads of \<open>mtime\<close> are a stream; the traps the timer raises while the boot context
  waits are a list of ticks.
\<close>

unbundle bit_operations_syntax

abbreviation (input) PTASK_MAX :: nat where "PTASK_MAX \<equiv> 3"
abbreviation (input) PSTACK_SIZE :: u64 where "PSTACK_SIZE \<equiv> 4096"
abbreviation (input) MCAUSE_TIMER_IRQ :: u64 where "MCAUSE_TIMER_IRQ \<equiv> 0x8000000000000007"
abbreviation (input) MIE_MTIE :: u64 where "MIE_MTIE \<equiv> 0x80"
abbreviation (input) MSTATUS_MIE :: u64 where "MSTATUS_MIE \<equiv> 0x8"
abbreviation (input) CLINT_NS_PER_TICK :: u64 where "CLINT_NS_PER_TICK \<equiv> 100"
abbreviation (input) CLINT_TICKS_PER_SEC :: u64 where "CLINT_TICKS_PER_SEC \<equiv> 10000000"


subsection \<open>trap.S\<close>

definition ptrap_entry_code :: "u64 \<Rightarrow> instr list" where
  "ptrap_entry_code trap_stack_top =
    [Csrrw xt0 Mscratch xt0,
     Rdtime xt1, Sd xt1 264 xt0,
     Rdcycle xt1, Sd xt1 272 xt0,
     Sd xra 8 xt0, Sd xsp 16 xt0, Sd xgp 24 xt0, Sd xtp 32 xt0, Sd xt1 48 xt0, Sd xt2 56 xt0,
     Sd xs0 64 xt0, Sd xs1 72 xt0, Sd xa0 80 xt0, Sd xa1 88 xt0, Sd xa2 96 xt0, Sd xa3 104 xt0,
     Sd xa4 112 xt0, Sd xa5 120 xt0, Sd xa6 128 xt0, Sd xa7 136 xt0, Sd xs2 144 xt0, Sd xs3 152 xt0,
     Sd xs4 160 xt0, Sd xs5 168 xt0, Sd xs6 176 xt0, Sd xs7 184 xt0, Sd xs8 192 xt0, Sd xs9 200 xt0,
     Sd xs10 208 xt0, Sd xs11 216 xt0, Sd xt3 224 xt0, Sd xt4 232 xt0, Sd xt5 240 xt0, Sd xt6 248 xt0,
     Csrr xt1 Mscratch, Sd xt1 40 xt0,
     Csrr xt1 Mepc, Sd xt1 256 xt0,
     Li xsp trap_stack_top, Mv xa0 xt0]"

definition ptrap_exit_code :: "u64 \<Rightarrow> u64 \<Rightarrow> instr list" where
  "ptrap_exit_code exit_cycles_addr exit_mtime_addr =
    [Rdcycle xt1, Li xt2 exit_cycles_addr, Sd xt1 0 xt2,
     Rdtime xt1, Li xt2 exit_mtime_addr, Sd xt1 0 xt2,
     Mv xt1 xa0, Ld xt2 256 xt1, Csrw Mepc xt2,
     Ld xra 8 xt1, Ld xsp 16 xt1, Ld xgp 24 xt1, Ld xtp 32 xt1, Ld xt2 56 xt1,
     Ld xs0 64 xt1, Ld xs1 72 xt1, Ld xa0 80 xt1, Ld xa1 88 xt1, Ld xa2 96 xt1, Ld xa3 104 xt1,
     Ld xa4 112 xt1, Ld xa5 120 xt1, Ld xa6 128 xt1, Ld xa7 136 xt1, Ld xs2 144 xt1, Ld xs3 152 xt1,
     Ld xs4 160 xt1, Ld xs5 168 xt1, Ld xs6 176 xt1, Ld xs7 184 xt1, Ld xs8 192 xt1, Ld xs9 200 xt1,
     Ld xs10 208 xt1, Ld xs11 216 xt1, Ld xt3 224 xt1, Ld xt4 232 xt1, Ld xt5 240 xt1, Ld xt6 248 xt1,
     Ld xt0 40 xt1, Csrw Mscratch xt1, Ld xt1 48 xt1, Mret]"


subsection \<open>State\<close>

record psched = tick_state +
  lat :: stat
  swc :: stat
  swt :: stat
  mtimecmp :: u64

text \<open>The initial values of the static variables; the hart and the timer are given.\<close>

definition psched_boot :: "(nat \<Rightarrow> u64) \<Rightarrow> hart \<Rightarrow> psched" where
  "psched_boot mt h =
     \<lparr>out = [], tasks = replicate PTASK_MAX empty_ptask, n_tasks = 0, current = - 1,
      sched_tf = empty_frame, g_exit_cycles = 0, g_exit_mtime = 0, g_entry_cycles = 0,
      g_entry_mtime = 0, have_prev = False, ticks = 0, done_flag = False, deadline = 0,
      swn = 0, mtime_src = mt, mtime_reads = 0, cpu = h, running = BootFrame, spins = spinners_boot,
      lat = stat_boot, swc = stat_boot, swt = stat_boot, mtimecmp = 0\<rparr>"


subsection \<open>clint.c\<close>

definition clint_get_mtime :: "psched \<Rightarrow> u64 \<times> psched" where
  "clint_get_mtime s = (mtime_src s (mtime_reads s), s\<lparr>mtime_reads := Suc (mtime_reads s)\<rparr>)"

definition clint_set_mtimecmp :: "u64 \<Rightarrow> psched \<Rightarrow> psched" where
  "clint_set_mtimecmp v s = s\<lparr>mtimecmp := v\<rparr>"

definition clint_get_mtimecmp :: "psched \<Rightarrow> u64" where
  "clint_get_mtimecmp s = mtimecmp s"


subsection \<open>psched.c\<close>

text \<open>\<open>stack_of i\<close> is the address of \<open>tasks[i].stack\<close>, \<open>tramp\<close> that of \<open>ptask_trampoline\<close>.\<close>

definition ptask_create :: "(nat \<Rightarrow> u64) \<Rightarrow> u64 \<Rightarrow> nat \<Rightarrow> string \<Rightarrow> psched \<Rightarrow> psched" where
  "ptask_create stack_of tramp fn name s =
     (if n_tasks s \<ge> PTASK_MAX then s
      else
        let i = n_tasks s;
            tf = \<lparr>tf_regs = (replicate 32 0)[2 := (stack_of i + PSTACK_SIZE) AND NOT 15],
                  tf_epc = tramp, mtime_at_entry = 0, cycle_at_entry = 0\<rparr>
        in s\<lparr>n_tasks := Suc i, tasks := (tasks s)[i := \<lparr>ptf = tf, pfn = fn, pname = name\<rparr>]\<rparr>)"

definition read_mcause :: "psched \<Rightarrow> u64" where
  "read_mcause s = csr_read Mcause (cpu s)"

definition timer_arm :: "psched \<Rightarrow> psched option" where
  "timer_arm s =
     (let (t, s1) = clint_get_mtime s in
      case arm_loop (mtime_src s1) (mtime_reads s1) (t + QUANTUM_TICKS) of
        None \<Rightarrow> None
      | Some (d, n) \<Rightarrow> Some (clint_set_mtimecmp d (s1\<lparr>deadline := d, mtime_reads := n\<rparr>)))"

text \<open>\<open>vec\<close> and \<open>boot_tf\<close> are the addresses of \<open>trap_entry\<close> and \<open>sched_tf\<close>.\<close>

definition preempt_init :: "u64 \<Rightarrow> u64 \<Rightarrow> psched \<Rightarrow> psched option" where
  "preempt_init vec boot_tf s =
     (let s1 = s\<lparr>cpu := csr_write Mscratch boot_tf (csr_write Mtvec vec (cpu s)),
                 ticks := 0, done_flag := False, have_prev := False\<rparr>
      in case timer_arm s1 of
           None \<Rightarrow> None
         | Some s2 \<Rightarrow>
             let c1 = csr_write Mie (csr_read Mie (cpu s2) OR MIE_MTIE) (cpu s2)
             in Some (s2\<lparr>cpu := csr_write Mstatus (csr_read Mstatus c1 OR MSTATUS_MIE) c1\<rparr>))"

definition preempt_stop :: "psched \<Rightarrow> psched" where
  "preempt_stop s = s\<lparr>cpu := csr_write Mie (csr_read Mie (cpu s) AND NOT MIE_MTIE) (cpu s)\<rparr>"

text \<open>
  How the handler ends: it returns a frame, it halts on a trap that is not the timer's, or it
  divides by zero tasks.
\<close>

datatype handled = Resume frame_ref psched | Halt psched | DivZero

text \<open>The \<open>ticks\<close>, latency and previous-switch accounting at the head of the handler.\<close>

definition account_latency :: "trapframe \<Rightarrow> psched \<Rightarrow> psched" where
  "account_latency old s = s\<lparr>lat := stat_add (mtime_at_entry old - deadline s) (lat s)\<rparr>"

definition account_switch :: "psched \<Rightarrow> psched" where
  "account_switch s =
     (let dc = g_exit_cycles s - g_entry_cycles s; dt = g_exit_mtime s - g_entry_mtime s
      in s\<lparr>swc := stat_add dc (swc s), swt := stat_add dt (swt s), swn := swn s + 1\<rparr>)"

definition ptrap_handler :: "frame_ref \<Rightarrow> psched \<Rightarrow> handled option" where
  "ptrap_handler old s =
     (if read_mcause s \<noteq> MCAUSE_TIMER_IRQ then
        Some (Halt (emit [Str ''\<newline>preempt: unexpected trap (not a timer interrupt), halting\<newline>''] s))
      else
        let tf = frame_at old s;
            s1 = account_latency tf (s\<lparr>ticks := ticks s + 1\<rparr>);
            s2 = (if have_prev s1 then account_switch s1 else s1)
        in case timer_arm s2 of
             None \<Rightarrow> None
           | Some s3 \<Rightarrow>
               let fin = (\<lambda>s. s\<lparr>g_entry_cycles := cycle_at_entry tf, g_entry_mtime := mtime_at_entry tf,
                             have_prev := True\<rparr>)
               in if ticks s3 \<ge> of_nat N_TICKS then Some (Resume BootFrame (fin (s3\<lparr>done_flag := True\<rparr>)))
                  else if n_tasks s3 = 0 then Some DivZero
                  else
                    let c = (current s3 + 1) mod int (n_tasks s3)
                    in Some (Resume (TaskFrame (nat c)) (fin (s3\<lparr>current := c\<rparr>))))"

definition account_final_switch :: "psched \<Rightarrow> psched" where
  "account_final_switch s = account_switch s"

text \<open>
  One trap: the interrupted task body has spun, the entry path has filled the frame
  \<open>mscratch\<close> points at, the handler runs, and the exit path writes its stamps and resumes the
  frame the handler returned. The body that spins is the one the trampoline called for that
  task.
\<close>

definition ptick :: "tick_in \<Rightarrow> psched \<Rightarrow> psched option" where
  "ptick i s =
     (let s1 = frame_put (running s) (frame_of i) (run_body (i_iters i) s);
          s2 = s1\<lparr>cpu := trap_to_m (i_cause i) (i_epc i) 0 (cpu s1)\<rparr>
      in case ptrap_handler (running s) s2 of
           Some (Resume f s3) \<Rightarrow>
             Some (s3\<lparr>g_exit_cycles := i_exit_cycle i, g_exit_mtime := i_exit_mtime i,
                      running := f, cpu := do_mret (cpu s3)\<rparr>)
         | _ \<Rightarrow> None)"

text \<open>\<open>preempt_wait\<close>: the boot context sleeps in \<open>wfi\<close> until \<open>done\<close> is set.\<close>

definition preempt_wait :: "tick_in list \<Rightarrow> psched \<Rightarrow> psched option" where
  "preempt_wait is s = wait_done done_flag ptick is s"


subsection \<open>ptasks.c\<close>

definition ptasks_register :: "(nat \<Rightarrow> u64) \<Rightarrow> u64 \<Rightarrow> psched \<Rightarrow> psched" where
  "ptasks_register stack_of tramp s =
     ptask_create stack_of tramp 2 ''spin-c''
      (ptask_create stack_of tramp 1 ''spin-b''
        (ptask_create stack_of tramp 0 ''spin-a'' s))"

definition ptask_count :: nat where "ptask_count = 3"

definition ptask_iters :: "psched \<Rightarrow> nat \<Rightarrow> u64" where
  "ptask_iters s i =
     (if i = 0 then iters (spins s) ! 0 else if i = 1 then iters (spins s) ! 1 else iters (spins s) ! 2)"

definition ptask_name :: "nat \<Rightarrow> string" where
  "ptask_name i = (if i = 0 then ''spin-a'' else if i = 1 then ''spin-b'' else ''spin-c'')"


subsection \<open>The report and pmain.c\<close>

text \<open>\<open>None\<close> is a division by zero, with no tick or no measured switch.\<close>

definition preempt_report :: "psched \<Rightarrow> psched option" where
  "preempt_report s0 =
     (let s = account_final_switch s0 in
      case (udiv (s_sum (lat s)) (ticks s), udiv (s_sum (swc s)) (swn s), udiv (s_sum (swt s)) (swn s)) of
        (Some lat_avg, Some swc_avg, Some swt_avg) \<Rightarrow> Some (emit (
          [Str ''\<newline>preempt: done. '', Dec (ticks s), Str '' timer ticks, '', Dec (swn s),
           Str '' measured context switches\<newline>\<newline>'',
           Str ''task progress (task bodies never yield):\<newline>''] @
          concat (map (\<lambda>i. [Str ''  '', Str (ptask_name i), Str '': '', Dec (ptask_iters s i),
                            Str '' iterations\<newline>'']) [0..<ptask_count]) @
          [Str ''\<newline>interrupt latency (mtime tick = 100 ns):\<newline>  min '', Dec (s_min (lat s)),
           Str '' / max '', Dec (s_max (lat s)), Str '' / avg '', Dec lat_avg,
           Str '' ticks  ('', Dec (s_min (lat s) * CLINT_NS_PER_TICK),
           Str '' / '', Dec (s_max (lat s) * CLINT_NS_PER_TICK),
           Str '' / '', Dec (lat_avg * CLINT_NS_PER_TICK), Str '' ns)\<newline>'',
           Str ''\<newline>context-switch cost, entry stamp to exit stamp:\<newline>  min '', Dec (s_min (swc s)),
           Str '' / max '', Dec (s_max (swc s)), Str '' / avg '', Dec swc_avg,
           Str '' cycles\<newline>  cross-check via mtime: min '', Dec (s_min (swt s)),
           Str '' / max '', Dec (s_max (swt s)), Str '' / avg '', Dec swt_avg,
           Str '' ticks ('', Dec (s_min (swt s) * CLINT_NS_PER_TICK),
           Str '' / '', Dec (s_max (swt s) * CLINT_NS_PER_TICK),
           Str '' / '', Dec (swt_avg * CLINT_NS_PER_TICK), Str '' ns)\<newline>'']) s)
      | _ \<Rightarrow> None)"

definition pmain_banner :: "piece list" where
  "pmain_banner =
     [Str ''\<newline>========================================\<newline>'',
      Str ''riscv-baremetal-demo: preemptive scheduler\<newline>'',
      Str ''CLINT timer interrupt + full-context switch\<newline>'',
      Str ''========================================\<newline>\<newline>'',
      Str ''clint: mtime@'', Hex 0x0200bff8, Str '' mtimecmp@'', Hex 0x02004000,
      Str '' timebase '', Dec CLINT_TICKS_PER_SEC, Str '' Hz (100 ns/tick)\<newline>'',
      Str ''quantum 10000 ticks (1 ms), 200 ticks total\<newline>\<newline>'']"

definition pmain :: "(nat \<Rightarrow> u64) \<Rightarrow> u64 \<Rightarrow> u64 \<Rightarrow> u64 \<Rightarrow> tick_in list \<Rightarrow> psched \<Rightarrow> psched option" where
  "pmain stack_of tramp vec boot_tf is s =
     (case preempt_init vec boot_tf (ptasks_register stack_of tramp (emit pmain_banner s)) of
        None \<Rightarrow> None
      | Some s1 \<Rightarrow> (case preempt_wait is (emit [Str ''timer armed, entering wfi wait...\<newline>''] s1) of
          None \<Rightarrow> None
        | Some s2 \<Rightarrow> (case preempt_report (preempt_stop s2) of
            None \<Rightarrow> None
          | Some s3 \<Rightarrow> Some (emit [Str ''\<newline>preempt: halting.\<newline>''] s3))))"



subsection \<open>Arming\<close>

lemma timer_arm_returns:
  assumes "mtime_src s (Suc (mtime_reads s) + k) <
      mtime_src s (mtime_reads s) + 10000 + 10000 * of_nat k"
  shows "\<exists>s' j. timer_arm s = Some s' \<and> j \<le> k \<and> mtime_reads s' = mtime_reads s + 2 + j \<and>
    deadline s' = mtime_src s (mtime_reads s) + 10000 + 10000 * of_nat j \<and>
    mtimecmp s' = deadline s' \<and> mtime_src s (mtime_reads s' - 1) < deadline s'"
  using arm_loop_returns [of "mtime_src s" "Suc (mtime_reads s)" k "mtime_src s (mtime_reads s) + 10000"] assms
  by (auto simp: timer_arm_def clint_get_mtime_def clint_set_mtimecmp_def)

lemma timer_arm_steady:
  assumes "steady (mtime_src s)" "mtime_reads s = 2 * j"
  shows "timer_arm s = Some (s\<lparr>deadline := mtime_src s (2 * j) + 10000, mtime_reads := 2 * j + 2,
    mtimecmp := mtime_src s (2 * j) + 10000\<rparr>)"
proof -
  have "mtime_src s (Suc (2 * j) + 0) < mtime_src s (2 * j) + 10000 + 10000 * of_nat 0"
    using assms(1) by (simp add: steady_def)
  with arm_loop_returns [of "mtime_src s" "Suc (2 * j)" 0 "mtime_src s (2 * j) + 10000"]
  have "arm_loop (mtime_src s) (Suc (2 * j)) (mtime_src s (2 * j) + 10000)
      = Some (mtime_src s (2 * j) + 10000, 2 * j + 2)" by simp
  then show ?thesis using assms(2)
    by (simp add: timer_arm_def clint_get_mtime_def clint_set_mtimecmp_def)
qed


subsection \<open>The invariant over the history of ticks\<close>

definition pinv :: "(nat \<Rightarrow> u64) \<Rightarrow> string \<Rightarrow> tick_in list \<Rightarrow> psched \<Rightarrow> bool" where
  "pinv mt shown h s \<longleftrightarrow>
     steady mt \<and> out s = shown \<and> mtime_src s = mt \<and> length h \<le> N_TICKS \<and>
     n_tasks s = 3 \<and> map pfn (tasks s) = [0, 1, 2] \<and> length (iters (spins s)) = 3 \<and>
     (\<forall>k < 3. iters (spins s) ! k = of_nat (progress 3 h k)) \<and>
     mtime_reads s = 2 * (length h + 1) \<and> deadline s = mt (2 * length h) + 10000 \<and>
     mtimecmp s = deadline s \<and>
     ticks s = of_nat (length h) \<and> done_flag s = (N_TICKS \<le> length h) \<and>
     running s = turn 3 (length h) \<and>
     current s = (if h = [] then - 1 else int ((min (length h) 199 - 1) mod 3)) \<and>
     lat s = stats_of (latencies mt h) \<and>
     swc s = stats_of (map cycle_cost (butlast h)) \<and> swt s = stats_of (map mtime_cost (butlast h)) \<and>
     swn s = of_nat (length h - 1) \<and> have_prev s = (h \<noteq> []) \<and>
     (h \<noteq> [] \<longrightarrow> g_exit_cycles s - g_entry_cycles s = cycle_cost (last h) \<and>
                g_exit_mtime s - g_entry_mtime s = mtime_cost (last h))"

definition timer_tick :: "tick_in \<Rightarrow> bool" where
  "timer_tick i \<longleftrightarrow> i_cause i = MCAUSE_TIMER_IRQ"

lemma psched_fields [simp]:
  "lat (frame_put f tf s) = lat s" "swc (frame_put f tf s) = swc s" "swt (frame_put f tf s) = swt s"
  "mtimecmp (frame_put f tf s) = mtimecmp s"
  "lat (run_body m s) = lat s" "swc (run_body m s) = swc s" "swt (run_body m s) = swt s"
  "mtimecmp (run_body m s) = mtimecmp s"
  by (simp_all add: frame_put_def run_body_def split: frame_ref.split)

text \<open>The handler on a timer trap, for a steady timer.\<close>

lemma ptrap_handler_timer:
  fixes old :: frame_ref
  assumes "read_mcause s = MCAUSE_TIMER_IRQ" "steady (mtime_src s)" "mtime_reads s = 2 * j"
    "n_tasks s = 3"
  defines "tf \<equiv> frame_at old s" and "d \<equiv> mtime_src s (2 * j) + 10000"
  defines "c \<equiv> (current s + 1) mod 3"
  shows "\<exists>s' f. ptrap_handler old s = Some (Resume f s') \<and>
    (if 200 \<le> ticks s + 1 then f = BootFrame \<and> done_flag s' \<and> current s' = current s
     else f = TaskFrame (nat c) \<and> done_flag s' = done_flag s \<and> current s' = c) \<and>
    ticks s' = ticks s + 1 \<and> n_tasks s' = 3 \<and> tasks s' = tasks s \<and> spins s' = spins s \<and>
    mtime_src s' = mtime_src s \<and> mtime_reads s' = 2 * j + 2 \<and> deadline s' = d \<and> mtimecmp s' = d \<and>
    lat s' = stat_add (mtime_at_entry tf - deadline s) (lat s) \<and>
    (let dc = g_exit_cycles s - g_entry_cycles s; dt = g_exit_mtime s - g_entry_mtime s in
     if have_prev s
     then swc s' = stat_add dc (swc s) \<and> swt s' = stat_add dt (swt s) \<and> swn s' = swn s + 1
     else swc s' = swc s \<and> swt s' = swt s \<and> swn s' = swn s) \<and>
    have_prev s' \<and> g_entry_cycles s' = cycle_at_entry tf \<and> g_entry_mtime s' = mtime_at_entry tf \<and>
    cpu s' = cpu s \<and> running s' = running s \<and> out s' = out s"
proof -
  let ?s1 = "account_latency tf (s\<lparr>ticks := ticks s + 1\<rparr>)"
  let ?s2 = "if have_prev ?s1 then account_switch ?s1 else ?s1"
  have r: "steady (mtime_src ?s2)" "mtime_reads ?s2 = 2 * j"
    using assms(2,3) by (simp_all add: account_latency_def account_switch_def Let_def)
  have arm: "timer_arm ?s2 = Some (?s2\<lparr>deadline := mtime_src ?s2 (2 * j) + 10000,
      mtime_reads := 2 * j + 2, mtimecmp := mtime_src ?s2 (2 * j) + 10000\<rparr>)"
    by (rule timer_arm_steady [OF r])
  show ?thesis
    unfolding ptrap_handler_def Let_def tf_def [symmetric]
    using assms(1,4) arm
    by (cases "have_prev s")
       (auto simp: account_latency_def account_switch_def Let_def d_def c_def)
qed


text \<open>One tick keeps the invariant.\<close>

lemma pinv_tick:
  assumes inv: "pinv mt shown h s" and len: "length h < N_TICKS" and cause: "timer_tick i"
  shows "\<exists>s'. ptick i s = Some s' \<and> pinv mt shown (h @ [i]) s'"
proof -
  let ?s1 = "frame_put (running s) (frame_of i) (run_body (i_iters i) s)"
  let ?s2 = "?s1\<lparr>cpu := trap_to_m (i_cause i) (i_epc i) 0 (cpu ?s1)\<rparr>"
  have s: "steady mt" "mtime_src s = mt" "n_tasks s = 3" "map pfn (tasks s) = [0, 1, 2]"
    "length (iters (spins s)) = 3" "\<forall>k < 3. iters (spins s) ! k = of_nat (progress 3 h k)"
    "mtime_reads s = 2 * (length h + 1)" "deadline s = mt (2 * length h) + 10000"
    "ticks s = of_nat (length h)" "done_flag s = (200 \<le> length h)" "running s = turn 3 (length h)"
    "current s = (if length h = 0 then - 1 else int ((min (length h) 199 - 1) mod 3))"
    "lat s = stats_of (latencies mt h)"
    "swc s = stats_of (map cycle_cost (butlast h))" "swt s = stats_of (map mtime_cost (butlast h))"
    "swn s = of_nat (length h - 1)" "have_prev s = (h \<noteq> [])"
    "h \<noteq> [] \<Longrightarrow> g_exit_cycles s - g_entry_cycles s = cycle_cost (last h)"
    "h \<noteq> [] \<Longrightarrow> g_exit_mtime s - g_entry_mtime s = mtime_cost (last h)" "out s = shown"
    using inv unfolding pinv_def by simp_all
  have lt: "length (tasks s) = 3" using map_pfn_nth [OF s(4), of 0] by simp
  have fr: "frame_at (running s) ?s2 = frame_of i"
  proof -
    have "frame_at (running s) ?s1 = frame_of i"
      by (rule frame_at_put) (use lt s(11) turn_bound in \<open>auto split: frame_ref.split\<close>)
    then show ?thesis by (simp add: frame_at_def split: frame_ref.splits)
  qed
  have pre: "read_mcause ?s2 = MCAUSE_TIMER_IRQ" "steady (mtime_src ?s2)"
    "mtime_reads ?s2 = 2 * (length h + 1)" "n_tasks ?s2 = 3"
    using cause s by (simp_all add: read_mcause_def trap_to_m_def timer_tick_def)
  obtain s3 f where s3: "ptrap_handler (running s) ?s2 = Some (Resume f s3)"
    "if 200 \<le> ticks s + 1 then f = BootFrame \<and> done_flag s3 \<and> current s3 = current s
     else f = TaskFrame (nat ((current s + 1) mod 3)) \<and> done_flag s3 = done_flag s \<and>
       current s3 = (current s + 1) mod 3"
    "ticks s3 = ticks s + 1" "n_tasks s3 = 3" "tasks s3 = tasks ?s1" "spins s3 = spins ?s1"
    "mtime_src s3 = mt" "mtime_reads s3 = 2 * (length h + 1) + 2"
    "deadline s3 = mt (2 * (length h + 1)) + 10000" "mtimecmp s3 = mt (2 * (length h + 1)) + 10000"
    "lat s3 = stat_add (i_entry_mtime i - deadline s) (lat s)"
    "let dc = g_exit_cycles s - g_entry_cycles s; dt = g_exit_mtime s - g_entry_mtime s in
     if have_prev s
     then swc s3 = stat_add dc (swc s) \<and> swt s3 = stat_add dt (swt s) \<and> swn s3 = swn s + 1
     else swc s3 = swc s \<and> swt s3 = swt s \<and> swn s3 = swn s"
    "have_prev s3" "g_entry_cycles s3 = i_entry_cycle i" "g_entry_mtime s3 = i_entry_mtime i"
    "out s3 = shown"
    using ptrap_handler_timer [OF pre, of "running s"] s(2,20) unfolding fr by (auto simp: frame_of_def)
  let ?s' = "s3\<lparr>g_exit_cycles := i_exit_cycle i, g_exit_mtime := i_exit_mtime i,
                      running := f, cpu := do_mret (cpu s3)\<rparr>"
  have run: "ptick i s = Some ?s'" using s3(1) by (simp add: ptick_def Let_def)
  have who: "f = turn 3 (Suc (length h))" "done_flag s3 = (200 \<le> Suc (length h))"
    "current s3 = int ((min (Suc (length h)) 199 - 1) mod 3)"
    using s3(2) next_turn [OF len s(12)] len s(9,10)
    by (cases "199 \<le> length h"; simp add: ticks_reach turn_def)+
  have sw: "swc s3 = stats_of (map cycle_cost h)" "swt s3 = stats_of (map mtime_cost h)"
    "swn s3 = of_nat (length h)"
    using s3(12) s(14-19) by (cases h rule: rev_cases; simp add: Let_def stats_of_snoc add.commute)+
  have pr: "length (iters (spins s3)) = 3" "\<forall>k < 3. iters (spins s3) ! k = of_nat (progress 3 (h @ [i]) k)"
    using run_body_progress [OF s(4,5,11,6), of i] s3(6) by simp_all
  have la: "lat s3 = stats_of (latencies mt (h @ [i]))"
    using s3(11) s(8,13) by (simp add: latencies_snoc stats_of_snoc)
  have "pinv mt shown (h @ [i]) ?s'"
    unfolding pinv_def using s(1,4) s3(3-5,7-10,13-16) who sw pr la len s(9)
    by (simp add: cycle_cost_def mtime_cost_def add.commute)
  with run show ?thesis by blast
qed

interpretation ps: tick_scheduler ptick "pinv mt shown" timer_tick running done_flag 3 for mt shown
proof
  show "\<exists>s'. ptick i s = Some s' \<and> pinv mt shown (h @ [i]) s'"
    if "pinv mt shown h s" "length h < N_TICKS" "timer_tick i" for h s i
    using that by (rule pinv_tick)
qed (auto simp: pinv_def)


subsection \<open>Start and end of a run\<close>

lemma p_registered:
  "ptasks_register stk tr (emit ps (psched_boot mt h)) =
     (emit ps (psched_boot mt h))\<lparr>n_tasks := 3, tasks :=
       map (\<lambda>(i, nm). \<lparr>ptf = \<lparr>tf_regs = (replicate 32 0)[2 := (stk i + 4096) AND NOT 15],
                  tf_epc = tr, mtime_at_entry = 0, cycle_at_entry = 0\<rparr>, pfn = i, pname = nm\<rparr>)
         [(0, ''spin-a''), (1, ''spin-b''), (2, ''spin-c'')]\<rparr>"
  by (simp add: ptasks_register_def ptask_create_def psched_boot_def emit_def Let_def numeral_3_eq_3 numeral_2_eq_2)

lemma init_inv:
  assumes "steady mt"
  shows "\<exists>s. preempt_init vec btf (ptasks_register stk tr (emit ps (psched_boot mt h))) = Some s \<and>
    pinv mt (text_of ps) [] s"
proof -
  let ?s0 = "ptasks_register stk tr (emit ps (psched_boot mt h))"
  let ?s1 = "?s0\<lparr>cpu := csr_write Mscratch btf (csr_write Mtvec vec (cpu ?s0)),
                 ticks := 0, done_flag := False, have_prev := False\<rparr>"
  have "steady (mtime_src ?s1)" "mtime_reads ?s1 = 2 * 0"
    using assms unfolding p_registered by (simp_all add: emit_def psched_boot_def)
  from timer_arm_steady [OF this] show ?thesis
    using assms unfolding preempt_init_def Let_def p_registered
    by (simp add: pinv_def emit_def psched_boot_def turn_def latencies_def progress_def
        spinners_boot_def nth_Cons' text_of_def)
qed

lemma pinv_emit: "pinv mt shown h s \<Longrightarrow> pinv mt (shown @ text_of ps) h (emit ps s)"
  by (simp add: pinv_def emit_def)

lemma ptask_iters_out: "ptask_iters (s\<lparr>out := t\<rparr>) = ptask_iters s"
  by (simp add: ptask_iters_def fun_eq_iff)

lemma report_runs:
  assumes "pinv mt shown h s" "length h = 200"
  shows "\<exists>s' rest. preempt_report (preempt_stop s) = Some s' \<and> ticks s' = 200 \<and> swn s' = 200 \<and>
    lat s' = stats_of (latencies mt h) \<and> swc s' = stats_of (map cycle_cost h) \<and>
    swt s' = stats_of (map mtime_cost h) \<and> (\<forall>k < 3. ptask_iters s' k = of_nat (progress 3 h k)) \<and>
    out s' = out s @ text_of [Str ''\<newline>preempt: done. '', Dec 200, Str '' timer ticks, '', Dec 200,
           Str '' measured context switches\<newline>\<newline>''] @ rest"
proof -
  let ?s = "account_final_switch (preempt_stop s)"
  from assms have h: "h \<noteq> []" by auto
  have f: "ticks ?s = 200" "swn ?s = 200" "lat ?s = stats_of (latencies mt h)" "out ?s = out s"
    "\<forall>k < 3. iters (spins ?s) ! k = of_nat (progress 3 h k)"
    using assms by (simp_all add: pinv_def account_final_switch_def account_switch_def preempt_stop_def Let_def)
  have c: "swc ?s = stats_of (map cycle_cost h)" "swt ?s = stats_of (map mtime_cost h)"
    using assms(1) h by (cases h rule: rev_cases;
        simp add: pinv_def account_final_switch_def account_switch_def preempt_stop_def Let_def stats_of_snoc)+
  have it: "\<forall>k < 3. ptask_iters ?s k = of_nat (progress 3 h k)"
    using f(5) by (auto simp: ptask_iters_def less_Suc_eq numeral_3_eq_3 numeral_2_eq_2)
  show ?thesis
    unfolding preempt_report_def Let_def using f c it
    by (simp add: udiv_def emit_def text_of_def ptask_iters_out)
qed


subsection \<open>Properties\<close>

lemma ptrap_code_blocks:
  "ptrap_entry_code stk = tf_entry Mscratch Mepc stk"
  "ptrap_exit_code gc gt = tf_exit Mscratch Mepc gc gt Mret"
  by (simp_all add: ptrap_entry_code_def ptrap_exit_code_def tf_entry_def tf_exit_def tf_saves_def tf_loads_def)

text \<open>
  C12. A context survives preemption up to t1. Let a trap save a context in its frame and let a
  later trap exit restore that frame, unchanged in between (the two stamp variables lie outside
  it). Then execution resumes at the interrupted instruction with \<open>mscratch\<close> on the context's own
  frame and with all of x1 to x31 as they were, except x6 (t1): the entry path overwrites t1
  before it saves it, so t1 comes back as the \<open>cycle\<close> counter read at the trap entry.
\<close>

theorem preempt_context_round_trip:
  assumes "aligned8 (csrf h Mscratch)" "plain_csr h Mscratch"
    and "run_code (ptrap_entry_code stk) h = Running h1"
    and "\<forall>a \<in> tf_slots (csrf h Mscratch). ram h2 a = ram h1 a"
    and "reg_get xa0 h2 = csrf h Mscratch" "plain_csr h2 Mscratch"
    and "aligned8 gc" "aligned8 gt" "gc \<notin> tf_slots (csrf h Mscratch)" "gt \<notin> tf_slots (csrf h Mscratch)"
  shows "\<exists>h3. run_code (ptrap_exit_code gc gt) h2 = Running h3 \<and>
    (\<forall>r. 0 < r \<and> r < 32 \<and> r \<noteq> xt1 \<longrightarrow> reg_get r h3 = reg_get r h) \<and>
    reg_get xt1 h3 = snd (clock h (retired h + 3)) \<and>
    csrf h3 Mscratch = csrf h Mscratch \<and> pc h3 = legal h2 Mepc (csrf h2 Mepc) (csrf h Mepc)"
  using assms tf_round_trip [of Mscratch Mepc Mret h stk h1 h2 gc gt]
  by (simp add: ptrap_code_blocks switch_csrs_def returns_to_def)

definition trap_hart :: hart where
  "trap_hart = \<lparr>gpr = (\<lambda>r. of_nat r),
     csrf = (\<lambda>c. if c = Mscratch then 0x80010000 else if c = Mepc then 0x80000400 else 0), ram = (\<lambda>a. 0),
     pc = 0x80000000, priv = MMode, clock = (\<lambda>n. (of_nat n + 1000, of_nat n + 5000)), retired = 0,
     legal = (\<lambda>c old v. v), instret = (\<lambda>_. 0)\<rparr>"

theorem preempt_context_round_trip_witness:
  "\<exists>h1 h3. run_code (ptrap_entry_code 0x80020000) trap_hart = Running h1 \<and>
     run_code (ptrap_exit_code 0x80030000 0x80030008) h1 = Running h3 \<and>
     reg_get xt2 h3 = 7 \<and> reg_get xt1 h3 = 5003 \<and> reg_get xt1 trap_hart = 6"
proof -
  have c: "switch_csrs Mscratch Mepc" by (simp add: switch_csrs_def)
  have t: "csrf trap_hart Mscratch = 0x80010000" "plain_csr trap_hart Mscratch"
    by (simp_all add: trap_hart_def plain_csr_def)
  have al: "aligned8 (csrf trap_hart Mscratch)" unfolding t(1) by (simp add: aligned8_def)
  obtain h1 where h1: "run_code (ptrap_entry_code 0x80020000) trap_hart = Running h1"
    "reg_get xa0 h1 = csrf trap_hart Mscratch" "legal h1 = legal trap_hart"
    using tf_entry_saves [OF c al t(2), where stk = "0x80020000"] unfolding ptrap_code_blocks by blast
  have p1: "plain_csr h1 Mscratch" using h1(3) t(2) by (simp add: plain_csr_def)
  have g: "aligned8 0x80030000" "aligned8 0x80030008"
    "0x80030000 \<notin> tf_slots (csrf trap_hart Mscratch)" "0x80030008 \<notin> tf_slots (csrf trap_hart Mscratch)"
    unfolding t(1) tf_offsets_eval by (simp_all add: aligned8_def)
  have r: "reg_get xt2 trap_hart = 7" "reg_get xt1 trap_hart = 6" "snd (clock trap_hart (retired trap_hart + 3)) = 5003"
    by (simp_all add: trap_hart_def reg_get_def)
  from preempt_context_round_trip [OF al t(2) h1(1) _ h1(2) p1 g] h1(1) r show ?thesis
    by (auto dest!: spec [of _ 7])
qed

text \<open>
  C13. \<open>timer_arm\<close> returns and sets a deadline in the future: if after \<open>k\<close> quanta some read of
  \<open>mtime\<close> is behind the deadline reached by then, the loop ends after at most \<open>k\<close> rounds, the
  deadline is a whole number of quanta after the first read, later than the last \<open>mtime\<close> it read,
  and it is what \<open>mtimecmp\<close> holds.
\<close>

theorem timer_arm_sets_future_deadline:
  assumes "mtime_src s (Suc (mtime_reads s) + k) <
      mtime_src s (mtime_reads s) + 10000 + 10000 * of_nat k"
  shows "\<exists>s' j. timer_arm s = Some s' \<and> j \<le> k \<and> mtime_reads s' = mtime_reads s + 2 + j \<and>
    deadline s' = mtime_src s (mtime_reads s) + 10000 + 10000 * of_nat j \<and>
    mtimecmp s' = deadline s' \<and> mtime_src s (mtime_reads s' - 1) < deadline s'"
  using assms by (rule timer_arm_returns)

theorem timer_arm_sets_future_deadline_witness:
  "\<exists>s' j. timer_arm (psched_boot (\<lambda>n. if n = 0 then 0 else 25000 + of_nat n) trap_hart) = Some s' \<and> j \<le> 3 \<and>
     deadline s' = 10000 + 10000 * of_nat j"
proof -
  let ?s = "psched_boot (\<lambda>n. if n = 0 then 0 else 25000 + of_nat n) trap_hart"
  have "mtime_src ?s (Suc (mtime_reads ?s) + 3) < mtime_src ?s (mtime_reads ?s) + 10000 + 10000 * of_nat 3"
    by (simp add: psched_boot_def)
  from timer_arm_sets_future_deadline [OF this] show ?thesis by (auto simp: psched_boot_def)
qed

text \<open>
  C10. Preemption is round robin: from initialisation on, after each of the first \<open>k\<close> timer
  ticks the hart runs task \<open>(k - 1) mod 3\<close>, although no task ever yields, until tick 200, after
  which the boot context runs again and \<open>done\<close> is set, and not earlier.
\<close>

theorem preempt_round_robin:
  assumes "steady mt" "list_all timer_tick is" "length is \<le> N_TICKS"
  shows "\<exists>s0. preempt_init vec btf (ptasks_register stk tr (psched_boot mt h)) = Some s0 \<and>
    (\<forall>k \<le> length is. \<exists>s. run_ticks ptick (take k is) s0 = Some s \<and>
       running s = (if k = 0 \<or> k = N_TICKS then BootFrame else TaskFrame ((k - 1) mod 3)) \<and>
       (done_flag s \<longleftrightarrow> k = N_TICKS))"
proof -
  have "emit [] (psched_boot mt h) = psched_boot mt h" by (simp add: emit_def text_of_def)
  with init_inv [OF assms(1), of vec btf stk tr "[]" h] obtain s0 where
    s0: "preempt_init vec btf (ptasks_register stk tr (psched_boot mt h)) = Some s0" "pinv mt (text_of []) [] s0"
    by auto
  have "\<exists>s. run_ticks ptick (take k is) s0 = Some s \<and>
       running s = (if k = 0 \<or> k = N_TICKS then BootFrame else TaskFrame ((k - 1) mod 3)) \<and>
       (done_flag s \<longleftrightarrow> k = N_TICKS)" if "k \<le> length is" for k
    using ps.round_robin [OF s0(2) assms(3,2) that] that assms(3)
    by (auto simp: turn_def split: if_splits)
  with s0(1) show ?thesis by blast
qed

definition demo_tick :: tick_in where
  "demo_tick = \<lparr>i_iters = 40, i_cause = 0x8000000000000007, i_regs = replicate 32 0, i_epc = 0,
     i_entry_mtime = 10007, i_entry_cycle = 500, i_exit_cycle = 620, i_exit_mtime = 10009\<rparr>"

lemma demo_ticks: "list_all timer_tick (replicate m demo_tick)" "steady (\<lambda>_. 0)"
  by (simp_all add: timer_tick_def demo_tick_def steady_def list_all_iff)

theorem preempt_round_robin_witness:
  "\<exists>s0 s. preempt_init 0x80000000 0x80010000 (ptasks_register (\<lambda>i. 0x80040000) 0x80000800
       (psched_boot (\<lambda>_. 0) trap_hart)) = Some s0 \<and>
     run_ticks ptick (replicate 5 demo_tick) s0 = Some s \<and> running s = TaskFrame 1"
proof -
  have "length (replicate 5 demo_tick) \<le> N_TICKS" by simp
  from preempt_round_robin [OF demo_ticks(2,1) this, where vec = "0x80000000" and btf = "0x80010000" and
      stk = "\<lambda>i. 0x80040000" and tr = "0x80000800" and h = trap_hart]
  show ?thesis by (auto dest!: spec [of _ 5])
qed



end
