(* ===== verification/Smode.thy ===== *)
theory Smode
  imports Trapframe Ticks
begin

text \<open>
  \<open>src/src/smode/\<close>, the privileged side: the one-time M-mode setup and drop to S-mode
  (\<open>msetup.c\<close>), the M-mode service that reprograms \<open>mtimecmp\<close> for S-mode (\<open>m_trap_entry\<close> in
  \<open>sboot.S\<close>), the trap entry and exit of the scheduler (\<open>strap.S\<close>) and the timer
  (\<open>stimer.c\<close>). The sources are built twice; the argument \<open>smode\<close> is the macro
  \<open>TRAP_SMODE\<close>. \<open>mtimecmp\<close> is the doubleword at \<open>0x02004000\<close> of the hart's memory.
\<close>

unbundle bit_operations_syntax

abbreviation (input) CLINT_MTIMECMP :: u64 where "CLINT_MTIMECMP \<equiv> 0x02004000"


subsection \<open>sboot.S: m_trap_entry\<close>

definition m_trap_code :: "instr list" where
  "m_trap_code =
    [Csrrw xsp Mscratch xsp,
     Addi xsp xsp (- 32),
     Sd xt0 0 xsp, Sd xa0 8 xsp, Sd xa1 16 xsp,
     Csrr xt0 Mcause, Li xa0 9, Bne_park xt0 xa0,
     Ld xa0 8 xsp, Li xt0 1, Bne_park xa0 xt0,
     Ld xa1 16 xsp, Li xt0 0x02004000, Sd xa1 0 xt0,
     Csrr xt0 Mepc, Addi xt0 xt0 4, Csrw Mepc xt0,
     Ld xt0 0 xsp, Ld xa0 8 xsp, Ld xa1 16 xsp,
     Addi xsp xsp 32,
     Csrrw xsp Mscratch xsp,
     Mret]"


subsection \<open>strap.S\<close>

definition CSR_SCRATCH :: "bool \<Rightarrow> csr" where "CSR_SCRATCH smode = (if smode then Sscratch else Mscratch)"
definition CSR_EPC :: "bool \<Rightarrow> csr" where "CSR_EPC smode = (if smode then Sepc else Mepc)"
definition CSR_CAUSE :: "bool \<Rightarrow> csr" where "CSR_CAUSE smode = (if smode then Scause else Mcause)"
definition CSR_TVEC :: "bool \<Rightarrow> csr" where "CSR_TVEC smode = (if smode then Stvec else Mtvec)"
definition RET_INSN :: "bool \<Rightarrow> instr" where "RET_INSN smode = (if smode then Sret else Mret)"

definition strap_entry_code :: "bool \<Rightarrow> u64 \<Rightarrow> instr list" where
  "strap_entry_code smode strap_stack_top =
    [Csrrw xt0 (CSR_SCRATCH smode) xt0,
     Rdtime xt1, Sd xt1 264 xt0,
     Rdcycle xt1, Sd xt1 272 xt0,
     Sd xra 8 xt0, Sd xsp 16 xt0, Sd xgp 24 xt0, Sd xtp 32 xt0, Sd xt1 48 xt0, Sd xt2 56 xt0,
     Sd xs0 64 xt0, Sd xs1 72 xt0, Sd xa0 80 xt0, Sd xa1 88 xt0, Sd xa2 96 xt0, Sd xa3 104 xt0,
     Sd xa4 112 xt0, Sd xa5 120 xt0, Sd xa6 128 xt0, Sd xa7 136 xt0, Sd xs2 144 xt0, Sd xs3 152 xt0,
     Sd xs4 160 xt0, Sd xs5 168 xt0, Sd xs6 176 xt0, Sd xs7 184 xt0, Sd xs8 192 xt0, Sd xs9 200 xt0,
     Sd xs10 208 xt0, Sd xs11 216 xt0, Sd xt3 224 xt0, Sd xt4 232 xt0, Sd xt5 240 xt0, Sd xt6 248 xt0,
     Csrr xt1 (CSR_SCRATCH smode), Sd xt1 40 xt0,
     Csrr xt1 (CSR_EPC smode), Sd xt1 256 xt0,
     Li xsp strap_stack_top, Mv xa0 xt0]"

definition strap_exit_code :: "bool \<Rightarrow> u64 \<Rightarrow> u64 \<Rightarrow> instr list" where
  "strap_exit_code smode exit_cycles_addr exit_mtime_addr =
    [Rdcycle xt1, Li xt2 exit_cycles_addr, Sd xt1 0 xt2,
     Rdtime xt1, Li xt2 exit_mtime_addr, Sd xt1 0 xt2,
     Mv xt1 xa0, Ld xt2 256 xt1, Csrw (CSR_EPC smode) xt2,
     Ld xra 8 xt1, Ld xsp 16 xt1, Ld xgp 24 xt1, Ld xtp 32 xt1, Ld xt2 56 xt1,
     Ld xs0 64 xt1, Ld xs1 72 xt1, Ld xa0 80 xt1, Ld xa1 88 xt1, Ld xa2 96 xt1, Ld xa3 104 xt1,
     Ld xa4 112 xt1, Ld xa5 120 xt1, Ld xa6 128 xt1, Ld xa7 136 xt1, Ld xs2 144 xt1, Ld xs3 152 xt1,
     Ld xs4 160 xt1, Ld xs5 168 xt1, Ld xs6 176 xt1, Ld xs7 184 xt1, Ld xs8 192 xt1, Ld xs9 200 xt1,
     Ld xs10 208 xt1, Ld xs11 216 xt1, Ld xt3 224 xt1, Ld xt4 232 xt1, Ld xt5 240 xt1, Ld xt6 248 xt1,
     Ld xt0 40 xt1, Csrw (CSR_SCRATCH smode) xt1, Ld xt1 48 xt1, RET_INSN smode]"


subsection \<open>msetup.c\<close>

abbreviation (input) MENVCFG_STCE :: u64 where "MENVCFG_STCE \<equiv> 0x8000000000000000"
abbreviation (input) MEDELEG_MASK :: u64 where "MEDELEG_MASK \<equiv> 0xB10C"
abbreviation (input) MIDELEG_MASK :: u64 where "MIDELEG_MASK \<equiv> 0x222"

definition csr_read_menvcfg :: "hart \<Rightarrow> u64" where
  "csr_read_menvcfg h = csr_read Menvcfg h"

definition csr_set_menvcfg :: "u64 \<Rightarrow> hart \<Rightarrow> hart" where
  "csr_set_menvcfg m h = csr_write Menvcfg (csr_read Menvcfg h OR m) h"

text \<open>Addresses of the symbols \<open>m_boot\<close> refers to.\<close>

record smode_syms =
  a_s_entry :: u64
  a_strap_entry :: u64
  a_m_trap_entry :: u64
  a_m_estack_top :: u64
  a_sched_tf :: u64

text \<open>
  \<open>m_boot\<close> with the value of \<open>g_use_sstc\<close> it leaves. It ends in \<open>sret\<close>; in the M-mode
  baseline it is empty.
\<close>

definition m_boot :: "bool \<Rightarrow> smode_syms \<Rightarrow> hart \<Rightarrow> bool \<times> hart" where
  "m_boot smode y h =
     (if \<not> smode then (False, h)
      else
        let h1 = csr_set_menvcfg MENVCFG_STCE h;
            sstc = (csr_read_menvcfg h1 AND MENVCFG_STCE \<noteq> 0);
            h2 = h1\<lparr>ram := (ram h1)(CLINT_MTIMECMP := - 1)\<rparr>;
            h3 = (if sstc then csr_write Stimecmp (- 1) h2 else h2);
            h4 = csr_write Pmpcfg0 0x1f (csr_write Pmpaddr0 (- 1) h3);
            h5 = csr_write Mcounteren 7 h4;
            h6 = csr_write Mideleg MIDELEG_MASK (csr_write Medeleg MEDELEG_MASK h5);
            h7 = csr_write Mscratch (a_m_estack_top y) (csr_write Mtvec (a_m_trap_entry y) h6);
            h8 = csr_write Sscratch (a_sched_tf y) (csr_write Stvec (a_strap_entry y) h7);
            h9 = csr_write Sstatus (csr_read Sstatus h8 OR 0x100) h8;
            h10 = csr_write Mstatus ((csr_read Mstatus h9 AND NOT 0x1800) OR 0x800) h9
        in (sstc, do_sret (csr_write Sepc (a_s_entry y) h10)))"


subsection \<open>stimer.c\<close>

text \<open>
  The \<open>ecall\<close> of the rearm path, from the program counter it is at: \<open>a0\<close> is the service
  number 1 and \<open>a1\<close> the deadline; it traps to \<open>m_trap_entry\<close>, as supervisor calls are not
  delegated.
\<close>

definition ecall_rearm :: "u64 \<Rightarrow> hart \<Rightarrow> outcome" where
  "ecall_rearm d h = run_code m_trap_code (trap_to_m 9 (pc h) 0 (reg_set xa1 d (reg_set xa0 1 h)))"

text \<open>The comparator write at the end of \<open>stimer_arm\<close> and of \<open>stimer_disarm\<close>.\<close>

definition set_comparator :: "bool \<Rightarrow> bool \<Rightarrow> u64 \<Rightarrow> hart \<Rightarrow> hart option" where
  "set_comparator smode use_sstc d h =
     (if smode then
        (if use_sstc then Some (csr_write Stimecmp d h)
         else (case ecall_rearm d h of Running h' \<Rightarrow> Some h' | _ \<Rightarrow> None))
      else Some (h\<lparr>ram := (ram h)(CLINT_MTIMECMP := d)\<rparr>))"

record stimer = tick_state +
  use_sstc :: bool

definition stimer_arm :: "bool \<Rightarrow> 'a stimer_scheme \<Rightarrow> 'a stimer_scheme option" where
  "stimer_arm smode s =
     (case arm_loop (mtime_src s) (Suc (mtime_reads s)) (mtime_src s (mtime_reads s) + QUANTUM_TICKS) of
        None \<Rightarrow> None
      | Some (d, n) \<Rightarrow> (case set_comparator smode (use_sstc s) d (cpu s) of
          None \<Rightarrow> None
        | Some h \<Rightarrow> Some (s\<lparr>deadline := d, mtime_reads := n, cpu := h\<rparr>)))"

definition stimer_deadline :: "'a stimer_scheme \<Rightarrow> u64" where
  "stimer_deadline s = deadline s"

definition stimer_disarm :: "bool \<Rightarrow> 'a stimer_scheme \<Rightarrow> 'a stimer_scheme option" where
  "stimer_disarm smode s =
     (case set_comparator smode (use_sstc s) (- 1) (cpu s) of
        None \<Rightarrow> None
      | Some h \<Rightarrow> Some (s\<lparr>deadline := - 1, cpu := h\<rparr>))"


subsection \<open>The rearm service\<close>

text \<open>
  \<open>m_trap_entry\<close> on a supervisor call for service 1: \<open>mtimecmp\<close> takes \<open>a1\<close>, the three scratch
  doublewords of the M-mode stack are used, and every register and \<open>mscratch\<close> come back.
\<close>

lemma m_trap_save:
  assumes "aligned8 (csrf h Mscratch)" "plain_csr h Mscratch"
  shows "\<exists>h1. run_code [Csrrw xsp Mscratch xsp, Addi xsp xsp (- 32), Sd xt0 0 xsp, Sd xa0 8 xsp, Sd xa1 16 xsp] h
      = Running h1 \<and>
    reg_get xsp h1 = csrf h Mscratch - 32 \<and> (\<forall>r. r \<noteq> xsp \<longrightarrow> reg_get r h1 = reg_get r h) \<and>
    ram h1 = (ram h)(csrf h Mscratch - 32 := reg_get xt0 h, csrf h Mscratch - 24 := reg_get xa0 h,
        csrf h Mscratch - 16 := reg_get xa1 h) \<and>
    csrf h1 = (csrf h)(Mscratch := reg_get xsp h) \<and> legal h1 = legal h \<and> priv h1 = priv h"
proof -
  have al: "aligned8 (csrf h Mscratch + - 32)" "aligned8 (csrf h Mscratch + - 24)" "aligned8 (csrf h Mscratch + - 16)"
    using assms(1) by (rule aligned8_offset; simp)+
  have e: "csrf h Mscratch - 32 + 8 = csrf h Mscratch - 24" "csrf h Mscratch - 32 + 16 = csrf h Mscratch - 16"
    by simp_all
  show ?thesis
    using assms(2) al by (simp add: Let_def machine_simps plain_csr_def e)
qed

lemma m_trap_serve:
  assumes "reg_get xsp h = b" "aligned8 b" "csrf h Mcause = 9" "ram h (b + 8) = 1"
    and "0x02004000 \<notin> {b, b + 8, b + 16}"
  shows "\<exists>h1. run_code [Csrr xt0 Mcause, Li xa0 9, Bne_park xt0 xa0,
     Ld xa0 8 xsp, Li xt0 1, Bne_park xa0 xt0, Ld xa1 16 xsp, Li xt0 0x02004000, Sd xa1 0 xt0,
     Csrr xt0 Mepc, Addi xt0 xt0 4, Csrw Mepc xt0] h = Running h1 \<and>
    (\<forall>r. r \<notin> {xt0, xa0, xa1} \<longrightarrow> reg_get r h1 = reg_get r h) \<and>
    ram h1 = (ram h)(0x02004000 := ram h (b + 16)) \<and>
    csrf h1 = (csrf h)(Mepc := legal h Mepc (csrf h Mepc) (csrf h Mepc + 4)) \<and>
    legal h1 = legal h \<and> priv h1 = priv h"
proof -
  have al: "aligned8 (b + 8)" "aligned8 (b + 16)" "aligned8 0x02004000"
    using assms(2) by (simp_all add: aligned8_offset aligned8_def [where a = "0x02004000"])
  show ?thesis
    using assms(1,3,4) al by (simp add: Let_def machine_simps)
qed

lemma m_trap_leave:
  assumes "reg_get xsp h = b" "aligned8 b" "plain_csr h Mscratch"
  shows "\<exists>h1. run_code [Ld xt0 0 xsp, Ld xa0 8 xsp, Ld xa1 16 xsp, Addi xsp xsp 32, Csrrw xsp Mscratch xsp, Mret] h
      = Running h1 \<and>
    reg_get xt0 h1 = ram h b \<and> reg_get xa0 h1 = ram h (b + 8) \<and> reg_get xa1 h1 = ram h (b + 16) \<and>
    reg_get xsp h1 = csrf h Mscratch \<and> (\<forall>r. r \<notin> {xt0, xa0, xa1, xsp} \<longrightarrow> reg_get r h1 = reg_get r h) \<and>
    ram h1 = ram h \<and> (\<forall>c. c \<notin> {Mscratch, Mstatus} \<longrightarrow> csrf h1 c = csrf h c) \<and>
    csrf h1 Mscratch = b + 32 \<and> pc h1 = csrf h Mepc \<and> priv h1 = mpp_of (csrf h Mstatus) \<and> legal h1 = legal h"
proof -
  have al: "aligned8 (b + 8)" "aligned8 (b + 16)"
    using assms(2) by (simp_all add: aligned8_offset)
  show ?thesis
    using assms al by (simp add: Let_def machine_simps plain_csr_def do_mret_def)
qed


text \<open>The slots of the M-mode stack the service uses, and that they are not the comparator.\<close>

definition service_ready :: "hart \<Rightarrow> bool" where
  "service_ready h \<longleftrightarrow> aligned8 (csrf h Mscratch) \<and> plain_csr h Mscratch \<and>
     0x02004000 \<notin> {csrf h Mscratch - 32, csrf h Mscratch - 24, csrf h Mscratch - 16}"

lemma m_trap_service:
  assumes ready: "service_ready h" and svc: "reg_get xa0 h = 1"
  shows "\<exists>h'. run_code m_trap_code (trap_to_m 9 (pc h) 0 h) = Running h' \<and>
    (\<forall>r. reg_get r h' = reg_get r h) \<and> ram h' 0x02004000 = reg_get xa1 h \<and>
    (\<forall>a. a \<notin> {0x02004000, csrf h Mscratch - 32, csrf h Mscratch - 24, csrf h Mscratch - 16} \<longrightarrow> ram h' a = ram h a) \<and>
    (\<forall>c. c \<notin> {Mstatus, Mepc, Mcause, Mtval} \<longrightarrow> csrf h' c = csrf h c) \<and>
    pc h' = legal h Mepc (pc h) (pc h + 4) \<and> priv h' = priv h \<and> legal h' = legal h"
proof -
  let ?t = "trap_to_m 9 (pc h) 0 h" and ?b = "csrf h Mscratch - 32"
  let ?p1 = "[Csrrw xsp Mscratch xsp, Addi xsp xsp (- 32), Sd xt0 0 xsp, Sd xa0 8 xsp, Sd xa1 16 xsp]"
  let ?p2 = "[Csrr xt0 Mcause, Li xa0 9, Bne_park xt0 xa0,
     Ld xa0 8 xsp, Li xt0 1, Bne_park xa0 xt0, Ld xa1 16 xsp, Li xt0 0x02004000, Sd xa1 0 xt0,
     Csrr xt0 Mepc, Addi xt0 xt0 4, Csrw Mepc xt0]"
  let ?p3 = "[Ld xt0 0 xsp, Ld xa0 8 xsp, Ld xa1 16 xsp, Addi xsp xsp 32, Csrrw xsp Mscratch xsp, Mret]"
  have code: "m_trap_code = ?p1 @ ?p2 @ ?p3" by (simp add: m_trap_code_def)
  have e: "?b + 8 = csrf h Mscratch - 24" "?b + 16 = csrf h Mscratch - 16" "?b + 32 = csrf h Mscratch" by simp_all
  have t: "csrf ?t Mscratch = csrf h Mscratch" "legal ?t = legal h" "ram ?t = ram h" "csrf ?t Mcause = 9"
    "csrf ?t Mepc = pc h" "reg_get r ?t = reg_get r h"
    "c \<notin> {Mstatus, Mepc, Mcause, Mtval} \<Longrightarrow> csrf ?t c = csrf h c" for r c
    by (auto simp: trap_to_m_def reg_get_def)
  have al: "aligned8 (csrf ?t Mscratch)" and pl: "plain_csr ?t Mscratch"
    and cmp: "0x02004000 \<notin> {?b, ?b + 8, ?b + 16}"
    using ready unfolding e by (simp_all add: service_ready_def t plain_csr_def)
  have bal: "aligned8 ?b" using aligned8_offset [where a = "csrf h Mscratch" and off = "- 32"] al t(1) by simp
  obtain h1 where h1: "run_code ?p1 ?t = Running h1" "reg_get xsp h1 = ?b"
    "\<forall>r. r \<noteq> xsp \<longrightarrow> reg_get r h1 = reg_get r h"
    "ram h1 = (ram h)(?b := reg_get xt0 h, ?b + 8 := reg_get xa0 h, ?b + 16 := reg_get xa1 h)"
    "csrf h1 = (csrf ?t)(Mscratch := reg_get xsp h)" "legal h1 = legal h"
    using m_trap_save [OF al pl] unfolding t e by blast
  have "csrf h1 Mcause = 9" "ram h1 (?b + 8) = 1" using h1(4,5) svc t(4) by simp_all
  from m_trap_serve [OF h1(2) bal this cmp] obtain h2 where h2: "run_code ?p2 h1 = Running h2"
    "\<forall>r. r \<notin> {xt0, xa0, xa1} \<longrightarrow> reg_get r h2 = reg_get r h1"
    "ram h2 = (ram h1)(0x02004000 := ram h1 (?b + 16))"
    "csrf h2 = (csrf h1)(Mepc := legal h1 Mepc (csrf h1 Mepc) (csrf h1 Mepc + 4))" "legal h2 = legal h1"
    by blast
  have b2: "reg_get xsp h2 = ?b" using h2(2) h1(2) by simp
  have pl2: "plain_csr h2 Mscratch" using pl h2(5) h1(6) t(2) by (simp add: plain_csr_def)
  from m_trap_leave [OF b2 bal pl2] obtain h3 where h3: "run_code ?p3 h2 = Running h3"
    "reg_get xt0 h3 = ram h2 ?b" "reg_get xa0 h3 = ram h2 (?b + 8)" "reg_get xa1 h3 = ram h2 (?b + 16)"
    "reg_get xsp h3 = csrf h2 Mscratch" "\<forall>r. r \<notin> {xt0, xa0, xa1, xsp} \<longrightarrow> reg_get r h3 = reg_get r h2"
    "ram h3 = ram h2" "\<forall>c. c \<notin> {Mscratch, Mstatus} \<longrightarrow> csrf h3 c = csrf h2 c"
    "csrf h3 Mscratch = ?b + 32" "pc h3 = csrf h2 Mepc" "priv h3 = mpp_of (csrf h2 Mstatus)" "legal h3 = legal h2"
    by blast
  have run: "run_code m_trap_code ?t = Running h3"
    unfolding code using h1(1) h2(1) h3(1) by (simp only: run_code_append outcome.case)
  have m: "ram h3 = (ram h)(?b := reg_get xt0 h, ?b + 8 := reg_get xa0 h, ?b + 16 := reg_get xa1 h,
      0x02004000 := reg_get xa1 h)"
    using h3(7) h2(3) h1(4) by simp
  have "ram h2 ?b = reg_get xt0 h" "ram h2 (?b + 8) = reg_get xa0 h" "ram h2 (?b + 16) = reg_get xa1 h"
    using m h3(7) cmp by (auto simp: fun_upd_def)
  then have regs: "reg_get r h3 = reg_get r h" for r
    using h3(2-6) h2(2,4) h1(3,5) by (cases "r \<in> {xt0, xa0, xa1, xsp}") auto
  have "priv h3 = priv h" using h3(11) h2(4) h1(5) mpp_trap [of 9 "pc h" 0 h] by simp
  moreover have "csrf h3 c = csrf h c" if "c \<notin> {Mstatus, Mepc, Mcause, Mtval}" for c
    using that h3(8,9) h2(4) h1(5) t(7) [of c] e(3) by (cases "c = Mscratch") auto
  moreover have "pc h3 = legal h Mepc (pc h) (pc h + 4)"
    using h3(10) h2(4,5) h1(5,6) t(5) by simp
  ultimately show ?thesis using run regs m h3(12) h2(5) h1(6) e by auto
qed

text \<open>Any other cause or service number parks the hart.\<close>

lemma m_trap_refuses:
  assumes "aligned8 (csrf h Mscratch)" "plain_csr h Mscratch" "c \<noteq> 9 \<or> reg_get xa0 h \<noteq> 1"
  shows "\<exists>h'. run_code m_trap_code (trap_to_m c (pc h) 0 h) = Parked h'"
proof -
  let ?t = "trap_to_m c (pc h) 0 h"
  have t: "csrf ?t Mscratch = csrf h Mscratch" "legal ?t = legal h" "csrf ?t Mcause = c" "reg_get r ?t = reg_get r h" for r
    by (auto simp: trap_to_m_def reg_get_def)
  obtain h1 where h1: "run_code (take 5 m_trap_code) ?t = Running h1" "reg_get xsp h1 = csrf h Mscratch - 32"
    "ram h1 (csrf h Mscratch - 24) = reg_get xa0 h" "csrf h1 Mcause = c"
    using m_trap_save [of ?t] assms(1,2) by (auto simp: m_trap_code_def t plain_csr_def simp del: run_code.simps)
  have al: "aligned8 (csrf h Mscratch + - 24)" using assms(1) by (rule aligned8_offset) simp
  have e: "csrf h Mscratch - 32 + 8 = csrf h Mscratch - 24" by simp
  have "\<exists>h'. run_code (drop 5 m_trap_code) h1 = Parked h'"
    using assms(3) al h1(2-4) by (cases "c = 9") (simp_all add: m_trap_code_def Let_def machine_simps e)
  with h1(1) show ?thesis
    using run_code_append [of "take 5 m_trap_code" "drop 5 m_trap_code" ?t] by auto
qed


subsection \<open>The comparator\<close>

text \<open>The register the timer interrupt of the build compares with \<open>mtime\<close>, and what writing it needs.\<close>

definition comparator :: "bool \<Rightarrow> bool \<Rightarrow> hart \<Rightarrow> u64" where
  "comparator smode sstc h = (if smode \<and> sstc then csrf h Stimecmp else ram h 0x02004000)"

definition cmp_ready :: "bool \<Rightarrow> bool \<Rightarrow> hart \<Rightarrow> bool" where
  "cmp_ready smode sstc h \<longleftrightarrow>
     (smode \<and> sstc \<longrightarrow> plain_csr h Stimecmp) \<and> (smode \<and> \<not> sstc \<longrightarrow> service_ready h)"

lemma set_comparator_sets:
  assumes "cmp_ready smode sstc h"
  shows "\<exists>h'. set_comparator smode sstc d h = Some h' \<and> comparator smode sstc h' = d \<and>
    cmp_ready smode sstc h' \<and> priv h' = priv h \<and> legal h' = legal h \<and>
    (\<forall>c. c \<notin> {Mstatus, Mepc, Mcause, Mtval, Stimecmp} \<longrightarrow> csrf h' c = csrf h c)"
proof (cases "smode \<and> \<not> sstc")
  case True
  let ?h = "reg_set xa1 d (reg_set xa0 1 h)"
  have "service_ready ?h" "reg_get xa0 ?h = 1"
    using assms True by (simp_all add: cmp_ready_def service_ready_def machine_simps plain_csr_def)
  from m_trap_service [OF this] obtain h' where h': "ecall_rearm d h = Running h'"
    "ram h' 0x02004000 = d" "\<forall>c. c \<notin> {Mstatus, Mepc, Mcause, Mtval} \<longrightarrow> csrf h' c = csrf h c"
    "priv h' = priv h" "legal h' = legal h"
    by (auto simp: ecall_rearm_def machine_simps)
  then have "service_ready h'" using assms True
    by (simp add: cmp_ready_def service_ready_def plain_csr_def)
  with h' True show ?thesis by (simp add: set_comparator_def comparator_def cmp_ready_def)
next
  case False
  with assms show ?thesis
    by (auto simp: set_comparator_def comparator_def cmp_ready_def machine_simps plain_csr_def)
qed

text \<open>The traps and returns of the scheduler do not disturb the service.\<close>

lemma cmp_ready_cong:
  "legal h' = legal h \<Longrightarrow> csrf h' Mscratch = csrf h Mscratch \<Longrightarrow> cmp_ready smode sstc h' = cmp_ready smode sstc h"
  by (simp add: cmp_ready_def service_ready_def plain_csr_def)

lemma cmp_ready_traps [simp]:
  "cmp_ready smode sstc (trap_to_s c e t h) = cmp_ready smode sstc h"
  "cmp_ready smode sstc (trap_to_m c e t h) = cmp_ready smode sstc h"
  "cmp_ready smode sstc (do_sret h) = cmp_ready smode sstc h"
  "cmp_ready smode sstc (do_mret h) = cmp_ready smode sstc h"
  by (rule cmp_ready_cong; simp add: trap_to_s_def trap_to_m_def do_sret_def do_mret_def)+

lemma comparator_traps [simp]:
  "comparator smode sstc (trap_to_s c e t h) = comparator smode sstc h"
  "comparator smode sstc (trap_to_m c e t h) = comparator smode sstc h"
  "comparator smode sstc (do_sret h) = comparator smode sstc h"
  "comparator smode sstc (do_mret h) = comparator smode sstc h"
  by (simp_all add: comparator_def trap_to_s_def trap_to_m_def do_sret_def do_mret_def)


subsection \<open>The boot\<close>

lemma m_boot_effect:
  assumes "\<And>c. c \<noteq> Menvcfg \<Longrightarrow> plain_csr h c" "m_boot True y h = (sstc, h')"
  shows "priv h' = SMode \<and> pc h' = a_s_entry y \<and>
    csrf h' Medeleg = MEDELEG_MASK \<and> csrf h' Mideleg = MIDELEG_MASK \<and>
    \<not> bit (csrf h' Medeleg) 9 \<and> bit (csrf h' Mideleg) 5 \<and> \<not> bit (csrf h' Mideleg) 7 \<and>
    csrf h' Mtvec = a_m_trap_entry y \<and> csrf h' Mscratch = a_m_estack_top y \<and>
    csrf h' Stvec = a_strap_entry y \<and> csrf h' Sscratch = a_sched_tf y \<and>
    csrf h' Mcounteren = 7 \<and> csrf h' Pmpaddr0 = - 1 \<and> csrf h' Pmpcfg0 = 0x1f \<and>
    comparator True sstc h' = - 1 \<and> (sstc \<longleftrightarrow> bit (csrf h' Menvcfg) 63) \<and>
    csrf h' Mie = csrf h Mie \<and> csrf h' Mip = csrf h Mip \<and> legal h' = legal h"
proof -
  have pl: "legal h c old v = v" if "c \<noteq> Menvcfg" for c old v
    using assms(1) [OF that] by (simp add: plain_csr_def)
  have stce: "(v AND 0x8000000000000000 \<noteq> 0) = bit v 63" for v :: u64
    using and_single_bit [of 63 v] by simp
  show ?thesis
    using assms(2)
    by (auto simp: m_boot_def Let_def stce csr_read_menvcfg_def csr_set_menvcfg_def machine_simps pl
        do_sret_def comparator_def sstatus_mask_def bit_simps split: if_splits)
qed


subsection \<open>Properties\<close>

text \<open>
  The M-mode rearm service is transparent: on a supervisor \<open>ecall\<close> with service number 1 it
  stores the deadline in \<open>a1\<close> to \<open>mtimecmp\<close> and returns past the \<open>ecall\<close> in the caller's
  privilege mode with every integer register and \<open>mscratch\<close> as they were; besides \<open>mtimecmp\<close> it
  writes only three doublewords of its own stack. Any other cause or service number parks the
  hart.
\<close>

theorem m_trap_entry_rearms:
  assumes "service_ready h"
  shows "(reg_get xa0 h = 1 \<longrightarrow> (\<exists>h'. run_code m_trap_code (trap_to_m 9 (pc h) 0 h) = Running h' \<and>
      ram h' 0x02004000 = reg_get xa1 h \<and> (\<forall>r. reg_get r h' = reg_get r h) \<and>
      csrf h' Mscratch = csrf h Mscratch \<and> priv h' = priv h \<and>
      pc h' = legal h Mepc (pc h) (pc h + 4) \<and>
      (\<forall>a. a \<notin> {0x02004000, csrf h Mscratch - 32, csrf h Mscratch - 24, csrf h Mscratch - 16} \<longrightarrow>
         ram h' a = ram h a))) \<and>
    (\<forall>c. c \<noteq> 9 \<or> reg_get xa0 h \<noteq> 1 \<longrightarrow>
      (\<exists>h'. run_code m_trap_code (trap_to_m c (pc h) 0 h) = Parked h'))"
proof -
  have "aligned8 (csrf h Mscratch)" "plain_csr h Mscratch" using assms by (simp_all add: service_ready_def)
  with m_trap_refuses m_trap_service [OF assms] show ?thesis by force
qed

definition ecall_hart :: hart where
  "ecall_hart = \<lparr>gpr = (\<lambda>r. if r = xa0 then 1 else if r = xa1 then 12345 else of_nat r),
     csrf = (\<lambda>c. if c = Mscratch then 0x80020000 else 0), ram = (\<lambda>a. 0),
     pc = 0x80000200, priv = SMode, clock = (\<lambda>n. (0, 0)), retired = 0, legal = (\<lambda>c old v. v), instret = (\<lambda>_. 0)\<rparr>"

theorem m_trap_entry_rearms_witness:
  "\<exists>h'. run_code m_trap_code (trap_to_m 9 0x80000200 0 ecall_hart) = Running h' \<and> ram h' 0x02004000 = 12345 \<and>
     priv h' = SMode"
proof -
  have "service_ready ecall_hart" by (simp add: service_ready_def ecall_hart_def plain_csr_def aligned8_def)
  from m_trap_entry_rearms [OF this] show ?thesis by (auto simp: ecall_hart_def reg_get_def)
qed

text \<open>
  \<open>m_boot\<close> prepares the drop to S-mode, whatever the hart held before, provided it keeps the
  values written to the registers concerned (\<open>menvcfg\<close> excepted, which is probed): it leaves the
  hart in S-mode at \<open>s_entry\<close>; the delegation masks, vectors, scratch registers, counter access
  and the open PMP entry are in place; supervisor calls (exception 9) are not delegated while the
  supervisor timer interrupt (5) is; the comparator in use is parked at the far future; and
  \<open>g_use_sstc\<close> says whether \<open>menvcfg.STCE\<close> stuck.
\<close>

theorem m_boot_drops_to_smode:
  assumes "\<And>c. c \<noteq> Menvcfg \<Longrightarrow> plain_csr h c" "m_boot True y h = (sstc, h')"
  shows "priv h' = SMode \<and> pc h' = a_s_entry y \<and>
    csrf h' Medeleg = MEDELEG_MASK \<and> csrf h' Mideleg = MIDELEG_MASK \<and>
    \<not> bit (csrf h' Medeleg) 9 \<and> bit (csrf h' Mideleg) 5 \<and> \<not> bit (csrf h' Mideleg) 7 \<and>
    csrf h' Mtvec = a_m_trap_entry y \<and> csrf h' Mscratch = a_m_estack_top y \<and>
    csrf h' Stvec = a_strap_entry y \<and> csrf h' Sscratch = a_sched_tf y \<and>
    csrf h' Mcounteren = 7 \<and> csrf h' Pmpaddr0 = - 1 \<and> csrf h' Pmpcfg0 = 0x1f \<and>
    comparator True sstc h' = - 1 \<and> (sstc \<longleftrightarrow> bit (csrf h' Menvcfg) 63) \<and>
    csrf h' Mie = csrf h Mie \<and> csrf h' Mip = csrf h Mip \<and> legal h' = legal h"
  using assms by (rule m_boot_effect)

definition demo_syms :: smode_syms where
  "demo_syms = \<lparr>a_s_entry = 0x80000040, a_strap_entry = 0x80000100, a_m_trap_entry = 0x80000080,
     a_m_estack_top = 0x80020000, a_sched_tf = 0x80010000\<rparr>"

theorem m_boot_drops_to_smode_witness:
  "priv (snd (m_boot True demo_syms ecall_hart)) = SMode \<and>
   csrf (snd (m_boot True demo_syms ecall_hart)) Stvec = 0x80000100"
proof -
  have "plain_csr ecall_hart c" if "c \<noteq> Menvcfg" for c by (simp add: plain_csr_def ecall_hart_def)
  from m_boot_drops_to_smode [OF this, of demo_syms "fst (m_boot True demo_syms ecall_hart)"
      "snd (m_boot True demo_syms ecall_hart)"] show ?thesis by (auto simp: demo_syms_def)
qed

lemma strap_code_blocks:
  "strap_entry_code smode stk = tf_entry (CSR_SCRATCH smode) (CSR_EPC smode) stk"
  "strap_exit_code smode gc gt = tf_exit (CSR_SCRATCH smode) (CSR_EPC smode) gc gt (RET_INSN smode)"
  "switch_csrs (CSR_SCRATCH smode) (CSR_EPC smode)" "returns_to (CSR_EPC smode) (RET_INSN smode)"
  by (simp_all add: strap_entry_code_def strap_exit_code_def tf_entry_def tf_exit_def tf_saves_def
      tf_loads_def switch_csrs_def returns_to_def CSR_SCRATCH_def CSR_EPC_def RET_INSN_def)

text \<open>
  In both builds of \<open>strap.S\<close> a context survives preemption up to t1: a context saved by one
  trap and restored by a later one resumes at its exception PC with all of x1 to x31 as they were,
  except x6 (t1), which comes back as the \<open>cycle\<close> counter read at the trap entry.
\<close>

theorem strap_context_round_trip:
  assumes "aligned8 (csrf h (CSR_SCRATCH smode))" "plain_csr h (CSR_SCRATCH smode)"
    and "run_code (strap_entry_code smode stk) h = Running h1"
    and "\<forall>a \<in> tf_slots (csrf h (CSR_SCRATCH smode)). ram h2 a = ram h1 a"
    and "reg_get xa0 h2 = csrf h (CSR_SCRATCH smode)" "plain_csr h2 (CSR_SCRATCH smode)"
    and "aligned8 gc" "aligned8 gt" "gc \<notin> tf_slots (csrf h (CSR_SCRATCH smode))"
    and "gt \<notin> tf_slots (csrf h (CSR_SCRATCH smode))"
  shows "\<exists>h3. run_code (strap_exit_code smode gc gt) h2 = Running h3 \<and>
    (\<forall>r. 0 < r \<and> r < 32 \<and> r \<noteq> xt1 \<longrightarrow> reg_get r h3 = reg_get r h) \<and>
    reg_get xt1 h3 = snd (clock h (retired h + 3)) \<and>
    csrf h3 (CSR_SCRATCH smode) = csrf h (CSR_SCRATCH smode) \<and>
    pc h3 = legal h2 (CSR_EPC smode) (csrf h2 (CSR_EPC smode)) (csrf h (CSR_EPC smode))"
  using assms tf_round_trip [OF strap_code_blocks(3,4), of h smode stk h1 h2 gc gt]
  by (simp add: strap_code_blocks)

definition strap_hart :: hart where
  "strap_hart = \<lparr>gpr = (\<lambda>r. of_nat r),
     csrf = (\<lambda>c. if c = Sscratch then 0x80010000 else if c = Sepc then 0x80000400 else 0), ram = (\<lambda>a. 0),
     pc = 0x80000000, priv = SMode, clock = (\<lambda>n. (of_nat n + 1000, of_nat n + 5000)), retired = 0,
     legal = (\<lambda>c old v. v), instret = (\<lambda>_. 0)\<rparr>"

theorem strap_context_round_trip_witness:
  "\<exists>h1 h3. run_code (strap_entry_code True 0x80020000) strap_hart = Running h1 \<and>
     run_code (strap_exit_code True 0x80030000 0x80030008) h1 = Running h3 \<and>
     reg_get xt2 h3 = 7 \<and> reg_get xt1 h3 = 5003 \<and> pc h3 = 0x80000400"
proof -
  have t: "csrf strap_hart (CSR_SCRATCH True) = 0x80010000" "plain_csr strap_hart (CSR_SCRATCH True)"
    by (simp_all add: strap_hart_def plain_csr_def CSR_SCRATCH_def)
  have al: "aligned8 (csrf strap_hart (CSR_SCRATCH True))" unfolding t(1) by (simp add: aligned8_def)
  obtain h1 where h1: "run_code (strap_entry_code True 0x80020000) strap_hart = Running h1"
    "reg_get xa0 h1 = csrf strap_hart (CSR_SCRATCH True)" "legal h1 = legal strap_hart"
    using tf_entry_saves [OF strap_code_blocks(3) al t(2), where stk = "0x80020000"]
    unfolding strap_code_blocks by blast
  have p1: "plain_csr h1 (CSR_SCRATCH True)" using h1(3) t(2) by (simp add: plain_csr_def)
  have g: "aligned8 0x80030000" "aligned8 0x80030008"
    "0x80030000 \<notin> tf_slots (csrf strap_hart (CSR_SCRATCH True))"
    "0x80030008 \<notin> tf_slots (csrf strap_hart (CSR_SCRATCH True))"
    unfolding t(1) tf_offsets_eval by (simp_all add: aligned8_def)
  have r: "reg_get xt2 strap_hart = 7" "snd (clock strap_hart (retired strap_hart + 3)) = 5003"
    "csrf strap_hart (CSR_EPC True) = 0x80000400" "legal h1 c old v = v" for c old v
    using h1(3) by (simp_all add: strap_hart_def reg_get_def CSR_EPC_def)
  from strap_context_round_trip [OF al t(2) h1(1) _ h1(2) p1 g] h1(1) r show ?thesis
    by (auto dest!: spec [of _ 7])
qed

end
