(* ===== verification/Samples.thy ===== *)
theory Samples
  imports Prelude "HOL-Library.Multiset"
begin

text \<open>
  The sample statistics of \<open>smode/ssched.c\<close>: the insertion sort, the median, the minimum and
  the maximum over a prefix of a sample array. Every array access is bounds-checked.
\<close>

subsection \<open>sort_copy\<close>

text \<open>\<open>for (i = ...; k more) dst[i] = src[i];\<close>\<close>

fun copy_loop :: "nat \<Rightarrow> nat \<Rightarrow> u64 list \<Rightarrow> u64 list \<Rightarrow> u64 list option" where
  "copy_loop i 0 dst src = Some dst"
| "copy_loop i (Suc k) dst src =
     (case load_at src i of None \<Rightarrow> None
      | Some v \<Rightarrow> (case store_at dst i v of None \<Rightarrow> None
          | Some dst' \<Rightarrow> copy_loop (Suc i) k dst' src))"

text \<open>\<open>while (j > 0 && dst[j - 1] > v) { dst[j] = dst[j - 1]; j--; }\<close>\<close>

fun shift_loop :: "u64 \<Rightarrow> nat \<Rightarrow> u64 list \<Rightarrow> (nat \<times> u64 list) option" where
  "shift_loop v 0 dst = Some (0, dst)"
| "shift_loop v (Suc j) dst =
     (case load_at dst j of None \<Rightarrow> None
      | Some x \<Rightarrow>
          if x > v
          then (case store_at dst (Suc j) x of None \<Rightarrow> None | Some d \<Rightarrow> shift_loop v j d)
          else Some (Suc j, dst))"

text \<open>The outer loop, from index \<open>i\<close> with \<open>k\<close> rounds to go.\<close>

fun insert_loop :: "nat \<Rightarrow> nat \<Rightarrow> u64 list \<Rightarrow> u64 list option" where
  "insert_loop i 0 dst = Some dst"
| "insert_loop i (Suc k) dst =
     (case load_at dst i of None \<Rightarrow> None
      | Some v \<Rightarrow> (case shift_loop v i dst of None \<Rightarrow> None
          | Some (j, d) \<Rightarrow> (case store_at d j v of None \<Rightarrow> None
              | Some d' \<Rightarrow> insert_loop (Suc i) k d')))"

definition sort_copy :: "u64 list \<Rightarrow> u64 list \<Rightarrow> nat \<Rightarrow> u64 list option" where
  "sort_copy dst src n =
     (case copy_loop 0 n dst src of None \<Rightarrow> None | Some d \<Rightarrow> insert_loop 1 (n - 1) d)"


subsection \<open>median_of, min_of, max_of\<close>

text \<open>\<open>buf\<close> is the static scratch array; it keeps the last sorted copy.\<close>

definition median_of :: "u64 list \<Rightarrow> u64 list \<Rightarrow> u64 \<Rightarrow> u64 option" where
  "median_of buf a n =
     (case sort_copy buf a (unat n) of None \<Rightarrow> None
      | Some b \<Rightarrow> (case (load_at b (unat (n div 2 - 1)), load_at b (unat (n div 2))) of
          (Some x, Some y) \<Rightarrow> Some ((x + y) div 2)
        | _ \<Rightarrow> None))"

fun min_loop :: "u64 \<Rightarrow> nat \<Rightarrow> nat \<Rightarrow> u64 list \<Rightarrow> u64 option" where
  "min_loop m i 0 a = Some m"
| "min_loop m i (Suc k) a =
     (case load_at a i of None \<Rightarrow> None | Some x \<Rightarrow> min_loop (if x < m then x else m) (Suc i) k a)"

definition min_of :: "u64 list \<Rightarrow> u64 \<Rightarrow> u64 option" where
  "min_of a n = (case load_at a 0 of None \<Rightarrow> None | Some m \<Rightarrow> min_loop m 1 (unat n - 1) a)"

fun max_loop :: "u64 \<Rightarrow> nat \<Rightarrow> nat \<Rightarrow> u64 list \<Rightarrow> u64 option" where
  "max_loop m i 0 a = Some m"
| "max_loop m i (Suc k) a =
     (case load_at a i of None \<Rightarrow> None | Some x \<Rightarrow> max_loop (if x > m then x else m) (Suc i) k a)"

definition max_of :: "u64 list \<Rightarrow> u64 \<Rightarrow> u64 option" where
  "max_of a n = (case load_at a 0 of None \<Rightarrow> None | Some m \<Rightarrow> max_loop m 1 (unat n - 1) a)"


subsection \<open>The sort is the sort\<close>

lemma copy_loop_result:
  "i + k \<le> length dst \<Longrightarrow> i + k \<le> length src \<Longrightarrow>
   copy_loop i k dst src = Some (take i dst @ take k (drop i src) @ drop (i + k) dst)"
proof (induction k arbitrary: i dst)
  case 0
  then show ?case by simp
next
  case (Suc k)
  let ?d = "dst[i := src ! i]"
  have "copy_loop (Suc i) k ?d src =
      Some (take (Suc i) ?d @ take k (drop (Suc i) src) @ drop (Suc i + k) ?d)"
    by (rule Suc.IH) (use Suc.prems in simp_all)
  moreover have "take (Suc i) ?d = take i dst @ [src ! i]"
    using Suc.prems by (simp add: take_Suc_conv_app_nth)
  moreover have "take (Suc k) (drop i src) = src ! i # take k (drop (Suc i) src)"
    using Suc.prems by (simp add: Cons_nth_drop_Suc [symmetric])
  ultimately show ?case using Suc.prems by simp
qed

text \<open>
  The inner loop keeps the prefix split around the insertion point: what is larger than \<open>v\<close>
  has moved up by one, and the slot at \<open>j\<close> is free.
\<close>

lemma shift_loop_result:
  "sorted p \<Longrightarrow> \<exists>h. shift_loop v (length p) (p @ x # q) =
     Some (length (takeWhile (\<lambda>y. y \<le> v) p),
           takeWhile (\<lambda>y. y \<le> v) p @ h # dropWhile (\<lambda>y. y \<le> v) p @ q)"
proof (induction p arbitrary: x q rule: rev_induct)
  case Nil
  then show ?case by simp
next
  case (snoc y p)
  show ?case
  proof (cases "y > v")
    case True
    then have "takeWhile (\<lambda>y. y \<le> v) (p @ [y]) = takeWhile (\<lambda>y. y \<le> v) p"
      "dropWhile (\<lambda>y. y \<le> v) (p @ [y]) = dropWhile (\<lambda>y. y \<le> v) p @ [y]"
      by (induction p) auto
    with snoc.IH [of y "y # q"] snoc.prems True show ?thesis
      by (simp add: sorted_append nth_append list_update_append)
  next
    case False
    with snoc.prems have "\<forall>z \<in> set (p @ [y]). z \<le> v" by (auto simp: sorted_append)
    then have "takeWhile (\<lambda>y. y \<le> v) (p @ [y]) = p @ [y]" "dropWhile (\<lambda>y. y \<le> v) (p @ [y]) = []"
      by (simp_all add: takeWhile_eq_all_conv dropWhile_eq_Nil_conv)
    with False show ?thesis by (simp add: nth_append)
  qed
qed

lemma split_around_sort:
  assumes "sorted p"
  shows "takeWhile (\<lambda>y. y \<le> v) p @ v # dropWhile (\<lambda>y. y \<le> v) p = sort (v # p)" (is "?l = _")
proof (rule properties_for_sort [symmetric])
  have "mset ?l = add_mset v (mset (takeWhile (\<lambda>y. y \<le> v) p @ dropWhile (\<lambda>y. y \<le> v) p))"
    unfolding mset_append by simp
  then show "mset ?l = mset (v # p)" by simp
  have "sorted (takeWhile (\<lambda>y. y \<le> v) p)" "sorted (dropWhile (\<lambda>y. y \<le> v) p)"
    using assms by (simp_all add: sorted_takeWhile sorted_dropWhile)
  moreover have lo: "y \<le> v" if "y \<in> set (takeWhile (\<lambda>y. y \<le> v) p)" for y
    using that by (auto dest: set_takeWhileD)
  moreover have hi: "v \<le> y" if "y \<in> set (dropWhile (\<lambda>y. y \<le> v) p)" for y
  proof (cases "dropWhile (\<lambda>y. y \<le> v) p")
    case (Cons z zs)
    then have "\<not> z \<le> v" using hd_dropWhile [of "\<lambda>y. y \<le> v" p] by auto
    moreover have "z \<le> y" using that Cons \<open>sorted (dropWhile (\<lambda>y. y \<le> v) p)\<close> by auto
    ultimately show ?thesis by simp
  next
    case Nil
    with that show ?thesis by simp
  qed
  ultimately show "sorted ?l" by (auto simp: sorted_append intro: order_trans)
qed

lemma insert_loop_result:
  "insert_loop (length p) (length r) (sort p @ r @ q) = Some (sort (p @ r) @ q)"
proof (induction r arbitrary: p)
  case Nil
  then show ?case by simp
next
  case (Cons v r)
  let ?lo = "takeWhile (\<lambda>y. y \<le> v) (sort p)" and ?hi = "dropWhile (\<lambda>y. y \<le> v) (sort p)"
  obtain h where "shift_loop v (length p) (sort p @ v # r @ q) = Some (length ?lo, ?lo @ h # ?hi @ r @ q)"
    using shift_loop_result [of "sort p" v v "r @ q"] by auto
  moreover have "?lo @ v # ?hi = sort (p @ [v])"
    using split_around_sort [of "sort p" v]
      properties_for_sort [of "sort (v # sort p)" "p @ [v]"] by (simp add: sorted_insort)
  then have split: "?lo @ v # ?hi @ r @ q = sort (p @ [v]) @ r @ q" by (metis append.assoc append_Cons)
  ultimately show ?case
    using Cons.IH [of "p @ [v]"] by (simp add: nth_append split)
qed

lemma sort_copy_result:
  assumes "n \<le> length dst" "n \<le> length src"
  shows "sort_copy dst src n = Some (sort (take n src) @ drop n dst)"
proof (cases n)
  case 0
  then show ?thesis by (simp add: sort_copy_def)
next
  case (Suc k)
  with assms obtain x xs where xs: "take n src = x # xs" "length xs = k"
    by (cases "take n src") (auto simp: take_Cons' dest: arg_cong [where f = length])
  have "copy_loop 0 n dst src = Some (x # xs @ drop n dst)"
    using copy_loop_result [of 0 n dst src] assms xs by simp
  moreover have "insert_loop 1 k (x # xs @ drop n dst) = Some (sort (x # xs) @ drop n dst)"
    using insert_loop_result [of "[x]" xs "drop n dst"] xs by simp
  ultimately show ?thesis using xs by (simp add: sort_copy_def Suc)
qed


subsection \<open>Order statistics\<close>

lemma min_loop_result:
  "i + k \<le> length a \<Longrightarrow> min_loop m i k a = Some (fold min (take k (drop i a)) m)"
proof (induction k arbitrary: i m)
  case 0
  then show ?case by simp
next
  case (Suc k)
  have "take (Suc k) (drop i a) = a ! i # take k (drop (Suc i) a)"
    using Suc.prems by (simp add: Cons_nth_drop_Suc [symmetric])
  moreover have "(if a ! i < m then a ! i else m) = min (a ! i) m" by (auto simp: min_def)
  ultimately show ?case using Suc by simp
qed

lemma max_loop_result:
  "i + k \<le> length a \<Longrightarrow> max_loop m i k a = Some (fold max (take k (drop i a)) m)"
proof (induction k arbitrary: i m)
  case 0
  then show ?case by simp
next
  case (Suc k)
  have "take (Suc k) (drop i a) = a ! i # take k (drop (Suc i) a)"
    using Suc.prems by (simp add: Cons_nth_drop_Suc [symmetric])
  moreover have "(if a ! i > m then a ! i else m) = max (a ! i) m" by (auto simp: max_def)
  ultimately show ?case using Suc by simp
qed

lemma sample_prefix:
  assumes "0 < n" "n \<le> length a"
  shows "take n a = a ! 0 # take (n - 1) (drop 1 a)"
  using assms by (cases a; cases n) auto

lemma min_of_result:
  assumes "0 < n" "unat n \<le> length a"
  shows "min_of a n = Some (Min (set (take (unat n) a)))"
proof -
  have n: "0 < unat n" using assms(1) by (simp add: word_greater_zero_iff unat_gt_0)
  with assms(2) have a: "0 < length a" by linarith
  have "min_loop (a ! 0) 1 (unat n - 1) a = Some (fold min (take (unat n - 1) (drop 1 a)) (a ! 0))"
    by (rule min_loop_result) (use assms(2) n in simp)
  also have "\<dots> = Some (Min (set (take (unat n) a)))"
    unfolding sample_prefix [OF n assms(2)] by (simp only: Min.set_eq_fold)
  finally show ?thesis using a by (simp add: min_of_def)
qed

lemma max_of_result:
  assumes "0 < n" "unat n \<le> length a"
  shows "max_of a n = Some (Max (set (take (unat n) a)))"
proof -
  have n: "0 < unat n" using assms(1) by (simp add: word_greater_zero_iff unat_gt_0)
  with assms(2) have a: "0 < length a" by linarith
  have "max_loop (a ! 0) 1 (unat n - 1) a = Some (fold max (take (unat n - 1) (drop 1 a)) (a ! 0))"
    by (rule max_loop_result) (use assms(2) n in simp)
  also have "\<dots> = Some (Max (set (take (unat n) a)))"
    unfolding sample_prefix [OF n assms(2)] by (simp only: Max.set_eq_fold)
  finally show ?thesis using a by (simp add: max_of_def)
qed

text \<open>For at least two samples the median is the mean of the two middle ones, modulo \<open>2 ^ 64\<close>.\<close>

lemma median_of_result:
  assumes "2 \<le> unat n" "unat n \<le> length a" "unat n \<le> length buf"
  shows "median_of buf a n = Some ((sort (take (unat n) a) ! (unat n div 2 - 1) +
      sort (take (unat n) a) ! (unat n div 2)) div 2)"
proof -
  have d: "unat (n div 2) = unat n div 2" by (simp add: unat_div)
  have "(1 :: u64) \<le> n div 2" using assms(1) by (simp add: word_le_nat_alt d)
  then have d1: "unat (n div 2 - 1) = unat n div 2 - 1" by (simp add: unat_sub d)
  have "unat n div 2 < length (sort (take (unat n) a))" "unat n div 2 - 1 < unat n" using assms by simp_all
  then show ?thesis
    using sort_copy_result [OF assms(3,2)] assms d d1
    by (simp add: median_of_def nth_append)
qed


subsection \<open>Properties\<close>

text \<open>
  C16. \<open>sort_copy\<close> copies and sorts: for arrays of at least \<open>n\<close> elements it stays within them,
  the first \<open>n\<close> elements of the destination become the first \<open>n\<close> of the source in ascending
  order, with the same multiplicities, and the rest of the destination is untouched. The median
  then is the mean, modulo \<open>2 ^ 64\<close>, of the two middle elements of that order, and the minimum
  and maximum are those of the prefix.
\<close>

theorem sample_statistics_exact:
  assumes "2 \<le> unat n" "unat n \<le> length a" "unat n \<le> length buf"
  shows "(\<exists>p. sort_copy buf a (unat n) = Some (p @ drop (unat n) buf) \<and> sorted p \<and>
      mset p = mset (take (unat n) a) \<and>
      median_of buf a n = Some ((p ! (unat n div 2 - 1) + p ! (unat n div 2)) div 2)) \<and>
    min_of a n = Some (Min (set (take (unat n) a))) \<and>
    max_of a n = Some (Max (set (take (unat n) a)))"
proof -
  have "0 < n" using assms(1) by (simp add: word_less_nat_alt)
  then show ?thesis
    using sort_copy_result [OF assms(3,2)] median_of_result [OF assms]
      min_of_result [OF _ assms(2)] max_of_result [OF _ assms(2)]
    by (intro conjI exI [of _ "sort (take (unat n) a)"]) simp_all
qed

theorem sample_statistics_exact_witness:
  "\<exists>p. sort_copy [0, 0, 0, 0, 9] [7, 3, 5, 3] 4 = Some (p @ [9]) \<and> sorted p \<and> mset p = {#3, 3, 5, 7#}"
  using sample_statistics_exact [of 4 "[7, 3, 5, 3]" "[0, 0, 0, 0, 9]"] by (auto simp: add_mset_commute)

end
