(* ===== verification/Ssched.thy ===== *)
theory Ssched
  imports Smode Samples
begin

text \<open>
  \<open>src/src/smode/\<close>, the scheduler (\<open>ssched.c\<close>), its tasks (\<open>stasks.c\<close>) and its entry point
  (\<open>smain.c\<close>), in both builds. Unlike the scheduler of \<open>preempt/\<close> it keeps every sample in an
  array of 200 and disarms the timer on the last tick.
\<close>

unbundle bit_operations_syntax

abbreviation (input) STASK_MAX :: nat where "STASK_MAX \<equiv> 3"
abbreviation (input) SSTACK_SIZE :: u64 where "SSTACK_SIZE \<equiv> 4096"
abbreviation (input) STIMER_NS_PER_TICK :: u64 where "STIMER_NS_PER_TICK \<equiv> 100"

definition CAUSE_TIMER_IRQ :: "bool \<Rightarrow> u64" where
  "CAUSE_TIMER_IRQ smode = (if smode then 0x8000000000000005 else 0x8000000000000007)"

definition IE_TIE :: "bool \<Rightarrow> u64" where
  "IE_TIE smode = (if smode then 0x20 else 0x80)"

definition STATUS_IE :: "bool \<Rightarrow> u64" where
  "STATUS_IE smode = (if smode then 0x2 else 0x8)"

definition CSR_IE :: "bool \<Rightarrow> csr" where
  "CSR_IE smode = (if smode then Sie else Mie)"

definition CSR_STATUS :: "bool \<Rightarrow> csr" where
  "CSR_STATUS smode = (if smode then Sstatus else Mstatus)"


subsection \<open>State\<close>

record ssched = stimer +
  lat :: "u64 list"
  swc :: "u64 list"
  swt :: "u64 list"

definition ssched_boot :: "bool \<Rightarrow> (nat \<Rightarrow> u64) \<Rightarrow> hart \<Rightarrow> ssched" where
  "ssched_boot sstc mt h =
     \<lparr>out = [], tasks = replicate STASK_MAX empty_ptask, n_tasks = 0, current = - 1,
      sched_tf = empty_frame, g_exit_cycles = 0, g_exit_mtime = 0, g_entry_cycles = 0,
      g_entry_mtime = 0, have_prev = False, ticks = 0, done_flag = False, deadline = 0,
      swn = 0, mtime_src = mt, mtime_reads = 0, cpu = h, running = BootFrame, spins = spinners_boot,
      use_sstc = sstc,
      lat = replicate N_TICKS 0, swc = replicate N_TICKS 0, swt = replicate N_TICKS 0\<rparr>"


subsection \<open>ssched.c\<close>

definition stask_create :: "(nat \<Rightarrow> u64) \<Rightarrow> u64 \<Rightarrow> nat \<Rightarrow> string \<Rightarrow> ssched \<Rightarrow> ssched" where
  "stask_create stack_of tramp fn name s =
     (if n_tasks s \<ge> STASK_MAX then s
      else
        let i = n_tasks s;
            tf = \<lparr>tf_regs = (replicate 32 0)[2 := (stack_of i + SSTACK_SIZE) AND NOT 15],
                  tf_epc = tramp, mtime_at_entry = 0, cycle_at_entry = 0\<rparr>
        in s\<lparr>n_tasks := Suc i, tasks := (tasks s)[i := \<lparr>ptf = tf, pfn = fn, pname = name\<rparr>]\<rparr>)"

definition read_cause :: "bool \<Rightarrow> ssched \<Rightarrow> u64" where
  "read_cause smode s = csr_read (CSR_CAUSE smode) (cpu s)"

definition sched_init :: "bool \<Rightarrow> u64 \<Rightarrow> u64 \<Rightarrow> ssched \<Rightarrow> ssched option" where
  "sched_init smode vec boot_tf s =
     (let s1 = s\<lparr>cpu := csr_write (CSR_SCRATCH smode) boot_tf (csr_write (CSR_TVEC smode) vec (cpu s)),
                 ticks := 0, done_flag := False, have_prev := False, swn := 0\<rparr>
      in case stimer_arm smode s1 of
           None \<Rightarrow> None
         | Some s2 \<Rightarrow>
             let c1 = csr_write (CSR_IE smode) (csr_read (CSR_IE smode) (cpu s2) OR IE_TIE smode) (cpu s2)
             in Some (s2\<lparr>cpu := csr_write (CSR_STATUS smode) (csr_read (CSR_STATUS smode) c1 OR STATUS_IE smode) c1\<rparr>))"

definition sched_stop :: "bool \<Rightarrow> ssched \<Rightarrow> ssched" where
  "sched_stop smode s =
     s\<lparr>cpu := csr_write (CSR_IE smode) (csr_read (CSR_IE smode) (cpu s) AND NOT (IE_TIE smode)) (cpu s)\<rparr>"

text \<open>
  How the handler ends. \<open>Overrun\<close> is a store outside a sample array, \<open>Stuck\<close> a timer rearm that
  does not return.
\<close>

datatype served = Resume frame_ref ssched | Halt ssched | DivZero | Overrun | Stuck

text \<open>\<open>swc[swn] = ...; swt[swn] = ...; swn++;\<close>\<close>

definition push_switch :: "ssched \<Rightarrow> ssched option" where
  "push_switch s =
     (case (store_at (swc s) (unat (swn s)) (g_exit_cycles s - g_entry_cycles s),
            store_at (swt s) (unat (swn s)) (g_exit_mtime s - g_entry_mtime s)) of
        (Some c, Some t) \<Rightarrow> Some (s\<lparr>swc := c, swt := t, swn := swn s + 1\<rparr>)
      | _ \<Rightarrow> None)"

definition enter_next :: "bool \<Rightarrow> trapframe \<Rightarrow> ssched \<Rightarrow> served" where
  "enter_next smode tf s =
     (let fin = (\<lambda>s. s\<lparr>g_entry_cycles := cycle_at_entry tf, g_entry_mtime := mtime_at_entry tf,
                      have_prev := True\<rparr>);
          s3 = s\<lparr>ticks := ticks s + 1\<rparr>
      in if ticks s3 \<ge> of_nat N_TICKS then
           (case stimer_disarm smode (s3\<lparr>done_flag := True\<rparr>) of
              None \<Rightarrow> Stuck
            | Some s4 \<Rightarrow> Resume BootFrame (fin s4))
         else
           (case stimer_arm smode s3 of
              None \<Rightarrow> Stuck
            | Some s4 \<Rightarrow>
                if n_tasks s4 = 0 then DivZero
                else
                  let c = (current s4 + 1) mod int (n_tasks s4)
                  in Resume (TaskFrame (nat c)) (fin (s4\<lparr>current := c\<rparr>))))"

definition strap_handler :: "bool \<Rightarrow> frame_ref \<Rightarrow> ssched \<Rightarrow> served" where
  "strap_handler smode old s =
     (if read_cause smode s \<noteq> CAUSE_TIMER_IRQ smode then
        Halt (emit [Str ''\<newline>smode: unexpected trap (not a timer interrupt), halting\<newline>''] s)
      else if ticks s \<ge> of_nat N_TICKS then
        (case stimer_disarm smode s of
           None \<Rightarrow> Stuck
         | Some s1 \<Rightarrow> Resume BootFrame (s1\<lparr>done_flag := True\<rparr>))
      else
        let tf = frame_at old s
        in case store_at (lat s) (unat (ticks s)) (mtime_at_entry tf - stimer_deadline s) of
             None \<Rightarrow> Overrun
           | Some l \<Rightarrow>
               (case (if have_prev s then push_switch (s\<lparr>lat := l\<rparr>) else Some (s\<lparr>lat := l\<rparr>)) of
                  None \<Rightarrow> Overrun
                | Some s2 \<Rightarrow> enter_next smode tf s2))"

text \<open>One trap, in the build's privilege mode.\<close>

definition stick :: "bool \<Rightarrow> tick_in \<Rightarrow> ssched \<Rightarrow> ssched option" where
  "stick smode i s =
     (let s1 = frame_put (running s) (frame_of i) (run_body (i_iters i) s);
          s2 = s1\<lparr>cpu := (if smode then trap_to_s else trap_to_m) (i_cause i) (i_epc i) 0 (cpu s1)\<rparr>
      in case strap_handler smode (running s) s2 of
           Resume f s3 \<Rightarrow>
             Some (s3\<lparr>g_exit_cycles := i_exit_cycle i, g_exit_mtime := i_exit_mtime i,
                      running := f, cpu := (if smode then do_sret else do_mret) (cpu s3)\<rparr>)
         | _ \<Rightarrow> None)"

definition sched_wait :: "bool \<Rightarrow> tick_in list \<Rightarrow> ssched \<Rightarrow> ssched option" where
  "sched_wait smode is s = wait_done done_flag (stick smode) is s"

definition s_account_final_switch :: "ssched \<Rightarrow> ssched option" where
  "s_account_final_switch s = push_switch s"


subsection \<open>stasks.c\<close>

definition stask_body :: "nat \<Rightarrow> nat \<Rightarrow> spinners \<Rightarrow> spinners" where
  "stask_body k n sp = spin k n sp"

definition stasks_register :: "(nat \<Rightarrow> u64) \<Rightarrow> u64 \<Rightarrow> ssched \<Rightarrow> ssched" where
  "stasks_register stack_of tramp s =
     stask_create stack_of tramp 2 ''spin-c''
      (stask_create stack_of tramp 1 ''spin-b''
        (stask_create stack_of tramp 0 ''spin-a'' s))"

definition stask_count :: nat where "stask_count = 3"

definition stask_iters :: "ssched \<Rightarrow> nat \<Rightarrow> u64" where
  "stask_iters s i =
     (if i = 0 then iters (spins s) ! 0 else if i = 1 then iters (spins s) ! 1 else iters (spins s) ! 2)"

definition stask_name :: "nat \<Rightarrow> string" where
  "stask_name i = (if i = 0 then ''spin-a'' else if i = 1 then ''spin-b'' else ''spin-c'')"


subsection \<open>The report and smain.c\<close>

text \<open>The figures of one array: minimum, median, maximum. \<open>buf\<close> is \<open>median_of\<close>'s static buffer.\<close>

definition figures :: "u64 list \<Rightarrow> u64 list \<Rightarrow> u64 \<Rightarrow> (u64 \<times> u64 \<times> u64) option" where
  "figures buf a n =
     (case (min_of a n, median_of buf a n, max_of a n) of
        (Some lo, Some mid, Some hi) \<Rightarrow> Some (lo, mid, hi)
      | _ \<Rightarrow> None)"

text \<open>
  \<open>None\<close> is an access outside an array or the division of the median costs by zero. The static
  buffer is overwritten by each median before it is read, so its content does not matter; it is
  taken as it starts.
\<close>

definition sched_report :: "ssched \<Rightarrow> ssched option" where
  "sched_report s0 =
     (case s_account_final_switch s0 of None \<Rightarrow> None
      | Some s \<Rightarrow>
          let buf = replicate N_TICKS 0 in
          (case (figures buf (lat s) (ticks s), figures buf (swc s) (swn s), figures buf (swt s) (swn s)) of
             (Some (lmin, lmed, lmax), Some (cmin, cmed, cmax), Some (tmin, tmed, tmax)) \<Rightarrow>
               (case udiv cmed tmed of None \<Rightarrow> None
                | Some ratio \<Rightarrow> Some (emit (
                    [Str ''\<newline>smode: done. '', Dec (ticks s), Str '' timer ticks, '', Dec (swn s),
                     Str '' measured context switches\<newline>\<newline>'',
                     Str ''task progress (task bodies never yield):\<newline>''] @
                    concat (map (\<lambda>i. [Str ''  '', Str (stask_name i), Str '': '', Dec (stask_iters s i),
                                      Str '' iterations\<newline>'']) [0..<stask_count]) @
                    [Str ''\<newline>interrupt latency (mtime tick = 100 ns):\<newline>  min '', Dec lmin,
                     Str '' / median '', Dec lmed, Str '' / max '', Dec lmax,
                     Str '' ticks  ('', Dec (lmin * STIMER_NS_PER_TICK),
                     Str '' / '', Dec (lmed * STIMER_NS_PER_TICK),
                     Str '' / '', Dec (lmax * STIMER_NS_PER_TICK), Str '' ns)\<newline>'',
                     Str ''\<newline>context-switch cost, entry stamp to exit stamp:\<newline>  min '', Dec cmin,
                     Str '' / median '', Dec cmed, Str '' / max '', Dec cmax,
                     Str '' cycles\<newline>  cross-check via mtime: min '', Dec tmin,
                     Str '' / median '', Dec tmed, Str '' / max '', Dec tmax,
                     Str '' ticks ('', Dec (tmin * STIMER_NS_PER_TICK),
                     Str '' / '', Dec (tmed * STIMER_NS_PER_TICK),
                     Str '' / '', Dec (tmax * STIMER_NS_PER_TICK), Str '' ns)\<newline>'',
                     Str ''\<newline>rdcycle/rdtime ratio at median switch cost: '', Dec ratio,
                     Str '' cycles per 100 ns tick\<newline>'']) s))
           | _ \<Rightarrow> None))"

definition smain_banner :: "bool \<Rightarrow> bool \<Rightarrow> piece list" where
  "smain_banner smode sstc =
     [Str ''\<newline>========================================\<newline>''] @
     (if smode then
        [Str ''riscv-baremetal-demo: S-mode trap delegation\<newline>'',
         Str ''scheduler on the delegated supervisor timer interrupt\<newline>'']
      else
        [Str ''riscv-baremetal-demo: M-mode baseline\<newline>'',
         Str ''same scheduler on the machine timer interrupt\<newline>'']) @
     [Str ''========================================\<newline>\<newline>''] @
     (if smode then
        [Str ''Sstc (stimecmp): '',
         Str (if sstc then ''present, pure S-mode timer\<newline>'' else ''absent, M-mode ecall rearm\<newline>'')]
      else []) @
     [Str ''quantum 10000 ticks (1 ms), 200 ticks total\<newline>\<newline>'']"

definition smain :: "bool \<Rightarrow> (nat \<Rightarrow> u64) \<Rightarrow> u64 \<Rightarrow> u64 \<Rightarrow> u64 \<Rightarrow> tick_in list \<Rightarrow> ssched \<Rightarrow> ssched option" where
  "smain smode stack_of tramp vec boot_tf is s =
     (case sched_init smode vec boot_tf
         (stasks_register stack_of tramp (emit (smain_banner smode (use_sstc s)) s)) of
        None \<Rightarrow> None
      | Some s1 \<Rightarrow> (case sched_wait smode is (emit [Str ''timer armed, waiting for ticks...\<newline>''] s1) of
          None \<Rightarrow> None
        | Some s2 \<Rightarrow> (case sched_report (sched_stop smode s2) of
            None \<Rightarrow> None
          | Some s3 \<Rightarrow> Some (emit [Str ''\<newline>halting.\<newline>''] s3))))"



subsection \<open>The timer\<close>

lemma stimer_arm_steady:
  assumes "steady (mtime_src s)" "mtime_reads s = 2 * j" "cmp_ready smode (use_sstc s) (cpu s)"
  shows "\<exists>h'. stimer_arm smode s = Some (s\<lparr>deadline := mtime_src s (2 * j) + 10000,
      mtime_reads := 2 * j + 2, cpu := h'\<rparr>) \<and>
    comparator smode (use_sstc s) h' = mtime_src s (2 * j) + 10000 \<and> cmp_ready smode (use_sstc s) h'"
proof -
  have "mtime_src s (Suc (2 * j) + 0) < mtime_src s (2 * j) + 10000 + 10000 * of_nat 0"
    using assms(1) by (simp add: steady_def)
  with arm_loop_returns [of "mtime_src s" "Suc (2 * j)" 0 "mtime_src s (2 * j) + 10000"]
  have "arm_loop (mtime_src s) (Suc (2 * j)) (mtime_src s (2 * j) + 10000)
      = Some (mtime_src s (2 * j) + 10000, 2 * j + 2)" by simp
  with set_comparator_sets [OF assms(3), of "mtime_src s (2 * j) + 10000"] assms(2) show ?thesis
    by (auto simp: stimer_arm_def)
qed

lemma stimer_disarm_parks:
  assumes "cmp_ready smode (use_sstc s) (cpu s)"
  shows "\<exists>h'. stimer_disarm smode s = Some (s\<lparr>deadline := - 1, cpu := h'\<rparr>) \<and>
    comparator smode (use_sstc s) h' = - 1 \<and> cmp_ready smode (use_sstc s) h'"
  using set_comparator_sets [OF assms, of "- 1"] by (auto simp: stimer_disarm_def)


subsection \<open>The invariant over the history of ticks\<close>

definition sinv :: "bool \<Rightarrow> bool \<Rightarrow> (nat \<Rightarrow> u64) \<Rightarrow> string \<Rightarrow> tick_in list \<Rightarrow> ssched \<Rightarrow> bool" where
  "sinv smode sstc mt shown h s \<longleftrightarrow>
     steady mt \<and> out s = shown \<and> mtime_src s = mt \<and> length h \<le> N_TICKS \<and>
     n_tasks s = 3 \<and> map pfn (tasks s) = [0, 1, 2] \<and> length (iters (spins s)) = 3 \<and>
     (\<forall>k < 3. iters (spins s) ! k = of_nat (progress 3 h k)) \<and>
     mtime_reads s = 2 * (min (length h) 199 + 1) \<and>
     deadline s = (if length h < N_TICKS then mt (2 * length h) + 10000 else - 1) \<and>
     use_sstc s = sstc \<and> cmp_ready smode sstc (cpu s) \<and> comparator smode sstc (cpu s) = deadline s \<and>
     ticks s = of_nat (length h) \<and> done_flag s = (N_TICKS \<le> length h) \<and>
     running s = turn 3 (length h) \<and>
     current s = (if length h = 0 then - 1 else int ((min (length h) 199 - 1) mod 3)) \<and>
     length (lat s) = N_TICKS \<and> length (swc s) = N_TICKS \<and> length (swt s) = N_TICKS \<and>
     take (length h) (lat s) = latencies mt h \<and>
     take (length h - 1) (swc s) = map cycle_cost (butlast h) \<and>
     take (length h - 1) (swt s) = map mtime_cost (butlast h) \<and>
     swn s = of_nat (length h - 1) \<and> have_prev s = (h \<noteq> []) \<and>
     (h \<noteq> [] \<longrightarrow> g_exit_cycles s - g_entry_cycles s = cycle_cost (last h) \<and>
                g_exit_mtime s - g_entry_mtime s = mtime_cost (last h))"

definition stimer_tick :: "bool \<Rightarrow> tick_in \<Rightarrow> bool" where
  "stimer_tick smode i \<longleftrightarrow> i_cause i = CAUSE_TIMER_IRQ smode"

lemma ssched_fields [simp]:
  "lat (frame_put f tf s) = lat s" "swc (frame_put f tf s) = swc s" "swt (frame_put f tf s) = swt s"
  "use_sstc (frame_put f tf s) = use_sstc s"
  "lat (run_body m s) = lat s" "swc (run_body m s) = swc s" "swt (run_body m s) = swt s"
  "use_sstc (run_body m s) = use_sstc s"
  by (simp_all add: frame_put_def run_body_def split: frame_ref.split)

lemma unat_small: "n \<le> 200 \<Longrightarrow> unat (of_nat n :: u64) = n"
  by (simp add: unat_of_nat)

text \<open>Recording a switch appends it to both arrays.\<close>

lemma push_switch_appends:
  assumes "swn s = of_nat n" "n < N_TICKS" "length (swc s) = N_TICKS" "length (swt s) = N_TICKS"
  shows "\<exists>c t. push_switch s = Some (s\<lparr>swc := c, swt := t, swn := of_nat (Suc n)\<rparr>) \<and>
    length c = N_TICKS \<and> length t = N_TICKS \<and>
    take (Suc n) c = take n (swc s) @ [g_exit_cycles s - g_entry_cycles s] \<and>
    take (Suc n) t = take n (swt s) @ [g_exit_mtime s - g_entry_mtime s]"
proof -
  have "unat (swn s) = n" using assms(1,2) unat_small [of n] by simp
  then show ?thesis
    using assms
    by (intro exI [of _ "(swc s)[n := g_exit_cycles s - g_entry_cycles s]"]
        exI [of _ "(swt s)[n := g_exit_mtime s - g_entry_mtime s]"])
       (simp add: push_switch_def take_Suc_conv_app_nth add.commute)
qed

text \<open>Passing the hart on, with the timer rearmed or, on the last tick, disarmed.\<close>

lemma enter_next_runs:
  assumes "steady (mtime_src s)" "mtime_reads s = 2 * Suc l" "cmp_ready smode (use_sstc s) (cpu s)"
    and "ticks s = of_nat l" "l < N_TICKS" "n_tasks s = 3" "\<not> done_flag s"
    and "current s = (if l = 0 then - 1 else int ((min l 199 - 1) mod 3))"
  shows "\<exists>h' c d m. enter_next smode tf s = Resume (turn 3 (Suc l))
      (s\<lparr>ticks := of_nat (Suc l), done_flag := (200 \<le> Suc l), current := c, deadline := d, mtime_reads := m,
         cpu := h', g_entry_cycles := cycle_at_entry tf, g_entry_mtime := mtime_at_entry tf, have_prev := True\<rparr>) \<and>
    c = int ((min (Suc l) 199 - 1) mod 3) \<and> m = 2 * (min (Suc l) 199 + 1) \<and>
    d = (if Suc l < 200 then mtime_src s (2 * Suc l) + 10000 else - 1) \<and>
    comparator smode (use_sstc s) h' = d \<and> cmp_ready smode (use_sstc s) h'"
proof (cases "200 \<le> Suc l")
  case True
  let ?s = "s\<lparr>ticks := ticks s + 1, done_flag := True\<rparr>"
  from stimer_disarm_parks [of smode ?s] assms(3) obtain h' where
    "stimer_disarm smode ?s = Some (?s\<lparr>deadline := - 1, cpu := h'\<rparr>)"
    "comparator smode (use_sstc s) h' = - 1" "cmp_ready smode (use_sstc s) h'" by auto
  moreover have "l = 199" using True assms(5) by simp
  ultimately show ?thesis using assms(2,4,8)
    by (simp add: enter_next_def Let_def turn_def) (rule exI [of _ h'], cases s, simp)
next
  case False
  let ?s = "s\<lparr>ticks := ticks s + 1\<rparr>"
  have "mtime_reads ?s = 2 * Suc l" "steady (mtime_src ?s)" "cmp_ready smode (use_sstc ?s) (cpu ?s)"
    using assms(1-3) by simp_all
  from stimer_arm_steady [OF this(2,1,3)] obtain h' where
    arm: "stimer_arm smode ?s = Some (?s\<lparr>deadline := mtime_src s (2 * Suc l) + 10000,
       mtime_reads := 2 * Suc l + 2, cpu := h'\<rparr>)"
    "comparator smode (use_sstc s) h' = mtime_src s (2 * Suc l) + 10000" "cmp_ready smode (use_sstc s) h'" by auto
  have "\<not> (200 :: u64) \<le> ticks s + 1" using ticks_reach [OF assms(5)] False assms(4) by simp
  then show ?thesis
    using arm assms(4,6,7) False next_turn(1) [OF assms(5,8)]
    by (simp add: enter_next_def Let_def turn_def add.commute min_def) (rule exI [of _ h'], cases s, simp)
qed


lemma no_switch_yet: "swn s = v \<Longrightarrow> s = s\<lparr>swc := swc s, swt := swt s, swn := v\<rparr>" for s :: ssched
  by (cases s) simp

lemma sinv_tick:
  assumes inv: "sinv smode sstc mt shown h s" and len: "length h < N_TICKS" and cause: "stimer_tick smode i"
  shows "\<exists>s'. stick smode i s = Some s' \<and> sinv smode sstc mt shown (h @ [i]) s'"
proof -
  let ?l = "length h"
  let ?s1 = "frame_put (running s) (frame_of i) (run_body (i_iters i) s)"
  let ?s2 = "?s1\<lparr>cpu := (if smode then trap_to_s else trap_to_m) (i_cause i) (i_epc i) 0 (cpu ?s1)\<rparr>"
  have s: "steady mt" "mtime_src s = mt" "n_tasks s = 3" "map pfn (tasks s) = [0, 1, 2]"
    "length (iters (spins s)) = 3" "\<forall>k < 3. iters (spins s) ! k = of_nat (progress 3 h k)"
    "mtime_reads s = 2 * Suc ?l" "deadline s = mt (2 * ?l) + 10000"
    "ticks s = of_nat ?l" "\<not> done_flag s" "running s = turn 3 ?l"
    "current s = (if ?l = 0 then - 1 else int ((min ?l 199 - 1) mod 3))"
    "use_sstc s = sstc" "cmp_ready smode sstc (cpu s)"
    "length (lat s) = N_TICKS" "length (swc s) = N_TICKS" "length (swt s) = N_TICKS"
    "take ?l (lat s) = latencies mt h" "take (?l - 1) (swc s) = map cycle_cost (butlast h)"
    "take (?l - 1) (swt s) = map mtime_cost (butlast h)"
    "swn s = of_nat (?l - 1)" "have_prev s = (h \<noteq> [])"
    "h \<noteq> [] \<Longrightarrow> g_exit_cycles s - g_entry_cycles s = cycle_cost (last h)"
    "h \<noteq> [] \<Longrightarrow> g_exit_mtime s - g_entry_mtime s = mtime_cost (last h)" "out s = shown"
    using inv len unfolding sinv_def by simp_all
  have lt: "length (tasks s) = 3" using map_pfn_nth [OF s(4), of 0] by simp
  have fr: "frame_at (running s) ?s2 = frame_of i"
  proof -
    have "frame_at (running s) ?s1 = frame_of i"
      by (rule frame_at_put) (use lt s(11) turn_bound in \<open>auto split: frame_ref.split\<close>)
    then show ?thesis by (simp add: frame_at_def split: frame_ref.splits)
  qed
  have ul: "unat (ticks ?s2) = ?l" using s(9) len unat_small [of ?l] by simp
  have cz: "read_cause smode ?s2 = CAUSE_TIMER_IRQ smode" "\<not> (200 :: u64) \<le> ticks ?s2"
    using cause ul len by (auto simp: read_cause_def trap_to_s_def trap_to_m_def stimer_tick_def CSR_CAUSE_def
        word_le_nat_alt)
  define la where "la = (lat s)[?l := i_entry_mtime i - (mt (2 * ?l) + 10000)]"
  have lat': "store_at (lat ?s2) (unat (ticks ?s2)) (mtime_at_entry (frame_of i) - stimer_deadline ?s2) = Some la"
    using s(8,15) len ul by (simp add: la_def frame_of_def stimer_deadline_def)
  have la_ok: "take (Suc ?l) la = latencies mt (h @ [i])" "length la = N_TICKS"
    using s(15,18) len by (simp_all add: la_def take_Suc_conv_app_nth latencies_snoc)
  define s3 where "s3 = ?s2\<lparr>lat := la\<rparr>"
  have f3: "swn s3 = swn s" "swc s3 = swc s" "swt s3 = swt s" "have_prev s3 = have_prev s"
    "g_exit_cycles s3 = g_exit_cycles s" "g_entry_cycles s3 = g_entry_cycles s"
    "g_exit_mtime s3 = g_exit_mtime s" "g_entry_mtime s3 = g_entry_mtime s"
    by (simp_all add: s3_def)
  have "\<exists>c t. (if have_prev s3 then push_switch s3 else Some s3) = Some (s3\<lparr>swc := c, swt := t, swn := of_nat ?l\<rparr>) \<and>
    length c = N_TICKS \<and> length t = N_TICKS \<and> take ?l c = map cycle_cost h \<and> take ?l t = map mtime_cost h"
  proof (cases h rule: rev_cases)
    case Nil
    have "s3 = s3\<lparr>swc := swc s, swt := swt s, swn := of_nat ?l\<rparr>"
      using no_switch_yet [of s3 "of_nat ?l"] s(21) Nil f3 by simp
    with Nil s(16,17,22) f3 show ?thesis by (intro exI [of _ "swc s"] exI [of _ "swt s"]) simp
  next
    case (snoc h0 i0)
    have pre: "swn s3 = of_nat (length h0)" "length h0 < N_TICKS" "length (swc s3) = N_TICKS" "length (swt s3) = N_TICKS"
      using s(16,17,21) snoc len f3 by simp_all
    from push_switch_appends [OF pre] show ?thesis
      using s(19,20,22-24) snoc f3 by (auto simp del: of_nat_Suc)
  qed
  then obtain c t where sw: "(if have_prev s3 then push_switch s3 else Some s3) =
      Some (s3\<lparr>swc := c, swt := t, swn := of_nat ?l\<rparr>)"
    "length c = N_TICKS" "length t = N_TICKS" "take ?l c = map cycle_cost h" "take ?l t = map mtime_cost h"
    by blast
  let ?s4 = "s3\<lparr>swc := c, swt := t, swn := of_nat ?l\<rparr>"
  have pre4: "steady (mtime_src ?s4)" "mtime_reads ?s4 = 2 * Suc ?l" "cmp_ready smode (use_sstc ?s4) (cpu ?s4)"
    "ticks ?s4 = of_nat ?l" "?l < N_TICKS" "n_tasks ?s4 = 3" "\<not> done_flag ?s4"
    "current ?s4 = (if ?l = 0 then - 1 else int ((min ?l 199 - 1) mod 3))"
    using s len by (cases smode; simp add: s3_def)+
  have f4: "mtime_src ?s4 = mt" "use_sstc ?s4 = sstc" "cycle_at_entry (frame_of i) = i_entry_cycle i"
    "mtime_at_entry (frame_of i) = i_entry_mtime i"
    using s(2,13) by (simp_all add: s3_def frame_of_def)
  obtain h' c' d m where next':
    "enter_next smode (frame_of i) ?s4 = Resume (turn 3 (Suc ?l))
      (?s4\<lparr>ticks := of_nat (Suc ?l), done_flag := (200 \<le> Suc ?l), current := c', deadline := d, mtime_reads := m,
         cpu := h', g_entry_cycles := i_entry_cycle i, g_entry_mtime := i_entry_mtime i, have_prev := True\<rparr>)"
    "c' = int ((min (Suc ?l) 199 - 1) mod 3)" "m = 2 * (min (Suc ?l) 199 + 1)"
    "d = (if Suc ?l < 200 then mt (2 * Suc ?l) + 10000 else - 1)"
    "comparator smode sstc h' = d" "cmp_ready smode sstc h'"
    using enter_next_runs [OF pre4, of "frame_of i"] unfolding f4 by blast
  let ?s5 = "?s4\<lparr>ticks := of_nat (Suc ?l), done_flag := (200 \<le> Suc ?l), current := c', deadline := d, mtime_reads := m,
         cpu := h', g_entry_cycles := i_entry_cycle i, g_entry_mtime := i_entry_mtime i, have_prev := True\<rparr>"
  let ?s' = "?s5\<lparr>g_exit_cycles := i_exit_cycle i, g_exit_mtime := i_exit_mtime i,
                      running := turn 3 (Suc ?l), cpu := (if smode then do_sret else do_mret) (cpu ?s5)\<rparr>"
  have "strap_handler smode (running s) ?s2 = Resume (turn 3 (Suc ?l)) ?s5"
    unfolding strap_handler_def Let_def fr lat' option.case s3_def [symmetric] using cz sw(1) next'(1) f3(4)
    by (simp del: of_nat_Suc)
  then have run: "stick smode i s = Some ?s'" by (simp add: stick_def Let_def)
  have pr: "length (iters (spins ?s')) = 3" "\<forall>k < 3. iters (spins ?s') ! k = of_nat (progress 3 (h @ [i]) k)"
    using run_body_progress [OF s(4,5,11,6), of i] by (simp_all add: s3_def)
  have "sinv smode sstc mt shown (h @ [i]) ?s'"
    unfolding sinv_def using s(1-4,13,25) pr la_ok sw(2-5) next'(2-6) len
    by (cases smode; cases "?l < 199"; simp add: cycle_cost_def mtime_cost_def s3_def del: of_nat_Suc)
  with run show ?thesis by blast
qed

interpretation ss: tick_scheduler "stick smode" "sinv smode sstc mt shown" "stimer_tick smode" running done_flag 3
  for smode sstc mt shown
proof
  show "\<exists>s'. stick smode i s = Some s' \<and> sinv smode sstc mt shown (h @ [i]) s'"
    if "sinv smode sstc mt shown h s" "length h < N_TICKS" "stimer_tick smode i" for h s i
    using that by (rule sinv_tick)
qed (auto simp: sinv_def)


subsection \<open>Start and end of a run\<close>

lemma s_registered:
  "stasks_register stk tr (emit ps (ssched_boot sstc mt h)) =
     (emit ps (ssched_boot sstc mt h))\<lparr>n_tasks := 3, tasks :=
       map (\<lambda>(i, nm). \<lparr>ptf = \<lparr>tf_regs = (replicate 32 0)[2 := (stk i + 4096) AND NOT 15],
                  tf_epc = tr, mtime_at_entry = 0, cycle_at_entry = 0\<rparr>, pfn = i, pname = nm\<rparr>)
         [(0, ''spin-a''), (1, ''spin-b''), (2, ''spin-c'')]\<rparr>"
  by (simp add: stasks_register_def stask_create_def ssched_boot_def emit_def Let_def numeral_3_eq_3 numeral_2_eq_2)

lemma cmp_ready_csrs:
  "cmp_ready smode sstc h \<Longrightarrow> cmp_ready smode sstc (csr_write (CSR_SCRATCH smode) a (csr_write (CSR_TVEC smode) v h))"
  "cmp_ready smode sstc h \<Longrightarrow> cmp_ready smode sstc (csr_write (CSR_IE smode) a h)"
  "cmp_ready smode sstc h \<Longrightarrow> cmp_ready smode sstc (csr_write (CSR_STATUS smode) a h)"
  "comparator smode sstc (csr_write (CSR_IE smode) a h) = comparator smode sstc h"
  "comparator smode sstc (csr_write (CSR_STATUS smode) a h) = comparator smode sstc h"
  by (cases smode; simp add: cmp_ready_def service_ready_def plain_csr_def comparator_def machine_simps
      CSR_SCRATCH_def CSR_TVEC_def CSR_IE_def CSR_STATUS_def)+

lemma s_init_inv:
  assumes "steady mt" "cmp_ready smode sstc h"
  shows "\<exists>s. sched_init smode vec btf (stasks_register stk tr (emit ps (ssched_boot sstc mt h))) = Some s \<and>
    sinv smode sstc mt (text_of ps) [] s"
proof -
  let ?s0 = "stasks_register stk tr (emit ps (ssched_boot sstc mt h))"
  let ?s1 = "?s0\<lparr>cpu := csr_write (CSR_SCRATCH smode) btf (csr_write (CSR_TVEC smode) vec (cpu ?s0)),
                 ticks := 0, done_flag := False, have_prev := False, swn := 0\<rparr>"
  have "steady (mtime_src ?s1)" "mtime_reads ?s1 = 2 * 0" "cmp_ready smode (use_sstc ?s1) (cpu ?s1)"
    using assms unfolding s_registered by (simp_all add: emit_def ssched_boot_def cmp_ready_csrs)
  from stimer_arm_steady [OF this] obtain h' where
    arm: "stimer_arm smode ?s1 = Some (?s1\<lparr>deadline := mtime_src ?s1 (2 * 0) + 10000, mtime_reads := 2 * 0 + 2, cpu := h'\<rparr>)"
    "comparator smode (use_sstc ?s1) h' = mtime_src ?s1 (2 * 0) + 10000" "cmp_ready smode (use_sstc ?s1) h'"
    by blast
  show ?thesis
    using assms arm unfolding sched_init_def Let_def s_registered
    by (simp add: sinv_def emit_def ssched_boot_def turn_def latencies_def progress_def
        spinners_boot_def nth_Cons' text_of_def cmp_ready_csrs)
qed

lemma sinv_emit: "sinv smode sstc mt shown h s \<Longrightarrow> sinv smode sstc mt (shown @ text_of ps) h (emit ps s)"
  by (simp add: sinv_def emit_def)

text \<open>The figures of a full sample array.\<close>

lemma figures_full:
  assumes "length a = 200" "length buf = 200"
  shows "figures buf a 200 = Some (Min (set a), (sort a ! 99 + sort a ! 100) div 2, Max (set a))"
proof -
  have u: "unat (200 :: u64) = 200" by simp
  have "min_of a 200 = Some (Min (set a))" "max_of a 200 = Some (Max (set a))"
    "median_of buf a 200 = Some ((sort a ! 99 + sort a ! 100) div 2)"
    using min_of_result [of 200 a] max_of_result [of 200 a] median_of_result [of 200 a buf] assms by simp_all
  then show ?thesis by (simp add: figures_def)
qed

lemma sched_report_runs:
  assumes inv: "sinv smode sstc mt shown h s" and len: "length h = 200"
    and nz: "(sort (map mtime_cost h) ! 99 + sort (map mtime_cost h) ! 100) div 2 \<noteq> 0"
  shows "\<exists>s' rest. sched_report (sched_stop smode s) = Some s' \<and> lat s' = latencies mt h \<and>
    swc s' = map cycle_cost h \<and> swt s' = map mtime_cost h \<and> use_sstc s' = sstc \<and>
    ticks s' = 200 \<and> swn s' = 200 \<and>
    (\<forall>k < 3. stask_iters s' k = of_nat (progress 3 h k)) \<and>
    comparator smode sstc (cpu s') = - 1 \<and>
    out s' = shown @ text_of [Str ''\<newline>smode: done. '', Dec 200, Str '' timer ticks, '', Dec 200,
       Str '' measured context switches\<newline>\<newline>''] @ rest"
proof -
  let ?s = "sched_stop smode s"
  have hne: "h \<noteq> []" using len by auto
  have pre: "swn ?s = of_nat 199" "(199 :: nat) < N_TICKS" "length (swc ?s) = N_TICKS" "length (swt ?s) = N_TICKS"
    using inv len by (simp_all add: sinv_def sched_stop_def)
  obtain c t where push: "push_switch ?s = Some (?s\<lparr>swc := c, swt := t, swn := of_nat (Suc 199)\<rparr>)"
    "length c = N_TICKS" "length t = N_TICKS"
    "take (Suc 199) c = take 199 (swc ?s) @ [g_exit_cycles ?s - g_entry_cycles ?s]"
    "take (Suc 199) t = take 199 (swt ?s) @ [g_exit_mtime ?s - g_entry_mtime ?s]"
    using push_switch_appends [OF pre] by blast
  have c: "c = map cycle_cost h" and t: "t = map mtime_cost h"
    using push(2-5) inv len hne
    by (simp_all add: sinv_def sched_stop_def flip: map_append)
       (metis append_butlast_last_id list.simps(8,9) map_append)+
  have "length (lat s) = 200" "take 200 (lat s) = latencies mt h" using inv len by (simp_all add: sinv_def)
  then have l: "lat ?s = latencies mt h" by (simp add: sched_stop_def)
  have la: "length (lat ?s) = 200" "length c = 200" "length t = 200" using l c t len by (simp_all add: latencies_def)
  define s1 where "s1 = ?s\<lparr>swc := c, swt := t, swn := 200\<rparr>"
  have s1: "s_account_final_switch ?s = Some s1" "ticks s1 = 200" "swn s1 = 200" "lat s1 = lat ?s" "swc s1 = c"
    "swt s1 = t" "out s1 = shown" "use_sstc s1 = sstc" "comparator smode sstc (cpu s1) = - 1"
    "\<forall>k < 3. iters (spins s1) ! k = of_nat (progress 3 h k)"
    using push(1) inv len by (simp_all add: s_account_final_switch_def s1_def sinv_def sched_stop_def cmp_ready_csrs)
  have it: "\<forall>k < 3. stask_iters s1 k = of_nat (progress 3 h k)"
    using s1(10) by (auto simp: stask_iters_def less_Suc_eq numeral_3_eq_3 numeral_2_eq_2)
  have emit_iters: "stask_iters (x\<lparr>out := y\<rparr>) = stask_iters x" for x y by (simp add: stask_iters_def fun_eq_iff)
  let ?fin = "\<lambda>a. figures (replicate 200 0) a 200"
  have fin: "?fin (lat s1) = Some (Min (set (lat s1)), (sort (lat s1) ! 99 + sort (lat s1) ! 100) div 2, Max (set (lat s1)))"
    "?fin c = Some (Min (set c), (sort c ! 99 + sort c ! 100) div 2, Max (set c))"
    "?fin t = Some (Min (set t), (sort t ! 99 + sort t ! 100) div 2, Max (set t))"
    using la s1(4) by (intro figures_full; simp)+
  have ud: "udiv x ((sort t ! 99 + sort t ! 100) div 2) = Some (x div ((sort t ! 99 + sort t ! 100) div 2))" for x
    using nz t by (simp add: udiv_def)
  show ?thesis
    unfolding sched_report_def s1(1) option.case Let_def s1(2,3,5,6) fin prod.case ud
    using s1 it l c t by (simp add: emit_def text_of_def emit_iters)
qed


subsection \<open>Sample arrays under arbitrary traps\<close>

text \<open>
  The states the scheduler goes through under any sequence of traps, with any causes, timer
  reads and stamps, stray ones after the quota included.
\<close>

inductive sreach :: "bool \<Rightarrow> ssched \<Rightarrow> ssched \<Rightarrow> bool" for smode s0 where
  start: "sreach smode s0 s0"
| trap: "sreach smode s0 s \<Longrightarrow> stick smode i s = Some s' \<Longrightarrow> sreach smode s0 s'"

definition samples_ok :: "ssched \<Rightarrow> bool" where
  "samples_ok s \<longleftrightarrow> length (lat s) = N_TICKS \<and> length (swc s) = N_TICKS \<and> length (swt s) = N_TICKS \<and>
     ticks s \<le> 200 \<and> swn s = (if ticks s = 0 then 0 else ticks s - 1) \<and> (have_prev s \<longleftrightarrow> ticks s \<noteq> 0)"

lemma stimer_samples:
  "stimer_arm smode s = Some s' \<Longrightarrow> \<exists>d m h. s' = s\<lparr>deadline := d, mtime_reads := m, cpu := h\<rparr>"
  "stimer_disarm smode s = Some s' \<Longrightarrow> \<exists>d h. s' = s\<lparr>deadline := d, cpu := h\<rparr>"
  by (auto simp: stimer_arm_def stimer_disarm_def split: option.splits) blast+

lemma inc_below: "ticks s < 200 \<Longrightarrow> ticks s + 1 \<le> 200 \<and> ticks s + 1 \<noteq> 0" for s :: ssched
proof -
  assume a: "ticks s < 200"
  then have "unat (ticks s + 1) = unat (ticks s) + 1" by (rule unat_inc_less)
  then have "ticks s + 1 \<noteq> 0" by (metis Suc_eq_plus1 nat.simps(3) unat_0)
  with a show ?thesis by (simp add: inc_le)
qed

lemma enter_next_samples:
  assumes "enter_next smode tf s = Resume f s'"
  shows "lat s' = lat s \<and> swc s' = swc s \<and> swt s' = swt s \<and> swn s' = swn s \<and> ticks s' = ticks s + 1 \<and> have_prev s'"
  using assms
  by (auto simp: enter_next_def Let_def split: if_splits option.splits dest!: stimer_samples)

lemma strap_handler_samples:
  assumes ok: "samples_ok s"
  shows "strap_handler smode old s \<noteq> Overrun \<and>
    (\<forall>f s'. strap_handler smode old s = Resume f s' \<longrightarrow> samples_ok s')"
proof (cases "read_cause smode s = CAUSE_TIMER_IRQ smode \<and> ticks s < 200")
  case False
  then show ?thesis using ok
    by (auto simp: strap_handler_def samples_ok_def not_less split: option.splits dest!: stimer_samples)
next
  case True
  then have t: "unat (ticks s) < 200" by (simp add: word_less_nat_alt)
  define la where "la = (lat s)[unat (ticks s) := mtime_at_entry (frame_at old s) - stimer_deadline s]"
  have st: "store_at (lat s) (unat (ticks s)) (mtime_at_entry (frame_at old s) - stimer_deadline s) = Some la"
    using ok t by (simp add: la_def samples_ok_def)
  have la: "length la = 200" using ok by (simp add: la_def samples_ok_def)
  show ?thesis
  proof (cases "ticks s = 0")
    case zero: True
    then have "strap_handler smode old s = enter_next smode (frame_at old s) (s\<lparr>lat := la\<rparr>)"
      using True ok st by (simp add: strap_handler_def Let_def samples_ok_def flip: not_le)
    moreover have "enter_next smode tf x \<noteq> Overrun" for tf x
      by (auto simp: enter_next_def Let_def split: if_splits option.splits)
    ultimately show ?thesis
      using enter_next_samples [of smode "frame_at old s" "s\<lparr>lat := la\<rparr>"] ok zero la
      by (auto simp: samples_ok_def)
  next
    case nz: False
    have u: "unat (swn s) = unat (ticks s) - 1" using ok nz by (simp add: samples_ok_def unat_minus_one)
    then have b: "unat (swn s) < 200" using t by simp
    obtain c d where push: "push_switch (s\<lparr>lat := la\<rparr>) = Some (s\<lparr>lat := la, swc := c, swt := d, swn := swn s + 1\<rparr>)"
      "length c = 200" "length d = 200"
      using ok b by (auto simp: push_switch_def samples_ok_def)
    let ?s = "s\<lparr>lat := la, swc := c, swt := d, swn := swn s + 1\<rparr>"
    have "strap_handler smode old s = enter_next smode (frame_at old s) ?s"
      using True ok nz push(1) st by (simp add: strap_handler_def Let_def samples_ok_def flip: not_le)
    moreover have "enter_next smode tf x \<noteq> Overrun" for tf x
      by (auto simp: enter_next_def Let_def split: if_splits option.splits)
    ultimately show ?thesis
      using enter_next_samples [of smode "frame_at old s" ?s] ok nz la push(2,3) inc_below [of s] True
      by (auto simp: samples_ok_def)
  qed
qed

lemma sreach_samples: "sreach smode s0 s \<Longrightarrow> samples_ok s0 \<Longrightarrow> samples_ok s"
proof (induction rule: sreach.induct)
  case (trap s i s')
  let ?s1 = "frame_put (running s) (frame_of i) (run_body (i_iters i) s)"
  let ?s2 = "?s1\<lparr>cpu := (if smode then trap_to_s else trap_to_m) (i_cause i) (i_epc i) 0 (cpu ?s1)\<rparr>"
  have "samples_ok ?s2" using trap by (simp add: samples_ok_def)
  from strap_handler_samples [OF this, of smode "running s"] trap(2) show ?case
    by (auto simp: stick_def Let_def samples_ok_def split: served.splits)
qed

lemma init_samples:
  assumes "sched_init smode vec btf s = Some s0" "length (lat s) = 200" "length (swc s) = 200" "length (swt s) = 200"
  shows "samples_ok s0"
  using assms by (auto simp: sched_init_def Let_def samples_ok_def split: option.splits dest!: stimer_samples)


subsection \<open>Properties\<close>

text \<open>
  C14. In both builds, and with either timer of the S-mode build, \<open>main\<close> runs to its end on 200
  timer ticks, whatever ticks would follow: the arrays then hold the latency of every tick and
  the cost of every switch, the last one included, in order; the report states 200 ticks and 200
  switches; each task's counter is the iterations of the slices in which it was its turn; and
  the comparator is parked at the far future. (The report divides by the median switch time,
  which has to be at least one timer tick.)
\<close>

theorem smain_reports_run:
  assumes "steady mt" "cmp_ready smode sstc h" "list_all (stimer_tick smode) is" "length is = N_TICKS"
    and "(sort (map mtime_cost is) ! 99 + sort (map mtime_cost is) ! 100) div 2 \<noteq> 0"
  shows "\<exists>s rest. smain smode stk tr vec btf (is @ later) (ssched_boot sstc mt h) = Some s \<and>
    out s = text_of (smain_banner smode sstc @ [Str ''timer armed, waiting for ticks...\<newline>'',
        Str ''\<newline>smode: done. '', Dec 200, Str '' timer ticks, '', Dec 200,
        Str '' measured context switches\<newline>\<newline>'']) @ rest \<and>
    lat s = latencies mt is \<and> swc s = map cycle_cost is \<and> swt s = map mtime_cost is \<and>
    (\<forall>k < 3. stask_iters s k = of_nat (progress 3 is k)) \<and> comparator smode sstc (cpu s) = - 1"
proof -
  let ?ban = "smain_banner smode sstc"
  let ?arm = "[Str ''timer armed, waiting for ticks...\<newline>'']"
  let ?done = "[Str ''\<newline>smode: done. '', Dec 200, Str '' timer ticks, '', Dec 200,
       Str '' measured context switches\<newline>\<newline>'']"
  have u: "use_sstc (ssched_boot sstc mt h) = sstc" by (simp add: ssched_boot_def)
  obtain s1 where s1: "sched_init smode vec btf (stasks_register stk tr (emit ?ban (ssched_boot sstc mt h))) = Some s1"
    "sinv smode sstc mt (text_of ?ban) [] s1" using s_init_inv [OF assms(1,2)] by blast
  obtain s2 where s2: "sched_wait smode (is @ later) (emit ?arm s1) = Some s2"
    "sinv smode sstc mt (text_of ?ban @ text_of ?arm) is s2"
    using ss.wait_done_run [OF sinv_emit [OF s1(2), of ?arm], of "is" later] assms(3,4)
    by (auto simp: sched_wait_def)
  obtain s3 rest where s3: "sched_report (sched_stop smode s2) = Some s3" "lat s3 = latencies mt is"
    "swc s3 = map cycle_cost is" "swt s3 = map mtime_cost is"
    "\<forall>k < 3. stask_iters s3 k = of_nat (progress 3 is k)" "comparator smode sstc (cpu s3) = - 1"
    "out s3 = (text_of ?ban @ text_of ?arm) @ text_of ?done @ rest"
    using sched_report_runs [OF s2(2) assms(4,5)] by blast
  let ?s = "emit [Str ''\<newline>halting.\<newline>''] s3"
  have "smain smode stk tr vec btf (is @ later) (ssched_boot sstc mt h) = Some ?s"
    unfolding smain_def u s1(1) option.case s2(1) s3(1) ..
  moreover have "out ?s = text_of (?ban @ ?arm @ ?done) @ rest @ text_of [Str ''\<newline>halting.\<newline>'']"
    unfolding text_of_append using s3(7) by (simp add: emit_def)
  moreover have "lat ?s = lat s3" "swc ?s = swc s3" "swt ?s = swt s3" "cpu ?s = cpu s3" "stask_iters ?s = stask_iters s3"
    by (simp_all add: emit_def fun_eq_iff stask_iters_def)
  ultimately show ?thesis using s3(2-6) by auto
qed

definition demo_stick :: "bool \<Rightarrow> tick_in" where
  "demo_stick smode = \<lparr>i_iters = 40, i_cause = CAUSE_TIMER_IRQ smode, i_regs = replicate 32 0, i_epc = 0,
     i_entry_mtime = 10007, i_entry_cycle = 500, i_exit_cycle = 620, i_exit_mtime = 10009\<rparr>"

theorem smain_reports_run_witness:
  "\<exists>s. smain True (\<lambda>i. 0x80040000) 0x80000800 0x80000000 0x80010000 (replicate 200 (demo_stick True))
       (ssched_boot False (\<lambda>_. 0) ecall_hart) = Some s \<and> swc s = replicate 200 120"
proof -
  let ?is = "replicate 200 (demo_stick True)"
  have st: "steady (\<lambda>_. 0)" by (simp add: steady_def)
  have r: "cmp_ready True False ecall_hart"
    by (simp add: cmp_ready_def service_ready_def ecall_hart_def plain_csr_def aligned8_def)
  have v: "list_all (stimer_tick True) ?is" "length ?is = N_TICKS"
    by (simp_all add: stimer_tick_def demo_stick_def list_all_iff)
  have c: "map mtime_cost ?is = replicate 200 2" "map cycle_cost ?is = replicate 200 120"
    by (simp_all add: mtime_cost_def cycle_cost_def demo_stick_def)
  have "sort (replicate 200 (2 :: u64)) = replicate 200 2" by (rule sorted_sort_id) simp
  then have "(sort (map mtime_cost ?is) ! 99 + sort (map mtime_cost ?is) ! 100) div 2 \<noteq> 0"
    unfolding c(1) by simp
  from smain_reports_run [OF st r v this, where stk = "\<lambda>i. 0x80040000" and tr = "0x80000800" and
      vec = "0x80000000" and btf = "0x80010000" and later = "[]"] c(2)
  show ?thesis by auto
qed

text \<open>
  C15. The sample arrays are never overrun: in every state reachable from \<open>sched_init\<close> by any
  traps, with any causes, stamps and timer values, ticks beyond the quota included, the handler
  does not store outside an array, and neither does the accounting of the final switch.
\<close>

theorem smode_samples_in_bounds:
  assumes "sched_init smode vec btf s = Some s0"
    and "length (lat s) = N_TICKS" "length (swc s) = N_TICKS" "length (swt s) = N_TICKS"
    and "sreach smode s0 s1"
  shows "strap_handler smode old (s1\<lparr>cpu := c\<rparr>) \<noteq> Overrun \<and> s_account_final_switch s1 \<noteq> None"
proof -
  have ok: "samples_ok s1" using sreach_samples [OF assms(5) init_samples [OF assms(1-4)]] .
  then have "samples_ok (s1\<lparr>cpu := c\<rparr>)" by (simp add: samples_ok_def)
  moreover have "unat (swn s1) < 200"
  proof (cases "ticks s1 = 0")
    case False
    have "unat (ticks s1) \<le> 200" using ok by (simp add: samples_ok_def word_le_nat_alt)
    moreover have "unat (ticks s1) \<noteq> 0" using False by (simp add: unat_eq_0)
    moreover have "unat (swn s1) = unat (ticks s1) - 1" using ok False by (simp add: samples_ok_def unat_minus_one)
    ultimately show ?thesis by linarith
  qed (use ok in \<open>simp add: samples_ok_def\<close>)
  then have "s_account_final_switch s1 \<noteq> None"
    using ok by (simp add: s_account_final_switch_def push_switch_def samples_ok_def)
  ultimately show ?thesis using strap_handler_samples by blast
qed

theorem smode_samples_in_bounds_witness:
  "\<exists>s0. sched_init False 0x80000000 0x80010000
       (stasks_register (\<lambda>i. 0x80040000) 0x80000800 (emit [] (ssched_boot False (\<lambda>_. 0) ecall_hart))) = Some s0 \<and>
     strap_handler False BootFrame (s0\<lparr>cpu := ecall_hart\<rparr>) \<noteq> Overrun"
proof -
  let ?b = "stasks_register (\<lambda>i. 0x80040000) 0x80000800 (emit [] (ssched_boot False (\<lambda>_. 0) ecall_hart))"
  have "steady (\<lambda>_. 0)" "cmp_ready False False ecall_hart" by (simp_all add: steady_def cmp_ready_def)
  from s_init_inv [OF this] obtain s0 where s0: "sched_init False 0x80000000 0x80010000 ?b = Some s0" by blast
  have l: "length (lat ?b) = N_TICKS" "length (swc ?b) = N_TICKS" "length (swt ?b) = N_TICKS"
    unfolding s_registered by (simp_all add: ssched_boot_def emit_def)
  from smode_samples_in_bounds [OF s0 l sreach.start, of BootFrame ecall_hart] s0 show ?thesis by blast
qed

text \<open>
  C17. Without Sstc the S-mode build has no tick source. After \<open>m_boot\<close> on a hart whose
  \<open>menvcfg.STCE\<close> does not stick, and after \<open>sched_init\<close>, the deadline is in \<open>mtimecmp\<close>, but the
  machine timer interrupt stays disabled (\<open>mie.MTIE\<close> is as clear as before the boot) and \<open>mip\<close>
  is as it was: nothing in the program turns the expired \<open>mtimecmp\<close> into the supervisor timer
  interrupt the scheduler waits for, and no later rearm changes either register.
\<close>

theorem smode_fallback_has_no_tick:
  assumes "\<And>c. c \<noteq> Menvcfg \<Longrightarrow> plain_csr h c" "m_boot True y h = (False, h1)" "\<not> bit (csrf h Mie) 7"
    and "service_ready h1" "cpu s = h1" "\<not> use_sstc s" "sched_init True vec btf s = Some s0"
  shows "ram (cpu s0) CLINT_MTIMECMP = deadline s0 \<and> \<not> bit (csrf (cpu s0) Mie) 7 \<and>
    csrf (cpu s0) Mip = csrf h Mip \<and>
    (\<forall>d h2. set_comparator True False d (cpu s0) = Some h2 \<longrightarrow>
       csrf h2 Mie = csrf (cpu s0) Mie \<and> csrf h2 Mip = csrf (cpu s0) Mip)"
proof -
  have b: "csrf h1 Mideleg = 0x222" "csrf h1 Mie = csrf h Mie" "csrf h1 Mip = csrf h Mip" "legal h1 = legal h"
    using m_boot_effect [OF assms(1,2)] by auto
  have pl: "legal h1 c old v = v" if "c \<noteq> Menvcfg" for c old v
    using assms(1) [OF that] b(4) by (simp add: plain_csr_def)
  let ?h2 = "csr_write Sscratch btf (csr_write Stvec vec h1)"
  have r2: "cmp_ready True False ?h2"
    using assms(4) by (simp add: cmp_ready_def service_ready_def plain_csr_def machine_simps)
  obtain d n h3 where arm: "set_comparator True False d ?h2 = Some h3" "deadline s0 = d"
    "cpu s0 = csr_write Sstatus (csr_read Sstatus (csr_write Sie (csr_read Sie h3 OR 0x20) h3) OR 2)
       (csr_write Sie (csr_read Sie h3 OR 0x20) h3)"
    using assms(5-7) by (auto simp: sched_init_def Let_def stimer_arm_def CSR_SCRATCH_def CSR_TVEC_def CSR_IE_def
        CSR_STATUS_def IE_TIE_def STATUS_IE_def split: option.splits)
  from set_comparator_sets [OF r2, of d] arm(1) have h3: "ram h3 0x02004000 = d" "cmp_ready True False h3"
    "\<forall>c. c \<notin> {Mstatus, Mepc, Mcause, Mtval, Stimecmp} \<longrightarrow> csrf h3 c = csrf ?h2 c" "legal h3 = legal h1"
    by (auto simp: comparator_def machine_simps)
  have m: "csrf h3 Mideleg = 0x222" "csrf h3 Mie = csrf h Mie" "csrf h3 Mip = csrf h Mip"
    using h3(3) b by (simp_all add: machine_simps)
  have s0: "ram (cpu s0) = ram h3" "csrf (cpu s0) Mip = csrf h Mip" "legal (cpu s0) = legal h1"
    "csrf (cpu s0) Mscratch = csrf h3 Mscratch"
    "csrf (cpu s0) Mie = (csrf h Mie AND NOT 0x222) OR ((csrf h Mie AND 0x222) OR 0x20) AND 0x222"
    unfolding arm(3) using m h3(4) pl by (simp_all add: machine_simps)
  have "cmp_ready True False (cpu s0)" using h3(2) s0(3,4) h3(4) cmp_ready_cong [of "cpu s0" h3] by simp
  then have "csrf h2 Mie = csrf (cpu s0) Mie \<and> csrf h2 Mip = csrf (cpu s0) Mip"
    if "set_comparator True False e (cpu s0) = Some h2" for e h2
    using set_comparator_sets [of True False "cpu s0" e] that by auto
  moreover have "\<not> bit (csrf (cpu s0) Mie) 7" unfolding s0(5) using assms(3) by (simp add: bit_simps)
  ultimately show ?thesis using s0(1,2) h3(1) arm(2) by simp
qed

definition nosstc_hart :: hart where
  "nosstc_hart = ecall_hart\<lparr>legal := (\<lambda>c old v. if c = Menvcfg then 0 else v)\<rparr>"

theorem smode_fallback_has_no_tick_witness:
  "\<exists>h1 s0. m_boot True demo_syms nosstc_hart = (False, h1) \<and>
     sched_init True 0x80000100 0x80010000
       (stasks_register (\<lambda>i. 0x80040000) 0x80000800 (emit [] (ssched_boot False (\<lambda>_. 0) h1))) = Some s0 \<and>
     \<not> bit (csrf (cpu s0) Mie) 7"
proof -
  have pl: "plain_csr nosstc_hart c" if "c \<noteq> Menvcfg" for c
    using that by (simp add: plain_csr_def nosstc_hart_def ecall_hart_def)
  have no: "fst (m_boot True demo_syms nosstc_hart) = False"
    by (simp add: m_boot_def Let_def csr_set_menvcfg_def csr_read_menvcfg_def machine_simps nosstc_hart_def)
  then obtain h1 where h1: "m_boot True demo_syms nosstc_hart = (False, h1)" by (metis prod.collapse)
  have "csrf h1 Mscratch = 0x80020000" "legal h1 = legal nosstc_hart"
    using m_boot_effect [OF pl h1] by (simp_all add: demo_syms_def)
  then have r: "service_ready h1"
    using pl [of Mscratch] by (simp add: service_ready_def plain_csr_def aligned8_def)
  let ?b = "stasks_register (\<lambda>i. 0x80040000) 0x80000800 (emit [] (ssched_boot False (\<lambda>_. 0) h1))"
  have "steady (\<lambda>_. 0)" "cmp_ready True False h1" using r by (simp_all add: steady_def cmp_ready_def)
  from s_init_inv [OF this] obtain s0 where s0: "sched_init True 0x80000100 0x80010000 ?b = Some s0" by blast
  have f: "cpu ?b = h1" "\<not> use_sstc ?b" "\<not> bit (csrf nosstc_hart Mie) 7"
    unfolding s_registered by (simp_all add: ssched_boot_def emit_def nosstc_hart_def ecall_hart_def)
  from smode_fallback_has_no_tick [OF pl h1 f(3) r f(1,2) s0] h1 s0 show ?thesis by blast
qed

end
