(* ===== verification/Smp.thy ===== *)
theory Smp
  imports Uart
begin

text \<open>
  \<open>src/src/smp/\<close>: two harts, an \<open>amoswap\<close> spinlock around every UART line (\<open>spinlock.c\<close>,
  \<open>smp_print.c\<close>), the primary hart (\<open>smp_main.c\<close>) and the secondary one (\<open>hart1.c\<close>), with the
  start-up protocol of \<open>smp_boot.S\<close>. The harts' atomic steps interleave arbitrarily: the atomic
  swap, the byte-wise UART output, the accesses to shared variables. Memory is sequentially
  consistent, which is what the fences and the acquire swap provide for these variables.
\<close>

unbundle bit_operations_syntax

abbreviation (input) HART_STACK_SIZE :: u64 where "HART_STACK_SIZE \<equiv> 4096"
abbreviation (input) HART1_TIMEOUT_CYCLES :: u64 where "HART1_TIMEOUT_CYCLES \<equiv> 15000000000"


subsection \<open>Shared state\<close>

text \<open>
  \<open>wire\<close> records who sent which byte. \<open>cycles n\<close> is what read number \<open>n\<close> of the cycle counter
  returns. The last five fields are the locals of the two entry points.
\<close>

record smp =
  uart_lock :: u32
  wire :: "(nat \<times> char) list"
  smp_release :: bool
  hart1_done :: bool
  t_release_cycles :: u64
  t1_entry_cycles :: u64
  t1_printed_cycles :: u64
  t1_sp :: u64
  cycles :: "nat \<Rightarrow> u64"
  cycle_reads :: nat
  sp_of :: "nat \<Rightarrow> u64"
  hart_stacks :: u64
  v_hartid0 :: u64
  v_sp0 :: u64
  v_done :: u64
  v_hartid1 :: u64
  v_sp1 :: u64

text \<open>
  What a hart still has to do. \<open>Lock\<close> is \<open>spin_lock\<close> before its \<open>li\<close>, \<open>Swap\<close> its loop at the
  \<open>amoswap\<close>, \<open>Byte\<close> one byte of UART output, \<open>Unlock\<close> the store of \<open>spin_unlock\<close>. \<open>Print\<close> is a
  call of one of the locked helpers with its arguments still to be evaluated, \<open>Act\<close> an access to
  shared variables, \<open>WaitRelease\<close> and \<open>WaitDone\<close> the two polling loops, \<open>Unless\<close> the
  \<open>if (!hart1_done)\<close> with its body, \<open>Park\<close> the \<open>wfi\<close> loop.
\<close>

datatype op =
    Lock | Swap | Byte char | Unlock
  | Print "smp \<Rightarrow> piece list"
  | Act "smp \<Rightarrow> smp"
  | WaitRelease | WaitDone | Unless "op list" | Park

record system = smp +
  prog :: "nat \<Rightarrow> op list"
  old_reg :: "nat \<Rightarrow> u32"


subsection \<open>spinlock.c\<close>

text \<open>\<open>amoswap.w.aq old, old, (l)\<close>: the register and the lock word change places in one step.\<close>

definition amoswap :: "nat \<Rightarrow> system \<Rightarrow> system" where
  "amoswap i s = s\<lparr>uart_lock := old_reg s i, old_reg := (old_reg s)(i := uart_lock s)\<rparr>"

definition spin_lock :: "op list" where "spin_lock = [Lock]"
definition spin_unlock :: "op list" where "spin_unlock = [Unlock]"


subsection \<open>smp_print.c\<close>

definition locked_puts :: "string \<Rightarrow> op" where
  "locked_puts t = Print (\<lambda>_. [Str t])"

definition locked_print_kv :: "string \<Rightarrow> (smp \<Rightarrow> u64) \<Rightarrow> bool \<Rightarrow> op" where
  "locked_print_kv label v hex =
     Print (\<lambda>s. [Str label, Chr CHR ''='', if hex then Hex (v s) else Dec (v s), Chr LF])"

definition locked_print_line2 :: "string \<Rightarrow> (smp \<Rightarrow> u64) \<Rightarrow> string \<Rightarrow> (smp \<Rightarrow> u64) \<Rightarrow> bool \<Rightarrow> op" where
  "locked_print_line2 a va b vb hex =
     Print (\<lambda>s. [Str a, Chr CHR ''='', if hex then Hex (va s) else Dec (va s), Chr CHR '' '',
                 Str b, Chr CHR ''='', if hex then Hex (vb s) else Dec (vb s), Chr LF])"

text \<open>The body of such a call: the whole text between lock and unlock.\<close>

definition locked_call :: "piece list \<Rightarrow> op list" where
  "locked_call ps = spin_lock @ map Byte (crlf (text_of ps)) @ spin_unlock"


subsection \<open>hart1.c and smp_main.c\<close>

definition rdcycle :: "smp \<Rightarrow> u64 \<times> smp" where
  "rdcycle s = (cycles s (cycle_reads s), s\<lparr>cycle_reads := Suc (cycle_reads s)\<rparr>)"

definition stack_base :: "nat \<Rightarrow> smp \<Rightarrow> u64" where
  "stack_base i s = hart_stacks s + of_nat i * HART_STACK_SIZE"

definition hart1_main :: "op list" where
  "hart1_main =
    [Act (\<lambda>s. let (t, s) = rdcycle s in s\<lparr>t1_entry_cycles := t\<rparr>),
     Act (\<lambda>s. s\<lparr>v_hartid1 := 1\<rparr>),
     Act (\<lambda>s. s\<lparr>v_sp1 := sp_of s 1\<rparr>),
     Act (\<lambda>s. s\<lparr>t1_sp := v_sp1 s\<rparr>),
     locked_puts ''hart1: secondary hart alive\<newline>'',
     locked_print_kv ''hart1: mhartid'' v_hartid1 False,
     locked_print_line2 ''hart1: stack_base'' (stack_base 1) ''stack_top'' (\<lambda>s. stack_base 1 s + HART_STACK_SIZE) True,
     locked_print_kv ''hart1: sp'' v_sp1 True,
     Act (\<lambda>s. let (t, s) = rdcycle s in s\<lparr>t1_printed_cycles := t\<rparr>),
     Act (\<lambda>s. s\<lparr>hart1_done := True\<rparr>),
     Park]"

text \<open>The stack checks at the end of \<open>smp_main\<close>.\<close>

definition stacks_disjoint :: "smp \<Rightarrow> bool" where
  "stacks_disjoint s \<longleftrightarrow>
     stack_base 0 s + HART_STACK_SIZE \<le> stack_base 1 s \<or> stack_base 1 s + HART_STACK_SIZE \<le> stack_base 0 s"

definition sp_in_slice :: "nat \<Rightarrow> u64 \<Rightarrow> smp \<Rightarrow> bool" where
  "sp_in_slice i sp s \<longleftrightarrow> stack_base i s \<le> sp \<and> sp \<le> stack_base i s + HART_STACK_SIZE"

definition smp_main :: "op list" where
  "smp_main =
    [locked_puts ''smp: 2-hart bring-up on QEMU virt\<newline>'',
     Act (\<lambda>s. s\<lparr>v_hartid0 := 0\<rparr>),
     locked_print_kv ''hart0: mhartid'' v_hartid0 False,
     Act (\<lambda>s. s\<lparr>v_sp0 := sp_of s 0\<rparr>),
     locked_print_line2 ''hart0: stack_base'' (stack_base 0) ''stack_top'' (\<lambda>s. stack_base 0 s + HART_STACK_SIZE) True,
     locked_print_kv ''hart0: sp'' v_sp0 True,
     Act (\<lambda>s. let (t, s) = rdcycle s in s\<lparr>t_release_cycles := t\<rparr>),
     Act (\<lambda>s. s\<lparr>smp_release := True\<rparr>),
     locked_puts ''hart0: released hart 1\<newline>'',
     WaitDone,
     Unless [locked_puts ''hart0: TIMEOUT waiting for hart 1\<newline>'', Park],
     Act (\<lambda>s. let (t, s) = rdcycle s in s\<lparr>v_done := t\<rparr>),
     locked_puts ''smp: verification report\<newline>'',
     locked_print_kv ''hart0: release_cycles'' t_release_cycles False,
     locked_print_kv ''hart1: entry_cycles'' t1_entry_cycles False,
     locked_print_kv ''hart1: printed_cycles'' t1_printed_cycles False,
     locked_print_kv ''hart0: done_cycles'' v_done False,
     locked_print_kv ''bring-up latency (release->hart1 entry), cycles''
       (\<lambda>s. t1_entry_cycles s - t_release_cycles s) False,
     locked_print_kv ''hart1 entry->print done, cycles'' (\<lambda>s. t1_printed_cycles s - t1_entry_cycles s) False,
     locked_print_kv ''stack slices disjoint (1=yes)'' (\<lambda>s. of_bool (stacks_disjoint s)) False,
     locked_print_kv ''hart0 sp in own slice (1=yes)'' (\<lambda>s. of_bool (sp_in_slice 0 (v_sp0 s) s)) False,
     locked_print_kv ''hart1 sp in own slice (1=yes)'' (\<lambda>s. of_bool (sp_in_slice 1 (t1_sp s) s)) False,
     locked_puts ''smp: both harts ran, done\<newline>'',
     Park]"


subsection \<open>Steps of a hart\<close>

text \<open>The stack pointer \<open>smp_boot.S\<close> installs: the top of the hart's own slice.\<close>

definition boot_sp :: "nat \<Rightarrow> u64 \<Rightarrow> u64" where
  "boot_sp i stacks = stacks + (of_nat i + 1) * HART_STACK_SIZE"

definition set_prog :: "nat \<Rightarrow> op list \<Rightarrow> system \<Rightarrow> system" where
  "set_prog i p s = s\<lparr>prog := (prog s)(i := p)\<rparr>"

text \<open>An action on the variables, inside the system.\<close>

definition on_smp :: "(smp \<Rightarrow> smp) \<Rightarrow> system \<Rightarrow> system" where
  "on_smp f s = smp.extend (f (smp.truncate s)) \<lparr>prog = prog s, old_reg = old_reg s\<rparr>"

text \<open>
  One step of hart \<open>i\<close>. A polling loop that does not end stays where it is; \<open>Park\<close> has no step.
  \<open>WaitDone\<close> reads the flag and, if it is clear, the cycle counter, as \<open>&&\<close> does.
\<close>

fun hart_step :: "nat \<Rightarrow> system \<Rightarrow> system option" where
  "hart_step i s =
     (case prog s i of
        [] \<Rightarrow> None
      | Lock # p \<Rightarrow> Some (set_prog i (Swap # p) (s\<lparr>old_reg := (old_reg s)(i := 1)\<rparr>))
      | Swap # p \<Rightarrow>
          (let s' = amoswap i s in
           Some (if old_reg s' i \<noteq> 0 then s' else set_prog i p s'))
      | Byte c # p \<Rightarrow> Some (set_prog i p (s\<lparr>wire := wire s @ [(i, c)]\<rparr>))
      | Unlock # p \<Rightarrow> Some (set_prog i p (s\<lparr>uart_lock := 0\<rparr>))
      | Print f # p \<Rightarrow> Some (set_prog i (locked_call (f (smp.truncate s)) @ p) s)
      | Act f # p \<Rightarrow> Some (set_prog i p (on_smp f s))
      | WaitRelease # p \<Rightarrow> Some (if smp_release s then set_prog i p s else s)
      | WaitDone # p \<Rightarrow>
          Some (if hart1_done s then set_prog i p s
                else let s' = s\<lparr>cycle_reads := Suc (cycle_reads s)\<rparr> in
                     if cycles s (cycle_reads s) < t_release_cycles s + HART1_TIMEOUT_CYCLES then s'
                     else set_prog i p s')
      | Unless q # p \<Rightarrow> Some (set_prog i (if hart1_done s then p else q) s)
      | Park # p \<Rightarrow> None)"

text \<open>\<open>smp_boot.S\<close>: hart 0 runs \<open>smp_main\<close>, hart 1 waits for the release flag first.\<close>

definition smp_boot :: "(nat \<Rightarrow> u64) \<Rightarrow> (nat \<Rightarrow> u64) \<Rightarrow> u64 \<Rightarrow> system" where
  "smp_boot cyc sps stacks =
     \<lparr>uart_lock = 0, wire = [], smp_release = False, hart1_done = False, t_release_cycles = 0,
      t1_entry_cycles = 0, t1_printed_cycles = 0, t1_sp = 0, cycles = cyc, cycle_reads = 0,
      sp_of = sps, hart_stacks = stacks, v_hartid0 = 0, v_sp0 = 0, v_done = 0, v_hartid1 = 0, v_sp1 = 0,
      prog = (\<lambda>i. if i = 0 then smp_main else if i = 1 then WaitRelease # hart1_main else []),
      old_reg = (\<lambda>_. 0)\<rparr>"

inductive smp_reach :: "system \<Rightarrow> system \<Rightarrow> bool" for s0 where
  boot: "smp_reach s0 s0"
| step: "smp_reach s0 s \<Longrightarrow> i < 2 \<Longrightarrow> hart_step i s = Some s' \<Longrightarrow> smp_reach s0 s'"

declare hart_step.simps [simp del]


subsection \<open>The lock invariant\<close>

text \<open>A sequence of whole calls: every text it can print is a line, its actions leave lock and wire alone.\<close>

fun calm_op :: "op \<Rightarrow> bool" where
  "calm_op (Print f) \<longleftrightarrow> (\<forall>s. text_of (f s) \<noteq> [] \<and> last (text_of (f s)) = LF)"
| "calm_op (Act f) \<longleftrightarrow> (\<forall>s. uart_lock (f s) = uart_lock s \<and> wire (f s) = wire s)"
| "calm_op (Unless q) \<longleftrightarrow> list_all calm_op q"
| "calm_op WaitRelease \<longleftrightarrow> True"
| "calm_op WaitDone \<longleftrightarrow> True"
| "calm_op Park \<longleftrightarrow> True"
| "calm_op _ \<longleftrightarrow> False"

abbreviation calm :: "op list \<Rightarrow> bool" where "calm p \<equiv> list_all calm_op p"

text \<open>Holding the lock with \<open>t\<close> still to be sent; asking for it; the shapes a program has.\<close>

definition body :: "string \<Rightarrow> op list \<Rightarrow> op list" where
  "body t q = map Byte t @ Unlock # q"

definition inside :: "op list \<Rightarrow> string \<Rightarrow> bool" where
  "inside p t \<longleftrightarrow> (\<exists>q. p = body t q \<and> calm q \<and> (t = [] \<or> last t = LF))"

definition wants :: "op list \<Rightarrow> bool" where
  "wants p \<longleftrightarrow> (\<exists>t q. (p = Lock # body t q \<or> p = Swap # body t q) \<and> calm q \<and> t \<noteq> [] \<and> last t = LF)"

definition holds_lock :: "op list \<Rightarrow> bool" where
  "holds_lock p \<longleftrightarrow> (\<exists>t. inside p t)"

definition line_end :: "(nat \<times> char) list \<Rightarrow> bool" where
  "line_end w \<longleftrightarrow> w = [] \<or> snd (last w) = LF"

text \<open>The writer changes only after a newline.\<close>

definition unmixed :: "(nat \<times> char) list \<Rightarrow> bool" where
  "unmixed w \<longleftrightarrow> (\<forall>k. Suc k < length w \<longrightarrow> fst (w ! k) = fst (w ! Suc k) \<or> snd (w ! k) = LF)"

definition smp_inv :: "system \<Rightarrow> bool" where
  "smp_inv s \<longleftrightarrow>
     (\<forall>i < 2. calm (prog s i) \<or> wants (prog s i) \<or> holds_lock (prog s i)) \<and>
     (\<forall>i < 2. prog s i \<noteq> [] \<and> hd (prog s i) = Swap \<longrightarrow> old_reg s i = 1) \<and>
     unmixed (wire s) \<and>
     (if uart_lock s = 0 then (\<forall>i < 2. \<not> holds_lock (prog s i)) \<and> line_end (wire s)
      else uart_lock s = 1 \<and> (\<exists>i < 2. \<exists>t. inside (prog s i) t \<and>
        (\<forall>j < 2. j \<noteq> i \<longrightarrow> \<not> holds_lock (prog s j)) \<and>
        (t = [] \<longrightarrow> line_end (wire s)) \<and> (line_end (wire s) \<or> fst (last (wire s)) = i)))"

lemma calm_not_inside: "calm p \<Longrightarrow> \<not> inside p t"
  by (cases t) (auto simp: inside_def body_def)

lemma calm_not_wants: "calm p \<Longrightarrow> \<not> wants p"
  by (auto simp: wants_def)

lemma wants_not_inside: "wants p \<Longrightarrow> \<not> inside p t"
  by (cases t) (auto simp: wants_def inside_def body_def)

lemma not_holding: "calm p \<or> wants p \<Longrightarrow> \<not> holds_lock p"
  using calm_not_inside wants_not_inside by (auto simp: holds_lock_def)

lemma body_inj: "body t q = body t' q' \<longleftrightarrow> t = t' \<and> q = q'"
proof (induction t arbitrary: t')
  case Nil
  then show ?case by (cases t') (auto simp: body_def)
next
  case (Cons c t)
  then show ?case by (cases t') (auto simp: body_def)
qed

lemma unmixed_snoc:
  assumes "unmixed w" "line_end w \<or> fst (last w) = i"
  shows "unmixed (w @ [(i, c)])"
  unfolding unmixed_def
proof (intro allI impI)
  fix k
  assume k: "Suc k < length (w @ [(i, c)])"
  show "fst ((w @ [(i, c)]) ! k) = fst ((w @ [(i, c)]) ! Suc k) \<or> snd ((w @ [(i, c)]) ! k) = LF"
  proof (cases "Suc k = length w")
    case True
    then have "w \<noteq> []" by auto
    then have "last w = w ! k" using True by (metis diff_Suc_1 last_conv_nth)
    with True assms(2) show ?thesis by (auto simp: nth_append line_end_def)
  next
    case False
    with k assms(1) show ?thesis by (simp add: nth_append unmixed_def)
  qed
qed

lemma crlf_line: "t \<noteq> [] \<Longrightarrow> last t = LF \<Longrightarrow> crlf t \<noteq> [] \<and> last (crlf t) = LF"
  by (cases t rule: rev_cases) (auto simp: crlf_def)

text \<open>What a step of hart \<open>i\<close> does to the other hart's program: nothing.\<close>

lemma set_prog_simps [simp]:
  "prog (set_prog i p s) = (prog s)(i := p)" "old_reg (set_prog i p s) = old_reg s"
  "uart_lock (set_prog i p s) = uart_lock s" "wire (set_prog i p s) = wire s"
  by (simp_all add: set_prog_def)

lemma on_smp_simps [simp]:
  "prog (on_smp f s) = prog s" "old_reg (on_smp f s) = old_reg s"
  "uart_lock (on_smp f s) = uart_lock (f (smp.truncate s))" "wire (on_smp f s) = wire (f (smp.truncate s))"
  "uart_lock (smp.truncate s) = uart_lock s" "wire (smp.truncate s) = wire s"
  by (simp_all add: on_smp_def smp.defs)

text \<open>A step outside the critical section that keeps lock and wire.\<close>

lemma smp_inv_local:
  assumes inv: "smp_inv s" and i: "i < 2" and p: "\<not> holds_lock (prog s i)"
    and s': "prog s' = (prog s)(i := p')" "uart_lock s' = uart_lock s" "wire s' = wire s"
      "\<forall>j. j \<noteq> i \<longrightarrow> old_reg s' j = old_reg s j"
    and p': "calm p' \<or> wants p'" "p' \<noteq> [] \<and> hd p' = Swap \<longrightarrow> old_reg s' i = 1"
  shows "smp_inv s'"
proof -
  have n: "\<not> holds_lock p'" using p'(1) by (rule not_holding)
  have h: "holds_lock (prog s' j) = holds_lock (prog s j)" for j
    using n p by (simp add: s'(1))
  have ins: "inside (prog s' j) t = inside (prog s j) t" for j t
    using n p by (auto simp: s'(1) holds_lock_def)
  show ?thesis
    using inv p' s' unfolding smp_inv_def h ins by (auto simp: s'(1))
qed


text \<open>Taking the lock, sending a byte, releasing the lock.\<close>

lemma smp_inv_acquire:
  assumes inv: "smp_inv s" and i: "i < 2" and p: "prog s i = Swap # body t q" "calm q" "t \<noteq> []" "last t = LF"
    and free: "uart_lock s = 0"
  shows "smp_inv (set_prog i (body t q) (amoswap i s))"
proof -
  have old: "old_reg s i = 1" using inv i p(1) by (simp add: smp_inv_def)
  have ins: "inside (body t q) t" using p by (auto simp: inside_def)
  have no: "\<forall>j < 2. \<not> holds_lock (prog s j)" "line_end (wire s)"
    using inv free by (simp_all add: smp_inv_def)
  have hl: "holds_lock (body t q)" using ins by (auto simp: holds_lock_def)
  have "\<exists>k < 2. \<exists>t'. inside (((prog s)(i := body t q)) k) t' \<and>
      (\<forall>j < 2. j \<noteq> k \<longrightarrow> \<not> holds_lock (((prog s)(i := body t q)) j)) \<and>
      (t' = [] \<longrightarrow> line_end (wire s)) \<and> (line_end (wire s) \<or> fst (last (wire s)) = k)"
    using i ins no by (intro exI [of _ i] conjI exI [of _ t]) auto
  moreover have "body t q \<noteq> []" "hd (body t q) \<noteq> Swap" using p(3) by (cases t; simp add: body_def)+
  ultimately show ?thesis
    using inv i old hl by (auto simp: smp_inv_def amoswap_def)
qed

lemma smp_inv_byte:
  assumes inv: "smp_inv s" and i: "i < 2" and p: "prog s i = body (c # t) q" "calm q" "last (c # t) = LF"
  shows "smp_inv (set_prog i (body t q) (s\<lparr>wire := wire s @ [(i, c)]\<rparr>))"
proof -
  have h: "inside (prog s i) (c # t)" using p by (auto simp: inside_def)
  then have "uart_lock s \<noteq> 0" using inv i unfolding smp_inv_def holds_lock_def by metis
  then obtain k t' where k: "uart_lock s = 1" "k < 2" "inside (prog s k) t'"
    "\<forall>j < 2. j \<noteq> k \<longrightarrow> \<not> holds_lock (prog s j)" "line_end (wire s) \<or> fst (last (wire s)) = k"
    using inv by (auto simp: smp_inv_def)
  have ki: "k = i" using k(4) i h by (auto simp: holds_lock_def)
  have ins: "inside (body t q) t" using p(2,3) by (auto simp: inside_def split: if_splits)
  have um: "unmixed (wire s @ [(i, c)])" using inv k(5) ki by (auto simp: smp_inv_def intro: unmixed_snoc)
  have le: "t = [] \<longrightarrow> line_end (wire s @ [(i, c)])" using p(3) by (auto simp: line_end_def)
  have "\<exists>k < 2. \<exists>t'. inside (((prog s)(i := body t q)) k) t' \<and>
      (\<forall>j < 2. j \<noteq> k \<longrightarrow> \<not> holds_lock (((prog s)(i := body t q)) j)) \<and>
      (t' = [] \<longrightarrow> line_end (wire s @ [(i, c)])) \<and> (line_end (wire s @ [(i, c)]) \<or> fst (last (wire s @ [(i, c)])) = k)"
    using i ins k(4) ki le by (intro exI [of _ i] conjI exI [of _ t]) auto
  moreover have "body t q \<noteq> []" "hd (body t q) \<noteq> Swap" by (cases t; simp add: body_def)+
  ultimately show ?thesis
    using inv i ins k(1) um by (auto simp: smp_inv_def holds_lock_def)
qed

lemma smp_inv_release:
  assumes inv: "smp_inv s" and i: "i < 2" and p: "prog s i = body [] q" "calm q"
  shows "smp_inv (set_prog i q (s\<lparr>uart_lock := 0\<rparr>))"
proof -
  have h: "inside (prog s i) []" using p by (auto simp: inside_def)
  then have "uart_lock s \<noteq> 0" using inv i unfolding smp_inv_def holds_lock_def by metis
  then obtain k t' where k: "k < 2" "inside (prog s k) t'"
    "\<forall>j < 2. j \<noteq> k \<longrightarrow> \<not> holds_lock (prog s j)" "t' = [] \<longrightarrow> line_end (wire s)"
    using inv by (auto simp: smp_inv_def)
  have ki: "k = i" using k(3) i h by (auto simp: holds_lock_def)
  have "t' = []" using k(2) h ki p(1) by (auto simp: inside_def body_inj)
  have nq: "\<not> holds_lock q" using p(2) not_holding by blast
  have "q \<noteq> [] \<longrightarrow> hd q \<noteq> Swap" using p(2) by (cases q) auto
  with inv i k(3,4) ki \<open>t' = []\<close> nq p(2) show ?thesis by (auto simp: smp_inv_def)
qed

lemma smp_inv_step:
  assumes inv: "smp_inv s" and i: "i < 2" and st: "hart_step i s = Some s'"
  shows "smp_inv s'"
proof -
  consider (calm) "calm (prog s i)" | (wants) "wants (prog s i)" | (inside) t where "inside (prog s i) t"
    using inv i by (auto simp: smp_inv_def holds_lock_def)
  then show ?thesis
  proof cases
    case calm
    then have nh: "\<not> holds_lock (prog s i)" using not_holding by blast
    have keep: "smp_inv x" if "prog x = (prog s)(i := p')" "uart_lock x = uart_lock s" "wire x = wire s"
        "old_reg x = old_reg s" "calm p' \<or> (wants p' \<and> hd p' = Lock)" for x p'
      by (rule smp_inv_local [OF inv i nh that(1-3)]) (use that calm in \<open>cases p'; auto\<close>)+
    show ?thesis
    proof (cases "prog s i")
      case Nil
      then show ?thesis using st by (simp add: hart_step.simps)
    next
      case (Cons a q)
      then have q: "calm q" "calm_op a" using calm by simp_all
      show ?thesis
      proof (cases a)
        case (Print f)
        let ?ps = "f (smp.truncate s)"
        have "wants (locked_call ?ps @ q)"
          using q crlf_line [of "text_of ?ps"] Print
          by (auto simp: wants_def locked_call_def spin_lock_def spin_unlock_def body_def)
        moreover have "hd (locked_call ?ps @ q) = Lock" by (simp add: locked_call_def spin_lock_def)
        ultimately show ?thesis using st Cons Print
          by (intro keep [of _ "locked_call ?ps @ q"]) (auto simp: hart_step.simps)
      next
        case (Act f)
        then show ?thesis using st Cons q
          by (intro keep [of _ q]) (auto simp: hart_step.simps)
      next
        case WaitRelease
        then show ?thesis using st Cons q inv
          by (cases "smp_release s") (auto simp: hart_step.simps intro!: keep [of _ q])
      next
        case WaitDone
        then have "calm (prog s i)" using calm by simp
        then show ?thesis using st Cons q WaitDone
          by (auto simp: hart_step.simps Let_def split: if_splits
              intro!: keep [of _ q] keep [of "s\<lparr>cycle_reads := Suc (cycle_reads s)\<rparr>" "prog s i"])
      next
        case (Unless b)
        then show ?thesis using st Cons q
          by (intro keep [of _ "if hart1_done s then q else b"]) (auto simp: hart_step.simps)
      qed (use q st Cons in \<open>auto simp: hart_step.simps\<close>)
    qed
  next
    case wants
    then obtain t q where tq: "prog s i = Lock # body t q \<or> prog s i = Swap # body t q" "calm q" "t \<noteq> []" "last t = LF"
      by (auto simp: wants_def)
    have nh: "\<not> holds_lock (prog s i)" using wants not_holding by blast
    show ?thesis
    proof (cases "prog s i = Lock # body t q")
      case True
      then have s': "s' = set_prog i (Swap # body t q) (s\<lparr>old_reg := (old_reg s)(i := 1)\<rparr>)"
        using st by (simp add: hart_step.simps)
      have "wants (Swap # body t q)" using tq by (auto simp: wants_def)
      then show ?thesis
        by (intro smp_inv_local [OF inv i nh, of s' "Swap # body t q"]) (auto simp: s')
    next
      case False
      then have p: "prog s i = Swap # body t q" using tq(1) by simp
      have old: "old_reg s i = 1" using inv i p by (simp add: smp_inv_def)
      show ?thesis
      proof (cases "uart_lock s = 0")
        case True
        then show ?thesis using smp_inv_acquire [OF inv i p tq(2-4) True] st p
          by (simp add: hart_step.simps Let_def amoswap_def)
      next
        case False
        then have "uart_lock s = 1" using inv by (simp add: smp_inv_def)
        then have "s' = s\<lparr>uart_lock := 1, old_reg := (old_reg s)(i := 1)\<rparr>"
          using st p old by (simp add: hart_step.simps Let_def amoswap_def)
        then show ?thesis using \<open>uart_lock s = 1\<close> wants old
          by (intro smp_inv_local [OF inv i nh, of s' "prog s i"]) auto
      qed
    qed
  next
    case inside
    then obtain q where q: "prog s i = body t q" "calm q" "t = [] \<or> last t = LF" by (auto simp: inside_def)
    show ?thesis
    proof (cases t)
      case Nil
      then show ?thesis using smp_inv_release [OF inv i _ q(2)] q(1) st
        by (simp add: hart_step.simps body_def)
    next
      case (Cons c u)
      then show ?thesis using smp_inv_byte [OF inv i _ q(2), of c u] q(1,3) st
        by (simp add: hart_step.simps body_def)
    qed
  qed
qed


lemma text_of_line: "text_of (ps @ [Chr LF]) \<noteq> [] \<and> last (text_of (ps @ [Chr LF])) = LF"
  by (simp add: text_of_def)

lemma calm_kv [simp]: "calm_op (locked_print_kv l v hex)" "calm_op (locked_print_line2 a va b vb hex)"
  using text_of_line [of "[Str l, Chr CHR ''='', p]" for l p]
    text_of_line [of "[Str a, Chr CHR ''='', p, Chr CHR '' '', Str b, Chr CHR ''='', q]" for a p b q]
  by (simp_all add: locked_print_kv_def locked_print_line2_def)

lemma calm_puts [simp]: "calm_op (locked_puts t) \<longleftrightarrow> t \<noteq> [] \<and> last t = LF"
  by (simp add: locked_puts_def text_of_def)

lemma calm_programs: "calm smp_main" "calm (WaitRelease # hart1_main)"
  by (simp_all add: smp_main_def hart1_main_def rdcycle_def Let_def)

lemma smp_inv_boot: "smp_inv (smp_boot cyc sps stacks)"
proof -
  let ?s = "smp_boot cyc sps stacks"
  have pr: "prog ?s i = (if i = 0 then smp_main else WaitRelease # hart1_main)" if "i < 2" for i
    using that by (simp add: smp_boot_def)
  have "calm (prog ?s i)" if "i < 2" for i using pr [OF that] calm_programs by simp
  moreover from this have "\<not> holds_lock (prog ?s i)" if "i < 2" for i using not_holding that by blast
  moreover have "hd (prog ?s i) \<noteq> Swap" if "i < 2" for i
    using pr [OF that] by (simp add: smp_main_def locked_puts_def)
  ultimately show ?thesis
    unfolding smp_inv_def by (simp add: smp_boot_def unmixed_def line_end_def)
qed

lemma smp_inv_reach: "smp_reach (smp_boot cyc sps stacks) s \<Longrightarrow> smp_inv s"
  by (induction rule: smp_reach.induct) (auto intro: smp_inv_boot smp_inv_step)


subsection \<open>Release before hart 1\<close>

text \<open>Operations after which the release flag is still set.\<close>

fun keeps_release :: "op \<Rightarrow> bool" where
  "keeps_release (Act f) \<longleftrightarrow> (\<forall>s. smp_release s \<longrightarrow> smp_release (f s))"
| "keeps_release (Unless q) \<longleftrightarrow> list_all keeps_release q"
| "keeps_release _ \<longleftrightarrow> True"

definition release_inv :: "system \<Rightarrow> bool" where
  "release_inv s \<longleftrightarrow>
     (\<forall>i < 2. list_all keeps_release (prog s i)) \<and>
     (\<not> smp_release s \<longrightarrow> prog s 1 = WaitRelease # hart1_main \<and> 1 \<notin> fst ` set (wire s))"

lemma release_simps [simp]:
  "smp_release (set_prog i p s) = smp_release s" "smp_release (amoswap i s) = smp_release s"
  "prog (amoswap i s) = prog s" "wire (amoswap i s) = wire s"
  "smp_release (on_smp f s) = smp_release (f (smp.truncate s))" "smp_release (smp.truncate s) = smp_release s"
  by (simp_all add: set_prog_def amoswap_def on_smp_def smp.defs)

lemma keeps_locked_call: "list_all keeps_release (locked_call ps)"
  by (auto simp: locked_call_def spin_lock_def spin_unlock_def list_all_iff)

lemma release_inv_step:
  assumes inv: "release_inv s" "smp_inv s" and i: "i < 2" and st: "hart_step i s = Some s'"
  shows "release_inv s'"
proof -
  have k: "list_all keeps_release (prog s j)" if "j < 2" for j using inv(1) that by (simp add: release_inv_def)
  have one: "i = 0 \<or> i = 1" using i by auto
  show ?thesis
  proof (cases "prog s i")
    case Nil
    then show ?thesis using st by (simp add: hart_step.simps)
  next
    case (Cons a q)
    have kq: "list_all keeps_release q" "keeps_release a" using k [OF i] Cons by simp_all
    have pr: "list_all keeps_release (prog s' j)" if "j < 2" for j
      using st Cons kq k [OF that] keeps_locked_call
      by (cases a) (auto simp: hart_step.simps Let_def split: if_splits)
    have w: "\<not> smp_release s' \<longrightarrow> prog s' 1 = WaitRelease # hart1_main \<and> 1 \<notin> fst ` set (wire s')"
    proof (cases "smp_release s")
      case True
      then have "smp_release s'" using st Cons kq
        by (cases a) (auto simp: hart_step.simps Let_def split: if_splits)
      then show ?thesis by simp
    next
      case False
      then have p1: "prog s 1 = WaitRelease # hart1_main" "1 \<notin> fst ` set (wire s)"
        using inv(1) by (simp_all add: release_inv_def)
      show ?thesis
      proof (cases "i = 1")
        case True
        then show ?thesis using st p1 False by (simp add: hart_step.simps)
      next
        case False
        then have i0: "i = 0" using one by simp
        have "wire s' = wire s \<or> (\<exists>c. wire s' = wire s @ [(0, c)])"
        proof (cases a)
          case (Act f)
          have "calm (prog s 0) \<or> wants (prog s 0) \<or> holds_lock (prog s 0)" using inv(2) by (simp add: smp_inv_def)
          then have "calm_op a"
            using Cons i0 Act by (auto simp: wants_def holds_lock_def inside_def body_def Cons_eq_append_conv)
          then show ?thesis using st Cons Act i0 by (auto simp: hart_step.simps)
        qed (use st Cons i0 in \<open>auto simp: hart_step.simps Let_def split: if_splits\<close>)
        moreover have "prog s' 1 = prog s 1"
          using st Cons i0 by (cases a) (auto simp: hart_step.simps Let_def split: if_splits)
        ultimately show ?thesis using p1 by auto
      qed
    qed
    from pr w show ?thesis by (simp add: release_inv_def)
  qed
qed

lemma release_inv_reach: "smp_reach (smp_boot cyc sps stacks) s \<Longrightarrow> release_inv s"
proof (induction rule: smp_reach.induct)
  case boot
  then show ?case
    by (auto simp: release_inv_def smp_boot_def smp_main_def hart1_main_def locked_puts_def
        locked_print_kv_def locked_print_line2_def rdcycle_def Let_def)
next
  case (step s i s')
  then show ?case using release_inv_step smp_inv_reach by blast
qed


subsection \<open>Properties\<close>

text \<open>
  C18. Lines are never mixed: however the steps of the two harts interleave, wherever two
  successive bytes on the UART come from different harts the first of them is a newline.
\<close>

theorem smp_lines_unmixed:
  assumes "smp_reach (smp_boot cyc sps stacks) s" "Suc k < length (wire s)"
  shows "fst (wire s ! k) = fst (wire s ! Suc k) \<or> snd (wire s ! k) = LF"
  using smp_inv_reach [OF assms(1)] assms(2) by (simp add: smp_inv_def unmixed_def)

text \<open>
  C19. The spinlock is mutual exclusion: in every reachable state at most one hart is between its
  successful \<open>amoswap\<close> and its unlock, the lock word is 0 or 1, and it is 1 exactly while some
  hart is there.
\<close>

theorem smp_mutual_exclusion:
  assumes "smp_reach (smp_boot cyc sps stacks) s"
  shows "\<not> (holds_lock (prog s 0) \<and> holds_lock (prog s 1)) \<and>
    (uart_lock s = 0 \<or> uart_lock s = 1) \<and>
    (uart_lock s = 1 \<longleftrightarrow> holds_lock (prog s 0) \<or> holds_lock (prog s 1))"
proof (cases "uart_lock s = 0")
  case True
  then show ?thesis using smp_inv_reach [OF assms] by (simp add: smp_inv_def)
next
  case False
  then obtain i t where "uart_lock s = 1" "i < 2" "inside (prog s i) t" "\<forall>j < 2. j \<noteq> i \<longrightarrow> \<not> holds_lock (prog s j)"
    using smp_inv_reach [OF assms] by (auto simp: smp_inv_def)
  then show ?thesis by (cases "i = 0") (auto simp: holds_lock_def less_Suc_eq numeral_2_eq_2)
qed

text \<open>
  Hart 1 waits for its release: as long as hart 0 has not raised \<open>smp_release\<close>, hart 1 is
  still in the polling loop of \<open>smp_boot.S\<close> and has not sent a byte.
\<close>

theorem smp_hart1_waits_for_release:
  assumes "smp_reach (smp_boot cyc sps stacks) s" "\<not> smp_release s"
  shows "prog s 1 = WaitRelease # hart1_main \<and> 1 \<notin> fst ` set (wire s)"
  using release_inv_reach [OF assms(1)] assms(2) by (simp add: release_inv_def)

text \<open>
  Each hart has its own stack: when the stack array does not wrap around the address space,
  the report's disjointness check succeeds, and so does its range check for a stack pointer up
  to a whole slice below the one \<open>smp_boot.S\<close> installed for that hart.
\<close>

theorem smp_stacks_disjoint:
  assumes "unat (hart_stacks s) + 8192 < 2 ^ 64" "i < 2" "k \<le> 4096"
  shows "stacks_disjoint s \<and> sp_in_slice i (boot_sp i (hart_stacks s) - k) s"
proof -
  let ?a = "unat (hart_stacks s)"
  have a: "unat (hart_stacks s + c) = ?a + unat c" if "unat c \<le> 8192" for c
    using that assms(1) by (simp add: unat_word_ariths)
  have k: "unat k \<le> 4096" using assms(3) by (simp add: word_le_nat_alt)
  have e: "unat (hart_stacks s + 4096) = ?a + 4096" "unat (hart_stacks s + 8192) = ?a + 8192"
    using a [of 4096] a [of 8192] by simp_all
  have kl: "k \<le> hart_stacks s + 4096" "k \<le> hart_stacks s + 8192"
    using k e by (simp_all add: word_le_nat_alt)
  have s: "unat (hart_stacks s + 4096 - k) = ?a + 4096 - unat k" "unat (hart_stacks s + 8192 - k) = ?a + 8192 - unat k"
    using kl e by (simp_all add: unat_sub)
  have d: "stacks_disjoint s" by (simp add: stacks_disjoint_def stack_base_def)
  have "sp_in_slice i (boot_sp i (hart_stacks s) - k) s"
  proof (cases "i = 0")
    case True
    then show ?thesis using e s k by (simp add: sp_in_slice_def stack_base_def boot_sp_def word_le_nat_alt)
  next
    case False
    then have "i = 1" using assms(2) by simp
    moreover have "unat (8192 + hart_stacks s) = ?a + 8192" using e(2) by (simp only: add.commute)
    ultimately show ?thesis using e s k
      by (simp add: sp_in_slice_def stack_base_def boot_sp_def word_le_nat_alt)
  qed
  with d show ?thesis by blast
qed

definition demo_smp :: system where
  "demo_smp = smp_boot of_nat (\<lambda>i. boot_sp i 0x80010000 - 64) 0x80010000"

text \<open>Running a given interleaving.\<close>

fun run_sched :: "nat list \<Rightarrow> system \<Rightarrow> system option" where
  "run_sched [] s = Some s"
| "run_sched (i # is) s = (case hart_step i s of None \<Rightarrow> None | Some s' \<Rightarrow> run_sched is s')"

lemma run_sched_reach:
  "run_sched is s = Some s' \<Longrightarrow> list_all (\<lambda>i. i < 2) is \<Longrightarrow> smp_reach s0 s \<Longrightarrow> smp_reach s0 s'"
  by (induction "is" arbitrary: s) (auto split: option.splits intro: smp_reach.step)

lemma demo_run:
  "\<exists>s. run_sched [0, 1, 0, 0, 1, 0, 0] demo_smp = Some s \<and> wire s = [(0, CHR ''s''), (0, CHR ''m'')] \<and>
     uart_lock s = 1 \<and> \<not> smp_release s"
  by (simp add: demo_smp_def smp_boot_def hart_step.simps smp_main_def locked_puts_def locked_call_def
      spin_lock_def spin_unlock_def set_prog_def amoswap_def text_of_def crlf_def)

lemma demo_reach:
  "\<exists>s. smp_reach demo_smp s \<and> wire s = [(0, CHR ''s''), (0, CHR ''m'')] \<and> uart_lock s = 1 \<and> \<not> smp_release s"
  using demo_run run_sched_reach [of "[0, 1, 0, 0, 1, 0, 0]" demo_smp _ demo_smp] smp_reach.boot by auto

theorem smp_lines_unmixed_witness:
  "\<exists>s. smp_reach demo_smp s \<and> Suc 0 < length (wire s) \<and>
     (fst (wire s ! 0) = fst (wire s ! Suc 0) \<or> snd (wire s ! 0) = LF)"
proof -
  obtain s where s: "smp_reach demo_smp s" "wire s = [(0, CHR ''s''), (0, CHR ''m'')]" using demo_reach by blast
  then have "Suc 0 < length (wire s)" by simp
  with s(1) smp_lines_unmixed [OF s(1) [unfolded demo_smp_def], of 0] show ?thesis by auto
qed

theorem smp_mutual_exclusion_witness:
  "\<exists>s. smp_reach demo_smp s \<and> uart_lock s = 1 \<and> \<not> (holds_lock (prog s 0) \<and> holds_lock (prog s 1))"
proof -
  obtain s where s: "smp_reach demo_smp s" "uart_lock s = 1" using demo_reach by blast
  with smp_mutual_exclusion [OF s(1) [unfolded demo_smp_def]] show ?thesis by blast
qed

theorem smp_hart1_waits_for_release_witness:
  "\<exists>s. smp_reach demo_smp s \<and> wire s \<noteq> [] \<and> prog s 1 = WaitRelease # hart1_main"
proof -
  obtain s where s: "smp_reach demo_smp s" "wire s = [(0, CHR ''s''), (0, CHR ''m'')]" "\<not> smp_release s"
    using demo_reach by blast
  with smp_hart1_waits_for_release [OF s(1) [unfolded demo_smp_def] s(3)] show ?thesis by auto
qed

theorem smp_stacks_disjoint_witness:
  "stacks_disjoint (smp.truncate demo_smp) \<and>
   sp_in_slice 1 (boot_sp 1 (hart_stacks (smp.truncate demo_smp)) - 64) (smp.truncate demo_smp)"
  by (rule smp_stacks_disjoint) (simp_all add: demo_smp_def smp_boot_def smp.defs)

end
