(* ===== verification/Virtio.thy ===== *)
theory Virtio
  imports Uart "HOL-Library.Monad_Syntax"
begin

text \<open>
  \<open>src/src/virtio-blk/virtio.c\<close>: the virtio-mmio transport. The device is not part of the
  program: what its registers return, what a register write does to it, and what it does to
  memory while the driver polls, are the three functions of the record \<open>virtio_dev\<close>, which every
  driver function takes as an argument. The queue memory is an array of bytes, so that
  descriptor table, available ring and used ring are what they are in C: byte ranges at computed
  offsets. A result \<open>None\<close> is an access outside the array.
\<close>

unbundle bit_operations_syntax


subsection \<open>Little-endian fields of a byte array\<close>

fun le_bytes :: "nat \<Rightarrow> u64 \<Rightarrow> u8 list" where
  "le_bytes 0 v = []"
| "le_bytes (Suc n) v = ucast v # le_bytes n (drop_bit 8 v)"

fun le_value :: "u8 list \<Rightarrow> u64" where
  "le_value [] = 0"
| "le_value (b # bs) = ucast b OR push_bit 8 (le_value bs)"

definition put_le :: "nat \<Rightarrow> nat \<Rightarrow> u64 \<Rightarrow> u8 list \<Rightarrow> u8 list option" where
  "put_le n off v m =
     (if off + n \<le> length m then Some (take off m @ le_bytes n v @ drop (off + n) m) else None)"

definition get_le :: "nat \<Rightarrow> nat \<Rightarrow> u8 list \<Rightarrow> u64 option" where
  "get_le n off m = (if off + n \<le> length m then Some (le_value (take n (drop off m))) else None)"


subsection \<open>State\<close>

text \<open>
  Memory shared with the device: the queue region, the request header, the status byte and the
  two sector buffers of \<open>blk.c\<close> and \<open>bmain.c\<close>.
\<close>

record blk_req =
  req_type :: u32
  req_reserved :: u32
  req_sector :: u64

record dma =
  qmem :: "u8 list"
  req :: blk_req
  status_byte :: u8
  wbuf :: "u8 list"
  rbuf :: "u8 list"

record 'd virtio_dev =
  rd :: "'d \<Rightarrow> u64 \<Rightarrow> u32"
  wr :: "'d \<Rightarrow> u64 \<Rightarrow> u32 \<Rightarrow> 'd"
  run :: "'d \<Rightarrow> dma \<Rightarrow> 'd \<times> dma"

text \<open>Addresses of the static objects.\<close>

record blk_syms =
  a_qmem :: u64
  a_req :: u64
  a_status :: u64
  a_wbuf :: u64
  a_rbuf :: u64

text \<open>\<open>mmio\<close> is the sequence of register writes.\<close>

record 'd vstate = console +
  dev :: 'd
  mem :: dma
  vdev_base :: u64
  vq_size :: u32
  qavail :: nat
  qused :: nat
  used_seen :: u16
  mmio :: "(u64 \<times> u32) list"

abbreviation (input) QMEM_SIZE :: nat where "QMEM_SIZE \<equiv> 5128"
abbreviation (input) VQ_NUM :: u32 where "VQ_NUM \<equiv> 128"
abbreviation (input) VIRTIO_MAGIC_VALUE :: u32 where "VIRTIO_MAGIC_VALUE \<equiv> 0x74726976"
abbreviation (input) VIRTIO_MMIO_MAGIC :: u32 where "VIRTIO_MMIO_MAGIC \<equiv> 0x000"
abbreviation (input) VIRTIO_MMIO_VERSION :: u32 where "VIRTIO_MMIO_VERSION \<equiv> 0x004"
abbreviation (input) VIRTIO_MMIO_DEVICE_ID :: u32 where "VIRTIO_MMIO_DEVICE_ID \<equiv> 0x008"
abbreviation (input) VIRTIO_MMIO_DEVICE_FEAT :: u32 where "VIRTIO_MMIO_DEVICE_FEAT \<equiv> 0x010"
abbreviation (input) VIRTIO_MMIO_DEVICE_FEAT_S :: u32 where "VIRTIO_MMIO_DEVICE_FEAT_S \<equiv> 0x014"
abbreviation (input) VIRTIO_MMIO_DRIVER_FEAT :: u32 where "VIRTIO_MMIO_DRIVER_FEAT \<equiv> 0x020"
abbreviation (input) VIRTIO_MMIO_DRIVER_FEAT_S :: u32 where "VIRTIO_MMIO_DRIVER_FEAT_S \<equiv> 0x024"
abbreviation (input) VIRTIO_MMIO_GUEST_PAGE_SIZE :: u32 where "VIRTIO_MMIO_GUEST_PAGE_SIZE \<equiv> 0x028"
abbreviation (input) VIRTIO_MMIO_QUEUE_SEL :: u32 where "VIRTIO_MMIO_QUEUE_SEL \<equiv> 0x030"
abbreviation (input) VIRTIO_MMIO_QUEUE_MAX :: u32 where "VIRTIO_MMIO_QUEUE_MAX \<equiv> 0x034"
abbreviation (input) VIRTIO_MMIO_QUEUE_NUM :: u32 where "VIRTIO_MMIO_QUEUE_NUM \<equiv> 0x038"
abbreviation (input) VIRTIO_MMIO_QUEUE_ALIGN :: u32 where "VIRTIO_MMIO_QUEUE_ALIGN \<equiv> 0x03c"
abbreviation (input) VIRTIO_MMIO_QUEUE_PFN :: u32 where "VIRTIO_MMIO_QUEUE_PFN \<equiv> 0x040"
abbreviation (input) VIRTIO_MMIO_QUEUE_READY :: u32 where "VIRTIO_MMIO_QUEUE_READY \<equiv> 0x044"
abbreviation (input) VIRTIO_MMIO_QUEUE_NOTIFY :: u32 where "VIRTIO_MMIO_QUEUE_NOTIFY \<equiv> 0x050"
abbreviation (input) VIRTIO_MMIO_INT_STATUS :: u32 where "VIRTIO_MMIO_INT_STATUS \<equiv> 0x060"
abbreviation (input) VIRTIO_MMIO_STATUS :: u32 where "VIRTIO_MMIO_STATUS \<equiv> 0x070"
abbreviation (input) VIRTIO_MMIO_QDESC_LO :: u32 where "VIRTIO_MMIO_QDESC_LO \<equiv> 0x080"
abbreviation (input) VIRTIO_MMIO_QDESC_HI :: u32 where "VIRTIO_MMIO_QDESC_HI \<equiv> 0x084"
abbreviation (input) VIRTIO_MMIO_QDRV_LO :: u32 where "VIRTIO_MMIO_QDRV_LO \<equiv> 0x090"
abbreviation (input) VIRTIO_MMIO_QDRV_HI :: u32 where "VIRTIO_MMIO_QDRV_HI \<equiv> 0x094"
abbreviation (input) VIRTIO_MMIO_QDEV_LO :: u32 where "VIRTIO_MMIO_QDEV_LO \<equiv> 0x0a0"
abbreviation (input) VIRTIO_MMIO_QDEV_HI :: u32 where "VIRTIO_MMIO_QDEV_HI \<equiv> 0x0a4"
abbreviation (input) VIRTIO_MMIO_CONFIG :: u64 where "VIRTIO_MMIO_CONFIG \<equiv> 0x100"


subsection \<open>Registers and discovery\<close>

definition reg_read :: "'d virtio_dev \<Rightarrow> u64 \<Rightarrow> u32 \<Rightarrow> 'd vstate \<Rightarrow> u32" where
  "reg_read D base off s = rd D (dev s) (base + ucast off)"

definition reg_write :: "'d virtio_dev \<Rightarrow> u64 \<Rightarrow> u32 \<Rightarrow> u32 \<Rightarrow> 'd vstate \<Rightarrow> 'd vstate" where
  "reg_write D base off v s =
     s\<lparr>dev := wr D (dev s) (base + ucast off) v, mmio := mmio s @ [(base + ucast off, v)]\<rparr>"

text \<open>The loop over the slots, from slot \<open>i\<close> with \<open>k\<close> to go.\<close>

fun scan_slots :: "'d virtio_dev \<Rightarrow> nat \<Rightarrow> nat \<Rightarrow> 'd vstate \<Rightarrow> u64 \<times> 'd vstate" where
  "scan_slots D i 0 s = (0, s)"
| "scan_slots D i (Suc k) s =
     (let base = 0x10001000 + of_nat i * 0x1000 in
      if reg_read D base VIRTIO_MMIO_MAGIC s \<noteq> VIRTIO_MAGIC_VALUE then scan_slots D (Suc i) k s
      else
        let devid = reg_read D base VIRTIO_MMIO_DEVICE_ID s;
            ver = reg_read D base VIRTIO_MMIO_VERSION s;
            s1 = emit [Str ''virtio: mmio slot '', Dec (of_nat i), Str '' ('', Hex base, Str ''): device id '',
                       Dec (ucast devid), Str '', version '', Dec (ucast ver), Str ''\<newline>''] s
        in if devid = 2 then (base, s1) else scan_slots D (Suc i) k s1)"

definition find_block_device :: "'d virtio_dev \<Rightarrow> 'd vstate \<Rightarrow> u64 \<times> 'd vstate" where
  "find_block_device D s = scan_slots D 0 32 s"

definition fail :: "'d virtio_dev \<Rightarrow> u64 \<Rightarrow> string \<Rightarrow> 'd vstate \<Rightarrow> 'd vstate" where
  "fail D base msg s = reg_write D base VIRTIO_MMIO_STATUS 128 (emit [Str ''virtio: '', Str msg, Str ''\<newline>''] s)"


subsection \<open>virtio_init\<close>

text \<open>Reset and the feature negotiation, up to the FEATURES_OK write.\<close>

definition negotiate :: "'d virtio_dev \<Rightarrow> u64 \<Rightarrow> 'd vstate \<Rightarrow> bool \<times> 'd vstate" where
  "negotiate D base s =
     (let s1 = reg_write D base VIRTIO_MMIO_STATUS 3 (reg_write D base VIRTIO_MMIO_STATUS 1
                 (reg_write D base VIRTIO_MMIO_STATUS 0 (s\<lparr>vdev_base := base\<rparr>)));
          s2 = reg_write D base VIRTIO_MMIO_DEVICE_FEAT_S 0 s1;
          feat_lo = reg_read D base VIRTIO_MMIO_DEVICE_FEAT s2;
          s3 = reg_write D base VIRTIO_MMIO_DEVICE_FEAT_S 1 s2;
          feat_hi = reg_read D base VIRTIO_MMIO_DEVICE_FEAT s3;
          modern = (feat_hi AND 1 \<noteq> 0);
          s4 = emit [Str ''virtio: device features lo='', Hex (ucast feat_lo), Str '' hi='', Hex (ucast feat_hi),
                     Str ''\<newline>'', Str ''virtio: interface selected: '',
                     Str (if modern then ''1.x (VIRTIO_F_VERSION_1)'' else ''legacy''), Str ''\<newline>''] s3;
          s5 = reg_write D base VIRTIO_MMIO_DRIVER_FEAT 0 (reg_write D base VIRTIO_MMIO_DRIVER_FEAT_S 0 s4);
          s6 = reg_write D base VIRTIO_MMIO_DRIVER_FEAT (if modern then 1 else 0)
                 (reg_write D base VIRTIO_MMIO_DRIVER_FEAT_S 1 s5)
      in (modern, reg_write D base VIRTIO_MMIO_STATUS 11 s6))"

text \<open>Where the rings lie, as byte offsets into \<open>qmem\<close>.\<close>

definition avail_off :: "u32 \<Rightarrow> u64" where
  "avail_off n = ucast (16 * n)"

definition used_off :: "u32 \<Rightarrow> u64" where
  "used_off n = (16 * ucast n + 6 + ucast (2 * n) + 4096 - 1) AND NOT (4096 - 1)"

text \<open>Handing the rings to the device, in the 1.x or the legacy way.\<close>

definition publish_queue :: "'d virtio_dev \<Rightarrow> blk_syms \<Rightarrow> u64 \<Rightarrow> bool \<Rightarrow> 'd vstate \<Rightarrow> 'd vstate" where
  "publish_queue D y base modern s0 =
     (let s = reg_write D base VIRTIO_MMIO_QUEUE_NUM (vq_size s0) s0;
          d = a_qmem y; a = a_qmem y + of_nat (qavail s0); u = a_qmem y + of_nat (qused s0)
      in if modern then
           reg_write D base VIRTIO_MMIO_QUEUE_READY 1
            (reg_write D base VIRTIO_MMIO_QDEV_HI (ucast (drop_bit 32 u))
            (reg_write D base VIRTIO_MMIO_QDEV_LO (ucast u)
            (reg_write D base VIRTIO_MMIO_QDRV_HI (ucast (drop_bit 32 a))
            (reg_write D base VIRTIO_MMIO_QDRV_LO (ucast a)
            (reg_write D base VIRTIO_MMIO_QDESC_HI (ucast (drop_bit 32 d))
            (reg_write D base VIRTIO_MMIO_QDESC_LO (ucast d) s))))))
         else
           reg_write D base VIRTIO_MMIO_QUEUE_PFN (ucast (drop_bit 12 d))
            (reg_write D base VIRTIO_MMIO_QUEUE_ALIGN 4096
            (reg_write D base VIRTIO_MMIO_GUEST_PAGE_SIZE 4096 s)))"

definition queue_report :: "blk_syms \<Rightarrow> u32 \<Rightarrow> 'd vstate \<Rightarrow> piece list" where
  "queue_report y qmax s =
     [Str ''virtio: queue max size '', Dec (ucast qmax), Str '', using '', Dec (ucast (vq_size s)), Str ''\<newline>'',
      Str ''virtio: desc table at '', Hex (a_qmem y), Str '' (16-byte aligned: '',
      Str (if a_qmem y AND 15 = 0 then ''yes'' else ''NO''),
      Str ''), avail at '', Hex (a_qmem y + of_nat (qavail s)),
      Str '', used at '', Hex (a_qmem y + of_nat (qused s)), Str '' ('', Dec 4096, Str ''-byte aligned: '',
      Str (if (a_qmem y + of_nat (qused s)) AND (4096 - 1) = 0 then ''yes'' else ''NO''), Str '')\<newline>'']"

definition virtio_init :: "'d virtio_dev \<Rightarrow> blk_syms \<Rightarrow> 'd vstate \<Rightarrow> u32 \<times> 'd vstate" where
  "virtio_init D y s0 =
     (let (base, s1) = find_block_device D s0 in
      if base = 0 then (0, emit [Str ''virtio: no block device on the mmio bus\<newline>''] s1)
      else
        let (modern, s2) = negotiate D base s1 in
        if reg_read D base VIRTIO_MMIO_STATUS s2 AND 8 = 0 then
          (0, fail D base ''device rejected the negotiated features'' s2)
        else
          let s3 = reg_write D base VIRTIO_MMIO_QUEUE_SEL 0 (emit [Str ''virtio: features accepted by device\<newline>''] s2);
              qmax = reg_read D base VIRTIO_MMIO_QUEUE_MAX s3
          in if qmax = 0 then (0, fail D base ''queue 0 reports size 0'' s3)
             else
               let n = (if qmax < VQ_NUM then qmax else VQ_NUM);
                   s4 = s3\<lparr>vq_size := n, qavail := unat (avail_off n), qused := unat (used_off n)\<rparr>;
                   s5 = publish_queue D y base modern (emit (queue_report y qmax s4) s4);
                   s6 = reg_write D base VIRTIO_MMIO_STATUS (11 OR 4) s5
               in (vq_size s6,
                   emit [Str ''virtio: device status now '', Hex (ucast (reg_read D base VIRTIO_MMIO_STATUS s6)),
                         Str '' (DRIVER_OK set)\<newline>''] s6))"


subsection \<open>Descriptors, the kick and the configuration space\<close>

definition put_qmem :: "nat \<Rightarrow> nat \<Rightarrow> u64 \<Rightarrow> 'd vstate \<Rightarrow> 'd vstate option" where
  "put_qmem n off v s = map_option (\<lambda>q. s\<lparr>mem := (mem s)\<lparr>qmem := q\<rparr>\<rparr>) (put_le n off v (qmem (mem s)))"

definition get_qmem :: "nat \<Rightarrow> nat \<Rightarrow> 'd vstate \<Rightarrow> u64 option" where
  "get_qmem n off s = get_le n off (qmem (mem s))"

definition virtio_desc_set :: "nat \<Rightarrow> u64 \<Rightarrow> u32 \<Rightarrow> u16 \<Rightarrow> u16 \<Rightarrow> 'd vstate \<Rightarrow> 'd vstate option" where
  "virtio_desc_set i addr len flags nxt s = do {
     s1 \<leftarrow> put_qmem 8 (16 * i) addr s;
     s2 \<leftarrow> put_qmem 4 (16 * i + 8) (ucast len) s1;
     s3 \<leftarrow> put_qmem 2 (16 * i + 12) (ucast flags) s2;
     put_qmem 2 (16 * i + 14) (ucast nxt) s3 }"

text \<open>The device works while the driver is between two looks at the used index.\<close>

definition device_runs :: "'d virtio_dev \<Rightarrow> 'd vstate \<Rightarrow> 'd vstate" where
  "device_runs D s = (let (d, m) = run D (dev s) (mem s) in s\<lparr>dev := d, mem := m\<rparr>)"

definition used_idx :: "'d vstate \<Rightarrow> u16 option" where
  "used_idx s = map_option ucast (get_qmem 2 (qused s + 2) s)"

text \<open>\<open>while (qused->idx == used_seen) if (--timeout == 0) ...\<close> with \<open>timeout\<close> as the first argument.\<close>

datatype 'd polled = Completed "'d vstate" | TimedOut "'d vstate" | OutOfQueue

fun poll_used :: "'d virtio_dev \<Rightarrow> nat \<Rightarrow> 'd vstate \<Rightarrow> 'd polled" where
  "poll_used D 0 s = TimedOut s"
| "poll_used D (Suc n) s0 =
     (let s = device_runs D s0 in
      case used_idx s of
        None \<Rightarrow> OutOfQueue
      | Some u \<Rightarrow> if u \<noteq> used_seen s then Completed s else poll_used D n s)"

text \<open>Appending to the available ring and notifying. A queue of size 0 would be a division by zero.\<close>

definition kick :: "'d virtio_dev \<Rightarrow> u16 \<Rightarrow> 'd vstate \<Rightarrow> 'd vstate option" where
  "kick D head s = (if vq_size s = 0 then None else do {
     v \<leftarrow> get_qmem 2 (qavail s + 2) s;
     let idx = (ucast v :: u16);
     s1 \<leftarrow> put_qmem 2 (qavail s + 4 + 2 * (unat idx mod unat (vq_size s))) (ucast head) s;
     s2 \<leftarrow> put_qmem 2 (qavail s + 2) (ucast (idx + 1)) s1;
     Some (reg_write D (vdev_base s2) VIRTIO_MMIO_QUEUE_NOTIFY 0 s2) })"

definition timeout_report :: "'d virtio_dev \<Rightarrow> 'd vstate \<Rightarrow> 'd vstate option" where
  "timeout_report D s = do {
     u \<leftarrow> get_qmem 2 (qused s + 2) s;
     a \<leftarrow> get_qmem 2 (qavail s + 2) s;
     Some (emit [Str ''virtio: kick timed out; device status '',
        Hex (ucast (reg_read D (vdev_base s) VIRTIO_MMIO_STATUS s)),
        Str '', intr status '', Hex (ucast (reg_read D (vdev_base s) VIRTIO_MMIO_INT_STATUS s)),
        Str '', used idx '', Dec u, Str '', avail idx '', Dec a, Str ''\<newline>''] s) }"

definition virtio_kick_wait :: "'d virtio_dev \<Rightarrow> u16 \<Rightarrow> 'd vstate \<Rightarrow> (int \<times> 'd vstate) option" where
  "virtio_kick_wait D head s0 = do {
     s1 \<leftarrow> kick D head s0;
     (case poll_used D 100000000 s1 of
        OutOfQueue \<Rightarrow> None
      | TimedOut s2 \<Rightarrow> do { s3 \<leftarrow> timeout_report D s2; Some (- 1, s3) }
      | Completed s2 \<Rightarrow> do {
          let slot = qused s2 + 4 + 8 * (unat (used_seen s2) mod unat (vq_size s2));
          e_id \<leftarrow> get_qmem 4 slot s2;
          e_len \<leftarrow> get_qmem 4 (slot + 4) s2;
          let s3 = s2\<lparr>used_seen := used_seen s2 + 1\<rparr>;
          if e_id \<noteq> ucast head then Some (- 2, s3)
          else Some (sint (ucast e_len :: u32), s3) }) }"

definition virtio_config64 :: "'d virtio_dev \<Rightarrow> u32 \<Rightarrow> 'd vstate \<Rightarrow> u64" where
  "virtio_config64 D off s =
     (let base = vdev_base s + VIRTIO_MMIO_CONFIG + ucast off;
          lo = rd D (dev s) base; hi = rd D (dev s) (base + 4)
      in push_bit 32 (ucast hi) OR ucast lo)"

definition virtio_mmio_base :: "'d vstate \<Rightarrow> u64" where
  "virtio_mmio_base s = vdev_base s"



subsection \<open>Fields\<close>

lemma length_le_bytes [simp]: "length (le_bytes n v) = n"
  by (induction n arbitrary: v) auto

lemma le_value_bytes: "le_value (le_bytes n v) = take_bit (8 * n) v"
proof (induction n arbitrary: v)
  case 0
  then show ?case by simp
next
  case (Suc n)
  have "le_value (le_bytes (Suc n) v) = ucast (ucast v :: u8) OR push_bit 8 (take_bit (8 * n) (drop_bit 8 v))"
    using Suc by simp
  also have "\<dots> = take_bit (8 * Suc n) v"
    by (rule bit_word_eqI) (auto simp: bit_simps)
  finally show ?case .
qed

lemma le_value_bound: "take_bit (8 * length bs) (le_value bs) = le_value bs"
proof (induction bs)
  case Nil
  then show ?case by simp
next
  case (Cons b bs)
  have b: "\<not> bit (le_value bs) k" if "8 * length bs \<le> k" for k
    using arg_cong [OF Cons, of "\<lambda>x. bit x k"] that by (simp add: bit_take_bit_iff)
  show ?case
  proof (rule bit_word_eqI)
    fix k
    assume "k < LENGTH(64)"
    show "bit (take_bit (8 * length (b # bs)) (le_value (b # bs))) k = bit (le_value (b # bs)) k"
    proof (cases "k < 8 * length (b # bs)")
      case True
      then show ?thesis by (simp only: bit_take_bit_iff simp_thms)
    next
      case False
      then have "8 * length bs \<le> k - 8" "8 \<le> k" by simp_all
      then have "\<not> bit (le_value (b # bs)) k"
        using b bit_imp_le_length [of b k] by (auto simp: bit_simps)
      with False show ?thesis by (simp only: bit_take_bit_iff simp_thms)
    qed
  qed
qed

lemma get_le_bound: "get_le n off m = Some v \<Longrightarrow> take_bit (8 * n) v = v"
  using le_value_bound [of "take n (drop off m)"] by (auto simp: get_le_def split: if_splits)

lemma ucast_ucast16: "ucast (ucast v :: u16) = take_bit 16 (v :: u64)"
  by (rule bit_word_eqI) (auto simp: bit_simps)

lemma get_le_u16: "get_le 2 off m = Some v \<Longrightarrow> ucast (ucast v :: u16) = v"
  using get_le_bound [of 2 off m v] by (simp add: ucast_ucast16)

lemma put_le_length: "put_le n off v m = Some m' \<Longrightarrow> length m' = length m"
  by (auto simp: put_le_def split: if_splits)

lemma put_le_Some: "off + n \<le> length m \<Longrightarrow> \<exists>m'. put_le n off v m = Some m' \<and> length m' = length m"
  by (auto simp: put_le_def)

lemma get_put_same: "put_le n off v m = Some m' \<Longrightarrow> get_le n off m' = Some (take_bit (8 * n) v)"
  by (auto simp: put_le_def get_le_def le_value_bytes split: if_splits)

lemma get_put_other:
  assumes "put_le n off v m = Some m'" "k + j \<le> off \<or> off + n \<le> k"
  shows "get_le j k m' = get_le j k m"
proof -
  have m': "m' = take off m @ le_bytes n v @ drop (off + n) m" "off + n \<le> length m"
    using assms(1) by (auto simp: put_le_def split: if_splits)
  show ?thesis
  proof (cases "k + j \<le> off")
    case True
    then have "take j (drop k (take off m)) = take j (drop k m)"
      by (simp add: drop_take)
    then show ?thesis using m' True by (simp add: get_le_def)
  next
    case False
    then have "off + n \<le> k" using assms(2) by simp
    then have "drop k m' = drop k m" using m' by simp
    then show ?thesis using m' by (simp add: get_le_def)
  qed
qed


subsection \<open>The queue layout\<close>

lemma used_off_page:
  assumes "0 < n" "n \<le> 128"
  shows "unat (used_off n) = 4096" and "unat (avail_off n) = 16 * unat n"
proof -
  have n: "0 < unat n" "unat n \<le> 128" using assms by (simp_all add: word_less_nat_alt word_le_nat_alt)
  have w: "unat (16 * n) = 16 * unat n" "unat (2 * n) = 2 * unat n" using n by (simp_all add: unat_word_ariths)
  then show "unat (avail_off n) = 16 * unat n" using n by (simp add: avail_off_def)
  have "unat (16 * ucast n + 6 + ucast (2 * n) + 4096 - 1 :: u64) = 18 * unat n + 4101"
  proof -
    have e: "(16 * ucast n + 6 + ucast (2 * n) + 4096 - 1 :: u64) = of_nat (18 * unat n + 4101)"
    proof -
      have "(ucast n :: u64) = of_nat (unat n)" "(ucast (2 * n) :: u64) = of_nat (2 * unat n)"
        unfolding w(2) [symmetric] by (simp_all only: of_nat_unat)
      then show ?thesis by simp
    qed
    show ?thesis unfolding e unat_of_nat using n by simp
  qed
  moreover have "(4096 - 1 :: u64) = mask 12" by (simp add: mask_eq_exp_minus_1)
  ultimately have "unat (used_off n) = 18 * unat n + 4101 - (18 * unat n + 4101) mod 2 ^ 12"
    unfolding used_off_def by (simp only: unat_and_not_mask)
  also have "\<dots> = 4096"
  proof -
    have "(18 * unat n + 4101) mod 4096 = 18 * unat n + 5" using n by (simp add: mod_if)
    then show ?thesis by simp
  qed
  finally show "unat (used_off n) = 4096" .
qed


subsection \<open>Initialisation\<close>

lemma emit_vstate [simp]:
  "dev (emit ps s) = dev s" "mem (emit ps s) = mem s" "vdev_base (emit ps s) = vdev_base s"
  "vq_size (emit ps s) = vq_size s" "qavail (emit ps s) = qavail s" "qused (emit ps s) = qused s"
  "used_seen (emit ps s) = used_seen s" "mmio (emit ps s) = mmio s"
  by (simp_all add: emit_def)

lemma reg_write_vstate [simp]:
  "mem (reg_write D b off v s) = mem s" "vdev_base (reg_write D b off v s) = vdev_base s"
  "vq_size (reg_write D b off v s) = vq_size s" "qavail (reg_write D b off v s) = qavail s"
  "qused (reg_write D b off v s) = qused s" "used_seen (reg_write D b off v s) = used_seen s"
  "mmio (reg_write D b off v s) = mmio s @ [(b + ucast off, v)]" "out (reg_write D b off v s) = out s"
  by (simp_all add: reg_write_def)

lemma scan_slots_frame:
  "scan_slots D i k s = (b, s') \<Longrightarrow> mmio s' = mmio s \<and> mem s' = mem s \<and> used_seen s' = used_seen s"
  by (induction k arbitrary: i s) (auto simp: Let_def split: if_splits)

text \<open>The writes to the status register among the writes \<open>ws\<close>.\<close>

definition status_writes :: "u64 \<Rightarrow> (u64 \<times> u32) list \<Rightarrow> u32 list" where
  "status_writes base ws = map snd (filter (\<lambda>(a, v). a = base + 0x70) ws)"

lemma status_writes_simps [simp]:
  "status_writes base [] = []"
  "status_writes base (ws @ [(base + c, v)]) = status_writes base ws @ (if c = 0x70 then [v] else [])"
  by (simp_all add: status_writes_def)

lemma negotiate_frame:
  "negotiate D base s = (modern, s') \<Longrightarrow> mem s' = mem s \<and> used_seen s' = used_seen s \<and> vdev_base s' = base \<and>
     (\<exists>ws. mmio s' = mmio s @ ws \<and> status_writes base ws = [0, 1, 3, 11])"
  by (auto simp: negotiate_def Let_def status_writes_def)

lemma publish_queue_frame:
  "mem (publish_queue D y base modern s) = mem s" "used_seen (publish_queue D y base modern s) = used_seen s"
  "vdev_base (publish_queue D y base modern s) = vdev_base s" "vq_size (publish_queue D y base modern s) = vq_size s"
  "qavail (publish_queue D y base modern s) = qavail s" "qused (publish_queue D y base modern s) = qused s"
  "\<exists>ws. mmio (publish_queue D y base modern s) = mmio s @ ws \<and> status_writes base ws = []"
  by (auto simp: publish_queue_def Let_def status_writes_def)

lemma virtio_init_result:
  assumes "virtio_init D y s = (n, s')"
  defines "base \<equiv> fst (find_block_device D s)"
  shows "mem s' = mem s \<and> used_seen s' = used_seen s \<and> (\<exists>ws. mmio s' = mmio s @ ws \<and>
    (if n = 0 then (base = 0 \<and> ws = []) \<or> (base \<noteq> 0 \<and> status_writes base ws = [0, 1, 3, 11, 128])
     else base \<noteq> 0 \<and> n \<le> 128 \<and> vq_size s' = n \<and> vdev_base s' = base \<and>
       qavail s' = unat (avail_off n) \<and> qused s' = unat (used_off n) \<and>
       status_writes base ws = [0, 1, 3, 11, 15]))"
proof -
  obtain s1 where f: "find_block_device D s = (base, s1)" unfolding base_def by (metis prod.collapse)
  then have s1: "mmio s1 = mmio s" "mem s1 = mem s" "used_seen s1 = used_seen s"
    using scan_slots_frame [of D 0 32 s base s1] by (simp_all add: find_block_device_def)
  show ?thesis
  proof (cases "base = 0")
    case True
    then show ?thesis using assms(1) f s1 by (auto simp: virtio_init_def)
  next
    case False
    obtain modern s2 where neg: "negotiate D base s1 = (modern, s2)" by (metis prod.collapse)
    obtain ws where s2: "mem s2 = mem s" "used_seen s2 = used_seen s" "vdev_base s2 = base"
      "mmio s2 = mmio s @ ws" "status_writes base ws = [0, 1, 3, 11]"
      using negotiate_frame [OF neg] s1 by auto
    have app: "status_writes base (ws @ vs) = [0, 1, 3, 11] @ status_writes base vs" for vs
      using s2(5) by (simp add: status_writes_def)
    let ?s3 = "reg_write D base 0x030 0 (emit [Str ''virtio: features accepted by device\<newline>''] s2)"
    let ?qmax = "reg_read D base 0x034 ?s3"
    let ?n = "if ?qmax < 128 then ?qmax else 128"
    let ?s4 = "?s3\<lparr>vq_size := ?n, qavail := unat (avail_off ?n), qused := unat (used_off ?n)\<rparr>"
    let ?s5 = "publish_queue D y base modern (emit (queue_report y ?qmax ?s4) ?s4)"
    consider (rejected) "reg_read D base 0x070 s2 AND 8 = 0" | (empty) "reg_read D base 0x070 s2 AND 8 \<noteq> 0" "?qmax = 0"
      | (up) "reg_read D base 0x070 s2 AND 8 \<noteq> 0" "?qmax \<noteq> 0" by blast
    then show ?thesis
    proof cases
      case rejected
      then show ?thesis using assms(1) f neg False s2 by (auto simp: virtio_init_def Let_def fail_def app)
    next
      case empty
      then have "n = 0" "s' = fail D base ''queue 0 reports size 0'' ?s3"
        using assms(1) f neg False by (auto simp: virtio_init_def Let_def)
      then show ?thesis using False s2 by (auto simp: fail_def app status_writes_def)
    next
      case up
      have nz: "?n \<noteq> 0" "?n \<le> 128" using up(2) by (auto simp: not_less)
      have r: "n = ?n" "s' = emit [Str ''virtio: device status now '',
           Hex (ucast (reg_read D base 0x070 (reg_write D base 0x070 15 ?s5))), Str '' (DRIVER_OK set)\<newline>'']
         (reg_write D base 0x070 15 ?s5)"
        using assms(1) f neg False up by (auto simp: virtio_init_def Let_def publish_queue_frame)
      obtain us where us: "mmio ?s5 = mmio ?s3 @ us" "status_writes base us = []"
        using publish_queue_frame(7) [of D y base modern "emit (queue_report y ?qmax ?s4) ?s4"] by auto
      have "mmio s' = mmio s @ (ws @ [(base + 0x30, 0)] @ us @ [(base + 0x70, 15)])"
        using r(2) us(1) s2(4) by simp
      moreover have "status_writes base (ws @ [(base + 0x30, 0)] @ us @ [(base + 0x70, 15)]) = [0, 1, 3, 11, 15]"
        unfolding app using us(2) by (simp add: status_writes_def)
      ultimately show ?thesis using r nz False s2 by (auto simp: publish_queue_frame)
    qed
  qed
qed


subsection \<open>Polling\<close>

definition after :: "'d virtio_dev \<Rightarrow> nat \<Rightarrow> 'd vstate \<Rightarrow> 'd vstate" where
  "after D k s = (device_runs D ^^ k) s"

lemma device_runs_frame [simp]:
  "used_seen (device_runs D s) = used_seen s" "qused (device_runs D s) = qused s" "qavail (device_runs D s) = qavail s"
  "vq_size (device_runs D s) = vq_size s" "vdev_base (device_runs D s) = vdev_base s" "mmio (device_runs D s) = mmio s"
  "out (device_runs D s) = out s"
  by (simp_all add: device_runs_def split: prod.split)

lemma after_frame [simp]:
  "used_seen (after D k s) = used_seen s" "qused (after D k s) = qused s" "qavail (after D k s) = qavail s"
  "vq_size (after D k s) = vq_size s" "vdev_base (after D k s) = vdev_base s" "out (after D k s) = out s"
  unfolding after_def by (induction k) simp_all

lemma after_Suc: "after D (Suc k) s = after D k (device_runs D s)"
  by (simp add: after_def funpow_swap1)

lemma poll_completes:
  "k < n \<Longrightarrow> (\<And>j. j < k \<Longrightarrow> used_idx (after D (Suc j) s) = Some (used_seen s)) \<Longrightarrow>
   used_idx (after D (Suc k) s) = Some u \<Longrightarrow> u \<noteq> used_seen s \<Longrightarrow>
   poll_used D n s = Completed (after D (Suc k) s)"
proof (induction n arbitrary: k s)
  case 0
  then show ?case by simp
next
  case (Suc n)
  show ?case
  proof (cases k)
    case 0
    then show ?thesis using Suc.prems by (simp add: after_def Let_def)
  next
    case (Suc k')
    have "used_idx (device_runs D s) = Some (used_seen s)"
      using Suc.prems(2) [of 0] Suc by (simp add: after_def)
    moreover have "poll_used D n (device_runs D s) = Completed (after D (Suc k') (device_runs D s))"
    proof (rule Suc.IH)
      show "k' < n" using Suc.prems(1) Suc by simp
      show "used_idx (after D (Suc j) (device_runs D s)) = Some (used_seen (device_runs D s))" if "j < k'" for j
        using Suc.prems(2) [of "Suc j"] that Suc by (simp add: after_Suc [of D "Suc j" s])
      show "used_idx (after D (Suc k') (device_runs D s)) = Some u" "u \<noteq> used_seen (device_runs D s)"
        using Suc.prems(3,4) Suc by (simp_all add: after_Suc [of D "Suc k'" s])
    qed
    ultimately show ?thesis using Suc by (simp add: Let_def after_Suc [of D "Suc k'" s])
  qed
qed

lemma poll_times_out:
  "(\<And>j. j < n \<Longrightarrow> used_idx (after D (Suc j) s) = Some (used_seen s)) \<Longrightarrow> poll_used D n s = TimedOut (after D n s)"
proof (induction n arbitrary: s)
  case 0
  then show ?case by (simp add: after_def)
next
  case (Suc n)
  have "used_idx (device_runs D s) = Some (used_seen s)" using Suc.prems [of 0] by (simp add: after_def)
  moreover have "poll_used D n (device_runs D s) = TimedOut (after D n (device_runs D s))"
    by (rule Suc.IH) (use Suc.prems [of "Suc j" for j] in \<open>simp add: after_Suc [of D "Suc j" s for j]\<close>)
  ultimately show ?case by (simp add: Let_def after_Suc)
qed


text \<open>A device that does not resize the queue region, which no device can.\<close>

definition keeps_qmem :: "'d virtio_dev \<Rightarrow> bool" where
  "keeps_qmem D \<longleftrightarrow> (\<forall>d m. length (qmem (snd (run D d m))) = length (qmem m))"

lemma device_runs_qmem: "keeps_qmem D \<Longrightarrow> length (qmem (mem (device_runs D s))) = length (qmem (mem s))"
  by (simp add: device_runs_def keeps_qmem_def split: prod.split) (metis snd_conv)

lemma after_qmem: "keeps_qmem D \<Longrightarrow> length (qmem (mem (after D k s))) = length (qmem (mem s))"
  unfolding after_def by (induction k) (simp_all add: device_runs_qmem)

text \<open>The rings in their place, as \<open>virtio_init\<close> leaves them.\<close>

definition queue_ready :: "'d vstate \<Rightarrow> bool" where
  "queue_ready s \<longleftrightarrow> 0 < vq_size s \<and> vq_size s \<le> 128 \<and> qavail s = 16 * unat (vq_size s) \<and> qused s = 4096 \<and>
     length (qmem (mem s)) = QMEM_SIZE"

lemma queue_ready_bound: "queue_ready s \<Longrightarrow> 0 < unat (vq_size s) \<and> unat (vq_size s) \<le> 128"
  by (simp add: queue_ready_def word_less_nat_alt word_le_nat_alt)

lemma get_qmem_Some: "off + n \<le> length (qmem (mem s)) \<Longrightarrow> \<exists>v. get_qmem n off s = Some v"
  by (simp add: get_qmem_def get_le_def)

lemma put_qmem_cases:
  assumes "off + n \<le> length (qmem (mem s))"
  shows "\<exists>q. put_qmem n off v s = Some (s\<lparr>mem := (mem s)\<lparr>qmem := q\<rparr>\<rparr>) \<and> put_le n off v (qmem (mem s)) = Some q \<and>
    length q = length (qmem (mem s))"
  using put_le_Some [OF assms, of v] by (auto simp: put_qmem_def)

lemma take_bit_ucast16: "take_bit 16 (ucast (x :: u16) :: u64) = ucast x"
  by (rule bit_word_eqI) (auto simp: bit_simps dest: bit_imp_le_length)

text \<open>The kick: ring entry and index, and nothing else of the queue.\<close>

lemma kick_runs:
  assumes "queue_ready s"
  shows "\<exists>q idx. kick D head s = Some (reg_write D (vdev_base s) 0x050 0 (s\<lparr>mem := (mem s)\<lparr>qmem := q\<rparr>\<rparr>)) \<and>
    length q = QMEM_SIZE \<and> get_qmem 2 (qavail s + 2) s = Some (ucast (idx :: u16)) \<and>
    get_le 2 (qavail s + 2) q = Some (ucast (idx + 1)) \<and>
    get_le 2 (qavail s + 4 + 2 * (unat idx mod unat (vq_size s))) q = Some (ucast head) \<and>
    (\<forall>j k. k + j \<le> qavail s \<or> qavail s + 4 + 2 * unat (vq_size s) \<le> k \<longrightarrow> get_le j k q = get_le j k (qmem (mem s)))"
proof -
  note n = queue_ready_bound [OF assms]
  have len: "length (qmem (mem s)) = 5128" and av: "qavail s = 16 * unat (vq_size s)"
    and nz: "vq_size s \<noteq> 0"
    using assms by (auto simp: queue_ready_def)
  obtain v where v: "get_qmem 2 (qavail s + 2) s = Some v"
    using get_qmem_Some [of "qavail s + 2" 2 s] n len av by auto
  define idx where "idx = (ucast v :: u16)"
  have vi: "v = ucast idx"
    using v get_le_u16 by (simp add: idx_def get_qmem_def)
  have r: "unat idx mod unat (vq_size s) < unat (vq_size s)" using n by simp
  let ?r = "qavail s + 4 + 2 * (unat idx mod unat (vq_size s))"
  obtain q1 where q1: "put_qmem 2 ?r (ucast head) s = Some (s\<lparr>mem := (mem s)\<lparr>qmem := q1\<rparr>\<rparr>)"
    "put_le 2 ?r (ucast head) (qmem (mem s)) = Some q1" "length q1 = 5128"
    using put_qmem_cases [of ?r 2 s "ucast head"] r n len av by auto
  let ?s1 = "s\<lparr>mem := (mem s)\<lparr>qmem := q1\<rparr>\<rparr>"
  obtain q2 where q2: "put_qmem 2 (qavail s + 2) (ucast (idx + 1)) ?s1 = Some (s\<lparr>mem := (mem s)\<lparr>qmem := q2\<rparr>\<rparr>)"
    "put_le 2 (qavail s + 2) (ucast (idx + 1)) q1 = Some q2" "length q2 = 5128"
    using put_qmem_cases [of "qavail s + 2" 2 ?s1 "ucast (idx + 1)"] n av q1(3) by auto
  have "kick D head s = Some (reg_write D (vdev_base s) 0x050 0 (s\<lparr>mem := (mem s)\<lparr>qmem := q2\<rparr>\<rparr>))"
    using v q1(1) q2(1) nz by (simp add: kick_def idx_def [symmetric])
  moreover have "get_le 2 (qavail s + 2) q2 = Some (ucast (idx + 1))"
    using get_put_same [OF q2(2)] take_bit_ucast16 by simp
  moreover have "get_le 2 ?r q2 = Some (ucast head)"
    using get_put_other [OF q2(2), of ?r 2] get_put_same [OF q1(2)] take_bit_ucast16 by simp
  moreover have "get_le j k q2 = get_le j k (qmem (mem s))"
    if "k + j \<le> qavail s \<or> qavail s + 4 + 2 * unat (vq_size s) \<le> k" for j k
    using get_put_other [OF q2(2), of k j] get_put_other [OF q1(2), of k j] that r by auto
  ultimately show ?thesis using q2(3) v vi by blast
qed


lemma queue_ready_kick:
  "queue_ready s \<Longrightarrow> kick D head s = Some s1 \<Longrightarrow> queue_ready s1 \<and> used_seen s1 = used_seen s \<and> vq_size s1 = vq_size s"
  using kick_runs [of s D head] by (auto simp: queue_ready_def)

lemma queue_ready_after:
  "queue_ready s \<Longrightarrow> keeps_qmem D \<Longrightarrow> queue_ready (after D k s)"
  by (simp add: queue_ready_def after_qmem)

text \<open>Where the driver looks for the completion it has not seen yet.\<close>

definition used_slot :: "'d vstate \<Rightarrow> nat" where
  "used_slot s = qused s + 4 + 8 * (unat (used_seen s) mod unat (vq_size s))"

lemma used_slot_bound: "queue_ready s \<Longrightarrow> used_slot s + 8 \<le> length (qmem (mem s))"
proof -
  assume r: "queue_ready s"
  note n = queue_ready_bound [OF r]
  have "unat (used_seen s) mod unat (vq_size s) < unat (vq_size s)" using n by simp
  then have "unat (used_seen s) mod unat (vq_size s) < 128" using n by linarith
  then show ?thesis using r by (simp add: used_slot_def queue_ready_def)
qed

lemma kick_wait_timeout:
  assumes r: "queue_ready s" and D: "keeps_qmem D" and k: "kick D head s = Some s1"
    and quiet: "\<And>j. j < 100000000 \<Longrightarrow> used_idx (after D (Suc j) s1) = Some (used_seen s)"
  shows "\<exists>s'. virtio_kick_wait D head s = Some (- 1, s') \<and> used_seen s' = used_seen s"
proof -
  have r1: "queue_ready s1" "used_seen s1 = used_seen s" using queue_ready_kick [OF r k] by simp_all
  let ?s2 = "after D 100000000 s1"
  have p: "poll_used D 100000000 s1 = TimedOut ?s2" using poll_times_out [of 100000000 D s1] quiet r1(2) by simp
  have r2: "queue_ready ?s2" using queue_ready_after [OF r1(1) D] .
  obtain u a where "get_qmem 2 (qused ?s2 + 2) ?s2 = Some u" "get_qmem 2 (qavail ?s2 + 2) ?s2 = Some a"
    using get_qmem_Some [of "qused ?s2 + 2" 2 ?s2] get_qmem_Some [of "qavail ?s2 + 2" 2 ?s2] r2
      queue_ready_bound [OF r2] by (auto simp: queue_ready_def)
  then show ?thesis using k p r1(2) by (simp add: virtio_kick_wait_def timeout_report_def)
qed

lemma kick_wait_completion:
  assumes r: "queue_ready s" and D: "keeps_qmem D" and k: "kick D head s = Some s1"
    and n: "n < 100000000" and quiet: "\<And>j. j < n \<Longrightarrow> used_idx (after D (Suc j) s1) = Some (used_seen s)"
    and fin: "used_idx (after D (Suc n) s1) \<noteq> Some (used_seen s)"
  defines "s2 \<equiv> after D (Suc n) s1"
  shows "\<exists>e_id e_len. get_qmem 4 (used_slot s2) s2 = Some e_id \<and> get_qmem 4 (used_slot s2 + 4) s2 = Some e_len \<and>
    virtio_kick_wait D head s = Some (if e_id = ucast head then sint (ucast e_len :: u32) else - 2,
      s2\<lparr>used_seen := used_seen s + 1\<rparr>)"
proof -
  have r1: "queue_ready s1" "used_seen s1 = used_seen s" using queue_ready_kick [OF r k] by simp_all
  have r2: "queue_ready s2" unfolding s2_def using queue_ready_after [OF r1(1) D] .
  have "\<exists>v. get_qmem 2 (qused s2 + 2) s2 = Some v"
    using get_qmem_Some [of "qused s2 + 2" 2 s2] r2 by (simp add: queue_ready_def)
  then obtain u where u: "used_idx s2 = Some u" by (auto simp: used_idx_def)
  then have "poll_used D 100000000 s1 = Completed s2"
    using poll_completes [OF n, of D s1 u] quiet fin r1(2) by (simp add: s2_def)
  moreover obtain i l where "get_qmem 4 (used_slot s2) s2 = Some i" "get_qmem 4 (used_slot s2 + 4) s2 = Some l"
    using get_qmem_Some [of "used_slot s2" 4 s2] get_qmem_Some [of "used_slot s2 + 4" 4 s2]
      used_slot_bound [OF r2] by auto
  moreover have "used_seen s2 = used_seen s" using r1(2) by (simp add: s2_def)
  ultimately show ?thesis using k by (simp add: virtio_kick_wait_def used_slot_def)
qed


subsection \<open>Properties\<close>

text \<open>
  The queue fits its memory: for every queue size the driver can negotiate, descriptor table,
  available ring and used ring are disjoint, in this order, inside the 5128 bytes of \<open>qmem\<close>, and
  with the region on a page boundary so is the used ring.
\<close>

theorem queue_layout_fits:
  assumes "0 < n" "n \<le> VQ_NUM" "a_qmem y AND 4095 = 0"
  shows "16 * unat n \<le> unat (avail_off n) \<and>
    unat (avail_off n) + 6 + 2 * unat n \<le> unat (used_off n) \<and>
    unat (used_off n) + 6 + 8 * unat n \<le> QMEM_SIZE \<and>
    unat (avail_off n) mod 2 = 0 \<and> (a_qmem y + used_off n) AND 4095 = 0"
proof -
  have n: "unat n \<le> 128" using assms(2) by (simp add: word_le_nat_alt)
  have "used_off n = 4096" using used_off_page(1) [OF assms(1,2)] by (simp add: word_unat_eq_iff)
  moreover have "(4095 :: u64) = mask 12" by (simp add: mask_eq_exp_minus_1)
  ultimately have "(a_qmem y + used_off n) AND 4095 = 0"
    using and_mask_add_0 [of "a_qmem y" 12 4096] assms(3) by simp
  then show ?thesis using used_off_page [OF assms(1,2)] n by simp
qed

theorem queue_layout_fits_witness:
  "unat (used_off 128) + 6 + 8 * unat (128 :: u32) \<le> QMEM_SIZE \<and> (0x80004000 + used_off 128) AND 4095 = 0"
  using queue_layout_fits [of 128 "\<lparr>a_qmem = 0x80004000, a_req = 0, a_status = 0, a_wbuf = 0, a_rbuf = 0\<rparr>"] by simp


text \<open>
  C24. \<open>virtio_kick_wait\<close> returns in every case. If the used index does not move for 100000000
  looks the result is -1 and no completion is consumed. If it moves at an earlier look, exactly
  one completion is consumed, the one at \<open>used_seen\<close> modulo the queue size, and the result is its
  length if it names the descriptor that was submitted and -2 if it names another one.
\<close>

theorem kick_wait_outcomes:
  assumes "queue_ready s" "keeps_qmem D" "kick D head s = Some s1"
  shows "((\<forall>j < 100000000. used_idx (after D (Suc j) s1) = Some (used_seen s)) \<longrightarrow>
      (\<exists>s'. virtio_kick_wait D head s = Some (- 1, s') \<and> used_seen s' = used_seen s)) \<and>
    (\<forall>k < 100000000. (\<forall>j < k. used_idx (after D (Suc j) s1) = Some (used_seen s)) \<and>
        used_idx (after D (Suc k) s1) \<noteq> Some (used_seen s) \<longrightarrow>
      (\<exists>e_id e_len s'. get_qmem 4 (used_slot (after D (Suc k) s1)) (after D (Suc k) s1) = Some e_id \<and>
         get_qmem 4 (used_slot (after D (Suc k) s1) + 4) (after D (Suc k) s1) = Some e_len \<and>
         virtio_kick_wait D head s = Some (if e_id = ucast head then sint (ucast e_len :: u32) else - 2, s') \<and>
         used_seen s' = used_seen s + 1))"
proof (intro conjI allI impI)
  assume "\<forall>j < 100000000. used_idx (after D (Suc j) s1) = Some (used_seen s)"
  then show "\<exists>s'. virtio_kick_wait D head s = Some (- 1, s') \<and> used_seen s' = used_seen s"
    using kick_wait_timeout [OF assms] by blast
next
  fix k :: nat
  assume k: "k < 100000000" "(\<forall>j < k. used_idx (after D (Suc j) s1) = Some (used_seen s)) \<and>
        used_idx (after D (Suc k) s1) \<noteq> Some (used_seen s)"
  from kick_wait_completion [OF assms k(1)] k(2)
  show "\<exists>e_id e_len s'. get_qmem 4 (used_slot (after D (Suc k) s1)) (after D (Suc k) s1) = Some e_id \<and>
         get_qmem 4 (used_slot (after D (Suc k) s1) + 4) (after D (Suc k) s1) = Some e_len \<and>
         virtio_kick_wait D head s = Some (if e_id = ucast head then sint (ucast e_len :: u32) else - 2, s') \<and>
         used_seen s' = used_seen s + 1" by fastforce
qed

text \<open>A device that answers nothing, for the witness.\<close>

definition dead_dev :: "unit virtio_dev" where
  "dead_dev = \<lparr>rd = (\<lambda>d a. 0), wr = (\<lambda>d a v. d), run = (\<lambda>d m. (d, m))\<rparr>"

definition idle_state :: "unit vstate" where
  "idle_state = \<lparr>out = [], dev = (), mem = \<lparr>qmem = replicate 5128 0,
      req = \<lparr>req_type = 0, req_reserved = 0, req_sector = 0\<rparr>, status_byte = 0, wbuf = [], rbuf = []\<rparr>,
     vdev_base = 0x10001000, vq_size = 8, qavail = 128, qused = 4096, used_seen = 0, mmio = []\<rparr>"

lemma dead_dev_after: "after dead_dev k s = s"
  unfolding after_def by (induction k) (simp_all add: device_runs_def dead_dev_def)

theorem kick_wait_outcomes_witness:
  "\<exists>s'. virtio_kick_wait dead_dev 0 idle_state = Some (- 1, s') \<and> used_seen s' = 0"
proof -
  have r: "queue_ready idle_state" "keeps_qmem dead_dev"
    by (simp_all add: queue_ready_def idle_state_def keeps_qmem_def dead_dev_def)
  obtain s1 where s1: "kick dead_dev 0 idle_state = Some s1"
    "\<forall>j k. k + j \<le> 128 \<or> 148 \<le> k \<longrightarrow> get_le j k (qmem (mem s1)) = get_le j k (qmem (mem idle_state))"
    "qused s1 = 4096" "used_seen s1 = 0"
    using kick_runs [OF r(1), of dead_dev 0] by (auto simp: idle_state_def)
  have "used_idx s1 = Some 0"
    using s1(2,3) by (simp add: used_idx_def get_qmem_def) (simp add: get_le_def idle_state_def numeral_2_eq_2)
  then show ?thesis
    using kick_wait_outcomes [OF r s1(1)] by (simp add: dead_dev_after idle_state_def)
qed


end
