(* ===== verification/Blk.thy ===== *)
theory Blk
  imports Virtio
begin

text \<open>
  \<open>src/src/virtio-blk/blk.c\<close> and \<open>bmain.c\<close>: sector reads and writes over the transport, and the
  demo that writes a pattern, reads it back and compares. What a block device does with a
  submitted chain is written down once, from the virtio specification, as the function \<open>serve\<close>;
  a device that behaves so is a hypothesis of the round-trip theorem.
\<close>

unbundle bit_operations_syntax


subsection \<open>blk.c\<close>

text \<open>The buffers requests are made with.\<close>

datatype buf = WBuf | RBuf

definition buf_addr :: "blk_syms \<Rightarrow> buf \<Rightarrow> u64" where
  "buf_addr y b = (case b of WBuf \<Rightarrow> a_wbuf y | RBuf \<Rightarrow> a_rbuf y)"

definition blk_op :: "'d virtio_dev \<Rightarrow> blk_syms \<Rightarrow> u64 \<Rightarrow> buf \<Rightarrow> bool \<Rightarrow> 'd vstate \<Rightarrow> (int \<times> 'd vstate) option" where
  "blk_op D y sector data write s = do {
     let s0 = s\<lparr>mem := (mem s)\<lparr>req := \<lparr>req_type = (if write then 1 else 0), req_reserved = 0, req_sector = sector\<rparr>,
                               status_byte := 0xff\<rparr>\<rparr>;
     s1 \<leftarrow> virtio_desc_set 0 (a_req y) 16 1 1 s0;
     s2 \<leftarrow> virtio_desc_set 1 (buf_addr y data) 512 (1 OR (if write then 0 else 2)) 2 s1;
     s3 \<leftarrow> virtio_desc_set 2 (a_status y) 1 2 0 s2;
     (r, s4) \<leftarrow> virtio_kick_wait D 0 s3;
     if r < 0 then Some (r, s4)
     else if status_byte (mem s4) \<noteq> 0 then Some (100 + int (unat (status_byte (mem s4))), s4)
     else Some (0, s4) }"

definition blk_write :: "'d virtio_dev \<Rightarrow> blk_syms \<Rightarrow> u64 \<Rightarrow> buf \<Rightarrow> 'd vstate \<Rightarrow> (int \<times> 'd vstate) option" where
  "blk_write D y sector data s = blk_op D y sector data True s"

definition blk_read :: "'d virtio_dev \<Rightarrow> blk_syms \<Rightarrow> u64 \<Rightarrow> buf \<Rightarrow> 'd vstate \<Rightarrow> (int \<times> 'd vstate) option" where
  "blk_read D y sector data s = blk_op D y sector data False s"


subsection \<open>bmain.c\<close>

definition fnv1a :: "u8 list \<Rightarrow> nat \<Rightarrow> u32" where
  "fnv1a p n = foldl (\<lambda>h b. (h XOR ucast b) * 16777619) 2166136261 (take n p)"

text \<open>The deterministic pattern.\<close>

definition pattern_byte :: "nat \<Rightarrow> u8" where
  "pattern_byte i = ucast ((of_nat i :: u64) XOR drop_bit 8 (of_nat i) XOR 0x5a)"

definition pattern :: "u8 list" where
  "pattern = map pattern_byte [0..<512]"

text \<open>The comparison loop, from index \<open>i\<close>: number of mismatches and the first of them.\<close>

fun compare_loop :: "nat \<Rightarrow> u8 list \<Rightarrow> u8 list \<Rightarrow> u64 \<times> u64 \<Rightarrow> u64 \<times> u64" where
  "compare_loop i (r # rs) (w # ws) (mismatches, first_bad) =
     compare_loop (Suc i) rs ws
       (if r \<noteq> w then (mismatches + 1, if mismatches = 0 then of_nat i else first_bad) else (mismatches, first_bad))"
| "compare_loop i _ _ acc = acc"

definition rc_text :: "int \<Rightarrow> piece list" where
  "rc_text rc = [Dec (of_int (if rc < 0 then - rc else rc)),
     Str (if rc < 0 then '' (transport error)'' else '' (device status OK)'')]"

definition verdict_text :: "u32 \<Rightarrow> u8 list \<Rightarrow> u8 list \<Rightarrow> piece list" where
  "verdict_text wsum r w =
     (let rsum = fnv1a r 512; (mismatches, first_bad) = compare_loop 0 r w (0, 0) in
      [Str ''virtio-blk: read checksum 0x'', Hex (ucast rsum), Str '', byte mismatches '', Dec mismatches] @
      (if mismatches > 0 then [Str '' (first at offset '', Dec first_bad, Str '')''] else []) @
      [Str ''\<newline>\<newline>''] @
      (if mismatches = 0 \<and> rsum = wsum
       then [Str ''RESULT: PASS (512/512 bytes round-tripped through sector 0)\<newline>'', Str ''virtio-blk: halting.\<newline>'']
       else [Str ''RESULT: FAIL\<newline>'']))"

text \<open>\<open>main\<close> with its return value.\<close>

definition banner :: "piece list" where
  "banner = [Str ''========================================\<newline>'',
             Str ''virtio-blk demo: block driver, sector write/read\<newline>'',
             Str ''========================================\<newline>\<newline>'']"

definition bmain :: "'d virtio_dev \<Rightarrow> blk_syms \<Rightarrow> 'd vstate \<Rightarrow> (int \<times> 'd vstate) option" where
  "bmain D y s = do {
     let (n, s1) = virtio_init D y (emit banner s);
     if n = 0 then Some (1, emit [Str ''virtio-blk: init failed, halting.\<newline>''] s1)
     else do {
       let capacity = virtio_config64 D 0 s1;
       let s2 = emit [Str ''virtio-blk: device capacity '', Dec capacity, Str '' sectors ('', Dec (capacity div 2048),
                      Str '' MiB)\<newline>\<newline>''] s1;
       let s3 = s2\<lparr>mem := (mem s2)\<lparr>wbuf := pattern\<rparr>\<rparr>;
       let wsum = fnv1a (wbuf (mem s3)) 512;
       (rc, s4) \<leftarrow> blk_write D y 0 WBuf s3;
       let s5 = emit ([Str ''virtio-blk: write sector 0 -> rc=''] @ rc_text rc @
                      [Str '', pattern checksum 0x'', Hex (ucast wsum), Str ''\<newline>'']) s4;
       let s6 = s5\<lparr>mem := (mem s5)\<lparr>rbuf := replicate 512 0xaa\<rparr>\<rparr>;
       (rc2, s7) \<leftarrow> blk_read D y 0 RBuf s6;
       let s8 = emit ([Str ''virtio-blk: read  sector 0 -> rc=''] @ rc_text rc2 @ [Str ''\<newline>'']) s7;
       let s9 = emit (verdict_text wsum (rbuf (mem s8)) (wbuf (mem s8))) s8;
       Some (if fst (compare_loop 0 (rbuf (mem s8)) (wbuf (mem s8)) (0, 0)) = 0 \<and>
                fnv1a (rbuf (mem s8)) 512 = wsum then 0 else 1, s9) } }"


subsection \<open>What a block device does with a request\<close>

definition desc_at :: "nat \<Rightarrow> u8 list \<Rightarrow> (u64 \<times> u64 \<times> u64 \<times> u64) option" where
  "desc_at i q = do {
     a \<leftarrow> get_le 8 (16 * i) q; l \<leftarrow> get_le 4 (16 * i + 8) q;
     f \<leftarrow> get_le 2 (16 * i + 12) q; n \<leftarrow> get_le 2 (16 * i + 14) q; Some (a, l, f, n) }"

text \<open>The three-descriptor chain from \<open>head\<close>: is its data part device-writable, and which buffer is it?\<close>

definition chain_at :: "blk_syms \<Rightarrow> u8 list \<Rightarrow> u64 \<Rightarrow> (bool \<times> buf) option" where
  "chain_at y q head = do {
     (a0, l0, f0, n0) \<leftarrow> desc_at (unat head) q;
     (a1, l1, f1, n1) \<leftarrow> desc_at (unat n0) q;
     (a2, l2, f2, n2) \<leftarrow> desc_at (unat n1) q;
     if a0 = a_req y \<and> l0 = 16 \<and> f0 = 1 \<and> l1 = 512 \<and> f1 \<in> {1, 3} \<and> a2 = a_status y \<and> l2 = 1 \<and> f2 = 2 then
       (if a1 = a_wbuf y then Some (f1 = 3, WBuf) else if a1 = a_rbuf y then Some (f1 = 3, RBuf) else None)
     else None }"

definition buf_get :: "buf \<Rightarrow> dma \<Rightarrow> u8 list" where
  "buf_get b m = (case b of WBuf \<Rightarrow> wbuf m | RBuf \<Rightarrow> rbuf m)"

definition buf_set :: "buf \<Rightarrow> u8 list \<Rightarrow> dma \<Rightarrow> dma" where
  "buf_set b v m = (case b of WBuf \<Rightarrow> m\<lparr>wbuf := v\<rparr> | RBuf \<Rightarrow> m\<lparr>rbuf := v\<rparr>)"

text \<open>
  Serving the newest entry of the available ring of a queue of size \<open>n\<close> on the disk \<open>disk\<close>: the
  data transfer, the status byte 0, one used-ring element with the chain's head, the used index.
\<close>

definition serve :: "blk_syms \<Rightarrow> nat \<Rightarrow> (u64 \<Rightarrow> u8 list) \<Rightarrow> dma \<Rightarrow> ((u64 \<Rightarrow> u8 list) \<times> dma) option" where
  "serve y n disk m = do {
     let q = qmem m;
     idx \<leftarrow> get_le 2 (16 * n + 2) q;
     head \<leftarrow> get_le 2 (16 * n + 4 + 2 * (unat ((ucast idx :: u16) - 1) mod n)) q;
     (dw, b) \<leftarrow> chain_at y q head;
     u \<leftarrow> get_le 2 (4096 + 2) q;
     q1 \<leftarrow> put_le 4 (4096 + 4 + 8 * (unat u mod n)) head q;
     q2 \<leftarrow> put_le 4 (4096 + 4 + 8 * (unat u mod n) + 4) (if dw then 513 else 1) q1;
     q3 \<leftarrow> put_le 2 (4096 + 2) (ucast ((ucast u :: u16) + 1)) q2;
     let m' = m\<lparr>qmem := q3, status_byte := 0\<rparr>;
     if req_type (req m) = 1 \<and> \<not> dw then Some (disk(req_sector (req m) := buf_get b m), m')
     else if req_type (req m) = 0 \<and> dw then Some (disk, buf_set b (disk (req_sector (req m))) m')
     else None }"

text \<open>
  A conforming device: a write to QueueNotify leaves it with a request to serve and its disk as it
  was, and when it next runs it serves that request as above.
\<close>

definition conforming :: "'d virtio_dev \<Rightarrow> blk_syms \<Rightarrow> u64 \<Rightarrow> nat \<Rightarrow> ('d \<Rightarrow> bool) \<Rightarrow> ('d \<Rightarrow> u64 \<Rightarrow> u8 list) \<Rightarrow> bool" where
  "conforming D y base n pending disk \<longleftrightarrow>
     keeps_qmem D \<and>
     (\<forall>d. pending (wr D d (base + 0x50) 0) \<and> disk (wr D d (base + 0x50) 0) = disk d) \<and>
     (\<forall>d m k m'. pending d \<and> serve y n (disk d) m = Some (k, m') \<longrightarrow>
        (\<exists>d'. run D d m = (d', m') \<and> disk d' = k))"



subsection \<open>The descriptor chain\<close>

lemma take_bit_widths:
  "take_bit 64 (v :: u64) = v" "take_bit 32 (ucast (x :: u32) :: u64) = ucast x" "take_bit 16 (ucast (z :: u16) :: u64) = ucast z"
  by (rule bit_word_eqI; auto simp: bit_simps dest: bit_imp_le_length)+

lemma desc_set_runs:
  assumes "16 * i + 16 \<le> length (qmem (mem s))"
  shows "\<exists>q. virtio_desc_set i addr len flags nxt s = Some (s\<lparr>mem := (mem s)\<lparr>qmem := q\<rparr>\<rparr>) \<and>
    length q = length (qmem (mem s)) \<and> desc_at i q = Some (addr, ucast len, ucast flags, ucast nxt) \<and>
    (\<forall>j k. k + j \<le> 16 * i \<or> 16 * i + 16 \<le> k \<longrightarrow> get_le j k q = get_le j k (qmem (mem s)))"
proof -
  let ?m = "qmem (mem s)"
  obtain q1 where q1: "put_le 8 (16 * i) addr ?m = Some q1" "length q1 = length ?m"
    using put_le_Some [of "16 * i" 8 ?m addr] assms by auto
  obtain q2 where q2: "put_le 4 (16 * i + 8) (ucast len) q1 = Some q2" "length q2 = length ?m"
    using put_le_Some [of "16 * i + 8" 4 q1 "ucast len"] assms q1(2) by auto
  obtain q3 where q3: "put_le 2 (16 * i + 12) (ucast flags) q2 = Some q3" "length q3 = length ?m"
    using put_le_Some [of "16 * i + 12" 2 q2 "ucast flags"] assms q2(2) by auto
  obtain q4 where q4: "put_le 2 (16 * i + 14) (ucast nxt) q3 = Some q4" "length q4 = length ?m"
    using put_le_Some [of "16 * i + 14" 2 q3 "ucast nxt"] assms q3(2) by auto
  have run: "virtio_desc_set i addr len flags nxt s = Some (s\<lparr>mem := (mem s)\<lparr>qmem := q4\<rparr>\<rparr>)"
    by (simp add: virtio_desc_set_def put_qmem_def q1(1) q2(1) q3(1) q4(1))
  have "get_le 8 (16 * i) q4 = Some addr"
    using get_put_other [OF q4(1), of "16 * i" 8] get_put_other [OF q3(1), of "16 * i" 8]
      get_put_other [OF q2(1), of "16 * i" 8] get_put_same [OF q1(1)] by (simp add: take_bit_widths)
  moreover have "get_le 4 (16 * i + 8) q4 = Some (ucast len)"
    using get_put_other [OF q4(1), of "16 * i + 8" 4] get_put_other [OF q3(1), of "16 * i + 8" 4]
      get_put_same [OF q2(1)] by (simp add: take_bit_widths)
  moreover have "get_le 2 (16 * i + 12) q4 = Some (ucast flags)"
    using get_put_other [OF q4(1), of "16 * i + 12" 2] get_put_same [OF q3(1)] by (simp add: take_bit_widths)
  moreover have "get_le 2 (16 * i + 14) q4 = Some (ucast nxt)"
    using get_put_same [OF q4(1)] by (simp add: take_bit_widths)
  moreover have "get_le j k q4 = get_le j k ?m" if "k + j \<le> 16 * i \<or> 16 * i + 16 \<le> k" for j k
    using get_put_other [OF q4(1), of k j] get_put_other [OF q3(1), of k j] get_put_other [OF q2(1), of k j]
      get_put_other [OF q1(1), of k j] that by auto
  ultimately show ?thesis using run q4(2) by (auto simp: desc_at_def)
qed

lemma desc_at_cong:
  "(\<And>j k. 16 * i \<le> k \<Longrightarrow> k + j \<le> 16 * i + 16 \<Longrightarrow> get_le j k q = get_le j k q') \<Longrightarrow> desc_at i q = desc_at i q'"
  by (simp add: desc_at_def)

text \<open>\<open>blk_op\<close> up to the submission: the request header, and the chain a device will decode.\<close>

definition submit :: "blk_syms \<Rightarrow> u64 \<Rightarrow> buf \<Rightarrow> bool \<Rightarrow> 'd vstate \<Rightarrow> 'd vstate option" where
  "submit y sector data write s = do {
     let s0 = s\<lparr>mem := (mem s)\<lparr>req := \<lparr>req_type = (if write then 1 else 0), req_reserved = 0, req_sector = sector\<rparr>,
                               status_byte := 0xff\<rparr>\<rparr>;
     s1 \<leftarrow> virtio_desc_set 0 (a_req y) 16 1 1 s0;
     s2 \<leftarrow> virtio_desc_set 1 (buf_addr y data) 512 (1 OR (if write then 0 else 2)) 2 s1;
     virtio_desc_set 2 (a_status y) 1 2 0 s2 }"

lemma blk_op_submit:
  "blk_op D y sector data write s = do {
     s3 \<leftarrow> submit y sector data write s;
     (r, s4) \<leftarrow> virtio_kick_wait D 0 s3;
     if r < 0 then Some (r, s4)
     else if status_byte (mem s4) \<noteq> 0 then Some (100 + int (unat (status_byte (mem s4))), s4)
     else Some (0, s4) }"
  by (simp add: blk_op_def submit_def Let_def)

lemma submit_runs:
  assumes "length (qmem (mem s)) = QMEM_SIZE"
  shows "\<exists>q. submit y sector data write s = Some (s\<lparr>mem := (mem s)\<lparr>qmem := q,
      req := \<lparr>req_type = (if write then 1 else 0), req_reserved = 0, req_sector = sector\<rparr>, status_byte := 0xff\<rparr>\<rparr>) \<and>
    length q = QMEM_SIZE \<and> desc_at 0 q = Some (a_req y, 16, 1, 1) \<and>
    desc_at 1 q = Some (buf_addr y data, 512, if write then 1 else 3, 2) \<and> desc_at 2 q = Some (a_status y, 1, 2, 0) \<and>
    (\<forall>j k. 48 \<le> k \<longrightarrow> get_le j k q = get_le j k (qmem (mem s)))"
proof -
  let ?s0 = "s\<lparr>mem := (mem s)\<lparr>req := \<lparr>req_type = (if write then 1 else 0), req_reserved = 0, req_sector = sector\<rparr>,
                               status_byte := 0xff\<rparr>\<rparr>"
  let ?f = "1 OR (if write then 0 else 2) :: u16"
  have fl: "(ucast ?f :: u64) = (if write then 1 else 3)" by simp
  obtain q1 where q1: "virtio_desc_set 0 (a_req y) 16 1 1 ?s0 = Some (?s0\<lparr>mem := (mem ?s0)\<lparr>qmem := q1\<rparr>\<rparr>)"
    "length q1 = 5128" "desc_at 0 q1 = Some (a_req y, 16, 1, 1)"
    "\<forall>j k. k + j \<le> 0 \<or> 16 \<le> k \<longrightarrow> get_le j k q1 = get_le j k (qmem (mem s))"
    using desc_set_runs [of 0 ?s0 "a_req y" 16 1 1] assms by auto
  let ?s1 = "?s0\<lparr>mem := (mem ?s0)\<lparr>qmem := q1\<rparr>\<rparr>"
  obtain q2 where q2: "virtio_desc_set 1 (buf_addr y data) 512 ?f 2 ?s1 = Some (?s1\<lparr>mem := (mem ?s1)\<lparr>qmem := q2\<rparr>\<rparr>)"
    "length q2 = 5128" "desc_at 1 q2 = Some (buf_addr y data, 512, if write then 1 else 3, 2)"
    "\<forall>j k. k + j \<le> 16 \<or> 32 \<le> k \<longrightarrow> get_le j k q2 = get_le j k q1"
    using desc_set_runs [of 1 ?s1 "buf_addr y data" 512 ?f 2] q1(2) fl by auto
  let ?s2 = "?s1\<lparr>mem := (mem ?s1)\<lparr>qmem := q2\<rparr>\<rparr>"
  obtain q3 where q3: "virtio_desc_set 2 (a_status y) 1 2 0 ?s2 = Some (?s2\<lparr>mem := (mem ?s2)\<lparr>qmem := q3\<rparr>\<rparr>)"
    "length q3 = 5128" "desc_at 2 q3 = Some (a_status y, 1, 2, 0)"
    "\<forall>j k. k + j \<le> 32 \<or> 48 \<le> k \<longrightarrow> get_le j k q3 = get_le j k q2"
    using desc_set_runs [of 2 ?s2 "a_status y" 1 2 0] q2(2) by auto
  have "desc_at 1 q3 = desc_at 1 q2" by (rule desc_at_cong) (use q3(4) in auto)
  moreover have "desc_at 0 q3 = desc_at 0 q1" by (rule desc_at_cong) (use q3(4) q2(4) in auto)
  moreover have "get_le j k q3 = get_le j k (qmem (mem s))" if "48 \<le> k" for j k
    using that q1(4) q2(4) q3(4) by auto
  moreover have "submit y sector data write s = Some (?s2\<lparr>mem := (mem ?s2)\<lparr>qmem := q3\<rparr>\<rparr>)"
    unfolding submit_def Let_def by (simp only: q1(1) q2(1) q3(1) bind.simps Option.bind_lunit)
  ultimately show ?thesis using q1(3) q2(3) q3(2,3)
    by (intro exI [of _ q3]) (cases "mem s"; simp)
qed


subsection \<open>A request served by a conforming device\<close>

lemma ucast_u16_u64 [simp]: "(ucast (ucast (x :: u16) :: u64) :: u16) = x"
  by (rule bit_word_eqI) (auto simp: bit_simps)

lemma unat_ucast_u16 [simp]: "unat (ucast (x :: u16) :: u64) = unat x"
  by (simp add: unat_widen)

lemma chain_at_submitted:
  assumes "desc_at 0 q = Some (a_req y, 16, 1, 1)" "desc_at 1 q = Some (buf_addr y b, 512, if w then 1 else 3, 2)"
    "desc_at 2 q = Some (a_status y, 1, 2, 0)" "a_wbuf y \<noteq> a_rbuf y"
  shows "chain_at y q 0 = Some (\<not> w, b)"
  using assms by (cases b) (auto simp: chain_at_def buf_addr_def)

lemma serve_result:
  fixes idx u :: u16
  assumes len: "length (qmem m) = QMEM_SIZE" and n: "0 < n" "n \<le> 128"
    and av: "get_le 2 (16 * n + 2) (qmem m) = Some (ucast (idx + 1))"
      "get_le 2 (16 * n + 4 + 2 * (unat idx mod n)) (qmem m) = Some 0"
    and ch: "chain_at y (qmem m) 0 = Some (\<not> w, b)"
    and u: "get_le 2 4098 (qmem m) = Some (ucast u)"
    and rq: "req m = \<lparr>req_type = (if w then 1 else 0), req_reserved = 0, req_sector = sec\<rparr>"
  shows "\<exists>q. serve y n k m =
      Some (if w then (k(sec := buf_get b m), m\<lparr>qmem := q, status_byte := 0\<rparr>)
            else (k, buf_set b (k sec) (m\<lparr>qmem := q, status_byte := 0\<rparr>))) \<and>
    length q = QMEM_SIZE \<and> get_le 2 4098 q = Some (ucast (u + 1)) \<and>
    get_le 4 (4100 + 8 * (unat u mod n)) q = Some 0 \<and>
    get_le 4 (4100 + 8 * (unat u mod n) + 4) q = Some (if w then 1 else 513)"
proof -
  let ?o = "4100 + 8 * (unat u mod n)"
  have o: "?o + 8 \<le> 5128" using n mod_less_divisor [of n "unat u"] by linarith
  obtain q1 where q1: "put_le 4 ?o 0 (qmem m) = Some q1" "length q1 = 5128"
    using put_le_Some [of ?o 4 "qmem m" 0] o len by auto
  obtain q2 where q2: "put_le 4 (?o + 4) (if w then 1 else 513) q1 = Some q2" "length q2 = 5128"
    using put_le_Some [of "?o + 4" 4 q1] o q1(2) by auto
  obtain q3 where q3: "put_le 2 4098 (ucast (u + 1)) q2 = Some q3" "length q3 = 5128"
    using put_le_Some [of 4098 2 q2 "ucast (u + 1)"] q2(2) by auto
  have "get_le 2 4098 q3 = Some (ucast (u + 1))"
    using get_put_same [OF q3(1)] by (simp add: take_bit_widths)
  moreover have "get_le 4 ?o q3 = Some 0"
    using get_put_other [OF q3(1), of ?o 4] get_put_other [OF q2(1), of ?o 4] get_put_same [OF q1(1)] by simp
  moreover have "get_le 4 (?o + 4) q3 = Some (if w then 1 else 513)"
    using get_put_other [OF q3(1), of "?o + 4" 4] get_put_same [OF q2(1)] by (cases w) simp_all
  moreover have "serve y n k m = Some (if w then (k(sec := buf_get b m), m\<lparr>qmem := q3, status_byte := 0\<rparr>)
            else (k, buf_set b (k sec) (m\<lparr>qmem := q3, status_byte := 0\<rparr>)))"
    using q1(1) q2(1) q3(1) by (cases w) (simp_all add: serve_def Let_def av ch u rq del: add_2_eq_Suc')
  ultimately show ?thesis using q3(2) by blast
qed

text \<open>What \<open>blk_op\<close> hands over: the kick succeeds and the device can serve the request.\<close>

lemma request_reaches_device:
  assumes r: "queue_ready s" and n: "3 \<le> vq_size s" and y: "a_wbuf y \<noteq> a_rbuf y"
    and u: "used_idx s = Some (used_seen s)"
  shows "\<exists>s3 s4 q. submit y sec b w s = Some s3 \<and> queue_ready s3 \<and> used_seen s3 = used_seen s \<and>
    kick D 0 s3 = Some s4 \<and> dev s4 = wr D (dev s) (vdev_base s + 0x50) 0 \<and>
    vq_size s4 = vq_size s \<and> vdev_base s4 = vdev_base s \<and> wbuf (mem s4) = wbuf (mem s) \<and> rbuf (mem s4) = rbuf (mem s) \<and>
    serve y (unat (vq_size s)) k (mem s4) =
      Some (if w then (k(sec := buf_get b (mem s)), (mem s4)\<lparr>qmem := q, status_byte := 0\<rparr>)
            else (k, buf_set b (k sec) ((mem s4)\<lparr>qmem := q, status_byte := 0\<rparr>))) \<and>
    length q = QMEM_SIZE \<and> get_le 2 4098 q = Some (ucast (used_seen s + 1)) \<and>
    get_le 4 (4100 + 8 * (unat (used_seen s) mod unat (vq_size s))) q = Some 0 \<and>
    get_le 4 (4100 + 8 * (unat (used_seen s) mod unat (vq_size s)) + 4) q = Some (if w then 1 else 513)"
proof -
  let ?n = "unat (vq_size s)"
  let ?rq = "\<lparr>req_type = (if w then 1 else 0), req_reserved = 0, req_sector = sec\<rparr>"
  have n3: "3 \<le> ?n" using n by (simp add: word_le_nat_alt)
  have nb: "?n \<le> 128" using queue_ready_bound [OF r] by simp
  have len: "length (qmem (mem s)) = 5128" and av: "qavail s = 16 * ?n" and us: "qused s = 4096"
    using r by (simp_all add: queue_ready_def)
  obtain q where q: "submit y sec b w s = Some (s\<lparr>mem := (mem s)\<lparr>qmem := q, req := ?rq, status_byte := 0xff\<rparr>\<rparr>)"
    "length q = 5128" "desc_at 0 q = Some (a_req y, 16, 1, 1)"
    "desc_at 1 q = Some (buf_addr y b, 512, if w then 1 else 3, 2)" "desc_at 2 q = Some (a_status y, 1, 2, 0)"
    "\<forall>j k. 48 \<le> k \<longrightarrow> get_le j k q = get_le j k (qmem (mem s))"
    using submit_runs [OF len, of y sec b w] by blast
  define s3 where "s3 = s\<lparr>mem := (mem s)\<lparr>qmem := q, req := ?rq, status_byte := 0xff\<rparr>\<rparr>"
  have s3 [simp]: "vq_size s3 = vq_size s" "qavail s3 = qavail s" "qused s3 = qused s" "vdev_base s3 = vdev_base s"
    "used_seen s3 = used_seen s" "dev s3 = dev s" "qmem (mem s3) = q" "req (mem s3) = ?rq"
    "wbuf (mem s3) = wbuf (mem s)" "rbuf (mem s3) = rbuf (mem s)"
    by (simp_all add: s3_def)
  have r3: "queue_ready s3" using r q(2) by (simp add: queue_ready_def)
  obtain q' idx where k: "kick D 0 s3 = Some (reg_write D (vdev_base s) 0x050 0 (s3\<lparr>mem := (mem s3)\<lparr>qmem := q'\<rparr>\<rparr>))"
    "length q' = 5128" "get_le 2 (16 * ?n + 2) q' = Some (ucast ((idx :: u16) + 1))"
    "get_le 2 (16 * ?n + 4 + 2 * (unat idx mod ?n)) q' = Some 0"
    "\<forall>j k. k + j \<le> 16 * ?n \<or> 16 * ?n + 4 + 2 * ?n \<le> k \<longrightarrow> get_le j k q' = get_le j k q"
    using kick_runs [OF r3, of D 0] av by auto
  have "desc_at i q' = desc_at i q" if "i < 3" for i
    by (rule desc_at_cong) (use k(5) that n3 in auto)
  then have ch: "chain_at y q' 0 = Some (\<not> w, b)"
    using chain_at_submitted [of q' y b w] q(3-5) y by simp
  obtain v where v: "get_le 2 4098 (qmem (mem s)) = Some v" "ucast v = used_seen s"
    using u us by (auto simp: used_idx_def get_qmem_def)
  moreover have "get_le 2 4098 q' = get_le 2 4098 (qmem (mem s))" using k(5) q(6) nb by simp
  ultimately have u': "get_le 2 4098 q' = Some (ucast (used_seen s))" using get_le_u16 [OF v(1)] by simp
  have b: "buf_get b ((mem s3)\<lparr>qmem := q'\<rparr>) = buf_get b (mem s)" by (cases b) (simp_all add: buf_get_def)
  show ?thesis
    using serve_result [of "(mem s3)\<lparr>qmem := q'\<rparr>" ?n idx y w b "used_seen s" sec k] k(1-4) ch u' n3 nb q(1) r3 b
    unfolding s3_def [symmetric]
    by (intro exI [of _ s3] exI [of _ "reg_write D (vdev_base s) 0x050 0 (s3\<lparr>mem := (mem s3)\<lparr>qmem := q'\<rparr>\<rparr>)"])
      (auto simp: reg_write_def)
qed

lemma request_served:
  assumes r: "queue_ready s" and n: "3 \<le> vq_size s" and y: "a_wbuf y \<noteq> a_rbuf y"
    and D: "conforming D y (vdev_base s) (unat (vq_size s)) pending disk"
    and u: "used_idx s = Some (used_seen s)"
  shows "\<exists>s'. blk_op D y sec b w s = Some (0, s') \<and> queue_ready s' \<and> used_idx s' = Some (used_seen s') \<and>
    vq_size s' = vq_size s \<and> vdev_base s' = vdev_base s \<and>
    disk (dev s') = (if w then (disk (dev s))(sec := buf_get b (mem s)) else disk (dev s)) \<and>
    wbuf (mem s') = (if w \<or> b = RBuf then wbuf (mem s) else disk (dev s) sec) \<and>
    rbuf (mem s') = (if w \<or> b = WBuf then rbuf (mem s) else disk (dev s) sec)"
proof -
  let ?k = "disk (dev s)"
  let ?o = "4100 + 8 * (unat (used_seen s) mod unat (vq_size s))"
  obtain s3 s4 q where h: "submit y sec b w s = Some s3" "queue_ready s3" "used_seen s3 = used_seen s"
    "kick D 0 s3 = Some s4" "dev s4 = wr D (dev s) (vdev_base s + 0x50) 0" "vq_size s4 = vq_size s"
    "vdev_base s4 = vdev_base s" "wbuf (mem s4) = wbuf (mem s)" "rbuf (mem s4) = rbuf (mem s)"
    and sv: "serve y (unat (vq_size s)) ?k (mem s4) =
      Some (if w then (?k(sec := buf_get b (mem s)), (mem s4)\<lparr>qmem := q, status_byte := 0\<rparr>)
            else (?k, buf_set b (?k sec) ((mem s4)\<lparr>qmem := q, status_byte := 0\<rparr>)))"
    and q: "get_le 2 4098 q = Some (ucast (used_seen s + 1))" "get_le 4 ?o q = Some 0"
      "get_le 4 (?o + 4) q = Some (if w then 1 else 513)"
    using request_reaches_device [OF r n y u, of sec b w D ?k] by blast
  define m' where "m' = (if w then (mem s4)\<lparr>qmem := q, status_byte := 0\<rparr>
    else buf_set b (?k sec) ((mem s4)\<lparr>qmem := q, status_byte := 0\<rparr>))"
  define k' where "k' = (if w then ?k(sec := buf_get b (mem s)) else ?k)"
  have sv': "serve y (unat (vq_size s)) ?k (mem s4) = Some (k', m')" using sv by (simp add: m'_def k'_def)
  have m' [simp]: "qmem m' = q" "status_byte m' = 0"
    "wbuf m' = (if w \<or> b = RBuf then wbuf (mem s) else ?k sec)" "rbuf m' = (if w \<or> b = WBuf then rbuf (mem s) else ?k sec)"
    using h(8,9) by (cases b; simp add: m'_def buf_set_def)+
  have kq: "keeps_qmem D" and "pending (dev s4)" "disk (dev s4) = ?k"
    using D h(5) by (simp_all add: conforming_def)
  then obtain d' where d': "run D (dev s4) (mem s4) = (d', m')" "disk d' = k'"
    using D sv' unfolding conforming_def by metis
  define s5 where "s5 = after D (Suc 0) s4"
  have s5 [simp]: "dev s5 = d'" "mem s5 = m'" "used_seen s5 = used_seen s4" "vq_size s5 = vq_size s4"
    "vdev_base s5 = vdev_base s4" "qused s5 = qused s4"
    using d'(1) by (simp_all add: s5_def after_def device_runs_def)
  note r4 = queue_ready_kick [OF h(2,4)]
  have us: "qused s4 = 4096" "used_seen s4 = used_seen s" using r4 h(3) by (simp_all add: queue_ready_def)
  have ui: "used_idx s5 = Some (used_seen s + 1)" using q(1) us by (simp add: used_idx_def get_qmem_def)
  have sl: "used_slot s5 = ?o" using us h(6) by (simp add: used_slot_def)
  have "virtio_kick_wait D 0 s3 = Some (if w then 1 else 513, s5\<lparr>used_seen := used_seen s + 1\<rparr>)"
    using kick_wait_completion [OF h(2) kq h(4), of 0] ui q(2,3) h(3)
    unfolding s5_def [symmetric] by (auto simp: sl get_qmem_def)
  moreover have "queue_ready s5" unfolding s5_def using queue_ready_after [OF _ kq] r4 by blast
  ultimately show ?thesis using h(1,6,7) d'(2) ui by (auto simp: blk_op_submit queue_ready_def used_idx_def get_qmem_def k'_def)
qed


subsection \<open>The comparison\<close>

lemma compare_loop_count:
  "length rs = length ws \<Longrightarrow>
     fst (compare_loop i rs ws (k, f)) = k + of_nat (length (filter (\<lambda>(r, w). r \<noteq> w) (zip rs ws)))"
  by (induction rs ws arbitrary: i k f rule: list_induct2) (simp_all add: add.assoc)

lemma differing_none:
  "length rs = length ws \<Longrightarrow> filter (\<lambda>(r, w). r \<noteq> w) (zip rs ws) = [] \<longleftrightarrow> rs = ws"
  by (induction rs ws rule: list_induct2) auto

lemma compare_loop_zero:
  assumes "length rs = 512" "length ws = 512"
  shows "fst (compare_loop 0 rs ws (0, 0)) = 0 \<longleftrightarrow> rs = ws"
proof -
  let ?d = "filter (\<lambda>(r, w). r \<noteq> w) (zip rs ws)"
  have "length ?d \<le> 512" using length_filter_le [of "\<lambda>(r, w). r \<noteq> w" "zip rs ws"] assms by simp
  then have "unat (of_nat (length ?d) :: u64) = length ?d" by (simp add: unat_of_nat take_bit_nat_eq_self)
  then have "(of_nat (length ?d) :: u64) = 0 \<longleftrightarrow> ?d = []" by (metis length_0_conv unat_eq_zero)
  then show ?thesis using compare_loop_count [of rs ws 0 0 0] differing_none [of rs ws] assms by simp
qed

lemma length_pattern [simp]: "length pattern = 512"
  by (simp add: pattern_def)

subsection \<open>The driver between requests\<close>

definition driver_ready :: "'d virtio_dev \<Rightarrow> blk_syms \<Rightarrow> ('d \<Rightarrow> bool) \<Rightarrow> ('d \<Rightarrow> u64 \<Rightarrow> u8 list) \<Rightarrow> 'd vstate \<Rightarrow> bool" where
  "driver_ready D y pending disk s \<longleftrightarrow> queue_ready s \<and> 3 \<le> vq_size s \<and> a_wbuf y \<noteq> a_rbuf y \<and>
     used_idx s = Some (used_seen s) \<and> conforming D y (vdev_base s) (unat (vq_size s)) pending disk"

lemma driver_ready_frame [simp]:
  "driver_ready D y pending disk (emit ps s) = driver_ready D y pending disk s"
  "driver_ready D y pending disk (s\<lparr>mem := (mem s)\<lparr>wbuf := w\<rparr>\<rparr>) = driver_ready D y pending disk s"
  "driver_ready D y pending disk (s\<lparr>mem := (mem s)\<lparr>rbuf := w\<rparr>\<rparr>) = driver_ready D y pending disk s"
  by (simp_all add: driver_ready_def queue_ready_def used_idx_def get_qmem_def)

lemma write_ready:
  assumes "driver_ready D y pending disk s"
  shows "\<exists>s'. blk_write D y sec WBuf s = Some (0, s') \<and> driver_ready D y pending disk s' \<and>
    wbuf (mem s') = wbuf (mem s) \<and> disk (dev s') = (disk (dev s))(sec := wbuf (mem s))"
  using request_served [of s y D pending disk sec WBuf True] assms
  by (auto simp: driver_ready_def blk_write_def buf_get_def)

lemma read_ready:
  assumes "driver_ready D y pending disk s"
  shows "\<exists>s'. blk_read D y sec RBuf s = Some (0, s') \<and> driver_ready D y pending disk s' \<and>
    wbuf (mem s') = wbuf (mem s) \<and> rbuf (mem s') = disk (dev s) sec \<and> disk (dev s') = disk (dev s)"
  using request_served [of s y D pending disk sec RBuf False] assms
  by (auto simp: driver_ready_def blk_read_def)

lemma driver_ready_init:
  assumes "a_wbuf y \<noteq> a_rbuf y" "qmem (mem s) = replicate QMEM_SIZE 0" "used_seen s = 0"
    and i: "virtio_init D y s = (n, s1)" "3 \<le> n" and "conforming D y (vdev_base s1) (unat n) pending disk"
  shows "driver_ready D y pending disk s1"
proof -
  have nz: "n \<noteq> 0" using i(2) by auto
  have "mem s1 = mem s" "used_seen s1 = 0" "n \<le> 128" "vq_size s1 = n" "qavail s1 = 16 * unat n" "qused s1 = 4096"
    using virtio_init_result [OF i(1)] nz used_off_page [of n] assms by (auto simp: word_greater_zero_iff)
  moreover have "get_le 2 4098 (replicate 5128 0) = Some 0" by (simp add: get_le_def numeral_2_eq_2)
  ultimately show ?thesis
    using assms nz by (simp add: driver_ready_def queue_ready_def word_greater_zero_iff used_idx_def get_qmem_def)
qed

lemma bmain_runs:
  assumes y: "a_wbuf y \<noteq> a_rbuf y" and q: "qmem (mem s) = replicate QMEM_SIZE 0" "used_seen s = 0"
    and i: "virtio_init D y (emit banner s) = (n, s1)" "3 \<le> n"
    and D: "conforming D y (vdev_base s1) (unat n) pending disk"
  shows "\<exists>s'. bmain D y s = Some (0, s') \<and> rbuf (mem s') = pattern \<and> wbuf (mem s') = pattern \<and> disk (dev s') = (disk (dev s1))(0 := pattern)"
proof -
  have nz: "n \<noteq> 0" using i(2) by auto
  have d1: "driver_ready D y pending disk s1" using driver_ready_init [OF y _ _ i D] q by simp
  define s3 where "s3 = (emit [Str ''virtio-blk: device capacity '', Dec (virtio_config64 D 0 s1), Str '' sectors ('',
      Dec (virtio_config64 D 0 s1 div 2048), Str '' MiB)\<newline>\<newline>''] s1)\<lparr>mem := (mem s1)\<lparr>wbuf := pattern\<rparr>\<rparr>"
  have d3: "driver_ready D y pending disk s3" "wbuf (mem s3) = pattern" "dev s3 = dev s1"
    using d1 driver_ready_frame(2) [where s = "emit ps s1" and w = pattern for ps] by (simp_all add: s3_def)
  obtain s4 where s4: "blk_write D y 0 WBuf s3 = Some (0, s4)" "driver_ready D y pending disk s4"
    "wbuf (mem s4) = pattern" "disk (dev s4) = (disk (dev s1))(0 := pattern)"
    using write_ready [OF d3(1), of 0] d3 by auto
  define s6 where "s6 = (emit (Str ''virtio-blk: write sector 0 -> rc='' # rc_text 0 @
      [Str '', pattern checksum 0x'', Hex (ucast (fnv1a pattern 512)), Str ''\<newline>'']) s4)
    \<lparr>mem := (mem s4)\<lparr>rbuf := replicate 512 0xaa\<rparr>\<rparr>"
  have d6: "driver_ready D y pending disk s6" "wbuf (mem s6) = pattern" "dev s6 = dev s4"
    using s4 driver_ready_frame(3) [where s = "emit ps s4" and w = "replicate 512 0xaa" for ps] by (simp_all add: s6_def)
  obtain s7 where s7: "blk_read D y 0 RBuf s6 = Some (0, s7)" "wbuf (mem s7) = pattern" "rbuf (mem s7) = pattern"
    "disk (dev s7) = (disk (dev s1))(0 := pattern)"
    using read_ready [OF d6(1), of 0] d6 s4(4) by auto
  have "fst (compare_loop 0 pattern pattern (0, 0)) = 0" by (simp add: compare_loop_zero)
  then show ?thesis
    using nz s4(1) s7 unfolding bmain_def Let_def i(1)
    by (simp add: s3_def [symmetric] s6_def [symmetric] d3(2))
qed


subsection \<open>Properties\<close>

text \<open>
  C20. Round trip through the device. With a queue of at least three entries and a conforming
  device that has no completion outstanding, \<open>blk_write\<close> and then \<open>blk_read\<close> of the same sector
  both return 0, the read buffer ends up with the bytes of the write buffer, and no other
  sector of the disk has changed.
\<close>

theorem blk_round_trip:
  assumes "queue_ready s" "3 \<le> vq_size s" "a_wbuf y \<noteq> a_rbuf y" "used_idx s = Some (used_seen s)"
    and "conforming D y (vdev_base s) (unat (vq_size s)) pending disk"
  shows "\<exists>s1 s2. blk_write D y sec WBuf s = Some (0, s1) \<and> blk_read D y sec RBuf s1 = Some (0, s2) \<and>
    rbuf (mem s2) = wbuf (mem s) \<and> wbuf (mem s2) = wbuf (mem s) \<and>
    disk (dev s2) = (disk (dev s))(sec := wbuf (mem s))"
proof -
  have "driver_ready D y pending disk s" using assms by (simp add: driver_ready_def)
  from write_ready [OF this, of sec] obtain s1 where s1: "blk_write D y sec WBuf s = Some (0, s1)"
    "driver_ready D y pending disk s1" "wbuf (mem s1) = wbuf (mem s)"
    "disk (dev s1) = (disk (dev s))(sec := wbuf (mem s))" by blast
  from read_ready [OF s1(2), of sec] s1 show ?thesis by auto
qed

text \<open>
  C21. The demo succeeds end to end: after an initialisation that negotiated at least three queue
  entries with a conforming device, on zeroed queue memory, \<open>main\<close> returns 0, the buffer read back
  is the pattern, and sector 0 is the only sector of the disk that changed.
\<close>

theorem bmain_passes:
  assumes y: "a_wbuf y \<noteq> a_rbuf y" and q: "qmem (mem s) = replicate QMEM_SIZE 0" "used_seen s = 0"
    and i: "virtio_init D y (emit banner s) = (n, s1)" "3 \<le> n"
    and D: "conforming D y (vdev_base s1) (unat n) pending disk"
  shows "\<exists>s'. bmain D y s = Some (0, s') \<and> rbuf (mem s') = pattern \<and> disk (dev s') = (disk (dev s1))(0 := pattern)"
  using bmain_runs [OF assms] by blast

text \<open>
  C22. The demo cannot report success wrongly: whatever the device does, if \<open>main\<close> returns 0 then
  the buffer that was poisoned before the read holds exactly the bytes of the write buffer.
\<close>

theorem bmain_zero_sound:
  assumes "bmain D y s = Some (0, s')" "length (rbuf (mem s')) = 512" "length (wbuf (mem s')) = 512"
  shows "rbuf (mem s') = wbuf (mem s')"
proof -
  have "fst (compare_loop 0 (rbuf (mem s')) (wbuf (mem s')) (0, 0)) = 0"
    using assms(1) by (auto simp: bmain_def Let_def split: prod.splits if_splits Option.bind_splits)
  then show ?thesis using compare_loop_zero assms(2,3) by blast
qed


subsection \<open>A conforming device\<close>

text \<open>A device with a queue of eight entries that has its disk in its state and serves requests as specified.\<close>

definition disk_dev :: "blk_syms \<Rightarrow> (bool \<times> (u64 \<Rightarrow> u8 list)) virtio_dev" where
  "disk_dev y = \<lparr>
     rd = (\<lambda>d a. if a = 0x10001000 then VIRTIO_MAGIC_VALUE else if a = 0x10001008 then 2
                 else if a = 0x10001070 then 15 else if a = 0x10001034 then 8 else 0),
     wr = (\<lambda>d a v. if a = 0x10001050 then (True, snd d) else d),
     run = (\<lambda>d m. if fst d then (case serve y 8 (snd d) m of Some (k, m') \<Rightarrow> ((False, k), m') | None \<Rightarrow> (d, m)) else (d, m))\<rparr>"

lemma disk_dev_regs [simp]:
  "rd (disk_dev y) d a = (if a = 0x10001000 then VIRTIO_MAGIC_VALUE else if a = 0x10001008 then 2
     else if a = 0x10001070 then 15 else if a = 0x10001034 then 8 else 0)"
  "wr (disk_dev y) d a v = (if a = 0x10001050 then (True, snd d) else d)"
  by (simp_all add: disk_dev_def)

lemma serve_keeps_length: "serve y n k m = Some (k', m') \<Longrightarrow> length (qmem m') = length (qmem m)"
  by (auto simp: serve_def Let_def buf_set_def dest!: put_le_length split: Option.bind_splits prod.splits if_splits buf.splits)

lemma disk_dev_conforming: "conforming (disk_dev y) y 0x10001000 8 fst snd"
  by (auto simp: conforming_def keeps_qmem_def disk_dev_def split: option.splits dest: serve_keeps_length)

definition demo_syms :: blk_syms where
  "demo_syms = \<lparr>a_qmem = 0x80004000, a_req = 0x80006000, a_status = 0x80006010, a_wbuf = 0x80006020, a_rbuf = 0x80006220\<rparr>"

definition demo_state :: "(bool \<times> (u64 \<Rightarrow> u8 list)) vstate" where
  "demo_state = \<lparr>out = [], dev = (False, \<lambda>_. replicate 512 0), mem = \<lparr>qmem = replicate 5128 0,
      req = \<lparr>req_type = 0, req_reserved = 0, req_sector = 0\<rparr>, status_byte = 0, wbuf = replicate 512 0, rbuf = replicate 512 0\<rparr>,
     vdev_base = 0, vq_size = 0, qavail = 0, qused = 0, used_seen = 0, mmio = []\<rparr>"

lemma demo_init:
  "\<exists>s1. virtio_init (disk_dev demo_syms) demo_syms (emit banner demo_state) = (8, s1) \<and> vdev_base s1 = 0x10001000 \<and>
     wbuf (mem s1) = replicate 512 0 \<and> snd (dev s1) = (\<lambda>_. replicate 512 0)"
proof -
  have f: "find_block_device (disk_dev demo_syms) s = (0x10001000, emit [Str ''virtio: mmio slot '', Dec 0, Str '' ('',
      Hex 0x10001000, Str ''): device id '', Dec 2, Str '', version '', Dec 0, Str ''\<newline>''] s)" for s
  proof -
    have "(32 :: nat) = Suc 31" by simp
    then show ?thesis unfolding find_block_device_def
      by (simp only: scan_slots.simps) (simp add: reg_read_def Let_def)
  qed
  show ?thesis
    by (simp add: virtio_init_def f negotiate_def publish_queue_def Let_def reg_read_def reg_write_def demo_state_def emit_def)
qed

theorem blk_round_trip_witness:
  "\<exists>s s1 s2. blk_write (disk_dev demo_syms) demo_syms 5 WBuf s = Some (0, s1) \<and>
     blk_read (disk_dev demo_syms) demo_syms 5 RBuf s1 = Some (0, s2) \<and> rbuf (mem s2) = replicate 512 0"
proof -
  obtain s1 where i: "virtio_init (disk_dev demo_syms) demo_syms (emit banner demo_state) = (8, s1)"
    "vdev_base s1 = 0x10001000" "wbuf (mem s1) = replicate 512 0" using demo_init by blast
  have "driver_ready (disk_dev demo_syms) demo_syms fst snd s1"
    by (rule driver_ready_init [OF _ _ _ i(1)])
      (simp_all add: i(2) disk_dev_conforming demo_syms_def demo_state_def)
  then show ?thesis
    using blk_round_trip [of s1 demo_syms "disk_dev demo_syms" fst snd 5] i(3) by (auto simp: driver_ready_def)
qed

lemma demo_hyps:
  "a_wbuf demo_syms \<noteq> a_rbuf demo_syms" "qmem (mem demo_state) = replicate QMEM_SIZE 0" "used_seen demo_state = 0"
  "(3 :: u32) \<le> 8" "unat (8 :: u32) = 8"
  by (simp_all add: demo_syms_def demo_state_def)

theorem bmain_passes_witness:
  "\<exists>s'. bmain (disk_dev demo_syms) demo_syms demo_state = Some (0, s') \<and> snd (dev s') 0 = pattern"
proof -
  obtain s1 where i: "virtio_init (disk_dev demo_syms) demo_syms (emit banner demo_state) = (8, s1)"
    "vdev_base s1 = 0x10001000" using demo_init by blast
  from bmain_passes [OF demo_hyps(1-3) i(1) demo_hyps(4), of fst snd] show ?thesis
    by (auto simp: i(2) disk_dev_conforming)
qed

theorem bmain_zero_sound_witness:
  "\<exists>s'. bmain (disk_dev demo_syms) demo_syms demo_state = Some (0, s') \<and> rbuf (mem s') = wbuf (mem s')"
proof -
  obtain s1 where i: "virtio_init (disk_dev demo_syms) demo_syms (emit banner demo_state) = (8, s1)"
    "vdev_base s1 = 0x10001000" using demo_init by blast
  from bmain_runs [OF demo_hyps(1-3) i(1) demo_hyps(4), of fst snd] obtain s'
    where "bmain (disk_dev demo_syms) demo_syms demo_state = Some (0, s')"
      "rbuf (mem s') = pattern" "wbuf (mem s') = pattern"
    by (auto simp: i(2) disk_dev_conforming)
  then show ?thesis using bmain_zero_sound [of "disk_dev demo_syms" demo_syms demo_state s'] by auto
qed

subsection \<open>A queue of two entries\<close>

text \<open>
  \<open>virtio_init\<close> accepts a queue of one or two entries, but \<open>blk_op\<close> always fills three descriptors: with
  two entries the available ring starts where the third descriptor goes, and the ring's index becomes
  bits 16 to 31 of the address of the status byte.
\<close>

lemma above_two: "take_bit 16 (drop_bit 16 (ucast (b :: u8) OR push_bit 8 (ucast (c :: u8) OR push_bit 8 (x :: u64)))) =
    take_bit 16 x"
proof (rule bit_word_eqI)
  fix n
  assume "n < LENGTH(64)"
  have "\<not> bit b (16 + n)" "\<not> bit c (8 + n)" by (auto dest: bit_imp_le_length)
  then show "bit (take_bit 16 (drop_bit 16 (ucast b OR push_bit 8 (ucast c OR push_bit 8 x)))) n = bit (take_bit 16 x) n"
    by (auto simp: bit_take_bit_iff bit_drop_bit_eq bit_or_iff bit_push_bit_iff bit_ucast_iff)
qed

lemma field_of_two: "take_bit 16 (ucast (b :: u8) OR push_bit 8 (ucast (c :: u8) OR push_bit 8 (x :: u64))) =
    ucast b OR push_bit 8 (ucast c)"
  by (intro bit_word_eqI) (auto simp: bit_simps dest: bit_imp_le_length)

lemma two_entry_queue_overlap:
  assumes "length (qmem (mem s)) = QMEM_SIZE"
  shows "\<exists>s3. submit y sec b w s = Some s3 \<and>
    get_le 2 (unat (avail_off 2) + 2) (qmem (mem s3)) = Some (take_bit 16 (drop_bit 16 (a_status y)))"
proof -
  obtain q where q: "submit y sec b w s = Some (s\<lparr>mem := (mem s)\<lparr>qmem := q,
      req := \<lparr>req_type = (if w then 1 else 0), req_reserved = 0, req_sector = sec\<rparr>, status_byte := 0xff\<rparr>\<rparr>)"
    "length q = 5128" "desc_at 2 q = Some (a_status y, 1, 2, 0)"
    using submit_runs [OF assms, of y sec b w] by blast
  then have "get_le 8 32 q = Some (a_status y)" by (auto simp: desc_at_def split: Option.bind_splits)
  then have v: "a_status y = le_value (take 8 (drop 32 q))" by (simp add: get_le_def split: if_splits)
  define p where "p = drop 34 q"
  obtain b2 b3 bs where p: "p = b2 # b3 # bs"
    using q(2) by (cases p; cases "tl p") (auto simp: p_def dest: arg_cong [of _ _ length])
  have "drop 32 q = q ! 32 # q ! 33 # p"
    using q(2) Cons_nth_drop_Suc [of 32 q] Cons_nth_drop_Suc [of 33 q] by (simp add: p_def)
  then have "a_status y = ucast (q ! 32) OR push_bit 8 (ucast (q ! 33) OR push_bit 8 (ucast b2 OR push_bit 8 (ucast b3 OR
      push_bit 8 (le_value (take 4 bs)))))"
    using v p by (simp add: eval_nat_numeral)
  then have "take_bit 16 (drop_bit 16 (a_status y)) = ucast b2 OR push_bit 8 (ucast b3)"
    by (simp only: above_two field_of_two)
  moreover have "get_le 2 34 q = Some (ucast b2 OR push_bit 8 (ucast b3))"
    using p q(2) by (simp add: get_le_def p_def [symmetric] numeral_2_eq_2)
  ultimately show ?thesis using q(1) by (simp add: avail_off_def)
qed

end
