(* ===== verification/Probe.thy ===== *)
theory Probe
  imports Riscv Uart "HOL-Library.State_Monad"
begin

text \<open>
  What the probe programs of \<open>src/src/<probe>/\<close> have in common. Each is a \<open>main\<close> that prints,
  reads and writes CSRs with one-instruction inline assembly, counts failed checks, and ends in a
  \<open>wfi\<close> loop after a verdict line; some shut the machine down through the test device first.
  Such a program is a computation of the state monad over \<open>probe\<close>: the console, the hart, the
  program's check counters and its trap save area. The \<open>wfi\<close> loop ends the computation. What a CSR
  keeps of a value written to it is the hart's \<open>legal\<close> function, so that a verdict theorem says
  which harts a probe accepts.
\<close>

unbundle bit_operations_syntax


subsection \<open>State and statements\<close>

text \<open>
  \<open>save\<close> is the array \<open>mscratch\<close> points to; \<open>finisher\<close> the last value stored to the test device;
  \<open>overrun\<close> the indices of array stores outside their array, which the model drops (C gives such a
  program no meaning). The check counters are natural numbers: a probe makes a few dozen checks and
  ends, so the C counters cannot wrap.
\<close>

record probe = console +
  hw :: hart
  fails :: nat
  nchecks :: nat
  save :: "nat \<Rightarrow> u64"
  finisher :: "u32 option"
  overrun :: "nat list"

type_synonym ('x, 'a) prog = "('x probe_scheme, 'a) state"

definition puts :: "piece list \<Rightarrow> ('x, unit) prog" where
  "puts ps = State (\<lambda>s. ((), emit ps s))"

definition csrr :: "csr \<Rightarrow> ('x, u64) prog" where
  "csrr c = State (\<lambda>s. (csr_read c (hw s), s))"

definition csrw :: "csr \<Rightarrow> u64 \<Rightarrow> ('x, unit) prog" where
  "csrw c v = State (\<lambda>s. ((), s\<lparr>hw := csr_write c v (hw s)\<rparr>))"

definition csrrw :: "csr \<Rightarrow> u64 \<Rightarrow> ('x, u64) prog" where
  "csrrw c v = State (\<lambda>s. (csr_read c (hw s), s\<lparr>hw := csr_write c v (hw s)\<rparr>))"

definition get_save :: "nat \<Rightarrow> ('x, u64) prog" where
  "get_save i = State (\<lambda>s. (save s i, s))"

definition put_save :: "nat \<Rightarrow> u64 \<Rightarrow> ('x, unit) prog" where
  "put_save i v = State (\<lambda>s. ((), s\<lparr>save := (save s)(i := v)\<rparr>))"

definition get_fails :: "('x, nat) prog" where
  "get_fails = State (\<lambda>s. (fails s, s))"

definition get_nchecks :: "('x, nat) prog" where
  "get_nchecks = State (\<lambda>s. (nchecks s, s))"

definition add_fail :: "('x, unit) prog" where
  "add_fail = State (\<lambda>s. ((), s\<lparr>fails := fails s + 1\<rparr>))"

definition finish :: "u32 \<Rightarrow> ('x, unit) prog" where
  "finish v = State (\<lambda>s. ((), s\<lparr>finisher := Some v\<rparr>))"

definition only_if :: "bool \<Rightarrow> ('x, unit) prog \<Rightarrow> ('x, unit) prog" where
  "only_if b p = (if b then p else State_Monad.return ())"

text \<open>The \<open>check\<close> function every probe has, and the variant that also counts its calls.\<close>

definition checked :: "bool \<Rightarrow> string \<Rightarrow> 'x probe_scheme \<Rightarrow> 'x probe_scheme" where
  "checked cond msg s = (if cond then s
     else (emit [Str ''  FAIL: '', Str msg, Str ''\<newline>''] s)\<lparr>fails := fails s + 1\<rparr>)"

definition check :: "bool \<Rightarrow> string \<Rightarrow> ('x, unit) prog" where
  "check cond msg = State (\<lambda>s. ((), checked cond msg s))"

definition check_n :: "bool \<Rightarrow> string \<Rightarrow> ('x, unit) prog" where
  "check_n cond msg = do {
     State (\<lambda>s. ((), s\<lparr>nchecks := nchecks s + 1\<rparr>));
     check cond msg }"

text \<open>Installing a direct-mode vector and reading it back, as most probes do.\<close>

definition install_vector :: "u64 \<Rightarrow> ('x, u64) prog" where
  "install_vector entry = do { csrw Mtvec entry; csrr Mtvec }"

text \<open>A synchronous trap into M-mode, and the return from it.\<close>

definition take_trap :: "u64 \<Rightarrow> u64 \<Rightarrow> u64 \<Rightarrow> ('x, unit) prog" where
  "take_trap cause epc tval = State (\<lambda>s. ((), s\<lparr>hw := trap_to_m cause epc tval (hw s)\<rparr>))"

definition mret :: "('x, unit) prog" where
  "mret = State (\<lambda>s. ((), s\<lparr>hw := do_mret (hw s)\<rparr>))"

text \<open>One step of the 64-bit FNV-1a hash over a doubleword.\<close>

definition fnv64 :: "u64 \<Rightarrow> u64 \<Rightarrow> u64" where
  "fnv64 h v = foldl (\<lambda>h i. (h XOR (drop_bit (8 * i) v AND 0xff)) * 0x100000001B3) h [0..<8]"


subsection \<open>Running\<close>

definition final :: "('x, 'a) prog \<Rightarrow> 'x probe_scheme \<Rightarrow> 'x probe_scheme" where
  "final p s = snd (run_state p s)"

lemma run_basic [simp]:
  "run_state (puts ps) s = ((), emit ps s)"
  "run_state (csrr c) s = (csr_read c (hw s), s)"
  "run_state (csrw c v) s = ((), s\<lparr>hw := csr_write c v (hw s)\<rparr>)"
  "run_state (csrrw c v) s = (csr_read c (hw s), s\<lparr>hw := csr_write c v (hw s)\<rparr>)"
  "run_state (get_save i) s = (save s i, s)"
  "run_state (put_save i v) s = ((), s\<lparr>save := (save s)(i := v)\<rparr>)"
  "run_state get_fails s = (fails s, s)"
  "run_state get_nchecks s = (nchecks s, s)"
  "run_state add_fail s = ((), s\<lparr>fails := fails s + 1\<rparr>)"
  "run_state (finish w) s = ((), s\<lparr>finisher := Some w\<rparr>)"
  "run_state (check b msg) s = ((), checked b msg s)"
  by (simp_all add: puts_def csrr_def csrw_def csrrw_def get_save_def put_save_def get_fails_def get_nchecks_def
      add_fail_def finish_def check_def)

lemma run_traps [simp]:
  "run_state (take_trap c e t) s = ((), s\<lparr>hw := trap_to_m c e t (hw s)\<rparr>)"
  "run_state mret s = ((), s\<lparr>hw := do_mret (hw s)\<rparr>)"
  by (simp_all add: take_trap_def mret_def)

lemma run_only_if: "run_state (only_if b p) s = (if b then run_state p s else ((), s))"
  by (simp add: only_if_def)

lemma run_only_if_simps [simp]:
  "run_state (only_if b (finish w)) s = ((), s\<lparr>finisher := if b then Some w else finisher s\<rparr>)"
  "run_state (only_if b (puts ps)) s = ((), if b then emit ps s else s)"
  by (simp_all add: run_only_if)

lemma run_check_n [simp]:
  "run_state (check_n b msg) s = run_state (check b msg) (s\<lparr>nchecks := nchecks s + 1\<rparr>)"
  by (simp add: check_n_def)

lemma run_install_vector [simp]:
  "run_state (install_vector e) s = (legal (hw s) Mtvec (csrf (hw s) Mtvec) e,
     s\<lparr>hw := csr_store Mtvec e (hw s)\<rparr>)"
  by (simp add: install_vector_def csr_store_def)

lemma emit_probe [simp]:
  "hw (emit ps s) = hw s" "fails (emit ps s) = fails s" "nchecks (emit ps s) = nchecks s"
  "save (emit ps s) = save s" "finisher (emit ps s) = finisher s" "overrun (emit ps s) = overrun s"
  by (simp_all add: emit_def)

text \<open>What a check leaves alone, and what it counts.\<close>

lemma checked_frame [simp]:
  "hw (checked b msg s) = hw s" "nchecks (checked b msg s) = nchecks s" "save (checked b msg s) = save s"
  "finisher (checked b msg s) = finisher s" "overrun (checked b msg s) = overrun s"
  "fails (checked b msg s) = fails s + of_bool (\<not> b)"
  by (simp_all add: checked_def)

lemma checked_True: "checked True msg s = s"
  by (simp add: checked_def)

lemma csr_store_csrf [simp]:
  "csrf (csr_store c v h) d = (if d = c then legal h c (csrf h c) v else csrf h d)" "legal (csr_store c v h) = legal h"
  by (simp_all add: csr_store_def)

lemma trap_csrf [simp]:
  "csrf (do_mret h) c = (if c = Mstatus then put_mpp UMode (put_bit 7 True (put_bit 3 (bit (csrf h Mstatus) 7) (csrf h Mstatus)))
     else csrf h c)" "legal (do_mret h) = legal h" "legal (trap_to_m a b d h) = legal h"
  "c \<notin> {Mstatus, Mcause, Mepc, Mtval} \<Longrightarrow> csrf (trap_to_m a b d h) c = csrf h c"
  by (simp_all add: do_mret_def trap_to_m_def)

lemma priv_return [simp]: "priv (do_mret (csr_store Mepc r (trap_to_m c e t h))) = priv h"
  using mpp_trap [of c e t h] by (simp add: do_mret_def)


subsection \<open>Symbolic execution\<close>

text \<open>
  Proofs run a probe on a state written out field by field, so that the state after a statement is
  again written out. Congruence rules keep the simplifier out of message texts and out of the statements
  that have not been reached yet.
\<close>

definition say :: "piece list \<Rightarrow> string \<Rightarrow> string" where
  "say ps o1 = o1 @ text_of ps"

definition tell :: "bool \<Rightarrow> string \<Rightarrow> string \<Rightarrow> string" where
  "tell b msg o1 = (if b then o1 else say [Str ''  FAIL: '', Str msg, Str ''\<newline>''] o1)"

lemma emit_fields:
  "emit ps \<lparr>out = o1, hw = h, fails = f, nchecks = n, save = v, finisher = w, overrun = r, \<dots> = z\<rparr> =
     \<lparr>out = say ps o1, hw = h, fails = f, nchecks = n, save = v, finisher = w, overrun = r, \<dots> = z\<rparr>"
  by (simp add: emit_def say_def)

lemma checked_fields:
  "checked b msg \<lparr>out = o1, hw = h, fails = f, nchecks = n, save = v, finisher = w, overrun = r, \<dots> = z\<rparr> =
     \<lparr>out = tell b msg o1, hw = h, fails = f + of_bool (\<not> b), nchecks = n, save = v, finisher = w, overrun = r, \<dots> = z\<rparr>"
  by (simp add: checked_def tell_def emit_fields)

text \<open>A statement and what follows it.\<close>

lemma exec_step:
  assumes "run_state m s = (a, t)"
  shows "run_state (State_Monad.bind m f) s = run_state (f a) t"
  using assms by simp

lemma exec_assoc:
  "run_state (State_Monad.bind (State_Monad.bind m f) g) s = run_state (State_Monad.bind m (\<lambda>x. State_Monad.bind (f x) g)) s"
  by (simp add: split_beta)

lemma exec_only_if:
  "run_state (State_Monad.bind (only_if b p) f) s = (if b then run_state (State_Monad.bind p f) s else run_state (f ()) s)"
  by (simp add: only_if_def)

lemmas exec_basic = run_basic [THEN exec_step] run_traps [THEN exec_step] run_only_if_simps [THEN exec_step]
  run_install_vector [THEN exec_step]

lemma exec_check_n:
  "run_state (State_Monad.bind (check_n b msg) f) s = run_state (f ()) (checked b msg (s\<lparr>nchecks := nchecks s + 1\<rparr>))"
  by simp

lemma puts_lazy: "puts ps = puts ps"
  by simp

lemma say_lazy: "say ps o1 = say ps o1"
  by simp

lemma tell_lazy: "tell b msg o1 = tell b msg o1"
  by simp

lemma check_lazy: "b = c \<Longrightarrow> check b msg = check c msg"
  by simp

lemma check_n_lazy: "b = c \<Longrightarrow> check_n b msg = check_n c msg"
  by simp

lemma bind_lazy: "m = n \<Longrightarrow> State_Monad.bind m f = State_Monad.bind n f"
  by simp

lemmas probe_cong = puts_lazy say_lazy tell_lazy check_lazy check_n_lazy bind_lazy
lemmas probe_run = final_def emit_fields checked_fields exec_basic exec_check_n

declare run_state_bind [simp del]

end
