(* ===== verification/Csr_probes.thy ===== *)
theory Csr_probes
  imports Probe
begin

text \<open>
  Five probes of M-mode CSRs: \<open>mscratch-csrrw\<close>, \<open>misa-readonly\<close>, \<open>mideleg-warl\<close>,
  \<open>medeleg-mask\<close> and \<open>pmp-napot-encode\<close>. The verdict lemmas say on which harts a probe passes.
\<close>

unbundle bit_operations_syntax


subsection \<open>mscratch-csrrw\<close>

abbreviation (input) SENTINEL :: u64 where "SENTINEL \<equiv> 0xA5A55A5A5A5A5A5"

definition csr_read_mscratch :: "('x, u64) prog" where
  "csr_read_mscratch = csrr Mscratch"

definition csr_swap_mscratch :: "u64 \<Rightarrow> ('x, u64) prog" where
  "csr_swap_mscratch newval = csrrw Mscratch newval"

definition mscratch_report :: "u64 list \<Rightarrow> ('x, unit) prog" where
  "mscratch_report vals = do {
     puts [Str ''checksum='', Hex (foldl fnv64 0xCBF29CE484222325 vals),
           Str '' (FNV-1a over boot, swap rd, swap readback, restore rd,\<newline>'', Str ''  restore readback, traps)\<newline>''];
     n \<leftarrow> get_nchecks; f \<leftarrow> get_fails;
     puts [Str ''checks='', Dec (of_nat n), Str '' fails='', Dec (of_nat f), Str ''\<newline>''];
     puts [Str (if f = 0 then ''RESULT: PASS (swap both sides, restore exact, 0 traps)\<newline>'' else ''RESULT: FAIL\<newline>'')];
     puts [Str ''done\<newline>''] }"

definition mscratch_main :: "u64 \<Rightarrow> ('x, unit) prog" where
  "mscratch_main msc_trap_entry = do {
     puts [Str ''mscratch-csrrw: mscratch csrrw atomic-swap round-trip test\<newline>''];
     csrw Mtvec msc_trap_entry;
     boot_val \<leftarrow> csr_read_mscratch;
     puts [Str ''boot:   mscratch='', Hex boot_val, Str '' (read before any write; boot.S does not touch mscratch)\<newline>''];
     rd \<leftarrow> csr_swap_mscratch SENTINEL;
     readback \<leftarrow> csr_read_mscratch;
     puts [Str ''swap:   csrrw rd,mscratch,SENTINEL  rd(old)='', Hex rd, Str '' mscratch(readback)='', Hex readback,
           Str ''\<newline>''];
     check_n (rd = boot_val) ''swap: rd != boot mscratch value (read side)'';
     check_n (readback = SENTINEL) ''swap: mscratch != SENTINEL after csrrw (write side)'';
     rd2 \<leftarrow> csr_swap_mscratch boot_val;
     restored \<leftarrow> csr_read_mscratch;
     puts [Str ''restore: csrrw rd,mscratch,boot  rd(old)='', Hex rd2, Str '' mscratch(readback)='', Hex restored,
           Str ''\<newline>''];
     check_n (rd2 = SENTINEL) ''restore: rd != SENTINEL (read side)'';
     check_n (restored = boot_val) ''restore: mscratch != boot value'';
     traps \<leftarrow> get_save 0;
     puts [Str ''traps:  '', Dec traps, Str '' (handler parks the hart, so a trap would end the run here)\<newline>''];
     check_n (traps = 0) ''trap counter != 0'';
     mscratch_report [boot_val, rd, readback, rd2, restored, traps] }"


subsection \<open>misa-readonly\<close>

definition read_misa :: "('x, u64) prog" where
  "read_misa = csrr Misa"

definition write_misa :: "u64 \<Rightarrow> ('x, unit) prog" where
  "write_misa v = csrw Misa v"

definition misa_vector :: "u64 \<Rightarrow> u64 \<Rightarrow> ('x, unit) prog" where
  "misa_vector misa_trap_entry misa_regs = do {
     csrw Mtvec misa_trap_entry;
     csrw Mscratch misa_regs;
     mtvec \<leftarrow> csrr Mtvec;
     check (mtvec AND NOT 3 = misa_trap_entry) ''mtvec did not take the handler address'';
     check (mtvec AND 3 = 0) ''mtvec not in direct mode'' }"

definition misa_traps :: "('x, unit) prog" where
  "misa_traps = do {
     mcause \<leftarrow> get_save 0; mepc \<leftarrow> get_save 1; mtval \<leftarrow> get_save 2; count \<leftarrow> get_save 3;
     only_if (count \<noteq> 0) (do {
       puts [Str ''  FAIL: unexpected trap(s), count='', Dec count, Str '' mcause='', Hex mcause,
             Str '' mepc='', Hex mepc, Str '' mtval='', Hex mtval, Str ''\<newline>''];
       add_fail });
     puts [Str ''traps: count='', Dec count, Str ''\<newline>''] }"

definition misa_main :: "u64 \<Rightarrow> u64 \<Rightarrow> ('x, unit) prog" where
  "misa_main misa_trap_entry misa_regs = do {
     puts [Str ''misa-readonly: misa WARL read-only check\<newline>''];
     misa_vector misa_trap_entry misa_regs;
     boot \<leftarrow> read_misa;
     puts [Str ''boot: misa='', Hex boot, Str ''\<newline>''];
     write_misa (- 1);
     readback \<leftarrow> read_misa;
     puts [Str ''write: value=0xffffffffffffffff readback='', Hex readback, Str ''\<newline>''];
     check (readback = boot) ''misa readback differs from boot value: some bits are writable'';
     let acc = foldl (+) 0 (map of_nat [1..<101]);
     puts [Str ''alive: sum1to100='', Dec acc, Str ''\<newline>''];
     check (acc = 5050) ''arithmetic after misa write gave the wrong result'';
     misa_traps;
     f \<leftarrow> get_fails;
     if f = 0 then do { puts [Str ''RESULT: PASS\<newline>'']; finish 0x5555 }
     else puts [Str ''RESULT: FAIL\<newline>''] }"


subsection \<open>mideleg-warl\<close>

abbreviation (input) EXPECTED_MIDELEG_ONES :: u64 where "EXPECTED_MIDELEG_ONES \<equiv> 0x3666"
abbreviation (input) EXPECTED_MIDELEG_ZERO :: u64 where "EXPECTED_MIDELEG_ZERO \<equiv> 0x1444"

definition read_mideleg :: "('x, u64) prog" where
  "read_mideleg = csrr Mideleg"

definition write_mideleg :: "u64 \<Rightarrow> ('x, unit) prog" where
  "write_mideleg v = csrw Mideleg v"

definition print_pair :: "string \<Rightarrow> u64 \<Rightarrow> u64 \<Rightarrow> ('x, unit) prog" where
  "print_pair tag written readback =
     puts [Str tag, Str '': write='', Hex written, Str '' readback='', Hex readback, Str ''\<newline>'']"

definition mideleg_vector :: "u64 \<Rightarrow> ('x, unit) prog" where
  "mideleg_vector mideleg_trap_entry = do {
     tv \<leftarrow> install_vector mideleg_trap_entry;
     puts [Str ''trap: mtvec='', Hex tv, Str ''\<newline>''];
     check (tv AND NOT 3 = mideleg_trap_entry) ''mtvec did not take the handler address'';
     check (tv AND 3 = 0) ''mtvec not in direct mode'' }"

text \<open>The wait for the transmitter before the test device is written is part of the console here.\<close>

definition mideleg_main :: "u64 \<Rightarrow> ('x, unit) prog" where
  "mideleg_main mideleg_trap_entry = do {
     puts [Str ''mideleg-warl: mideleg write/legalized-readback check\<newline>''];
     v \<leftarrow> read_mideleg;
     puts [Str ''boot: mideleg='', Hex v, Str ''\<newline>''];
     check (v = EXPECTED_MIDELEG_ZERO) ''mideleg != 0x1444 at boot'';
     mideleg_vector mideleg_trap_entry;
     write_mideleg (- 1);
     legalized \<leftarrow> read_mideleg;
     print_pair ''write-ones'' (- 1) legalized;
     check (legalized = EXPECTED_MIDELEG_ONES) ''all-ones readback != 0x3666'';
     write_mideleg 0;
     v \<leftarrow> read_mideleg;
     print_pair ''write-zero'' 0 v;
     check (v = EXPECTED_MIDELEG_ZERO) ''zero write readback != 0x1444'';
     write_mideleg (- 1);
     v \<leftarrow> read_mideleg;
     print_pair ''write-ones-again'' (- 1) v;
     check (v = legalized) ''second all-ones readback differs'';
     f \<leftarrow> get_fails;
     puts [Str ''RESULT: '', Str (if f = 0 then ''PASS'' else ''FAIL''), Str '' (checks=6)\<newline>''];
     only_if (f = 0) (finish 0x5555) }"


subsection \<open>medeleg-mask\<close>

text \<open>
  The trap entry of \<open>mdel_trap.S\<close>: counter, cause, program counter and value into the save area,
  then return behind the \<open>ecall\<close>. It keeps \<open>t0\<close> and \<open>t1\<close> and leaves \<open>mscratch\<close> as it was.
\<close>

definition mdel_trap_entry :: "('x, unit) prog" where
  "mdel_trap_entry = do {
     n \<leftarrow> get_save 0; put_save 0 (n + 1);
     c \<leftarrow> csrr Mcause; put_save 2 c;
     e \<leftarrow> csrr Mepc; put_save 3 e;
     t \<leftarrow> csrr Mtval; put_save 4 t;
     csrw Mepc (e + 4);
     mret }"

definition trap_once :: "u64 \<Rightarrow> ('x, unit) prog" where
  "trap_once ecall_pc = do { take_trap 11 ecall_pc 0; mdel_trap_entry }"

definition report_trap :: "string \<Rightarrow> u64 \<Rightarrow> ('x, unit) prog" where
  "report_trap tag n = do {
     count \<leftarrow> get_save 0; mcause \<leftarrow> get_save 2; mepc \<leftarrow> get_save 3; mtval \<leftarrow> get_save 4;
     puts [Str tag, Str '': traps='', Dec count, Str '' mcause='', Hex mcause, Str '' mepc='', Hex mepc,
           Str '' mtval='', Hex mtval, Str ''\<newline>''];
     check (count = n) ''trap counter did not advance by exactly one'' }"

text \<open>Two all-ones writes to a delegation CSR, which must read back the same.\<close>

definition mask_twice :: "csr \<Rightarrow> string \<Rightarrow> ('x, unit) prog" where
  "mask_twice c name = do {
     csrw c (- 1); a \<leftarrow> csrr c; csrw c (- 1); b \<leftarrow> csrr c;
     puts [Str ''mask: '', Str name, Str ''-write=0xffffffffffffffff readback1='', Hex a, Str '' readback2='', Hex b,
           Str ''\<newline>''];
     check (a = b) (name @ '' readback not stable across two writes'') }"

definition mdel_restore :: "u64 \<Rightarrow> u64 \<Rightarrow> ('x, unit) prog" where
  "mdel_restore boot_medeleg boot_mideleg = do {
     csrw Medeleg boot_medeleg;
     csrw Mideleg boot_mideleg;
     rd_medeleg \<leftarrow> csrr Medeleg;
     rd_mideleg \<leftarrow> csrr Mideleg;
     puts [Str ''restore: medeleg='', Hex rd_medeleg, Str '' mideleg='', Hex rd_mideleg, Str ''\<newline>''];
     check (rd_medeleg = boot_medeleg) ''medeleg not restored to boot value'';
     check (rd_mideleg = boot_mideleg) ''mideleg not restored to boot value'' }"

definition mdel_verdict :: "('x, unit) prog" where
  "mdel_verdict = do {
     f \<leftarrow> get_fails;
     puts (if f = 0 then [Str ''RESULT: PASS\<newline>''] else [Str ''RESULT: FAIL ('', Dec (of_nat f), Str '' checks failed)\<newline>'']);
     puts [Str ''done\<newline>''] }"

definition mdel_main :: "u64 \<Rightarrow> u64 \<Rightarrow> u64 \<Rightarrow> ('x, unit) prog" where
  "mdel_main entry mdel_regs ecall_pc = do {
     puts [Str ''medeleg-mask: medeleg/mideleg writable-bit measurement\<newline>''];
     csrw Mtvec entry;
     csrw Mscratch mdel_regs;
     tv \<leftarrow> csrr Mtvec;
     check (tv AND NOT 3 = entry) ''mtvec did not take the handler address'';
     check (tv AND 3 = 0) ''mtvec not in direct mode'';
     boot_medeleg \<leftarrow> csrr Medeleg;
     boot_mideleg \<leftarrow> csrr Mideleg;
     puts [Str ''boot: medeleg='', Hex boot_medeleg, Str '' mideleg='', Hex boot_mideleg, Str ''\<newline>''];
     trap_once ecall_pc;
     report_trap ''trap1'' 1;
     c1 \<leftarrow> get_save 2; e1 \<leftarrow> get_save 3; t1 \<leftarrow> get_save 4;
     mask_twice Medeleg ''medeleg'';
     mask_twice Mideleg ''mideleg'';
     mdel_restore boot_medeleg boot_mideleg;
     trap_once ecall_pc;
     report_trap ''trap2'' 2;
     c2 \<leftarrow> get_save 2; e2 \<leftarrow> get_save 3; t2 \<leftarrow> get_save 4;
     check (c2 = c1) ''post-restore mcause differs from baseline'';
     check (e2 = e1) ''post-restore mepc differs from baseline'';
     check (t2 = t1) ''post-restore mtval differs from baseline'';
     mdel_verdict }"


subsection \<open>pmp-napot-encode\<close>

abbreviation (input) NAPOT_PAT_4K :: u64 where "NAPOT_PAT_4K \<equiv> 0x200009ff"
abbreviation (input) NAPOT_PAT_64K :: u64 where "NAPOT_PAT_64K \<equiv> 0x20101fff"
abbreviation (input) NAPOT_PAT_1M :: u64 where "NAPOT_PAT_1M \<equiv> 0x2201ffff"
abbreviation (input) PMPCFG0_A_NAPOT :: u64 where "PMPCFG0_A_NAPOT \<equiv> 0x18"
abbreviation (input) PMPCFG0_NAPOT_RWX :: u64 where "PMPCFG0_NAPOT_RWX \<equiv> 0x1f"

text \<open>\<open>rec[rec_n++] = v\<close>, with the array and \<open>rec_n\<close> as a pair. A store past the end is recorded and dropped.\<close>

definition rec_store :: "u64 \<Rightarrow> u64 list \<times> nat \<Rightarrow> ('x, u64 list \<times> nat) prog" where
  "rec_store v r = State (\<lambda>s. case r of (xs, n) \<Rightarrow>
     ((if n < length xs then xs[n := v] else xs, Suc n),
      s\<lparr>overrun := overrun s @ (if n < length xs then [] else [n])\<rparr>))"

definition record_checksum :: "u64 list \<Rightarrow> nat \<Rightarrow> u64" where
  "record_checksum vals n = foldl fnv64 1469598103934665603 (take n vals)"

text \<open>One round of the loop over the patterns.\<close>

definition pne_pattern :: "u64 \<Rightarrow> string \<Rightarrow> u64 list \<times> nat \<Rightarrow> ('x, u64 list \<times> nat) prog" where
  "pne_pattern pat sz r = do {
     csrw Pmpaddr0 pat;
     rb \<leftarrow> csrr Pmpaddr0;
     puts [Str ''napot '', Str sz];
     print_pair [] pat rb;
     check_n (rb = pat) ''pmpaddr0 readback != written NAPOT pattern'';
     r \<leftarrow> rec_store pat r;
     rec_store rb r }"

definition pne_config :: "u64 list \<times> nat \<Rightarrow> ('x, u64 list \<times> nat) prog" where
  "pne_config r = do {
     csrw Pmpcfg0 PMPCFG0_A_NAPOT;
     v \<leftarrow> csrr Pmpcfg0;
     let cfg_rb = v AND 0xff;
     print_pair ''pmpcfg0 entry0 A=NAPOT'' PMPCFG0_A_NAPOT cfg_rb;
     check_n (cfg_rb AND 0x18 = 0x18) ''pmpcfg0 entry 0 A field != NAPOT (3)'';
     check_n (cfg_rb = PMPCFG0_A_NAPOT) ''pmpcfg0 entry 0 readback != written 0x18'';
     r \<leftarrow> rec_store PMPCFG0_A_NAPOT r;
     r \<leftarrow> rec_store cfg_rb r;
     csrw Pmpcfg0 PMPCFG0_NAPOT_RWX;
     v \<leftarrow> csrr Pmpcfg0;
     let cfg_rb = v AND 0xff;
     print_pair ''pmpcfg0 entry0 NAPOT+RWX'' PMPCFG0_NAPOT_RWX cfg_rb;
     check_n (cfg_rb = PMPCFG0_NAPOT_RWX) ''pmpcfg0 entry 0 readback != written 0x1f'';
     r \<leftarrow> rec_store PMPCFG0_NAPOT_RWX r;
     rec_store cfg_rb r }"

definition pne_restore :: "u64 \<Rightarrow> u64 \<Rightarrow> u64 \<Rightarrow> u64 list \<times> nat \<Rightarrow> ('x, u64 list \<times> nat) prog" where
  "pne_restore boot_addr0 boot_addr1 boot_cfg0 r = do {
     csrw Pmpaddr0 boot_addr0;
     csrw Pmpaddr1 boot_addr1;
     csrw Pmpcfg0 boot_cfg0;
     restore \<leftarrow> csrr Pmpaddr0;
     print_pair ''restore pmpaddr0'' boot_addr0 restore;
     check_n (restore = boot_addr0) ''pmpaddr0 restore != boot value'';
     restore \<leftarrow> csrr Pmpaddr1;
     print_pair ''restore pmpaddr1'' boot_addr1 restore;
     check_n (restore = boot_addr1) ''pmpaddr1 restore != boot value'';
     restore \<leftarrow> csrr Pmpcfg0;
     print_pair ''restore pmpcfg0'' boot_cfg0 restore;
     check_n (restore = boot_cfg0) ''pmpcfg0 restore != boot value'';
     rec_store restore r }"

definition pne_verdict :: "('x, unit) prog" where
  "pne_verdict = do {
     n \<leftarrow> get_nchecks; f \<leftarrow> get_fails;
     puts (if f = 0 then [Str ''RESULT: PASS (checks='', Dec (of_nat n), Str '')\<newline>'']
           else [Str ''RESULT: FAIL (checks='', Dec (of_nat n), Str '' fails='', Dec (of_nat f), Str '')\<newline>'']);
     only_if (f = 0) (finish 0x5555) }"

text \<open>\<open>main\<close>, on the uninitialised array \<open>rec\<close> of the C code.\<close>

definition pne_main :: "u64 list \<Rightarrow> ('x, unit) prog" where
  "pne_main rec0 = do {
     puts [Str ''pmp-napot-encode: PMP NAPOT write/readback test\<newline>''];
     boot_addr0 \<leftarrow> csrr Pmpaddr0;
     boot_addr1 \<leftarrow> csrr Pmpaddr1;
     boot_cfg0 \<leftarrow> csrr Pmpcfg0;
     print_pair ''boot pmpaddr0'' 0 boot_addr0;
     print_pair ''boot pmpaddr1'' 0 boot_addr1;
     print_pair ''boot pmpcfg0'' 0 boot_cfg0;
     r \<leftarrow> rec_store boot_addr0 (rec0, 0);
     r \<leftarrow> rec_store boot_addr1 r;
     r \<leftarrow> rec_store boot_cfg0 r;
     r \<leftarrow> pne_pattern NAPOT_PAT_4K ''4K'' r;
     r \<leftarrow> pne_pattern NAPOT_PAT_64K ''64K'' r;
     r \<leftarrow> pne_pattern NAPOT_PAT_1M ''1M'' r;
     r \<leftarrow> pne_config r;
     r \<leftarrow> pne_restore boot_addr0 boot_addr1 boot_cfg0 r;
     puts [Str ''record checksum='', Hex (record_checksum (fst r) (snd r)), Str ''\<newline>''];
     pne_verdict }"


subsection \<open>Verdicts\<close>

lemma sum100: "foldl (+) 0 (map of_nat [Suc 0..<101]) = (5050 :: u64)"
  by code_simp

lemma run_rec_store [simp]:
  "run_state (rec_store v (xs, n)) s = ((if n < length xs then xs[n := v] else xs, Suc n),
     s\<lparr>overrun := overrun s @ (if n < length xs then [] else [n])\<rparr>)"
  by (simp add: rec_store_def)

lemma mdel_trap_run [simp]:
  "run_state (trap_once p) s = ((), s\<lparr>hw := do_mret (csr_store Mepc (p + 4) (trap_to_m 11 p 0 (hw s))),
     save := (save s)(0 := save s 0 + 1, 2 := 11, 3 := p, 4 := 0)\<rparr>)"
  by (simp add: trap_once_def mdel_trap_entry_def trap_to_m_def fun_upd_twist exec_basic)

lemmas csr_run = run_rec_store [THEN exec_step] mdel_trap_run [THEN exec_step]

text \<open>On a hart whose delegation CSRs are masked, the probe passes and leaves them as it found them.\<close>

lemma mdel_passes:
  assumes "fails s = 0" "save s 0 = 0" and e: "e AND 3 = 0" "legal (hw s) Mtvec (csrf (hw s) Mtvec) e = e"
    and m: "\<And>old v. legal (hw s) Medeleg old v = v AND m" "\<And>old v. legal (hw s) Mideleg old v = v AND n"
    and b: "csrf (hw s) Medeleg AND m = csrf (hw s) Medeleg" "csrf (hw s) Mideleg AND n = csrf (hw s) Mideleg"
  shows "fails (final (mdel_main e regs p) s) = 0 \<and>
    csrf (hw (final (mdel_main e regs p) s)) Medeleg = csrf (hw s) Medeleg \<and>
    csrf (hw (final (mdel_main e regs p) s)) Mideleg = csrf (hw s) Mideleg"
proof -
  have "e AND NOT 3 = e" using e(1) and_not_mask_split [of e 2] by (simp add: mask_eq_exp_minus_1)
  then show ?thesis
    using assms by (cases s) (simp add: probe_run csr_run mdel_main_def mask_twice_def mdel_restore_def mdel_verdict_def report_trap_def
      cong: probe_cong)
qed

text \<open>
  \<open>mscratch-csrrw\<close> passes exactly on the harts on which the two swaps take: the sentinel is kept, and
  then the boot value.
\<close>

lemma mscratch_verdict:
  "fails (final (mscratch_main e) s) = 0 \<longleftrightarrow> fails s = 0 \<and> save s 0 = 0 \<and>
     legal (hw s) Mscratch (csrf (hw s) Mscratch) SENTINEL = SENTINEL \<and>
     legal (hw s) Mscratch SENTINEL (csrf (hw s) Mscratch) = csrf (hw s) Mscratch"
  by (cases s) (simp add: probe_run mscratch_main_def mscratch_report_def csr_read_mscratch_def csr_swap_mscratch_def
      cong: probe_cong, auto)

text \<open>\<open>misa-readonly\<close> passes exactly if the all-ones write is ignored, the vector is kept and no trap was counted.\<close>

lemma misa_verdict:
  assumes "finisher s = None"
  shows "finisher (final (misa_main e r) s) = Some 0x5555 \<longleftrightarrow> fails s = 0 \<and> save s 3 = 0 \<and>
     legal (hw s) Misa (csrf (hw s) Misa) (- 1) = csrf (hw s) Misa \<and>
     (let t = legal (hw s) Mtvec (csrf (hw s) Mtvec) e in t AND NOT 3 = e \<and> t AND 3 = 0)"
  using assms
  by (cases s) (simp add: probe_run misa_main_def misa_vector_def misa_traps_def read_misa_def write_misa_def sum100 Let_def
      exec_only_if cong: probe_cong, auto)


subsection \<open>Properties\<close>

text \<open>
  \<open>mideleg-warl\<close> reports success, by writing the pass word to the test device, exactly on the harts whose
  \<open>mideleg\<close> reads 0x1444 at boot, legalises an all-ones write to 0x3666 and a zero write to 0x1444, and whose
  \<open>mtvec\<close> takes the handler address in direct mode; on every other hart the device is not touched.
\<close>

theorem mideleg_verdict:
  assumes "finisher s = None"
  shows "finisher (final (mideleg_main e) s) =
    (if fails s = 0 \<and> csrf (hw s) Mideleg = 0x1444 \<and>
        legal (hw s) Mtvec (csrf (hw s) Mtvec) e AND NOT 3 = e \<and> legal (hw s) Mtvec (csrf (hw s) Mtvec) e AND 3 = 0 \<and>
        legal (hw s) Mideleg 0x1444 (- 1) = 0x3666 \<and> legal (hw s) Mideleg 0x3666 0 = 0x1444
     then Some 0x5555 else None)"
  using assms
  by (cases s) (simp add: probe_run mideleg_main_def mideleg_vector_def read_mideleg_def write_mideleg_def print_pair_def
      cong: probe_cong, auto)

text \<open>
  C25. \<open>pmp-napot-encode\<close> stores past the end of its record. On every hart, \<open>main\<close> makes fourteen stores
  into the twelve elements of \<open>rec\<close>: the stores with index 12 (the readback of the last configuration write)
  and 13 (the restored configuration) are out of bounds, and no other store is.
\<close>

theorem pne_overruns_record:
  assumes "length rec0 = 12"
  shows "overrun (final (pne_main rec0) s) = overrun s @ [12, 13]"
  using assms
  by (cases s) (simp add: probe_run csr_run pne_main_def pne_pattern_def pne_config_def pne_restore_def pne_verdict_def
      print_pair_def Let_def cong: probe_cong)

text \<open>A hart as the probe expects it: \<open>mideleg\<close> forces 0x1444 and admits 0x2222 more.\<close>

definition virt_hart :: hart where
  "virt_hart = \<lparr>gpr = \<lambda>_. 0, csrf = (\<lambda>_. 0)(Mideleg := 0x1444), ram = \<lambda>_. 0, pc = 0x80000000, priv = MMode,
     clock = \<lambda>_. (0, 0), retired = 0,
     legal = (\<lambda>c old v. if c = Mideleg then (v AND 0x2222) OR 0x1444 else v), instret = (\<lambda>_. 0)\<rparr>"

definition virt_probe :: probe where
  "virt_probe = \<lparr>out = [], hw = virt_hart, fails = 0, nchecks = 0, save = \<lambda>_. 0, finisher = None, overrun = []\<rparr>"

theorem mideleg_verdict_witness:
  "finisher (final (mideleg_main 0x80000100) virt_probe) = Some 0x5555"
  using mideleg_verdict [of virt_probe "0x80000100"] by (simp add: virt_probe_def virt_hart_def)

theorem pne_overruns_record_witness:
  "overrun (final (pne_main (replicate 12 0)) virt_probe) = [12, 13]"
  using pne_overruns_record [of "replicate 12 0" virt_probe] by (simp add: virt_probe_def)

end
