(* ===== verification/Pmp.thy ===== *)
theory Pmp
  imports Probe Virtio
begin

text \<open>
  Physical memory protection as the probes \<open>src/src/pmp/pmp_main.c\<close> and \<open>pmp-napot-size/pns_main.c\<close>
  exercise it. The first part is the privileged architecture's check for the two entries the
  probes program, over the CSRs of \<open>hart\<close>; the second the probes. Memory is addressed by bytes here.
\<close>

unbundle bit_operations_syntax


subsection \<open>The check\<close>

definition pmp_cfg :: "hart \<Rightarrow> nat \<Rightarrow> u64" where
  "pmp_cfg h i = take_bit 8 (drop_bit (8 * i) (csrf h Pmpcfg0))"

definition pmp_addr :: "hart \<Rightarrow> nat \<Rightarrow> u64" where
  "pmp_addr h i = (if i = 0 then csrf h Pmpaddr0 else csrf h Pmpaddr1)"

text \<open>The mask of the trailing ones and the zero above them selects the offset inside a NAPOT region.\<close>

definition napot_match :: "u64 \<Rightarrow> u64 \<Rightarrow> bool" where
  "napot_match pa a = (let m = pa XOR (pa + 1) in drop_bit 2 a OR m = pa OR m)"

definition pmp_match :: "hart \<Rightarrow> u64 \<Rightarrow> nat \<Rightarrow> bool" where
  "pmp_match h a i =
     (let mode = drop_bit 3 (pmp_cfg h i) AND 3; lo = (if i = 0 then 0 else pmp_addr h (i - 1)) in
      if mode = 0 then False
      else if mode = 1 then lo \<le> drop_bit 2 a \<and> drop_bit 2 a < pmp_addr h i
      else if mode = 2 then drop_bit 2 a = pmp_addr h i
      else napot_match (pmp_addr h i) a)"

datatype access = Read | Write | Exec

definition perm_bit :: "access \<Rightarrow> nat" where
  "perm_bit k = (case k of Read \<Rightarrow> 0 | Write \<Rightarrow> 1 | Exec \<Rightarrow> 2)"

text \<open>
  The lowest-numbered entry that matches any byte decides, and must match every byte. M-mode is held to
  locked entries only; without a match M-mode succeeds and the other modes fail.
\<close>

definition pmp_allows :: "hart \<Rightarrow> access \<Rightarrow> u64 \<Rightarrow> nat \<Rightarrow> bool" where
  "pmp_allows h k a n =
     (let bytes = map (\<lambda>j. a + of_nat j) [0..<n] in
      case find (\<lambda>i. list_ex (\<lambda>b. pmp_match h b i) bytes) [0, 1] of
        None \<Rightarrow> priv h = MMode
      | Some i \<Rightarrow> list_all (\<lambda>b. pmp_match h b i) bytes \<and>
                  (priv h = MMode \<and> \<not> bit (pmp_cfg h i) 7 \<or> bit (pmp_cfg h i) (perm_bit k)))"


subsection \<open>The machine of the probes\<close>

text \<open>\<open>stray\<close> is set by a fault where the program has not armed its handler.\<close>

record pmachine = probe +
  bytes :: "u64 \<Rightarrow> u8"
  stray :: bool

type_synonym 'a pprog = "(pmachine, 'a) state"

definition load_le :: "nat \<Rightarrow> u64 \<Rightarrow> (u64 \<Rightarrow> u8) \<Rightarrow> u64" where
  "load_le n a m = le_value (map (\<lambda>j. m (a + of_nat j)) [0..<n])"

definition store_le :: "nat \<Rightarrow> u64 \<Rightarrow> u64 \<Rightarrow> (u64 \<Rightarrow> u8) \<Rightarrow> u64 \<Rightarrow> u8" where
  "store_le n a v m = fold (\<lambda>j m. m(a + of_nat j := le_bytes n v ! j)) [0..<n] m"

text \<open>Loads and stores in unarmed code.\<close>

definition load :: "nat \<Rightarrow> u64 \<Rightarrow> u64 pprog" where
  "load n a = State (\<lambda>s. if pmp_allows (hw s) Read a n then (load_le n a (bytes s), s) else (0, s\<lparr>stray := True\<rparr>))"

definition store :: "nat \<Rightarrow> u64 \<Rightarrow> u64 \<Rightarrow> unit pprog" where
  "store n a v = State (\<lambda>s. ((), if pmp_allows (hw s) Write a n then s\<lparr>bytes := store_le n a v (bytes s)\<rparr>
     else s\<lparr>stray := True\<rparr>))"

text \<open>\<open>for (i = 0; i < n; i++) body\<close>\<close>

fun for_loop :: "nat \<Rightarrow> nat \<Rightarrow> (nat \<Rightarrow> unit pprog) \<Rightarrow> unit pprog" where
  "for_loop i 0 body = State_Monad.return ()"
| "for_loop i (Suc k) body = do { body i; for_loop (Suc i) k body }"

definition get_t1 :: "u64 pprog" where
  "get_t1 = State (\<lambda>s. (reg_get 6 (hw s), s))"

text \<open>
  \<open>pmp_trap.S\<close>, and \<open>pns_trap.S\<close>, which is the same code: the interrupted \<open>t1\<close> and the trap CSRs go into
  the save area, the program resumes at the address it left there.
\<close>

definition pmp_trap_entry :: "unit pprog" where
  "pmp_trap_entry = do {
     t1 \<leftarrow> get_t1; put_save 1 t1;
     c \<leftarrow> csrr Mcause; put_save 2 c;
     e \<leftarrow> csrr Mepc; put_save 3 e;
     t \<leftarrow> csrr Mtval; put_save 4 t;
     r \<leftarrow> get_save 5; csrw Mepc r;
     put_save 6 1;
     mret }"

text \<open>A load or a store in an armed asm block, at address \<open>epc\<close>; a fault runs the handler and skips to the label.\<close>

definition armed_load :: "nat \<Rightarrow> u64 \<Rightarrow> u64 \<Rightarrow> u64 option pprog" where
  "armed_load n a epc = do {
     s \<leftarrow> State_Monad.get;
     if pmp_allows (hw s) Read a n then State_Monad.return (Some (load_le n a (bytes s)))
     else do { take_trap 5 epc a; pmp_trap_entry; State_Monad.return None } }"

definition armed_store :: "nat \<Rightarrow> u64 \<Rightarrow> u64 \<Rightarrow> u64 \<Rightarrow> unit pprog" where
  "armed_store n a v epc = do {
     s \<leftarrow> State_Monad.get;
     if pmp_allows (hw s) Write a n then store n a v
     else do { take_trap 7 epc a; pmp_trap_entry } }"


subsection \<open>pmp\<close>

record pmp_syms =
  scratch :: u64
  outside :: u64
  entry :: u64
  savep :: u64
  load_resume :: u64
  store_resume :: u64

abbreviation (input) PMPCFG0_ENTRY0 :: u64 where "PMPCFG0_ENTRY0 \<equiv> 0x98"

definition test_report :: "string \<Rightarrow> unit pprog" where
  "test_report tag = do {
     seen \<leftarrow> get_save 6; mcause \<leftarrow> get_save 2; mepc \<leftarrow> get_save 3; mtval \<leftarrow> get_save 4; resume \<leftarrow> get_save 5;
     puts [Str tag, Str ''seen='', Dec seen, Str '' mcause='', Hex mcause, Str '' mepc='', Hex mepc,
           Str '' mtval='', Hex mtval, Str '' resume-4='', Hex (resume - 4), Str ''\<newline>''] }"

definition test_load :: "pmp_syms \<Rightarrow> unit pprog" where
  "test_load y = do {
     let saddr = scratch y;
     put_save 5 (load_resume y);
     put_save 6 0;
     _ \<leftarrow> armed_load 4 saddr (load_resume y - 4);
     test_report ''load:  '';
     seen \<leftarrow> get_save 6; check (seen = 1) ''load did not trap'';
     mcause \<leftarrow> get_save 2; check (mcause = 5) ''load mcause != 5 (load access fault)'';
     mepc \<leftarrow> get_save 3; resume \<leftarrow> get_save 5;
     check (mepc = resume - 4) ''load mepc != address of faulting lw'';
     mtval \<leftarrow> get_save 4; check (mtval = saddr) ''load mtval != faulting address'' }"

definition test_store :: "pmp_syms \<Rightarrow> unit pprog" where
  "test_store y = do {
     let saddr = scratch y;
     put_save 5 (store_resume y);
     put_save 6 0;
     armed_store 4 saddr 0x5A5A5A5A (store_resume y - 4);
     test_report ''store: '';
     seen \<leftarrow> get_save 6; check (seen = 1) ''store did not trap'';
     mcause \<leftarrow> get_save 2; check (mcause = 7) ''store mcause != 7 (store/AMO access fault)'';
     mepc \<leftarrow> get_save 3; resume \<leftarrow> get_save 5;
     check (mepc = resume - 4) ''store mepc != address of faulting sw'';
     mtval \<leftarrow> get_save 4; check (mtval = saddr) ''store mtval != faulting address'' }"

definition napot_addr :: "u64 \<Rightarrow> u64 \<Rightarrow> u64" where
  "napot_addr base tail_ones = drop_bit 2 base OR tail_ones"

definition pmp_control1 :: "pmp_syms \<Rightarrow> unit pprog" where
  "pmp_control1 y = do {
     for_loop 0 4 (\<lambda>i. store 1 (scratch y + of_nat i) (0xA5 + of_nat i));
     for_loop 0 4 (\<lambda>i. do {
       v \<leftarrow> load 1 (scratch y + of_nat i);
       check (v = 0xA5 + of_nat i) ''scratch not writable before PMP programming'' });
     puts [Str ''control: scratch readable/writable before PMP: ok\<newline>''] }"

definition pmp_config :: "pmp_syms \<Rightarrow> unit pprog" where
  "pmp_config y = do {
     let base = scratch y;
     check (base AND 0xFFF = 0) ''scratch not 4 KiB aligned'';
     let pmpaddr = napot_addr base 0x1FF;
     puts [Str ''config: pmpaddr0='', Hex pmpaddr, Str '' (NAPOT 4 KiB at '', Hex base,
           Str '') pmpcfg0=0x98 (entry0: L=1 A=NAPOT R=W=X=0)\<newline>''];
     csrw Pmpaddr0 pmpaddr;
     csrw Pmpcfg0 PMPCFG0_ENTRY0;
     rb \<leftarrow> csrr Pmpcfg0;
     puts [Str ''config: pmpcfg0 readback='', Hex rb, Str ''\<newline>''];
     check (rb = PMPCFG0_ENTRY0) ''pmpcfg0 readback != 0x98'';
     csrw Pmpcfg0 0;
     rb \<leftarrow> csrr Pmpcfg0;
     puts [Str ''config: pmpcfg0 after clear attempt='', Hex rb, Str '' (lock holds)\<newline>''];
     check (rb = PMPCFG0_ENTRY0) ''locked pmpcfg0 was modified'' }"

definition pmp_control2 :: "pmp_syms \<Rightarrow> unit pprog" where
  "pmp_control2 y = do {
     for_loop 0 4 (\<lambda>i. store 8 (outside y + of_nat (8 * i)) (0x1122334455667788 + of_nat i));
     for_loop 0 4 (\<lambda>i. do {
       v \<leftarrow> load 8 (outside y + of_nat (8 * i));
       check (v = 0x1122334455667788 + of_nat i) ''address outside PMP region became inaccessible'' });
     puts [Str ''control: address outside region still accessible: ok\<newline>''] }"

definition pmp_verdict :: "unit pprog" where
  "pmp_verdict = do {
     f \<leftarrow> get_fails;
     puts (if f = 0 then [Str ''RESULT: PASS (load mcause=5, store mcause=7)\<newline>'']
           else [Str ''RESULT: FAIL ('', Dec (of_nat f), Str '' checks failed)\<newline>'']);
     puts [Str ''done\<newline>''] }"

definition pmp_main :: "pmp_syms \<Rightarrow> unit pprog" where
  "pmp_main y = do {
     puts [Str ''pmp-denial: PMP no-access region test\<newline>'', Str ''hart mhartid=''];
     h \<leftarrow> csrr Mhartid;
     puts [Dec h, Str ''\<newline>''];
     pmp_control1 y;
     csrw Mtvec (entry y);
     csrw Mscratch (savep y);
     pmp_config y;
     pmp_control2 y;
     test_load y;
     test_store y;
     pmp_verdict }"

subsection \<open>pmp-napot-size\<close>

record pns_syms =
  window :: u64
  pns_outside :: u64
  sentinel :: u64
  pns_entry :: u64
  pns_savep :: u64
  lbu_resume :: u64

abbreviation (input) PMP_L_NAPOT_DENY :: u64 where "PMP_L_NAPOT_DENY \<equiv> 0x98"
abbreviation (input) NAPOT_SIZE_4K :: u64 where "NAPOT_SIZE_4K \<equiv> 0x1FF"
abbreviation (input) NAPOT_SIZE_64K :: u64 where "NAPOT_SIZE_64K \<equiv> 0x1FFF"

definition lbu_report :: "u64 \<Rightarrow> unit pprog" where
  "lbu_report addr = do {
     seen \<leftarrow> get_save 6; mcause \<leftarrow> get_save 2; mepc \<leftarrow> get_save 3; mtval \<leftarrow> get_save 4; resume \<leftarrow> get_save 5;
     v \<leftarrow> get_save 1;
     puts [Str ''lbu @'', Hex addr, Str '': seen='', Dec seen, Str '' mcause='', Hex mcause, Str '' mepc='', Hex mepc,
           Str '' mtval='', Hex mtval, Str '' resume-8='', Hex (resume - 8), Str '' byte='', Hex (v AND 0xFF),
           Str ''\<newline>''] }"

text \<open>The loaded byte is spilled to the save area only on the path without a fault.\<close>

definition test_lbu :: "pns_syms \<Rightarrow> u64 \<Rightarrow> bool \<Rightarrow> u64 \<Rightarrow> bool \<Rightarrow> unit pprog" where
  "test_lbu y addr expect_trap expect_val check_val = do {
     put_save 5 (lbu_resume y);
     put_save 6 0;
     r \<leftarrow> armed_load 1 addr (lbu_resume y - 8);
     (case r of Some v \<Rightarrow> put_save 1 v | None \<Rightarrow> State_Monad.return ());
     lbu_report addr;
     seen \<leftarrow> get_save 6; mcause \<leftarrow> get_save 2; mepc \<leftarrow> get_save 3; mtval \<leftarrow> get_save 4; resume \<leftarrow> get_save 5;
     v \<leftarrow> get_save 1;
     if expect_trap then do {
       check (seen = 1) ''expected trap did not happen'';
       check (mcause = 5) ''mcause != 5 (load access fault)'';
       check (mepc = resume - 8) ''mepc != address of faulting lbu'';
       check (mtval = addr) ''mtval != faulting address'' }
     else do {
       check (seen = 0) ''unexpected trap on allowed access'';
       only_if check_val (check (v AND 0xFF = expect_val) ''allowed byte read back wrong value'') } }"

definition pns_control1 :: "pns_syms \<Rightarrow> unit pprog" where
  "pns_control1 y = do {
     let base = window y;
     check (base AND 0xFFFF = 0) ''scratch start not 64 KiB aligned'';
     check (drop_bit 2 base AND 0x3FFF = 0) ''base>>2 low 14 bits not clear'';
     for_loop 0 65536 (\<lambda>i. store 1 (base + of_nat i) (of_nat i AND 0xFF));
     for_loop 0 65536 (\<lambda>i. do {
       v \<leftarrow> load 1 (base + of_nat i);
       check (v = of_nat i AND 0xFF) ''scratch not writable before PMP programming'' });
     store 1 (sentinel y) 0xA5;
     v \<leftarrow> load 1 (sentinel y);
     check (v = 0xA5) ''sentinel outside region not writable'';
     check (sentinel y < base \<or> base + 0x10000 \<le> sentinel y) ''far_sentinel landed inside the PMP region'';
     puts [Str ''control: scratch pattern + sentinel writable before PMP: ok\<newline>''] }"

definition pns_config_text :: "u64 \<Rightarrow> piece list" where
  "pns_config_text base =
     [Str ''config: base='', Hex base, Str '' pmpaddr0='', Hex (napot_addr base NAPOT_SIZE_4K),
      Str '' (NAPOT 4 KiB ['', Hex base, Str '', '', Hex (base + 0x1000), Str '')) pmpaddr1='',
      Hex (napot_addr base NAPOT_SIZE_64K), Str '' (NAPOT 64 KiB ['', Hex base, Str '', '', Hex (base + 0x10000),
      Str ''))\<newline>'']"

definition pns_phase_a :: "pns_syms \<Rightarrow> unit pprog" where
  "pns_phase_a y = do {
     let base = window y;
     puts [Str ''phase A: entry0 = locked NAPOT 4 KiB deny\<newline>''];
     csrw Pmpaddr0 (napot_addr base NAPOT_SIZE_4K);
     csrw Pmpcfg0 PMP_L_NAPOT_DENY;
     rb \<leftarrow> csrr Pmpaddr0;
     puts [Str ''config: pmpaddr0 readback='', Hex rb, Str ''\<newline>''];
     check (rb = napot_addr base NAPOT_SIZE_4K) ''pmpaddr0 readback mismatch'';
     rb \<leftarrow> csrr Pmpcfg0;
     puts [Str ''config: pmpcfg0 readback='', Hex rb, Str ''\<newline>''];
     check (rb = PMP_L_NAPOT_DENY) ''pmpcfg0 readback != 0x98'';
     for_loop 0 4 (\<lambda>i. store 8 (pns_outside y + of_nat (8 * i)) (0x1122334455667788 + of_nat i));
     for_loop 0 4 (\<lambda>i. do {
       v \<leftarrow> load 8 (pns_outside y + of_nat (8 * i));
       check (v = 0x1122334455667788 + of_nat i) ''address outside PMP region became inaccessible'' });
     puts [Str ''control: address outside region still accessible: ok\<newline>''];
     test_lbu y (base + 0x2000) False 0 True;
     test_lbu y (base + 0x0FFF) True 0 False;
     test_lbu y (base + 0x1000) False 0 True }"

definition pns_phase_b :: "pns_syms \<Rightarrow> unit pprog" where
  "pns_phase_b y = do {
     let base = window y;
     puts [Str ''phase B: entry1 = locked NAPOT 64 KiB deny\<newline>''];
     csrw Pmpaddr1 (napot_addr base NAPOT_SIZE_64K);
     csrw Pmpcfg0 (PMP_L_NAPOT_DENY OR push_bit 8 PMP_L_NAPOT_DENY);
     rb \<leftarrow> csrr Pmpaddr1;
     puts [Str ''config: pmpaddr1 readback='', Hex rb, Str ''\<newline>''];
     check (rb = napot_addr base NAPOT_SIZE_64K) ''pmpaddr1 readback mismatch'';
     rb \<leftarrow> csrr Pmpcfg0;
     puts [Str ''config: pmpcfg0 readback='', Hex rb, Str '' (locked byte0 must hold 0x98)\<newline>''];
     check (rb = PMP_L_NAPOT_DENY OR push_bit 8 PMP_L_NAPOT_DENY) ''pmpcfg0 readback != 0x9898'';
     test_lbu y (base + 0x2000) True 0 False;
     test_lbu y (base + 0xFFFF) True 0 False;
     test_lbu y (base + 0x10000) False 0 False;
     test_lbu y (sentinel y) False 0xA5 True }"

definition pns_verdict :: "unit pprog" where
  "pns_verdict = do {
     f \<leftarrow> get_fails;
     puts (if f = 0 then [Str ''RESULT: PASS (boundary moved 4 KiB -> 64 KiB with the encoding)\<newline>'']
           else [Str ''RESULT: FAIL ('', Dec (of_nat f), Str '' checks failed)\<newline>'']);
     puts [Str ''done\<newline>''] }"

definition pns_main :: "pns_syms \<Rightarrow> unit pprog" where
  "pns_main y = do {
     puts [Str ''pmp-napot-size: PMP NAPOT size-decoding test\<newline>'', Str ''hart mhartid=''];
     h \<leftarrow> csrr Mhartid;
     puts [Dec h, Str ''\<newline>''];
     pns_control1 y;
     csrw Mtvec (pns_entry y);
     csrw Mscratch (pns_savep y);
     puts (pns_config_text (window y));
     pns_phase_a y;
     pns_phase_b y;
     pns_verdict }"


subsection \<open>NAPOT regions\<close>

lemma napot_mask:
  fixes B :: u64
  assumes B: "\<And>i. i < Suc j \<Longrightarrow> \<not> bit B i" and j: "Suc j < 64"
  shows "(B OR mask j) XOR ((B OR mask j) + 1) = mask (Suc j)"
proof -
  have "B OR mask j = B + mask j"
    by (rule disjunctive_add [symmetric]) (use B in \<open>auto simp: bit_mask_iff\<close>)
  then have "(B OR mask j) + 1 = B + push_bit j 1"
    by (simp add: mask_eq_exp_minus_1 push_bit_eq_mult)
  also have "\<dots> = B OR push_bit j 1"
    by (rule disjunctive_add) (use B in \<open>auto simp: push_bit_eq_mult bit_exp_iff\<close>)
  finally have e: "(B OR mask j) + 1 = B OR push_bit j 1" .
  show ?thesis unfolding e
  proof (rule bit_word_eqI)
    fix n
    assume "n < LENGTH(64)"
    then show "bit ((B OR mask j) XOR (B OR push_bit j 1)) n = bit (mask (Suc j) :: u64) n"
      using B [of n] by (auto simp: bit_or_iff bit_xor_iff bit_mask_iff bit_push_bit_iff bit_1_iff bit_exp_iff less_Suc_eq)
  qed
qed

lemma or_mask_eq_iff: "a OR mask j = b OR mask j \<longleftrightarrow> drop_bit j a = drop_bit j b" for a b :: u64
proof
  assume h: "a OR mask j = b OR mask j"
  show "drop_bit j a = drop_bit j b"
  proof (rule bit_word_eqI)
    fix n
    assume "n < LENGTH(64)"
    from arg_cong [OF h, of "\<lambda>w. bit w (j + n)"] show "bit (drop_bit j a) n = bit (drop_bit j b) n"
      by (auto simp: bit_simps dest: bit_imp_le_length)
  qed
next
  assume h: "drop_bit j a = drop_bit j b"
  show "a OR mask j = b OR mask j"
  proof (rule bit_word_eqI)
    fix n
    assume "n < LENGTH(64)"
    then show "bit (a OR mask j) n = bit (b OR mask j) n"
      using arg_cong [OF h, of "\<lambda>w. bit w (n - j)"] by (auto simp: bit_simps)
  qed
qed

lemma aligned_low_bits: "\<not> bit base i" if "unat base mod 2 ^ k = 0" "i < k" for base :: u64
proof -
  have "base AND mask k = 0" using that(1) by (simp add: and_mask_0)
  then show ?thesis using that(2) bit_and_iff [of base "mask k" i] by (auto simp: bit_mask_iff dest: bit_imp_le_length)
qed

lemma napot_match_block:
  fixes base a :: u64
  assumes k: "3 \<le> k" "k < 64" and base: "unat base mod 2 ^ k = 0"
  shows "napot_match (napot_addr base (mask (k - 3))) a \<longleftrightarrow> drop_bit k a = drop_bit k base"
proof -
  let ?B = "drop_bit 2 base"
  have j: "Suc (k - 3) = k - 2" using k by simp
  have B: "\<not> bit ?B i" if "i < Suc (k - 3)" for i
    using aligned_low_bits [OF base, of "2 + i"] that k by (simp add: bit_drop_bit_eq)
  have m: "(?B OR mask (k - 3)) XOR ((?B OR mask (k - 3)) + 1) = mask (k - 2)"
    using napot_mask [of "k - 3" ?B] B k j by simp
  have "?B OR mask (k - 3) OR mask (k - 2) = ?B OR mask (k - 2)"
    using k by (auto simp: bit_eq_iff bit_or_iff bit_mask_iff)
  then have "napot_match (napot_addr base (mask (k - 3))) a \<longleftrightarrow> drop_bit 2 a OR mask (k - 2) = ?B OR mask (k - 2)"
    by (simp add: napot_match_def napot_addr_def m or.assoc Let_def)
  also have "\<dots> \<longleftrightarrow> drop_bit k a = drop_bit k base"
  proof -
    have "k - 2 + 2 = k" using k by simp
    then show ?thesis by (simp only: or_mask_eq_iff drop_bit_drop_bit)
  qed
  finally show ?thesis .
qed

lemma block_interval:
  fixes base a :: u64
  assumes "unat base mod 2 ^ k = 0" "k < 64"
  shows "drop_bit k a = drop_bit k base \<longleftrightarrow> unat base \<le> unat a \<and> unat a < unat base + 2 ^ k"
proof -
  have "unat (drop_bit k w) = unat w div 2 ^ k" for w :: u64
    by (simp add: unat_drop_bit_eq flip: drop_bit_eq_div)
  then have "drop_bit k a = drop_bit k base \<longleftrightarrow> unat a div 2 ^ k = unat base div 2 ^ k"
    by (simp only: word_unat_eq_iff)
  moreover obtain q where q: "unat base = q * 2 ^ k" using assms(1) by (auto simp: mod_eq_0_iff_dvd)
  moreover have "unat a div 2 ^ k = q \<longleftrightarrow> q * 2 ^ k \<le> unat a \<and> unat a < q * 2 ^ k + 2 ^ k"
    using div_nat_eqI [of "2 ^ k" q "unat a"] by (auto simp: algebra_simps dividend_less_times_div)
  ultimately show ?thesis by simp
qed


subsection \<open>Who may access what\<close>

lemma pmp_open:
  assumes "priv h = MMode" "csrf h Pmpcfg0 = 0"
  shows "pmp_allows h k a n"
  using assms by (simp add: pmp_allows_def pmp_match_def pmp_cfg_def Let_def list_ex_iff)

text \<open>Entry 0 locked over the 4 KiB at \<open>base\<close> without permissions, entry 1 off.\<close>

definition region_locked :: "u64 \<Rightarrow> hart \<Rightarrow> bool" where
  "region_locked base h \<longleftrightarrow> priv h = MMode \<and> csrf h Pmpcfg0 = 0x98 \<and> csrf h Pmpaddr0 = napot_addr base 0x1FF \<and>
     unat base mod 4096 = 0"

lemma locked_match:
  assumes "region_locked base h"
  shows "pmp_match h a 0 \<longleftrightarrow> unat base \<le> unat a \<and> unat a < unat base + 4096" "\<not> pmp_match h a 1"
proof -
  have "(0x1FF :: u64) = mask (12 - 3)" by (simp add: mask_eq_exp_minus_1)
  then have "napot_match (napot_addr base 0x1FF) a \<longleftrightarrow> drop_bit 12 a = drop_bit 12 base"
    using napot_match_block [of 12 base a] assms by (simp add: region_locked_def)
  moreover have "drop_bit 12 a = drop_bit 12 base \<longleftrightarrow> unat base \<le> unat a \<and> unat a < unat base + 4096"
    using block_interval [of base 12 a] assms by (simp add: region_locked_def)
  ultimately show "pmp_match h a 0 \<longleftrightarrow> unat base \<le> unat a \<and> unat a < unat base + 4096"
    using assms by (simp add: pmp_match_def pmp_cfg_def pmp_addr_def region_locked_def)
  show "\<not> pmp_match h a 1"
    using assms by (simp add: pmp_match_def pmp_cfg_def pmp_addr_def region_locked_def)
qed

lemma locked_denies:
  assumes r: "region_locked base h" and "0 < n" "\<And>j. j < n \<Longrightarrow> pmp_match h (a + of_nat j) 0"
  shows "\<not> pmp_allows h k a n"
proof -
  have "find (\<lambda>i. list_ex (\<lambda>b. pmp_match h b i) (map (\<lambda>j. a + of_nat j) [0..<n])) [0, 1] = Some 0"
    using assms(2,3) by (auto simp: list_ex_iff)
  moreover have "\<not> bit (pmp_cfg h 0) (perm_bit k)" "bit (pmp_cfg h 0) 7"
    using r by (cases k; simp add: pmp_cfg_def region_locked_def perm_bit_def)+
  ultimately show ?thesis by (simp add: pmp_allows_def Let_def)
qed

lemma locked_admits:
  assumes r: "region_locked base h" and "\<And>j. j < n \<Longrightarrow> \<not> pmp_match h (a + of_nat j) 0"
  shows "pmp_allows h k a n"
proof -
  have "find (\<lambda>i. list_ex (\<lambda>b. pmp_match h b i) (map (\<lambda>j. a + of_nat j) [0..<n])) [0, 1] = None"
    using assms(2) locked_match(2) [OF r] by (auto simp: list_ex_iff)
  then show ?thesis using r unfolding pmp_allows_def Let_def by (simp add: region_locked_def)
qed

subsection \<open>Byte memory\<close>

lemma store_le_apply:
  assumes "n \<le> 2 ^ 64"
  shows "store_le n a v m x = (if unat (x - a) < n then le_bytes n v ! unat (x - a) else m x)"
proof -
  have "fold (\<lambda>j m. m(a + of_nat j := le_bytes n v ! j)) [0..<k] m x =
      (if unat (x - a) < k then le_bytes n v ! unat (x - a) else m x)" if "k \<le> n" for k
    using that
  proof (induction k)
    case 0
    then show ?case by simp
  next
    case (Suc k)
    have "x = a + of_nat k \<longleftrightarrow> unat (x - a) = k"
    proof -
      have "unat (of_nat k :: u64) = k" using Suc.prems assms by (simp add: unat_of_nat take_bit_nat_eq_self)
      moreover have "x = a + of_nat k \<longleftrightarrow> x - a = of_nat k" by (auto simp: algebra_simps)
      ultimately show ?thesis by (auto simp: word_unat_eq_iff)
    qed
    then show ?case using Suc by (auto simp: less_Suc_eq)
  qed
  then show ?thesis by (simp add: store_le_def)
qed

subsection \<open>The phases of the probe\<close>

lemma run_memory [simp]:
  "run_state (load n a) s = (if pmp_allows (hw s) Read a n then (load_le n a (bytes s), s) else (0, s\<lparr>stray := True\<rparr>))"
  "run_state (store n a v) s = ((), if pmp_allows (hw s) Write a n then s\<lparr>bytes := store_le n a v (bytes s)\<rparr>
     else s\<lparr>stray := True\<rparr>)"
  "run_state get_t1 s = (reg_get 6 (hw s), s)"
  by (simp_all add: load_def store_def get_t1_def)

lemma for4: "for_loop 0 4 b = do { b 0; b 1; b 2; b 3 }"
  by (simp add: numeral_eq_Suc)

text \<open>The allowed accesses of the controls.\<close>

lemma exec_allowed:
  "pmp_allows (hw s) Read a n \<Longrightarrow> run_state (State_Monad.bind (load n a) f) s = run_state (f (load_le n a (bytes s))) s"
  "pmp_allows (hw s) Write a n \<Longrightarrow>
     run_state (State_Monad.bind (store n a v) g) s = run_state (g ()) (s\<lparr>bytes := store_le n a v (bytes s)\<rparr>)"
  by (simp_all add: exec_step)

lemma bytes_simps [simp]:
  "load_le (Suc 0) a m = ucast (m a)" "store_le (Suc 0) a v m = m(a := ucast v)"
  by (simp_all add: load_le_def store_le_def)

lemma load_store_same: "load_le 8 a (store_le 8 a v m) = v"
proof -
  have "map (\<lambda>j. store_le 8 a v m (a + of_nat j)) [0..<8] = map (\<lambda>j. le_bytes 8 v ! j) [0..<8]"
    by (rule map_cong) (auto simp: store_le_apply unat_of_nat take_bit_nat_eq_self)
  also have "\<dots> = le_bytes 8 v" using map_nth [of "le_bytes 8 v"] by simp
  finally show ?thesis by (simp add: load_le_def le_value_bytes) (simp add: take_bit_word_eq_self)
qed

lemma load_store_other:
  assumes "8 \<le> unat (b - a)" "unat (b - a) + 8 \<le> 2 ^ 64"
  shows "load_le 8 b (store_le 8 a v m) = load_le 8 b m"
proof -
  have "store_le 8 a v m (b + of_nat j) = m (b + of_nat j)" if "j < 8" for j
  proof -
    have "unat (b + of_nat j - a) = unat (b - a + of_nat j)" by (simp add: algebra_simps)
    also have "\<dots> = unat (b - a) + j"
      using that assms(2) by (simp add: unat_word_ariths unat_of_nat take_bit_nat_eq_self)
    finally show ?thesis using assms(1) by (simp add: store_le_apply)
  qed
  then have "map (\<lambda>j. store_le 8 a v m (b + of_nat j)) [0..<8] = map (\<lambda>j. m (b + of_nat j)) [0..<8]"
    by (intro map_cong) auto
  then show ?thesis by (simp only: load_le_def)
qed

lemma control1_run:
  assumes "priv (hw s) = MMode" "csrf (hw s) Pmpcfg0 = 0"
  shows "\<exists>b o1. run_state (pmp_control1 y) s = ((), s\<lparr>out := o1, bytes := b\<rparr>)"
  using assms
  by (cases s) (simp add: pmp_control1_def for4 exec_allowed pmp_open probe_run cong: probe_cong)

lemma control2_run:
  assumes "\<And>i k. i < 4 \<Longrightarrow> pmp_allows (hw s) k (outside y + of_nat (8 * i)) 8"
  shows "\<exists>b o1. run_state (pmp_control2 y) s = ((), s\<lparr>out := o1, bytes := b\<rparr>)"
proof -
  have a: "pmp_allows (hw s) k (outside y) 8" "pmp_allows (hw s) k (outside y + 8) 8"
    "pmp_allows (hw s) k (outside y + 16) 8" "pmp_allows (hw s) k (outside y + 24) 8" for k
    using assms [of 0 k] assms [of 1 k] assms [of 2 k] assms [of 3 k] by simp_all
  show ?thesis using a
  by (cases s) (simp add: pmp_control2_def for4 exec_allowed load_store_same load_store_other probe_run cong: probe_cong)
qed

text \<open>A fault in armed code: the handler has filled the save area, and only trap CSRs and \<open>mstatus\<close> have changed.\<close>

definition after_fault :: "u64 \<Rightarrow> u64 \<Rightarrow> u64 \<Rightarrow> pmachine \<Rightarrow> pmachine" where
  "after_fault cause epc a s = s\<lparr>hw := do_mret (csr_store Mepc (save s 5) (trap_to_m cause epc a (hw s))),
     save := (save s)(1 := reg_get 6 (hw s), 2 := cause, 3 := epc, 4 := a, 6 := 1)\<rparr>"

lemma trap_run: "run_state (do { take_trap cause epc a; pmp_trap_entry }) s = ((), after_fault cause epc a s)"
  by (simp add: pmp_trap_entry_def after_fault_def exec_basic exec_step [OF run_memory(3)] trap_to_m_def reg_get_def
      fun_upd_twist)

lemma armed_faults:
  "\<not> pmp_allows (hw s) Read a n \<Longrightarrow> run_state (armed_load n a epc) s = (None, after_fault 5 epc a s)"
  "\<not> pmp_allows (hw s) Write a n \<Longrightarrow> run_state (armed_store n a v epc) s = ((), after_fault 7 epc a s)"
  using trap_run [of 5 epc a s] trap_run [of 7 epc a s]
  by (simp_all add: armed_load_def armed_store_def run_state_bind split: prod.splits)

lemma after_fault_hart [simp]:
  "region_locked base (hw (after_fault c e a s)) = region_locked base (hw s)"
  by (simp add: after_fault_def region_locked_def)

lemma locked_scratch:
  assumes r: "region_locked base h"
  shows "\<not> pmp_allows h k base 4"
proof (rule locked_denies [OF r])
  fix j :: nat
  assume "j < 4"
  have "4096 dvd unat base" using r by (auto simp: region_locked_def)
  then obtain q where "unat base = 4096 * q" by (auto elim: dvdE)
  moreover have "unat base < 2 ^ LENGTH(64)" by (rule unsigned_less)
  ultimately have "unat base + j < 2 ^ 64" using \<open>j < 4\<close> by simp
  then have "unat (base + of_nat j) = unat base + j"
    using \<open>j < 4\<close> by (simp add: unat_word_ariths unat_of_nat take_bit_nat_eq_self)
  then show "pmp_match h (base + of_nat j) 0" using locked_match(1) [OF r] \<open>j < 4\<close> by simp
qed simp

lemma test_load_run:
  assumes "region_locked (scratch y) (hw s)"
  shows "\<exists>h v o1. run_state (test_load y) s = ((), s\<lparr>out := o1, hw := h, save := v\<rparr>) \<and> region_locked (scratch y) h"
proof -
  have d: "\<not> pmp_allows (hw s) Read (scratch y) 4" using locked_scratch [OF assms] .
  show ?thesis
    using assms d by (cases s) (simp add: test_load_def test_report_def armed_faults [THEN exec_step] probe_run after_fault_def region_locked_def Let_def cong: probe_cong)
qed

lemma test_store_run:
  assumes "region_locked (scratch y) (hw s)"
  shows "\<exists>h v o1. run_state (test_store y) s = ((), s\<lparr>out := o1, hw := h, save := v\<rparr>)"
proof -
  have d: "\<not> pmp_allows (hw s) Write (scratch y) 4" using locked_scratch [OF assms] .
  show ?thesis
    using assms d by (cases s) (simp add: test_store_def test_report_def armed_faults [THEN exec_step] probe_run
        after_fault_def region_locked_def Let_def cong: probe_cong)
qed

text \<open>A hart that implements the two PMP registers the probe writes, before anything is programmed.\<close>

definition pmp_hart :: "pmp_syms \<Rightarrow> hart \<Rightarrow> bool" where
  "pmp_hart y h \<longleftrightarrow> priv h = MMode \<and> csrf h Pmpcfg0 = 0 \<and>
     legal h Pmpcfg0 0 0x98 = 0x98 \<and> legal h Pmpcfg0 0x98 0 = 0x98 \<and>
     (\<forall>old. legal h Pmpaddr0 old (napot_addr (scratch y) 0x1FF) = napot_addr (scratch y) 0x1FF)"

lemma config_run:
  assumes "pmp_hart y (hw s)" "unat (scratch y) mod 4096 = 0"
  shows "\<exists>h o1. run_state (pmp_config y) s = ((), s\<lparr>out := o1, hw := h\<rparr>) \<and> region_locked (scratch y) h"
proof -
  have "scratch y AND 0xFFF = 0" using assms(2) and_mask_0 [of "scratch y" 12] by (simp add: mask_eq_exp_minus_1)
  then show ?thesis
    using assms by (cases s) (simp add: pmp_config_def pmp_hart_def probe_run region_locked_def Let_def csr_store_frame
        cong: probe_cong)
qed

lemma pmp_hart_store [simp]:
  "c \<notin> {Pmpcfg0, Pmpaddr0} \<Longrightarrow> pmp_hart y (csr_store c v h) = pmp_hart y h"
  by (auto simp: pmp_hart_def csr_store_frame)

lemma outside_admitted:
  assumes r: "region_locked base h" and "unat o1 + 32 \<le> unat base \<or> unat base + 4096 \<le> unat o1" "unat o1 + 32 \<le> 2 ^ 64" "i < 4"
  shows "pmp_allows h k (o1 + of_nat (8 * i)) 8"
proof (rule locked_admits [OF r])
  fix j :: nat
  assume "j < 8"
  then have "8 * i + j < 32" using assms(4) by linarith
  moreover have "unat (o1 + of_nat (8 * i) + of_nat j) = unat o1 + (8 * i + j)"
    using assms(3) calculation by (simp add: unat_word_ariths unat_of_nat take_bit_nat_eq_self add.assoc flip: of_nat_add)
  ultimately show "\<not> pmp_match h (o1 + of_nat (8 * i) + of_nat j) 0" using assms(2) locked_match(1) [OF r] by auto
qed


subsection \<open>Properties\<close>



text \<open>
  The denial probe passes on a conforming hart: when \<open>pmpcfg0\<close> takes the locked configuration and then keeps it,
  and \<open>pmpaddr0\<close> takes the region, \<open>main\<close> counts no failed check. Both controls succeed without a stray
  fault, and the load and the store inside the region are both denied with the right cause, address and program counter.
\<close>

theorem pmp_main_passes:
  assumes "pmp_hart y (hw s)" "unat (scratch y) mod 4096 = 0" "fails s = 0" "\<not> stray s"
    and "unat (outside y) + 32 \<le> unat (scratch y) \<or> unat (scratch y) + 4096 \<le> unat (outside y)"
    and "unat (outside y) + 32 \<le> 2 ^ 64"
  shows "fails (final (pmp_main y) s) = 0 \<and> \<not> stray (final (pmp_main y) s)"
proof -
  let ?s0 = "emit [Dec (csrf (hw s) Mhartid), Str ''\<newline>'']
      (emit [Str ''pmp-denial: PMP no-access region test\<newline>'', Str ''hart mhartid=''] s)"
  obtain b1 o1 where c1: "run_state (pmp_control1 y) ?s0 = ((), ?s0\<lparr>out := o1, bytes := b1\<rparr>)"
    using control1_run [of ?s0 y] assms(1) by (auto simp: pmp_hart_def)
  define s1 where "s1 = ?s0\<lparr>out := o1, bytes := b1, hw := csr_store Mscratch (savep y) (csr_store Mtvec (entry y) (hw s))\<rparr>"
  have "pmp_hart y (hw s1)" using assms(1) by (simp add: s1_def)
  then obtain h2 o2 where c2: "run_state (pmp_config y) s1 = ((), s1\<lparr>out := o2, hw := h2\<rparr>)" "region_locked (scratch y) h2"
    using config_run [of y s1] assms(2) by auto
  define s2 where "s2 = s1\<lparr>out := o2, hw := h2\<rparr>"
  obtain b3 o3 where c3: "run_state (pmp_control2 y) s2 = ((), s2\<lparr>out := o3, bytes := b3\<rparr>)"
    using control2_run [of s2 y] outside_admitted [OF c2(2) assms(5,6)] by (auto simp: s2_def)
  define s3 where "s3 = s2\<lparr>out := o3, bytes := b3\<rparr>"
  obtain h4 v4 o4 where c4: "run_state (test_load y) s3 = ((), s3\<lparr>out := o4, hw := h4, save := v4\<rparr>)"
    "region_locked (scratch y) h4"
    using test_load_run [of y s3] c2(2) by (auto simp: s3_def s2_def)
  obtain h5 v5 o5 where c5: "run_state (test_store y) (s3\<lparr>out := o4, hw := h4, save := v4\<rparr>) =
      ((), s3\<lparr>out := o5, hw := h5, save := v5\<rparr>)"
    using test_store_run [of y "s3\<lparr>out := o4, hw := h4, save := v4\<rparr>"] c4(2) by auto
  have "fails s3 = 0" "\<not> stray s3" using assms(3,4) by (simp_all add: s3_def s2_def s1_def emit_def)
  then show ?thesis
    using c1 c2(1) c3 c4(1) c5
    by (simp add: pmp_main_def pmp_verdict_def final_def exec_basic exec_step s1_def s2_def s3_def emit_def cong: probe_cong)
qed

text \<open>A hart whose configuration register keeps a locked entry, for the witness.\<close>

definition locking_hart :: hart where
  "locking_hart = \<lparr>gpr = \<lambda>_. 0, csrf = \<lambda>_. 0, ram = \<lambda>_. 0, pc = 0x80000000, priv = MMode, clock = \<lambda>_. (0, 0),
     retired = 0, legal = (\<lambda>c old v. if c = Pmpcfg0 \<and> bit old 7 then old else v), instret = (\<lambda>_. 0)\<rparr>"

definition locking_machine :: pmachine where
  "locking_machine = \<lparr>out = [], hw = locking_hart, fails = 0, nchecks = 0, save = \<lambda>_. 0, finisher = None, overrun = [],
     bytes = \<lambda>_. 0, stray = False\<rparr>"

definition pmp_image :: pmp_syms where
  "pmp_image = \<lparr>scratch = 0x80002000, outside = 0x80003000, entry = 0x80000100, savep = 0x80003040,
     load_resume = 0x80000200, store_resume = 0x80000300\<rparr>"

theorem pmp_main_passes_witness:
  "fails (final (pmp_main pmp_image) locking_machine) = 0"
  using pmp_main_passes [of pmp_image locking_machine]
  by (simp add: pmp_hart_def pmp_image_def locking_machine_def locking_hart_def)

end
