(* ===== verification/Sv39.thy ===== *)
theory Sv39
  imports Pmp
begin

text \<open>
  \<open>src/src/sv39/sv39_main.c\<close>: a page table built by hand, the switch to S-mode, one mapped access and
  three faulting ones. The first part is the architecture's Sv39 walk over byte memory; the second the
  program. Table indices are natural numbers, addresses and entries are 64-bit words.
\<close>

unbundle bit_operations_syntax


subsection \<open>The walk\<close>

definition vpn :: "u64 \<Rightarrow> nat \<Rightarrow> nat" where
  "vpn va i = unat va div 2 ^ (12 + 9 * i) mod 512"

definition slot :: "u64 \<Rightarrow> nat \<Rightarrow> u64" where
  "slot t i = t + of_nat (8 * i)"

definition pte_ppn :: "u64 \<Rightarrow> u64" where
  "pte_ppn pte = take_bit 44 (drop_bit 10 pte)"

text \<open>A leaf at level \<open>i\<close>: permissions, accessed and dirty bits, alignment of a superpage, and the physical address.\<close>

definition leaf :: "access \<Rightarrow> nat \<Rightarrow> u64 \<Rightarrow> u64 \<Rightarrow> u64 option" where
  "leaf k i pte va =
     (if bit pte (case k of Read \<Rightarrow> 1 | Write \<Rightarrow> 2 | Exec \<Rightarrow> 3) \<and> \<not> bit pte 4 \<and> bit pte 6 \<and>
         (k = Write \<longrightarrow> bit pte 7) \<and> take_bit (9 * i) (pte_ppn pte) = 0
      then Some (push_bit 12 (pte_ppn pte) OR take_bit (12 + 9 * i) va) else None)"

fun walk :: "(u64 \<Rightarrow> u8) \<Rightarrow> access \<Rightarrow> nat \<Rightarrow> u64 \<Rightarrow> u64 \<Rightarrow> u64 option" where
  "walk m k 0 t va = None"
| "walk m k (Suc i) t va =
     (let pte = load_le 8 (slot t (vpn va i)) m in
      if \<not> bit pte 0 \<or> \<not> bit pte 1 \<and> bit pte 2 then None
      else if \<not> bit pte 1 \<and> \<not> bit pte 3 then walk m k i (push_bit 12 (pte_ppn pte)) va
      else leaf k i pte va)"

definition canonical :: "u64 \<Rightarrow> bool" where
  "canonical va \<longleftrightarrow> drop_bit 38 va = 0 \<or> drop_bit 38 va = mask 26"

definition translate :: "hart \<Rightarrow> (u64 \<Rightarrow> u8) \<Rightarrow> access \<Rightarrow> u64 \<Rightarrow> u64 option" where
  "translate h m k va =
     (if priv h = MMode \<or> drop_bit 60 (csrf h Satp) = 0 then Some va
      else if drop_bit 60 (csrf h Satp) = 8 \<and> canonical va
      then walk m k 3 (push_bit 12 (take_bit 44 (csrf h Satp))) va else None)"


subsection \<open>The program\<close>

record sv39_syms =
  root_pt :: u64
  l1_test :: u64
  l0_test :: u64
  l1_uart :: u64
  l0_uart :: u64
  page :: u64
  stack_top :: u64
  s_tests :: u64
  s_entry :: u64
  s_savep :: u64
  mapped_resume :: u64
  mapped_load :: u64
  fault_resume :: u64

abbreviation (input) MAPPED_VA :: u64 where "MAPPED_VA \<equiv> 0x40000000"
abbreviation (input) FAULT_VA_L0 :: u64 where "FAULT_VA_L0 \<equiv> 0x40001000"
abbreviation (input) FAULT_VA_L1 :: u64 where "FAULT_VA_L1 \<equiv> 0x50000000"
abbreviation (input) FAULT_VA_L2 :: u64 where "FAULT_VA_L2 \<equiv> 0xC0000000"
abbreviation (input) IDENT_BASE :: u64 where "IDENT_BASE \<equiv> 0x80000000"
abbreviation (input) IDENT_END :: u64 where "IDENT_END \<equiv> 0xC0000000"
abbreviation (input) UART_BASE :: u64 where "UART_BASE \<equiv> 0x10000000"
abbreviation (input) PATTERN :: u64 where "PATTERN \<equiv> 0xDEADBEEFCAFEBABE"
abbreviation (input) PTE_V :: u64 where "PTE_V \<equiv> 0x001"
abbreviation (input) PTE_VRW :: u64 where "PTE_VRW \<equiv> 0x007"
abbreviation (input) PTE_VRWX :: u64 where "PTE_VRWX \<equiv> 0x00F"
abbreviation (input) PTE_AD :: u64 where "PTE_AD \<equiv> 0x0C0"
abbreviation (input) PPN_MASK :: u64 where "PPN_MASK \<equiv> 0xFFFFFFFFFFF"

definition set_satp :: "u64 \<Rightarrow> unit pprog" where
  "set_satp v = csrw Satp v"

definition read_satp :: "u64 pprog" where
  "read_satp = csrr Satp"

definition flag_chars :: "u64 \<Rightarrow> piece list" where
  "flag_chars fl = concat (map (\<lambda>(i, c). if bit fl i then [Chr c] else [])
       [(0, CHR ''V''), (1, CHR ''R''), (2, CHR ''W''), (3, CHR ''X''), (4, CHR ''U''), (5, CHR ''G''), (6, CHR ''A''), (7, CHR ''D'')])
     @ (if fl = 0 then [Chr (CHR ''0'')] else [])"

definition print_pte :: "string \<Rightarrow> u64 \<Rightarrow> unit pprog" where
  "print_pte name pte = puts ([Str name, Str ''='', Hex pte, Str '' ppn='', Hex (drop_bit 10 pte AND PPN_MASK), Str '' flags='']
     @ flag_chars (pte AND 0xFF) @ [Str ''\<newline>''])"

text \<open>\<open>sv39_trap.S\<close>: as \<open>pmp_trap.S\<close>, and \<open>stval\<close> into slot 7.\<close>

definition sv39_trap_entry :: "unit pprog" where
  "sv39_trap_entry = do {
     t1 \<leftarrow> get_t1; put_save 1 t1;
     c \<leftarrow> csrr Mcause; put_save 2 c;
     e \<leftarrow> csrr Mepc; put_save 3 e;
     t \<leftarrow> csrr Mtval; put_save 4 t;
     v \<leftarrow> csrr Stval; put_save 7 v;
     r \<leftarrow> get_save 5; csrw Mepc r;
     put_save 6 1;
     mret }"

text \<open>
  Translated accesses of 8 bytes in armed code: a page fault or an access fault runs the handler. The answer says
  whether the access went through.
\<close>

definition s_load :: "u64 \<Rightarrow> u64 \<Rightarrow> u64 option pprog" where
  "s_load va epc = do {
     s \<leftarrow> State_Monad.get;
     (case translate (hw s) (bytes s) Read va of
        None \<Rightarrow> do { take_trap 13 epc va; sv39_trap_entry; State_Monad.return None }
      | Some pa \<Rightarrow> if pmp_allows (hw s) Read pa 8 then State_Monad.return (Some (load_le 8 pa (bytes s)))
                   else do { take_trap 5 epc va; sv39_trap_entry; State_Monad.return None }) }"

definition s_store :: "u64 \<Rightarrow> u64 \<Rightarrow> u64 \<Rightarrow> bool pprog" where
  "s_store va v epc = do {
     s \<leftarrow> State_Monad.get;
     (case translate (hw s) (bytes s) Write va of
        None \<Rightarrow> do { take_trap 15 epc va; sv39_trap_entry; State_Monad.return False }
      | Some pa \<Rightarrow> if pmp_allows (hw s) Write pa 8
                   then do { State_Monad.set (s\<lparr>bytes := store_le 8 pa v (bytes s)\<rparr>); State_Monad.return True }
                   else do { take_trap 7 epc va; sv39_trap_entry; State_Monad.return False }) }"

definition test_mapped :: "sv39_syms \<Rightarrow> u64 pprog" where
  "test_mapped y = do {
     put_save 5 (mapped_resume y);
     put_save 6 0;
     ok \<leftarrow> s_store MAPPED_VA PATTERN (mapped_load y - 4);
     if ok then do { r \<leftarrow> s_load MAPPED_VA (mapped_load y); State_Monad.return (case r of Some v \<Rightarrow> v | None \<Rightarrow> 0) }
     else State_Monad.return 0 }"

definition fault_report :: "string \<Rightarrow> unit pprog" where
  "fault_report name = do {
     seen \<leftarrow> get_save 6; mcause \<leftarrow> get_save 2; mepc \<leftarrow> get_save 3; mtval \<leftarrow> get_save 4; stval \<leftarrow> get_save 7;
     resume \<leftarrow> get_save 5;
     puts [Str name, Str '': seen='', Dec seen, Str '' mcause='', Hex mcause, Str '' mepc='', Hex mepc, Str '' mtval='', Hex mtval,
           Str '' stval='', Hex stval, Str '' resume-4='', Hex (resume - 4), Str ''\<newline>''] }"

definition test_fault :: "sv39_syms \<Rightarrow> u64 \<Rightarrow> string \<Rightarrow> unit pprog" where
  "test_fault y va name = do {
     put_save 5 (fault_resume y);
     put_save 6 0;
     _ \<leftarrow> s_load va (fault_resume y - 4);
     fault_report name;
     seen \<leftarrow> get_save 6; check (seen = 1) ''unmapped load did not trap'';
     mcause \<leftarrow> get_save 2; check (mcause = 13) ''mcause != 13 (load page fault)'';
     mtval \<leftarrow> get_save 4; check (mtval = va) ''mtval != faulting VA'';
     stval \<leftarrow> get_save 7; check (stval = 0) ''stval unexpectedly nonzero'';
     mepc \<leftarrow> get_save 3; resume \<leftarrow> get_save 5;
     check (mepc = resume - 4) ''mepc != address of faulting ld'' }"

text \<open>The unarmed load of the physical page through the identity window.\<close>

definition s_peek :: "u64 \<Rightarrow> u64 pprog" where
  "s_peek va = State (\<lambda>s. case translate (hw s) (bytes s) Read va of
     Some pa \<Rightarrow> if pmp_allows (hw s) Read pa 8 then (load_le 8 pa (bytes s), s) else (0, s\<lparr>stray := True\<rparr>)
   | None \<Rightarrow> (0, s\<lparr>stray := True\<rparr>))"

definition sv39_verdict :: "unit pprog" where
  "sv39_verdict = do {
     f \<leftarrow> get_fails;
     puts (if f = 0 then [Str ''RESULT: PASS (mapped round-trip ok, all faults mcause=13)\<newline>'']
           else [Str ''RESULT: FAIL ('', Dec (of_nat f), Str '' checks failed)\<newline>'']);
     puts [Str ''done\<newline>''] }"

definition s_mode_tests :: "sv39_syms \<Rightarrow> unit pprog" where
  "s_mode_tests y = do {
     puts [Str ''s-mode: entered, translation active\<newline>''];
     got \<leftarrow> test_mapped y;
     seen \<leftarrow> get_save 6;
     puts [Str ''mapped: stored 0xdeadbeefcafebabe via VA 0x40000000, loaded '', Hex got, Str '' seen='', Dec seen, Str ''\<newline>''];
     check (seen = 0) ''mapped access unexpectedly trapped'';
     check (got = PATTERN) ''mapped load returned wrong value'';
     phys \<leftarrow> s_peek (page y);
     puts [Str ''mapped: physical page now holds '', Hex phys, Str ''\<newline>''];
     check (phys = PATTERN) ''physical page != pattern after mapped store'';
     test_fault y FAULT_VA_L0 ''fault-l0'';
     test_fault y FAULT_VA_L1 ''fault-l1'';
     test_fault y FAULT_VA_L2 ''fault-l2'';
     sv39_verdict }"

definition sv39_control :: "sv39_syms \<Rightarrow> unit pprog" where
  "sv39_control y = do {
     for_loop 0 8 (\<lambda>i. store 1 (page y + of_nat i) (0xA5 + of_nat i));
     for_loop 0 8 (\<lambda>i. do {
       v \<leftarrow> load 1 (page y + of_nat i);
       check (v = 0xA5 + of_nat i) ''page buffer not writable before table setup'' });
     puts [Str ''control: data page readable/writable before translation: ok\<newline>''] }"

definition sv39_layout :: "sv39_syms \<Rightarrow> unit pprog" where
  "sv39_layout y = do {
     check (root_pt y AND 0xFFF = 0) ''root_pt misaligned'';
     check (l1_test y AND 0xFFF = 0) ''l1_test misaligned'';
     check (l0_test y AND 0xFFF = 0) ''l0_test misaligned'';
     check (l1_uart y AND 0xFFF = 0) ''l1_uart misaligned'';
     check (l0_uart y AND 0xFFF = 0) ''l0_uart misaligned'';
     check (page y AND 0xFFF = 0) ''page misaligned'';
     check (stack_top y < IDENT_END) ''stack outside identity window'';
     check (IDENT_BASE \<le> s_tests y \<and> s_tests y < IDENT_END) ''s_mode_tests outside identity window'' }"

definition make_pte :: "u64 \<Rightarrow> u64 \<Rightarrow> u64" where
  "make_pte a flags = push_bit 10 (drop_bit 12 a) OR flags"

definition sv39_build :: "sv39_syms \<Rightarrow> unit pprog" where
  "sv39_build y = do {
     store 8 (slot (root_pt y) 2) (make_pte IDENT_BASE (PTE_VRWX OR PTE_AD));
     store 8 (slot (root_pt y) 1) (make_pte (l1_test y) PTE_V);
     store 8 (slot (root_pt y) 0) (make_pte (l1_uart y) PTE_V);
     store 8 (slot (l1_test y) 0) (make_pte (l0_test y) PTE_V);
     store 8 (slot (l0_test y) 0) (make_pte (page y) (PTE_VRW OR PTE_AD));
     store 8 (slot (l1_uart y) 128) (make_pte (l0_uart y) PTE_V);
     store 8 (slot (l0_uart y) 0) (make_pte UART_BASE (PTE_VRW OR PTE_AD)) }"

definition sv39_show :: "sv39_syms \<Rightarrow> unit pprog" where
  "sv39_show y = do {
     puts [Str ''table: VA 0x40000000 -> vpn2=1 vpn1=0 vpn0=0\<newline>''];
     r1 \<leftarrow> load 8 (slot (root_pt y) 1); print_pte ''table: root_pt[1] '' r1;
     t0 \<leftarrow> load 8 (slot (l1_test y) 0); print_pte ''table: l1_test[0] '' t0;
     p0 \<leftarrow> load 8 (slot (l0_test y) 0); print_pte ''table: l0_test[0] '' p0;
     r2 \<leftarrow> load 8 (slot (root_pt y) 2); print_pte ''table: root_pt[2] '' r2;
     r0 \<leftarrow> load 8 (slot (root_pt y) 0); print_pte ''table: root_pt[0] '' r0;
     u1 \<leftarrow> load 8 (slot (l1_uart y) 128); print_pte ''table: l1_uart[128]'' u1;
     u0 \<leftarrow> load 8 (slot (l0_uart y) 0); print_pte ''table: l0_uart[0] '' u0;
     check (r1 AND PTE_VRWX = PTE_V) ''root entry 1 is not a pure pointer (V only)'';
     check (r0 AND PTE_VRWX = PTE_V) ''root entry 0 is not a pure pointer (V only)'';
     check (t0 AND PTE_VRWX = PTE_V) ''l1 entry 0 is not a pure pointer (V only)'';
     check (u1 AND PTE_VRWX = PTE_V) ''uart l1 entry 128 is not a pure pointer (V only)'';
     check (p0 AND PTE_VRW = PTE_VRW) ''leaf entry missing V/R/W'';
     check (p0 AND (PTE_VRWX OR 0x10) = PTE_VRW) ''leaf entry has unexpected X/U bits'';
     check (drop_bit 10 r1 AND PPN_MASK = drop_bit 12 (l1_test y)) ''root[1] PPN != l1_test page number'';
     check (drop_bit 10 t0 AND PPN_MASK = drop_bit 12 (l0_test y)) ''l1_test[0] PPN != l0_test page number'';
     check (drop_bit 10 p0 AND PPN_MASK = drop_bit 12 (page y)) ''leaf PPN != page number'';
     check (drop_bit 10 u0 AND PPN_MASK = drop_bit 12 UART_BASE) ''uart leaf PPN != 0x10000'' }"

definition sv39_grant :: "unit pprog" where
  "sv39_grant = do {
     csrw Pmpaddr0 0;
     csrw Pmpaddr1 0x20100000;
     csrw Pmpcfg0 0x0F00;
     v \<leftarrow> csrr Pmpcfg0;
     puts [Str ''m-mode: pmpcfg0='', Hex v, Str '' (entry1: TOR [0, 0x80400000) R|W|X)\<newline>''];
     check (v = 0x0F00) ''pmpcfg0 readback != 0x0F00'' }"

definition sv39_enable :: "sv39_syms \<Rightarrow> unit pprog" where
  "sv39_enable y = do {
     let root_ppn = drop_bit 12 (root_pt y);
     csrw Mtvec (s_entry y);
     csrw Mscratch (s_savep y);
     set_satp (push_bit 60 8 OR root_ppn);
     satp \<leftarrow> read_satp;
     puts [Str ''m-mode: satp='', Hex satp, Str '' (MODE=8 ASID=0)\<newline>''];
     check (drop_bit 60 satp = 8) ''satp MODE != 8 (Sv39)'';
     check (satp AND PPN_MASK = root_ppn) ''satp PPN != root page'' }"

definition sv39_drop :: "sv39_syms \<Rightarrow> unit pprog" where
  "sv39_drop y = do {
     puts [Str ''m-mode: entering S-mode\<newline>''];
     st \<leftarrow> csrr Mstatus;
     csrw Mstatus (st AND NOT (push_bit 11 3) OR push_bit 11 1);
     csrw Mepc (s_tests y);
     mret }"

definition sv39_main :: "sv39_syms \<Rightarrow> unit pprog" where
  "sv39_main y = do {
     puts [Str ''sv39-walk: Sv39 page-table walk and fault path (backlog item 39)\<newline>'', Str ''m-mode: mhartid=''];
     h \<leftarrow> csrr Mhartid;
     puts [Dec h, Str ''\<newline>''];
     sv39_control y;
     sv39_layout y;
     sv39_build y;
     sv39_show y;
     sv39_grant;
     sv39_enable y;
     sv39_drop y;
     s_mode_tests y }"


subsection \<open>Aligned doublewords\<close>

lemma aligned_diff: "unat (b - a) mod 8 = 0" if "unat a mod 8 = 0" "unat b mod 8 = 0" for a b :: u64
proof -
  have "unat b = (unat (b - a) + unat a) mod 2 ^ 64" using unat_word_ariths(1) [of "b - a" a] by simp
  then have "unat b mod 8 = (unat (b - a) + unat a) mod 8" by (simp only: mod_mod_cancel [of 8 "2 ^ 64 :: nat"]) (simp add: mod_mod_cancel)
  then show ?thesis using that by (metis add_0_right mod_add_right_eq)
qed

lemma load_store_aligned:
  assumes "unat a mod 8 = 0" "unat b mod 8 = 0"
  shows "load_le 8 b (store_le 8 a v m) = (if a = b then v else load_le 8 b m)"
proof (cases "a = b")
  case True
  then show ?thesis by (simp add: load_store_same)
next
  case False
  let ?d = "unat (b - a)"
  have "?d \<noteq> 0" using False by (simp add: unat_eq_zero)
  moreover have "?d mod 8 = 0" using aligned_diff [OF assms] .
  moreover have "?d < 2 ^ LENGTH(64)" by (rule unsigned_less)
  ultimately have "8 \<le> ?d" "?d + 8 \<le> 2 ^ 64" by auto
  then show ?thesis using False load_store_other by simp
qed

definition page_aligned :: "u64 \<Rightarrow> bool" where
  "page_aligned t \<longleftrightarrow> unat t mod 4096 = 0"

lemma page_multiple:
  assumes "page_aligned t"
  obtains p where "unat t = 4096 * p" "p < 2 ^ 52"
proof -
  obtain p where p: "unat t = 4096 * p" using assms by (auto simp: page_aligned_def mod_eq_0_iff_dvd elim: dvdE)
  have "unat t < 2 ^ LENGTH(64)" by (rule unsigned_less)
  then have "p < 2 ^ 52" using p by simp
  then show thesis using that p by blast
qed

lemma unat_slot:
  assumes "page_aligned t" "i < 512"
  shows "unat (slot t i) = unat t + 8 * i"
proof -
  obtain p where p: "unat t = 4096 * p" "p < 2 ^ 52" using page_multiple [OF assms(1)] .
  then have "unat t + 8 * i < 2 ^ 64" using assms(2) by simp
  then show ?thesis by (simp add: slot_def unat_word_ariths unat_of_nat take_bit_nat_eq_self)
qed

lemma slot_aligned:
  assumes "page_aligned t" "i < 512"
  shows "unat (slot t i) mod 8 = 0"
proof -
  obtain p where "unat t = 4096 * p" using page_multiple [OF assms(1)] .
  then have "unat (slot t i) = 8 * (512 * p + i)" using unat_slot [OF assms] by simp
  then show ?thesis by simp
qed

lemma slot_eq:
  assumes "page_aligned t" "page_aligned u" "i < 512" "j < 512"
  shows "slot t i = slot u j \<longleftrightarrow> t = u \<and> i = j"
proof
  assume "slot t i = slot u j"
  then have e: "unat t + 8 * i = unat u + 8 * j" using unat_slot assms by metis
  obtain p q where p: "unat t = 4096 * p" and q: "unat u = 4096 * q"
    using page_multiple [OF assms(1)] page_multiple [OF assms(2)] by metis
  have "512 * p + i = 512 * q + j" using e p q by simp
  then have "(512 * p + i) div 512 = (512 * q + j) div 512" "(512 * p + i) mod 512 = (512 * q + j) mod 512" by simp_all
  then have "p = q" "i = j" using assms(3,4) by simp_all
  then show "t = u \<and> i = j" using p q by (simp add: word_unat_eq_iff)
qed simp

subsection \<open>Entries\<close>

lemma page_low_bits: "page_aligned t \<Longrightarrow> i < 12 \<Longrightarrow> \<not> bit t i"
  using aligned_low_bits [of t 12 i] by (simp add: page_aligned_def)

lemma make_pte_flag: "i < 10 \<Longrightarrow> bit (make_pte t f) i = bit f i"
  by (simp add: make_pte_def bit_or_iff bit_push_bit_iff)

lemma make_pte_ppn:
  assumes "unat t < 2 ^ 56" "f < 1024"
  shows "pte_ppn (make_pte t f) = drop_bit 12 t"
proof (rule bit_word_eqI)
  fix n
  assume n: "n < LENGTH(64)"
  have f: "\<not> bit f (10 + n)" using small_bits [of f 10 "10 + n"] assms(2) by (simp add: word_less_nat_alt)
  have t: "\<not> bit t (12 + n)" if "44 \<le> n"
    using that small_bits [OF assms(1), of "12 + n"] by simp
  then show "bit (pte_ppn (make_pte t f)) n = bit (drop_bit 12 t) n"
    using n f t by (cases "44 \<le> n") (auto simp: pte_ppn_def make_pte_def bit_simps)
qed

lemma page_base: "page_aligned t \<Longrightarrow> push_bit 12 (drop_bit 12 t) = t"
proof (rule bit_word_eqI)
  fix n
  assume t: "page_aligned t" and "n < LENGTH(64)"
  then show "bit (push_bit 12 (drop_bit 12 t)) n = bit t n"
    using page_low_bits [OF t, of n] by (cases "n < 12") (auto simp: bit_simps)
qed


subsection \<open>One level of the walk\<close>

lemma walk_invalid: "load_le 8 (slot t (vpn va i)) m = 0 \<Longrightarrow> walk m k (Suc i) t va = None"
  by simp

lemma walk_pointer:
  assumes "load_le 8 (slot t (vpn va i)) m = make_pte u 1" "page_aligned u" "unat u < 2 ^ 56"
  shows "walk m k (Suc i) t va = walk m k i u va"
proof -
  have "pte_ppn (make_pte u 1) = drop_bit 12 u" using make_pte_ppn assms(3) by simp
  then show ?thesis using assms(1) page_base [OF assms(2)] by (simp add: Let_def make_pte_flag)
qed

lemma walk_leaf:
  assumes "load_le 8 (slot t (vpn va i)) m = make_pte u f" "bit f 0" "bit f 1"
  shows "walk m k (Suc i) t va = leaf k i (make_pte u f) va"
  using assms by (simp add: Let_def make_pte_flag)

lemma leaf_page:
  assumes "page_aligned u" "unat u < 2 ^ 56"
  shows "leaf k 0 (make_pte u 0xC7) va = (if k = Exec then None else Some (u OR take_bit 12 va))"
  using make_pte_ppn [OF assms(2), of "0xC7"] page_base [OF assms(1)]
  by (cases k) (simp_all add: leaf_def make_pte_flag)

lemma leaf_window: "leaf k 2 (make_pte 0x80000000 0xCF) va = Some (0x80000000 OR take_bit 30 va)"
proof -
  have "make_pte 0x80000000 0xCF = 0x200000CF" by (simp add: make_pte_def)
  then show ?thesis by (cases k) (simp_all add: leaf_def pte_ppn_def)
qed

subsection \<open>Page numbers\<close>

lemma vpn_page: "vpn va 0 = unat va div 4096 mod 512" "vpn va 1 = unat va div 4096 div 512 mod 512"
  "vpn va 2 = unat va div 4096 div 262144 mod 512"
  by (simp_all add: vpn_def div_mult2_eq [symmetric])

lemma digits: "(q :: nat) = q div 262144 * 262144 + q div 512 mod 512 * 512 + q mod 512"
proof -
  have "q div 512 = q div 512 div 512 * 512 + q div 512 mod 512" by simp
  moreover have "q div 512 div 512 = q div 262144" by (simp add: div_mult2_eq [symmetric])
  moreover have "q = q div 512 * 512 + q mod 512" by simp
  ultimately show ?thesis by algebra
qed

lemma canonical_root:
  assumes "canonical va" "vpn va 2 < 256"
  shows "unat va div 4096 div 262144 = vpn va 2" "unat va < 2 ^ 38"
proof -
  have "unat (drop_bit 38 va) = unat va div 2 ^ 38"
    by (simp add: unat_drop_bit_eq) (simp add: drop_bit_eq_div)
  moreover have "unat (mask 26 :: u64) = 2 ^ 26 - 1" by (simp add: mask_eq_exp_minus_1)
  ultimately consider "unat va div 2 ^ 38 = 0" | "unat va div 2 ^ 38 = 2 ^ 26 - 1"
    using assms(1) by (auto simp: canonical_def)
  then have "unat va div 2 ^ 38 = 0"
  proof cases
    case 2
    have "unat va div 2 ^ 30 div 256 = 2 ^ 26 - 1" using 2 by (simp add: div_mult2_eq [symmetric])
    then have "unat va div 2 ^ 30 = 256 * (2 ^ 26 - 1) + unat va div 2 ^ 30 mod 256" by (metis mult_div_mod_eq)
    then have "unat va div 2 ^ 30 = (2 ^ 25 - 1) * 512 + (256 + unat va div 2 ^ 30 mod 256)" by simp
    then have "unat va div 2 ^ 30 mod 512 = (256 + unat va div 2 ^ 30 mod 256) mod 512" by (metis mod_mult_self3)
    then have "unat va div 2 ^ 30 mod 512 \<ge> 256" by simp
    then show ?thesis using assms(2) by (simp add: vpn_def)
  qed
  then show "unat va < 2 ^ 38" by (simp add: div_eq_0_iff)
  then have "unat va div 2 ^ 30 < 512" by (simp add: less_mult_imp_div_less)
  then show "unat va div 4096 div 262144 = vpn va 2" by (simp add: vpn_def div_mult2_eq [symmetric])
qed

subsection \<open>What the tables translate\<close>

definition sv39_image :: "sv39_syms \<Rightarrow> bool" where
  "sv39_image y \<longleftrightarrow> (\<forall>t \<in> {root_pt y, l1_test y, l0_test y, l1_uart y, l0_uart y, page y}. page_aligned t \<and> unat t < 2 ^ 56) \<and>
     distinct [root_pt y, l1_test y, l0_test y, l1_uart y, l0_uart y, page y]"

definition entries :: "u64 \<Rightarrow> (nat \<Rightarrow> u64) \<Rightarrow> (u64 \<Rightarrow> u8) \<Rightarrow> bool" where
  "entries t f m \<longleftrightarrow> (\<forall>i < 512. load_le 8 (slot t i) m = f i)"

definition tables :: "sv39_syms \<Rightarrow> (u64 \<Rightarrow> u8) \<Rightarrow> bool" where
  "tables y m \<longleftrightarrow>
     entries (root_pt y) ((\<lambda>_. 0)(2 := make_pte 0x80000000 0xCF, 1 := make_pte (l1_test y) 1, 0 := make_pte (l1_uart y) 1)) m \<and>
     entries (l1_test y) ((\<lambda>_. 0)(0 := make_pte (l0_test y) 1)) m \<and>
     entries (l0_test y) ((\<lambda>_. 0)(0 := make_pte (page y) 0xC7)) m \<and>
     entries (l1_uart y) ((\<lambda>_. 0)(128 := make_pte (l0_uart y) 1)) m \<and>
     entries (l0_uart y) ((\<lambda>_. 0)(0 := make_pte 0x10000000 0xC7)) m"

lemma vpn_bound: "vpn va i < 512"
  by (simp add: vpn_def)

lemma walk_tables:
  assumes y: "sv39_image y" and t: "tables y m"
  shows "walk m k 3 (root_pt y) va =
    (if vpn va 2 = 0 then (if vpn va 1 = 128 \<and> vpn va 0 = 0 \<and> k \<noteq> Exec then Some (0x10000000 OR take_bit 12 va) else None)
     else if vpn va 2 = 1 then (if vpn va 1 = 0 \<and> vpn va 0 = 0 \<and> k \<noteq> Exec then Some (page y OR take_bit 12 va) else None)
     else if vpn va 2 = 2 then Some (0x80000000 OR take_bit 30 va) else None)"
proof -
  have p: "page_aligned u" "unat u < 2 ^ 56" if "u \<in> {root_pt y, l1_test y, l0_test y, l1_uart y, l0_uart y, page y}" for u
    using y that by (auto simp: sv39_image_def)
  have e: "entries u f m \<Longrightarrow> load_le 8 (slot u (vpn va i)) m = f (vpn va i)" for u f i
    using vpn_bound by (simp add: entries_def)
  note r = t [unfolded tables_def, THEN conjunct1, THEN e, of 2]
    and t1 = t [unfolded tables_def, THEN conjunct2, THEN conjunct1, THEN e, of 1]
    and t0 = t [unfolded tables_def, THEN conjunct2, THEN conjunct2, THEN conjunct1, THEN e, of 0]
    and u1 = t [unfolded tables_def, THEN conjunct2, THEN conjunct2, THEN conjunct2, THEN conjunct1, THEN e, of 1]
    and u0 = t [unfolded tables_def, THEN conjunct2, THEN conjunct2, THEN conjunct2, THEN conjunct2, THEN e, of 0]
  have three: "walk m k 3 a va = walk m k (Suc 2) a va" "walk m k 2 b va = walk m k (Suc 1) b va"
    "walk m k 1 c va = walk m k (Suc 0) c va" for a b c
    by (simp_all only: numeral_3_eq_3 numeral_2_eq_2 One_nat_def)
  have uart: "page_aligned 0x10000000" by (simp add: page_aligned_def)
  have T0: "walk m k 1 (l0_test y) va = (if vpn va 0 = 0 \<and> k \<noteq> Exec then Some (page y OR take_bit 12 va) else None)"
    unfolding three using t0 walk_invalid [of "l0_test y" va 0 m k] walk_leaf [of "l0_test y" va 0 m "page y" "0xC7" k]
      leaf_page [of "page y" k va] p [of "page y"] by (cases "vpn va 0 = 0") simp_all
  have U0: "walk m k 1 (l0_uart y) va = (if vpn va 0 = 0 \<and> k \<noteq> Exec then Some (0x10000000 OR take_bit 12 va) else None)"
    unfolding three using u0 walk_invalid [of "l0_uart y" va 0 m k] walk_leaf [of "l0_uart y" va 0 m "0x10000000" "0xC7" k]
      leaf_page [of "0x10000000" k va] uart by (cases "vpn va 0 = 0") simp_all
  have T1: "walk m k 2 (l1_test y) va = (if vpn va 1 = 0 then walk m k 1 (l0_test y) va else None)"
    unfolding three(2) using t1 walk_invalid [of "l1_test y" va 1 m k] walk_pointer [of "l1_test y" va 1 m "l0_test y" k]
      p [of "l0_test y"] by (cases "vpn va 1 = 0") (simp_all del: walk.simps)
  have U1: "walk m k 2 (l1_uart y) va = (if vpn va 1 = 128 then walk m k 1 (l0_uart y) va else None)"
    unfolding three(2) using u1 walk_invalid [of "l1_uart y" va 1 m k] walk_pointer [of "l1_uart y" va 1 m "l0_uart y" k]
      p [of "l0_uart y"] by (cases "vpn va 1 = 128") (simp_all del: walk.simps)
  consider "vpn va 2 = 0" | "vpn va 2 = 1" | "vpn va 2 = 2" | "vpn va 2 \<notin> {0, 1, 2}" by auto
  then have "walk m k 3 (root_pt y) va = (if vpn va 2 = 0 then walk m k 2 (l1_uart y) va else if vpn va 2 = 1
      then walk m k 2 (l1_test y) va else if vpn va 2 = 2 then leaf k 2 (make_pte 0x80000000 0xCF) va else None)"
    unfolding three(1) using r walk_invalid [of "root_pt y" va 2 m k] walk_pointer [of "root_pt y" va 2 m _ k]
      walk_leaf [of "root_pt y" va 2 m "0x80000000" "0xCF" k] p [of "l1_test y"] p [of "l1_uart y"]
    by cases (simp_all del: walk.simps)
  then show ?thesis unfolding T1 U1 T0 U0 leaf_window by simp
qed

lemma or_offset:
  fixes b va :: u64
  assumes "unat b mod 2 ^ k = 0"
  shows "b OR take_bit k va = b + take_bit k va"
  using aligned_low_bits [OF assms] by (intro disjunctive_add [symmetric]) (auto simp: bit_take_bit_iff)

lemma offset_of:
  fixes va :: u64
  assumes "unat va div 2 ^ k = q"
  shows "take_bit k va = va - of_nat (q * 2 ^ k)"
proof -
  have "unat va = q * 2 ^ k + unat va mod 2 ^ k" using assms by (metis div_mult_mod_eq)
  moreover have "unat (take_bit k va) = unat va mod 2 ^ k" by (simp add: unsigned_take_bit_eq) (simp add: take_bit_eq_mod)
  ultimately have "unat va = q * 2 ^ k + unat (take_bit k va)" by simp
  then have "(of_nat (unat va) :: u64) = of_nat (q * 2 ^ k) + of_nat (unat (take_bit k va))" by (metis of_nat_add)
  then have "va = of_nat (q * 2 ^ k) + take_bit k va" by simp
  then show ?thesis by (simp add: eq_diff_eq add.commute)
qed

text \<open>The address space the tables define, in terms of intervals.\<close>

definition within :: "u64 \<Rightarrow> u64 \<Rightarrow> u64 \<Rightarrow> bool" where
  "within lo hi a \<longleftrightarrow> lo \<le> a \<and> a < hi"

definition sv39_map :: "sv39_syms \<Rightarrow> access \<Rightarrow> u64 \<Rightarrow> u64 option" where
  "sv39_map y k va =
     (if within 0x40000000 0x40001000 va \<and> k \<noteq> Exec then Some (page y + (va - 0x40000000))
      else if within 0x10000000 0x10001000 va \<and> k \<noteq> Exec then Some va
      else if within 0x80000000 0xC0000000 va then Some va
      else None)"

lemma block_number: "2 ^ k * q \<le> unat va \<and> unat va < 2 ^ k * q + 2 ^ k \<longleftrightarrow> unat va div 2 ^ k = q"
proof -
  have "unat va < 2 ^ k * (unat va div 2 ^ k) + 2 ^ k"
    using mult_div_mod_eq [of "2 ^ k" "unat va"] mod_less_divisor [of "2 ^ k" "unat va", OF zero_less_power] by linarith
  then show ?thesis using div_nat_eqI [of "2 ^ k" q "unat va"] by auto
qed

lemma page_digits:
  assumes "canonical va" "a < 256" "b < 512" "c < 512"
  shows "unat va div 4096 = a * 262144 + b * 512 + c \<longleftrightarrow> vpn va 2 = a \<and> vpn va 1 = b \<and> vpn va 0 = c"
proof
  assume q: "unat va div 4096 = a * 262144 + b * 512 + c"
  have "(a * 262144 + b * 512 + c) div 512 = a * 512 + b" "(a * 262144 + b * 512 + c) div 262144 = a"
    using assms(3,4) by simp_all
  moreover have "(a * 262144 + b * 512 + c) mod 512 = c" using assms(4) mod_mult_self3 [of "a * 512 + b" 512 c]
    by (simp add: algebra_simps)
  ultimately show "vpn va 2 = a \<and> vpn va 1 = b \<and> vpn va 0 = c"
    unfolding vpn_page q using assms(2-4) by simp
next
  assume v: "vpn va 2 = a \<and> vpn va 1 = b \<and> vpn va 0 = c"
  then have "unat va div 4096 div 262144 = a" using canonical_root(1) [OF assms(1)] assms(2) by simp
  then show "unat va div 4096 = a * 262144 + b * 512 + c"
    using digits [of "unat va div 4096"] v unfolding vpn_page by simp
qed

lemma walk_is_map:
  assumes y: "sv39_image y" and t: "tables y m" and c: "canonical va"
  shows "walk m k 3 (root_pt y) va = sv39_map y k va"
proof -
  have i1: "within 0x40000000 0x40001000 va \<longleftrightarrow> vpn va 2 = 1 \<and> vpn va 1 = 0 \<and> vpn va 0 = 0"
    using block_number [of 12 "0x40000" va] page_digits [OF c, of 1 0 0] by (simp add: within_def word_le_nat_alt word_less_nat_alt)
  have i2: "within 0x10000000 0x10001000 va \<longleftrightarrow> vpn va 2 = 0 \<and> vpn va 1 = 128 \<and> vpn va 0 = 0"
    using block_number [of 12 "0x10000" va] page_digits [OF c, of 0 128 0] by (simp add: within_def word_le_nat_alt word_less_nat_alt)
  have v2: "vpn va 2 = 2 \<longleftrightarrow> unat va div 2 ^ 30 = 2"
    using canonical_root(1) [OF c] by (auto simp: vpn_def div_mult2_eq [symmetric])
  have i3: "within 0x80000000 0xC0000000 va \<longleftrightarrow> vpn va 2 = 2"
    unfolding v2 using block_number [of 30 2 va] by (simp add: within_def word_le_nat_alt word_less_nat_alt)
  have "page y OR take_bit 12 va = page y + (va - 0x40000000)" if "vpn va 2 = 1 \<and> vpn va 1 = 0 \<and> vpn va 0 = 0"
    using or_offset [of "page y" 12 va] offset_of [of va 12 "0x40000"] page_digits [OF c, of 1 0 0] that y
    by (simp add: sv39_image_def page_aligned_def)
  moreover have "0x10000000 OR take_bit 12 va = va" if "vpn va 2 = 0 \<and> vpn va 1 = 128 \<and> vpn va 0 = 0"
    using or_offset [of "0x10000000" 12 va] offset_of [of va 12 "0x10000"] page_digits [OF c, of 0 128 0] that by simp
  moreover have "0x80000000 OR take_bit 30 va = va" if "vpn va 2 = 2"
    using or_offset [of "0x80000000" 30 va] offset_of [of va 30 2] that v2 by simp
  ultimately show ?thesis unfolding sv39_map_def i1 i2 i3 walk_tables [OF y t] by auto
qed


subsection \<open>Building the tables\<close>

definition built :: "sv39_syms \<Rightarrow> (u64 \<Rightarrow> u8) \<Rightarrow> u64 \<Rightarrow> u8" where
  "built y m =
     store_le 8 (slot (l0_uart y) 0) (make_pte 0x10000000 0xC7)
      (store_le 8 (slot (l1_uart y) 128) (make_pte (l0_uart y) 1)
      (store_le 8 (slot (l0_test y) 0) (make_pte (page y) 0xC7)
      (store_le 8 (slot (l1_test y) 0) (make_pte (l0_test y) 1)
      (store_le 8 (slot (root_pt y) 0) (make_pte (l1_uart y) 1)
      (store_le 8 (slot (root_pt y) 1) (make_pte (l1_test y) 1)
      (store_le 8 (slot (root_pt y) 2) (make_pte 0x80000000 0xCF) m))))))"

lemma entries_store:
  assumes "page_aligned t" "page_aligned u" "j < 512"
  shows "entries t f m \<Longrightarrow> entries t (if t = u then f(j := v) else f) (store_le 8 (slot u j) v m)"
  using assms slot_eq [OF assms(2,1,3)] load_store_aligned slot_aligned by (auto simp: entries_def)

lemma entries_store_other:
  "page_aligned t \<Longrightarrow> page_aligned u \<Longrightarrow> j < 512 \<Longrightarrow> t \<noteq> u \<Longrightarrow> entries t f m \<Longrightarrow> entries t f (store_le 8 (slot u j) v m)"
  using entries_store [of t u j f m v] by simp

lemma built_tables:
  assumes "sv39_image y" "\<And>t. t \<in> {root_pt y, l1_test y, l0_test y, l1_uart y, l0_uart y} \<Longrightarrow> entries t (\<lambda>_. 0) m"
  shows "tables y (built y m)"
proof -
  have p: "page_aligned (root_pt y)" "page_aligned (l1_test y)" "page_aligned (l0_test y)" "page_aligned (l1_uart y)"
    "page_aligned (l0_uart y)" and d: "distinct [root_pt y, l1_test y, l0_test y, l1_uart y, l0_uart y]"
    using assms(1) by (auto simp: sv39_image_def)
  have z: "load_le 8 (slot t i) m = 0" if "t \<in> {root_pt y, l1_test y, l0_test y, l1_uart y, l0_uart y}" "i < 512" for t i
    using assms(2) [OF that(1)] that(2) by (simp add: entries_def)
  have ne: "l1_test y \<noteq> root_pt y" "l0_test y \<noteq> root_pt y" "l1_uart y \<noteq> root_pt y" "l0_uart y \<noteq> root_pt y"
    "l0_test y \<noteq> l1_test y" "l1_uart y \<noteq> l1_test y" "l0_uart y \<noteq> l1_test y" "l1_uart y \<noteq> l0_test y"
    "l0_uart y \<noteq> l0_test y" "l0_uart y \<noteq> l1_uart y"
    using d by auto
  note ne' = ne [symmetric]
  show ?thesis unfolding tables_def entries_def built_def
    by (intro conjI allI impI; simp add: load_store_aligned slot_aligned slot_eq p ne ne' z)
qed

lemma build_run:
  assumes "priv (hw s) = MMode" "csrf (hw s) Pmpcfg0 = 0"
  shows "run_state (sv39_build y) s = ((), s\<lparr>bytes := built y (bytes s)\<rparr>)"
  using assms
  by (cases s) (simp add: sv39_build_def exec_allowed pmp_open probe_run built_def cong: probe_cong)

subsection \<open>S-mode\<close>

definition s_world :: "sv39_syms \<Rightarrow> hart \<Rightarrow> bool" where
  "s_world y h \<longleftrightarrow> priv h = SMode \<and> csrf h Satp = push_bit 60 8 OR drop_bit 12 (root_pt y) \<and> csrf h Pmpcfg0 = 0x0F00 \<and>
     csrf h Pmpaddr0 = 0 \<and> csrf h Pmpaddr1 = 0x20100000 \<and> csrf h Stval = 0"

lemma satp_fields:
  assumes "page_aligned r" "unat r < 2 ^ 56"
  shows "drop_bit 60 (push_bit 60 8 OR drop_bit 12 r :: u64) = 8" "take_bit 44 (push_bit 60 8 OR drop_bit 12 r :: u64) = drop_bit 12 r"
proof -
  have b: "\<not> bit r (12 + n)" if "44 \<le> n" for n using small_bits [OF assms(2), of "12 + n"] that by simp
  show "drop_bit 60 (push_bit 60 8 OR drop_bit 12 r :: u64) = 8"
    by (rule bit_word_eqI) (use b in \<open>auto simp: bit_simps\<close>)
  show "take_bit 44 (push_bit 60 8 OR drop_bit 12 r :: u64) = drop_bit 12 r"
  proof (rule bit_word_eqI)
    fix n
    assume "n < LENGTH(64)"
    then show "bit (take_bit 44 (push_bit 60 8 OR drop_bit 12 r :: u64)) n = bit (drop_bit 12 r) n"
      using b [of n] by (cases "44 \<le> n") (auto simp: bit_simps)
  qed
qed

lemma s_translate:
  assumes "s_world y h" "sv39_image y" "tables y m"
  shows "translate h m k va = (if canonical va then sv39_map y k va else None)"
proof -
  have r: "page_aligned (root_pt y)" "unat (root_pt y) < 2 ^ 56" using assms(2) by (simp_all add: sv39_image_def)
  show ?thesis
    using assms(1) satp_fields [OF r] page_base [OF r(1)] walk_is_map [OF assms(2,3)]
    by (simp add: translate_def s_world_def del: walk.simps)
qed

lemma s_granted:
  assumes "s_world y h" "unat a + 8 \<le> 0x80400000"
  shows "pmp_allows h k a 8"
proof -
  have m: "pmp_match h (a + of_nat j) 1" if "j < 8" for j
  proof -
    have "unat (a + of_nat j) = unat a + j"
      using that assms(2) by (simp add: unat_word_ariths unat_of_nat take_bit_nat_eq_self)
    then have "unat (drop_bit 2 (a + of_nat j)) = (unat a + j) div 4"
      by (simp add: unat_drop_bit_eq) (simp add: drop_bit_eq_div)
    then have "drop_bit 2 (a + of_nat j) < 0x20100000" using that assms(2) by (simp add: word_less_nat_alt)
    then show ?thesis using assms(1) by (simp add: pmp_match_def pmp_cfg_def pmp_addr_def s_world_def Let_def)
  qed
  have n: "\<not> pmp_match h b 0" for b using assms(1) by (simp add: pmp_match_def pmp_cfg_def s_world_def Let_def)
  have "find (\<lambda>i. list_ex (\<lambda>b. pmp_match h b i) (map (\<lambda>j. a + of_nat j) [0..<8])) [0, 1] = Some 1"
    using m [of 0] n by (auto simp: list_ex_iff intro: bexI [of _ 0])
  moreover have "bit (pmp_cfg h 1) (perm_bit k)"
    using assms(1) by (cases k) (simp_all add: pmp_cfg_def s_world_def perm_bit_def)
  ultimately show ?thesis using m by (auto simp: pmp_allows_def Let_def list_all_iff)
qed


subsection \<open>The M-mode phases\<close>

lemma for8: "for_loop 0 8 b = do { b 0; b 1; b 2; b 3; b 4; b 5; b 6; b 7 }"
  by (simp add: numeral_eq_Suc)

lemma control_bytes:
  "m(p := 0xA5, p + 1 := 0xA6, p + 2 := 0xA7, p + 3 := 0xA8, p + 4 := 0xA9, p + 5 := 0xAA, p + 6 := 0xAB, p + 7 := 0xAC) =
     store_le 8 (slot p 0) 0xACABAAA9A8A7A6A5 m"
proof -
  have "[0..<8] = [0, 1, 2, 3, 4, 5, 6, 7 :: nat]" by (simp add: upt_rec)
  moreover have "le_bytes 8 0xACABAAA9A8A7A6A5 = [0xA5, 0xA6, 0xA7, 0xA8, 0xA9, 0xAA, 0xAB, 0xAC]"
    by code_simp
  ultimately show ?thesis by (simp add: store_le_def slot_def)
qed

lemma control_run:
  assumes "priv (hw s) = MMode" "csrf (hw s) Pmpcfg0 = 0"
  shows "\<exists>o1. run_state (sv39_control y) s = ((), s\<lparr>out := o1, bytes := store_le 8 (slot (page y) 0) 0xACABAAA9A8A7A6A5 (bytes s)\<rparr>)"
  using assms
  by (cases s) (simp add: sv39_control_def for8 exec_allowed pmp_open probe_run control_bytes [symmetric] cong: probe_cong)

lemma layout_run:
  assumes "sv39_image y" "stack_top y < 0xC0000000" "0x80000000 \<le> s_tests y" "s_tests y < 0xC0000000"
  shows "\<exists>o1. run_state (sv39_layout y) s = ((), s\<lparr>out := o1\<rparr>)"
proof -
  have "t AND 0xFFF = 0" if "page_aligned t" for t
    using that and_mask_0 [of t 12] by (simp add: page_aligned_def mask_eq_exp_minus_1)
  then show ?thesis using assms by (cases s) (simp add: sv39_layout_def sv39_image_def probe_run cong: probe_cong)
qed

lemma make_pte_low: "make_pte t f AND mask n = f AND mask n" if "n \<le> 10"
  using that by (intro bit_word_eqI) (auto simp: bit_simps make_pte_def)

lemma make_pte_number: "unat t < 2 ^ 56 \<Longrightarrow> f < 1024 \<Longrightarrow> drop_bit 10 (make_pte t f) AND 0xFFFFFFFFFFF = drop_bit 12 t"
  using make_pte_ppn [of t f] by (simp add: pte_ppn_def take_bit_eq_mask mask_eq_exp_minus_1)

lemma show_run:
  assumes y: "sv39_image y" and t: "tables y (bytes s)" and m: "priv (hw s) = MMode" "csrf (hw s) Pmpcfg0 = 0"
  shows "\<exists>o1. run_state (sv39_show y) s = ((), s\<lparr>out := o1\<rparr>)"
proof -
  have e: "load_le 8 (slot (root_pt y) 0) (bytes s) = make_pte (l1_uart y) 1"
    "load_le 8 (slot (root_pt y) 1) (bytes s) = make_pte (l1_test y) 1"
    "load_le 8 (slot (root_pt y) 2) (bytes s) = make_pte 0x80000000 0xCF"
    "load_le 8 (slot (l1_test y) 0) (bytes s) = make_pte (l0_test y) 1"
    "load_le 8 (slot (l0_test y) 0) (bytes s) = make_pte (page y) 0xC7"
    "load_le 8 (slot (l1_uart y) 128) (bytes s) = make_pte (l0_uart y) 1"
    "load_le 8 (slot (l0_uart y) 0) (bytes s) = make_pte 0x10000000 0xC7"
    using t by (simp_all add: tables_def entries_def)
  have lo: "make_pte a f AND 0xF = f AND 0xF" "make_pte a f AND 7 = f AND 7" "make_pte a f AND 0x1F = f AND 0x1F" for a f
    using make_pte_low [of 4 a f] make_pte_low [of 3 a f] make_pte_low [of 5 a f] by (simp_all add: mask_eq_exp_minus_1)
  have hi: "unat u < 2 ^ 56" if "u \<in> {l1_test y, l0_test y, page y}" for u using y that by (auto simp: sv39_image_def)
  show ?thesis
    using e m hi by (cases s) (simp add: sv39_show_def print_pte_def exec_allowed pmp_open probe_run lo make_pte_number
        cong: probe_cong)
qed

definition sv39_hart :: "hart \<Rightarrow> bool" where
  "sv39_hart h \<longleftrightarrow> priv h = MMode \<and> csrf h Pmpcfg0 = 0 \<and> csrf h Stval = 0 \<and>
     (\<forall>c \<in> {Pmpaddr0, Pmpaddr1, Pmpcfg0, Satp, Mstatus}. plain_csr h c)"

lemma drop_run:
  assumes "sv39_hart (hw s)" and y: "sv39_image y"
  shows "\<exists>h o1. run_state (do { sv39_grant; sv39_enable y; sv39_drop y }) s = ((), s\<lparr>out := o1, hw := h\<rparr>) \<and> s_world y h"
proof -
  have r: "page_aligned (root_pt y)" "unat (root_pt y) < 2 ^ 56" using y by (simp_all add: sv39_image_def)
  have f: "drop_bit 60 (push_bit 60 8 OR drop_bit 12 (root_pt y) :: u64) = 8"
    "(push_bit 60 8 OR drop_bit 12 (root_pt y) :: u64) AND 0xFFFFFFFFFFF = drop_bit 12 (root_pt y)"
    using satp_fields [OF r] by (simp_all add: take_bit_eq_mask mask_eq_exp_minus_1)
  have p: "mpp_of (st AND NOT (push_bit 11 3) OR push_bit 11 1) = SMode" for st
    by (simp add: mpp_of_def bit_simps)
  show ?thesis
    using assms(1) f p
    by (cases s) (simp add: sv39_grant_def sv39_enable_def sv39_drop_def set_satp_def read_satp_def probe_run sv39_hart_def
        plain_csr_def s_world_def Let_def do_mret_def csr_store_frame cong: probe_cong)
qed


subsection \<open>The S-mode tests\<close>

lemma tables_store:
  assumes "sv39_image y" "tables y m"
  shows "tables y (store_le 8 (slot (page y) 0) v m)"
  using assms by (auto simp: tables_def sv39_image_def intro!: entries_store_other)

definition s_fault :: "u64 \<Rightarrow> u64 \<Rightarrow> u64 \<Rightarrow> pmachine \<Rightarrow> pmachine" where
  "s_fault cause epc a s = s\<lparr>hw := do_mret (csr_store Mepc (save s 5) (trap_to_m cause epc a (hw s))),
     save := (save s)(1 := reg_get 6 (hw s), 2 := cause, 3 := epc, 4 := a, 7 := csrf (hw s) Stval, 6 := 1)\<rparr>"

lemma s_trap_run: "run_state (do { take_trap cause epc a; sv39_trap_entry }) s = ((), s_fault cause epc a s)"
  by (simp add: sv39_trap_entry_def s_fault_def exec_basic exec_step [OF run_memory(3)] trap_to_m_def reg_get_def
      fun_upd_twist)

lemma s_load_runs:
  "translate (hw s) (bytes s) Read va = None \<Longrightarrow> run_state (s_load va epc) s = (None, s_fault 13 epc va s)"
  "translate (hw s) (bytes s) Read va = Some pa \<Longrightarrow> pmp_allows (hw s) Read pa 8 \<Longrightarrow>
     run_state (s_load va epc) s = (Some (load_le 8 pa (bytes s)), s)"
  "translate (hw s) (bytes s) Write va = Some pa \<Longrightarrow> pmp_allows (hw s) Write pa 8 \<Longrightarrow>
     run_state (s_store va v epc) s = (True, s\<lparr>bytes := store_le 8 pa v (bytes s)\<rparr>)"
  "translate (hw s) (bytes s) Read va = Some pa \<Longrightarrow> pmp_allows (hw s) Read pa 8 \<Longrightarrow>
     run_state (s_peek va) s = (load_le 8 pa (bytes s), s)"
  using s_trap_run [of 13 epc va s]
  by (simp_all add: s_load_def s_store_def s_peek_def run_state_bind split: prod.splits)

lemma canonical_low: "unat va < 2 ^ 38 \<Longrightarrow> canonical va"
proof -
  assume "unat va < 2 ^ 38"
  then have "drop_bit 38 va = 0" using small_bits [of va 38 "38 + n" for n] by (intro bit_word_eqI) (auto simp: bit_simps)
  then show ?thesis by (simp add: canonical_def)
qed

lemma test_fault_run:
  assumes w: "s_world y (hw s)" "sv39_image y" "tables y (bytes s)" and va: "sv39_map y Read va = None"
  shows "\<exists>h v o1. run_state (test_fault y va name) s = ((), s\<lparr>out := o1, hw := h, save := v\<rparr>) \<and> s_world y h"
proof -
  have t: "translate (hw s) (bytes s) Read va = None" using s_translate [OF w] va by simp
  have r: "run_state (s_load va e) (s\<lparr>save := v\<rparr>) = (None, s_fault 13 e va (s\<lparr>save := v\<rparr>))" for e v
    using s_load_runs(1) [of "s\<lparr>save := v\<rparr>" va e] t by simp
  show ?thesis
    using w(1) r
    by (cases s) (simp add: test_fault_def fault_report_def probe_run exec_step s_fault_def s_world_def cong: probe_cong)
qed

lemma test_mapped_run:
  assumes w: "s_world y (hw s)" "sv39_image y" "tables y (bytes s)" and p: "unat (page y) + 8 \<le> 0x80400000"
  shows "\<exists>v. run_state (test_mapped y) s = (PATTERN, s\<lparr>bytes := store_le 8 (slot (page y) 0) PATTERN (bytes s), save := v\<rparr>) \<and> v 6 = 0"
proof -
  have c: "canonical 0x40000000" by (rule canonical_low) simp
  have s0: "slot (page y) 0 = page y" by (simp add: slot_def)
  have t: "translate (hw s) (bytes s) Write 0x40000000 = Some (page y)"
    using s_translate [OF w] c by (simp add: sv39_map_def within_def)
  have t': "translate (hw s) (store_le 8 (page y) v (bytes s)) Read 0x40000000 = Some (page y)" for v
    using s_translate [OF w(1,2) tables_store [OF w(2,3)]] c s0 by (simp add: sv39_map_def within_def)
  have g: "pmp_allows (hw s) k (page y) 8" for k using s_granted [OF w(1) p] .
  show ?thesis
    using t t' g by (cases s) (simp add: test_mapped_def probe_run s_load_runs [THEN exec_step] s0 load_store_same
        cong: probe_cong)
qed

lemma map_canonical: "\<not> canonical va \<Longrightarrow> sv39_map y k va = None"
  using canonical_low [of va] by (auto simp: sv39_map_def within_def word_less_nat_alt)

definition zeroed :: "sv39_syms \<Rightarrow> (u64 \<Rightarrow> u8) \<Rightarrow> bool" where
  "zeroed y m \<longleftrightarrow> (\<forall>t \<in> {root_pt y, l1_test y, l0_test y, l1_uart y, l0_uart y}. entries t (\<lambda>_. 0) m)"

lemma s_tests_run:
  assumes w: "s_world y (hw s)" "sv39_image y" "tables y (bytes s)"
    and p: "0x80000000 \<le> page y" "unat (page y) + 8 \<le> 0x80400000"
  shows "fails (final (s_mode_tests y) s) = fails s \<and> stray (final (s_mode_tests y) s) = stray s"
proof -
  define s0 where "s0 = emit [Str ''s-mode: entered, translation active\<newline>''] s"
  have w0: "s_world y (hw s0)" "tables y (bytes s0)" using w by (simp_all add: s0_def emit_def)
  define b where "b = store_le 8 (slot (page y) 0) PATTERN (bytes s0)"
  obtain v1 where r1: "run_state (test_mapped y) s0 = (PATTERN, s0\<lparr>bytes := b, save := v1\<rparr>)" "v1 6 = 0"
    using test_mapped_run [OF w0(1) w(2) w0(2) p(2)] by (auto simp: b_def)
  have tb: "tables y b" using tables_store [OF w(2) w0(2)] by (simp add: b_def)
  have pk: "run_state (s_peek (page y)) t = (PATTERN, t)" if "hw t = hw s0" "bytes t = b" for t
  proof -
    have "unat (page y) < 2 ^ 38" using p(2) by simp
    then have "translate (hw t) (bytes t) Read (page y) = Some (page y)"
      using s_translate [OF w0(1) w(2) tb] canonical_low [of "page y"] p that
      by (simp add: sv39_map_def within_def word_le_nat_alt word_less_nat_alt)
    moreover have "pmp_allows (hw t) Read (page y) 8" using s_granted [OF w0(1) p(2)] that by simp
    ultimately show ?thesis using s_load_runs(4) [of t "page y" "page y"] that by (simp add: b_def slot_def load_store_same)
  qed
  have f: "\<exists>h v o1. run_state (test_fault y va nm) t = ((), t\<lparr>out := o1, hw := h, save := v\<rparr>) \<and> s_world y h"
    if "s_world y (hw t)" "bytes t = b" "va \<in> {0x40001000, 0x50000000, 0xC0000000}" for t va nm
    using test_fault_run [of y t va nm] that w(2) tb by (auto simp: sv39_map_def within_def)
  define s1 where "s1 = emit [Str ''mapped: stored 0xdeadbeefcafebabe via VA 0x40000000, loaded '', Hex PATTERN, Str '' seen='', Dec 0,
      Str ''\<newline>''] (s0\<lparr>bytes := b, save := v1\<rparr>)"
  have e1: "hw s1 = hw s0" "bytes s1 = b" by (simp_all add: s1_def emit_def)
  define s2 where "s2 = emit [Str ''mapped: physical page now holds '', Hex PATTERN, Str ''\<newline>''] s1"
  have e2: "s_world y (hw s2)" "bytes s2 = b" "fails s2 = fails s" "stray s2 = stray s"
    using w0(1) by (simp_all add: s2_def s1_def s0_def emit_def)
  obtain h3 v3 o3 where r3: "run_state (test_fault y FAULT_VA_L0 ''fault-l0'') s2 = ((), s2\<lparr>out := o3, hw := h3, save := v3\<rparr>)" "s_world y h3"
    using f [OF e2(1,2), of FAULT_VA_L0 "''fault-l0''"] by auto
  obtain h4 v4 o4 where r4: "run_state (test_fault y FAULT_VA_L1 ''fault-l1'') (s2\<lparr>out := o3, hw := h3, save := v3\<rparr>) =
      ((), s2\<lparr>out := o4, hw := h4, save := v4\<rparr>)" "s_world y h4"
    using f [of "s2\<lparr>out := o3, hw := h3, save := v3\<rparr>" FAULT_VA_L1 "''fault-l1''"] r3(2) e2(2) by auto
  obtain h5 v5 o5 where r5: "run_state (test_fault y FAULT_VA_L2 ''fault-l2'') (s2\<lparr>out := o4, hw := h4, save := v4\<rparr>) =
      ((), s2\<lparr>out := o5, hw := h5, save := v5\<rparr>)"
    using f [of "s2\<lparr>out := o4, hw := h4, save := v4\<rparr>" FAULT_VA_L2 "''fault-l2''"] r4(2) e2(2) by auto
  have "run_state (s_mode_tests y) s = run_state sv39_verdict (s2\<lparr>out := o5, hw := h5, save := v5\<rparr>)"
    unfolding s_mode_tests_def
    by (simp add: exec_basic s0_def [symmetric] exec_step [OF r1(1)] r1(2) checked_True s1_def [symmetric] exec_step [OF pk]
        s2_def [symmetric] exec_step [OF r3(1)] exec_step [OF r4(1)] exec_step [OF r5] e1 cong: probe_cong)
  then show ?thesis using e2(3,4) by (simp add: final_def sv39_verdict_def exec_basic emit_def cong: probe_cong)
qed


lemma translation_built:
  assumes "sv39_image y" "zeroed y (bytes s)" "priv (hw s) = MMode" "csrf (hw s) Pmpcfg0 = 0" "s_world y h"
  shows "translate h (bytes (final (sv39_build y) s)) k va = sv39_map y k va"
proof -
  have "tables y (built y (bytes s))" using built_tables [OF assms(1)] assms(2) by (auto simp: zeroed_def)
  moreover have "bytes (final (sv39_build y) s) = built y (bytes s)" using build_run [OF assms(3,4)] by (simp add: final_def)
  ultimately show ?thesis using s_translate [OF assms(5,1)] map_canonical by simp
qed

subsection \<open>Properties\<close>

text \<open>
  C27. The tables translate exactly what they should. After the table-building statements of \<open>main\<close> have run on
  zeroed tables, and with \<open>satp\<close> pointing at the root, every virtual address and every kind of access is accounted
  for: the 4 KiB at 0x40000000 go to the data page, readable and writable; the UART page and the 1 GiB window at
  0x80000000 map to themselves; and every other access is a page fault.
\<close>

theorem sv39_translation_exact:
  assumes "sv39_image y" "zeroed y (bytes s)" "priv (hw s) = MMode" "csrf (hw s) Pmpcfg0 = 0" "s_world y h"
  shows "translate h (bytes (final (sv39_build y) s)) k va =
     (if within 0x40000000 0x40001000 va \<and> k \<noteq> Exec then Some (page y + (va - 0x40000000))
      else if within 0x10000000 0x10001000 va \<and> k \<noteq> Exec then Some va
      else if within 0x80000000 0xC0000000 va then Some va
      else None)"
  using translation_built [OF assms] by (simp add: sv39_map_def)

text \<open>
  The program passes on a conforming hart. With its five tables, its data page and its code inside the
  windows it checks for, on a hart whose PMP, \<open>satp\<close> and \<open>mstatus\<close> registers keep what is written, \<open>main\<close> and
  the S-mode tests it enters count no failed check: the store through 0x40000000 reaches the data page, the three
  unmapped loads take load page faults with the right address and program counter, and no other access faults.
\<close>

theorem sv39_main_passes:
  assumes h: "sv39_hart (hw s)" and y: "sv39_image y" and z: "zeroed y (bytes s)"
    and l: "stack_top y < IDENT_END" "IDENT_BASE \<le> s_tests y" "s_tests y < IDENT_END"
    and p: "IDENT_BASE \<le> page y" "unat (page y) + 8 \<le> 0x80400000" and f: "fails s = 0" "\<not> stray s"
  shows "fails (final (sv39_main y) s) = 0 \<and> \<not> stray (final (sv39_main y) s)"
proof -
  define s0 where "s0 = emit [Dec (csrf (hw s) Mhartid), Str ''\<newline>'']
      (emit [Str ''sv39-walk: Sv39 page-table walk and fault path (backlog item 39)\<newline>'', Str ''m-mode: mhartid=''] s)"
  have m: "priv (hw s) = MMode" "csrf (hw s) Pmpcfg0 = 0" using h by (simp_all add: sv39_hart_def)
  have e0: "hw s0 = hw s" "bytes s0 = bytes s" "fails s0 = 0" "\<not> stray s0" using f by (simp_all add: s0_def emit_def)
  define b1 where "b1 = store_le 8 (slot (page y) 0) 0xACABAAA9A8A7A6A5 (bytes s0)"
  obtain o1 where r1: "run_state (sv39_control y) s0 = ((), s0\<lparr>out := o1, bytes := b1\<rparr>)"
    using control_run [of s0 y] m e0(1) by (auto simp: b1_def)
  obtain o2 where r2: "run_state (sv39_layout y) (s0\<lparr>out := o1, bytes := b1\<rparr>) = ((), s0\<lparr>out := o2, bytes := b1\<rparr>)"
    using layout_run [OF y l, of "s0\<lparr>out := o1, bytes := b1\<rparr>"] by (cases s0) auto
  have "entries t (\<lambda>_. 0) b1" if "t \<in> {root_pt y, l1_test y, l0_test y, l1_uart y, l0_uart y}" for t
    using that z y unfolding b1_def e0(2) by (intro entries_store_other) (auto simp: zeroed_def sv39_image_def)
  then have t: "tables y (built y b1)" using built_tables [OF y] by blast
  have r3: "run_state (sv39_build y) (s0\<lparr>out := o2, bytes := b1\<rparr>) = ((), s0\<lparr>out := o2, bytes := built y b1\<rparr>)"
    using build_run [of "s0\<lparr>out := o2, bytes := b1\<rparr>" y] m e0(1) by simp
  obtain o4 where r4: "run_state (sv39_show y) (s0\<lparr>out := o2, bytes := built y b1\<rparr>) = ((), s0\<lparr>out := o4, bytes := built y b1\<rparr>)"
    using show_run [OF y, of "s0\<lparr>out := o2, bytes := built y b1\<rparr>"] t m e0(1) by (cases s0) auto
  obtain h5 o5 where r5: "run_state (do { sv39_grant; sv39_enable y; sv39_drop y }) (s0\<lparr>out := o4, bytes := built y b1\<rparr>) =
      ((), s0\<lparr>out := o5, bytes := built y b1, hw := h5\<rparr>)" "s_world y h5"
    using drop_run [of "s0\<lparr>out := o4, bytes := built y b1\<rparr>" y] h y e0(1) by (cases s0) auto
  have tail: "run_state (do { sv39_grant; sv39_enable y; sv39_drop y; s_mode_tests y }) (s0\<lparr>out := o4, bytes := built y b1\<rparr>) =
      run_state (s_mode_tests y) (s0\<lparr>out := o5, bytes := built y b1, hw := h5\<rparr>)"
    using exec_step [OF r5(1), of "\<lambda>_. s_mode_tests y"] by simp
  have "final (sv39_main y) s = final (s_mode_tests y) (s0\<lparr>out := o5, bytes := built y b1, hw := h5\<rparr>)"
    by (simp add: sv39_main_def final_def exec_basic s0_def [symmetric] exec_step [OF r1] exec_step [OF r2] exec_step [OF r3]
        exec_step [OF r4] tail cong: probe_cong)
  then show ?thesis
    using s_tests_run [of y "s0\<lparr>out := o5, bytes := built y b1, hw := h5\<rparr>"] r5(2) y t p e0(3,4) by simp
qed

text \<open>An image and a machine for the witnesses.\<close>

definition demo_image :: sv39_syms where
  "demo_image = \<lparr>root_pt = 0x80001000, l1_test = 0x80002000, l0_test = 0x80003000, l1_uart = 0x80004000, l0_uart = 0x80005000,
     page = 0x80006000, stack_top = 0x80010000, s_tests = 0x80000400, s_entry = 0x80000100, s_savep = 0x80007000,
     mapped_resume = 0x80000508, mapped_load = 0x80000504, fault_resume = 0x80000600\<rparr>"

definition demo_hart :: hart where
  "demo_hart = \<lparr>gpr = \<lambda>_. 0, csrf = \<lambda>_. 0, ram = \<lambda>_. 0, pc = 0x80000000, priv = MMode, clock = \<lambda>_. (0, 0),
     retired = 0, legal = (\<lambda>c old v. v), instret = (\<lambda>_. 0)\<rparr>"

definition demo_machine :: pmachine where
  "demo_machine = \<lparr>out = [], hw = demo_hart, fails = 0, nchecks = 0, save = \<lambda>_. 0, finisher = None, overrun = [],
     bytes = \<lambda>_. 0, stray = False\<rparr>"

lemma le_value_zeros: "le_value (replicate n 0) = 0"
  by (induction n) simp_all

lemma demo_facts:
  "sv39_image demo_image" "zeroed demo_image (bytes demo_machine)" "sv39_hart (hw demo_machine)"
  by (simp_all add: sv39_image_def demo_image_def page_aligned_def zeroed_def entries_def load_le_def demo_machine_def
      le_value_zeros map_replicate_const sv39_hart_def demo_hart_def plain_csr_def)

theorem sv39_translation_exact_witness:
  "translate (demo_hart\<lparr>priv := SMode, csrf := (\<lambda>_. 0)(Satp := push_bit 60 8 OR 0x80001, Pmpcfg0 := 0x0F00, Pmpaddr1 := 0x20100000)\<rparr>)
     (bytes (final (sv39_build demo_image) demo_machine)) Write 0x40000010 = Some 0x80006010"
  using sv39_translation_exact [OF demo_facts(1,2), of "demo_hart\<lparr>priv := SMode,
      csrf := (\<lambda>_. 0)(Satp := push_bit 60 8 OR 0x80001, Pmpcfg0 := 0x0F00, Pmpaddr1 := 0x20100000)\<rparr>" Write "0x40000010"]
  by (simp add: demo_machine_def demo_hart_def s_world_def demo_image_def within_def)

theorem sv39_main_passes_witness:
  "fails (final (sv39_main demo_image) demo_machine) = 0"
  using sv39_main_passes [OF demo_facts(3,1,2)] by (simp add: demo_image_def demo_machine_def)

end
