(* ===== verification/Latency.thy ===== *)
theory Latency
  imports Probe Samples
begin

text \<open>
  What the two timer-latency experiments \<open>src/src/wfi-latency\<close> and \<open>src/src/mtimecmp\<close> share:
  the counters, the timer comparator, the interrupt window of a trial, the calibration and the
  statistics and histograms over the recorded stamps.

  What the counters return is the hart's \<open>clock\<close>. The traps a window sees are a parameter,
  \<open>traps\<close>: the cause and the interrupted address of the n-th trap, or \<open>None\<close> where the window gets
  no trap. Nothing ties the two together, so what the programs find out about them they find out by
  their checks. The entry code's save and restore of the general registers is not modelled here; the
  other fields of the save area are \<open>trap_save\<close>.

  An operation returns \<open>None\<close> where the C code would leave an array or never return.
\<close>

unbundle bit_operations_syntax

abbreviation (input) MCAUSE_MTI :: u64 where "MCAUSE_MTI \<equiv> 0x8000000000000007"

record latency = probe +
  traps :: "nat \<Rightarrow> (u64 \<times> u64) option"
  ntraps :: nat
  sort_tmp :: "u64 list"

record trap_save =
  mcause :: u64
  mepc :: u64
  mtime_entry :: u64
  cycle_entry :: u64


subsection \<open>Counters and comparator\<close>

text \<open>\<open>rdtime\<close> and a load of the CLINT's \<open>mtime\<close> return the same counter.\<close>

definition rd_time :: "'x latency_scheme \<Rightarrow> u64 \<times> 'x latency_scheme" where
  "rd_time s = (fst (clock (hw s) (retired (hw s))), s\<lparr>hw := retire (hw s)\<rparr>)"

definition rd_cycle :: "'x latency_scheme \<Rightarrow> u64 \<times> 'x latency_scheme" where
  "rd_cycle s = (snd (clock (hw s) (retired (hw s))), s\<lparr>hw := retire (hw s)\<rparr>)"

definition rd_mhartid :: "'x latency_scheme \<Rightarrow> u64" where
  "rd_mhartid s = csr_read Mhartid (hw s)"

definition set_mtimecmp :: "u64 \<Rightarrow> 'x latency_scheme \<Rightarrow> 'x latency_scheme" where
  "set_mtimecmp v s = s\<lparr>hw := (hw s)\<lparr>ram := (ram (hw s))(0x02004000 := v)\<rparr>\<rparr>"

text \<open>\<open>csrsi mstatus, 8\<close> and \<open>csrci mstatus, 8\<close>\<close>

definition open_window :: "'x latency_scheme \<Rightarrow> 'x latency_scheme" where
  "open_window s = s\<lparr>hw := csr_write Mstatus (csr_read Mstatus (hw s) OR 8) (hw s)\<rparr>"

definition close_window :: "'x latency_scheme \<Rightarrow> 'x latency_scheme" where
  "close_window s = s\<lparr>hw := csr_write Mstatus (csr_read Mstatus (hw s) AND NOT 8) (hw s)\<rparr>"

text \<open>
  The next trap, if there is one: the hart enters M-mode, the entry code stamps \<open>rdtime\<close> and
  \<open>rdcycle\<close>, the handler runs on the save area, \<open>mepc\<close> is loaded from it and \<open>mret\<close> returns. The
  result is the address the hart resumes at.
\<close>

definition deliver :: "(trap_save \<Rightarrow> 'x latency_scheme \<Rightarrow> trap_save \<times> 'x latency_scheme) \<Rightarrow>
    'x latency_scheme \<Rightarrow> (u64 \<times> 'x latency_scheme) option" where
  "deliver handler s =
     (case traps s (ntraps s) of
        None \<Rightarrow> None
      | Some (cause, epc) \<Rightarrow>
          (let s1 = s\<lparr>ntraps := Suc (ntraps s), hw := trap_to_m cause epc 0 (hw s)\<rparr>;
               (t, s2) = rd_time s1;
               (c, s3) = rd_cycle s2;
               (sv, s4) = handler \<lparr>mcause = cause, mepc = epc, mtime_entry = t, cycle_entry = c\<rparr> s3
           in Some (mepc sv, s4\<lparr>hw := do_mret (csr_write Mepc (mepc sv) (hw s4))\<rparr>)))"


subsection \<open>Calibration\<close>

text \<open>\<open>while (clint_get_mtime() - t0 < 10000000UL) ;\<close>\<close>

partial_function (option) spin_until :: "u64 \<Rightarrow> 'x latency_scheme \<Rightarrow> 'x latency_scheme option" where
  "spin_until t0 s =
     (case rd_time s of (t, s1) \<Rightarrow> if t - t0 < 10000000 then spin_until t0 s1 else Some s1)"

text \<open>The 64 back-to-back pairs, \<open>k\<close> of them to go.\<close>

fun monotone_loop :: "nat \<Rightarrow> u64 \<Rightarrow> u64 \<Rightarrow> 'x latency_scheme \<Rightarrow> 'x latency_scheme" where
  "monotone_loop 0 lc lt s = s"
| "monotone_loop (Suc k) lc lt s =
     (let (c, s1) = rd_cycle s; (t, s2) = rd_time s1
      in monotone_loop k c t (checked (lt \<le> t) ''mtime went backwards''
           (checked (lc \<le> c) ''rdcycle went backwards'' s2)))"

text \<open>Returns the ratio, which \<open>mtimecmp\<close> keeps.\<close>

definition calibration :: "'x latency_scheme \<Rightarrow> (u64 \<times> 'x latency_scheme) option" where
  "calibration s =
     (let (t0, s1) = rd_time s; (c0, s2) = rd_cycle s1
      in case spin_until t0 s2 of
           None \<Rightarrow> None
         | Some s3 \<Rightarrow>
             (let (t1, s4) = rd_time s3; (c1, s5) = rd_cycle s4;
                  ratio = (c1 - c0) div (t1 - t0);
                  s6 = emit [Str ''cal: 10000000 mtime ticks -> rdcycle delta '', Dec (c1 - c0),
                         Str '' (ratio '', Dec ratio, Str '' rdcycle units per tick)\<newline>''] s5;
                  s7 = checked (145 \<le> ratio \<and> ratio \<le> 155) ''rdcycle/mtime ratio outside 145..155'' s6
              in Some (ratio, emit [Str ''cal: 64 back-to-back (rdcycle, mtime) pairs monotonic: ok\<newline>'']
                   (monotone_loop 64 0 0 s7))))"


subsection \<open>Statistics\<close>

definition sort_asc :: "u64 list \<Rightarrow> u64 \<Rightarrow> 'x latency_scheme \<Rightarrow> 'x latency_scheme option" where
  "sort_asc a n s =
     (case copy_loop 0 (unat n) (sort_tmp s) a of
        None \<Rightarrow> None
      | Some d \<Rightarrow> (case insert_loop 1 (unat n - 1) d of
          None \<Rightarrow> None
        | Some d' \<Rightarrow> Some (s\<lparr>sort_tmp := d'\<rparr>)))"

text \<open>\<open>for (i = ...; k more) sum += sort_tmp[i];\<close>\<close>

fun sum_loop :: "u64 \<Rightarrow> nat \<Rightarrow> nat \<Rightarrow> u64 list \<Rightarrow> u64 option" where
  "sum_loop acc i 0 a = Some acc"
| "sum_loop acc i (Suc k) a =
     (case load_at a i of None \<Rightarrow> None | Some x \<Rightarrow> sum_loop (acc + x) (Suc i) k a)"

text \<open>\<open>for (i = ...; k more) if (cond(vals[i])) c++;\<close>\<close>

fun count_loop :: "(u64 \<Rightarrow> bool) \<Rightarrow> u64 \<Rightarrow> nat \<Rightarrow> nat \<Rightarrow> u64 list \<Rightarrow> u64 option" where
  "count_loop P c i 0 a = Some c"
| "count_loop P c i (Suc k) a =
     (case load_at a i of None \<Rightarrow> None | Some x \<Rightarrow> count_loop P (if P x then c + 1 else c) (Suc i) k a)"

text \<open>The bucket loop of \<open>hist_ticks\<close>: \<open>for (v = mn; v <= mx; v++)\<close>.\<close>

definition hist_line :: "u64 \<Rightarrow> u64 \<Rightarrow> piece list" where
  "hist_line v c = [Str ''  '', Dec v, Str '': '', Dec c, Str ''\<newline>'']"

partial_function (option) hist_loop :: "u64 list \<Rightarrow> u64 \<Rightarrow> u64 \<Rightarrow> u64 \<Rightarrow> 'x console_scheme \<Rightarrow> 'x console_scheme option" where
  "hist_loop vals n v mx s =
     (if v \<le> mx
      then case count_loop (\<lambda>x. x = v) 0 0 (unat n) vals of
             None \<Rightarrow> None
           | Some c \<Rightarrow> hist_loop vals n (v + 1) mx (if 0 < c then emit (hist_line v c) s else s)
      else Some s)"


text \<open>The verdict line.\<close>

definition result_line :: "'x probe_scheme \<Rightarrow> 'x probe_scheme" where
  "result_line s =
     (if fails s = 0 then emit [Str ''RESULT: PASS\<newline>''] s
      else emit [Str ''RESULT: FAIL ('', Dec (of_nat (fails s)), Str '' checks failed)\<newline>''] s)"


subsection \<open>The statistics are exact\<close>

lemma sum_loop_result:
  "i + k \<le> length a \<Longrightarrow> sum_loop acc i k a = Some (acc + sum_list (take k (drop i a)))"
proof (induction k arbitrary: i acc)
  case 0
  then show ?case by simp
next
  case (Suc k)
  have "take (Suc k) (drop i a) = a ! i # take k (drop (Suc i) a)"
    using Suc.prems by (simp add: Cons_nth_drop_Suc [symmetric])
  with Suc show ?case by (simp add: add.assoc)
qed

lemma count_loop_result:
  "i + k \<le> length a \<Longrightarrow> count_loop P c i k a = Some (c + of_nat (length (filter P (take k (drop i a)))))"
proof (induction k arbitrary: i c)
  case 0
  then show ?case by simp
next
  case (Suc k)
  have "take (Suc k) (drop i a) = a ! i # take k (drop (Suc i) a)"
    using Suc.prems by (simp add: Cons_nth_drop_Suc [symmetric])
  with Suc show ?case by simp
qed

lemma sort_asc_result:
  assumes "unat n \<le> length a" "unat n \<le> length (sort_tmp s)"
  shows "sort_asc a n s = Some (s\<lparr>sort_tmp := sort (take (unat n) a) @ drop (unat n) (sort_tmp s)\<rparr>)"
  using sort_copy_result [OF assms(2,1)] by (auto simp: sort_asc_def sort_copy_def split: option.splits)

text \<open>
  The reference histogram: one line per value that occurs, in ascending order, with its multiplicity.
\<close>

definition hist_text :: "u64 list \<Rightarrow> string" where
  "hist_text xs = concat (map (\<lambda>v. text_of (hist_line v (of_nat (count_list xs v)))) (sorted_list_of_set (set xs)))"

definition hist_span :: "u64 list \<Rightarrow> u64 \<Rightarrow> u64 \<Rightarrow> string" where
  "hist_span xs v mx = concat (map (\<lambda>v. text_of (hist_line v (of_nat (count_list xs v))))
     (sorted_list_of_set {x \<in> set xs. v \<le> x \<and> x \<le> mx}))"

lemma hist_span_step:
  assumes "v \<le> mx" "mx < - 1"
  shows "hist_span xs v mx =
    (if v \<in> set xs then text_of (hist_line v (of_nat (count_list xs v))) else []) @ hist_span xs (v + 1) mx"
proof -
  have "v < - 1" using assms by simp
  then have nx: "v + 1 \<le> x \<longleftrightarrow> v < x" for x
    by (simp add: word_le_nat_alt word_less_nat_alt unat_inc_less Suc_le_eq)
  let ?A = "{x \<in> set xs. v + 1 \<le> x \<and> x \<le> mx}"
  have A: "{x \<in> set xs. v \<le> x \<and> x \<le> mx} = (if v \<in> set xs then insert v ?A else ?A)"
    using assms(1) by (auto simp: nx intro: le_neq_trans)
  show ?thesis
  proof (cases "v \<in> set xs")
    case True
    have "v \<notin> ?A" by (simp add: nx)
    then have "sorted_list_of_set (insert v ?A) = insort v (sorted_list_of_set ?A)"
      by (simp add: sorted_list_of_set_insert_remove)
    also have "\<dots> = v # sorted_list_of_set ?A"
      by (rule insort_is_Cons) (auto simp: nx)
    finally have "sorted_list_of_set (insert v ?A) = v # sorted_list_of_set ?A" .
    with True show ?thesis by (simp add: hist_span_def A)
  next
    case False
    then show ?thesis by (simp add: hist_span_def A)
  qed
qed


lemma hist_loop_result:
  assumes "unat n \<le> length vals" "mx < - 1"
  shows "hist_loop vals n v mx s = Some (s\<lparr>out := out s @ hist_span (take (unat n) vals) v mx\<rparr>)"
proof (induction "unat mx + 1 - unat v" arbitrary: v s rule: less_induct)
  case less
  let ?xs = "take (unat n) vals"
  let ?c = "of_nat (count_list ?xs v) :: u64"
  have "(\<lambda>x. x = v) = (=) v" by auto
  then have c: "count_loop (\<lambda>x. x = v) 0 0 (unat n) vals = Some ?c"
    using count_loop_result [of 0 "unat n" vals] assms(1) by (simp add: count_list_eq_length_filter)
  have "count_list ?xs v \<le> unat n" 
    by (metis count_le_length length_take min.cobounded2 order.trans)
  also have "unat n < 2 ^ LENGTH(64)" by (rule unsigned_less)
  finally have "unat ?c = count_list ?xs v"
    by (simp add: unat_of_nat take_bit_nat_eq_self)
  then have pos: "0 < ?c \<longleftrightarrow> v \<in> set ?xs"
    by (metis count_list_0_iff unat_eq_0 word_neq_0_conv)
  show ?case
  proof (cases "v \<le> mx")
    case True
    then have "v < - 1" using assms(2) by simp
    then have "unat mx + 1 - unat (v + 1) < unat mx + 1 - unat v"
      using True by (simp add: unat_inc_less word_le_nat_alt)
    note IH = less [OF this]
    show ?thesis
      by (subst hist_loop.simps) (simp add: True c pos IH hist_span_step [OF True assms(2)] emit_def)
  next
    case False
    then have "hist_span ?xs v mx = []" by (auto simp: hist_span_def)
    with False show ?thesis by (subst hist_loop.simps) simp
  qed
qed

text \<open>From the minimum to the maximum that is the whole histogram.\<close>

lemma hist_span_all:
  assumes "xs \<noteq> []"
  shows "hist_span xs (Min (set xs)) (Max (set xs)) = hist_text xs"
proof -
  have "{x \<in> set xs. Min (set xs) \<le> x \<and> x \<le> Max (set xs)} = set xs" by auto
  then show ?thesis by (simp only: hist_span_def hist_text_def)
qed

text \<open>
  A sample equal to the largest 64-bit value makes the loop bound unreachable: the bucket counter
  wraps to zero and the histogram never ends.
\<close>

lemma hist_loop_diverges:
  "hist_loop vals n v (- 1) s = None"
proof (rule ccontr)
  assume "hist_loop vals n v (- 1) s \<noteq> None"
  then obtain s' where "hist_loop vals n v (- 1) s = Some s'" by blast
  then have "(- 1 :: u64) \<noteq> - 1"
    by (rule hist_loop.raw_induct [where P = "\<lambda>vals n v mx s s'. mx \<noteq> - 1", rotated])
      (auto split: if_splits option.splits)
  then show False by simp
qed

lemma sorted_ends:
  assumes "xs \<noteq> []"
  shows "sort xs ! 0 = Min (set xs)" "sort xs ! (length xs - 1) = Max (set xs)"
proof -
  let ?s = "sort xs"
  have len: "0 < length ?s" "length ?s = length xs" using assms by simp_all
  have mono: "?s ! i \<le> ?s ! j" if "i \<le> j" "j < length ?s" for i j
    using sorted_sort [of xs] that by (simp only: sorted_iff_nth_mono)
  have in_sort: "?s ! 0 \<in> set ?s" "?s ! (length ?s - 1) \<in> set ?s"
    using len(1) by (intro nth_mem; simp)+
  have "?s ! 0 \<le> y" "y \<le> ?s ! (length ?s - 1)" if "y \<in> set ?s" for y
    using that len(1) by (auto intro!: mono simp: in_set_conv_nth simp del: set_sort length_sort)
  with in_sort have "Min (set ?s) = ?s ! 0" "Max (set ?s) = ?s ! (length ?s - 1)"
    by (intro Min_eqI Max_eqI; simp)+
  then show "sort xs ! 0 = Min (set xs)" "sort xs ! (length xs - 1) = Max (set xs)"
    by (simp_all only: set_sort len(2))
qed

end
