(* ===== verification/Mtimecmp.thy ===== *)
theory Mtimecmp
  imports Latency
begin

text \<open>
  \<open>src/src/mtimecmp/mt_main.c\<close>: how late the machine timer interrupt arrives. Each of 1000 trials
  arms the comparator 5000 ticks ahead, spins until the handler has set a flag, and is run again when
  it was not clean. The records are then verified and summarised.
\<close>

unbundle bit_operations_syntax

abbreviation (input) MT_NTRIALS :: nat where "MT_NTRIALS \<equiv> 1000"
abbreviation (input) MT_WARMUP :: nat where "MT_WARMUP \<equiv> 8"
abbreviation (input) MT_AHEAD_TICKS :: u64 where "MT_AHEAD_TICKS \<equiv> 5000"
abbreviation (input) MT_OFFSET_BOUND :: u64 where "MT_OFFSET_BOUND \<equiv> 1000"
abbreviation (input) MT_MAX_ATTEMPTS :: nat where "MT_MAX_ATTEMPTS \<equiv> 100"


subsection \<open>State\<close>

record mt_rec =
  mt_cmp :: u64
  mt_t_pre :: u64
  mt_c_pre :: u64
  mt_mcause :: u64
  mt_mepc_before :: u64
  mt_t_entry :: u64
  mt_c_entry :: u64

record mt_state = latency +
  mt_recs :: "mt_rec list"
  mt_trial_idx :: u64
  mt_flag :: u64
  mt_trap_count :: u64
  mt_bad_seen :: u64
  mt_bad_mcause :: u64
  mt_bad_mepc :: u64
  mt_cal_ratio :: u64
  mt_retries :: u64
  mt_attempts :: u64
  m_off_ticks :: "u64 list"
  m_off_cyc :: "u64 list"

text \<open>The addresses of \<open>mt_loop\<close>, \<open>mt_done\<close>, \<open>mt_trap_entry\<close> and \<open>mt_save\<close>.\<close>

record mt_labels =
  mt_loop :: u64
  mt_done :: u64
  mt_trap_entry :: u64
  mt_save :: u64

definition mt_upd :: "nat \<Rightarrow> (mt_rec \<Rightarrow> mt_rec) \<Rightarrow> mt_state \<Rightarrow> mt_state" where
  "mt_upd i f s = s\<lparr>mt_recs := (mt_recs s)[i := f (mt_recs s ! i)]\<rparr>"


subsection \<open>Trials\<close>

definition mt_trap_handler :: "trap_save \<Rightarrow> mt_state \<Rightarrow> trap_save \<times> mt_state" where
  "mt_trap_handler sv s =
     (let i = mt_trial_idx s in
      if mcause sv \<noteq> MCAUSE_MTI \<or> i \<ge> of_nat MT_NTRIALS
      then (sv, set_mtimecmp (- 1) (s\<lparr>mt_bad_seen := 1, mt_bad_mcause := mcause sv, mt_bad_mepc := mepc sv\<rparr>))
      else (sv, (set_mtimecmp (- 1)
              (mt_upd (unat i) (\<lambda>r. r\<lparr>mt_mcause := mcause sv, mt_mepc_before := mepc sv,
                 mt_t_entry := mtime_entry sv, mt_c_entry := cycle_entry sv\<rparr>) s))
              \<lparr>mt_flag := 1, mt_trap_count := mt_trap_count s + 1\<rparr>))"

text \<open>The two-instruction loop at \<open>mt_loop\<close>: it is left after a trap that has set the flag.\<close>

partial_function (option) mt_spin :: "mt_state \<Rightarrow> mt_state option" where
  "mt_spin s =
     (case deliver mt_trap_handler s of
        None \<Rightarrow> None
      | Some (_, s1) \<Rightarrow> if mt_flag s1 = 0 then mt_spin s1 else Some s1)"

definition mt_trial :: "nat \<Rightarrow> mt_state \<Rightarrow> mt_state option" where
  "mt_trial i s =
     (let (t, s1) = rd_time (s\<lparr>mt_flag := 0\<rparr>); (c, s2) = rd_cycle s1
      in case mt_spin (open_window s2) of
           None \<Rightarrow> None
         | Some s3 \<Rightarrow> Some (mt_upd i (\<lambda>r. r\<lparr>mt_t_pre := t, mt_c_pre := c\<rparr>) (close_window s3)))"

definition mt_calibration :: "mt_state \<Rightarrow> mt_state option" where
  "mt_calibration s =
     (case calibration s of None \<Rightarrow> None | Some (ratio, s1) \<Rightarrow> Some (s1\<lparr>mt_cal_ratio := ratio\<rparr>))"

text \<open>The attempts of trial \<open>i\<close>, \<open>k\<close> left; the result says whether one was clean.\<close>

fun mt_attempt_loop :: "nat \<Rightarrow> nat \<Rightarrow> mt_state \<Rightarrow> (bool \<times> mt_state) option" where
  "mt_attempt_loop i 0 s = Some (False, s)"
| "mt_attempt_loop i (Suc k) s =
     (let (t, s1) = rd_time (s\<lparr>mt_trial_idx := of_nat i\<rparr>);
          s2 = mt_upd i (\<lambda>r. r\<lparr>mt_cmp := t + MT_AHEAD_TICKS\<rparr>) s1;
          s3 = set_mtimecmp (mt_cmp (mt_recs s2 ! i)) s2
      in case mt_trial i s3 of
           None \<Rightarrow> None
         | Some s4 \<Rightarrow>
             (let s5 = s4\<lparr>mt_attempts := mt_attempts s4 + 1\<rparr>; r = mt_recs s5 ! i
              in if mt_t_pre r \<ge> mt_cmp r \<or> mt_t_entry r - mt_cmp r > MT_OFFSET_BOUND
                 then mt_attempt_loop i k (s5\<lparr>mt_retries := mt_retries s5 + 1\<rparr>)
                 else Some (True, s5)))"

definition mt_run_one_trial :: "nat \<Rightarrow> mt_state \<Rightarrow> mt_state option" where
  "mt_run_one_trial i s =
     (case mt_attempt_loop i MT_MAX_ATTEMPTS s of
        None \<Rightarrow> None
      | Some (clean, s1) \<Rightarrow> Some (checked clean ''arm window stretched 100 times, host too noisy'' s1))"

fun mt_trials_loop :: "nat \<Rightarrow> nat \<Rightarrow> mt_state \<Rightarrow> mt_state option" where
  "mt_trials_loop i 0 s = Some s"
| "mt_trials_loop i (Suc k) s =
     (case mt_run_one_trial i s of None \<Rightarrow> None | Some s1 \<Rightarrow> mt_trials_loop (Suc i) k s1)"


subsection \<open>Statistics\<close>

definition mt_sort_asc :: "u64 list \<Rightarrow> u64 \<Rightarrow> mt_state \<Rightarrow> mt_state option" where
  "mt_sort_asc a n s =
     (case copy_loop 0 (unat n) (sort_tmp s) a of
        None \<Rightarrow> None
      | Some d \<Rightarrow> (case insert_loop 1 (unat n - 1) d of
          None \<Rightarrow> None
        | Some d' \<Rightarrow> Some (s\<lparr>sort_tmp := d'\<rparr>)))"

record mt_stats =
  st_min :: u64
  st_p50 :: u64
  st_p99 :: u64
  st_max :: u64
  st_mean :: u64

definition mt_calc_stats :: "u64 list \<Rightarrow> u64 \<Rightarrow> mt_state \<Rightarrow> (mt_stats \<times> mt_state) option" where
  "mt_calc_stats vals n s =
     (case mt_sort_asc vals n s of
        None \<Rightarrow> None
      | Some s1 \<Rightarrow>
          (case (load_at (sort_tmp s1) 0, load_at (sort_tmp s1) (unat (n - 1)), load_at (sort_tmp s1) (unat (n div 2)),
                 load_at (sort_tmp s1) (unat (n * 99 div 100)), sum_loop 0 0 (unat n) (sort_tmp s1)) of
             (Some mn, Some mx, Some p50, Some p99, Some sm) \<Rightarrow>
               Some (\<lparr>st_min = mn, st_p50 = p50, st_p99 = p99, st_max = mx, st_mean = sm div n\<rparr>, s1)
           | _ \<Rightarrow> None))"

definition mt_print_stats :: "string \<Rightarrow> u64 list \<Rightarrow> u64 \<Rightarrow> mt_state \<Rightarrow> mt_state option" where
  "mt_print_stats name vals n s =
     (case mt_calc_stats vals n s of
        None \<Rightarrow> None
      | Some (st, s1) \<Rightarrow>
          Some (emit [Str name, Str '': min='', Dec (st_min st), Str '' p50='', Dec (st_p50 st),
            Str '' p99='', Dec (st_p99 st), Str '' max='', Dec (st_max st), Str '' mean='', Dec (st_mean st),
            Str ''\<newline>''] s1))"

definition mt_hist_ticks :: "string \<Rightarrow> u64 list \<Rightarrow> u64 \<Rightarrow> mt_state \<Rightarrow> mt_state option" where
  "mt_hist_ticks name vals n s =
     (case mt_calc_stats vals n s of
        None \<Rightarrow> None
      | Some (st, s1) \<Rightarrow>
          hist_loop vals n (st_min st) (st_max st) (emit [Str name, Str '' (n='', Dec n, Str ''):\<newline>''] s1))"


subsection \<open>Report\<close>

definition mt_print_raw :: "nat \<Rightarrow> mt_state \<Rightarrow> mt_state" where
  "mt_print_raw i s =
     (let r = mt_recs s ! i in
      emit [Str ''raw['', Dec (of_nat i), Str '']: cmp='', Hex (mt_cmp r), Str '' t_pre='', Hex (mt_t_pre r),
        Str '' c_pre='', Hex (mt_c_pre r), Str '' t_entry='', Hex (mt_t_entry r), Str '' c_entry='', Hex (mt_c_entry r),
        Str '' mepc_before='', Hex (mt_mepc_before r), Str '' mcause='', Hex (mt_mcause r), Str ''\<newline>''] s)"

text \<open>The checks of one record.\<close>

definition mt_verify_rec :: "mt_labels \<Rightarrow> mt_rec \<Rightarrow> mt_state \<Rightarrow> mt_state" where
  "mt_verify_rec y r s =
     (let s1 = checked (mt_mcause r = MCAUSE_MTI) ''mcause != machine timer interrupt'' s;
          s2 = checked (mt_t_pre r < mt_cmp r) ''interrupt already pending at trial start'' s1;
          s3 = checked (mt_t_entry r \<ge> mt_cmp r) ''trap entry mtime < mtimecmp'' s2;
          s4 = checked (mt_t_entry r \<ge> mt_t_pre r) ''entry tick < pre tick'' s3;
          s5 = checked (mt_c_entry r > mt_c_pre r) ''entry rdcycle <= pre rdcycle'' s4;
          s6 = checked (mt_mepc_before r \<ge> mt_loop y \<and> mt_mepc_before r < mt_done y)
                 ''mepc_before outside the trial spin loop'' s5
      in checked (mt_t_entry r - mt_cmp r \<le> MT_OFFSET_BOUND) ''delivery offset beyond sanity bound'' s6)"

text \<open>
  The loop over the records from index \<open>i\<close> with \<open>k\<close> to go: \<open>n\<close> metrics stored, and the two sums
  of the slope check.
\<close>

fun mt_verify_loop :: "mt_labels \<Rightarrow> nat \<Rightarrow> nat \<Rightarrow> u64 \<times> u64 \<times> u64 \<Rightarrow> mt_state \<Rightarrow> ((u64 \<times> u64 \<times> u64) \<times> mt_state) option" where
  "mt_verify_loop y i 0 acc s = Some (acc, s)"
| "mt_verify_loop y i (Suc k) (n, sum_c, sum_t) s =
     (case load_at (mt_recs s) i of
        None \<Rightarrow> None
      | Some r \<Rightarrow>
          (let s1 = mt_verify_rec y r s; offset = mt_t_entry r - mt_cmp r
           in if i \<ge> MT_WARMUP
              then (case (store_at (m_off_ticks s1) (unat n) offset,
                          store_at (m_off_cyc s1) (unat n) (offset * mt_cal_ratio s1)) of
                      (Some ot, Some oc) \<Rightarrow>
                        mt_verify_loop y (Suc i) k
                          (n + 1, sum_c + (mt_c_entry r - mt_c_pre r), sum_t + (mt_t_entry r - mt_t_pre r))
                          (s1\<lparr>m_off_ticks := ot, m_off_cyc := oc\<rparr>)
                    | _ \<Rightarrow> None)
              else mt_verify_loop y (Suc i) k (n, sum_c, sum_t) s1))"

definition mt_verify :: "mt_labels \<Rightarrow> mt_state \<Rightarrow> (u64 \<times> mt_state) option" where
  "mt_verify y s =
     (case mt_verify_loop y 0 MT_NTRIALS (0, 0, 0) s of
        None \<Rightarrow> None
      | Some ((n, sum_c, sum_t), s1) \<Rightarrow>
          (let s2 = emit [Str ''in-trial rdcycle-vs-mtime slope: sum_c='', Dec sum_c, Str '' sum_t='', Dec sum_t,
                 Str '' slope='', Dec (if sum_t \<noteq> 0 then sum_c div sum_t else 0), Str '' (calibration ratio '',
                 Dec (mt_cal_ratio s1), Str '')\<newline>''] s1
           in Some (n, checked (sum_t > 0 \<and> sum_c div sum_t \<ge> 145 \<and> sum_c div sum_t \<le> 155)
                ''in-trial slope outside 145..155'' s2)))"

text \<open>The part of \<open>report\<close> before \<open>verify\<close>.\<close>

definition mt_report_counts :: "mt_state \<Rightarrow> mt_state" where
  "mt_report_counts s =
     (let s1 = emit [Str ''trap_count='', Dec (mt_trap_count s), Str '' (attempts '', Dec (mt_attempts s),
                 Str '', arm retries '', Dec (mt_retries s), Str '')\<newline>''] s;
          s2 = checked (mt_trap_count s1 = mt_attempts s1) ''trap count != attempt count'' s1;
          s3 = checked (mt_bad_seen s2 = 0) ''unexpected trap seen'' s2;
          s4 = (if mt_bad_seen s3 \<noteq> 0
                then emit [Str ''bad trap: mcause='', Hex (mt_bad_mcause s3), Str '' mepc='', Hex (mt_bad_mepc s3),
                       Str ''\<newline>''] s3
                else s3)
      in emit [Str ''trials recorded: '', Dec (of_nat MT_NTRIALS), Str '' (first '', Dec (of_nat MT_WARMUP),
           Str '' discarded from stats)\<newline>''] (mt_print_raw 1 (mt_print_raw 0 s4)))"

definition mt_report :: "mt_labels \<Rightarrow> mt_state \<Rightarrow> mt_state option" where
  "mt_report y s =
     (case mt_verify y (mt_report_counts s) of
        None \<Rightarrow> None
      | Some (n, s1) \<Rightarrow>
     (case mt_print_stats ''offset_ticks'' (m_off_ticks s1) n s1 of
        None \<Rightarrow> None
      | Some s2 \<Rightarrow>
     (case mt_print_stats ''offset_cyc  '' (m_off_cyc s2) n s2 of
        None \<Rightarrow> None
      | Some s3 \<Rightarrow>
     (case mt_hist_ticks ''hist offset_ticks'' (m_off_ticks s3) n s3 of
        None \<Rightarrow> None
      | Some s4 \<Rightarrow> Some (result_line s4)))))"

definition mt_main :: "mt_labels \<Rightarrow> mt_state \<Rightarrow> mt_state option" where
  "mt_main y s =
     (let s1 = emit [Str ''mtimecmp: CLINT mtimecmp delivery accuracy (backlog item 36)\<newline>'',
                 Str ''mhartid='', Dec (rd_mhartid s), Str ''\<newline>''] s;
          s2 = s1\<lparr>hw := csr_write Mscratch (mt_save y) (csr_write Mtvec (mt_trap_entry y) (hw s1))\<rparr>;
          mtvec = csr_read Mtvec (hw s2);
          s3 = emit [Str ''mtvec='', Hex mtvec, Str '' mscratch='', Hex (mt_save y), Str ''\<newline>''] s2;
          s4 = set_mtimecmp (- 1) (checked (mtvec AND 3 = 0) ''mtvec not in direct mode'' s3);
          s5 = s4\<lparr>hw := csr_write Mie (csr_read Mie (hw s4) OR 0x80) (hw s4)\<rparr>
      in case mt_calibration s5 of
           None \<Rightarrow> None
         | Some s6 \<Rightarrow>
             (case mt_trials_loop 0 MT_NTRIALS
                (emit [Str ''trials: 1000, mtimecmp = mtime+'', Dec MT_AHEAD_TICKS, Str '' ticks, offset bound '',
                   Dec MT_OFFSET_BOUND, Str '' ticks\<newline>''] s6) of
                None \<Rightarrow> None
              | Some s7 \<Rightarrow> (case mt_report y s7 of
                  None \<Rightarrow> None
                | Some s8 \<Rightarrow> Some (emit [Str ''done\<newline>''] s8))))"


subsection \<open>Frame\<close>

lemma emit_mt [simp]:
  "mt_recs (emit ps s) = mt_recs s" "mt_trap_count (emit ps s) = mt_trap_count s"
  "mt_attempts (emit ps s) = mt_attempts s" "mt_bad_seen (emit ps s) = mt_bad_seen s"
  "m_off_ticks (emit ps s) = m_off_ticks s" "m_off_cyc (emit ps s) = m_off_cyc s"
  "mt_cal_ratio (emit ps s) = mt_cal_ratio s" "sort_tmp (emit ps l) = sort_tmp l"
  "out (emit ps c) = out c @ text_of ps"
  by (simp_all add: emit_def)

lemma checked_mt [simp]:
  "mt_recs (checked b msg s) = mt_recs s" "mt_trap_count (checked b msg s) = mt_trap_count s"
  "mt_attempts (checked b msg s) = mt_attempts s" "mt_bad_seen (checked b msg s) = mt_bad_seen s"
  "m_off_ticks (checked b msg s) = m_off_ticks s" "m_off_cyc (checked b msg s) = m_off_cyc s"
  "mt_cal_ratio (checked b msg s) = mt_cal_ratio s" "sort_tmp (checked b msg l) = sort_tmp l"
  by (simp_all add: checked_def)


subsection \<open>Verification of the records\<close>

text \<open>
  What a recorded trial has to satisfy: a machine timer interrupt, not before the programmed tick and
  at most \<open>MT_OFFSET_BOUND\<close> after it, out of the trial's loop, with the comparator not yet reached
  when the trial began.
\<close>

definition mt_clean :: "mt_labels \<Rightarrow> mt_rec \<Rightarrow> bool" where
  "mt_clean y r \<longleftrightarrow> mt_mcause r = MCAUSE_MTI \<and> mt_t_pre r < mt_cmp r \<and>
     unat (mt_cmp r) \<le> unat (mt_t_entry r) \<and> unat (mt_t_entry r) \<le> unat (mt_cmp r) + 1000 \<and>
     mt_c_pre r < mt_c_entry r \<and> mt_loop y \<le> mt_mepc_before r \<and> mt_mepc_before r < mt_done y"

definition mt_offset :: "mt_rec \<Rightarrow> u64" where
  "mt_offset r = mt_t_entry r - mt_cmp r"

definition mt_slope_ok :: "mt_rec list \<Rightarrow> bool" where
  "mt_slope_ok rs \<longleftrightarrow>
     (let sc = (\<Sum>r\<leftarrow>rs. mt_c_entry r - mt_c_pre r); st = (\<Sum>r\<leftarrow>rs. mt_t_entry r - mt_t_pre r)
      in 0 < st \<and> 145 \<le> sc div st \<and> sc div st \<le> 155)"

lemma mt_clean_offset: "mt_clean y r \<Longrightarrow> mt_offset r \<le> 1000"
  by (auto simp: mt_clean_def mt_offset_def word_le_nat_alt unat_sub)

lemma mt_verify_rec_frame [simp]:
  "mt_recs (mt_verify_rec y r s) = mt_recs s" "mt_trap_count (mt_verify_rec y r s) = mt_trap_count s"
  "m_off_ticks (mt_verify_rec y r s) = m_off_ticks s" "m_off_cyc (mt_verify_rec y r s) = m_off_cyc s"
  "mt_cal_ratio (mt_verify_rec y r s) = mt_cal_ratio s" "sort_tmp (mt_verify_rec y r s) = sort_tmp s"
  by (simp_all add: mt_verify_rec_def Let_def)

lemma mt_verify_rec_fails:
  "fails (mt_verify_rec y r s) = 0 \<longleftrightarrow> fails s = 0 \<and> mt_clean y r"
proof -
  have "mt_t_entry r - mt_cmp r \<le> 1000 \<longleftrightarrow> unat (mt_t_entry r) \<le> unat (mt_cmp r) + 1000"
    if "mt_cmp r \<le> mt_t_entry r"
    using that by (auto simp: word_le_nat_alt unat_sub)
  then show ?thesis
    by (auto simp: mt_verify_rec_def Let_def mt_clean_def word_le_nat_alt [where a = "mt_cmp r"]
        word_le_nat_alt [where a = "mt_t_pre r"] word_less_nat_alt [where a = "mt_t_pre r"])
qed

lemma mt_verify_loop_result:
  assumes "i + k \<le> length (mt_recs s)" "unat n + (k - (8 - i)) \<le> length (m_off_ticks s)"
    "length (m_off_cyc s) = length (m_off_ticks s)" "unat n + k < 2 ^ 64"
  defines "rs \<equiv> drop (8 - i) (take k (drop i (mt_recs s)))"
  shows "\<exists>s'. mt_verify_loop y i k (n, c, t) s =
      Some ((n + of_nat (length rs), c + (\<Sum>r\<leftarrow>rs. mt_c_entry r - mt_c_pre r), t + (\<Sum>r\<leftarrow>rs. mt_t_entry r - mt_t_pre r)), s') \<and>
    (fails s' = 0 \<longleftrightarrow> fails s = 0 \<and> (\<forall>r \<in> set (take k (drop i (mt_recs s))). mt_clean y r)) \<and>
    take (unat n + length rs) (m_off_ticks s') = take (unat n) (m_off_ticks s) @ map mt_offset rs \<and>
    length (m_off_ticks s') = length (m_off_ticks s) \<and> length (m_off_cyc s') = length (m_off_cyc s) \<and>
    sort_tmp s' = sort_tmp s"
  using assms(1-4) unfolding rs_def
proof (induction k arbitrary: i n c t s)
  case 0
  then show ?case by simp
next
  case (Suc k)
  let ?r = "mt_recs s ! i" and ?s1 = "mt_verify_rec y (mt_recs s ! i) s"
  have i: "i < length (mt_recs s)" using Suc.prems(1) by simp
  have dr: "take (Suc k) (drop i (mt_recs s)) = ?r # take k (drop (Suc i) (mt_recs s))"
    using i by (simp add: Cons_nth_drop_Suc [symmetric])
  show ?case
  proof (cases "8 \<le> i")
    case True
    have n: "unat n < length (m_off_ticks s)" using Suc.prems(2) True by simp
    have n1: "unat (n + 1) = Suc (unat n)"
      using Suc.prems(4) by (simp add: unat_word_ariths)
    let ?s2 = "?s1\<lparr>m_off_ticks := (m_off_ticks s)[unat n := mt_offset ?r],
      m_off_cyc := (m_off_cyc s)[unat n := mt_offset ?r * mt_cal_ratio s]\<rparr>"
    have pre: "Suc i + k \<le> length (mt_recs ?s2)" "unat (n + 1) + (k - (8 - Suc i)) \<le> length (m_off_ticks ?s2)"
      "length (m_off_cyc ?s2) = length (m_off_ticks ?s2)" "unat (n + 1) + k < 2 ^ 64"
      using Suc.prems True n1 by simp_all
    have "take (Suc (unat n)) ((m_off_ticks s)[unat n := mt_offset ?r]) = take (unat n) (m_off_ticks s) @ [mt_offset ?r]"
      using n by (simp add: take_Suc_conv_app_nth)
    then show ?thesis
      using Suc.IH [OF pre, of "c + (mt_c_entry ?r - mt_c_pre ?r)" "t + (mt_t_entry ?r - mt_t_pre ?r)"] True i n n1 Suc.prems(3)
      unfolding dr by (auto simp: mt_verify_rec_fails mt_offset_def Let_def add.assoc)
  next
    case False
    have pre: "Suc i + k \<le> length (mt_recs ?s1)" "unat n + (k - (8 - Suc i)) \<le> length (m_off_ticks ?s1)"
      "length (m_off_cyc ?s1) = length (m_off_ticks ?s1)" "unat n + k < 2 ^ 64"
      using Suc.prems False by simp_all
    have d: "drop (8 - i) (?r # l) = drop (8 - Suc i) l" for l
      using False by (simp add: drop_Cons' Suc_diff_Suc)
    show ?thesis
      using Suc.IH [OF pre, of c t] False i unfolding dr d
      by (auto simp: mt_verify_rec_fails Let_def)
  qed
qed


lemma mt_verify_result:
  assumes "length (mt_recs s) = 1000" "length (m_off_ticks s) = 1000" "length (m_off_cyc s) = 1000"
  shows "\<exists>s'. mt_verify y s = Some (992, s') \<and>
    (fails s' = 0 \<longleftrightarrow> fails s = 0 \<and> (\<forall>r \<in> set (mt_recs s). mt_clean y r) \<and> mt_slope_ok (drop 8 (mt_recs s))) \<and>
    take 992 (m_off_ticks s') = map mt_offset (drop 8 (mt_recs s)) \<and>
    length (m_off_ticks s') = 1000 \<and> length (m_off_cyc s') = 1000 \<and> sort_tmp s' = sort_tmp s"
  using mt_verify_loop_result [of 0 1000 s 0 y 0 0] assms
  by (auto simp: mt_verify_def Let_def mt_slope_ok_def)

lemma mt_calc_stats_result:
  assumes "0 < n" "unat n \<le> length vals" "unat n \<le> length (sort_tmp s)" "unat n * 99 < 2 ^ 64"
  defines "xs \<equiv> take (unat n) vals"
  shows "\<exists>st t. mt_calc_stats vals n s = Some (st, s\<lparr>sort_tmp := t\<rparr>) \<and> length t = length (sort_tmp s) \<and>
      st_min st = Min (set xs) \<and> st_max st = Max (set xs) \<and> st_p50 st = sort xs ! (unat n div 2) \<and>
      st_p99 st = sort xs ! (unat n * 99 div 100) \<and> st_mean st = sum_list xs div n"
proof -
  let ?d = "sort xs @ drop (unat n) (sort_tmp s)"
  have n: "0 < unat n" using assms(1) by (simp add: word_greater_zero_iff unat_gt_0)
  have len: "length xs = unat n" "xs \<noteq> []" using assms(2) n by (auto simp: xs_def)
  have idx: "unat (n - 1) = unat n - 1" "unat (n div 2) = unat n div 2" "unat (n * 99 div 100) = unat n * 99 div 100"
    using assms(1,4) by (simp_all add: unat_sub word_le_nat_alt Suc_le_eq n unat_div unat_word_ariths)
  have bnd: "unat n - 1 < unat n" "unat n div 2 < unat n" "unat n * 99 div 100 < unat n"
    using n by simp_all
  have "mt_sort_asc vals n s = Some (s\<lparr>sort_tmp := ?d\<rparr>)"
    using sort_asc_result [OF assms(2,3)] by (simp add: mt_sort_asc_def sort_asc_def xs_def)
  moreover have "sum_loop 0 0 (unat n) ?d = Some (sum_list xs)"
    using sum_loop_result [of 0 "unat n" ?d 0] len assms(3) sum_mset_sum_list [of "sort xs"] sum_mset_sum_list [of xs]
    by simp
  moreover have at: "load_at ?d i = Some (sort xs ! i)" if "i < unat n" for i
    using that len by (simp add: load_at_def nth_append)
  have "load_at ?d 0 = Some (Min (set xs))" "load_at ?d (unat (n - 1)) = Some (Max (set xs))"
    "load_at ?d (unat (n div 2)) = Some (sort xs ! (unat n div 2))"
    "load_at ?d (unat (n * 99 div 100)) = Some (sort xs ! (unat n * 99 div 100))"
    using at [OF n] at [OF bnd(1)] at [OF bnd(2)] at [OF bnd(3)] sorted_ends [OF len(2)] unfolding idx len(1) by simp_all
  moreover have "length ?d = length (sort_tmp s)" using len assms(3) by simp
  ultimately show ?thesis
    by (intro exI [of _ "\<lparr>st_min = Min (set xs), st_p50 = sort xs ! (unat n div 2),
      st_p99 = sort xs ! (unat n * 99 div 100), st_max = Max (set xs), st_mean = sum_list xs div n\<rparr>"] exI [of _ ?d])
      (simp add: mt_calc_stats_def)
qed

lemma mt_report_counts_frame [simp]:
  "mt_recs (mt_report_counts s) = mt_recs s" "m_off_ticks (mt_report_counts s) = m_off_ticks s"
  "m_off_cyc (mt_report_counts s) = m_off_cyc s" "sort_tmp (mt_report_counts s) = sort_tmp s"
  "fails (mt_report_counts s) = 0 \<longleftrightarrow> fails s = 0 \<and> mt_trap_count s = mt_attempts s \<and> mt_bad_seen s = 0"
  by (auto simp: mt_report_counts_def mt_print_raw_def Let_def)

text \<open>The statistics lines add no failure and keep the metrics.\<close>

lemma mt_print_stats_runs:
  assumes "0 < n" "unat n \<le> length vals" "unat n \<le> length (sort_tmp s)" "unat n * 99 < 2 ^ 64"
  shows "\<exists>s'. mt_print_stats name vals n s = Some s' \<and> fails s' = fails s \<and> m_off_ticks s' = m_off_ticks s \<and>
    m_off_cyc s' = m_off_cyc s \<and> length (sort_tmp s') = length (sort_tmp s)"
  using mt_calc_stats_result [OF assms] by (auto simp: mt_print_stats_def)

lemma hist_loop_fails: "hist_loop vals n v mx s = Some s' \<Longrightarrow> fails s' = fails s" for s :: mt_state
  by (erule hist_loop.raw_induct [where P = "\<lambda>vals n v mx s s'. fails s' = fails s", rotated])
    (auto split: if_splits option.splits)

lemma mt_hist_ticks_fails:
  "mt_hist_ticks name vals n s = Some s' \<Longrightarrow> fails s' = fails s"
  by (auto simp: mt_hist_ticks_def mt_calc_stats_def mt_sort_asc_def split: option.splits dest!: hist_loop_fails)

lemma mt_hist_ticks_runs:
  assumes "0 < n" "unat n \<le> length vals" "unat n \<le> length (sort_tmp s)" "unat n * 99 < 2 ^ 64"
    and "\<forall>x \<in> set (take (unat n) vals). x < - 1"
  shows "\<exists>s' pre. mt_hist_ticks name vals n s = Some s' \<and> fails s' = fails s \<and>
    out s' = pre @ hist_text (take (unat n) vals)"
proof -
  let ?xs = "take (unat n) vals"
  have ne: "?xs \<noteq> []" using assms(1,2) unat_gt_0 [of n] by (auto simp: word_greater_zero_iff)
  then have "Max (set ?xs) \<in> set ?xs" by (intro Max_in) auto
  then have "Max (set ?xs) < - 1" using assms(5) by blast
  note loop = hist_loop_result [OF assms(2) this, of "Min (set ?xs)", unfolded hist_span_all [OF ne]]
  obtain st t where st: "mt_calc_stats vals n s = Some (st, s\<lparr>sort_tmp := t\<rparr>)" "st_min st = Min (set ?xs)"
    "st_max st = Max (set ?xs)"
    using mt_calc_stats_result [OF assms(1-4)] by blast
  let ?s = "emit [Str name, Str '' (n='', Dec n, Str ''):\<newline>''] (s\<lparr>sort_tmp := t\<rparr>)"
  have "mt_hist_ticks name vals n s = Some (?s\<lparr>out := out ?s @ hist_text ?xs\<rparr>)"
    by (simp only: mt_hist_ticks_def st option.case prod.case loop)
  moreover have "fails (?s\<lparr>out := out ?s @ hist_text ?xs\<rparr>) = fails s"
    "out (?s\<lparr>out := out ?s @ hist_text ?xs\<rparr>) = out ?s @ hist_text ?xs"
    by simp_all
  ultimately show ?thesis by blast
qed

lemma result_line_fails [simp]: "fails (result_line s) = fails s"
  by (simp add: result_line_def)

subsection \<open>Property\<close>

text \<open>
  C28. The verdict of the timer experiment is exact. Whatever was recorded, \<open>report\<close> ends with no
  failed check if and only if no check had failed before, every attempt took exactly one trap, no foreign trap
  was seen, the in-trial slope is 145 to 155 cycle units per tick, and every one of the 1000 records is a machine
  timer interrupt taken inside the trial's loop, at or after the programmed tick, by at most 1000 ticks,
  with the trial begun before that tick. In that case it does return, and its output
  ends with the exact histogram of the 992 offsets after the warm-up, one line per value that occurs, in ascending
  order with its multiplicity, followed by the pass line.
\<close>

theorem mt_report_exact:
  assumes "length (mt_recs s) = 1000" "length (m_off_ticks s) = 1000" "length (m_off_cyc s) = 1000"
    "length (sort_tmp s) = 1000"
  shows "((\<exists>s'. mt_report y s = Some s' \<and> fails s' = 0) \<longleftrightarrow>
      fails s = 0 \<and> mt_trap_count s = mt_attempts s \<and> mt_bad_seen s = 0 \<and>
      (\<forall>r \<in> set (mt_recs s). mt_clean y r) \<and> mt_slope_ok (drop 8 (mt_recs s))) \<and>
    (\<forall>s'. mt_report y s = Some s' \<and> fails s' = 0 \<longrightarrow>
      (\<exists>pre. out s' = pre @ hist_text (map mt_offset (drop 8 (mt_recs s))) @ ''RESULT: PASS\<newline>''))"
proof -
  let ?good = "fails s = 0 \<and> mt_trap_count s = mt_attempts s \<and> mt_bad_seen s = 0 \<and>
      (\<forall>r \<in> set (mt_recs s). mt_clean y r) \<and> mt_slope_ok (drop 8 (mt_recs s))"
  let ?off = "map mt_offset (drop 8 (mt_recs s))"
  obtain s1 where s1: "mt_verify y (mt_report_counts s) = Some (992, s1)" "fails s1 = 0 \<longleftrightarrow> ?good"
    "take 992 (m_off_ticks s1) = ?off" "length (m_off_ticks s1) = 1000" "length (m_off_cyc s1) = 1000"
    "sort_tmp s1 = sort_tmp s"
    using mt_verify_result [of "mt_report_counts s" y, unfolded mt_report_counts_frame conj_assoc, OF assms(1-3)] by (elim exE conjE) (rule that)
  obtain s2 where s2: "mt_print_stats ''offset_ticks'' (m_off_ticks s1) 992 s1 = Some s2" "fails s2 = fails s1"
    "m_off_ticks s2 = m_off_ticks s1" "m_off_cyc s2 = m_off_cyc s1" "length (sort_tmp s2) = 1000"
    using mt_print_stats_runs [of 992 "m_off_ticks s1" s1] s1(4,6) assms(4) by auto
  obtain s3 where s3: "mt_print_stats ''offset_cyc  '' (m_off_cyc s2) 992 s2 = Some s3" "fails s3 = fails s1"
    "m_off_ticks s3 = m_off_ticks s1" "length (sort_tmp s3) = 1000"
    using mt_print_stats_runs [of 992 "m_off_cyc s2" s2] s1(5) s2 by auto
  let ?h = "mt_hist_ticks ''hist offset_ticks'' (m_off_ticks s3) 992 s3"
  have rep: "mt_report y s = (case ?h of None \<Rightarrow> None | Some s4 \<Rightarrow> Some (result_line s4))"
    by (simp add: mt_report_def s1(1) s2(1) s3(1))
  have good: ?good if "?h = Some s4" "fails s4 = 0" for s4
    using that mt_hist_ticks_fails s3(2) s1(2) by metis
  have "\<exists>s4 pre. ?h = Some s4 \<and> fails s4 = 0 \<and> out s4 = pre @ hist_text ?off" if g: ?good
  proof -
    have "mt_offset r < - 1" if "r \<in> set (drop 8 (mt_recs s))" for r
      using g that mt_clean_offset [of y r] by (auto dest!: in_set_dropD intro: le_less_trans [where y = 1000])
    then have "\<forall>x \<in> set (take (unat (992 :: u64)) (m_off_ticks s3)). x < - 1" using s1(3) s3(3) by auto
    from mt_hist_ticks_runs [OF _ _ _ _ this, of s3 "''hist offset_ticks''"] show ?thesis
      using s1(2-4) s3 g by auto
  qed
  then show ?thesis using good rep by (fastforce simp: result_line_def text_of_def split: option.splits)
qed


text \<open>A run whose 1000 trials were all three ticks late.\<close>

definition mt_demo_rec :: mt_rec where
  "mt_demo_rec = \<lparr>mt_cmp = 6000, mt_t_pre = 1003, mt_c_pre = 150000, mt_mcause = MCAUSE_MTI,
     mt_mepc_before = 0x80000404, mt_t_entry = 6003, mt_c_entry = 900000\<rparr>"

definition mt_demo :: mt_state where
  "mt_demo = \<lparr>out = [], hw = \<lparr>gpr = (\<lambda>_. 0), csrf = (\<lambda>_. 0), ram = (\<lambda>_. 0), pc = 0x80000404, priv = MMode,
       clock = (\<lambda>k. (of_nat k, 150 * of_nat k)), retired = 0, legal = (\<lambda>_ _ v. v), instret = (\<lambda>_. 0)\<rparr>,
     fails = 0, nchecks = 0, save = (\<lambda>_. 0), finisher = None, overrun = [],
     traps = (\<lambda>_. None), ntraps = 0, sort_tmp = replicate 1000 0,
     mt_recs = replicate 1000 mt_demo_rec, mt_trial_idx = 999, mt_flag = 1, mt_trap_count = 1000,
     mt_bad_seen = 0, mt_bad_mcause = 0, mt_bad_mepc = 0, mt_cal_ratio = 150, mt_retries = 0, mt_attempts = 1000,
     m_off_ticks = replicate 1000 0, m_off_cyc = replicate 1000 0\<rparr>"

definition mt_demo_labels :: mt_labels where
  "mt_demo_labels = \<lparr>mt_loop = 0x80000400, mt_done = 0x80000408, mt_trap_entry = 0x80000100, mt_save = 0x80010000\<rparr>"

theorem mt_report_exact_witness:
  "\<exists>s' pre. mt_report mt_demo_labels mt_demo = Some s' \<and> fails s' = 0 \<and>
     out s' = pre @ hist_text (replicate 992 3) @ ''RESULT: PASS\<newline>''"
proof -
  have fields: "length (mt_recs mt_demo) = 1000" "length (m_off_ticks mt_demo) = 1000" "length (m_off_cyc mt_demo) = 1000"
    "length (sort_tmp mt_demo) = 1000" "fails mt_demo = 0" "mt_trap_count mt_demo = mt_attempts mt_demo" "mt_bad_seen mt_demo = 0"
    "drop 8 (mt_recs mt_demo) = replicate 992 mt_demo_rec" "set (mt_recs mt_demo) = {mt_demo_rec}"
    by (simp_all add: mt_demo_def)
  moreover have "mt_clean mt_demo_labels mt_demo_rec" "mt_offset mt_demo_rec = 3"
    by (simp_all add: mt_clean_def mt_demo_labels_def mt_demo_rec_def mt_offset_def)
  moreover have "mt_slope_ok (replicate 992 mt_demo_rec)"
    by (simp add: mt_slope_ok_def sum_list_replicate mt_demo_rec_def Let_def)
  ultimately show ?thesis
    using mt_report_exact [of mt_demo mt_demo_labels, OF fields(1-4)] by (auto simp del: replicate.simps)
qed

end
