(* ===== verification/Wfi.thy ===== *)
theory Wfi
  imports Latency
begin

text \<open>
  \<open>src/src/wfi-latency/wfi_main.c\<close>: how late the hart wakes from \<open>wfi\<close>, against a spinning
  baseline with the same trap path. The handler resumes each trial at its resume label.
\<close>

unbundle bit_operations_syntax

abbreviation (input) WFI_NTRIALS :: nat where "WFI_NTRIALS \<equiv> 400"
abbreviation (input) WFI_WARMUP :: nat where "WFI_WARMUP \<equiv> 8"
abbreviation (input) WFI_AHEAD_TICKS :: u64 where "WFI_AHEAD_TICKS \<equiv> 20000"


subsection \<open>State\<close>

record trial_rec =
  cmp :: u64
  t_pre :: u64
  c_pre :: u64
  r_mcause :: u64
  mepc_before :: u64
  t_entry :: u64
  c_entry :: u64
  c_resume :: u64
  t_resume :: u64

record wfi_state = latency +
  wfi_rec :: "trial_rec list"
  spin_rec :: "trial_rec list"
  wfi_current_kind :: u64
  wfi_trial_idx :: u64
  wfi_spin_flag :: u64
  wfi_trap_count :: u64
  wfi_bad_seen :: u64
  wfi_bad_mcause :: u64
  wfi_bad_mepc :: u64
  arm_retries :: u64
  m_w2r :: "u64 list"
  m_w2e :: "u64 list"
  m_e2r :: "u64 list"
  m_cyc :: "u64 list"

text \<open>The labels of the two trial blocks, and the addresses of \<open>wfi_trap_entry\<close> and \<open>wfi_save\<close>.\<close>

record wfi_labels =
  wfi_resume :: u64
  spin_resume :: u64
  spin_loop :: u64
  wfi_trap_entry :: u64
  wfi_save :: u64

text \<open>A pointer to a record: its array (\<open>0\<close> for \<open>wfi_rec\<close>) and its index.\<close>

type_synonym rec_ptr = "u64 \<times> nat"

fun rec_get :: "rec_ptr \<Rightarrow> wfi_state \<Rightarrow> trial_rec" where
  "rec_get (k, i) s = (if k = 0 then wfi_rec s ! i else spin_rec s ! i)"

fun rec_upd :: "rec_ptr \<Rightarrow> (trial_rec \<Rightarrow> trial_rec) \<Rightarrow> wfi_state \<Rightarrow> wfi_state" where
  "rec_upd (k, i) f s =
     (if k = 0 then s\<lparr>wfi_rec := (wfi_rec s)[i := f (wfi_rec s ! i)]\<rparr>
      else s\<lparr>spin_rec := (spin_rec s)[i := f (spin_rec s ! i)]\<rparr>)"


subsection \<open>Trials\<close>

definition wfi_trap_handler :: "wfi_labels \<Rightarrow> trap_save \<Rightarrow> wfi_state \<Rightarrow> trap_save \<times> wfi_state" where
  "wfi_trap_handler y sv s =
     (let k = wfi_current_kind s; i = wfi_trial_idx s;
          sv' = sv\<lparr>mepc := if k = 0 then wfi_resume y else spin_resume y\<rparr>
      in if mcause sv \<noteq> MCAUSE_MTI \<or> i \<ge> of_nat WFI_NTRIALS
         then (sv', set_mtimecmp (- 1)
                 (s\<lparr>wfi_bad_seen := 1, wfi_bad_mcause := mcause sv, wfi_bad_mepc := mepc sv\<rparr>))
         else (sv', (set_mtimecmp (- 1)
                 (rec_upd (k, unat i) (\<lambda>r. r\<lparr>r_mcause := mcause sv, mepc_before := mepc sv,
                    t_entry := mtime_entry sv, c_entry := cycle_entry sv\<rparr>) s))
                 \<lparr>wfi_spin_flag := 1, wfi_trap_count := wfi_trap_count s + 1\<rparr>))"

text \<open>
  The stamps after the resume label. A hart that returns from the trap to another address than the
  label of the running block leaves the block, which the model does not follow.
\<close>

definition resume_stamps :: "rec_ptr \<Rightarrow> u64 \<times> u64 \<Rightarrow> wfi_state \<Rightarrow> wfi_state" where
  "resume_stamps p tc s =
     (let (c, s1) = rd_cycle s; (t, s2) = rd_time s1
      in rec_upd p (\<lambda>r. r\<lparr>t_pre := fst tc, c_pre := snd tc, c_resume := c, t_resume := t\<rparr>) (close_window s2))"

text \<open>
  \<open>wfi\<close> may retire without an interrupt, in which case the hart runs on into the resume label.
\<close>

definition wfi_trial :: "wfi_labels \<Rightarrow> rec_ptr \<Rightarrow> wfi_state \<Rightarrow> wfi_state option" where
  "wfi_trial y p s =
     (let (t, s1) = rd_time s; (c, s2) = rd_cycle s1; s3 = open_window s2
      in case deliver (wfi_trap_handler y) s3 of
           None \<Rightarrow> Some (resume_stamps p (t, c) (s3\<lparr>ntraps := Suc (ntraps s3)\<rparr>))
         | Some (a, s4) \<Rightarrow> if a = wfi_resume y then Some (resume_stamps p (t, c) s4) else None)"

text \<open>The spin loop is left through the handler only: without a trap it never ends.\<close>

definition spin_trial :: "wfi_labels \<Rightarrow> rec_ptr \<Rightarrow> wfi_state \<Rightarrow> wfi_state option" where
  "spin_trial y p s =
     (let (t, s1) = rd_time (s\<lparr>wfi_spin_flag := 0\<rparr>); (c, s2) = rd_cycle s1; s3 = open_window s2
      in case deliver (wfi_trap_handler y) s3 of
           None \<Rightarrow> None
         | Some (a, s4) \<Rightarrow> if a = spin_resume y then Some (resume_stamps p (t, c) s4) else None)"

definition wfi_calibration :: "wfi_state \<Rightarrow> wfi_state option" where
  "wfi_calibration s = map_option snd (calibration s)"

text \<open>The attempts at one record, \<open>k\<close> left; the result says whether the last one was armed in time.\<close>

fun wfi_attempt_loop :: "wfi_labels \<Rightarrow> rec_ptr \<Rightarrow> nat \<Rightarrow> u64 \<Rightarrow> nat \<Rightarrow> wfi_state \<Rightarrow> (bool \<times> wfi_state) option" where
  "wfi_attempt_loop y p i kind 0 s = Some (False, s)"
| "wfi_attempt_loop y p i kind (Suc k) s =
     (let (t, s1) = rd_time (s\<lparr>wfi_current_kind := kind, wfi_trial_idx := of_nat i\<rparr>);
          s2 = rec_upd p (\<lambda>r. r\<lparr>cmp := t + WFI_AHEAD_TICKS\<rparr>) s1;
          s3 = set_mtimecmp (cmp (rec_get p s2)) s2
      in case (if kind = 0 then wfi_trial y p s3 else spin_trial y p s3) of
           None \<Rightarrow> None
         | Some s4 \<Rightarrow>
             if t_pre (rec_get p s4) < cmp (rec_get p s4) then Some (True, s4)
             else wfi_attempt_loop y p i kind k (s4\<lparr>arm_retries := arm_retries s4 + 1\<rparr>))"

definition wfi_run_one_trial :: "wfi_labels \<Rightarrow> rec_ptr \<Rightarrow> nat \<Rightarrow> u64 \<Rightarrow> wfi_state \<Rightarrow> wfi_state option" where
  "wfi_run_one_trial y p i kind s =
     (case wfi_attempt_loop y p i kind 100 s of
        None \<Rightarrow> None
      | Some (armed, s1) \<Rightarrow> Some (checked armed ''arm window stretched 100 times, host too noisy'' s1))"

fun run_trials :: "wfi_labels \<Rightarrow> nat \<Rightarrow> nat \<Rightarrow> wfi_state \<Rightarrow> wfi_state option" where
  "run_trials y i 0 s = Some s"
| "run_trials y i (Suc k) s =
     (case wfi_run_one_trial y (0, i) i 0 s of
        None \<Rightarrow> None
      | Some s1 \<Rightarrow> (case wfi_run_one_trial y (1, i) i 1 s1 of
          None \<Rightarrow> None
        | Some s2 \<Rightarrow> run_trials y (Suc i) k s2))"


subsection \<open>Statistics\<close>

record stats =
  s_min :: u64
  s_p50 :: u64
  s_max :: u64
  s_mean :: u64

definition calc_stats :: "u64 list \<Rightarrow> u64 \<Rightarrow> wfi_state \<Rightarrow> (stats \<times> wfi_state) option" where
  "calc_stats vals n s =
     (case sort_asc vals n s of
        None \<Rightarrow> None
      | Some s1 \<Rightarrow>
          (case (load_at (sort_tmp s1) 0, load_at (sort_tmp s1) (unat (n - 1)), load_at (sort_tmp s1) (unat (n div 2)),
                 sum_loop 0 0 (unat n) (sort_tmp s1)) of
             (Some mn, Some mx, Some p50, Some sm) \<Rightarrow>
               Some (\<lparr>s_min = mn, s_p50 = p50, s_max = mx, s_mean = sm div n\<rparr>, s1)
           | _ \<Rightarrow> None))"

definition print_stats :: "string \<Rightarrow> u64 list \<Rightarrow> u64 \<Rightarrow> wfi_state \<Rightarrow> wfi_state option" where
  "print_stats name vals n s =
     (case calc_stats vals n s of
        None \<Rightarrow> None
      | Some (st, s1) \<Rightarrow>
          Some (emit [Str name, Str '': min='', Dec (s_min st), Str '' p50='', Dec (s_p50 st),
            Str '' max='', Dec (s_max st), Str '' mean='', Dec (s_mean st), Str ''\<newline>''] s1))"

definition hist_ticks :: "string \<Rightarrow> u64 list \<Rightarrow> u64 \<Rightarrow> wfi_state \<Rightarrow> wfi_state option" where
  "hist_ticks name vals n s =
     (case calc_stats vals n s of
        None \<Rightarrow> None
      | Some (st, s1) \<Rightarrow>
          hist_loop vals n (s_min st) (s_max st) (emit [Str name, Str '' (n='', Dec n, Str ''):\<newline>''] s1))"

text \<open>\<open>for (b = lo; b <= hi; b += width)\<close>\<close>

partial_function (option) bucket_loop :: "u64 list \<Rightarrow> u64 \<Rightarrow> u64 \<Rightarrow> u64 \<Rightarrow> u64 \<Rightarrow> wfi_state \<Rightarrow> wfi_state option" where
  "bucket_loop vals n width b hi s =
     (if b \<le> hi
      then case count_loop (\<lambda>x. b \<le> x \<and> x < b + width) 0 0 (unat n) vals of
             None \<Rightarrow> None
           | Some c \<Rightarrow> bucket_loop vals n width (b + width) hi
               (if 0 < c then emit [Str ''  '', Dec b, Str ''-'', Dec (b + width - 1), Str '': '', Dec c, Str ''\<newline>''] s else s)
      else Some s)"

definition hist_cyc :: "string \<Rightarrow> u64 list \<Rightarrow> u64 \<Rightarrow> u64 \<Rightarrow> wfi_state \<Rightarrow> wfi_state option" where
  "hist_cyc name vals n width s =
     (case calc_stats vals n s of
        None \<Rightarrow> None
      | Some (st, s1) \<Rightarrow>
          bucket_loop vals n width ((s_min st div width) * width) (s_max st)
            (emit [Str name, Str '' bucket='', Dec width, Str '' (n='', Dec n, Str ''):\<newline>''] s1))"


subsection \<open>Report\<close>

definition print_raw :: "string \<Rightarrow> rec_ptr \<Rightarrow> nat \<Rightarrow> wfi_state \<Rightarrow> wfi_state" where
  "print_raw tag p i s =
     (let r = rec_get p s in
      emit [Str ''raw '', Str tag, Str ''['', Dec (of_nat i), Str '']: cmp='', Hex (cmp r), Str '' t_pre='', Hex (t_pre r),
        Str '' c_pre='', Hex (c_pre r), Str '' t_entry='', Hex (t_entry r), Str '' c_entry='', Hex (c_entry r),
        Str '' t_resume='', Hex (t_resume r), Str '' c_resume='', Hex (c_resume r),
        Str '' mepc_before='', Hex (mepc_before r), Str '' mcause='', Hex (r_mcause r), Str ''\<newline>''] s)"

text \<open>The checks of one record; \<open>pos\<close> counts where \<open>wfi\<close> was found: at it, after it, elsewhere.\<close>

definition verify_stamps :: "trial_rec \<Rightarrow> wfi_state \<Rightarrow> wfi_state" where
  "verify_stamps r s =
     (let s1 = checked (r_mcause r = MCAUSE_MTI) ''mcause != machine timer interrupt'' s;
          s2 = checked (t_pre r < cmp r) ''interrupt already pending at trial start'' s1;
          s3 = checked (t_entry r \<ge> cmp r) ''trap entry mtime < mtimecmp'' s2;
          s4 = checked (t_resume r \<ge> t_entry r) ''resume tick < entry tick'' s3;
          s5 = checked (c_entry r > c_pre r) ''entry rdcycle <= pre rdcycle'' s4
      in checked (c_resume r > c_entry r) ''resume rdcycle <= entry rdcycle'' s5)"

definition verify_place :: "wfi_labels \<Rightarrow> bool \<Rightarrow> trial_rec \<Rightarrow> u64 \<times> u64 \<times> u64 \<Rightarrow> wfi_state \<Rightarrow> (u64 \<times> u64 \<times> u64) \<times> wfi_state" where
  "verify_place y is_wfi r pos s =
     (let resume = (if is_wfi then wfi_resume y else spin_resume y); (at_wfi, after_wfi, other) = pos
      in if is_wfi
         then if mepc_before r = resume - 4 then ((at_wfi + 1, after_wfi, other), s)
              else if mepc_before r = resume then ((at_wfi, after_wfi + 1, other), s)
              else ((at_wfi, after_wfi, other + 1), checked False ''wfi mepc_before not at/after wfi'' s)
         else (pos, checked (mepc_before r \<ge> spin_loop y \<and> mepc_before r < resume)
                 ''spin mepc_before outside spin loop'' s))"

definition store_metrics :: "u64 \<Rightarrow> trial_rec \<Rightarrow> wfi_state \<Rightarrow> wfi_state option" where
  "store_metrics n r s =
     (case (store_at (m_w2r s) (unat n) (t_resume r - cmp r), store_at (m_w2e s) (unat n) (t_entry r - cmp r),
            store_at (m_e2r s) (unat n) (t_resume r - t_entry r), store_at (m_cyc s) (unat n) (c_resume r - c_entry r)) of
        (Some a, Some b, Some c, Some d) \<Rightarrow> Some (s\<lparr>m_w2r := a, m_w2e := b, m_e2r := c, m_cyc := d\<rparr>)
      | _ \<Rightarrow> None)"

fun verify_loop :: "wfi_labels \<Rightarrow> bool \<Rightarrow> trial_rec list \<Rightarrow> nat \<Rightarrow> nat \<Rightarrow> u64 \<Rightarrow> u64 \<times> u64 \<times> u64 \<Rightarrow> wfi_state \<Rightarrow>
    (u64 \<times> (u64 \<times> u64 \<times> u64) \<times> wfi_state) option" where
  "verify_loop y is_wfi rec i 0 n pos s = Some (n, pos, s)"
| "verify_loop y is_wfi rec i (Suc k) n pos s =
     (case load_at rec i of
        None \<Rightarrow> None
      | Some r \<Rightarrow>
          (let (pos', s1) = verify_place y is_wfi r pos (verify_stamps r s)
           in if i \<ge> WFI_WARMUP
              then (case store_metrics n r s1 of
                      None \<Rightarrow> None
                    | Some s2 \<Rightarrow> verify_loop y is_wfi rec (Suc i) k (n + 1) pos' s2)
              else verify_loop y is_wfi rec (Suc i) k n pos' s1))"

definition verify_kind :: "wfi_labels \<Rightarrow> string \<Rightarrow> trial_rec list \<Rightarrow> bool \<Rightarrow> wfi_state \<Rightarrow> (u64 \<times> wfi_state) option" where
  "verify_kind y tag rec is_wfi s =
     (case verify_loop y is_wfi rec 0 WFI_NTRIALS 0 (0, 0, 0) s of
        None \<Rightarrow> None
      | Some (n, (at_wfi, after_wfi, other), s1) \<Rightarrow>
          Some (n, emit [Str tag, Str '': mepc_before at_wfi='', Dec at_wfi, Str '' after_wfi='', Dec after_wfi,
            Str '' other='', Dec other, Str ''\<newline>''] s1))"

definition report_counts :: "wfi_state \<Rightarrow> wfi_state" where
  "report_counts s =
     (let expected = 2 * of_nat WFI_NTRIALS + arm_retries s;
          s1 = emit [Str ''trap_count='', Dec (wfi_trap_count s), Str '' (expected '', Dec expected,
                 Str '', arm retries='', Dec (arm_retries s), Str '')\<newline>''] s;
          s2 = checked (wfi_trap_count s1 = expected) ''trap count mismatch'' s1;
          s3 = checked (wfi_bad_seen s2 = 0) ''unexpected trap seen'' s2;
          s4 = (if wfi_bad_seen s3 \<noteq> 0
                then emit [Str ''bad trap: mcause='', Hex (wfi_bad_mcause s3), Str '' mepc='', Hex (wfi_bad_mepc s3),
                       Str ''\<newline>''] s3
                else s3)
      in print_raw ''spin'' (1, 1) 1 (print_raw ''spin'' (1, 0) 0
           (print_raw ''wfi'' (0, 1) 1 (print_raw ''wfi'' (0, 0) 0 s4))))"

text \<open>The statistics of one kind, once its records are verified.\<close>

definition report_kind :: "wfi_labels \<Rightarrow> string \<Rightarrow> string \<Rightarrow> trial_rec list \<Rightarrow> bool \<Rightarrow> wfi_state \<Rightarrow> wfi_state option" where
  "report_kind y title tag rec is_wfi s = do {
     (n, s1) \<leftarrow> verify_kind y tag rec is_wfi (emit [Str title] s);
     s2 \<leftarrow> print_stats ''wake_to_resume_ticks '' (m_w2r s1) n s1;
     s3 \<leftarrow> print_stats ''wake_to_entry_ticks  '' (m_w2e s2) n s2;
     s4 \<leftarrow> print_stats ''entry_to_resume_ticks'' (m_e2r s3) n s3;
     s5 \<leftarrow> print_stats ''trap_rdcycle_units   '' (m_cyc s4) n s4;
     s6 \<leftarrow> hist_ticks ''hist wake_to_resume_ticks'' (m_w2r s5) n s5;
     hist_cyc ''hist trap_rdcycle_units'' (m_cyc s6) n 150 s6 }"

definition wfi_report :: "wfi_labels \<Rightarrow> wfi_state \<Rightarrow> wfi_state option" where
  "wfi_report y s = do {
     s1 \<leftarrow> report_kind y ''--- wfi ---\<newline>'' ''wfi'' (wfi_rec s) True (report_counts s);
     s2 \<leftarrow> report_kind y ''--- spin baseline ---\<newline>'' ''spin'' (spin_rec s1) False s1;
     Some (result_line s2) }"

definition wfi_main :: "wfi_labels \<Rightarrow> wfi_state \<Rightarrow> wfi_state option" where
  "wfi_main y s =
     (let s1 = emit [Str ''wfi-latency: CLINT timer wakeup latency (backlog item 28)\<newline>'',
                 Str ''mhartid='', Dec (rd_mhartid s), Str ''\<newline>''] s;
          s2 = s1\<lparr>hw := csr_write Mscratch (wfi_save y) (csr_write Mtvec (wfi_trap_entry y) (hw s1))\<rparr>;
          mtvec = csr_read Mtvec (hw s2);
          s3 = emit [Str ''mtvec='', Hex mtvec, Str '' mscratch='', Hex (wfi_save y), Str ''\<newline>''] s2;
          s4 = set_mtimecmp (- 1) (checked (mtvec AND 3 = 0) ''mtvec not in direct mode'' s3);
          s5 = s4\<lparr>hw := csr_write Mie (csr_read Mie (hw s4) OR 0x80) (hw s4)\<rparr>
      in do {
        s6 \<leftarrow> wfi_calibration s5;
        s7 \<leftarrow> run_trials y 0 WFI_NTRIALS (emit [Str ''trials: 400 wfi + 400 spin, mtimecmp = mtime+'',
                Dec WFI_AHEAD_TICKS, Str '' ticks, first 8 of each discarded\<newline>''] s6);
        s8 \<leftarrow> wfi_report y s7;
        Some (emit [Str ''done\<newline>''] s8) })"


subsection \<open>Accounting of the traps\<close>

text \<open>
  What a trial keeps, and how it counts. \<open>tally\<close> is what the report compares: traps taken less arm
  retries. With a machine timer interrupt in every window, one trial adds one to it.
\<close>

definition timer_only :: "wfi_state \<Rightarrow> bool" where
  "timer_only s \<longleftrightarrow> (\<forall>k. \<exists>e. traps s k = Some (MCAUSE_MTI, e))"

definition tally :: "wfi_state \<Rightarrow> u64" where
  "tally s = wfi_trap_count s - arm_retries s"

definition same_run :: "wfi_state \<Rightarrow> wfi_state \<Rightarrow> bool" where
  "same_run s s' \<longleftrightarrow> traps s' = traps s \<and> wfi_bad_seen s' = wfi_bad_seen s \<and>
     length (wfi_rec s') = length (wfi_rec s) \<and> length (spin_rec s') = length (spin_rec s)"

lemma same_run_trans: "same_run a b \<Longrightarrow> same_run b c \<Longrightarrow> same_run a c"
  by (simp add: same_run_def)

lemma same_run_timer: "same_run s s' \<Longrightarrow> timer_only s \<Longrightarrow> timer_only s'"
  by (simp add: same_run_def timer_only_def)

lemma rec_upd_frame [simp]:
  "traps (rec_upd p f s) = traps s" "ntraps (rec_upd p f s) = ntraps s" "fails (rec_upd p f s) = fails s"
  "wfi_bad_seen (rec_upd p f s) = wfi_bad_seen s" "wfi_trap_count (rec_upd p f s) = wfi_trap_count s"
  "arm_retries (rec_upd p f s) = arm_retries s" "wfi_current_kind (rec_upd p f s) = wfi_current_kind s"
  "wfi_trial_idx (rec_upd p f s) = wfi_trial_idx s"
  "length (wfi_rec (rec_upd p f s)) = length (wfi_rec s)" "length (spin_rec (rec_upd p f s)) = length (spin_rec s)"
  by (cases p; simp)+

lemmas trial_unfolds = rd_time_def rd_cycle_def set_mtimecmp_def open_window_def close_window_def resume_stamps_def
  Let_def split_beta

lemma window_takes_trap:
  assumes "timer_only s" "wfi_trial_idx s < 400"
  shows "\<exists>s'. deliver (wfi_trap_handler y) s =
      Some (if wfi_current_kind s = 0 then wfi_resume y else spin_resume y, s') \<and>
    same_run s s' \<and> fails s' = fails s \<and> arm_retries s' = arm_retries s \<and> wfi_trap_count s' = wfi_trap_count s + 1"
proof -
  obtain e where "traps s (ntraps s) = Some (MCAUSE_MTI, e)" using assms(1) by (auto simp: timer_only_def)
  then show ?thesis
    using assms(2) by (simp add: deliver_def wfi_trap_handler_def trial_unfolds same_run_def not_le)
qed

lemma trial_counts:
  assumes "timer_only s" "wfi_trial_idx s < 400" "kind = 0 \<longleftrightarrow> wfi_current_kind s = 0"
  shows "\<exists>s'. (if kind = 0 then wfi_trial y p s else spin_trial y p s) = Some s' \<and>
    same_run s s' \<and> fails s' = fails s \<and> arm_retries s' = arm_retries s \<and> wfi_trap_count s' = wfi_trap_count s + 1"
proof -
  let ?o = "open_window (snd (rd_cycle (snd (rd_time (if kind = 0 then s else s\<lparr>wfi_spin_flag := 0\<rparr>)))))"
  have o: "timer_only ?o" "wfi_trial_idx ?o < 400" "wfi_current_kind ?o = wfi_current_kind s" "same_run s ?o"
    "fails ?o = fails s" "arm_retries ?o = arm_retries s" "wfi_trap_count ?o = wfi_trap_count s"
    using assms(1,2) by (simp_all add: trial_unfolds timer_only_def same_run_def)
  from window_takes_trap [OF o(1,2), of y] obtain s1 where
    "deliver (wfi_trap_handler y) ?o = Some (if kind = 0 then wfi_resume y else spin_resume y, s1)"
    "same_run ?o s1" "fails s1 = fails s" "arm_retries s1 = arm_retries s" "wfi_trap_count s1 = wfi_trap_count s + 1"
    using assms(3) o by auto
  moreover from this(2) have "same_run s s1" using o(4) same_run_trans by blast
  ultimately show ?thesis
    by (auto simp: wfi_trial_def spin_trial_def split_beta Let_def resume_stamps_def close_window_def rd_time_def
        rd_cycle_def same_run_def split: if_splits)
qed

lemma attempts_count:
  assumes "timer_only s" "i < 400"
  shows "\<exists>armed s'. wfi_attempt_loop y p i kind k s = Some (armed, s') \<and> same_run s s' \<and> fails s' = fails s \<and>
    tally s' = tally s + of_bool armed"
  using assms(1)
proof (induction k arbitrary: s)
  case 0
  show ?case by (intro exI [of _ False] exI [of _ s]) (simp add: same_run_def)
next
  case (Suc k)
  let ?a = "set_mtimecmp (cmp (rec_get p (rec_upd p (\<lambda>r. r\<lparr>cmp := fst (rd_time (s\<lparr>wfi_current_kind := kind,
      wfi_trial_idx := of_nat i\<rparr>)) + 20000\<rparr>) (snd (rd_time (s\<lparr>wfi_current_kind := kind, wfi_trial_idx := of_nat i\<rparr>))))))
    (rec_upd p (\<lambda>r. r\<lparr>cmp := fst (rd_time (s\<lparr>wfi_current_kind := kind,
      wfi_trial_idx := of_nat i\<rparr>)) + 20000\<rparr>) (snd (rd_time (s\<lparr>wfi_current_kind := kind, wfi_trial_idx := of_nat i\<rparr>))))"
  have "unat (of_nat i :: u64) = i" using assms(2) by (simp add: unat_of_nat take_bit_nat_eq_self)
  then have "(of_nat i :: u64) < 400" using assms(2) by (simp add: word_less_nat_alt)
  then have a: "timer_only ?a" "wfi_trial_idx ?a < 400" "kind = 0 \<longleftrightarrow> wfi_current_kind ?a = 0" "same_run s ?a"
    "fails ?a = fails s" "arm_retries ?a = arm_retries s" "wfi_trap_count ?a = wfi_trap_count s"
    using Suc.prems by (simp_all add: timer_only_def same_run_def rd_time_def set_mtimecmp_def)
  obtain s1 where s1: "(if kind = 0 then wfi_trial y p ?a else spin_trial y p ?a) = Some s1" "same_run ?a s1"
    "fails s1 = fails s" "arm_retries s1 = arm_retries s" "wfi_trap_count s1 = wfi_trap_count s + 1"
    using trial_counts [OF a(1-3), of y p] a(5-7) by auto
  have run: "same_run s s1" using a(4) s1(2) same_run_trans by blast
  have step: "wfi_attempt_loop y p i kind (Suc k) s =
      (if t_pre (rec_get p s1) < cmp (rec_get p s1) then Some (True, s1)
       else wfi_attempt_loop y p i kind k (s1\<lparr>arm_retries := arm_retries s1 + 1\<rparr>))"
    using s1(1) by (simp add: Let_def split_beta)
  show ?case
  proof (cases "t_pre (rec_get p s1) < cmp (rec_get p s1)")
    case True
    then show ?thesis using step run s1(3-5) by (intro exI [of _ True] exI [of _ s1]) (simp add: tally_def)
  next
    case False
    let ?s2 = "s1\<lparr>arm_retries := arm_retries s1 + 1\<rparr>"
    have r2: "same_run s ?s2" using run by (simp add: same_run_def)
    obtain armed s' where "wfi_attempt_loop y p i kind k ?s2 = Some (armed, s')" "same_run ?s2 s'" "fails s' = fails ?s2"
      "tally s' = tally ?s2 + of_bool armed"
      using Suc.IH [OF same_run_timer [OF r2 Suc.prems]] by blast
    moreover from this(2) have "same_run s s'" using same_run_trans [OF r2] by blast
    ultimately show ?thesis using step False s1(3-5) by (intro exI [of _ armed] exI [of _ s']) (simp add: tally_def)
  qed
qed

text \<open>
  The whole run: if a timer interrupt arrives in every window, all trials finish, whatever the clock
  does. Each record that could not be armed in time costs one failed check; if there is none, the tally is the number of
  trials, which is what \<open>report\<close> expects.
\<close>

lemma one_trial_counts:
  assumes "timer_only s" "i < 400"
  shows "\<exists>armed s'. wfi_run_one_trial y p i kind s = Some s' \<and> same_run s s' \<and> fails s' = fails s + of_bool (\<not> armed) \<and>
    tally s' = tally s + of_bool armed"
  using attempts_count [OF assms, of y p kind 100]
  by (auto simp: wfi_run_one_trial_def same_run_def tally_def checked_def emit_def)

lemma run_trials_count:
  assumes "timer_only s" "i + k \<le> 400"
  shows "\<exists>s' m. run_trials y i k s = Some s' \<and> same_run s s' \<and> m \<le> 2 * k \<and> fails s' = fails s + (2 * k - m) \<and>
    tally s' = tally s + of_nat m"
  using assms
proof (induction k arbitrary: i s)
  case 0
  then show ?case by (simp add: same_run_def)
next
  case (Suc k)
  then have i: "i < 400" by simp
  obtain a s1 where s1: "wfi_run_one_trial y (0, i) i 0 s = Some s1" "same_run s s1" "fails s1 = fails s + of_bool (\<not> a)"
    "tally s1 = tally s + of_bool a"
    using one_trial_counts [OF Suc.prems(1) i] by blast
  obtain b s2 where s2: "wfi_run_one_trial y (1, i) i 1 s1 = Some s2" "same_run s1 s2" "fails s2 = fails s1 + of_bool (\<not> b)"
    "tally s2 = tally s1 + of_bool b"
    using one_trial_counts [OF same_run_timer [OF s1(2) Suc.prems(1)] i] by blast
  note r = same_run_trans [OF s1(2) s2(2)]
  obtain s' m where s': "run_trials y (Suc i) k s2 = Some s'" "same_run s2 s'" "m \<le> 2 * k"
    "fails s' = fails s2 + (2 * k - m)" "tally s' = tally s2 + of_nat m"
    using Suc.IH [OF same_run_timer [OF r Suc.prems(1)], of "Suc i"] Suc.prems(2) by auto
  let ?m = "m + of_bool a + of_bool b"
  have "fails s' = fails s + (2 * Suc k - ?m)" "tally s' = tally s + of_nat ?m" "?m \<le> 2 * Suc k"
    using s' s1(3,4) s2(3,4) by (auto simp: of_bool_def)
  then show ?case using s1(1) s2(1) s'(1) same_run_trans [OF r s'(2)] by auto
qed

end
