(* ===== verification/Modes.thy ===== *)
theory Modes
  imports Pmp
begin

text \<open>
  Programs that move between M-, S- and U-mode. A program is a table of code blocks by address. A block
  runs to its next control transfer, a trap, a trap return or a jump, which sets the privilege mode and the program counter of
  the hart; the next block is the one at that address. So which block runs next follows from the
  vectors, the delegation register and the return addresses the program has written, and not
  from the order in which the source lists its phases.

  The instruction at the address of a block is fetched through the PMP check. Instruction fetches inside a block and the
  data accesses of C code are not checked.
\<close>

unbundle bit_operations_syntax


subsection \<open>Traps and counters\<close>

text \<open>An exception is delegated to S-mode when it comes from below M-mode and its \<open>medeleg\<close> bit is set.\<close>

definition route :: "nat \<Rightarrow> u64 \<Rightarrow> u64 \<Rightarrow> hart \<Rightarrow> hart" where
  "route cause epc tval h =
     (if priv h \<noteq> MMode \<and> bit (csrf h Medeleg) cause then trap_to_s (of_nat cause) epc tval h
      else trap_to_m (of_nat cause) epc tval h)"

text \<open>The user counters, their enable bit in \<open>mcounteren\<close> and \<open>scounteren\<close>, and what they read.\<close>

datatype counter = CY | TM | IR

definition gate_bit :: "counter \<Rightarrow> nat" where
  "gate_bit c = (case c of CY \<Rightarrow> 0 | TM \<Rightarrow> 1 | IR \<Rightarrow> 2)"

definition counter_value :: "counter \<Rightarrow> hart \<Rightarrow> u64" where
  "counter_value c h = (case c of CY \<Rightarrow> snd (clock h (retired h)) | TM \<Rightarrow> fst (clock h (retired h))
     | IR \<Rightarrow> instret h (retired h))"

definition counter_open :: "counter \<Rightarrow> hart \<Rightarrow> bool" where
  "counter_open c h \<longleftrightarrow> priv h = MMode \<or>
     bit (csrf h Mcounteren) (gate_bit c) \<and> (priv h = SMode \<or> bit (csrf h Scounteren) (gate_bit c))"


subsection \<open>Statements\<close>

text \<open>\<open>parked\<close>: the hart is in a \<open>wfi\<close> loop with no interrupt enabled. \<open>stuck\<close>: it has left the modelled code.\<close>

record modes = probe +
  parked :: bool
  stuck :: bool

definition on_hart :: "(hart \<Rightarrow> hart) \<Rightarrow> ('x, unit) prog" where
  "on_hart f = State (\<lambda>s. ((), s\<lparr>hw := f (hw s)\<rparr>))"

definition goto :: "u64 \<Rightarrow> ('x, unit) prog" where
  "goto a = on_hart (\<lambda>h. h\<lparr>pc := a\<rparr>)"

definition get_reg :: "nat \<Rightarrow> ('x, u64) prog" where
  "get_reg r = State (\<lambda>s. (reg_get r (hw s), s))"

definition put_reg :: "nat \<Rightarrow> u64 \<Rightarrow> ('x, unit) prog" where
  "put_reg r v = on_hart (reg_set r v)"

definition csrs :: "csr \<Rightarrow> u64 \<Rightarrow> ('x, unit) prog" where
  "csrs c v = on_hart (\<lambda>h. csr_write c (csr_read c h OR v) h)"

definition csrc :: "csr \<Rightarrow> u64 \<Rightarrow> ('x, unit) prog" where
  "csrc c v = on_hart (\<lambda>h. csr_write c (csr_read c h AND NOT v) h)"

definition sret :: "('x, unit) prog" where
  "sret = on_hart do_sret"

definition park :: "(('y modes_ext), unit) prog" where
  "park = State (\<lambda>s. ((), s\<lparr>parked := True\<rparr>))"

definition ecall :: "u64 \<Rightarrow> ('x, unit) prog" where
  "ecall site = on_hart (\<lambda>h. route (case priv h of UMode \<Rightarrow> 8 | SMode \<Rightarrow> 9 | MMode \<Rightarrow> 11) site 0 h)"

text \<open>A counter read at \<open>site\<close>: it retires, or it is an illegal instruction.\<close>

definition rd_counter :: "counter \<Rightarrow> nat \<Rightarrow> u64 \<Rightarrow> u64 \<Rightarrow> ('x, unit) prog" where
  "rd_counter c r site insn = on_hart (\<lambda>h.
     if counter_open c h then (retire (reg_set r (counter_value c h) h))\<lparr>pc := site + 4\<rparr>
     else route 2 site insn h)"

text \<open>
  \<open>csrw mepc; mstatus.MPP = 01; mret\<close> and \<open>csrw sepc; sstatus.SPP = 0; sret\<close>, as every program of this kind
  has them. \<open>drop_to_smode\<close> leaves \<open>0x800\<close> in t1, which nothing reads.
\<close>

definition drop_to_smode :: "u64 \<Rightarrow> ('x, unit) prog" where
  "drop_to_smode driver = do {
     csrw Mepc driver;
     v \<leftarrow> csrr Mstatus;
     csrw Mstatus ((v AND NOT 0x1800) OR 0x800);
     mret }"

definition drop_to_umode :: "u64 \<Rightarrow> ('x, unit) prog" where
  "drop_to_umode payload = do { csrw Sepc payload; csrc Sstatus 0x100; sret }"

text \<open>\<open>uart_put_hex64\<close>: sixteen digits.\<close>

definition hex64 :: "u64 \<Rightarrow> string" where
  "hex64 v = ''0x'' @ map (\<lambda>i. ''0123456789abcdef'' ! unat (drop_bit (4 * i) v AND 15)) (rev [0..<16])"


subsection \<open>Running a table of blocks\<close>

type_synonym 'y block = "('y modes_ext, unit) prog"

definition mode_step :: "(u64 \<times> 'y block) list \<Rightarrow> 'y modes_scheme \<Rightarrow> 'y modes_scheme option" where
  "mode_step code s =
     (if parked s \<or> stuck s then None
      else let a = pc (hw s) in
        if \<not> pmp_allows (hw s) Exec a 4 then Some (s\<lparr>hw := route 1 a a (hw s)\<rparr>)
        else (case map_of code a of None \<Rightarrow> None | Some p \<Rightarrow> Some (final p s)))"

inductive runs :: "(u64 \<times> 'y block) list \<Rightarrow> 'y modes_scheme \<Rightarrow> 'y modes_scheme \<Rightarrow> bool" for code where
  runs_refl: "runs code s s"
| runs_step: "mode_step code s = Some t \<Longrightarrow> runs code t u \<Longrightarrow> runs code s u"

inductive_cases runs_stopE: "runs code s t"

lemma runs_trans: "runs code s t \<Longrightarrow> runs code t u \<Longrightarrow> runs code s u"
  by (induction rule: runs.induct) (auto intro: runs.intros)

lemma runs_one: "mode_step code s = Some t \<Longrightarrow> runs code s t"
  by (blast intro: runs.intros)

text \<open>The machine is deterministic: a run that stops is the only one that does.\<close>

lemma runs_unique:
  "runs code s t \<Longrightarrow> mode_step code t = None \<Longrightarrow> runs code s u \<Longrightarrow> mode_step code u = None \<Longrightarrow> u = t"
proof (induction rule: runs.induct)
  case (runs_refl s)
  then show ?case by (auto elim: runs_stopE)
next
  case (runs_step s t u')
  from runs_step.prems(2) have "runs code t u"
  proof (cases rule: runs.cases)
    case runs_refl
    with runs_step.hyps(1) runs_step.prems(3) show ?thesis by simp
  next
    case (runs_step v)
    with \<open>mode_step code s = Some t\<close> show ?thesis by simp
  qed
  with runs_step show ?case by blast
qed

lemma block_step:
  assumes "\<not> parked s" "\<not> stuck s" "pmp_allows (hw s) Exec (pc (hw s)) 4"
    and "distinct (map fst code)" "(pc (hw s), p) \<in> set code"
  shows "mode_step code s = Some (final p s)"
  using assms by (simp add: mode_step_def)


subsection \<open>Facts about the hart\<close>

text \<open>
  An open PMP: entry 0 is NAPOT over everything with all permissions. A hart keeps all ones in \<open>pmpaddr0\<close>, or the
  54 bits of a physical address; either covers every address below \<open>2 ^ 56\<close>.
\<close>

definition pmp_everything :: "hart \<Rightarrow> bool" where
  "pmp_everything h \<longleftrightarrow> csrf h Pmpaddr0 \<in> {- 1, mask 54} \<and> csrf h Pmpcfg0 = 0x1f"

lemma napot_all:
  assumes "unat a < 2 ^ 56" "pa \<in> {- 1, mask 54 :: u64}"
  shows "napot_match pa a"
proof (cases "pa = - 1")
  case True
  then show ?thesis by (simp add: napot_match_def Let_def)
next
  case False
  with assms(2) have pa: "pa = mask 54" by simp
  have "pa XOR (pa + 1) = (mask 55 :: u64)" unfolding pa by (simp add: mask_eq_exp_minus_1)
  moreover have "\<not> bit (drop_bit 2 a) i" if "55 \<le> i" for i
    using small_bits [OF assms(1), of "2 + i"] that by (simp add: bit_drop_bit_eq)
  ultimately show ?thesis unfolding napot_match_def Let_def pa
    by (intro bit_word_eqI) (auto simp: bit_simps)
qed

lemma pmp_everything_allows:
  assumes h: "pmp_everything h" and n: "0 < n" and a: "unat a + n \<le> 2 ^ 56"
  shows "pmp_allows h k a n"
proof -
  have m: "pmp_match h (a + of_nat j) 0" if "j < n" for j
  proof -
    have "unat (a + of_nat j) < 2 ^ 56"
      using that a by (simp add: unat_word_ariths unat_of_nat take_bit_nat_eq_self)
    with h show ?thesis
      by (simp add: pmp_everything_def pmp_match_def pmp_cfg_def pmp_addr_def Let_def napot_all)
  qed
  have "find (\<lambda>i. list_ex (\<lambda>b. pmp_match h b i) (map (\<lambda>j. a + of_nat j) [0..<n])) [0, 1] = Some 0"
    using n m by (auto simp: list_ex_iff)
  moreover have "bit (pmp_cfg h 0) (perm_bit k)"
    using h by (cases k; simp add: pmp_cfg_def pmp_everything_def perm_bit_def)
  ultimately show ?thesis by (simp add: pmp_allows_def Let_def list_all_iff m)
qed

text \<open>What a hart has to keep of the values written: a CSR takes a value, or keeps some bits of every value.\<close>

definition takes :: "hart \<Rightarrow> csr \<Rightarrow> u64 \<Rightarrow> bool" where
  "takes h c v \<longleftrightarrow> (\<forall>old. legal h c old v = v)"

definition keeps_bits :: "hart \<Rightarrow> csr \<Rightarrow> nat set \<Rightarrow> bool" where
  "keeps_bits h c B \<longleftrightarrow> (\<forall>old v. \<forall>i \<in> B. bit (legal h c old v) i = bit v i)"


subsection \<open>Running statements\<close>

lemma run_modes [simp]:
  "run_state (on_hart f) s = ((), s\<lparr>hw := f (hw s)\<rparr>)"
  "run_state (goto a) s = ((), s\<lparr>hw := (hw s)\<lparr>pc := a\<rparr>\<rparr>)"
  "run_state (get_reg r) s = (reg_get r (hw s), s)"
  "run_state (put_reg r v) s = ((), s\<lparr>hw := reg_set r v (hw s)\<rparr>)"
  "run_state (csrs c v) s = ((), s\<lparr>hw := csr_write c (csr_read c (hw s) OR v) (hw s)\<rparr>)"
  "run_state (csrc c v) s = ((), s\<lparr>hw := csr_write c (csr_read c (hw s) AND NOT v) (hw s)\<rparr>)"
  "run_state sret s = ((), s\<lparr>hw := do_sret (hw s)\<rparr>)"
  by (simp_all add: on_hart_def goto_def get_reg_def put_reg_def csrs_def csrc_def sret_def)

lemma run_park [simp]: "run_state park s = ((), s\<lparr>parked := True\<rparr>)"
  by (simp add: park_def)

lemmas modes_exec = run_modes [THEN exec_step] run_park [THEN exec_step]

lemma emit_modes [simp]: "parked (emit ps s) = parked s" "stuck (emit ps s) = stuck s"
  by (simp_all add: emit_def)

lemma checked_modes [simp]: "parked (checked b msg s) = parked s" "stuck (checked b msg s) = stuck s"
  by (simp_all add: checked_def)


subsection \<open>What traps and returns keep\<close>

text \<open>Two harts with the same counters and legalisation whose CSRs differ in the trap registers and \<open>mstatus\<close> only.\<close>

definition same_config :: "hart \<Rightarrow> hart \<Rightarrow> bool" where
  "same_config h h' \<longleftrightarrow> legal h' = legal h \<and> clock h' = clock h \<and> instret h' = instret h \<and>
     (\<forall>c. c \<notin> {Mstatus, Mepc, Mcause, Mtval, Sepc, Scause, Stval} \<longrightarrow> csrf h' c = csrf h c)"

lemma same_config_refl [simp]: "same_config h h"
  by (simp add: same_config_def)

lemma same_config_trans: "same_config a b \<Longrightarrow> same_config b c \<Longrightarrow> same_config a c"
  by (simp add: same_config_def)

lemma same_config_steps [simp]:
  "same_config a (trap_to_s x y z h) = same_config a h" "same_config a (trap_to_m x y z h) = same_config a h"
  "same_config a (do_mret h) = same_config a h" "same_config a (do_sret h) = same_config a h"
  "same_config a (reg_set r v h) = same_config a h" "same_config a (retire h) = same_config a h"
  "same_config a (h\<lparr>pc := v\<rparr>) = same_config a h"
  "same_config a (route n y z h) = same_config a h"
  by (simp_all add: same_config_def trap_to_s_def trap_to_m_def do_mret_def do_sret_def reg_set_def retire_def route_def)

lemma same_config_writes [simp]:
  "same_config a (csr_write Sepc v h) = same_config a h" "same_config a (csr_write Mepc v h) = same_config a h"
  "same_config a (csr_write Mstatus v h) = same_config a h" "same_config a (csr_write Sstatus v h) = same_config a h"
  "same_config a (csr_store Sepc v h) = same_config a h" "same_config a (csr_store Mepc v h) = same_config a h"
  "same_config a (csr_store Mstatus v h) = same_config a h"
  by (simp_all add: same_config_def csr_store_def)

lemma same_config_simps:
  assumes "same_config h h'"
  shows "legal h' = legal h" "clock h' = clock h" "instret h' = instret h"
    "c \<notin> {Mstatus, Mepc, Mcause, Mtval, Sepc, Scause, Stval} \<Longrightarrow> csrf h' c = csrf h c"
    "takes h' d v = takes h d v" "keeps_bits h' d B = keeps_bits h d B" "pmp_everything h' = pmp_everything h"
  using assms by (simp_all add: same_config_def takes_def keeps_bits_def pmp_everything_def)

text \<open>The general registers over traps and returns.\<close>

lemma csr_write_regs [simp]:
  "reg_get r (csr_write c v h) = reg_get r h" "retired (csr_write c v h) = retired h"
  "reg_get r (csr_store c v h) = reg_get r h" "retired (csr_store c v h) = retired h"
  "clock (csr_store c v h) = clock h" "instret (csr_store c v h) = instret h" "priv (csr_store c v h) = priv h" "pc (csr_store c v h) = pc h"
  by (cases c; simp add: machine_simps)+

lemma reg_get_modes [simp]:
  "reg_get r (trap_to_s x y z h) = reg_get r h" "reg_get r (trap_to_m x y z h) = reg_get r h"
  "reg_get r (do_mret h) = reg_get r h" "reg_get r (do_sret h) = reg_get r h"
  "reg_get r (h\<lparr>pc := a\<rparr>) = reg_get r h"
  "reg_get r (retire h) = reg_get r h"
  "reg_get r (reg_set q v h) = (if r = q \<and> q \<noteq> 0 then v else reg_get r h)"
  "retired (trap_to_s x y z h) = retired h" "retired (do_sret h) = retired h"
  "retired (reg_set q v h) = retired h" "retired (retire h) = Suc (retired h)"
  "priv (reg_set q v h) = priv h" "priv (retire h) = priv h"
  "retired (trap_to_m x y z h) = retired h" "retired (do_mret h) = retired h"
  by (simp_all add: reg_get_def trap_to_s_def trap_to_m_def do_mret_def do_sret_def reg_set_def retire_def)

lemma keeps_bitsD: "keeps_bits h c B \<Longrightarrow> i \<in> B \<Longrightarrow> bit (legal h c old v) i = bit v i"
  by (simp add: keeps_bits_def)

text \<open>The status bits that steer a trap return: MPP, SPP.\<close>

abbreviation (input) STEER :: "nat set" where "STEER \<equiv> {8, 11, 12}"

lemma smode_drop:
  assumes "keeps_bits h Mstatus STEER" "takes h Mepc a"
  defines "h' \<equiv> do_mret (csr_write Mstatus ((csr_read Mstatus (csr_write Mepc a h) AND NOT 0x1800) OR 0x800)
     (csr_write Mepc a h))"
  shows "priv h' = SMode" "pc h' = a" "same_config h h'" "reg_get r h' = reg_get r h"
proof -
  have "bit (csrf (csr_write Mstatus ((csr_read Mstatus (csr_write Mepc a h) AND NOT 0x1800) OR 0x800)
     (csr_write Mepc a h)) Mstatus) i = (i = 11)" if "i \<in> {11, 12}" for i
    using that keeps_bitsD [OF assms(1)] by (auto simp: csr_store_def bit_simps)
  then show "priv h' = SMode" by (simp add: h'_def do_mret_def mpp_of_def)
  show "pc h' = a" using assms(2) by (simp add: h'_def do_mret_def csr_store_def takes_def)
qed (simp_all add: h'_def)

lemma umode_drop:
  assumes "keeps_bits h Mstatus STEER" "takes h Sepc a"
  defines "h1 \<equiv> csr_write Sepc a h"
  defines "h' \<equiv> do_sret (csr_write Sstatus (csr_read Sstatus h1 AND NOT 0x100) h1)"
  shows "priv h' = UMode" "pc h' = a" "same_config h h'" "reg_get r h' = reg_get r h" "retired h' = retired h"
proof -
  have "\<not> bit (csrf (csr_write Sstatus (csr_read Sstatus h1 AND NOT 0x100) h1) Mstatus) 8"
    using keeps_bitsD [OF assms(1), of 8] by (simp add: h1_def csr_store_def sstatus_mask_def bit_simps)
  then show "priv h' = UMode" by (simp add: h'_def do_sret_def)
  show "pc h' = a" using assms(2) by (simp add: h'_def h1_def do_sret_def csr_store_def takes_def)
qed (simp_all add: h'_def h1_def)

text \<open>Return from an S-mode trap entry, with SPP set by the dispatcher or as the trap left it.\<close>

lemma sret_to_smode:
  assumes "keeps_bits h Mstatus STEER" "takes h Sepc a"
  defines "h1 \<equiv> csr_write Sstatus (csr_read Sstatus h OR 0x100) h"
  shows "priv (do_sret (reg_set q v (reg_set r w (csr_write Sepc a h1)))) = SMode"
    "pc (do_sret (reg_set q v (reg_set r w (csr_write Sepc a h1)))) = a"
proof -
  have "bit (csrf h1 Mstatus) 8"
    using keeps_bitsD [OF assms(1), of 8] by (simp add: h1_def csr_store_def sstatus_mask_def bit_simps)
  then show "priv (do_sret (reg_set q v (reg_set r w (csr_write Sepc a h1)))) = SMode"
    by (simp add: do_sret_def reg_set_def csr_store_def)
  show "pc (do_sret (reg_set q v (reg_set r w (csr_write Sepc a h1)))) = a"
    using assms(2) by (simp add: h1_def do_sret_def csr_store_def takes_def reg_set_def)
qed

lemma sret_to_umode:
  assumes "priv h = UMode" "takes h Sepc a"
  shows "priv (do_sret (reg_set q v (reg_set r w (csr_write Sepc a (trap_to_s x y z h))))) = UMode"
    "pc (do_sret (reg_set q v (reg_set r w (csr_write Sepc a (trap_to_s x y z h))))) = a"
  using assms by (simp_all add: do_sret_def reg_set_def csr_store_def trap_to_s_def takes_def bit_put_bit)

end
