(* ===== verification/Gate.thy ===== *)
theory Gate
  imports Modes
begin

text \<open>
  What \<open>src/src/mcounteren-tm-u-gate\<close> and \<open>src/src/mcounteren-cy-u-read\<close> share: the trap records and the history, the
  U-mode payloads that read a counter, the two trap entries around a C dispatcher, and the statements of the M-mode
  handler. The locales at the end state what a dispatcher promises and prove, once, what a payload does under it.
\<close>

unbundle bit_operations_syntax

abbreviation (input) HIST_N :: nat where "HIST_N \<equiv> 8"
abbreviation (input) U_SENTINEL :: u64 where "U_SENTINEL \<equiv> 0xDEADBEEFDEADBEEF"
abbreviation (input) FINISHER_PASS :: u32 where "FINISHER_PASS \<equiv> 0x5555"


subsection \<open>State\<close>

text \<open>
  \<open>t_regs\<close> and \<open>m_regs\<close> are the trap records of the S- and the M-mode entry, \<open>hist\<close> the first
  eight trap records. The arrays are zero at boot and indexed by constants inside their bounds, or by \<open>hist_n\<close>.
\<close>

record gate = modes +
  t_regs :: "nat \<Rightarrow> u64"
  m_regs :: "nat \<Rightarrow> u64"
  m_phase :: u64
  hist :: "nat \<Rightarrow> nat \<Rightarrow> u64"
  hist_n :: nat
  bad_cause :: u64
  bad_sig :: u64
  boot_mc :: u64
  boot_sc :: u64
  boot_deleg :: u64
  cksum :: u64

type_synonym gprog = "(unit gate_ext modes_ext, unit) prog"

definition gets :: "(gate \<Rightarrow> 'a) \<Rightarrow> (unit gate_ext modes_ext, 'a) prog" where
  "gets f = State (\<lambda>s. (f s, s))"

definition modify :: "(gate \<Rightarrow> gate) \<Rightarrow> gprog" where
  "modify f = State (\<lambda>s. ((), f s))"

definition cks_feed :: "u64 \<Rightarrow> gprog" where
  "cks_feed v = modify (\<lambda>s. s\<lparr>cksum := fnv64 (cksum s) v\<rparr>)"

text \<open>\<open>check(cond, msg); cks_feed(v);\<close>\<close>

definition check_feed :: "bool \<Rightarrow> string \<Rightarrow> u64 \<Rightarrow> gprog" where
  "check_feed cond msg v = do { check cond msg; cks_feed v }"

text \<open>
  The symbols of a payload that samples a counter twice: its first read, the re-read of the spin loop, the code that
  loads the signal, its \<open>ecall\<close>, and the \<open>ecall\<close> of the timeout.
\<close>

record read_syms =
  u_read :: u64
  u_spin :: u64
  u_sig :: u64
  u_ecall :: u64
  u_late :: u64

subsection \<open>U-mode payloads\<close>

text \<open>
  Payload A and C. The immediates are built by instructions that do not trap, so only the reads, the branch and the
  \<open>ecall\<close>s delimit blocks.
\<close>

definition read_blocks :: "counter \<Rightarrow> read_syms \<Rightarrow> u64 \<Rightarrow> u64 \<Rightarrow> u64 \<Rightarrow> u64 \<Rightarrow> (u64 \<times> gprog) list" where
  "read_blocks c p insn0 insn1 sig late =
    [(u_read p, rd_counter c xt0 (u_read p) insn0),
     (u_read p + 4, do { put_reg xt2 (push_bit 20 1); goto (u_spin p) }),
     (u_spin p, rd_counter c xt1 (u_spin p) insn1),
     (u_spin p + 4, do {
        t1 \<leftarrow> get_reg xt1; t0 \<leftarrow> get_reg xt0; t2 \<leftarrow> get_reg xt2;
        if t1 \<noteq> t0 then goto (u_sig p)
        else do {
          put_reg xt2 (t2 - 1);
          if t2 - 1 \<noteq> 0 then goto (u_spin p)
          else do { put_reg xa0 late; ecall (u_late p) } } }),
     (u_sig p, do { put_reg xa0 sig; ecall (u_ecall p) })]"

text \<open>The payload that samples \<open>instret\<close>: sixteen \<open>nop\<close>s between the two reads and no loop.\<close>

definition nops :: "nat \<Rightarrow> gprog" where
  "nops n = on_hart (retire ^^ n)"

definition straight_blocks :: "counter \<Rightarrow> read_syms \<Rightarrow> u64 \<Rightarrow> u64 \<Rightarrow> u64 \<Rightarrow> (u64 \<times> gprog) list" where
  "straight_blocks c p insn0 insn1 sig =
    [(u_read p, rd_counter c xt0 (u_read p) insn0),
     (u_read p + 4, do { nops 16; goto (u_spin p) }),
     (u_spin p, rd_counter c xt1 (u_spin p) insn1),
     (u_spin p + 4, do { put_reg xa0 sig; ecall (u_ecall p) })]"

text \<open>Payload B: a sentinel in t0, the gated read, and the signal.\<close>

definition gated_blocks :: "counter \<Rightarrow> u64 \<Rightarrow> u64 \<Rightarrow> u64 \<Rightarrow> u64 \<Rightarrow> u64 \<Rightarrow> (u64 \<times> gprog) list" where
  "gated_blocks c payload site ecall_site insn sig =
    [(payload, do { put_reg xt0 U_SENTINEL; goto site }),
     (site, rd_counter c xt0 site insn),
     (site + 4, do { put_reg xa0 sig; ecall ecall_site })]"


subsection \<open>Trap entries\<close>

definition hist_row :: "(nat \<Rightarrow> u64) \<Rightarrow> (nat \<Rightarrow> u64) \<Rightarrow> nat \<Rightarrow> u64" where
  "hist_row r old i = (if i < 9 then r i else old i)"

definition record_trap :: gprog where
  "record_trap = modify (\<lambda>s. if hist_n s < HIST_N
     then s\<lparr>hist := (hist s)(hist_n s := hist_row (t_regs s) (hist s (hist_n s))),
            hist_n := Suc (hist_n s)\<rparr>
     else s)"

definition resume_at :: "u64 \<Rightarrow> (unit gate_ext modes_ext, u64) prog" where
  "resume_at a = do { modify (\<lambda>s. s\<lparr>t_regs := (t_regs s)(4 := a)\<rparr>); State_Monad.return a }"

text \<open>
  The S-mode entry saves through \<open>sscratch\<close>. It restores t0, t1 and s0; a0 keeps the resume address and the dispatcher
  leaves what it likes in t2 (\<open>left\<close>), the other register a payload uses.
\<close>

definition s_trap_entry :: "u64 \<Rightarrow> u64 \<Rightarrow> (unit gate_ext modes_ext, u64) prog \<Rightarrow> gprog" where
  "s_trap_entry regs left handle = do {
     base \<leftarrow> csrr Sscratch;
     if base \<noteq> regs then modify (\<lambda>s. s\<lparr>stuck := True\<rparr>)
     else do {
       t0 \<leftarrow> get_reg xt0; t1 \<leftarrow> get_reg xt1; s0 \<leftarrow> get_reg xs0; a0 \<leftarrow> get_reg xa0;
       cause \<leftarrow> csrr Scause; tval \<leftarrow> csrr Stval; epc \<leftarrow> csrr Sepc;
       modify (\<lambda>s. s\<lparr>t_regs := (t_regs s)(8 := s0, 7 := t1, 0 := cause, 1 := tval, 2 := epc,
                        3 := t_regs s 3 + 1, 5 := t0, 6 := a0)\<rparr>);
       a \<leftarrow> handle;
       csrw Sepc a;
       put_reg xa0 a;
       put_reg xt2 left;
       sret } }"

text \<open>The M-mode entry, which never resumes the interrupted context.\<close>

definition m_trap_entry :: "gprog \<Rightarrow> gprog" where
  "m_trap_entry handle = do {
     cause \<leftarrow> csrr Mcause; epc \<leftarrow> csrr Mepc;
     modify (\<lambda>s. s\<lparr>m_regs := (m_regs s)(0 := cause, 1 := epc, 2 := m_regs s 2 + 1)\<rparr>);
     handle }"


subsection \<open>Reports and M-mode statements\<close>

definition print_trap :: "nat \<Rightarrow> string \<Rightarrow> gprog" where
  "print_trap idx tag = do {
     h \<leftarrow> gets (\<lambda>s. hist s idx);
     puts [Str ''  ['', Dec (of_nat idx), Str ''] '', Str tag, Str '' scause='', Hex (h 0), Str '' stval='', Hex (h 1),
       Str '' sepc='', Hex (h 2), Str '' t0='', Hex (h 5), Str '' a0='', Hex (h 6), Str ''\<newline>''] }"

text \<open>A loop over the recorded traps.\<close>

fun print_hist :: "nat \<Rightarrow> nat \<Rightarrow> gprog" where
  "print_hist i 0 = State_Monad.return ()"
| "print_hist i (Suc k) = do { print_trap i ''hist''; print_hist (Suc i) k }"

definition m_gate_readback :: "string \<Rightarrow> u64 \<Rightarrow> (unit gate_ext modes_ext, u64) prog" where
  "m_gate_readback label v = do {
     csrw Mcounteren v;
     rb \<leftarrow> csrr Mcounteren;
     puts [Str label, Hex rb, Str ''\<newline>''];
     State_Monad.return rb }"

text \<open>\<open>if (fails != 0) { RESULT: FAIL; park }\<close>, else the next phase.\<close>

definition m_arm :: "u64 \<Rightarrow> string \<Rightarrow> u64 \<Rightarrow> gprog" where
  "m_arm ph msg driver = do {
     f \<leftarrow> get_fails;
     if f \<noteq> 0 then do { puts [Str ''RESULT: FAIL\<newline>'']; park }
     else do {
       modify (\<lambda>s. s\<lparr>m_phase := ph\<rparr>);
       puts [Str msg];
       drop_to_smode driver } }"

definition m_restore :: "csr \<Rightarrow> u64 \<Rightarrow> string \<Rightarrow> string \<Rightarrow> gprog" where
  "m_restore c v label msg = do {
     csrw c v;
     rb \<leftarrow> csrr c;
     puts [Str label, Hex rb, Str ''\<newline>''];
     check_feed (rb = v) msg (of_bool (rb = v)) }"

definition gate_verdict :: gprog where
  "gate_verdict = do {
     c \<leftarrow> gets cksum;
     f \<leftarrow> get_fails;
     puts [Str ''\<newline>checksum (FNV-1a over verdict values) = '', Str (hex64 c), Str ''\<newline>''];
     puts [Str (if f = 0 then ''RESULT: PASS\<newline>'' else ''RESULT: FAIL\<newline>'')];
     only_if (f = 0) (finish FINISHER_PASS);
     park }"

text \<open>Vectors, the delegation of the illegal instruction and the U-mode call, and an open PMP entry.\<close>

definition set_vectors :: "u64 \<Rightarrow> u64 \<Rightarrow> u64 \<Rightarrow> gprog" where
  "set_vectors m s regs = do { csrw Mtvec m; csrw Stvec s; csrw Sscratch regs }"

definition set_delegation :: gprog where
  "set_delegation = do {
     csrw Medeleg 0x104;
     deleg \<leftarrow> csrr Medeleg;
     puts [Str ''medeleg readback='', Hex deleg, Str ''\<newline>''];
     check_feed (deleg AND 0x104 = 0x104) ''medeleg bits 2 and 8 not set'' (of_bool (deleg AND 0x104 = 0x104)) }"

definition open_pmp :: gprog where
  "open_pmp = do { csrw Pmpaddr0 (- 1); csrw Pmpcfg0 0x1f }"



subsection \<open>Running the statements\<close>

lemma run_gate [simp]:
  "run_state (gets f) s = (f s, s)" "run_state (modify g) s = ((), g s)"
  "run_state (cks_feed v) s = ((), s\<lparr>cksum := fnv64 (cksum s) v\<rparr>)"
  "run_state (check_feed b msg v) s = ((), (checked b msg s)\<lparr>cksum := fnv64 (cksum (checked b msg s)) v\<rparr>)"
  by (simp_all add: gets_def modify_def cks_feed_def check_feed_def exec_basic)

lemma run_resume_at [simp]: "run_state (resume_at a) s = (a, s\<lparr>t_regs := (t_regs s)(4 := a)\<rparr>)"
  by (simp add: resume_at_def exec_step [OF run_gate(2)])

lemma emit_gate [simp]:
  "t_regs (emit ps s) = t_regs s" "m_regs (emit ps s) = m_regs s" "m_phase (emit ps s) = m_phase s"
  "hist (emit ps s) = hist s" "hist_n (emit ps s) = hist_n s" "bad_cause (emit ps s) = bad_cause s"
  "bad_sig (emit ps s) = bad_sig s" "boot_mc (emit ps s) = boot_mc s" "boot_sc (emit ps s) = boot_sc s"
  "boot_deleg (emit ps s) = boot_deleg s" "cksum (emit ps s) = cksum s"
  by (simp_all add: emit_def)

lemma checked_gate [simp]:
  "t_regs (checked b msg s) = t_regs s" "m_regs (checked b msg s) = m_regs s" "m_phase (checked b msg s) = m_phase s"
  "hist (checked b msg s) = hist s" "hist_n (checked b msg s) = hist_n s" "bad_cause (checked b msg s) = bad_cause s"
  "bad_sig (checked b msg s) = bad_sig s" "boot_mc (checked b msg s) = boot_mc s" "boot_sc (checked b msg s) = boot_sc s"
  "boot_deleg (checked b msg s) = boot_deleg s" "cksum (checked b msg s) = cksum s"
  by (simp_all add: checked_def)

lemma run_print_trap [simp]:
  "run_state (print_trap i tag) s = ((), emit [Str ''  ['', Dec (of_nat i), Str ''] '', Str tag, Str '' scause='', Hex (hist s i 0),
     Str '' stval='', Hex (hist s i 1), Str '' sepc='', Hex (hist s i 2), Str '' t0='', Hex (hist s i 5), Str '' a0='',
     Hex (hist s i 6), Str ''\<newline>''] s)"
  by (simp add: print_trap_def exec_step [OF run_gate(1)])

lemmas gate_exec = run_print_trap [THEN exec_step] run_gate [THEN exec_step] run_resume_at [THEN exec_step] modes_exec exec_basic

text \<open>The record of a trap in the history.\<close>

definition noted :: "u64 \<Rightarrow> gate \<Rightarrow> gate" where
  "noted k s = s\<lparr>hist := (hist s)(hist_n s := hist_row (t_regs s) (hist s (hist_n s))),
     hist_n := Suc (hist_n s), t_regs := (t_regs s)(4 := k)\<rparr>"

definition set_spp :: "hart \<Rightarrow> hart" where
  "set_spp h = csr_write Sstatus (csr_read Sstatus h OR 0x100) h"

definition trap_record :: "hart \<Rightarrow> (nat \<Rightarrow> u64) \<Rightarrow> nat \<Rightarrow> u64" where
  "trap_record h r = r(8 := reg_get xs0 h, 7 := reg_get xt1 h, 0 := csrf h Scause, 1 := csrf h Stval, 2 := csrf h Sepc,
     3 := r 3 + 1, 5 := reg_get xt0 h, 6 := reg_get xa0 h)"

lemma s_trap_entry_run:
  assumes "csrf (hw s) Sscratch = regs"
    and "run_state handle (s\<lparr>t_regs := trap_record (hw s) (t_regs s)\<rparr>) = (a, s2)"
  shows "run_state (s_trap_entry regs left handle) s =
    ((), s2\<lparr>hw := do_sret (reg_set xt2 left (reg_set xa0 a (csr_write Sepc a (hw s2))))\<rparr>)"
  using assms by (simp add: s_trap_entry_def gate_exec exec_step [OF assms(2) [unfolded trap_record_def One_nat_def]])


subsection \<open>Code in memory, and a hart set up for it\<close>

definition code_addr :: "u64 \<Rightarrow> bool" where
  "code_addr a \<longleftrightarrow> a AND 3 = 0 \<and> unat a + 4 \<le> 2 ^ 56"

definition well_placed :: "(u64 \<times> gprog) list \<Rightarrow> bool" where
  "well_placed code \<longleftrightarrow> distinct (map fst code) \<and> list_all code_addr (map fst code)"

definition deleg_hart :: "u64 \<Rightarrow> u64 \<Rightarrow> u64 \<Rightarrow> hart \<Rightarrow> bool" where
  "deleg_hart dl vec regs h \<longleftrightarrow> keeps_bits h Mstatus STEER \<and> (\<forall>a. code_addr a \<longrightarrow> takes h Sepc a \<and> takes h Mepc a) \<and>
     csrf h Stvec = vec \<and> csrf h Sscratch = regs \<and> csrf h Medeleg = dl \<and> pmp_everything h"

abbreviation gate_hart :: "u64 \<Rightarrow> u64 \<Rightarrow> hart \<Rightarrow> bool" where
  "gate_hart \<equiv> deleg_hart 0x104"

lemma gate_hart_config: "same_config h h' \<Longrightarrow> deleg_hart dl vec regs h \<Longrightarrow> deleg_hart dl vec regs h'"
  by (simp add: deleg_hart_def same_config_simps)

lemma aligned_vector: "code_addr a \<Longrightarrow> a AND - 4 = a"
proof -
  assume "code_addr a"
  then have "a AND mask 2 = 0" by (simp add: code_addr_def mask_eq_exp_minus_1)
  moreover have "NOT (mask 2) = (- 4 :: u64)" by (simp add: mask_eq_exp_minus_1)
  ultimately show ?thesis using and_not_mask_split [of a 2] by simp
qed

text \<open>The two drops, as functions on the hart.\<close>

definition s_drop :: "u64 \<Rightarrow> hart \<Rightarrow> hart" where
  "s_drop a h = do_mret (csr_write Mstatus ((csr_read Mstatus (csr_write Mepc a h) AND NOT 0x1800) OR 0x800) (csr_write Mepc a h))"

definition u_drop :: "u64 \<Rightarrow> hart \<Rightarrow> hart" where
  "u_drop a h = do_sret (csr_write Sstatus (csr_read Sstatus (csr_write Sepc a h) AND NOT 0x100) (csr_write Sepc a h))"

lemma run_drops [simp]:
  "run_state (drop_to_smode a) s = ((), s\<lparr>hw := s_drop a (hw s)\<rparr>)"
  "run_state (drop_to_umode a) s = ((), s\<lparr>hw := u_drop a (hw s)\<rparr>)"
  by (simp_all add: drop_to_smode_def drop_to_umode_def gate_exec s_drop_def u_drop_def)

lemma deleg_drops:
  assumes "deleg_hart dl vec regs h" "code_addr a"
  shows "priv (s_drop a h) = SMode" "pc (s_drop a h) = a" "priv (u_drop a h) = UMode" "pc (u_drop a h) = a"
  using smode_drop(1,2) [of h a] umode_drop(1,2) [of h a] assms unfolding s_drop_def u_drop_def by (simp_all add: deleg_hart_def del: csr_write.simps)

lemmas drops = deleg_drops [where dl = "0x104"]

lemma drops_config [simp]: "same_config b (s_drop a h) = same_config b h" "same_config b (u_drop a h) = same_config b h"
  by (simp_all add: s_drop_def u_drop_def del: csr_write.simps)

lemma drops_retired [simp]: "retired (s_drop a h) = retired h" "retired (u_drop a h) = retired h"
  by (simp_all add: s_drop_def u_drop_def del: csr_write.simps)

lemma gate_hart_pc [simp]: "deleg_hart dl v r (h\<lparr>pc := a\<rparr>) = deleg_hart dl v r h"
  using gate_hart_config [of h "h\<lparr>pc := a\<rparr>"] gate_hart_config [of "h\<lparr>pc := a\<rparr>" h]
  by (auto simp: same_config_def)

lemma gate_hart_counteren [simp]:
  "deleg_hart dl v r (csr_store Mcounteren w h) = deleg_hart dl v r h"
  "deleg_hart dl v r (csr_store Scounteren w h) = deleg_hart dl v r h"
  by (simp_all add: deleg_hart_def keeps_bits_def takes_def pmp_everything_def csr_store_def)

lemma run_m_gate_readback [simp]:
  "run_state (m_gate_readback l v) s = (legal (hw s) Mcounteren (csrf (hw s) Mcounteren) v,
     emit [Str l, Hex (legal (hw s) Mcounteren (csrf (hw s) Mcounteren) v), Str ''\<newline>''] (s\<lparr>hw := csr_store Mcounteren v (hw s)\<rparr>))"
  by (simp add: m_gate_readback_def gate_exec)

lemma run_m_arm:
  "fails s = 0 \<Longrightarrow> run_state (m_arm ph msg d) s = ((), (emit [Str msg] (s\<lparr>m_phase := ph\<rparr>))\<lparr>hw := s_drop d (hw s)\<rparr>)"
  by (simp add: m_arm_def gate_exec)

lemma run_m_restore:
  "takes (hw s) c v \<Longrightarrow> c \<in> {Mcounteren, Scounteren, Medeleg} \<Longrightarrow>
   run_state (m_restore c v l msg) s = ((), (emit [Str l, Hex v, Str ''\<newline>''] (s\<lparr>hw := csr_store c v (hw s)\<rparr>))
     \<lparr>cksum := fnv64 (cksum s) 1\<rparr>)"
  by (auto simp: m_restore_def gate_exec takes_def checked_True)

lemma run_gate_verdict:
  "fails s = 0 \<Longrightarrow> \<exists>ps. run_state gate_verdict s = ((), (emit ps s)\<lparr>finisher := Some FINISHER_PASS, parked := True\<rparr>)"
  by (cases s) (auto simp: gate_verdict_def gate_exec only_if_def emit_def text_of_append [symmetric])

lemma verdict_fields:
  assumes "fails s = 0"
  defines "t \<equiv> snd (run_state gate_verdict s)"
  shows "parked t" "fails t = 0" "finisher t = Some FINISHER_PASS" "hist t = hist s" "hist_n t = hist_n s" "hw t = hw s" "cksum t = cksum s"
  using run_gate_verdict [OF assms(1)] assms(1) by (auto simp: t_def)

lemma placed_addr: "well_placed code \<Longrightarrow> (a, p) \<in> set code \<Longrightarrow> code_addr a"
  by (auto simp: well_placed_def list_all_iff)

lemma deleg_placed_step:
  assumes "well_placed code" "deleg_hart dl vec regs (hw s)" "\<not> parked s" "\<not> stuck s" "(pc (hw s), p) \<in> set code"
  shows "mode_step code s = Some (final p s)"
proof (rule block_step)
  show "pmp_allows (hw s) Exec (pc (hw s)) 4"
    using assms(2) placed_addr [OF assms(1,5)] by (intro pmp_everything_allows) (simp_all add: deleg_hart_def code_addr_def)
qed (use assms in \<open>simp_all add: well_placed_def\<close>)

lemmas placed_step = deleg_placed_step [where dl = "0x104"]

text \<open>A delegated trap: one step through the S-mode entry.\<close>

lemma s_trap_step:
  assumes code: "well_placed code" "(vec, s_trap_entry regs left handle) \<in> set code"
    and s: "gate_hart vec regs h" "hw s = trap_to_s cause epc tval h" "\<not> parked s" "\<not> stuck s"
    and handle: "run_state handle (s\<lparr>t_regs := trap_record (hw s) (t_regs s)\<rparr>) = (a, s2)"
  shows "mode_step code s = Some (s2\<lparr>hw := do_sret (reg_set xt2 left (reg_set xa0 a (csr_write Sepc a (hw s2))))\<rparr>)"
proof -
  have "same_config h (hw s)" by (simp add: s(2))
  then have h: "gate_hart vec regs (hw s)" using gate_hart_config s(1) by blast
  have "pc (hw s) = vec"
    using s(1,2) aligned_vector [OF placed_addr [OF code]] by (simp add: trap_to_s_def deleg_hart_def)
  then show ?thesis
    using placed_step [OF code(1) h s(3,4)] code(2) h s_trap_entry_run [OF _ handle, of regs left]
    by (simp add: final_def deleg_hart_def)
qed


text \<open>
  The counter at an index of the clock, and a counter that runs over a stretch of reads: nonzero, monotone, and moving
  within \<open>2 ^ 20\<close> reads.
\<close>

definition reading :: "counter \<Rightarrow> hart \<Rightarrow> nat \<Rightarrow> u64" where
  "reading c h k = (case c of CY \<Rightarrow> snd (clock h k) | TM \<Rightarrow> fst (clock h k) | IR \<Rightarrow> instret h k)"

definition ticking :: "counter \<Rightarrow> hart \<Rightarrow> nat \<Rightarrow> nat \<Rightarrow> bool" where
  "ticking c h lo hi \<longleftrightarrow> (\<forall>k. lo \<le> k \<and> k < hi \<longrightarrow> reading c h k \<noteq> 0 \<and> reading c h k \<le> reading c h (Suc k) \<and>
     (\<exists>j < 2 ^ 20. reading c h (k + Suc j) \<noteq> reading c h k))"

text \<open>Between two recorded traps a payload reads at most \<open>2 ^ 20 + 1\<close> times.\<close>

definition elapsed :: "hart \<Rightarrow> nat \<Rightarrow> nat \<Rightarrow> bool" where
  "elapsed h0 n k \<longleftrightarrow> retired h0 \<le> k \<and> k \<le> retired h0 + n * (2 ^ 20 + 1)"

lemma elapsed_start [simp]: "elapsed h 0 (retired h)"
  by (simp add: elapsed_def)

lemma elapsed_later: "elapsed h0 n k \<Longrightarrow> k \<le> k' \<Longrightarrow> k' \<le> k + m * (2 ^ 20 + 1) \<Longrightarrow> elapsed h0 (n + m) k'"
  by (simp add: elapsed_def add_mult_distrib)

lemma counter_value_reading: "counter_value c h = reading c h (retired h)"
  by (simp add: counter_value_def reading_def)

lemma reading_mono: "ticking c h lo hi \<Longrightarrow> lo \<le> k \<Longrightarrow> k + j \<le> hi \<Longrightarrow> reading c h k \<le> reading c h (k + j)"
proof (induction j)
  case (Suc j)
  then have "reading c h (k + j) \<le> reading c h (Suc (k + j))" by (simp add: ticking_def)
  with Suc show ?case by simp
qed simp

lemma reading_config: "same_config h h' \<Longrightarrow> reading c h' = reading c h"
  by (simp add: reading_def same_config_def fun_eq_iff split: counter.split)

lemma open_config:
  "same_config h h' \<Longrightarrow> priv h' = priv h \<Longrightarrow> counter_open c h' = counter_open c h"
  by (simp add: counter_open_def same_config_def)

text \<open>Inside a payload only the hart changes.\<close>

lemma read_step:
  assumes "well_placed code" "gate_hart vec regs (hw s)" "\<not> parked s" "\<not> stuck s"
    and "(pc (hw s), rd_counter c q (pc (hw s)) insn) \<in> set code" "counter_open c (hw s)"
  shows "mode_step code s = Some (s\<lparr>hw := (retire (reg_set q (reading c (hw s) (retired (hw s))) (hw s)))\<lparr>pc := pc (hw s) + 4\<rparr>\<rparr>)"
  using placed_step [OF assms(1-5)] assms(6) by (simp add: final_def rd_counter_def counter_value_reading)

lemma spin_step:
  assumes "well_placed code" "gate_hart vec regs (hw s)" "\<not> parked s" "\<not> stuck s"
    and "set (read_blocks c p insn0 insn1 sig late) \<subseteq> set code" "pc (hw s) = u_spin p + 4"
    and "reg_get xt1 (hw s) \<noteq> reg_get xt0 (hw s) \<or> reg_get xt2 (hw s) \<noteq> 1"
  shows "mode_step code s = Some (s\<lparr>hw := if reg_get xt1 (hw s) \<noteq> reg_get xt0 (hw s) then (hw s)\<lparr>pc := u_sig p\<rparr>
      else (reg_set xt2 (reg_get xt2 (hw s) - 1) (hw s))\<lparr>pc := u_spin p\<rparr>\<rparr>)"
proof -
  let ?b = "do {
        t1 \<leftarrow> get_reg xt1; t0 \<leftarrow> get_reg xt0; t2 \<leftarrow> get_reg xt2;
        if t1 \<noteq> t0 then goto (u_sig p)
        else do {
          put_reg xt2 (t2 - 1);
          if t2 - 1 \<noteq> 0 then goto (u_spin p)
          else do { put_reg xa0 late; ecall (u_late p) } } } :: gprog"
  have "(pc (hw s), ?b) \<in> set code" using assms(5,6) by (auto simp: read_blocks_def)
  from placed_step [OF assms(1-4) this] show ?thesis
    using assms(7) by (auto simp: final_def gate_exec)
qed


subsection \<open>Dispatchers\<close>

text \<open>
  What the trap entry relies on: an illegal instruction is recorded and skipped, and a U-mode call with a known signal is
  recorded and answered by its continuation, in S-mode.
\<close>

locale dispatcher =
  fixes handle :: "(unit gate_ext modes_ext, u64) prog"
    and cont :: "u64 \<Rightarrow> u64 option"
  assumes skips: "hist_n s < HIST_N \<Longrightarrow> t_regs s 0 = 2 \<Longrightarrow>
      run_state handle s = (t_regs s 2 + 4, noted (t_regs s 2 + 4) s)"
    and continues: "hist_n s < HIST_N \<Longrightarrow> t_regs s 0 = 8 \<Longrightarrow> cont (t_regs s 6) = Some k \<Longrightarrow>
      run_state handle s = (k, (noted k s)\<lparr>hw := set_spp (hw s)\<rparr>)"
begin

lemma signal_trip:
  assumes code: "well_placed code" "(vec, s_trap_entry regs left handle) \<in> set code"
      "(pc (hw s), do { put_reg xa0 sig; ecall site }) \<in> set code"
    and s: "gate_hart vec regs (hw s)" "\<not> parked s" "\<not> stuck s" "priv (hw s) = UMode" "hist_n s < HIST_N"
    and k: "cont sig = Some k" "code_addr k"
  shows "\<exists>h' r row. runs code s (s\<lparr>hw := h', t_regs := r, hist := (hist s)(hist_n s := row), hist_n := Suc (hist_n s)\<rparr>) \<and>
    priv h' = SMode \<and> pc h' = k \<and> same_config (hw s) h' \<and>
    row 0 = 8 \<and> row 2 = site \<and> row 6 = sig \<and> row 5 = reg_get xt0 (hw s) \<and> row 7 = reg_get xt1 (hw s) \<and> retired h' = retired (hw s)"
proof -
  let ?h0 = "reg_set xa0 sig (hw s)"
  let ?h1 = "trap_to_s 8 site 0 ?h0" and ?s1 = "s\<lparr>hw := trap_to_s 8 site 0 (reg_set xa0 sig (hw s))\<rparr>"
  have step1: "mode_step code s = Some ?s1"
    using placed_step [OF code(1) s(1-3) code(3)] s(1,4)
    by (simp add: final_def gate_exec ecall_def route_def deleg_hart_def reg_set_def)
  have h0: "gate_hart vec regs ?h0" and h1: "gate_hart vec regs ?h1"
    by (rule gate_hart_config [OF _ s(1)]; simp)+
  let ?r = "trap_record ?h1 (t_regs s)" and ?h2 = "set_spp ?h1"
  let ?s2 = "(noted k (?s1\<lparr>t_regs := ?r\<rparr>))\<lparr>hw := ?h2\<rparr>"
  let ?h3 = "do_sret (reg_set xt2 left (reg_set xa0 k (csr_write Sepc k ?h2)))"
  have r: "?r 0 = 8" "?r 6 = sig" "?r 2 = site" "?r 5 = reg_get xt0 (hw s)" "?r 7 = reg_get xt1 (hw s)"
    by (simp_all add: trap_record_def) (simp_all add: trap_to_s_def)
  have "run_state handle (?s1\<lparr>t_regs := ?r\<rparr>) = (k, ?s2)"
    using continues [of "?s1\<lparr>t_regs := ?r\<rparr>" k] s(5) k(1) r by simp
  then have "mode_step code ?s1 = Some (?s2\<lparr>hw := ?h3\<rparr>)"
    using s_trap_step [OF code(1,2) h0, of ?s1 8 site 0 k ?s2] s(2,3) by simp
  with step1 have "runs code s (?s2\<lparr>hw := ?h3\<rparr>)" by (blast intro: runs.intros)
  moreover have "?s2\<lparr>hw := ?h3\<rparr> = s\<lparr>hw := ?h3, t_regs := ?r(4 := k),
      hist := (hist s)(hist_n s := hist_row ?r (hist s (hist_n s))), hist_n := Suc (hist_n s)\<rparr>"
    by (cases s) (simp add: noted_def)
  moreover have ks: "keeps_bits ?h1 Mstatus STEER" "takes ?h1 Sepc k" using h1 k(2) by (simp_all add: deleg_hart_def)
  have "same_config (hw s) ?h3" "retired ?h3 = retired (hw s)" by (simp_all add: set_spp_def del: csr_write.simps)
  ultimately show ?thesis
    using r sret_to_smode [OF ks, folded set_spp_def]
    by - (rule exI [of _ ?h3], rule exI [of _ "?r(4 := k)"],
      rule exI [of _ "hist_row ?r (hist s (hist_n s))"], simp add: hist_row_def del: csr_write.simps)
qed

text \<open>A gated read: trapped, recorded with its destination unchanged, and skipped.\<close>

lemma illegal_trip:
  assumes code: "well_placed code" "(vec, s_trap_entry regs left handle) \<in> set code"
      "(pc (hw s), rd_counter c q (pc (hw s)) insn) \<in> set code"
    and s: "gate_hart vec regs (hw s)" "\<not> parked s" "\<not> stuck s" "priv (hw s) = UMode" "hist_n s < HIST_N"
    and k: "\<not> counter_open c (hw s)" "code_addr (pc (hw s) + 4)"
  shows "\<exists>h' r row. runs code s (s\<lparr>hw := h', t_regs := r, hist := (hist s)(hist_n s := row), hist_n := Suc (hist_n s)\<rparr>) \<and>
    priv h' = UMode \<and> pc h' = pc (hw s) + 4 \<and> same_config (hw s) h' \<and>
    row 0 = 2 \<and> row 2 = pc (hw s) \<and> row 5 = reg_get xt0 (hw s) \<and> retired h' = retired (hw s)"
proof -
  let ?a = "pc (hw s)"
  let ?h1 = "trap_to_s 2 ?a insn (hw s)" and ?s1 = "s\<lparr>hw := trap_to_s 2 (pc (hw s)) insn (hw s)\<rparr>"
  have step1: "mode_step code s = Some ?s1"
    using placed_step [OF code(1) s(1-3) code(3)] s(1,4) k(1)
    by (simp add: final_def rd_counter_def route_def deleg_hart_def)
  let ?r = "trap_record ?h1 (t_regs s)"
  let ?s2 = "noted (?a + 4) (?s1\<lparr>t_regs := ?r\<rparr>)"
  let ?h3 = "do_sret (reg_set xt2 left (reg_set xa0 (?a + 4) (csr_write Sepc (?a + 4) ?h1)))"
  have r: "?r 0 = 2" "?r 2 = ?a" "?r 5 = reg_get xt0 (hw s)"
    by (simp_all add: trap_record_def) (simp_all add: trap_to_s_def)
  have "run_state handle (?s1\<lparr>t_regs := ?r\<rparr>) = (?a + 4, ?s2)"
    using skips [of "?s1\<lparr>t_regs := ?r\<rparr>"] s(5) r by simp
  then have "mode_step code ?s1 = Some (?s2\<lparr>hw := ?h3\<rparr>)"
    using s_trap_step [OF code(1,2) s(1), of ?s1 2 ?a insn "?a + 4" ?s2] s(2,3) by (simp add: noted_def)
  with step1 have "runs code s (?s2\<lparr>hw := ?h3\<rparr>)" by (blast intro: runs.intros)
  moreover have "?s2\<lparr>hw := ?h3\<rparr> = s\<lparr>hw := ?h3, t_regs := ?r(4 := ?a + 4),
      hist := (hist s)(hist_n s := hist_row ?r (hist s (hist_n s))), hist_n := Suc (hist_n s)\<rparr>"
    by (cases s) (simp add: noted_def)
  moreover have "takes (hw s) Sepc (?a + 4)" using s(1) k(2) by (simp add: deleg_hart_def)
  moreover have "same_config (hw s) ?h3" "retired ?h3 = retired (hw s)" by (simp_all del: csr_write.simps)
  ultimately show ?thesis
    using r sret_to_umode [OF s(4), of "?a + 4"]
    by - (rule exI [of _ ?h3], rule exI [of _ "?r(4 := ?a + 4)"],
      rule exI [of _ "hist_row ?r (hist s (hist_n s))"], simp add: hist_row_def del: csr_write.simps)
qed

end

lemma spin_reads:
  assumes code: "well_placed code" "set (read_blocks c p insn0 insn1 sig late) \<subseteq> set code"
    and s: "gate_hart vec regs (hw s)" "\<not> parked s" "\<not> stuck s" "priv (hw s) = UMode" "counter_open c (hw s)"
      "pc (hw s) = u_spin p" "reg_get xt2 (hw s) = of_nat n" "n \<le> 2 ^ 20"
    and j: "j < n" "reading c (hw s) (retired (hw s) + j) \<noteq> reg_get xt0 (hw s)"
      "\<forall>i < j. reading c (hw s) (retired (hw s) + i) = reg_get xt0 (hw s)"
  shows "\<exists>h'. runs code s (s\<lparr>hw := h'\<rparr>) \<and> pc h' = u_sig p \<and> priv h' = UMode \<and> same_config (hw s) h' \<and>
    reg_get xt0 h' = reg_get xt0 (hw s) \<and> reg_get xt1 h' = reading c (hw s) (retired (hw s) + j) \<and>
    retired h' = Suc (retired (hw s) + j)"
  using s j
proof (induction j arbitrary: s n)
  case 0
  let ?h1 = "(retire (reg_set xt1 (reading c (hw s) (retired (hw s))) (hw s)))\<lparr>pc := u_spin p + 4\<rparr>"
  have "(u_spin p, rd_counter c xt1 (u_spin p) insn1) \<in> set code" using code(2) by (auto simp: read_blocks_def)
  then have a: "mode_step code s = Some (s\<lparr>hw := ?h1\<rparr>)"
    using read_step [OF code(1) "0.prems"(1-3), of c xt1 insn1] "0.prems"(5,6) by simp
  have "gate_hart vec regs ?h1" by (rule gate_hart_config [OF _ "0.prems"(1)]) simp
  then have b: "mode_step code (s\<lparr>hw := ?h1\<rparr>) = Some (s\<lparr>hw := ?h1\<lparr>pc := u_sig p\<rparr>\<rparr>)"
    using spin_step [OF code(1) _ _ _ code(2), of vec regs "s\<lparr>hw := ?h1\<rparr>"] "0.prems"(2,3,10) by simp
  show ?case using runs_step [OF a runs_one [OF b]] "0.prems"(4)
    by (intro exI [of _ "?h1\<lparr>pc := u_sig p\<rparr>"]) simp
next
  case (Suc j)
  let ?h1 = "(retire (reg_set xt1 (reading c (hw s) (retired (hw s))) (hw s)))\<lparr>pc := u_spin p + 4\<rparr>"
  have "(u_spin p, rd_counter c xt1 (u_spin p) insn1) \<in> set code" using code(2) by (auto simp: read_blocks_def)
  then have a: "mode_step code s = Some (s\<lparr>hw := ?h1\<rparr>)"
    using read_step [OF code(1) Suc.prems(1-3), of c xt1 insn1] Suc.prems(5,6) by simp
  let ?h2 = "(reg_set xt2 (of_nat (n - 1)) ?h1)\<lparr>pc := u_spin p\<rparr>"
  have g1: "gate_hart vec regs ?h1" and g2: "gate_hart vec regs ?h2"
    by (rule gate_hart_config [OF _ Suc.prems(1)]; simp)+
  have eq: "reading c (hw s) (retired (hw s)) = reg_get xt0 (hw s)" using Suc.prems(11) by auto
  have n: "(of_nat n :: u64) - 1 = of_nat (n - 1)" using Suc.prems(9) by (simp add: of_nat_diff)
  have "unat (of_nat n :: u64) = n" using Suc.prems(8) by (simp add: unat_of_nat take_bit_nat_eq_self)
  then have "(of_nat n :: u64) \<noteq> 1" using Suc.prems(9) by auto
  then have b: "mode_step code (s\<lparr>hw := ?h1\<rparr>) = Some (s\<lparr>hw := ?h2\<rparr>)"
    using spin_step [OF code(1) _ _ _ code(2), of vec regs "s\<lparr>hw := ?h1\<rparr>"] g1 Suc.prems(2,3,7) eq n by simp
  have conf: "same_config (hw s) ?h2" by simp
  have p2: "priv ?h2 = UMode" using Suc.prems(4) by simp
  have r: "reading c ?h2 = reading c (hw s)" by (rule reading_config [OF conf])
  have o: "counter_open c ?h2" using open_config [OF conf] p2 Suc.prems(4,5) by simp
  have "\<forall>i < j. reading c (hw s) (Suc (retired (hw s)) + i) = reg_get xt0 (hw s)"
    using Suc.prems(11) by auto
  then have "\<exists>h'. runs code (s\<lparr>hw := ?h2\<rparr>) (s\<lparr>hw := ?h2\<rparr>\<lparr>hw := h'\<rparr>) \<and> pc h' = u_sig p \<and> priv h' = UMode \<and>
    same_config ?h2 h' \<and> reg_get xt0 h' = reg_get xt0 ?h2 \<and> reg_get xt1 h' = reading c ?h2 (retired ?h2 + j) \<and>
    retired h' = Suc (retired ?h2 + j)"
    using Suc.IH [of "s\<lparr>hw := ?h2\<rparr>" "n - 1"] Suc.prems(2,3,8-10) g2 p2 o r by simp
  then show ?case using runs_step [OF a] runs_step [OF b] same_config_trans [OF conf] r by auto
qed

context dispatcher
begin

lemma read_trip:
  assumes code: "well_placed code" "(vec, s_trap_entry regs left handle) \<in> set code"
      "set (read_blocks c p insn0 insn1 sig late) \<subseteq> set code"
    and s: "gate_hart vec regs (hw s)" "\<not> parked s" "\<not> stuck s" "priv (hw s) = UMode" "hist_n s < HIST_N"
      "pc (hw s) = u_read p" "counter_open c (hw s)"
    and tick: "ticking c (hw s) lo hi" "lo \<le> retired (hw s)" "retired (hw s) + 2 ^ 20 + 1 \<le> hi"
    and k: "cont sig = Some k" "code_addr k"
  shows "\<exists>h' r row. runs code s (s\<lparr>hw := h', t_regs := r, hist := (hist s)(hist_n s := row), hist_n := Suc (hist_n s)\<rparr>) \<and>
    priv h' = SMode \<and> pc h' = k \<and> same_config (hw s) h' \<and>
    row 0 = 8 \<and> row 2 = u_ecall p \<and> row 6 = sig \<and> row 5 \<noteq> 0 \<and> row 5 < row 7 \<and>
    retired (hw s) \<le> retired h' \<and> retired h' \<le> retired (hw s) + 2 ^ 20 + 1"
proof -
  let ?m = "retired (hw s)" and ?t0 = "reading c (hw s) (retired (hw s))"
  let ?P = "\<lambda>j. reading c (hw s) (Suc ?m + j) \<noteq> ?t0"
  obtain j0 where j0: "j0 < 2 ^ 20" "?P j0" using tick by (auto simp: ticking_def)
  then obtain j where j: "?P j" "\<forall>i < j. \<not> ?P i" using exists_least_iff [of ?P] by blast
  then have "\<not> j0 < j" using j0(2) by blast
  then have jb: "j < 2 ^ 20" using j0(1) by simp
  have blocks: "(u_read p, rd_counter c xt0 (u_read p) insn0) \<in> set code"
    "(u_read p + 4, do { put_reg xt2 (push_bit 20 1); goto (u_spin p) }) \<in> set code"
    "(u_sig p, do { put_reg xa0 sig; ecall (u_ecall p) }) \<in> set code"
    using code(3) by (auto simp: read_blocks_def)
  let ?h1 = "(retire (reg_set xt0 ?t0 (hw s)))\<lparr>pc := u_read p + 4\<rparr>"
  let ?h2 = "(reg_set xt2 (push_bit 20 1) ?h1)\<lparr>pc := u_spin p\<rparr>"
  have g: "gate_hart vec regs ?h1" "gate_hart vec regs ?h2"
    by (rule gate_hart_config [OF _ s(1)]; simp)+
  have a: "mode_step code s = Some (s\<lparr>hw := ?h1\<rparr>)"
    using read_step [OF code(1) s(1-3), of c xt0 insn0] blocks(1) s(6,7) by simp
  have b: "mode_step code (s\<lparr>hw := ?h1\<rparr>) = Some (s\<lparr>hw := ?h2\<rparr>)"
    using placed_step [OF code(1) _ _ _ , of vec regs "s\<lparr>hw := ?h1\<rparr>"] g(1) blocks(2) s(2,3)
    by (simp add: final_def gate_exec)
  have conf: "same_config (hw s) ?h2" by simp
  have p2: "priv ?h2 = UMode" using s(4) by simp
  have o: "counter_open c ?h2" using open_config [OF conf] p2 s(4,7) by simp
  have rd2: "reading c ?h2 = reading c (hw s)" by (rule reading_config [OF conf])
  obtain h3 where h3: "runs code (s\<lparr>hw := ?h2\<rparr>) (s\<lparr>hw := h3\<rparr>)" "pc h3 = u_sig p" "priv h3 = UMode" "same_config ?h2 h3"
    "reg_get xt0 h3 = ?t0" "reg_get xt1 h3 = reading c (hw s) (Suc ?m + j)" "retired h3 = Suc (Suc ?m + j)"
    using spin_reads [OF code(1,3), of vec regs "s\<lparr>hw := ?h2\<rparr>" "2 ^ 20" j] g(2) s(2,3) p2 o j jb rd2 by auto
  have c3: "same_config (hw s) h3" using same_config_trans [OF conf h3(4)] .
  let ?s3 = "s\<lparr>hw := h3\<rparr>"
  obtain h' r row where t: "runs code ?s3 (?s3\<lparr>hw := h', t_regs := r, hist := (hist s)(hist_n s := row), hist_n := Suc (hist_n s)\<rparr>)"
    "priv h' = SMode" "pc h' = k" "same_config h3 h'" "row 0 = 8" "row 2 = u_ecall p" "row 6 = sig"
    "row 5 = ?t0" "row 7 = reading c (hw s) (Suc ?m + j)" "retired h' = Suc (Suc ?m + j)"
    using signal_trip [OF code(1,2), of ?s3 sig "u_ecall p" k] gate_hart_config [OF c3 s(1)] s(2,3,5) h3 blocks(3) k by auto
  have "row 5 < row 7"
    using reading_mono [OF tick(1,2), of "Suc j"] tick(3) jb j(1) t(8,9) by (simp add: order_less_le)
  moreover have "row 5 \<noteq> 0" using tick t(8) by (simp add: ticking_def)
  moreover have "runs code s (s\<lparr>hw := h', t_regs := r, hist := (hist s)(hist_n s := row), hist_n := Suc (hist_n s)\<rparr>)"
    using runs_trans [OF h3(1) t(1)] a b by (auto intro: runs.intros)
  moreover have "retired (hw s) \<le> retired h'" "retired h' \<le> retired (hw s) + 2 ^ 20 + 1" using t(10) jb by simp_all
  ultimately show ?thesis using t same_config_trans [OF c3 t(4)] by blast
qed

text \<open>The gated payload: two records, the trapped read with the sentinel still in its destination and the signal.\<close>

lemma gated_trip:
  assumes code: "well_placed code" "(vec, s_trap_entry regs left handle) \<in> set code"
      "set (gated_blocks c payload site ecall_site insn sig) \<subseteq> set code"
    and s: "gate_hart vec regs (hw s)" "\<not> parked s" "\<not> stuck s" "priv (hw s) = UMode" "Suc (hist_n s) < HIST_N"
      "pc (hw s) = payload" "\<not> counter_open c (hw s)"
    and k: "cont sig = Some k" "code_addr k"
  shows "\<exists>h' r row1 row2. runs code s (s\<lparr>hw := h', t_regs := r,
      hist := (hist s)(hist_n s := row1, Suc (hist_n s) := row2), hist_n := Suc (Suc (hist_n s))\<rparr>) \<and>
    priv h' = SMode \<and> pc h' = k \<and> same_config (hw s) h' \<and>
    row1 0 = 2 \<and> row1 2 = site \<and> row1 5 = U_SENTINEL \<and> row2 0 = 8 \<and> row2 2 = ecall_site \<and> row2 6 = sig \<and>
    retired h' = retired (hw s)"
proof -
  have blocks: "(payload, do { put_reg xt0 U_SENTINEL; goto site }) \<in> set code"
    "(site, rd_counter c xt0 site insn) \<in> set code" "(site + 4, do { put_reg xa0 sig; ecall ecall_site }) \<in> set code"
    using code(3) by (auto simp: gated_blocks_def)
  let ?h1 = "(reg_set xt0 U_SENTINEL (hw s))\<lparr>pc := site\<rparr>"
  have conf: "same_config (hw s) ?h1" by simp
  have p1: "priv ?h1 = UMode" using s(4) by simp
  have a: "mode_step code s = Some (s\<lparr>hw := ?h1\<rparr>)"
    using placed_step [OF code(1) s(1-3)] blocks(1) s(6) by (simp add: final_def gate_exec)
  have shut: "\<not> counter_open c ?h1" using open_config [OF conf] p1 s(4,7) by simp
  obtain h2 r1 row1 where t1: "runs code (s\<lparr>hw := ?h1\<rparr>) (s\<lparr>hw := h2, t_regs := r1, hist := (hist s)(hist_n s := row1),
      hist_n := Suc (hist_n s)\<rparr>)" "priv h2 = UMode" "pc h2 = site + 4" "same_config ?h1 h2"
    "row1 0 = 2" "row1 2 = site" "row1 5 = U_SENTINEL" "retired h2 = retired (hw s)"
    using illegal_trip [OF code(1,2), of "s\<lparr>hw := ?h1\<rparr>" c xt0 insn] gate_hart_config [OF conf s(1)] s(2,3,5) p1 shut
      blocks(2) placed_addr [OF code(1) blocks(3)] by auto
  have c2: "same_config (hw s) h2" using same_config_trans [OF conf t1(4)] .
  let ?s2 = "s\<lparr>hw := h2, t_regs := r1, hist := (hist s)(hist_n s := row1), hist_n := Suc (hist_n s)\<rparr>"
  obtain h' r row2 where t2: "runs code ?s2 (?s2\<lparr>hw := h', t_regs := r, hist := (hist s)(hist_n s := row1, Suc (hist_n s) := row2),
      hist_n := Suc (Suc (hist_n s))\<rparr>)" "priv h' = SMode" "pc h' = k" "same_config h2 h'"
    "row2 0 = 8" "row2 2 = ecall_site" "row2 6 = sig" "retired h' = retired (hw s)"
    using signal_trip [OF code(1,2), of ?s2 sig ecall_site k] gate_hart_config [OF c2 s(1)] s(2,3,5) t1(2,3,8) blocks(3) k by auto
  have "?s2\<lparr>hw := h', t_regs := r, hist := (hist s)(hist_n s := row1, Suc (hist_n s) := row2), hist_n := Suc (Suc (hist_n s))\<rparr>
    = s\<lparr>hw := h', t_regs := r, hist := (hist s)(hist_n s := row1, Suc (hist_n s) := row2), hist_n := Suc (Suc (hist_n s))\<rparr>"
    by (cases s) simp
  then show ?thesis
    using runs_step [OF a runs_trans [OF t1(1) t2(1)]] t1 t2 same_config_trans [OF c2 t2(4)] by (metis (no_types))
qed

end


text \<open>The straight payload, on a counter that moves over seventeen instructions.\<close>

definition advancing :: "counter \<Rightarrow> hart \<Rightarrow> nat \<Rightarrow> nat \<Rightarrow> bool" where
  "advancing c h lo hi \<longleftrightarrow> (\<forall>k. lo \<le> k \<and> k \<le> hi \<longrightarrow> reading c h k \<noteq> 0 \<and> reading c h k < reading c h (k + 17))"

lemma retire_many [simp]:
  "same_config a ((retire ^^ n) h) = same_config a h" "priv ((retire ^^ n) h) = priv h" "pc ((retire ^^ n) h) = pc h"
  "reg_get r ((retire ^^ n) h) = reg_get r h" "retired ((retire ^^ n) h) = retired h + n"
  by (induction n) (simp_all, simp add: retire_def)

context dispatcher
begin

lemma straight_trip:
  assumes code: "well_placed code" "(vec, s_trap_entry regs left handle) \<in> set code"
      "set (straight_blocks c p insn0 insn1 sig) \<subseteq> set code"
    and s: "gate_hart vec regs (hw s)" "\<not> parked s" "\<not> stuck s" "priv (hw s) = UMode" "hist_n s < HIST_N"
      "pc (hw s) = u_read p" "counter_open c (hw s)"
    and adv: "advancing c (hw s) lo hi" "lo \<le> retired (hw s)" "retired (hw s) \<le> hi"
    and k: "cont sig = Some k" "code_addr k"
  shows "\<exists>h' r row. runs code s (s\<lparr>hw := h', t_regs := r, hist := (hist s)(hist_n s := row), hist_n := Suc (hist_n s)\<rparr>) \<and>
    priv h' = SMode \<and> pc h' = k \<and> same_config (hw s) h' \<and>
    row 0 = 8 \<and> row 2 = u_ecall p \<and> row 6 = sig \<and> row 5 \<noteq> 0 \<and> row 5 < row 7 \<and> retired h' = retired (hw s) + 18"
proof -
  let ?m = "retired (hw s)"
  have blocks: "(u_read p, rd_counter c xt0 (u_read p) insn0) \<in> set code" "(u_read p + 4, do { nops 16; goto (u_spin p) }) \<in> set code"
    "(u_spin p, rd_counter c xt1 (u_spin p) insn1) \<in> set code" "(u_spin p + 4, do { put_reg xa0 sig; ecall (u_ecall p) }) \<in> set code"
    using code(3) by (auto simp: straight_blocks_def)
  let ?h1 = "(retire (reg_set xt0 (reading c (hw s) ?m) (hw s)))\<lparr>pc := u_read p + 4\<rparr>"
  let ?h2 = "((retire ^^ 16) ?h1)\<lparr>pc := u_spin p\<rparr>"
  let ?h3 = "(retire (reg_set xt1 (reading c (hw s) (?m + 17)) ?h2))\<lparr>pc := u_spin p + 4\<rparr>"
  have conf: "same_config (hw s) ?h1" "same_config (hw s) ?h2" "same_config (hw s) ?h3" by simp_all
  note g = conf [THEN gate_hart_config, OF s(1)]
  have a: "mode_step code s = Some (s\<lparr>hw := ?h1\<rparr>)"
    using read_step [OF code(1) s(1-3), of c xt0 insn0] blocks(1) s(6,7) by simp
  have b: "mode_step code (s\<lparr>hw := ?h1\<rparr>) = Some (s\<lparr>hw := ?h2\<rparr>)"
    using placed_step [OF code(1) _ _ _ , of vec regs "s\<lparr>hw := ?h1\<rparr>"] g(1) blocks(2) s(2,3)
    by (simp add: final_def gate_exec nops_def)
  have "counter_open c ?h2" using open_config [OF conf(2)] s(4,7) by simp
  then have c: "mode_step code (s\<lparr>hw := ?h2\<rparr>) = Some (s\<lparr>hw := ?h3\<rparr>)"
    using read_step [OF code(1), of vec regs "s\<lparr>hw := ?h2\<rparr>" c xt1 insn1] g(2) s(2,3) blocks(3) reading_config [OF conf(2)] by (simp add: add.commute)
  let ?s3 = "s\<lparr>hw := ?h3\<rparr>"
  obtain h' r row where t: "runs code ?s3 (?s3\<lparr>hw := h', t_regs := r, hist := (hist s)(hist_n s := row), hist_n := Suc (hist_n s)\<rparr>)"
    "priv h' = SMode" "pc h' = k" "same_config ?h3 h'" "row 0 = 8" "row 2 = u_ecall p" "row 6 = sig"
    "row 5 = reading c (hw s) ?m" "row 7 = reading c (hw s) (?m + 17)" "retired h' = ?m + 18"
    using signal_trip [OF code(1,2), of ?s3 sig "u_ecall p" k] g(3) s(2-5) blocks(4) k by auto
  have "row 5 \<noteq> 0" "row 5 < row 7" using adv t(8,9) by (simp_all add: advancing_def)
  moreover have "runs code s (s\<lparr>hw := h', t_regs := r, hist := (hist s)(hist_n s := row), hist_n := Suc (hist_n s)\<rparr>)"
    using runs_step [OF a runs_step [OF b runs_step [OF c t(1)]]] by simp
  ultimately show ?thesis using t same_config_trans [OF conf(3) t(4)] by blast
qed

end


subsection \<open>A run between two phases\<close>

text \<open>
  What holds of a run that has gone well so far: the hart is set up, its gates have the values \<open>mc\<close> and \<open>sc\<close>, \<open>n\<close> traps are
  recorded, no check has failed, and the checksum is the one over the values \<open>vs\<close>.
\<close>

abbreviation (input) FNV_BASIS :: u64 where "FNV_BASIS \<equiv> 1469598103934665603"

definition staged :: "u64 \<Rightarrow> u64 \<Rightarrow> u64 \<Rightarrow> hart \<Rightarrow> u64 \<Rightarrow> u64 \<Rightarrow> nat \<Rightarrow> u64 list \<Rightarrow> gate \<Rightarrow> bool" where
  "staged vec regs mvec h0 mc sc n vs s \<longleftrightarrow> gate_hart vec regs (hw s) \<and> \<not> parked s \<and> \<not> stuck s \<and> fails s = 0 \<and>
     legal (hw s) = legal h0 \<and> clock (hw s) = clock h0 \<and> instret (hw s) = instret h0 \<and> csrf (hw s) Mtvec = mvec \<and>
     csrf (hw s) Mcounteren = mc \<and> csrf (hw s) Scounteren = sc \<and> hist_n s = n \<and> elapsed h0 n (retired (hw s)) \<and>
     cksum s = foldl fnv64 FNV_BASIS vs \<and> finisher s = None"

definition here :: "priv_mode \<Rightarrow> u64 \<Rightarrow> gate \<Rightarrow> bool" where
  "here p a s \<longleftrightarrow> priv (hw s) = p \<and> pc (hw s) = a"

lemmas staged_run = final_def gate_exec checked_True staged_def Let_def

lemma staged_hw:
  assumes "staged vec regs mvec h0 mc sc n vs s" "same_config (hw s) h" "retired h = retired (hw s)"
  shows "staged vec regs mvec h0 mc sc n vs (s\<lparr>hw := h\<rparr>)"
  using assms gate_hart_config [OF assms(2)] same_config_simps [OF assms(2)] by (simp add: staged_def)

lemma staged_emit [simp]: "staged vec regs mvec h0 mc sc n vs (emit ps s) = staged vec regs mvec h0 mc sc n vs s"
  by (simp add: staged_def)

lemma staged_record:
  assumes "staged vec regs mvec h0 mc sc n vs s" "same_config (hw s) h" "elapsed h0 m (retired h)"
  shows "staged vec regs mvec h0 mc sc m vs (s\<lparr>hw := h, t_regs := r, hist := H, hist_n := m\<rparr>)"
  using assms gate_hart_config [OF assms(2)] same_config_simps [OF assms(2)] by (simp add: staged_def)

lemma staged_step:
  assumes "well_placed code" "staged vec regs mvec h0 mc sc n vs s" "here p a s" "(a, b) \<in> set code"
  shows "mode_step code s = Some (final b s)"
  by (rule placed_step [OF assms(1), of vec regs]) (use assms(2-4) in \<open>simp_all add: staged_def here_def\<close>)

text \<open>A phase driver that prints and drops to U-mode.\<close>

lemma staged_drop:
  assumes s: "staged vec regs mvec h0 mc sc n vs s" and a: "code_addr a"
  defines "s' \<equiv> s\<lparr>hw := u_drop a (hw s)\<rparr>"
  shows "staged vec regs mvec h0 mc sc n vs s'" "here UMode a s'"
  using staged_hw [OF s, of "u_drop a (hw s)"] drops [of vec regs "hw s" a] s a
  by (simp_all add: s'_def here_def) (simp_all add: staged_def)

lemma staged_start:
  assumes code: "well_placed code" and s: "staged vec regs mvec h0 mc sc n vs s" "here q d s" "(d, p) \<in> set code"
    and p: "code_addr a" "p = puts ps \<bind> (\<lambda>_. drop_to_umode a)"
  shows "runs code s (final p s)" "staged vec regs mvec h0 mc sc n vs (final p s)" "hist (final p s) = hist s" "here UMode a (final p s)"
proof -
  show "runs code s (final p s)" by (rule runs_one [OF staged_step [OF code s]])
  have f: "final p s = (emit ps s)\<lparr>hw := u_drop a (hw s)\<rparr>" by (simp add: p(2) final_def gate_exec)
  have "staged vec regs mvec h0 mc sc n vs (emit ps s)" using s(1) by simp
  from staged_drop [OF this p(1)] show "staged vec regs mvec h0 mc sc n vs (final p s)" "hist (final p s) = hist s"
    "here UMode a (final p s)" by (simp_all add: f)
qed

text \<open>The handoff: a supervisor call is not delegated and enters M-mode.\<close>

lemma staged_handoff:
  assumes code: "well_placed code" "(site, ecall site) \<in> set code" "(mvec, m) \<in> set code"
    and s: "staged vec regs mvec h0 mc sc n vs s" "here SMode site s"
  shows "runs code s (final m (s\<lparr>hw := trap_to_m 9 site 0 (hw s)\<rparr>))"
proof -
  let ?s1 = "s\<lparr>hw := trap_to_m 9 site 0 (hw s)\<rparr>"
  have "mode_step code s = Some ?s1"
    using staged_step [OF code(1) s code(2)] s by (simp add: final_def ecall_def route_def staged_def deleg_hart_def here_def)
  moreover have s1: "staged vec regs mvec h0 mc sc n vs ?s1" by (rule staged_hw [OF s(1)]) simp_all
  have "here MMode mvec ?s1"
    using s(1) aligned_vector [OF placed_addr [OF code(1,3)]] by (simp add: trap_to_m_def staged_def here_def)
  from staged_step [OF code(1) s1 this code(3)] have "mode_step code ?s1 = Some (final m ?s1)" .
  ultimately show ?thesis by (blast intro: runs.intros)
qed

lemma trap_to_m_csrs:
  "csrf (trap_to_m a b v h) Mcause = a" "csrf (trap_to_m a b v h) Mepc = b" "csrf (trap_to_m a b v h) Scounteren = csrf h Scounteren"
  "csrf (trap_to_m a b v h) Mcounteren = csrf h Mcounteren" "csrf (trap_to_m a b v h) Mtvec = csrf h Mtvec"
  "legal (trap_to_m a b v h) = legal h" "clock (trap_to_m a b v h) = clock h" "instret (trap_to_m a b v h) = instret h"
  by (simp_all add: trap_to_m_def)

lemma parked_stops: "parked t \<Longrightarrow> mode_step code t = None"
  by (simp add: mode_step_def)

text \<open>A run may make at most four recorded traps, so the counter has to tick over this many reads.\<close>

abbreviation ticks_enough :: "counter \<Rightarrow> hart \<Rightarrow> bool" where
  "ticks_enough c h \<equiv> ticking c h (retired h) (retired h + 4 * (2 ^ 20 + 1))"

context dispatcher
begin

lemma staged_reads:
  assumes code: "well_placed code" "(vec, s_trap_entry regs left handle) \<in> set code"
      "set (read_blocks c p insn0 insn1 sig late) \<subseteq> set code"
    and s: "staged vec regs mvec h0 mc sc n vs s" "here UMode (u_read p) s" "n < 4" "ticks_enough c h0"
      "bit mc (gate_bit c)" "bit sc (gate_bit c)"
    and k: "cont sig = Some k" "code_addr k"
  shows "\<exists>h' r row. let s' = s\<lparr>hw := h', t_regs := r, hist := (hist s)(n := row), hist_n := Suc n\<rparr> in
    runs code s s' \<and> staged vec regs mvec h0 mc sc (Suc n) vs s' \<and> here SMode k s' \<and>
    row 0 = 8 \<and> row 2 = u_ecall p \<and> row 6 = sig \<and> row 5 \<noteq> 0 \<and> row 5 < row 7"
proof -
  have g: "counter_open c (hw s)" using s(1,2,5,6) by (simp add: staged_def counter_open_def here_def)
  have tick: "ticking c (hw s) (retired h0) (retired h0 + 4 * (2 ^ 20 + 1))"
    using s(1,4) by (cases c) (simp_all add: staged_def ticking_def reading_def)
  have el: "elapsed h0 n (retired (hw s))" and n: "hist_n s = n" using s(1) by (simp_all add: staged_def)
  have bd: "retired h0 \<le> retired (hw s)" "retired (hw s) + 2 ^ 20 + 1 \<le> retired h0 + 4 * (2 ^ 20 + 1)"
    using el s(3) by (simp_all add: elapsed_def)
  obtain h' r row where t: "runs code s (s\<lparr>hw := h', t_regs := r, hist := (hist s)(n := row), hist_n := Suc n\<rparr>)"
    "priv h' = SMode" "pc h' = k" "same_config (hw s) h'" "row 0 = 8" "row 2 = u_ecall p" "row 6 = sig" "row 5 \<noteq> 0" "row 5 < row 7"
    "retired (hw s) \<le> retired h'" "retired h' \<le> retired (hw s) + 2 ^ 20 + 1"
    using read_trip [OF code, of s "retired h0" "retired h0 + 4 * (2 ^ 20 + 1)" k] s(1-3) g tick bd k n
    by (auto simp: staged_def here_def)
  have "elapsed h0 (Suc n) (retired h')" using elapsed_later [OF el t(10), of 1] t(11) by simp
  from staged_record [OF s(1) t(4) this] t show ?thesis
    by - (rule exI [of _ h'], rule exI [of _ r], rule exI [of _ row], simp add: here_def Let_def)
qed

lemma staged_straight:
  assumes code: "well_placed code" "(vec, s_trap_entry regs left handle) \<in> set code"
      "set (straight_blocks c p insn0 insn1 sig) \<subseteq> set code"
    and s: "staged vec regs mvec h0 mc sc n vs s" "here UMode (u_read p) s" "n < 4"
      "advancing c h0 (retired h0) (retired h0 + 4 * (2 ^ 20 + 1))" "bit mc (gate_bit c)" "bit sc (gate_bit c)"
    and k: "cont sig = Some k" "code_addr k"
  shows "\<exists>h' r row. let s' = s\<lparr>hw := h', t_regs := r, hist := (hist s)(n := row), hist_n := Suc n\<rparr> in
    runs code s s' \<and> staged vec regs mvec h0 mc sc (Suc n) vs s' \<and> here SMode k s' \<and>
    row 0 = 8 \<and> row 2 = u_ecall p \<and> row 6 = sig \<and> row 5 \<noteq> 0 \<and> row 5 < row 7"
proof -
  have g: "counter_open c (hw s)" using s(1,2,5,6) by (simp add: staged_def counter_open_def here_def)
  have adv: "advancing c (hw s) (retired h0) (retired h0 + 4 * (2 ^ 20 + 1))"
    using s(1,4) by (cases c) (simp_all add: staged_def advancing_def reading_def)
  have el: "elapsed h0 n (retired (hw s))" and n: "hist_n s = n" using s(1) by (simp_all add: staged_def)
  have bd: "retired h0 \<le> retired (hw s)" "retired (hw s) \<le> retired h0 + 4 * (2 ^ 20 + 1)"
    using el s(3) by (simp_all add: elapsed_def)
  obtain h' r row where t: "runs code s (s\<lparr>hw := h', t_regs := r, hist := (hist s)(n := row), hist_n := Suc n\<rparr>)"
    "priv h' = SMode" "pc h' = k" "same_config (hw s) h'" "row 0 = 8" "row 2 = u_ecall p" "row 6 = sig" "row 5 \<noteq> 0" "row 5 < row 7"
    "retired h' = retired (hw s) + 18"
    using straight_trip [OF code, of s "retired h0" "retired h0 + 4 * (2 ^ 20 + 1)" k] s(1-3) g adv bd k n
    by (auto simp: staged_def here_def)
  have "elapsed h0 (Suc n) (retired h')" using elapsed_later [OF el, of "retired h'" 1] t(10) by simp
  from staged_record [OF s(1) t(4) this] t show ?thesis
    by - (rule exI [of _ h'], rule exI [of _ r], rule exI [of _ row], simp add: here_def Let_def)
qed

lemma staged_gated:
  assumes code: "well_placed code" "(vec, s_trap_entry regs left handle) \<in> set code"
      "set (gated_blocks c payload site ecall_site insn sig) \<subseteq> set code"
    and s: "staged vec regs mvec h0 mc sc n vs s" "here UMode payload s" "Suc n < HIST_N"
      "\<not> (bit mc (gate_bit c) \<and> bit sc (gate_bit c))"
    and k: "cont sig = Some k" "code_addr k"
  shows "\<exists>h' r row1 row2. let s' = s\<lparr>hw := h', t_regs := r, hist := (hist s)(n := row1, Suc n := row2), hist_n := Suc (Suc n)\<rparr> in
    runs code s s' \<and> staged vec regs mvec h0 mc sc (Suc (Suc n)) vs s' \<and> here SMode k s' \<and>
    row1 0 = 2 \<and> row1 2 = site \<and> row1 5 = U_SENTINEL \<and> row2 0 = 8 \<and> row2 2 = ecall_site \<and> row2 6 = sig"
proof -
  have g: "\<not> counter_open c (hw s)" using s(1,2,4) by (auto simp: staged_def counter_open_def here_def)
  have el: "elapsed h0 n (retired (hw s))" and n: "hist_n s = n" using s(1) by (simp_all add: staged_def)
  obtain h' r row1 row2 where t: "runs code s (s\<lparr>hw := h', t_regs := r, hist := (hist s)(n := row1, Suc n := row2),
      hist_n := Suc (Suc n)\<rparr>)" "priv h' = SMode" "pc h' = k" "same_config (hw s) h'"
    "row1 0 = 2" "row1 2 = site" "row1 5 = U_SENTINEL" "row2 0 = 8" "row2 2 = ecall_site" "row2 6 = sig"
    "retired h' = retired (hw s)"
    using gated_trip [OF code, of s k] s(1-3) g k n by (auto simp: staged_def here_def)
  have "elapsed h0 (n + 2) (retired h')" using elapsed_later [OF el, of "retired h'" 2] t(11) by simp
  then have "elapsed h0 (Suc (Suc n)) (retired h')" by simp
  from staged_record [OF s(1) t(4) this] t show ?thesis
    by - (rule exI [of _ h'], rule exI [of _ r], rule exI [of _ row1], rule exI [of _ row2], simp add: here_def Let_def)
qed

end


subsection \<open>Boot\<close>

text \<open>What every one of the programs asks of its hart, and the state it starts in.\<close>

definition plain_hart :: "u64 \<Rightarrow> u64 \<Rightarrow> u64 \<Rightarrow> hart \<Rightarrow> bool" where
  "plain_hart vec regs mvec h \<longleftrightarrow> keeps_bits h Mstatus STEER \<and> (\<forall>a. code_addr a \<longrightarrow> takes h Sepc a \<and> takes h Mepc a) \<and>
     takes h Mtvec mvec \<and> takes h Stvec vec \<and> takes h Sscratch regs \<and> takes h Medeleg 0x104 \<and>
     takes h Pmpcfg0 0x1f \<and> (\<forall>old. legal h Pmpaddr0 old (- 1) \<in> {- 1, mask 54}) \<and> csrf h Pmpcfg0 = 0"

definition booted :: "u64 \<Rightarrow> gate \<Rightarrow> bool" where
  "booted main s \<longleftrightarrow> priv (hw s) = MMode \<and> pc (hw s) = main \<and> \<not> parked s \<and> \<not> stuck s \<and> fails s = 0 \<and> hist_n s = 0 \<and>
     cksum s = FNV_BASIS \<and> finisher s = None"

text \<open>The hart after vectors, delegation and PMP are set.\<close>

definition equipped :: "u64 \<Rightarrow> u64 \<Rightarrow> u64 \<Rightarrow> hart \<Rightarrow> hart" where
  "equipped vec regs mvec h = csr_store Pmpcfg0 0x1f (csr_store Pmpaddr0 (- 1) (csr_store Medeleg 0x104
     (csr_store Sscratch regs (csr_store Stvec vec (csr_store Mtvec mvec h)))))"

lemma equipped_simps [simp]:
  "legal (equipped vec regs mvec h) = legal h" "clock (equipped vec regs mvec h) = clock h"
  "instret (equipped vec regs mvec h) = instret h" "retired (equipped vec regs mvec h) = retired h"
  "csrf (equipped vec regs mvec h) Mcounteren = csrf h Mcounteren" "csrf (equipped vec regs mvec h) Scounteren = csrf h Scounteren"
  by (simp_all add: equipped_def)

lemma equipped_gate:
  assumes "plain_hart vec regs mvec h0" "legal h = legal h0"
  shows "gate_hart vec regs (equipped vec regs mvec h)" "csrf (equipped vec regs mvec h) Mtvec = mvec"
  using assms by (simp_all add: equipped_def plain_hart_def deleg_hart_def keeps_bits_def takes_def pmp_everything_def)

lemma equipped_drop:
  assumes "plain_hart vec regs mvec h0" "legal h = legal h0" "code_addr a"
  defines "h' \<equiv> s_drop a (equipped vec regs mvec h)"
  shows "gate_hart vec regs h'" "csrf h' Mtvec = mvec" "priv h' = SMode" "pc h' = a" "legal h' = legal h0" "clock h' = clock h"
    "instret h' = instret h" "retired h' = retired h" "csrf h' Mcounteren = csrf h Mcounteren" "csrf h' Scounteren = csrf h Scounteren"
proof -
  have conf: "same_config (equipped vec regs mvec h) h'" by (simp add: h'_def)
  note g = equipped_gate [OF assms(1,2)]
  show "gate_hart vec regs h'" by (rule gate_hart_config [OF conf g(1)])
  show "priv h' = SMode" "pc h' = a" using drops(1,2) [OF g(1) assms(3)] by (simp_all add: h'_def)
  show "csrf h' Mtvec = mvec" "legal h' = legal h0" "clock h' = clock h" "instret h' = instret h"
    "csrf h' Mcounteren = csrf h Mcounteren" "csrf h' Scounteren = csrf h Scounteren"
    using same_config_simps(1-4) [OF conf] g(2) assms(2) by simp_all
  show "retired h' = retired h" by (simp add: h'_def)
qed

lemma boot_step:
  assumes "well_placed code" "booted main s" "(main, b) \<in> set code" "csrf (hw s) Pmpcfg0 = 0"
  shows "mode_step code s = Some (final b s)"
  using block_step [of s code b] assms pmp_open by (auto simp: booted_def well_placed_def)


subsection \<open>An example machine\<close>

text \<open>A machine for the witnesses: everything zero, the clock counts reads, and the legalisation is a parameter.\<close>

lemma counting_reads:
  assumes "clock h = (\<lambda>k. (of_nat (Suc k), of_nat (Suc k)))" "instret h = (\<lambda>k. of_nat (Suc k))" "k < 2 ^ 32"
  shows "unat (reading c h k) = Suc k"
proof -
  have "reading c h k = of_nat (Suc k)" using assms(1,2) by (simp add: reading_def del: of_nat_Suc split: counter.split)
  with assms(3) show ?thesis by (simp add: unat_of_nat take_bit_nat_eq_self del: of_nat_Suc)
qed

lemma counting_clock:
  assumes "clock h = (\<lambda>k. (of_nat (Suc k), of_nat (Suc k)))" "instret h = (\<lambda>k. of_nat (Suc k))" "hi < 2 ^ 31"
  shows "ticking c h lo hi"
  unfolding ticking_def
proof (intro allI impI conjI)
  fix k assume k: "lo \<le> k \<and> k < hi"
  note uk = counting_reads [OF assms(1,2), of k c] counting_reads [OF assms(1,2), of "Suc k" c]
  show "reading c h k \<noteq> 0" using uk k assms(3) by force
  show "reading c h k \<le> reading c h (Suc k)" using uk k assms(3) by (simp add: word_le_nat_alt)
  show "\<exists>j < 2 ^ 20. reading c h (k + Suc j) \<noteq> reading c h k" using uk k assms(3) by (intro exI [of _ 0]) force
qed

lemma counting_advances:
  assumes "clock h = (\<lambda>k. (of_nat (Suc k), of_nat (Suc k)))" "instret h = (\<lambda>k. of_nat (Suc k))" "hi < 2 ^ 31"
  shows "advancing c h lo hi"
  unfolding advancing_def
proof (intro allI impI conjI)
  fix k assume k: "lo \<le> k \<and> k \<le> hi"
  note uk = counting_reads [OF assms(1,2), of k c] counting_reads [OF assms(1,2), of "k + 17" c]
  show "reading c h k \<noteq> 0" using uk k assms(3) by force
  show "reading c h k < reading c h (k + 17)" using uk k assms(3) by (simp add: word_less_nat_alt)
qed

definition gate_example_hart :: "u64 \<Rightarrow> (csr \<Rightarrow> u64 \<Rightarrow> u64 \<Rightarrow> u64) \<Rightarrow> hart" where
  "gate_example_hart a leg = \<lparr>gpr = \<lambda>_. 0, csrf = \<lambda>_. 0, ram = \<lambda>_. 0, pc = a, priv = MMode,
     clock = \<lambda>k. (of_nat (Suc k), of_nat (Suc k)), retired = 0, legal = leg, instret = (\<lambda>k. of_nat (Suc k))\<rparr>"

definition gate_example :: "u64 \<Rightarrow> (csr \<Rightarrow> u64 \<Rightarrow> u64 \<Rightarrow> u64) \<Rightarrow> gate" where
  "gate_example a leg = \<lparr>out = [], hw = gate_example_hart a leg, fails = 0, nchecks = 0, save = \<lambda>_. 0, finisher = None, overrun = [],
     parked = False, stuck = False, t_regs = \<lambda>_. 0, m_regs = \<lambda>_. 0, m_phase = 0, hist = \<lambda>_ _. 0, hist_n = 0, bad_cause = 0,
     bad_sig = 0, boot_mc = 0, boot_sc = 0, boot_deleg = 0, cksum = FNV_BASIS\<rparr>"

end
