(* ===== verification/Mtmu.thy ===== *)
theory Mtmu
  imports Gate
begin

text \<open>
  \<open>src/src/mcounteren-tm-u-gate\<close>: \<open>mcounteren.TM\<close> gates a U-mode \<open>rdtime\<close>. \<open>main\<close> runs in
  M-mode and drops to an S-mode driver, which drops to U-mode payloads. Delegated traps of a payload come back to an S-mode
  handler that records them; an S-mode \<open>ecall\<close> hands each phase back to M-mode, which moves the gate.

  Each C function and each payload fragment between two trap sites is a block of the table \<open>mtmu_code\<close>.
  Addresses are symbols. \<open>uart_drain\<close>, which waits for the transmitter, is not modelled: text sent is
  on the console.
\<close>

unbundle bit_operations_syntax

abbreviation (input) MTMU_SIG_A :: u64 where "MTMU_SIG_A \<equiv> 0xa1a1"
abbreviation (input) MTMU_SIG_B :: u64 where "MTMU_SIG_B \<equiv> 0xa2a2"
abbreviation (input) MTMU_SIG_C :: u64 where "MTMU_SIG_C \<equiv> 0xa3a3"
abbreviation (input) COUNTEREN_TM :: u64 where "COUNTEREN_TM \<equiv> 2"


record mtmu_syms =
  f_main :: u64
  a_trap_entry :: u64
  a_mt_trap_entry :: u64
  a_regs :: u64
  f_smode_test :: u64
  f_phase_a_done :: u64
  f_phase_b_start :: u64
  f_phase_b_done :: u64
  f_phase_c_start :: u64
  f_phase_c_done :: u64
  f_unexpected :: u64
  s_ecall_site :: u64
  pay_a :: read_syms
  pay_c :: read_syms
  u_payload_b :: u64
  u_gated_b :: u64
  u_ecall_b :: u64
  left_t2 :: u64


subsection \<open>Dispatcher\<close>

text \<open>The dispatcher records the trap and decides where to resume. SPP is set for the S-mode continuations.\<close>

definition mtmu_handle :: "mtmu_syms \<Rightarrow> (unit gate_ext modes_ext, u64) prog" where
  "mtmu_handle y = do {
     record_trap;
     r \<leftarrow> gets t_regs;
     if r 0 = 2 then resume_at (r 2 + 4)
     else if r 0 = 8 then do {
       csrs Sstatus 0x100;
       if r 6 = MTMU_SIG_A then resume_at (f_phase_a_done y)
       else if r 6 = MTMU_SIG_B then resume_at (f_phase_b_done y)
       else if r 6 = MTMU_SIG_C then resume_at (f_phase_c_done y)
       else do { modify (\<lambda>s. s\<lparr>bad_cause := r 0, bad_sig := r 6\<rparr>); resume_at (f_unexpected y) } }
     else do {
       modify (\<lambda>s. s\<lparr>bad_cause := r 0, bad_sig := r 6\<rparr>);
       csrs Sstatus 0x100;
       resume_at (f_unexpected y) } }"

subsection \<open>S-mode phases\<close>

text \<open>\<open>mtmu_s_ecall()\<close> at the end of a phase: control moves to the \<open>ecall\<close> site.\<close>

definition mtmu_phase_a_done :: "mtmu_syms \<Rightarrow> gprog" where
  "mtmu_phase_a_done y = do {
     puts [Str ''\<newline>--- back in S-mode: phase A complete ---\<newline>'', Str ''trap history:\<newline>''];
     print_trap 0 ''SIG_A ecall '';
     n \<leftarrow> gets hist_n; h \<leftarrow> gets (\<lambda>s. hist s 0);
     check_feed (n = 1) ''phase A: trap count is not 1'' (of_bool (n = 1));
     check_feed (h 0 = 8) ''phase A: trap 1 scause is not 8 (ecall from U-mode)'' (h 0);
     check_feed (h 2 = u_ecall (pay_a y)) ''phase A: trap 1 sepc is not at the payload ecall site''
       (of_bool (h 2 = u_ecall (pay_a y)));
     check_feed (h 6 = MTMU_SIG_A) ''phase A: trap 1 signal is not SIG_A'' (of_bool (h 6 = MTMU_SIG_A));
     let s0 = h 5;
     let s1 = h 7;
     puts [Str ''  rdtime sample 0 (t0) = '', Hex s0, Str ''\<newline>  rdtime sample 1 (t1) = '', Hex s1,
       Str ''  (delta = '', Dec (s1 - s0), Str '')\<newline>''];
     check_feed (s1 > s0) ''phase A: rdtime samples did not strictly increase'' (of_bool (s1 > s0));
     check_feed (s0 \<noteq> 0) ''phase A: rdtime sample 0 is zero (timer not running?)'' (of_bool (s0 \<noteq> 0));
     puts [Str ''\<newline>phase A done; handing back to M-mode to clear mcounteren.TM...\<newline>''];
     goto (s_ecall_site y) }"

definition mtmu_phase_b_start :: "mtmu_syms \<Rightarrow> gprog" where
  "mtmu_phase_b_start y = do {
     puts [Str ''\<newline>in S-mode; mcounteren-tm-u-gate phase B begins\<newline>'', Str ''dropping to U-mode with mcounteren.TM=0...\<newline>''];
     drop_to_umode (u_payload_b y) }"

definition mtmu_phase_b_done :: "mtmu_syms \<Rightarrow> gprog" where
  "mtmu_phase_b_done y = do {
     puts [Str ''\<newline>--- back in S-mode: phase B complete ---\<newline>'', Str ''trap history:\<newline>''];
     print_trap 0 ''SIG_A ecall   '';
     print_trap 1 ''gated rdtime  '';
     print_trap 2 ''SIG_B ecall   '';
     n \<leftarrow> gets hist_n; h1 \<leftarrow> gets (\<lambda>s. hist s 1); h2 \<leftarrow> gets (\<lambda>s. hist s 2);
     check_feed (n = 3) ''phase B: trap count is not 3'' (of_bool (n = 3));
     check_feed (h1 0 = 2) ''phase B: trap 2 scause is not 2 (illegal instruction)'' (h1 0);
     check_feed (h1 2 = u_gated_b y) ''phase B: trap 2 sepc is not at the rdtime site'' (of_bool (h1 2 = u_gated_b y));
     check_feed (h1 5 = U_SENTINEL) ''phase B: rdtime destination changed (it retired?)'' (of_bool (h1 5 = U_SENTINEL));
     check_feed (h2 0 = 8) ''phase B: trap 3 scause is not 8 (ecall from U-mode)'' (h2 0);
     check_feed (h2 2 = u_ecall_b y) ''phase B: trap 3 sepc is not at the payload ecall site'' (of_bool (h2 2 = u_ecall_b y));
     check_feed (h2 6 = MTMU_SIG_B) ''phase B: trap 3 signal is not SIG_B'' (of_bool (h2 6 = MTMU_SIG_B));
     puts [Str ''\<newline>phase B done; handing back to M-mode to set mcounteren.TM...\<newline>''];
     goto (s_ecall_site y) }"

definition mtmu_phase_c_start :: "mtmu_syms \<Rightarrow> gprog" where
  "mtmu_phase_c_start y = do {
     puts [Str ''\<newline>in S-mode; mcounteren-tm-u-gate phase C begins\<newline>'', Str ''dropping to U-mode with mcounteren.TM=1...\<newline>''];
     drop_to_umode (u_read (pay_c y)) }"

definition mtmu_phase_c_done :: "mtmu_syms \<Rightarrow> gprog" where
  "mtmu_phase_c_done y = do {
     puts [Str ''\<newline>--- back in S-mode: phase C complete ---\<newline>'', Str ''trap history:\<newline>''];
     print_trap 0 ''SIG_A ecall   '';
     print_trap 1 ''gated rdtime  '';
     print_trap 2 ''SIG_B ecall   '';
     print_trap 3 ''SIG_C ecall   '';
     n \<leftarrow> gets hist_n; h \<leftarrow> gets (\<lambda>s. hist s 3);
     check_feed (n = 4) ''phase C: trap count is not 4'' (of_bool (n = 4));
     check_feed (h 0 = 8) ''phase C: trap 4 scause is not 8 (ecall from U-mode)'' (h 0);
     check_feed (h 2 = u_ecall (pay_c y)) ''phase C: trap 4 sepc is not at the payload ecall site''
       (of_bool (h 2 = u_ecall (pay_c y)));
     check_feed (h 6 = MTMU_SIG_C) ''phase C: trap 4 signal is not SIG_C'' (of_bool (h 6 = MTMU_SIG_C));
     let s0 = h 5;
     let s1 = h 7;
     puts [Str ''  rdtime sample 0 (t0) = '', Hex s0, Str ''\<newline>  rdtime sample 1 (t1) = '', Hex s1,
       Str ''  (delta = '', Dec (s1 - s0), Str '')\<newline>''];
     check_feed (s1 > s0) ''phase C: rdtime samples did not strictly increase'' (of_bool (s1 > s0));
     check_feed (s0 \<noteq> 0) ''phase C: rdtime sample 0 is zero (timer not running?)'' (of_bool (s0 \<noteq> 0));
     puts [Str ''\<newline>phase C done; handing back to M-mode to restore CSRs and exit...\<newline>''];
     goto (s_ecall_site y) }"

definition mtmu_unexpected :: gprog where
  "mtmu_unexpected = do {
     c \<leftarrow> gets bad_cause; g \<leftarrow> gets bad_sig; n \<leftarrow> gets hist_n;
     puts [Str ''\<newline>--- UNEXPECTED TRAP ---\<newline>'', Str ''  cause='', Hex c, Str '' signal(a0)='', Hex g,
       Str ''\<newline>  history depth='', Dec (of_nat n), Str ''\<newline>''];
     print_hist 0 (min n HIST_N);
     puts [Str ''RESULT: FAIL\<newline>''];
     park }"

definition mtmu_smode_test :: "mtmu_syms \<Rightarrow> gprog" where
  "mtmu_smode_test y = do {
     puts [Str ''in S-mode; mcounteren-tm-u-gate experiment begins\<newline>'', Str ''phase A payload: rdtime site '',
       Hex (u_read (pay_a y)), Str '', ecall site '', Hex (u_ecall (pay_a y)), Str ''\<newline>'',
       Str ''dropping to U-mode with mcounteren.TM=1...\<newline>''];
     drop_to_umode (u_read (pay_a y)) }"


subsection \<open>M-mode\<close>

definition m_scounteren :: "string \<Rightarrow> gprog" where
  "m_scounteren msg = do {
     sc \<leftarrow> csrr Scounteren;
     puts [Str ''  scounteren still='', Hex sc, Str ''\<newline>''];
     check_feed (sc = COUNTEREN_TM) msg (of_bool (sc = COUNTEREN_TM)) }"

definition mtmu_m_handle :: "mtmu_syms \<Rightarrow> gprog" where
  "mtmu_m_handle y = do {
     r \<leftarrow> gets m_regs; ph \<leftarrow> gets m_phase;
     puts [Str ''\<newline>--- M-mode: S-mode handoff ecall ---\<newline>'', Str ''  mcause='', Hex (r 0), Str '' mepc='', Hex (r 1),
       Str '' M-mode trap count='', Dec (r 2), Str '' phase='', Dec ph, Str ''\<newline>''];
     check_feed (r 0 = 9) ''M-mode: trap is not an S-mode ecall (cause 9)'' (r 0);
     check_feed (r 1 = s_ecall_site y) ''M-mode: mepc is not at the S-mode ecall site'' (of_bool (r 1 = s_ecall_site y));
     if ph = 0 then do {
       m_scounteren ''M-mode: scounteren.TM did not stay set'';
       rb \<leftarrow> m_gate_readback ''  mcounteren after clear='' 0;
       check_feed (rb AND COUNTEREN_TM = 0) ''M-mode: mcounteren.TM did not clear'' (of_bool (rb AND COUNTEREN_TM = 0));
       m_arm 1 ''phase B armed (mcounteren.TM=0); dropping to S-mode...\<newline>'' (f_phase_b_start y) }
     else if ph = 1 then do {
       m_scounteren ''M-mode: scounteren.TM did not stay set through phase B'';
       rb \<leftarrow> m_gate_readback ''  mcounteren after set='' COUNTEREN_TM;
       check_feed (rb AND COUNTEREN_TM \<noteq> 0) ''M-mode: mcounteren.TM did not set'' (of_bool (rb AND COUNTEREN_TM \<noteq> 0));
       m_arm 2 ''phase C armed (mcounteren.TM=1); dropping to S-mode...\<newline>'' (f_phase_c_start y) }
     else if ph = 2 then do {
       mc \<leftarrow> gets boot_mc; sc \<leftarrow> gets boot_sc; deleg \<leftarrow> gets boot_deleg;
       m_restore Mcounteren mc ''  mcounteren restore readback='' ''M-mode: mcounteren did not restore to its boot value'';
       m_restore Scounteren sc ''  scounteren restore readback='' ''M-mode: scounteren did not restore to its boot value'';
       m_restore Medeleg deleg ''  medeleg restore readback='' ''M-mode: medeleg did not restore to its boot value'';
       check_feed (r 2 = 3) ''M-mode: trap count is not exactly the 3 expected handoffs'' (of_bool (r 2 = 3));
       gate_verdict }
     else do {
       puts [Str ''\<newline>--- UNEXPECTED M-MODE PHASE ---\<newline>'', Str ''  phase='', Dec ph, Str ''\<newline>RESULT: FAIL\<newline>''];
       park } }"

text \<open>\<open>main\<close>: the four set-up steps and the drop.\<close>

definition mtmu_boot_gates :: gprog where
  "mtmu_boot_gates = do {
     mc \<leftarrow> csrr Mcounteren;
     sc \<leftarrow> csrr Scounteren;
     modify (\<lambda>s. s\<lparr>boot_mc := mc, boot_sc := sc\<rparr>);
     puts [Str ''boot: mcounteren='', Hex mc, Str '' scounteren='', Hex sc, Str ''\<newline>''];
     check_feed (mc = 0) ''boot mcounteren is not 0'' mc;
     rb \<leftarrow> m_gate_readback ''probe: csrw mcounteren, 0x7; readback='' 7;
     check_feed (rb = 7) ''mcounteren write of 0x7 did not read back as 0x7'' rb;
     rb \<leftarrow> m_gate_readback ''write: csrw mcounteren, 0x2 (TM); readback='' COUNTEREN_TM;
     check_feed (rb AND COUNTEREN_TM \<noteq> 0) ''mcounteren.TM did not stick'' (of_bool (rb AND COUNTEREN_TM \<noteq> 0));
     csrw Scounteren COUNTEREN_TM;
     rb \<leftarrow> csrr Scounteren;
     puts [Str ''write: csrw scounteren, 0x2 (TM); readback='', Hex rb, Str ''\<newline>''];
     check_feed (rb = COUNTEREN_TM) ''scounteren.TM did not stick'' rb }"

definition mtmu_delegate :: gprog where
  "mtmu_delegate = do {
     b \<leftarrow> csrr Medeleg;
     modify (\<lambda>s. s\<lparr>boot_deleg := b\<rparr>);
     csrw Medeleg 0x104;
     deleg \<leftarrow> csrr Medeleg;
     puts [Str ''boot: medeleg='', Hex b, Str ''\<newline>'', Str ''medeleg readback='', Hex deleg, Str ''\<newline>''];
     check_feed (deleg AND 0x104 = 0x104) ''medeleg bits 2 and 8 not set'' (of_bool (deleg AND 0x104 = 0x104)) }"

definition mtmu_main :: "mtmu_syms \<Rightarrow> gprog" where
  "mtmu_main y = do {
     puts [Str ''\<newline>========================================\<newline>'', Str ''mcounteren.TM gates U-mode rdtime\<newline>'',
       Str ''TM set must read, TM clear must trap\<newline>'', Str ''========================================\<newline>\<newline>''];
     mtmu_boot_gates;
     set_vectors (a_mt_trap_entry y) (a_trap_entry y) (a_regs y);
     mtmu_delegate;
     open_pmp;
     puts [Str ''setup complete; dropping to S-mode...\<newline>''];
     drop_to_smode (f_smode_test y) }"


subsection \<open>The table\<close>

definition mtmu_code :: "mtmu_syms \<Rightarrow> (u64 \<times> gprog) list" where
  "mtmu_code y =
    [(f_main y, mtmu_main y),
     (a_trap_entry y, s_trap_entry (a_regs y) (left_t2 y) (mtmu_handle y)),
     (a_mt_trap_entry y, m_trap_entry (mtmu_m_handle y)),
     (f_smode_test y, mtmu_smode_test y),
     (f_phase_a_done y, mtmu_phase_a_done y),
     (f_phase_b_start y, mtmu_phase_b_start y),
     (f_phase_b_done y, mtmu_phase_b_done y),
     (f_phase_c_start y, mtmu_phase_c_start y),
     (f_phase_c_done y, mtmu_phase_c_done y),
     (f_unexpected y, mtmu_unexpected),
     (s_ecall_site y, ecall (s_ecall_site y))]
    @ read_blocks TM (pay_a y) 0xC01022F3 0xC0102373 MTMU_SIG_A 0xa1e1
    @ gated_blocks TM (u_payload_b y) (u_gated_b y) (u_ecall_b y) 0xC01022F3 MTMU_SIG_B
    @ read_blocks TM (pay_c y) 0xC01022F3 0xC0102373 MTMU_SIG_C 0xa3e1"


subsection \<open>The dispatcher contract\<close>

definition mtmu_cont :: "mtmu_syms \<Rightarrow> u64 \<Rightarrow> u64 option" where
  "mtmu_cont y sig = (if sig = MTMU_SIG_A then Some (f_phase_a_done y) else if sig = MTMU_SIG_B then Some (f_phase_b_done y)
     else if sig = MTMU_SIG_C then Some (f_phase_c_done y) else None)"

interpretation mtmu: dispatcher "mtmu_handle y" "mtmu_cont y" for y
proof unfold_locales
  fix s :: gate
  assume "hist_n s < 8" "t_regs s 0 = 2"
  then show "run_state (mtmu_handle y) s = (t_regs s 2 + 4, noted (t_regs s 2 + 4) s)"
    by (cases s) (simp add: mtmu_handle_def record_trap_def gate_exec noted_def)
next
  fix s :: gate and k
  assume "hist_n s < 8" "t_regs s 0 = 8" "mtmu_cont y (t_regs s 6) = Some k"
  then show "run_state (mtmu_handle y) s = (k, (noted k s)\<lparr>hw := set_spp (hw s)\<rparr>)"
    by (cases s) (auto simp: mtmu_handle_def record_trap_def gate_exec noted_def set_spp_def mtmu_cont_def split: if_splits)
qed


subsection \<open>The phases on a conforming hart\<close>

definition mtmu_stage :: "mtmu_syms \<Rightarrow> hart \<Rightarrow> u64 \<Rightarrow> u64 \<Rightarrow> nat \<Rightarrow> u64 list \<Rightarrow> gate \<Rightarrow> bool" where
  "mtmu_stage y h0 mc ph n vs s \<longleftrightarrow> staged (a_trap_entry y) (a_regs y) (a_mt_trap_entry y) h0 mc 2 n vs s \<and>
     m_phase s = ph \<and> m_regs s 2 = ph \<and> boot_mc s = 0 \<and> boot_sc s = csrf h0 Scounteren \<and> boot_deleg s = csrf h0 Medeleg"

lemmas mtmu_run = mtmu_stage_def staged_run here_def

lemma mtmu_staged: "mtmu_stage y h0 mc ph n vs s \<Longrightarrow> staged (a_trap_entry y) (a_regs y) (a_mt_trap_entry y) h0 mc 2 n vs s"
  by (simp add: mtmu_stage_def)

lemma mtmu_phase_a_done_stage:
  assumes "mtmu_stage y h0 2 0 1 vs s" "here SMode a s" "hist s 0 0 = 8" "hist s 0 2 = u_ecall (pay_a y)" "hist s 0 6 = MTMU_SIG_A"
    "hist s 0 5 \<noteq> 0" "hist s 0 5 < hist s 0 7"
  shows "mtmu_stage y h0 2 0 1 (vs @ [1, 8, 1, 1, 1, 1]) (final (mtmu_phase_a_done y) s) \<and>
    here SMode (s_ecall_site y) (final (mtmu_phase_a_done y) s)"
  using assms by (simp add: mtmu_phase_a_done_def mtmu_run cong: probe_cong)

lemma mtmu_phase_b_done_stage:
  assumes "mtmu_stage y h0 0 1 3 vs s" "here SMode a s" "hist s 1 0 = 2" "hist s 1 2 = u_gated_b y" "hist s 1 5 = U_SENTINEL"
    "hist s 2 0 = 8" "hist s 2 2 = u_ecall_b y" "hist s 2 6 = MTMU_SIG_B"
  shows "mtmu_stage y h0 0 1 3 (vs @ [1, 2, 1, 1, 8, 1, 1]) (final (mtmu_phase_b_done y) s) \<and>
    here SMode (s_ecall_site y) (final (mtmu_phase_b_done y) s) \<and> hist (final (mtmu_phase_b_done y) s) = hist s"
  using assms by (simp add: mtmu_phase_b_done_def mtmu_run cong: probe_cong)

lemma mtmu_phase_c_done_stage:
  assumes "mtmu_stage y h0 2 2 4 vs s" "here SMode a s" "hist s 3 0 = 8" "hist s 3 2 = u_ecall (pay_c y)" "hist s 3 6 = MTMU_SIG_C"
    "hist s 3 5 \<noteq> 0" "hist s 3 5 < hist s 3 7"
  shows "mtmu_stage y h0 2 2 4 (vs @ [1, 8, 1, 1, 1, 1]) (final (mtmu_phase_c_done y) s) \<and>
    here SMode (s_ecall_site y) (final (mtmu_phase_c_done y) s) \<and> hist (final (mtmu_phase_c_done y) s) = hist s"
  using assms by (simp add: mtmu_phase_c_done_def mtmu_run cong: probe_cong)

lemma mtmu_start_stage:
  assumes s: "mtmu_stage y h0 mc ph n vs s" and a: "code_addr a" and p: "p = puts ps \<bind> (\<lambda>_. drop_to_umode a)"
  shows "mtmu_stage y h0 mc ph n vs (final p s)" "hist (final p s) = hist s" "here UMode a (final p s)"
proof -
  have f: "final p s = (emit ps s)\<lparr>hw := u_drop a (hw s)\<rparr>" by (simp add: p final_def gate_exec)
  have "staged (a_trap_entry y) (a_regs y) (a_mt_trap_entry y) h0 mc 2 n vs (emit ps s)" using s by (simp add: mtmu_stage_def)
  note d = staged_drop [OF this a]
  show "mtmu_stage y h0 mc ph n vs (final p s)" using d(1) s by (simp add: f mtmu_stage_def)
  show "hist (final p s) = hist s" by (simp add: f)
  show "here UMode a (final p s)" using d(2) by (simp add: f)
qed

text \<open>What the program asks of its hart. That \<open>mcounteren\<close> can be cleared is a hypothesis of its own below.\<close>

definition mtmu_hart :: "mtmu_syms \<Rightarrow> hart \<Rightarrow> bool" where
  "mtmu_hart y h \<longleftrightarrow> plain_hart (a_trap_entry y) (a_regs y) (a_mt_trap_entry y) h \<and> ticks_enough TM h \<and>
     takes h Mcounteren 2 \<and> takes h Mcounteren 7 \<and> csrf h Mcounteren = 0 \<and> takes h Scounteren 2 \<and>
     takes h Scounteren (csrf h Scounteren) \<and> takes h Medeleg (csrf h Medeleg)"

definition mtmu_boot_state :: "mtmu_syms \<Rightarrow> gate \<Rightarrow> bool" where
  "mtmu_boot_state y s \<longleftrightarrow> mtmu_hart y (hw s) \<and> booted (f_main y) s \<and> m_phase s = 0 \<and> m_regs s 2 = 0"

lemma run_m_scounteren [simp]:
  "csrf (hw s) Scounteren = 2 \<Longrightarrow>
   run_state (m_scounteren msg) s = ((), (emit [Str ''  scounteren still='', Hex 2, Str ''\<newline>''] s)\<lparr>cksum := fnv64 (cksum s) 1\<rparr>)"
  by (simp add: m_scounteren_def gate_exec checked_True)

abbreviation (input) mtmu_called :: "mtmu_syms \<Rightarrow> gate \<Rightarrow> gate" where
  "mtmu_called y s \<equiv> final (m_trap_entry (mtmu_m_handle y)) (s\<lparr>hw := trap_to_m 9 (s_ecall_site y) 0 (hw s)\<rparr>)"

lemmas mtmu_m_run = m_trap_entry_def mtmu_m_handle_def mtmu_run run_m_gate_readback [THEN exec_step] run_m_scounteren [THEN exec_step]
  trap_to_m_csrs

lemma mtmu_m_handle_stage:
  assumes h0: "mtmu_hart y h0" "takes h0 Mcounteren 0" and s: "mtmu_stage y h0 mc ph n vs s"
    and a: "code_addr (f_phase_b_start y)" "code_addr (f_phase_c_start y)"
  defines "t \<equiv> mtmu_called y s"
  shows "ph = 0 \<Longrightarrow> mtmu_stage y h0 0 1 n (vs @ [9, 1, 1, 1]) t \<and> hist t = hist s \<and> here SMode (f_phase_b_start y) t"
    "ph = 1 \<Longrightarrow> mtmu_stage y h0 2 2 n (vs @ [9, 1, 1, 1]) t \<and> hist t = hist s \<and> here SMode (f_phase_c_start y) t"
proof -
  let ?h1 = "trap_to_m 9 (s_ecall_site y) 0 (hw s)"
  have g: "gate_hart (a_trap_entry y) (a_regs y) ?h1"
    using gate_hart_config [of "hw s" ?h1] s by (simp add: mtmu_stage_def staged_def)
  let ?g0 = "csr_store Mcounteren 0 ?h1" and ?g2 = "csr_store Mcounteren 2 ?h1"
  have d: "same_config ?g0 (s_drop a ?g0)" "same_config ?g2 (s_drop a ?g2)" for a by simp_all
  note d0 = same_config_simps [OF d(1)] and d2 = same_config_simps [OF d(2)]
  note gd = gate_hart_config [OF d(1)] gate_hart_config [OF d(2)]
  show "mtmu_stage y h0 0 1 n (vs @ [9, 1, 1, 1]) t \<and> hist t = hist s \<and> here SMode (f_phase_b_start y) t" if "ph = 0"
    using h0 s a(1) that g drops [of "a_trap_entry y" "a_regs y" ?g0 "f_phase_b_start y"] gd d0
    by (simp add: t_def mtmu_m_run run_m_arm mtmu_hart_def takes_def cong: probe_cong)
  show "mtmu_stage y h0 2 2 n (vs @ [9, 1, 1, 1]) t \<and> hist t = hist s \<and> here SMode (f_phase_c_start y) t" if "ph = 1"
    using h0 s a(2) that g drops [of "a_trap_entry y" "a_regs y" ?g2 "f_phase_c_start y"] gd d2
    by (simp add: t_def mtmu_m_run run_m_arm mtmu_hart_def takes_def cong: probe_cong)
qed

lemma mtmu_m_handle_finish:
  assumes "mtmu_hart y h0" "takes h0 Mcounteren 0" "mtmu_stage y h0 2 2 n vs s"
  defines "t \<equiv> mtmu_called y s"
  shows "parked t \<and> fails t = 0 \<and> finisher t = Some FINISHER_PASS \<and> hist t = hist s \<and> hist_n t = n \<and>
    cksum t = foldl fnv64 FNV_BASIS (vs @ [9, 1, 1, 1, 1, 1]) \<and>
    csrf (hw t) Mcounteren = 0 \<and> csrf (hw t) Scounteren = csrf h0 Scounteren \<and> csrf (hw t) Medeleg = csrf h0 Medeleg"
proof -
  let ?h1 = "trap_to_m 9 (s_ecall_site y) 0 (hw s)"
  have "takes ?h1 Mcounteren 0" "takes ?h1 Scounteren (csrf h0 Scounteren)" "takes ?h1 Medeleg (csrf h0 Medeleg)"
    using assms(1-3) by (simp_all add: mtmu_hart_def mtmu_stage_def staged_def takes_def trap_to_m_csrs)
  then show ?thesis
    using assms(3) by (simp add: t_def mtmu_m_run run_m_restore [THEN exec_step] takes_def verdict_fields cong: probe_cong)
qed

text \<open>A gate that stays open: the readback check fails and the handler parks before phase B.\<close>

lemma mtmu_m_handle_open:
  assumes "mtmu_stage y h0 mc 0 n vs s" "bit (legal h0 Mcounteren mc 0) 1"
  defines "t \<equiv> mtmu_called y s"
  shows "parked t \<and> fails t = 1 \<and> finisher t = None \<and> hist_n t = n"
proof -
  have "bit (2 :: u64) 1" by (simp add: bit_iff_odd)
  with assms(2) have "bit (legal h0 Mcounteren mc 0 AND 2) 1" by (simp add: bit_and_iff)
  then have "legal h0 Mcounteren mc 0 AND 2 \<noteq> 0" by (metis bit_0_eq bot_apply bot_bool_def)
  then show ?thesis
    using assms(1) by (simp add: t_def mtmu_m_run m_arm_def checked_def cong: probe_cong)
qed

lemma mtmu_main_stage:
  assumes s: "mtmu_boot_state y s" and a: "code_addr (f_smode_test y)"
  defines "t \<equiv> final (mtmu_main y) s"
  shows "mtmu_stage y (hw s) 2 0 0 [0, 7, 1, 2, 1] t \<and> here SMode (f_smode_test y) t"
proof -
  let ?h = "csr_store Scounteren 2 (csr_store Mcounteren 2 (csr_store Mcounteren 7 (hw s)))"
  have p: "plain_hart (a_trap_entry y) (a_regs y) (a_mt_trap_entry y) (hw s)"
    using s by (simp add: mtmu_boot_state_def mtmu_hart_def)
  have "csrf ?h Mcounteren = 2" "csrf ?h Scounteren = 2" "csrf ?h Medeleg = csrf (hw s) Medeleg"
    using s by (simp_all add: mtmu_boot_state_def mtmu_hart_def takes_def)
  with equipped_drop [OF p _ a, of ?h, unfolded equipped_def] s p show ?thesis
    by (simp add: t_def mtmu_main_def mtmu_boot_gates_def mtmu_delegate_def set_vectors_def open_pmp_def exec_assoc mtmu_run
        run_m_gate_readback [THEN exec_step] mtmu_boot_state_def booted_def mtmu_hart_def plain_hart_def takes_def cong: probe_cong)
qed

text \<open>The three phases, each from its S-mode driver to the next.\<close>

lemma mtmu_blocks:
  "(f_main y, mtmu_main y) \<in> set (mtmu_code y)" "(f_smode_test y, mtmu_smode_test y) \<in> set (mtmu_code y)"
  "(a_trap_entry y, s_trap_entry (a_regs y) (left_t2 y) (mtmu_handle y)) \<in> set (mtmu_code y)"
  "(a_mt_trap_entry y, m_trap_entry (mtmu_m_handle y)) \<in> set (mtmu_code y)"
  "(f_phase_a_done y, mtmu_phase_a_done y) \<in> set (mtmu_code y)" "(f_phase_b_start y, mtmu_phase_b_start y) \<in> set (mtmu_code y)"
  "(f_phase_b_done y, mtmu_phase_b_done y) \<in> set (mtmu_code y)" "(f_phase_c_start y, mtmu_phase_c_start y) \<in> set (mtmu_code y)"
  "(f_phase_c_done y, mtmu_phase_c_done y) \<in> set (mtmu_code y)" "(s_ecall_site y, ecall (s_ecall_site y)) \<in> set (mtmu_code y)"
  "(u_read (pay_a y), rd_counter TM xt0 (u_read (pay_a y)) 0xC01022F3) \<in> set (mtmu_code y)"
  "(u_read (pay_c y), rd_counter TM xt0 (u_read (pay_c y)) 0xC01022F3) \<in> set (mtmu_code y)"
  "(u_payload_b y, do { put_reg xt0 U_SENTINEL; goto (u_gated_b y) }) \<in> set (mtmu_code y)"
  by (simp_all add: mtmu_code_def read_blocks_def gated_blocks_def)

lemma mtmu_payloads:
  "set (read_blocks TM (pay_a y) 0xC01022F3 0xC0102373 MTMU_SIG_A 0xa1e1) \<subseteq> set (mtmu_code y)"
  "set (gated_blocks TM (u_payload_b y) (u_gated_b y) (u_ecall_b y) 0xC01022F3 MTMU_SIG_B) \<subseteq> set (mtmu_code y)"
  "set (read_blocks TM (pay_c y) 0xC01022F3 0xC0102373 MTMU_SIG_C 0xa3e1) \<subseteq> set (mtmu_code y)"
  by (auto simp: mtmu_code_def)

lemma mtmu_conts:
  "mtmu_cont y MTMU_SIG_A = Some (f_phase_a_done y)" "mtmu_cont y MTMU_SIG_B = Some (f_phase_b_done y)"
  "mtmu_cont y MTMU_SIG_C = Some (f_phase_c_done y)"
  by (simp_all add: mtmu_cont_def)

lemma tm_bit: "bit (2 :: u64) (gate_bit TM)" "\<not> bit (0 :: u64) (gate_bit c)"
  by (simp_all add: gate_bit_def bit_iff_odd)

lemma mtmu_phase_a:
  assumes code: "well_placed (mtmu_code y)" and h0: "mtmu_hart y h0"
    and s: "mtmu_stage y h0 2 0 0 vs s" "here SMode (f_smode_test y) s"
  shows "\<exists>s'. mtmu_stage y h0 2 0 1 (vs @ [1, 8, 1, 1, 1, 1]) s' \<and> runs (mtmu_code y) s (mtmu_called y s')"
proof -
  let ?c = "mtmu_code y"
  note ad = mtmu_blocks [THEN placed_addr [OF code]]
  let ?s1 = "final (mtmu_smode_test y) s"
  have first: "mode_step ?c s = Some ?s1" by (rule staged_step [OF code mtmu_staged [OF s(1)] s(2) mtmu_blocks(2)])
  note s1 = mtmu_start_stage [OF s(1) ad(11) mtmu_smode_test_def]
  let ?f = "\<lambda>h' r row. ?s1\<lparr>hw := h', t_regs := r, hist := (hist ?s1)(0 := row), hist_n := 1\<rparr>"
  obtain h' r row where s2: "runs ?c ?s1 (?f h' r row)"
    "staged (a_trap_entry y) (a_regs y) (a_mt_trap_entry y) h0 2 2 1 vs (?f h' r row)" "here SMode (f_phase_a_done y) (?f h' r row)"
    "row 0 = 8" "row 2 = u_ecall (pay_a y)" "row 6 = MTMU_SIG_A" "row 5 \<noteq> 0" "row 5 < row 7"
    using mtmu.staged_reads [OF code mtmu_blocks(3) mtmu_payloads(1) mtmu_staged [OF s1(1)] s1(3) _ _ tm_bit(1) tm_bit(1) mtmu_conts(1) ad(5)]
      h0 by (auto simp: Let_def mtmu_hart_def)
  let ?s2 = "?f h' r row"
  have st2: "mtmu_stage y h0 2 0 1 vs ?s2" using s2(2) s1(1) by (simp add: mtmu_stage_def)
  have second: "mode_step ?c ?s2 = Some (final (mtmu_phase_a_done y) ?s2)"
    by (rule staged_step [OF code s2(2,3) mtmu_blocks(5)])
  have s3: "mtmu_stage y h0 2 0 1 (vs @ [1, 8, 1, 1, 1, 1]) (final (mtmu_phase_a_done y) ?s2)"
    "here SMode (s_ecall_site y) (final (mtmu_phase_a_done y) ?s2)"
    using mtmu_phase_a_done_stage [OF st2 s2(3)] s2(4-8) by simp_all
  from staged_handoff [OF code mtmu_blocks(10,4) mtmu_staged [OF s3(1)] s3(2)]
  have "runs ?c s (mtmu_called y (final (mtmu_phase_a_done y) ?s2))"
    using runs_one [OF first] s2(1) second by (blast intro: runs_trans runs_step)
  with s3(1) show ?thesis by blast
qed

lemma mtmu_phase_b:
  assumes code: "well_placed (mtmu_code y)" and s: "mtmu_stage y h0 0 1 1 vs s" "here SMode (f_phase_b_start y) s"
  shows "\<exists>s'. mtmu_stage y h0 0 1 3 (vs @ [1, 2, 1, 1, 8, 1, 1]) s' \<and> runs (mtmu_code y) s (mtmu_called y s') \<and>
    hist s' 1 0 = 2 \<and> hist s' 1 2 = u_gated_b y \<and> hist s' 1 5 = U_SENTINEL"
proof -
  let ?c = "mtmu_code y"
  note ad = mtmu_blocks [THEN placed_addr [OF code]]
  let ?s1 = "final (mtmu_phase_b_start y) s"
  have first: "mode_step ?c s = Some ?s1" by (rule staged_step [OF code mtmu_staged [OF s(1)] s(2) mtmu_blocks(6)])
  note s1 = mtmu_start_stage [OF s(1) ad(13) mtmu_phase_b_start_def]
  have three: "Suc (Suc 1) = 3" "Suc 1 = 2" by simp_all
  let ?f = "\<lambda>h' r row1 row2. ?s1\<lparr>hw := h', t_regs := r, hist := (hist ?s1)(1 := row1, 2 := row2), hist_n := 3\<rparr>"
  obtain h' r row1 row2 where s2: "runs ?c ?s1 (?f h' r row1 row2)"
    "staged (a_trap_entry y) (a_regs y) (a_mt_trap_entry y) h0 0 2 3 vs (?f h' r row1 row2)" "here SMode (f_phase_b_done y) (?f h' r row1 row2)"
    "row1 0 = 2" "row1 2 = u_gated_b y" "row1 5 = U_SENTINEL" "row2 0 = 8" "row2 2 = u_ecall_b y" "row2 6 = MTMU_SIG_B"
    using mtmu.staged_gated [OF code mtmu_blocks(3) mtmu_payloads(2) mtmu_staged [OF s1(1)] s1(3) _ _ mtmu_conts(2) ad(7), unfolded three]
      tm_bit by (auto simp: Let_def)
  let ?s2 = "?f h' r row1 row2"
  have st2: "mtmu_stage y h0 0 1 3 vs ?s2" using s2(2) s1(1) by (simp add: mtmu_stage_def)
  have second: "mode_step ?c ?s2 = Some (final (mtmu_phase_b_done y) ?s2)"
    by (rule staged_step [OF code s2(2,3) mtmu_blocks(7)])
  have s3: "mtmu_stage y h0 0 1 3 (vs @ [1, 2, 1, 1, 8, 1, 1]) (final (mtmu_phase_b_done y) ?s2)"
    "here SMode (s_ecall_site y) (final (mtmu_phase_b_done y) ?s2)" "hist (final (mtmu_phase_b_done y) ?s2) = hist ?s2"
    using mtmu_phase_b_done_stage [OF st2 s2(3)] s2(4-9) by simp_all
  from staged_handoff [OF code mtmu_blocks(10,4) mtmu_staged [OF s3(1)] s3(2)]
  have "runs ?c s (mtmu_called y (final (mtmu_phase_b_done y) ?s2))"
    using runs_one [OF first] s2(1) second by (blast intro: runs_trans runs_step)
  with s3(1,3) s2(4-6) show ?thesis by (intro exI [of _ "final (mtmu_phase_b_done y) ?s2"]) simp
qed

lemma mtmu_phase_c:
  assumes code: "well_placed (mtmu_code y)" and h0: "mtmu_hart y h0"
    and s: "mtmu_stage y h0 2 2 3 vs s" "here SMode (f_phase_c_start y) s"
  shows "\<exists>s'. mtmu_stage y h0 2 2 4 (vs @ [1, 8, 1, 1, 1, 1]) s' \<and> runs (mtmu_code y) s (mtmu_called y s') \<and> hist s' 1 = hist s 1"
proof -
  let ?c = "mtmu_code y"
  note ad = mtmu_blocks [THEN placed_addr [OF code]]
  let ?s1 = "final (mtmu_phase_c_start y) s"
  have first: "mode_step ?c s = Some ?s1" by (rule staged_step [OF code mtmu_staged [OF s(1)] s(2) mtmu_blocks(8)])
  note s1 = mtmu_start_stage [OF s(1) ad(12) mtmu_phase_c_start_def]
  let ?f = "\<lambda>h' r row. ?s1\<lparr>hw := h', t_regs := r, hist := (hist ?s1)(3 := row), hist_n := 4\<rparr>"
  obtain h' r row where s2: "runs ?c ?s1 (?f h' r row)"
    "staged (a_trap_entry y) (a_regs y) (a_mt_trap_entry y) h0 2 2 4 vs (?f h' r row)" "here SMode (f_phase_c_done y) (?f h' r row)"
    "row 0 = 8" "row 2 = u_ecall (pay_c y)" "row 6 = MTMU_SIG_C" "row 5 \<noteq> 0" "row 5 < row 7"
    using mtmu.staged_reads [OF code mtmu_blocks(3) mtmu_payloads(3) mtmu_staged [OF s1(1)] s1(3) _ _ tm_bit(1) tm_bit(1) mtmu_conts(3) ad(9)]
      h0 by (auto simp: Let_def mtmu_hart_def)
  let ?s2 = "?f h' r row"
  have st2: "mtmu_stage y h0 2 2 4 vs ?s2" using s2(2) s1(1) by (simp add: mtmu_stage_def)
  have second: "mode_step ?c ?s2 = Some (final (mtmu_phase_c_done y) ?s2)"
    by (rule staged_step [OF code s2(2,3) mtmu_blocks(9)])
  have s3: "mtmu_stage y h0 2 2 4 (vs @ [1, 8, 1, 1, 1, 1]) (final (mtmu_phase_c_done y) ?s2)"
    "here SMode (s_ecall_site y) (final (mtmu_phase_c_done y) ?s2)" "hist (final (mtmu_phase_c_done y) ?s2) = hist ?s2"
    using mtmu_phase_c_done_stage [OF st2 s2(3)] s2(4-8) by simp_all
  from staged_handoff [OF code mtmu_blocks(10,4) mtmu_staged [OF s3(1)] s3(2)]
  have "runs ?c s (mtmu_called y (final (mtmu_phase_c_done y) ?s2))"
    using runs_one [OF first] s2(1) second by (blast intro: runs_trans runs_step)
  with s3(1,3) s1(2) show ?thesis by (intro exI [of _ "final (mtmu_phase_c_done y) ?s2"]) simp
qed

lemma mtmu_starts:
  assumes code: "well_placed (mtmu_code y)" and boot: "mtmu_boot_state y s"
  shows "\<exists>s'. runs (mtmu_code y) s s' \<and> mtmu_stage y (hw s) 2 0 0 [0, 7, 1, 2, 1] s' \<and> here SMode (f_smode_test y) s'"
proof -
  have "mode_step (mtmu_code y) s = Some (final (mtmu_main y) s)"
    using boot_step [OF code _ mtmu_blocks(1)] boot by (simp add: mtmu_boot_state_def mtmu_hart_def plain_hart_def)
  with mtmu_main_stage [OF boot placed_addr [OF code mtmu_blocks(2)]] show ?thesis by (blast intro: runs_one)
qed

text \<open>The values a passing run feeds to the checksum, in order, and their hash.\<close>

lemma mtmu_checksum:
  "foldl fnv64 FNV_BASIS ([0, 7, 1, 2, 1] @ [1, 8, 1, 1, 1, 1] @ [9, 1, 1, 1] @ [1, 2, 1, 1, 8, 1, 1] @ [9, 1, 1, 1] @
     [1, 8, 1, 1, 1, 1] @ [9, 1, 1, 1, 1, 1]) = 0x96e2802b2ebd9505"
  by code_simp

text \<open>On a hart whose \<open>mcounteren\<close> clears, all three phases run and the checksum is that of PROOF.md.\<close>

lemma mtmu_passes:
  assumes code: "well_placed (mtmu_code y)" and boot: "mtmu_boot_state y s" and clears: "takes (hw s) Mcounteren 0"
  shows "\<exists>t. runs (mtmu_code y) s t \<and> mode_step (mtmu_code y) t = None \<and> finisher t = Some FINISHER_PASS \<and> fails t = 0 \<and>
    hist_n t = 4 \<and> hist t 1 0 = 2 \<and> hist t 1 2 = u_gated_b y \<and> hist t 1 5 = U_SENTINEL \<and> cksum t = 0x96e2802b2ebd9505 \<and>
    csrf (hw t) Mcounteren = 0 \<and> csrf (hw t) Scounteren = csrf (hw s) Scounteren \<and> csrf (hw t) Medeleg = csrf (hw s) Medeleg"
proof -
  let ?c = "mtmu_code y"
  have hart: "mtmu_hart y (hw s)" using boot by (simp add: mtmu_boot_state_def)
  note ad = mtmu_blocks(6,8) [THEN placed_addr [OF code]]
  from mtmu_starts [OF code boot] obtain s0 where s0: "runs ?c s s0" "mtmu_stage y (hw s) 2 0 0 [0, 7, 1, 2, 1] s0"
    "here SMode (f_smode_test y) s0" by blast
  from mtmu_phase_a [OF code hart s0(2,3)] obtain s1 where
    s1: "mtmu_stage y (hw s) 2 0 1 ([0, 7, 1, 2, 1] @ [1, 8, 1, 1, 1, 1]) s1" "runs ?c s0 (mtmu_called y s1)" by blast
  note m1 = mtmu_m_handle_stage(1) [OF hart clears s1(1) ad refl, THEN conjunct1]
    mtmu_m_handle_stage(1) [OF hart clears s1(1) ad refl, THEN conjunct2, THEN conjunct2]
  from mtmu_phase_b [OF code m1] obtain s2 where s2: "mtmu_stage y (hw s) 0 1 3
      ((([0, 7, 1, 2, 1] @ [1, 8, 1, 1, 1, 1]) @ [9, 1, 1, 1]) @ [1, 2, 1, 1, 8, 1, 1]) s2"
    "runs ?c (mtmu_called y s1) (mtmu_called y s2)" "hist s2 1 0 = 2" "hist s2 1 2 = u_gated_b y" "hist s2 1 5 = U_SENTINEL" by blast
  note m2 = mtmu_m_handle_stage(2) [OF hart clears s2(1) ad refl]
  from mtmu_phase_c [OF code hart m2 [THEN conjunct1] m2 [THEN conjunct2, THEN conjunct2]] obtain s3 where s3: "mtmu_stage y (hw s) 2 2 4
      ((((([0, 7, 1, 2, 1] @ [1, 8, 1, 1, 1, 1]) @ [9, 1, 1, 1]) @ [1, 2, 1, 1, 8, 1, 1]) @ [9, 1, 1, 1]) @ [1, 8, 1, 1, 1, 1]) s3"
    "runs ?c (mtmu_called y s2) (mtmu_called y s3)" "hist s3 1 = hist (mtmu_called y s2) 1" by blast
  note t = mtmu_m_handle_finish [OF hart clears s3(1)]
  have "runs ?c s (mtmu_called y s3)" using s0(1) s1(2) s2(2) s3(2) by (blast intro: runs_trans)
  moreover have "hist (mtmu_called y s3) 1 = hist s2 1" using t m2 s3(3) by simp
  moreover have "mode_step ?c (mtmu_called y s3) = None" using t parked_stops by blast
  moreover have "cksum (mtmu_called y s3) = 0x96e2802b2ebd9505" using t mtmu_checksum by (simp only: append_assoc)
  ultimately show ?thesis using t s2(3-5) by (intro exI [of _ "mtmu_called y s3"]) simp
qed

lemma mtmu_detects_open_gate:
  assumes code: "well_placed (mtmu_code y)" and boot: "mtmu_boot_state y s" and stays: "bit (legal (hw s) Mcounteren 2 0) 1"
  shows "\<exists>t. runs (mtmu_code y) s t \<and> mode_step (mtmu_code y) t = None \<and> finisher t = None \<and> fails t = 1 \<and> hist_n t = 1"
proof -
  have hart: "mtmu_hart y (hw s)" using boot by (simp add: mtmu_boot_state_def)
  from mtmu_starts [OF code boot] obtain s0 where s0: "runs (mtmu_code y) s s0" "mtmu_stage y (hw s) 2 0 0 [0, 7, 1, 2, 1] s0"
    "here SMode (f_smode_test y) s0" by blast
  from mtmu_phase_a [OF code hart s0(2,3)] obtain s1 where
    s1: "mtmu_stage y (hw s) 2 0 1 ([0, 7, 1, 2, 1] @ [1, 8, 1, 1, 1, 1]) s1" "runs (mtmu_code y) s0 (mtmu_called y s1)" by blast
  from mtmu_m_handle_open [OF s1(1) stays] show ?thesis
    using runs_trans [OF s0(1) s1(2)] parked_stops by blast
qed


subsection \<open>Properties\<close>

text \<open>
  C29. The verdict of the gate experiment. Let the code be placed at distinct aligned
  addresses, let the hart boot in M-mode with \<open>mcounteren\<close> zero, keep the values the program writes to
  its gate, delegation, vector and return-address registers and the trap-steering bits of \<open>mstatus\<close>,
  and let its timer be nonzero, monotone and move within \<open>2 ^ 20\<close> reads, over the reads the run can make.

  If \<open>mcounteren\<close> can be cleared, the machine, running through M-, S- and U-mode as its trap registers say, stops in the final loop
  with the pass word written and no check failed. Four traps were recorded, of which the second is the gated \<open>rdtime\<close>: an illegal
  instruction at its site with the destination register untouched. The three CSRs have their boot values again, and the
  checksum is the constant that PROOF.md reports for every run.

  If \<open>mcounteren.TM\<close> reads back one after the write of zero, the machine parks in M-mode before phase B: one check has failed,
  the finisher is never written, and the only trap recorded is the signal of phase A.
\<close>

theorem mtmu_verdict:
  assumes code: "well_placed (mtmu_code y)" and boot: "mtmu_boot_state y s"
  shows "(takes (hw s) Mcounteren 0 \<longrightarrow> (\<exists>t. runs (mtmu_code y) s t \<and> mode_step (mtmu_code y) t = None \<and>
      finisher t = Some FINISHER_PASS \<and> fails t = 0 \<and> hist_n t = 4 \<and> hist t 1 0 = 2 \<and> hist t 1 2 = u_gated_b y \<and>
      hist t 1 5 = U_SENTINEL \<and> cksum t = 0x96e2802b2ebd9505 \<and> csrf (hw t) Mcounteren = 0 \<and>
      csrf (hw t) Scounteren = csrf (hw s) Scounteren \<and> csrf (hw t) Medeleg = csrf (hw s) Medeleg)) \<and>
    (bit (legal (hw s) Mcounteren 2 0) 1 \<longrightarrow> (\<exists>t. runs (mtmu_code y) s t \<and> mode_step (mtmu_code y) t = None \<and>
      finisher t = None \<and> fails t = 1 \<and> hist_n t = 1))"
  using mtmu_passes [OF assms] mtmu_detects_open_gate [OF assms] by blast

text \<open>A placement and two harts for the witnesses.\<close>

definition mtmu_example_syms :: mtmu_syms where
  "mtmu_example_syms = \<lparr>f_main = 0x80000000, a_trap_entry = 0x80000010, a_mt_trap_entry = 0x80000020, a_regs = 0x80010000,
     f_smode_test = 0x80000040, f_phase_a_done = 0x80000050, f_phase_b_start = 0x80000060, f_phase_b_done = 0x80000070,
     f_phase_c_start = 0x80000080, f_phase_c_done = 0x80000090, f_unexpected = 0x800000a0, s_ecall_site = 0x800000b0,
     pay_a = \<lparr>u_read = 0x80000100, u_spin = 0x80000110, u_sig = 0x80000120, u_ecall = 0x80000124, u_late = 0x80000130\<rparr>,
     pay_c = \<lparr>u_read = 0x80000200, u_spin = 0x80000210, u_sig = 0x80000220, u_ecall = 0x80000224, u_late = 0x80000230\<rparr>,
     u_payload_b = 0x80000300, u_gated_b = 0x80000310, u_ecall_b = 0x80000318, left_t2 = 0\<rparr>"

lemma mtmu_example_placed: "well_placed (mtmu_code mtmu_example_syms)"
  by (simp add: well_placed_def code_addr_def mtmu_code_def read_blocks_def gated_blocks_def mtmu_example_syms_def)

lemma mtmu_example_boot:
  assumes "leg = (\<lambda>c old v. if c = Mcounteren then v OR m else v)" "m = 0 \<or> m = 2"
  shows "mtmu_boot_state mtmu_example_syms (gate_example 0x80000000 leg)"
proof -
  have "ticks_enough TM (gate_example_hart a leg)" for a
    by (rule counting_clock) (simp_all add: gate_example_hart_def)
  then show ?thesis
    using assms by (auto simp: mtmu_boot_state_def mtmu_hart_def plain_hart_def booted_def gate_example_def keeps_bits_def takes_def mtmu_example_syms_def)
      (auto simp: gate_example_hart_def)
qed

lemma mtmu_example_gate:
  "bit (legal (hw (gate_example 0x80000000 (\<lambda>c old v. if c = Mcounteren then v OR 2 else v))) Mcounteren 2 0) 1"
  "takes (hw (gate_example 0x80000000 (\<lambda>c old v. if c = Mcounteren then v OR 0 else v))) Mcounteren 0"
  by (simp_all add: gate_example_def gate_example_hart_def bit_iff_odd takes_def)

theorem mtmu_verdict_witness:
  "(\<exists>t. runs (mtmu_code mtmu_example_syms) (gate_example 0x80000000 (\<lambda>c old v. if c = Mcounteren then v OR 0 else v)) t \<and>
     finisher t = Some FINISHER_PASS) \<and>
   (\<exists>t. runs (mtmu_code mtmu_example_syms) (gate_example 0x80000000 (\<lambda>c old v. if c = Mcounteren then v OR 2 else v)) t \<and>
     finisher t = None \<and> fails t = 1)"
  using mtmu_verdict [OF mtmu_example_placed mtmu_example_boot [OF refl, of 0]]
    mtmu_verdict [OF mtmu_example_placed mtmu_example_boot [OF refl, of 2]] mtmu_example_gate
  by blast

end
