(* ===== verification/Mcyu.thy ===== *)
theory Mcyu
  imports Gate
begin

text \<open>
  \<open>src/src/mcounteren-cy-u-read\<close>: \<open>mcounteren.CY\<close> gates a U-mode \<open>rdcycle\<close>. Two phases, the open gate
  first; the single M-mode handoff between them closes the gate, and the verdict is given in S-mode.
\<close>

unbundle bit_operations_syntax

abbreviation (input) MCYU_SIG_A :: u64 where "MCYU_SIG_A \<equiv> 0x9a9a"
abbreviation (input) MCYU_SIG_B :: u64 where "MCYU_SIG_B \<equiv> 0x9b9b"
abbreviation (input) COUNTEREN_CY :: u64 where "COUNTEREN_CY \<equiv> 1"

record mcyu_syms =
  y_main :: u64
  y_trap_entry :: u64
  y_mt_trap_entry :: u64
  y_regs :: u64
  y_smode_test :: u64
  y_phase_a_done :: u64
  y_phase_b_start :: u64
  y_phase_b_done :: u64
  y_unexpected :: u64
  y_s_ecall_site :: u64
  y_pay_a :: read_syms
  y_payload_b :: u64
  y_rdcycle_b :: u64
  y_ecall_b :: u64
  y_left_t2 :: u64


subsection \<open>Dispatcher\<close>

definition mcyu_handle :: "mcyu_syms \<Rightarrow> (unit gate_ext modes_ext, u64) prog" where
  "mcyu_handle y = do {
     record_trap;
     r \<leftarrow> gets t_regs;
     if r 0 = 2 then resume_at (r 2 + 4)
     else if r 0 = 8 then do {
       csrs Sstatus 0x100;
       if r 6 = MCYU_SIG_A then resume_at (y_phase_a_done y)
       else if r 6 = MCYU_SIG_B then resume_at (y_phase_b_done y)
       else do { modify (\<lambda>s. s\<lparr>bad_cause := r 0, bad_sig := r 6\<rparr>); resume_at (y_unexpected y) } }
     else do {
       modify (\<lambda>s. s\<lparr>bad_cause := r 0, bad_sig := r 6\<rparr>);
       csrs Sstatus 0x100;
       resume_at (y_unexpected y) } }"


subsection \<open>S-mode phases\<close>

definition mcyu_phase_a_done :: "mcyu_syms \<Rightarrow> gprog" where
  "mcyu_phase_a_done y = do {
     puts [Str ''\<newline>--- back in S-mode: phase A complete ---\<newline>'', Str ''trap history:\<newline>''];
     print_trap 0 ''SIG_A ecall '';
     n \<leftarrow> gets hist_n; h \<leftarrow> gets (\<lambda>s. hist s 0);
     check_feed (n = 1) ''phase A: trap count is not 1'' (of_bool (n = 1));
     check_feed (h 0 = 8) ''phase A: trap 1 scause is not 8 (ecall from U-mode)'' (h 0);
     check_feed (h 2 = u_ecall (y_pay_a y)) ''phase A: trap 1 sepc is not at the payload ecall site''
       (of_bool (h 2 = u_ecall (y_pay_a y)));
     check_feed (h 6 = MCYU_SIG_A) ''phase A: trap 1 signal is not SIG_A'' (of_bool (h 6 = MCYU_SIG_A));
     let s0 = h 5;
     let s1 = h 7;
     puts [Str ''  rdcycle sample 0 (t0) = '', Hex s0, Str ''\<newline>  rdcycle sample 1 (t1) = '', Hex s1,
       Str ''  (delta = '', Dec (s1 - s0), Str '')\<newline>''];
     check_feed (s1 > s0) ''phase A: rdcycle samples did not strictly increase'' (of_bool (s1 > s0));
     check_feed (s0 \<noteq> 0) ''phase A: rdcycle sample 0 is zero (counter not running?)'' (of_bool (s0 \<noteq> 0));
     puts [Str ''\<newline>phase A done; handing back to M-mode to clear mcounteren.CY...\<newline>''];
     goto (y_s_ecall_site y) }"

definition mcyu_phase_b_start :: "mcyu_syms \<Rightarrow> gprog" where
  "mcyu_phase_b_start y = do {
     puts [Str ''\<newline>in S-mode; mcounteren-cy-u-read phase B begins\<newline>'', Str ''dropping to U-mode with mcounteren.CY=0...\<newline>''];
     drop_to_umode (y_payload_b y) }"

definition mcyu_phase_b_done :: "mcyu_syms \<Rightarrow> gprog" where
  "mcyu_phase_b_done y = do {
     puts [Str ''\<newline>--- back in S-mode: phase B complete ---\<newline>'', Str ''trap history:\<newline>''];
     print_trap 0 ''SIG_A ecall   '';
     print_trap 1 ''gated rdcycle '';
     print_trap 2 ''SIG_B ecall   '';
     n \<leftarrow> gets hist_n; h1 \<leftarrow> gets (\<lambda>s. hist s 1); h2 \<leftarrow> gets (\<lambda>s. hist s 2);
     check_feed (n = 3) ''phase B: trap count is not 3'' (of_bool (n = 3));
     check_feed (h1 0 = 2) ''phase B: trap 2 scause is not 2 (illegal instruction)'' (h1 0);
     check_feed (h1 2 = y_rdcycle_b y) ''phase B: trap 2 sepc is not at the rdcycle site'' (of_bool (h1 2 = y_rdcycle_b y));
     check_feed (h1 5 = U_SENTINEL) ''phase B: rdcycle destination changed (it retired?)'' (of_bool (h1 5 = U_SENTINEL));
     check_feed (h2 0 = 8) ''phase B: trap 3 scause is not 8 (ecall from U-mode)'' (h2 0);
     check_feed (h2 2 = y_ecall_b y) ''phase B: trap 3 sepc is not at the payload ecall site'' (of_bool (h2 2 = y_ecall_b y));
     check_feed (h2 6 = MCYU_SIG_B) ''phase B: trap 3 signal is not SIG_B'' (of_bool (h2 6 = MCYU_SIG_B));
     gate_verdict }"

definition mcyu_unexpected :: gprog where
  "mcyu_unexpected = do {
     c \<leftarrow> gets bad_cause; g \<leftarrow> gets bad_sig; n \<leftarrow> gets hist_n;
     puts [Str ''\<newline>--- UNEXPECTED TRAP ---\<newline>'', Str ''  cause='', Hex c, Str '' signal(a0)='', Hex g,
       Str ''\<newline>  history depth='', Dec (of_nat n), Str ''\<newline>''];
     print_hist 0 (min n HIST_N);
     puts [Str ''RESULT: FAIL\<newline>''];
     park }"

definition mcyu_smode_test :: "mcyu_syms \<Rightarrow> gprog" where
  "mcyu_smode_test y = do {
     puts [Str ''in S-mode; mcounteren-cy-u-read experiment begins\<newline>'', Str ''phase A payload: rdcycle site '',
       Hex (u_read (y_pay_a y)), Str '', ecall site '', Hex (u_ecall (y_pay_a y)), Str ''\<newline>'',
       Str ''dropping to U-mode with mcounteren.CY=1...\<newline>''];
     drop_to_umode (u_read (y_pay_a y)) }"


subsection \<open>M-mode\<close>

text \<open>The entry records two words and keeps no count.\<close>

definition mcyu_mt_trap_entry :: "gprog \<Rightarrow> gprog" where
  "mcyu_mt_trap_entry handle = do {
     cause \<leftarrow> csrr Mcause; epc \<leftarrow> csrr Mepc;
     modify (\<lambda>s. s\<lparr>m_regs := (m_regs s)(0 := cause, 1 := epc)\<rparr>);
     handle }"

definition mcyu_m_handle :: "mcyu_syms \<Rightarrow> gprog" where
  "mcyu_m_handle y = do {
     r \<leftarrow> gets m_regs;
     puts [Str ''\<newline>--- M-mode: phase-A handoff ecall ---\<newline>'', Str ''  mcause='', Hex (r 0), Str '' mepc='', Hex (r 1), Str ''\<newline>''];
     check_feed (r 0 = 9) ''M-mode: trap is not an S-mode ecall (cause 9)'' (r 0);
     check_feed (r 1 = y_s_ecall_site y) ''M-mode: mepc is not at the S-mode ecall site'' (of_bool (r 1 = y_s_ecall_site y));
     sc \<leftarrow> csrr Scounteren;
     puts [Str ''  scounteren still='', Hex sc, Str ''\<newline>''];
     check_feed (sc = COUNTEREN_CY) ''M-mode: scounteren.CY did not stay set'' (of_bool (sc = COUNTEREN_CY));
     rb \<leftarrow> m_gate_readback ''  mcounteren after clear='' 0;
     check_feed (rb = 0) ''M-mode: mcounteren did not read back 0 after clear'' (of_bool (rb = 0));
     f \<leftarrow> get_fails;
     if f \<noteq> 0 then do { puts [Str ''RESULT: FAIL\<newline>'']; park }
     else do {
       puts [Str ''phase B armed (mcounteren.CY=0); dropping to S-mode...\<newline>''];
       drop_to_smode (y_phase_b_start y) } }"

definition mcyu_gates :: gprog where
  "mcyu_gates = do {
     mc \<leftarrow> csrr Mcounteren;
     puts [Str ''boot: mcounteren='', Hex mc, Str ''\<newline>''];
     check_feed (mc = 0) ''boot mcounteren is not 0'' mc;
     rb \<leftarrow> m_gate_readback ''probe: csrw mcounteren, 0x7; readback='' 7;
     check_feed (rb = 7) ''mcounteren write of 0x7 did not read back as 0x7'' rb;
     rb \<leftarrow> m_gate_readback ''write: csrw mcounteren, 0x1 (CY); readback='' COUNTEREN_CY;
     check_feed (rb AND COUNTEREN_CY \<noteq> 0) ''mcounteren.CY did not stick'' (of_bool (rb AND COUNTEREN_CY \<noteq> 0));
     csrw Scounteren COUNTEREN_CY;
     rb \<leftarrow> csrr Scounteren;
     puts [Str ''write: csrw scounteren, 0x1 (CY); readback='', Hex rb, Str ''\<newline>''];
     check_feed (rb = COUNTEREN_CY) ''scounteren.CY did not stick'' rb }"

definition mcyu_main :: "mcyu_syms \<Rightarrow> gprog" where
  "mcyu_main y = do {
     puts [Str ''\<newline>========================================\<newline>'', Str ''mcounteren.CY gates U-mode rdcycle\<newline>'',
       Str ''CY set must read, CY clear must trap\<newline>'', Str ''========================================\<newline>\<newline>''];
     mcyu_gates;
     set_vectors (y_mt_trap_entry y) (y_trap_entry y) (y_regs y);
     set_delegation;
     open_pmp;
     puts [Str ''setup complete; dropping to S-mode...\<newline>''];
     drop_to_smode (y_smode_test y) }"

definition mcyu_code :: "mcyu_syms \<Rightarrow> (u64 \<times> gprog) list" where
  "mcyu_code y =
    [(y_main y, mcyu_main y),
     (y_trap_entry y, s_trap_entry (y_regs y) (y_left_t2 y) (mcyu_handle y)),
     (y_mt_trap_entry y, mcyu_mt_trap_entry (mcyu_m_handle y)),
     (y_smode_test y, mcyu_smode_test y),
     (y_phase_a_done y, mcyu_phase_a_done y),
     (y_phase_b_start y, mcyu_phase_b_start y),
     (y_phase_b_done y, mcyu_phase_b_done y),
     (y_unexpected y, mcyu_unexpected),
     (y_s_ecall_site y, ecall (y_s_ecall_site y))]
    @ read_blocks CY (y_pay_a y) 0xC00022F3 0xC0002373 MCYU_SIG_A 0x9ae9
    @ gated_blocks CY (y_payload_b y) (y_rdcycle_b y) (y_ecall_b y) 0xC00022F3 MCYU_SIG_B"


subsection \<open>The dispatcher contract\<close>

definition mcyu_cont :: "mcyu_syms \<Rightarrow> u64 \<Rightarrow> u64 option" where
  "mcyu_cont y sig = (if sig = MCYU_SIG_A then Some (y_phase_a_done y) else if sig = MCYU_SIG_B then Some (y_phase_b_done y) else None)"

interpretation mcyu: dispatcher "mcyu_handle y" "mcyu_cont y" for y
proof unfold_locales
  fix s :: gate
  assume "hist_n s < 8" "t_regs s 0 = 2"
  then show "run_state (mcyu_handle y) s = (t_regs s 2 + 4, noted (t_regs s 2 + 4) s)"
    by (cases s) (simp add: mcyu_handle_def record_trap_def gate_exec noted_def)
next
  fix s :: gate and k
  assume "hist_n s < 8" "t_regs s 0 = 8" "mcyu_cont y (t_regs s 6) = Some k"
  then show "run_state (mcyu_handle y) s = (k, (noted k s)\<lparr>hw := set_spp (hw s)\<rparr>)"
    by (cases s) (auto simp: mcyu_handle_def record_trap_def gate_exec noted_def set_spp_def mcyu_cont_def split: if_splits)
qed


subsection \<open>The phases on a conforming hart\<close>

abbreviation (input) mcyu_stage :: "mcyu_syms \<Rightarrow> hart \<Rightarrow> u64 \<Rightarrow> nat \<Rightarrow> u64 list \<Rightarrow> gate \<Rightarrow> bool" where
  "mcyu_stage y h0 mc n vs s \<equiv> staged (y_trap_entry y) (y_regs y) (y_mt_trap_entry y) h0 mc 1 n vs s"

definition mcyu_hart :: "mcyu_syms \<Rightarrow> hart \<Rightarrow> bool" where
  "mcyu_hart y h \<longleftrightarrow> plain_hart (y_trap_entry y) (y_regs y) (y_mt_trap_entry y) h \<and> ticks_enough CY h \<and>
     takes h Mcounteren 1 \<and> takes h Mcounteren 7 \<and> csrf h Mcounteren = 0 \<and> takes h Scounteren 1"

lemma mcyu_phase_a_done_stage:
  assumes "mcyu_stage y h0 1 1 vs s" "here SMode a s" "hist s 0 0 = 8" "hist s 0 2 = u_ecall (y_pay_a y)" "hist s 0 6 = MCYU_SIG_A"
    "hist s 0 5 \<noteq> 0" "hist s 0 5 < hist s 0 7"
  shows "mcyu_stage y h0 1 1 (vs @ [1, 8, 1, 1, 1, 1]) (final (mcyu_phase_a_done y) s) \<and>
    here SMode (y_s_ecall_site y) (final (mcyu_phase_a_done y) s)"
  using assms by (simp add: mcyu_phase_a_done_def staged_run here_def cong: probe_cong)

lemma mcyu_phase_b_done_finish:
  assumes "mcyu_stage y h0 0 3 vs s" "hist s 1 0 = 2" "hist s 1 2 = y_rdcycle_b y" "hist s 1 5 = U_SENTINEL"
    "hist s 2 0 = 8" "hist s 2 2 = y_ecall_b y" "hist s 2 6 = MCYU_SIG_B"
  defines "t \<equiv> final (mcyu_phase_b_done y) s"
  shows "parked t \<and> fails t = 0 \<and> finisher t = Some FINISHER_PASS \<and> hist t = hist s \<and> hist_n t = 3 \<and>
    cksum t = foldl fnv64 FNV_BASIS (vs @ [1, 2, 1, 1, 8, 1, 1])"
  using assms by (simp add: t_def mcyu_phase_b_done_def staged_run verdict_fields cong: probe_cong)

abbreviation (input) mcyu_called :: "mcyu_syms \<Rightarrow> gate \<Rightarrow> gate" where
  "mcyu_called y s \<equiv> final (mcyu_mt_trap_entry (mcyu_m_handle y)) (s\<lparr>hw := trap_to_m 9 (y_s_ecall_site y) 0 (hw s)\<rparr>)"

lemma mcyu_m_handle_stage:
  assumes h0: "legal h0 Mcounteren mc 0 = 0" and s: "mcyu_stage y h0 mc n vs s" and a: "code_addr (y_phase_b_start y)"
  defines "t \<equiv> mcyu_called y s"
  shows "mcyu_stage y h0 0 n (vs @ [9, 1, 1, 1]) t \<and> here SMode (y_phase_b_start y) t"
proof -
  let ?h1 = "trap_to_m 9 (y_s_ecall_site y) 0 (hw s)"
  have g: "gate_hart (y_trap_entry y) (y_regs y) ?h1"
    using gate_hart_config [of "hw s" ?h1] s by (simp add: staged_def)
  let ?g0 = "csr_store Mcounteren 0 ?h1"
  have d: "same_config ?g0 (s_drop a ?g0)" for a by simp
  show ?thesis
    using h0 s a g drops [of "y_trap_entry y" "y_regs y" ?g0 "y_phase_b_start y"] gate_hart_config [OF d] same_config_simps [OF d]
    by (simp add: t_def mcyu_mt_trap_entry_def mcyu_m_handle_def staged_run here_def run_m_gate_readback [THEN exec_step]
        trap_to_m_csrs takes_def cong: probe_cong)
qed

lemma mcyu_m_handle_open:
  assumes "mcyu_stage y h0 mc n vs s" "legal h0 Mcounteren mc 0 \<noteq> 0"
  defines "t \<equiv> mcyu_called y s"
  shows "parked t \<and> fails t = 1 \<and> finisher t = None \<and> hist_n t = n"
  using assms
  by (simp add: t_def mcyu_mt_trap_entry_def mcyu_m_handle_def staged_run run_m_gate_readback [THEN exec_step]
      trap_to_m_csrs checked_def cong: probe_cong)

lemma mcyu_main_stage:
  assumes s: "mcyu_hart y (hw s)" "booted (y_main y) s" and a: "code_addr (y_smode_test y)"
  defines "t \<equiv> final (mcyu_main y) s"
  shows "mcyu_stage y (hw s) 1 0 [0, 7, 1, 1, 1] t \<and> here SMode (y_smode_test y) t"
proof -
  let ?h = "csr_store Scounteren 1 (csr_store Mcounteren 1 (csr_store Mcounteren 7 (hw s)))"
  have p: "plain_hart (y_trap_entry y) (y_regs y) (y_mt_trap_entry y) (hw s)" using s by (simp add: mcyu_hart_def)
  have "csrf ?h Mcounteren = 1" "csrf ?h Scounteren = 1" using s by (simp_all add: mcyu_hart_def takes_def)
  with equipped_drop [OF p _ a, of ?h, unfolded equipped_def] s p show ?thesis
    by (simp add: t_def mcyu_main_def mcyu_gates_def set_delegation_def set_vectors_def open_pmp_def exec_assoc staged_run here_def
        run_m_gate_readback [THEN exec_step] booted_def mcyu_hart_def plain_hart_def takes_def cong: probe_cong)
qed

lemma mcyu_blocks:
  "(y_main y, mcyu_main y) \<in> set (mcyu_code y)" "(y_smode_test y, mcyu_smode_test y) \<in> set (mcyu_code y)"
  "(y_trap_entry y, s_trap_entry (y_regs y) (y_left_t2 y) (mcyu_handle y)) \<in> set (mcyu_code y)"
  "(y_mt_trap_entry y, mcyu_mt_trap_entry (mcyu_m_handle y)) \<in> set (mcyu_code y)"
  "(y_phase_a_done y, mcyu_phase_a_done y) \<in> set (mcyu_code y)" "(y_phase_b_start y, mcyu_phase_b_start y) \<in> set (mcyu_code y)"
  "(y_phase_b_done y, mcyu_phase_b_done y) \<in> set (mcyu_code y)" "(y_s_ecall_site y, ecall (y_s_ecall_site y)) \<in> set (mcyu_code y)"
  "(u_read (y_pay_a y), rd_counter CY xt0 (u_read (y_pay_a y)) 0xC00022F3) \<in> set (mcyu_code y)"
  "(y_payload_b y, do { put_reg xt0 U_SENTINEL; goto (y_rdcycle_b y) }) \<in> set (mcyu_code y)"
  by (simp_all add: mcyu_code_def read_blocks_def gated_blocks_def)

lemma mcyu_payloads:
  "set (read_blocks CY (y_pay_a y) 0xC00022F3 0xC0002373 MCYU_SIG_A 0x9ae9) \<subseteq> set (mcyu_code y)"
  "set (gated_blocks CY (y_payload_b y) (y_rdcycle_b y) (y_ecall_b y) 0xC00022F3 MCYU_SIG_B) \<subseteq> set (mcyu_code y)"
  by (auto simp: mcyu_code_def)

lemma mcyu_conts:
  "mcyu_cont y MCYU_SIG_A = Some (y_phase_a_done y)" "mcyu_cont y MCYU_SIG_B = Some (y_phase_b_done y)"
  by (simp_all add: mcyu_cont_def)

lemma cy_bit: "bit (1 :: u64) (gate_bit CY)" by (simp add: gate_bit_def)

lemma mcyu_phase_a:
  assumes code: "well_placed (mcyu_code y)" and h0: "mcyu_hart y h0"
    and s: "mcyu_stage y h0 1 0 vs s" "here SMode (y_smode_test y) s"
  shows "\<exists>s'. mcyu_stage y h0 1 1 (vs @ [1, 8, 1, 1, 1, 1]) s' \<and> runs (mcyu_code y) s (mcyu_called y s')"
proof -
  let ?c = "mcyu_code y"
  note ad = mcyu_blocks [THEN placed_addr [OF code]]
  note first = staged_start [OF code s mcyu_blocks(2) ad(9) mcyu_smode_test_def]
  let ?s1 = "final (mcyu_smode_test y) s"
  let ?f = "\<lambda>h' r row. ?s1\<lparr>hw := h', t_regs := r, hist := (hist ?s1)(0 := row), hist_n := 1\<rparr>"
  obtain h' r row where s2: "runs ?c ?s1 (?f h' r row)" "mcyu_stage y h0 1 1 vs (?f h' r row)" "here SMode (y_phase_a_done y) (?f h' r row)"
    "row 0 = 8" "row 2 = u_ecall (y_pay_a y)" "row 6 = MCYU_SIG_A" "row 5 \<noteq> 0" "row 5 < row 7"
    using mcyu.staged_reads [OF code mcyu_blocks(3) mcyu_payloads(1) first(2,4) _ _ cy_bit cy_bit mcyu_conts(1) ad(5)]
      h0 by (auto simp: Let_def mcyu_hart_def)
  let ?s3 = "final (mcyu_phase_a_done y) (?f h' r row)"
  have second: "mode_step ?c (?f h' r row) = Some ?s3" by (rule staged_step [OF code s2(2,3) mcyu_blocks(5)])
  have s3: "mcyu_stage y h0 1 1 (vs @ [1, 8, 1, 1, 1, 1]) ?s3" "here SMode (y_s_ecall_site y) ?s3"
    using mcyu_phase_a_done_stage [OF s2(2,3)] s2(4-8) by simp_all
  from staged_handoff [OF code mcyu_blocks(8,4) s3] have "runs ?c s (mcyu_called y ?s3)"
    using first(1) s2(1) second by (blast intro: runs_trans runs_step)
  with s3(1) show ?thesis by blast
qed

lemma mcyu_phase_b:
  assumes code: "well_placed (mcyu_code y)" and s: "mcyu_stage y h0 0 1 vs s" "here SMode (y_phase_b_start y) s"
  shows "\<exists>t. runs (mcyu_code y) s t \<and> parked t \<and> fails t = 0 \<and> finisher t = Some FINISHER_PASS \<and> hist_n t = 3 \<and>
    cksum t = foldl fnv64 FNV_BASIS (vs @ [1, 2, 1, 1, 8, 1, 1]) \<and>
    hist t 1 0 = 2 \<and> hist t 1 2 = y_rdcycle_b y \<and> hist t 1 5 = U_SENTINEL"
proof -
  let ?c = "mcyu_code y"
  note ad = mcyu_blocks [THEN placed_addr [OF code]]
  note first = staged_start [OF code s mcyu_blocks(6) ad(10) mcyu_phase_b_start_def]
  let ?s1 = "final (mcyu_phase_b_start y) s"
  have three: "Suc (Suc 1) = 3" "Suc 1 = 2" by simp_all
  let ?f = "\<lambda>h' r row1 row2. ?s1\<lparr>hw := h', t_regs := r, hist := (hist ?s1)(1 := row1, 2 := row2), hist_n := 3\<rparr>"
  obtain h' r row1 row2 where s2: "runs ?c ?s1 (?f h' r row1 row2)" "mcyu_stage y h0 0 3 vs (?f h' r row1 row2)"
    "here SMode (y_phase_b_done y) (?f h' r row1 row2)"
    "row1 0 = 2" "row1 2 = y_rdcycle_b y" "row1 5 = U_SENTINEL" "row2 0 = 8" "row2 2 = y_ecall_b y" "row2 6 = MCYU_SIG_B"
    using mcyu.staged_gated [OF code mcyu_blocks(3) mcyu_payloads(2) first(2,4) _ _ mcyu_conts(2) ad(7), unfolded three]
    by (auto simp: Let_def)
  let ?t = "final (mcyu_phase_b_done y) (?f h' r row1 row2)"
  have "runs ?c s ?t"
    using first(1) s2(1) runs_one [OF staged_step [OF code s2(2,3) mcyu_blocks(7)]] by (blast intro: runs_trans)
  with mcyu_phase_b_done_finish [OF s2(2)] s2(4-9) show ?thesis by (intro exI [of _ ?t]) simp
qed

lemma mcyu_starts:
  assumes code: "well_placed (mcyu_code y)" and boot: "mcyu_hart y (hw s)" "booted (y_main y) s"
  shows "\<exists>s'. runs (mcyu_code y) s s' \<and> mcyu_stage y (hw s) 1 0 [0, 7, 1, 1, 1] s' \<and> here SMode (y_smode_test y) s'"
proof -
  have "mode_step (mcyu_code y) s = Some (final (mcyu_main y) s)"
    using boot_step [OF code boot(2) mcyu_blocks(1)] boot(1) by (simp add: mcyu_hart_def plain_hart_def)
  with mcyu_main_stage [OF boot placed_addr [OF code mcyu_blocks(2)]] show ?thesis by (blast intro: runs_one)
qed

lemma mcyu_checksum:
  "foldl fnv64 FNV_BASIS ((([0, 7, 1, 1, 1] @ [1, 8, 1, 1, 1, 1]) @ [9, 1, 1, 1]) @ [1, 2, 1, 1, 8, 1, 1]) = 0x0f857e15c046194f"
  by code_simp


subsection \<open>Properties\<close>

text \<open>
  The U-mode \<open>rdcycle\<close> experiment gives the right verdict on both kinds of hart. On a hart whose \<open>mcounteren\<close>
  reads back zero after the clear, it passes with three recorded traps, the gated \<open>rdcycle\<close> among them with its destination untouched, and with the
  checksum of PROOF.md. On every other hart it parks in M-mode with one
  failed check, no pass word, and phase B never entered.
\<close>

theorem mcyu_verdict:
  assumes code: "well_placed (mcyu_code y)" and boot: "mcyu_hart y (hw s)" "booted (y_main y) s"
  shows "\<exists>t. runs (mcyu_code y) s t \<and> mode_step (mcyu_code y) t = None \<and>
    (if legal (hw s) Mcounteren 1 0 = 0 then finisher t = Some FINISHER_PASS \<and> fails t = 0 \<and> hist_n t = 3 \<and>
       hist t 1 0 = 2 \<and> hist t 1 2 = y_rdcycle_b y \<and> hist t 1 5 = U_SENTINEL \<and> cksum t = 0x0f857e15c046194f
     else finisher t = None \<and> fails t = 1 \<and> hist_n t = 1)"
proof -
  let ?c = "mcyu_code y"
  from mcyu_starts [OF code boot] obtain s0 where s0: "runs ?c s s0" "mcyu_stage y (hw s) 1 0 [0, 7, 1, 1, 1] s0"
    "here SMode (y_smode_test y) s0" by blast
  from mcyu_phase_a [OF code boot(1) s0(2,3)] obtain s1 where
    s1: "mcyu_stage y (hw s) 1 1 ([0, 7, 1, 1, 1] @ [1, 8, 1, 1, 1, 1]) s1" "runs ?c s0 (mcyu_called y s1)" by blast
  note upto = runs_trans [OF s0(1) s1(2)]
  show ?thesis
  proof (cases "legal (hw s) Mcounteren 1 0 = 0")
    case True
    note m = mcyu_m_handle_stage [OF True s1(1) placed_addr [OF code mcyu_blocks(6)]]
    from mcyu_phase_b [OF code m [THEN conjunct1] m [THEN conjunct2]] obtain t where
      t: "runs ?c (mcyu_called y s1) t" "parked t" "fails t = 0" "finisher t = Some FINISHER_PASS" "hist_n t = 3"
      "cksum t = foldl fnv64 FNV_BASIS ((([0, 7, 1, 1, 1] @ [1, 8, 1, 1, 1, 1]) @ [9, 1, 1, 1]) @ [1, 2, 1, 1, 8, 1, 1])"
      "hist t 1 0 = 2" "hist t 1 2 = y_rdcycle_b y" "hist t 1 5 = U_SENTINEL" by blast
    with True t(6) [unfolded mcyu_checksum] runs_trans [OF upto t(1)] parked_stops [OF t(2)] show ?thesis by auto
  next
    case False
    note t = mcyu_m_handle_open [OF s1(1) False]
    from t parked_stops [OF t [THEN conjunct1]] upto False show ?thesis by (intro exI [of _ "mcyu_called y s1"]) simp
  qed
qed

text \<open>A placement for the witness.\<close>

definition mcyu_example_syms :: mcyu_syms where
  "mcyu_example_syms = \<lparr>y_main = 0x80000000, y_trap_entry = 0x80000010, y_mt_trap_entry = 0x80000020, y_regs = 0x80010000,
     y_smode_test = 0x80000040, y_phase_a_done = 0x80000050, y_phase_b_start = 0x80000060, y_phase_b_done = 0x80000070,
     y_unexpected = 0x800000a0, y_s_ecall_site = 0x800000b0,
     y_pay_a = \<lparr>u_read = 0x80000100, u_spin = 0x80000110, u_sig = 0x80000120, u_ecall = 0x80000124, u_late = 0x80000130\<rparr>,
     y_payload_b = 0x80000300, y_rdcycle_b = 0x80000310, y_ecall_b = 0x80000318, y_left_t2 = 0\<rparr>"

lemma mcyu_example_placed: "well_placed (mcyu_code mcyu_example_syms)"
  by (simp add: well_placed_def code_addr_def mcyu_code_def read_blocks_def gated_blocks_def mcyu_example_syms_def)

lemma mcyu_example_boot:
  "mcyu_hart mcyu_example_syms (hw (gate_example 0x80000000 (\<lambda>c old v. v)))"
  "booted (y_main mcyu_example_syms) (gate_example 0x80000000 (\<lambda>c old v. v))"
proof -
  have "ticks_enough CY (gate_example_hart a leg)" for a leg
    by (rule counting_clock) (simp_all add: gate_example_hart_def)
  then show "mcyu_hart mcyu_example_syms (hw (gate_example 0x80000000 (\<lambda>c old v. v)))"
    "booted (y_main mcyu_example_syms) (gate_example 0x80000000 (\<lambda>c old v. v))"
    by (simp_all add: mcyu_hart_def plain_hart_def booted_def gate_example_def keeps_bits_def takes_def mcyu_example_syms_def)
      (simp_all add: gate_example_hart_def)
qed

theorem mcyu_verdict_witness:
  "\<exists>t. runs (mcyu_code mcyu_example_syms) (gate_example 0x80000000 (\<lambda>c old v. v)) t \<and>
     finisher t = Some FINISHER_PASS \<and> hist t 1 2 = 0x80000310"
  using mcyu_verdict [OF mcyu_example_placed mcyu_example_boot]
  by (auto simp: gate_example_def gate_example_hart_def mcyu_example_syms_def)

end
