(* ===== verification/Scount.thy ===== *)
theory Scount
  imports Gate
begin

text \<open>
  \<open>src/src/scounteren-cy-gate\<close>, \<open>scounteren-tm-gate\<close> and \<open>scounteren-ir-gate\<close>: \<open>scounteren\<close> gates the three user counters
  for U-mode. The three C files are one text up to the counter, its bit, the signal values and a few words of the messages. A
  record holds what differs and every function takes it. The payloads of phase B differ too: the cycle and time ones wait for the
  counter to move, the \<open>instret\<close> one executes sixteen \<open>nop\<close>s.

  The gate is closed in phase A and opened by S-mode itself before phase B. Any trap to M-mode parks the hart.
\<close>

unbundle bit_operations_syntax

record sc_text =
  sc_counter :: counter
  sc_mask :: u64
  sc_sig_a :: u64
  sc_sig_b :: u64
  sc_late :: u64
  sc_insn0 :: u64
  sc_insn1 :: u64
  sc_rd :: string
  sc_bit :: string
  sc_dir :: string
  sc_thing :: string

definition sccy :: sc_text where
  "sccy = \<lparr>sc_counter = CY, sc_mask = 1, sc_sig_a = 0x8a8a, sc_sig_b = 0x8b8b, sc_late = 0x8be8, sc_insn0 = 0xC00022F3,
     sc_insn1 = 0xC0002373, sc_rd = ''rdcycle'', sc_bit = ''CY'', sc_dir = ''cy'', sc_thing = ''counter''\<rparr>"

definition sctg :: sc_text where
  "sctg = \<lparr>sc_counter = TM, sc_mask = 2, sc_sig_a = 0xa5a5, sc_sig_b = 0xb5b5, sc_late = 0xb5e5, sc_insn0 = 0xC01022F3,
     sc_insn1 = 0xC0102373, sc_rd = ''rdtime'', sc_bit = ''TM'', sc_dir = ''tm'', sc_thing = ''timer''\<rparr>"

text \<open>\<open>scir\<close> has no timeout signal.\<close>

definition scir :: sc_text where
  "scir = \<lparr>sc_counter = IR, sc_mask = 4, sc_sig_a = 0x9a9a, sc_sig_b = 0x9b9b, sc_late = 0, sc_insn0 = 0xC02022F3,
     sc_insn1 = 0xC0202373, sc_rd = ''rdinstret'', sc_bit = ''IR'', sc_dir = ''ir'', sc_thing = ''counter''\<rparr>"

record sc_syms =
  c_main :: u64
  c_trap_entry :: u64
  c_mt_trap_entry :: u64
  c_regs :: u64
  c_smode_test :: u64
  c_phase_a_done :: u64
  c_phase_b_done :: u64
  c_unexpected :: u64
  c_payload_a :: u64
  c_read_a :: u64
  c_ecall_a :: u64
  c_pay_b :: read_syms
  c_left_t2 :: u64


subsection \<open>The program\<close>

definition sc_handle :: "sc_text \<Rightarrow> sc_syms \<Rightarrow> (unit gate_ext modes_ext, u64) prog" where
  "sc_handle p y = do {
     record_trap;
     r \<leftarrow> gets t_regs;
     if r 0 = 2 then resume_at (r 2 + 4)
     else if r 0 = 8 then do {
       csrs Sstatus 0x100;
       if r 6 = sc_sig_a p then resume_at (c_phase_a_done y)
       else if r 6 = sc_sig_b p then resume_at (c_phase_b_done y)
       else do { modify (\<lambda>s. s\<lparr>bad_cause := r 0, bad_sig := r 6\<rparr>); resume_at (c_unexpected y) } }
     else do {
       modify (\<lambda>s. s\<lparr>bad_cause := r 0, bad_sig := r 6\<rparr>);
       csrs Sstatus 0x100;
       resume_at (c_unexpected y) } }"

definition sc_phase_a_done :: "sc_text \<Rightarrow> sc_syms \<Rightarrow> gprog" where
  "sc_phase_a_done p y = do {
     puts [Str ''\<newline>--- back in S-mode: phase A complete ---\<newline>'', Str ''trap history:\<newline>''];
     print_trap 0 (''gated '' @ sc_rd p);
     print_trap 1 ''SIG_A ecall '';
     n \<leftarrow> gets hist_n; h0 \<leftarrow> gets (\<lambda>s. hist s 0); h1 \<leftarrow> gets (\<lambda>s. hist s 1);
     check_feed (n = 2) ''phase A: trap count is not 2'' (of_bool (n = 2));
     check_feed (h0 0 = 2) ''phase A: trap 1 scause is not 2 (illegal instruction)'' (h0 0);
     check_feed (h0 2 = c_read_a y) (''phase A: trap 1 sepc is not at the '' @ sc_rd p @ '' site'') (of_bool (h0 2 = c_read_a y));
     check_feed (h0 5 = U_SENTINEL) (''phase A: '' @ sc_rd p @ '' destination changed (it retired?)'') (of_bool (h0 5 = U_SENTINEL));
     check_feed (h1 0 = 8) ''phase A: trap 2 scause is not 8 (ecall from U-mode)'' (h1 0);
     check_feed (h1 2 = c_ecall_a y) ''phase A: trap 2 sepc is not at the payload ecall site'' (of_bool (h1 2 = c_ecall_a y));
     check_feed (h1 6 = sc_sig_a p) ''phase A: trap 2 signal is not SIG_A'' (of_bool (h1 6 = sc_sig_a p));
     puts [Str (''\<newline>phase B: setting scounteren.'' @ sc_bit p @ '' in S-mode...\<newline>'')];
     csrs Scounteren (sc_mask p);
     rb \<leftarrow> csrr Scounteren;
     puts [Str ''  scounteren readback='', Hex rb, Str ''\<newline>''];
     check_feed (rb AND sc_mask p \<noteq> 0) (''phase B: scounteren.'' @ sc_bit p @ '' did not stick'') (of_bool (rb AND sc_mask p \<noteq> 0));
     puts [Str (''dropping to U-mode with scounteren.'' @ sc_bit p @ ''=1...\<newline>'')];
     drop_to_umode (u_read (c_pay_b y)) }"

definition sc_phase_b_done :: "sc_text \<Rightarrow> sc_syms \<Rightarrow> gprog" where
  "sc_phase_b_done p y = do {
     puts [Str ''\<newline>--- back in S-mode: phase B complete ---\<newline>''];
     print_trap 2 ''SIG_B ecall '';
     n \<leftarrow> gets hist_n; h \<leftarrow> gets (\<lambda>s. hist s 2);
     check_feed (n = 3) ''phase B: trap count is not 3'' (of_bool (n = 3));
     check_feed (h 0 = 8) ''phase B: trap 3 scause is not 8 (ecall from U-mode)'' (h 0);
     check_feed (h 2 = u_ecall (c_pay_b y)) ''phase B: trap 3 sepc is not at the payload ecall site''
       (of_bool (h 2 = u_ecall (c_pay_b y)));
     check_feed (h 6 = sc_sig_b p) ''phase B: trap 3 signal is not SIG_B'' (of_bool (h 6 = sc_sig_b p));
     let s0 = h 5;
     let s1 = h 7;
     puts [Str (''  '' @ sc_rd p @ '' sample 0 (t0) = ''), Hex s0, Str (''\<newline>  '' @ sc_rd p @ '' sample 1 (t1) = ''), Hex s1,
       Str ''  (delta = '', Dec (s1 - s0), Str '')\<newline>''];
     check_feed (s1 > s0) (''phase B: '' @ sc_rd p @ '' samples did not strictly increase'') (of_bool (s1 > s0));
     check_feed (s0 \<noteq> 0) (''phase B: '' @ sc_rd p @ '' sample 0 is zero ('' @ sc_thing p @ '' not running?)'') (of_bool (s0 \<noteq> 0));
     gate_verdict }"

definition sc_unexpected :: gprog where
  "sc_unexpected = do {
     c \<leftarrow> gets bad_cause; g \<leftarrow> gets bad_sig; n \<leftarrow> gets hist_n;
     puts [Str ''\<newline>--- UNEXPECTED TRAP ---\<newline>'', Str ''  cause='', Hex c, Str '' signal(a0)='', Hex g,
       Str ''\<newline>  history depth='', Dec (of_nat n), Str ''\<newline>''];
     print_hist 0 (min n HIST_N);
     puts [Str ''RESULT: FAIL\<newline>''];
     park }"

definition sc_smode_test :: "sc_text \<Rightarrow> sc_syms \<Rightarrow> gprog" where
  "sc_smode_test p y = do {
     puts [Str (''in S-mode; scounteren-'' @ sc_dir p @ ''-gate experiment begins\<newline>''), Str (''phase A payload: '' @ sc_rd p @ '' site ''),
       Hex (c_read_a y), Str '', ecall site '', Hex (c_ecall_a y), Str ''\<newline>'',
       Str (''dropping to U-mode with scounteren.'' @ sc_bit p @ ''=0...\<newline>'')];
     drop_to_umode (c_payload_a y) }"

text \<open>\<open>write_scounteren\<close> and the readback with its print.\<close>

definition s_gate_readback :: "string \<Rightarrow> u64 \<Rightarrow> (unit gate_ext modes_ext, u64) prog" where
  "s_gate_readback label v = do {
     csrw Scounteren v;
     rb \<leftarrow> csrr Scounteren;
     puts [Str label, Hex rb, Str ''\<newline>''];
     State_Monad.return rb }"

definition sc_gates :: "sc_text \<Rightarrow> gprog" where
  "sc_gates p = do {
     sc \<leftarrow> csrr Scounteren;
     puts [Str ''boot: scounteren='', Hex sc, Str ''\<newline>''];
     rb \<leftarrow> s_gate_readback ''probe: csrw scounteren, 0x7; readback='' 7;
     check_feed (rb = 7) ''scounteren write of 0x7 did not read back as 0x7'' rb;
     rb \<leftarrow> s_gate_readback ''write: csrw scounteren, 0; readback='' 0;
     check_feed (rb = 0) ''scounteren write of 0 did not read back as 0'' rb;
     rb \<leftarrow> m_gate_readback (''write: mcounteren.'' @ sc_bit p @ ''=1 (unblock the M-level gate); readback='') (sc_mask p);
     check_feed (rb AND sc_mask p \<noteq> 0) (''mcounteren.'' @ sc_bit p @ '' did not stick'') (of_bool (rb AND sc_mask p \<noteq> 0)) }"

definition sc_main :: "sc_text \<Rightarrow> sc_syms \<Rightarrow> gprog" where
  "sc_main p y = do {
     puts [Str ''\<newline>========================================\<newline>'',
       Str (''scounteren.'' @ sc_bit p @ '' gates U-mode '' @ sc_rd p @ ''\<newline>''),
       Str (sc_bit p @ '' clear must trap, '' @ sc_bit p @ '' set must read\<newline>''), Str ''========================================\<newline>\<newline>''];
     sc_gates p;
     set_vectors (c_mt_trap_entry y) (c_trap_entry y) (c_regs y);
     set_delegation;
     open_pmp;
     puts [Str ''setup complete; dropping to S-mode...\<newline>''];
     drop_to_smode (c_smode_test y) }"

definition sc_payload_b :: "sc_text \<Rightarrow> sc_syms \<Rightarrow> (u64 \<times> gprog) list" where
  "sc_payload_b p y = (if sc_counter p = IR then straight_blocks IR (c_pay_b y) (sc_insn0 p) (sc_insn1 p) (sc_sig_b p)
     else read_blocks (sc_counter p) (c_pay_b y) (sc_insn0 p) (sc_insn1 p) (sc_sig_b p) (sc_late p))"

definition sc_code :: "sc_text \<Rightarrow> sc_syms \<Rightarrow> (u64 \<times> gprog) list" where
  "sc_code p y =
    [(c_main y, sc_main p y),
     (c_trap_entry y, s_trap_entry (c_regs y) (c_left_t2 y) (sc_handle p y)),
     (c_mt_trap_entry y, park),
     (c_smode_test y, sc_smode_test p y),
     (c_phase_a_done y, sc_phase_a_done p y),
     (c_phase_b_done y, sc_phase_b_done p y),
     (c_unexpected y, sc_unexpected)]
    @ gated_blocks (sc_counter p) (c_payload_a y) (c_read_a y) (c_ecall_a y) (sc_insn0 p) (sc_sig_a p)
    @ sc_payload_b p y"


subsection \<open>The three programs\<close>

text \<open>The functions of each file, as instances.\<close>

definition sctg_handle where "sctg_handle = sc_handle sctg"
definition sctg_phase_a_done where "sctg_phase_a_done = sc_phase_a_done sctg"
definition sctg_phase_b_done where "sctg_phase_b_done = sc_phase_b_done sctg"
definition sctg_unexpected where "sctg_unexpected = sc_unexpected"
definition sctg_smode_test where "sctg_smode_test = sc_smode_test sctg"
definition sctg_main where "sctg_main = sc_main sctg"
definition scir_handle where "scir_handle = sc_handle scir"
definition scir_phase_a_done where "scir_phase_a_done = sc_phase_a_done scir"
definition scir_phase_b_done where "scir_phase_b_done = sc_phase_b_done scir"
definition scir_unexpected where "scir_unexpected = sc_unexpected"
definition scir_smode_test where "scir_smode_test = sc_smode_test scir"
definition scir_main where "scir_main = sc_main scir"

definition sc_cont :: "sc_text \<Rightarrow> sc_syms \<Rightarrow> u64 \<Rightarrow> u64 option" where
  "sc_cont p y sig = (if sig = sc_sig_a p then Some (c_phase_a_done y) else if sig = sc_sig_b p then Some (c_phase_b_done y) else None)"

text \<open>What the program asks of its hart.\<close>

definition sc_counts :: "sc_text \<Rightarrow> hart \<Rightarrow> bool" where
  "sc_counts p h \<longleftrightarrow> (if sc_counter p = IR then advancing IR h (retired h) (retired h + 4 * (2 ^ 20 + 1))
     else ticks_enough (sc_counter p) h)"

definition sc_hart :: "sc_text \<Rightarrow> sc_syms \<Rightarrow> hart \<Rightarrow> bool" where
  "sc_hart p y h \<longleftrightarrow> plain_hart (c_trap_entry y) (c_regs y) (c_mt_trap_entry y) h \<and> sc_counts p h \<and>
     takes h Mcounteren (sc_mask p) \<and> takes h Scounteren 0 \<and> takes h Scounteren 7 \<and> takes h Scounteren (sc_mask p)"

abbreviation (input) sc_stage :: "sc_text \<Rightarrow> sc_syms \<Rightarrow> hart \<Rightarrow> u64 \<Rightarrow> nat \<Rightarrow> u64 list \<Rightarrow> gate \<Rightarrow> bool" where
  "sc_stage p y h0 sc n vs s \<equiv> staged (c_trap_entry y) (c_regs y) (c_mt_trap_entry y) h0 (sc_mask p) sc n vs s"

text \<open>A program of the family: two signals, and the mask is the bit of the counter.\<close>

locale sc_program =
  fixes p :: sc_text
  assumes sigs: "sc_sig_a p \<noteq> sc_sig_b p"
    and mask: "sc_mask p = push_bit (gate_bit (sc_counter p)) 1"

sublocale sc_program \<subseteq> d: dispatcher "sc_handle p y" "sc_cont p y" for y
proof unfold_locales
  fix s :: gate
  assume "hist_n s < 8" "t_regs s 0 = 2"
  then show "run_state (sc_handle p y) s = (t_regs s 2 + 4, noted (t_regs s 2 + 4) s)"
    by (cases s) (simp add: sc_handle_def record_trap_def gate_exec noted_def)
next
  fix s :: gate and k
  assume "hist_n s < 8" "t_regs s 0 = 8" "sc_cont p y (t_regs s 6) = Some k"
  then show "run_state (sc_handle p y) s = (k, (noted k s)\<lparr>hw := set_spp (hw s)\<rparr>)"
    by (cases s) (auto simp: sc_handle_def record_trap_def gate_exec noted_def set_spp_def sc_cont_def split: if_splits)
qed

context sc_program
begin

lemma mask_bit: "bit (sc_mask p) (gate_bit (sc_counter p))" "sc_mask p \<noteq> 0"
proof -
  show "bit (sc_mask p) (gate_bit (sc_counter p))" by (cases "sc_counter p") (simp_all add: mask gate_bit_def bit_iff_odd)
  then show "sc_mask p \<noteq> 0" by auto
qed

lemma phase_a_done_stage:
  assumes h0: "sc_hart p y h0" and s: "sc_stage p y h0 0 2 vs s" and a: "code_addr (u_read (c_pay_b y))"
    and h: "hist s 0 0 = 2" "hist s 0 2 = c_read_a y" "hist s 0 5 = U_SENTINEL" "hist s 1 0 = 8" "hist s 1 2 = c_ecall_a y"
      "hist s 1 6 = sc_sig_a p"
  defines "t \<equiv> final (sc_phase_a_done p y) s"
  shows "sc_stage p y h0 (sc_mask p) 2 (vs @ [1, 2, 1, 1, 8, 1, 1, 1]) t \<and> here UMode (u_read (c_pay_b y)) t \<and> hist t = hist s"
proof -
  let ?g = "csr_store Scounteren (sc_mask p) (hw s)"
  have d: "same_config ?g (u_drop a ?g)" for a by simp
  show ?thesis
    using h0 s a h mask_bit(2) drops [of "c_trap_entry y" "c_regs y" ?g "u_read (c_pay_b y)"] gate_hart_config [OF d] same_config_simps [OF d]
    by (simp add: t_def sc_phase_a_done_def staged_run here_def sc_hart_def takes_def cong: probe_cong)
qed

lemma phase_b_done_finish:
  assumes "sc_stage p y h0 sc 3 vs s" "hist s 2 0 = 8" "hist s 2 2 = u_ecall (c_pay_b y)" "hist s 2 6 = sc_sig_b p"
    "hist s 2 5 \<noteq> 0" "hist s 2 5 < hist s 2 7"
  defines "t \<equiv> final (sc_phase_b_done p y) s"
  shows "parked t \<and> fails t = 0 \<and> finisher t = Some FINISHER_PASS \<and> hist t = hist s \<and> hist_n t = 3 \<and>
    cksum t = foldl fnv64 FNV_BASIS (vs @ [1, 8, 1, 1, 1, 1])"
  using assms by (simp add: t_def sc_phase_b_done_def staged_run verdict_fields cong: probe_cong)

lemma run_s_gate_readback [simp]:
  "run_state (s_gate_readback l v) s = (legal (hw s) Scounteren (csrf (hw s) Scounteren) v,
     emit [Str l, Hex (legal (hw s) Scounteren (csrf (hw s) Scounteren) v), Str ''\<newline>''] (s\<lparr>hw := csr_store Scounteren v (hw s)\<rparr>))"
  by (simp add: s_gate_readback_def gate_exec)

lemma main_stage:
  assumes s: "sc_hart p y (hw s)" "booted (c_main y) s" and a: "code_addr (c_smode_test y)"
  defines "t \<equiv> final (sc_main p y) s"
  shows "sc_stage p y (hw s) 0 0 [7, 0, 1, 1] t \<and> here SMode (c_smode_test y) t"
proof -
  let ?h = "csr_store Mcounteren (sc_mask p) (csr_store Scounteren 0 (csr_store Scounteren 7 (hw s)))"
  have ph: "plain_hart (c_trap_entry y) (c_regs y) (c_mt_trap_entry y) (hw s)" using s by (simp add: sc_hart_def)
  have "csrf ?h Mcounteren = sc_mask p" "csrf ?h Scounteren = 0" using s by (simp_all add: sc_hart_def takes_def)
  with equipped_drop [OF ph _ a, of ?h, unfolded equipped_def] s ph mask_bit(2) show ?thesis
    by (simp add: t_def sc_main_def sc_gates_def set_delegation_def set_vectors_def open_pmp_def exec_assoc staged_run here_def
        run_m_gate_readback [THEN exec_step] run_s_gate_readback [THEN exec_step] booted_def sc_hart_def plain_hart_def takes_def
        cong: probe_cong)
qed

lemma blocks:
  "(c_main y, sc_main p y) \<in> set (sc_code p y)" "(c_smode_test y, sc_smode_test p y) \<in> set (sc_code p y)"
  "(c_trap_entry y, s_trap_entry (c_regs y) (c_left_t2 y) (sc_handle p y)) \<in> set (sc_code p y)"
  "(c_phase_a_done y, sc_phase_a_done p y) \<in> set (sc_code p y)" "(c_phase_b_done y, sc_phase_b_done p y) \<in> set (sc_code p y)"
  "(u_read (c_pay_b y), rd_counter (sc_counter p) xt0 (u_read (c_pay_b y)) (sc_insn0 p)) \<in> set (sc_code p y)"
  "(c_payload_a y, do { put_reg xt0 U_SENTINEL; goto (c_read_a y) }) \<in> set (sc_code p y)"
  by (simp_all add: sc_code_def sc_payload_b_def straight_blocks_def read_blocks_def gated_blocks_def)

lemma conts: "sc_cont p y (sc_sig_a p) = Some (c_phase_a_done y)" "sc_cont p y (sc_sig_b p) = Some (c_phase_b_done y)"
  using sigs by (simp_all add: sc_cont_def)

lemma phase_b_samples:
  assumes code: "well_placed (sc_code p y)" and h0: "sc_hart p y h0"
    and s: "sc_stage p y h0 (sc_mask p) 2 vs s" "here UMode (u_read (c_pay_b y)) s"
  shows "\<exists>h' r row. let s' = s\<lparr>hw := h', t_regs := r, hist := (hist s)(2 := row), hist_n := 3\<rparr> in
    runs (sc_code p y) s s' \<and> sc_stage p y h0 (sc_mask p) 3 vs s' \<and> here SMode (c_phase_b_done y) s' \<and>
    row 0 = 8 \<and> row 2 = u_ecall (c_pay_b y) \<and> row 6 = sc_sig_b p \<and> row 5 \<noteq> 0 \<and> row 5 < row 7"
proof (cases "sc_counter p = IR")
  case True
  have b: "set (straight_blocks IR (c_pay_b y) (sc_insn0 p) (sc_insn1 p) (sc_sig_b p)) \<subseteq> set (sc_code p y)"
    using True by (auto simp: sc_code_def sc_payload_b_def)
  show ?thesis
    using d.staged_straight [OF code blocks(3) b s _ _ _ _ conts(2) placed_addr [OF code blocks(5)]] h0 mask_bit(1) True
    by (simp add: sc_hart_def sc_counts_def)
next
  case False
  have b: "set (read_blocks (sc_counter p) (c_pay_b y) (sc_insn0 p) (sc_insn1 p) (sc_sig_b p) (sc_late p)) \<subseteq> set (sc_code p y)"
    using False by (auto simp: sc_code_def sc_payload_b_def)
  show ?thesis
    using d.staged_reads [OF code blocks(3) b s _ _ _ _ conts(2) placed_addr [OF code blocks(5)]] h0 mask_bit(1) False
    by (simp add: sc_hart_def sc_counts_def)
qed

lemma phase_a:
  assumes code: "well_placed (sc_code p y)" and h0: "sc_hart p y h0"
    and s: "sc_stage p y h0 0 0 vs s" "here SMode (c_smode_test y) s"
  shows "\<exists>s'. runs (sc_code p y) s s' \<and> sc_stage p y h0 (sc_mask p) 2 (vs @ [1, 2, 1, 1, 8, 1, 1, 1]) s' \<and>
    here UMode (u_read (c_pay_b y)) s' \<and> hist s' 0 0 = 2 \<and> hist s' 0 2 = c_read_a y \<and> hist s' 0 5 = U_SENTINEL"
proof -
  let ?c = "sc_code p y"
  note ad = blocks [THEN placed_addr [OF code]]
  note first = staged_start [OF code s blocks(2) ad(7) sc_smode_test_def]
  let ?s1 = "final (sc_smode_test p y) s"
  have g: "set (gated_blocks (sc_counter p) (c_payload_a y) (c_read_a y) (c_ecall_a y) (sc_insn0 p) (sc_sig_a p)) \<subseteq> set ?c"
    by (auto simp: sc_code_def)
  have two: "Suc 0 = 1" "Suc 1 = 2" by simp_all
  have pr: "Suc 0 < HIST_N" "\<not> (bit (sc_mask p) (gate_bit (sc_counter p)) \<and> bit (0 :: u64) (gate_bit (sc_counter p)))" by simp_all
  let ?f = "\<lambda>h' r row1 row2. ?s1\<lparr>hw := h', t_regs := r, hist := (hist ?s1)(0 := row1, 1 := row2), hist_n := 2\<rparr>"
  from d.staged_gated [OF code blocks(3) g first(2,4) pr conts(1) ad(4), unfolded Let_def two]
  obtain h' r row1 row2 where s2: "runs ?c ?s1 (?f h' r row1 row2)" "sc_stage p y h0 0 2 vs (?f h' r row1 row2)"
    "here SMode (c_phase_a_done y) (?f h' r row1 row2)"
    "row1 0 = 2" "row1 2 = c_read_a y" "row1 5 = U_SENTINEL" "row2 0 = 8" "row2 2 = c_ecall_a y" "row2 6 = sc_sig_a p"
    by blast
  let ?t = "final (sc_phase_a_done p y) (?f h' r row1 row2)"
  have "runs ?c s ?t"
    using first(1) s2(1) runs_one [OF staged_step [OF code s2(2,3) blocks(4)]] by (blast intro: runs_trans)
  with phase_a_done_stage [OF h0 s2(2) ad(6)] s2(4-9) show ?thesis by (intro exI [of _ ?t]) simp
qed

theorem passes:
  assumes code: "well_placed (sc_code p y)" and boot: "sc_hart p y (hw s)" "booted (c_main y) s"
  shows "\<exists>t. runs (sc_code p y) s t \<and> parked t \<and> finisher t = Some FINISHER_PASS \<and> fails t = 0 \<and> hist_n t = 3 \<and>
    hist t 0 0 = 2 \<and> hist t 0 2 = c_read_a y \<and> hist t 0 5 = U_SENTINEL \<and>
    cksum t = foldl fnv64 FNV_BASIS (([7, 0, 1, 1] @ [1, 2, 1, 1, 8, 1, 1, 1]) @ [1, 8, 1, 1, 1, 1])"
proof -
  let ?c = "sc_code p y"
  let ?s0 = "final (sc_main p y) s"
  have first: "mode_step ?c s = Some ?s0"
    using boot_step [OF code boot(2) blocks(1)] boot(1) by (simp add: sc_hart_def plain_hart_def)
  note s0 = main_stage [OF boot placed_addr [OF code blocks(2)]]
  from phase_a [OF code boot(1) s0 [THEN conjunct1] s0 [THEN conjunct2]] obtain s1 where s1: "runs ?c ?s0 s1"
    "sc_stage p y (hw s) (sc_mask p) 2 ([7, 0, 1, 1] @ [1, 2, 1, 1, 8, 1, 1, 1]) s1" "here UMode (u_read (c_pay_b y)) s1"
    "hist s1 0 0 = 2" "hist s1 0 2 = c_read_a y" "hist s1 0 5 = U_SENTINEL" by blast
  let ?f = "\<lambda>h' r row. s1\<lparr>hw := h', t_regs := r, hist := (hist s1)(2 := row), hist_n := 3\<rparr>"
  from phase_b_samples [OF code boot(1) s1(2,3), unfolded Let_def] obtain h' r row where s2: "runs ?c s1 (?f h' r row)"
    "sc_stage p y (hw s) (sc_mask p) 3 ([7, 0, 1, 1] @ [1, 2, 1, 1, 8, 1, 1, 1]) (?f h' r row)"
    "here SMode (c_phase_b_done y) (?f h' r row)"
    "row 0 = 8" "row 2 = u_ecall (c_pay_b y)" "row 6 = sc_sig_b p" "row 5 \<noteq> 0" "row 5 < row 7" by blast
  let ?t = "final (sc_phase_b_done p y) (?f h' r row)"
  have "runs ?c s ?t"
    using runs_step [OF first s1(1)] s2(1) runs_one [OF staged_step [OF code s2(2,3) blocks(5)]] by (blast intro: runs_trans)
  with phase_b_done_finish [OF s2(2)] s2(4-8) s1(4-6) show ?thesis by (intro exI [of _ ?t]) simp
qed

end

interpretation sccy: sc_program sccy
  by unfold_locales (simp_all add: sccy_def gate_bit_def)

interpretation sctg: sc_program sctg
  by unfold_locales (simp_all add: sctg_def gate_bit_def)

interpretation scir: sc_program scir
  by unfold_locales (simp_all add: scir_def gate_bit_def)

lemma sc_checksum:
  "foldl fnv64 FNV_BASIS (([7, 0, 1, 1] @ [1, 2, 1, 1, 8, 1, 1, 1]) @ [1, 8, 1, 1, 1, 1]) = 0x9756843e0befd207"
  by code_simp


subsection \<open>Properties\<close>

text \<open>
  All three \<open>scounteren\<close> experiments pass on a hart that keeps the gate values written, with \<open>scounteren\<close> closed in
  phase A and opened in phase B: the machine stops in the final loop with the pass word written and no check failed, after three
  recorded traps. The first of them is the gated counter read, an illegal instruction at its site with the destination register
  untouched. The three programs end with one and the same checksum, the one their PROOF.md files report.
\<close>

theorem scounteren_gates_pass:
  assumes "p \<in> {sccy, sctg, scir}" "well_placed (sc_code p y)" "sc_hart p y (hw s)" "booted (c_main y) s"
  shows "\<exists>t. runs (sc_code p y) s t \<and> mode_step (sc_code p y) t = None \<and> finisher t = Some FINISHER_PASS \<and> fails t = 0 \<and>
    hist_n t = 3 \<and> hist t 0 0 = 2 \<and> hist t 0 2 = c_read_a y \<and> hist t 0 5 = U_SENTINEL \<and> cksum t = 0x9756843e0befd207"
proof -
  from assms sccy.passes sctg.passes scir.passes obtain t where "runs (sc_code p y) s t \<and> parked t \<and> finisher t = Some FINISHER_PASS \<and>
    fails t = 0 \<and> hist_n t = 3 \<and> hist t 0 0 = 2 \<and> hist t 0 2 = c_read_a y \<and> hist t 0 5 = U_SENTINEL \<and>
    cksum t = 0x9756843e0befd207" unfolding sc_checksum by blast
  then show ?thesis using parked_stops by blast
qed

text \<open>A placement for the witness.\<close>

definition sc_example_syms :: sc_syms where
  "sc_example_syms = \<lparr>c_main = 0x80000000, c_trap_entry = 0x80000010, c_mt_trap_entry = 0x80000020, c_regs = 0x80010000,
     c_smode_test = 0x80000040, c_phase_a_done = 0x80000050, c_phase_b_done = 0x80000070,
     c_unexpected = 0x800000a0, c_payload_a = 0x80000300, c_read_a = 0x80000310, c_ecall_a = 0x80000318,
     c_pay_b = \<lparr>u_read = 0x80000100, u_spin = 0x80000144, u_sig = 0x80000150, u_ecall = 0x80000154, u_late = 0x80000160\<rparr>,
     c_left_t2 = 0\<rparr>"

lemma sc_example_placed: "well_placed (sc_code scir sc_example_syms)"
  by (simp add: well_placed_def code_addr_def sc_code_def sc_payload_b_def scir_def straight_blocks_def gated_blocks_def sc_example_syms_def)

lemma sc_example_boot:
  "sc_hart scir sc_example_syms (hw (gate_example 0x80000000 (\<lambda>c old v. v)))"
  "booted (c_main sc_example_syms) (gate_example 0x80000000 (\<lambda>c old v. v))"
proof -
  have "advancing IR (gate_example_hart a leg) (retired (gate_example_hart a leg)) (retired (gate_example_hart a leg) + 4 * (2 ^ 20 + 1))" for a leg
    by (rule counting_advances) (simp_all add: gate_example_hart_def)
  then show "sc_hart scir sc_example_syms (hw (gate_example 0x80000000 (\<lambda>c old v. v)))"
    "booted (c_main sc_example_syms) (gate_example 0x80000000 (\<lambda>c old v. v))"
    by (simp_all add: sc_hart_def sc_counts_def plain_hart_def booted_def gate_example_def keeps_bits_def takes_def sc_example_syms_def scir_def)
      (simp_all add: gate_example_hart_def)
qed

theorem scounteren_gates_pass_witness:
  "\<exists>t. runs (sc_code scir sc_example_syms) (gate_example 0x80000000 (\<lambda>c old v. v)) t \<and>
     finisher t = Some FINISHER_PASS \<and> hist t 0 2 = 0x80000310"
  using scounteren_gates_pass [OF _ sc_example_placed sc_example_boot] by (auto simp: sc_example_syms_def)

end
