(* ===== verification/Skip.thy ===== *)
theory Skip
  imports Gate
begin

text \<open>
  The S-mode trap entry that skips: it records the cause, the trap value and the faulting address, counts, and resumes after
  the four bytes of the faulting instruction. Seven programs have it, byte for byte. It saves t0 through \<open>sscratch\<close> but not
  t1, where it leaves the interrupted t0. The rest of the theory is what the programs around it share.

  The experiments read a register in inline assembly with labels around the instruction. Here a
  label is a symbol, the function is cut into blocks at the labels, and the register the compiler chose for a result is
  part of the symbols.
\<close>

unbundle bit_operations_syntax


subsection \<open>The entry\<close>

definition skip_entry :: "u64 \<Rightarrow> gprog" where
  "skip_entry regs = do {
     base \<leftarrow> csrr Sscratch;
     if base \<noteq> regs then modify (\<lambda>s. s\<lparr>stuck := True\<rparr>)
     else do {
       t0 \<leftarrow> get_reg xt0;
       cause \<leftarrow> csrr Scause; tval \<leftarrow> csrr Stval; epc \<leftarrow> csrr Sepc;
       modify (\<lambda>s. s\<lparr>t_regs := (t_regs s)(0 := cause, 1 := tval, 2 := epc, 3 := t_regs s 3 + 1, 4 := epc + 4, 5 := t0)\<rparr>);
       csrw Sepc (epc + 4);
       put_reg xt1 t0;
       sret } }"


subsection \<open>Reports of the experiments\<close>

definition skip_report :: "string \<Rightarrow> string \<Rightarrow> u64 \<Rightarrow> u64 \<Rightarrow> gprog" where
  "skip_report title rdname site v = do {
     r \<leftarrow> gets t_regs;
     puts [Str title, Str ''  fault site (label 1)  = '', Hex site, Str ''\<newline>  resume site (label 2) = '', Hex (site + 4),
       Str ''\<newline>  scause  = '', Hex (r 0), Str ''\<newline>  stval   = '', Hex (r 1), Str ''\<newline>  sepc    = '', Hex (r 2),
       Str ''\<newline>  sepc+4  = '', Hex (r 4), Str ''\<newline>  traps   = '', Dec (r 3),
       Str (''\<newline>  '' @ rdname @ '' dest register = ''), Hex v, Str '' (sentinel = '', Hex U_SENTINEL, Str '')\<newline>''] }"

definition fault_checks :: "string \<Rightarrow> string \<Rightarrow> u64 \<Rightarrow> string \<Rightarrow> string \<Rightarrow> u64 \<Rightarrow> u64 \<Rightarrow> gprog" where
  "fault_checks ph count_msg n rdname subject site v = do {
     r \<leftarrow> gets t_regs;
     check_feed (r 3 = n) count_msg (r 3);
     check_feed (r 0 = 2) (ph @ ''scause is not 2 (illegal instruction)'') (r 0);
     check_feed (r 2 = site) (ph @ ''sepc is not at the '' @ rdname @ '' site'') (of_bool (r 2 = site));
     check_feed (r 4 = site + 4) (ph @ ''sepc+4 is not at the resume label'') (of_bool (r 4 = site + 4));
     check_feed (v = U_SENTINEL) (ph @ rdname @ '' destination changed ('' @ subject @ '' retired?)'') (of_bool (v = U_SENTINEL)) }"

text \<open>A function up to its first faulting instruction, and what follows that instruction.\<close>

definition fault_start :: "piece list \<Rightarrow> nat \<Rightarrow> u64 \<Rightarrow> gprog" where
  "fault_start ps q site = do { puts ps; put_reg q U_SENTINEL; goto site }"

definition fault_done :: "string \<Rightarrow> string \<Rightarrow> string \<Rightarrow> string \<Rightarrow> u64 \<Rightarrow> string \<Rightarrow> nat \<Rightarrow> u64 \<Rightarrow> gprog" where
  "fault_done title rdname ph count_msg n subject q site = do {
     v \<leftarrow> get_reg q;
     skip_report title rdname site v;
     fault_checks ph count_msg n rdname subject site v }"

text \<open>\<open>n\<close> instructions between two samples.\<close>

definition pause :: "nat \<Rightarrow> u64 \<Rightarrow> gprog" where
  "pause n a = do { nops n; goto a }"

text \<open>The encoding of \<open>csrr q, csr\<close>.\<close>

definition csrr_insn :: "u64 \<Rightarrow> nat \<Rightarrow> u64" where
  "csrr_insn no q = push_bit 20 no OR 0x2073 OR push_bit 7 (of_nat q)"

text \<open>\<open>medeleg = 4\<close>: only the illegal instruction is delegated.\<close>

definition delegate_illegal :: gprog where
  "delegate_illegal = do {
     csrw Medeleg 4;
     deleg \<leftarrow> csrr Medeleg;
     puts [Str ''medeleg readback='', Hex deleg, Str ''\<newline>''];
     check_feed (deleg AND 4 \<noteq> 0) ''medeleg bit 2 (illegal instruction) not set'' (of_bool (deleg AND 4 \<noteq> 0)) }"

text \<open>The write probe of \<open>mcounteren\<close> and the closed gate.\<close>

definition close_gate :: "string \<Rightarrow> u64 \<Rightarrow> string \<Rightarrow> gprog" where
  "close_gate label v msg = do {
     mc \<leftarrow> csrr Mcounteren;
     puts [Str ''boot: mcounteren='', Hex mc, Str ''\<newline>''];
     rb \<leftarrow> m_gate_readback ''probe: csrw mcounteren, 0x7; readback='' 7;
     check_feed (rb = 7) ''mcounteren write of 0x7 did not read back as 0x7'' rb;
     rb \<leftarrow> m_gate_readback label v;
     check_feed (rb = v) msg rb }"


subsection \<open>Running\<close>

definition skip_record :: "hart \<Rightarrow> (nat \<Rightarrow> u64) \<Rightarrow> nat \<Rightarrow> u64" where
  "skip_record h r = r(0 := csrf h Scause, 1 := csrf h Stval, 2 := csrf h Sepc, 3 := r 3 + 1, 4 := csrf h Sepc + 4, 5 := reg_get xt0 h)"

lemma skip_entry_run:
  assumes "csrf (hw s) Sscratch = regs"
  shows "run_state (skip_entry regs) s = ((), s\<lparr>t_regs := skip_record (hw s) (t_regs s),
    hw := do_sret (reg_set xt1 (reg_get xt0 (hw s)) (csr_write Sepc (csrf (hw s) Sepc + 4) (hw s)))\<rparr>)"
  using assms by (cases s) (simp add: skip_entry_def gate_exec skip_record_def)

lemma run_fault_checks:
  assumes "t_regs s 3 = n" "t_regs s 0 = 2" "t_regs s 2 = site" "t_regs s 4 = site + 4" "v = U_SENTINEL"
  shows "run_state (fault_checks ph cm n rdname sj site v) s =
    ((), s\<lparr>cksum := fnv64 (fnv64 (fnv64 (fnv64 (fnv64 (cksum s) n) 2) 1) 1) 1\<rparr>)"
  using assms by (simp add: fault_checks_def gate_exec checked_True)

text \<open>An access that is refused: one step to the entry, one back to the next instruction.\<close>

lemma skip_trip:
  assumes code: "well_placed code" "(vec, skip_entry regs) \<in> set code" "(a, b) \<in> set code"
    and s: "deleg_hart 4 vec regs (hw s)" "\<not> parked s" "\<not> stuck s" "priv (hw s) \<noteq> MMode" "pc (hw s) = a" "code_addr (a + 4)"
    and b: "final b s = s\<lparr>hw := route 2 a insn (hw s)\<rparr>"
  shows "\<exists>h' r. runs code s (s\<lparr>t_regs := r, hw := h'\<rparr>) \<and> priv h' = priv (hw s) \<and> pc h' = a + 4 \<and>
    same_config (hw s) h' \<and> retired h' = retired (hw s) \<and> (\<forall>q. reg_get q h' = (if q = xt1 then reg_get xt0 (hw s) else reg_get q (hw s))) \<and>
    r 0 = 2 \<and> r 1 = insn \<and> r 2 = a \<and> r 3 = t_regs s 3 + 1 \<and> r 4 = a + 4 \<and> r 5 = reg_get xt0 (hw s)"
proof -
  let ?h1 = "trap_to_s 2 a insn (hw s)"
  have "bit (4 :: u64) 2" by (simp add: bit_iff_odd)
  then have "route 2 a insn (hw s) = ?h1" using s(1,4) by (simp add: route_def deleg_hart_def)
  with b have step1: "mode_step code s = Some (s\<lparr>hw := ?h1\<rparr>)"
    using deleg_placed_step [OF code(1) s(1-3)] code(3) s(5) by simp
  have g1: "deleg_hart 4 vec regs ?h1" using gate_hart_config [of "hw s" ?h1] s(1) by simp
  have "pc ?h1 = vec" using s(1) aligned_vector [OF placed_addr [OF code(1,2)]] by (simp add: trap_to_s_def deleg_hart_def)
  let ?r = "skip_record ?h1 (t_regs s)"
  let ?h2 = "do_sret (reg_set xt1 (reg_get xt0 ?h1) (csr_write Sepc (csrf ?h1 Sepc + 4) ?h1))"
  have "mode_step code (s\<lparr>hw := ?h1\<rparr>) = Some (s\<lparr>t_regs := ?r, hw := ?h2\<rparr>)"
    using deleg_placed_step [OF code(1), of 4 vec regs "s\<lparr>hw := ?h1\<rparr>" "skip_entry regs"] code(2) g1 s(2,3) \<open>pc ?h1 = vec\<close>
      skip_entry_run [of "s\<lparr>hw := ?h1\<rparr>" regs]
    by (simp add: final_def deleg_hart_def)
  with step1 have "runs code s (s\<lparr>t_regs := ?r, hw := ?h2\<rparr>)" by (blast intro: runs.intros)
  moreover have "?r 0 = 2" "?r 1 = insn" "?r 2 = a" "?r 3 = t_regs s 3 + 1" "?r 4 = a + 4" "?r 5 = reg_get xt0 (hw s)"
    by (simp_all add: skip_record_def) (simp_all add: trap_to_s_def)
  moreover have "priv ?h2 = priv (hw s)" "pc ?h2 = a + 4"
    using s(1,4,6) by (cases "priv (hw s)";
      simp add: do_sret_def reg_set_def csr_store_def trap_to_s_def bit_put_bit deleg_hart_def takes_def)+
  moreover have "same_config (hw s) ?h2" "retired ?h2 = retired (hw s)" by (simp_all del: csr_write.simps)
  moreover have "\<forall>q. reg_get q ?h2 = (if q = xt1 then reg_get xt0 (hw s) else reg_get q (hw s))"
    by (simp del: csr_write.simps)
  ultimately show ?thesis by - (rule exI [of _ ?h2], rule exI [of _ ?r], simp)
qed


subsection \<open>A run of such a program\<close>

definition skips :: "u64 \<Rightarrow> u64 \<Rightarrow> u64 \<Rightarrow> u64 \<Rightarrow> hart \<Rightarrow> u64 \<Rightarrow> nat \<Rightarrow> u64 list \<Rightarrow> gate \<Rightarrow> bool" where
  "skips vec regs mvec ms h0 mc k vs s \<longleftrightarrow> deleg_hart 4 vec regs (hw s) \<and> \<not> parked s \<and> \<not> stuck s \<and> fails s = 0 \<and>
     legal (hw s) = legal h0 \<and> clock (hw s) = clock h0 \<and> instret (hw s) = instret h0 \<and> csrf (hw s) Mtvec = mvec \<and>
     csrf (hw s) Mscratch = ms \<and> csrf (hw s) Mcounteren = mc \<and> retired (hw s) = retired h0 + k \<and>
     cksum s = foldl fnv64 FNV_BASIS vs \<and> finisher s = None"

lemmas skips_run = final_def gate_exec checked_True skips_def Let_def here_def

lemma skips_config:
  assumes "skips vec regs mvec ms h0 mc k vs s" "same_config (hw s) h" "retired h = retired (hw s)"
  shows "skips vec regs mvec ms h0 mc k vs (s\<lparr>hw := h\<rparr>)"
  using assms gate_hart_config [OF assms(2)] same_config_simps [OF assms(2)] by (simp add: skips_def)

lemma skips_step:
  assumes "well_placed code" "skips vec regs mvec ms h0 mc k vs s" "here p a s" "(a, b) \<in> set code"
  shows "mode_step code s = Some (final b s)"
  by (rule deleg_placed_step [OF assms(1), of 4 vec regs]) (use assms(2-4) in \<open>simp_all add: skips_def here_def\<close>)

text \<open>A refused access, and a counter read that retires.\<close>

lemma skips_refused:
  assumes code: "well_placed code" "(vec, skip_entry regs) \<in> set code" "(a, b) \<in> set code"
    and s: "skips vec regs mvec ms h0 mc k vs s" "here pv a s" "code_addr (a + 4)" "pv \<noteq> MMode"
    and b: "final b s = s\<lparr>hw := route 2 a insn (hw s)\<rparr>"
  shows "\<exists>h' r. let s' = s\<lparr>t_regs := r, hw := h'\<rparr> in runs code s s' \<and> skips vec regs mvec ms h0 mc k vs s' \<and> here pv (a + 4) s' \<and>
    (\<forall>q. reg_get q h' = (if q = xt1 then reg_get xt0 (hw s) else reg_get q (hw s))) \<and>
    r 0 = 2 \<and> r 1 = insn \<and> r 2 = a \<and> r 3 = t_regs s 3 + 1 \<and> r 4 = a + 4"
proof -
  from skip_trip [OF code _ _ _ _ _ s(3) b] s(1,2,4) obtain h' r where t: "runs code s (s\<lparr>t_regs := r, hw := h'\<rparr>)"
    "priv h' = pv" "pc h' = a + 4" "same_config (hw s) h'" "retired h' = retired (hw s)"
    "\<forall>q. reg_get q h' = (if q = xt1 then reg_get xt0 (hw s) else reg_get q (hw s))"
    "r 0 = 2" "r 1 = insn" "r 2 = a" "r 3 = t_regs s 3 + 1" "r 4 = a + 4"
    by (auto simp: skips_def here_def)
  have "skips vec regs mvec ms h0 mc k vs (s\<lparr>t_regs := r\<rparr>)" using s(1) by (simp add: skips_def)
  from skips_config [OF this, of h'] t show ?thesis
    by - (rule exI [of _ h'], rule exI [of _ r], simp add: here_def Let_def)
qed

lemma shut_counter:
  "skips vec regs mvec ms h0 mc k vs s \<Longrightarrow> here SMode a s \<Longrightarrow> \<not> bit mc (gate_bit c) \<Longrightarrow>
   final (rd_counter c q a insn) s = s\<lparr>hw := route 2 a insn (hw s)\<rparr>"
  by (simp add: final_def rd_counter_def counter_open_def skips_def here_def)

lemma skips_read:
  assumes code: "well_placed code" "(a, rd_counter c q a insn) \<in> set code"
    and s: "skips vec regs mvec ms h0 mc k vs s" "here SMode a s" "bit mc (gate_bit c)"
  shows "\<exists>h'. let s' = s\<lparr>hw := h'\<rparr> in runs code s s' \<and> skips vec regs mvec ms h0 mc (Suc k) vs s' \<and> here SMode (a + 4) s' \<and>
    (\<forall>p. reg_get p h' = (if p = q \<and> q \<noteq> 0 then reading c h0 (retired h0 + k) else reg_get p (hw s)))"
proof -
  let ?h = "(retire (reg_set q (counter_value c (hw s)) (hw s)))\<lparr>pc := a + 4\<rparr>"
  have "final (rd_counter c q a insn) s = s\<lparr>hw := ?h\<rparr>"
    using s by (simp add: final_def rd_counter_def counter_open_def skips_def here_def)
  then have "runs code s (s\<lparr>hw := ?h\<rparr>)" using runs_one [OF skips_step [OF code(1) s(1,2) code(2)]] by simp
  moreover have "counter_value c (hw s) = reading c h0 (retired h0 + k)"
    using s(1) by (cases c) (simp_all add: counter_value_reading skips_def reading_def)
  moreover have conf: "same_config (hw s) ?h" by simp
  ultimately show ?thesis
    using s(1,2) gate_hart_config [OF conf, of 4 vec regs] same_config_simps(1-4) [OF conf]
    by (intro exI [of _ ?h]) (simp add: skips_def here_def Let_def)
qed

text \<open>What such a program asks of its hart.\<close>

definition skip_hart :: "u64 \<Rightarrow> u64 \<Rightarrow> u64 \<Rightarrow> hart \<Rightarrow> bool" where
  "skip_hart vec regs mvec h \<longleftrightarrow> keeps_bits h Mstatus STEER \<and> (\<forall>a. code_addr a \<longrightarrow> takes h Sepc a \<and> takes h Mepc a) \<and>
     takes h Mtvec mvec \<and> takes h Stvec vec \<and> takes h Sscratch regs \<and> takes h Medeleg 4 \<and>
     takes h Pmpcfg0 0x1f \<and> (\<forall>old. legal h Pmpaddr0 old (- 1) \<in> {- 1, mask 54}) \<and> csrf h Pmpcfg0 = 0"

lemma run_close_gate:
  assumes "takes (hw s) Mcounteren 7" "takes (hw s) Mcounteren v"
  shows "\<exists>ps. run_state (close_gate l v msg) s = ((), (emit ps (s\<lparr>hw := csr_store Mcounteren v (csr_store Mcounteren 7 (hw s))\<rparr>))
    \<lparr>cksum := fnv64 (fnv64 (cksum s) 7) v\<rparr>)"
  using assms
  by (cases s) (auto simp: close_gate_def gate_exec run_m_gate_readback [THEN exec_step] checked_True takes_def emit_def
      text_of_append [symmetric])


lemma skips_ecall:
  assumes code: "well_placed code" "(site, ecall site) \<in> set code" "(mvec, m) \<in> set code"
    and s: "skips vec regs mvec ms h0 mc k vs s" "here pv site s" and n: "(pv, n) \<in> {(UMode, 8), (SMode, 9)}"
  shows "runs code s (final m (s\<lparr>hw := trap_to_m (of_nat n) site 0 (hw s)\<rparr>))"
    "skips vec regs mvec ms h0 mc k vs (s\<lparr>hw := trap_to_m (of_nat n) site 0 (hw s)\<rparr>)"
proof -
  let ?s1 = "s\<lparr>hw := trap_to_m (of_nat n) site 0 (hw s)\<rparr>"
  have "\<not> bit (4 :: u64) 9" "\<not> bit (4 :: u64) 8" by (simp_all add: bit_iff_odd)
  then have "mode_step code s = Some ?s1"
    using skips_step [OF code(1) s code(2)] s n by (auto simp: final_def ecall_def route_def skips_def deleg_hart_def here_def)
  moreover show s1: "skips vec regs mvec ms h0 mc k vs ?s1" by (rule skips_config [OF s(1)]) simp_all
  have "here MMode mvec ?s1"
    using s(1) aligned_vector [OF placed_addr [OF code(1,3)]] by (simp add: trap_to_m_def skips_def here_def)
  from skips_step [OF code(1) s1 this code(3)] have "mode_step code ?s1 = Some (final m ?s1)" .
  ultimately show "runs code s (final m ?s1)" by (blast intro: runs.intros)
qed

lemmas skips_handoff = skips_ecall [where pv = SMode and n = 9, simplified]

text \<open>The whole first phase: the refused read, its record and its five checks.\<close>

lemma fault_phase:
  assumes code: "well_placed code" "(f, fault_start ps q a) \<in> set code" "(a, b) \<in> set code" "(vec, skip_entry regs) \<in> set code"
      "(a + 4, fault_done title rdname ph cm n sj q a \<bind> (\<lambda>_. rest)) \<in> set code"
    and s: "skips vec regs mvec ms h0 mc k vs s" "here pv f s" "t_regs s 3 + 1 = n" "q \<notin> {0, xt1}" "pv \<noteq> MMode"
    and b: "\<And>s. skips vec regs mvec ms h0 mc k vs s \<Longrightarrow> here pv a s \<Longrightarrow> final b s = s\<lparr>hw := route 2 a insn (hw s)\<rparr>"
  shows "\<exists>s'. runs code s (final rest s') \<and> skips vec regs mvec ms h0 mc k (vs @ [n, 2, 1, 1, 1]) s' \<and> here pv (a + 4) s' \<and>
    t_regs s' 3 = n \<and> t_regs s' 2 = a \<and> t_regs s' 1 = insn \<and> m_regs s' = m_regs s \<and> boot_deleg s' = boot_deleg s"
proof -
  let ?h1 = "(reg_set q U_SENTINEL (hw s))\<lparr>pc := a\<rparr>" and ?s1 = "(emit ps s)\<lparr>hw := (reg_set q U_SENTINEL (hw s))\<lparr>pc := a\<rparr>\<rparr>"
  have f: "final (fault_start ps q a) s = ?s1" by (simp add: fault_start_def final_def gate_exec)
  have "skips vec regs mvec ms h0 mc k vs (emit ps s)" using s(1) by (simp add: skips_def)
  from skips_config [OF this, of ?h1] have s1: "skips vec regs mvec ms h0 mc k vs ?s1" "here pv a ?s1"
    using s(2) by (simp_all add: here_def)
  from skips_refused [OF code(1,4,3) s1 placed_addr [OF code(1,5)] s(5) b [OF s1], unfolded Let_def] obtain h' r where
    s2: "runs code ?s1 (?s1\<lparr>t_regs := r, hw := h'\<rparr>)" "skips vec regs mvec ms h0 mc k vs (?s1\<lparr>t_regs := r, hw := h'\<rparr>)"
    "here pv (a + 4) (?s1\<lparr>t_regs := r, hw := h'\<rparr>)"
    "\<forall>p. reg_get p h' = (if p = xt1 then reg_get xt0 ?h1 else reg_get p ?h1)" "r 0 = 2" "r 1 = insn" "r 2 = a" "r 3 = n" "r 4 = a + 4"
    using s(3) by auto
  let ?s2 = "?s1\<lparr>t_regs := r, hw := h'\<rparr>" and ?d = "fault_done title rdname ph cm n sj q a"
  have v: "reg_get q h' = U_SENTINEL" using s2(4) s(4) by simp
  obtain ps' where run: "run_state ?d ?s2 =
      ((), (emit ps' ?s2)\<lparr>cksum := fnv64 (fnv64 (fnv64 (fnv64 (fnv64 (cksum s) n) 2) 1) 1) 1\<rparr>)"
    using s2(5-9) v
    by (simp add: fault_done_def skip_report_def exec_assoc gate_exec run_fault_checks cong: probe_cong)
  let ?s3 = "(emit ps' ?s2)\<lparr>cksum := fnv64 (fnv64 (fnv64 (fnv64 (fnv64 (cksum s) n) 2) 1) 1) 1\<rparr>"
  have d: "final (?d \<bind> (\<lambda>_. rest)) ?s2 = final rest ?s3" by (simp only: final_def exec_step [OF run])
  note step1 = runs_one [OF skips_step [OF code(1) s(1,2) code(2)], unfolded f]
    and step3 = runs_one [OF skips_step [OF code(1) s2(2,3) code(5)], unfolded d]
  have "runs code s (final rest ?s3)" by (rule runs_trans [OF step1 runs_trans [OF s2(1) step3]])
  then show ?thesis using s2(2,3,6-8) by (intro exI [of _ ?s3]) (simp add: skips_def here_def)
qed

text \<open>Two samples.\<close>

lemma pair_phase:
  assumes code: "well_placed code" "(a, rd_counter c q0 a i0) \<in> set code" "(a + 4, p) \<in> set code" "(b, rd_counter c q1 b i1) \<in> set code"
    and s: "skips vec regs mvec ms h0 mc k vs s" "here SMode a s" "bit mc (gate_bit c)" "q0 \<noteq> q1" "q0 \<noteq> 0" "q1 \<noteq> 0"
    and p: "\<And>s h. \<exists>h'. final p (s\<lparr>hw := h\<rparr>) = s\<lparr>hw := h'\<rparr> \<and> same_config h h' \<and> priv h' = priv h \<and> pc h' = b \<and>
      retired h' = retired h + n \<and> reg_get q0 h' = reg_get q0 h"
  shows "\<exists>h'. let s' = s\<lparr>hw := h'\<rparr> in runs code s s' \<and> skips vec regs mvec ms h0 mc (k + n + 2) vs s' \<and> here SMode (b + 4) s' \<and>
    reg_get q0 h' = reading c h0 (retired h0 + k) \<and> reg_get q1 h' = reading c h0 (retired h0 + k + n + 1)"
proof -
  from skips_read [OF code(1,2) s(1-3), unfolded Let_def] s(5) obtain h1 where h1: "runs code s (s\<lparr>hw := h1\<rparr>)"
    "skips vec regs mvec ms h0 mc (Suc k) vs (s\<lparr>hw := h1\<rparr>)" "here SMode (a + 4) (s\<lparr>hw := h1\<rparr>)"
    "reg_get q0 h1 = reading c h0 (retired h0 + k)" by auto
  from p obtain h2 where h2: "final p (s\<lparr>hw := h1\<rparr>) = s\<lparr>hw := h2\<rparr>" "same_config h1 h2" "priv h2 = priv h1" "pc h2 = b"
    "retired h2 = retired h1 + n" "reg_get q0 h2 = reg_get q0 h1" by blast
  have s2: "skips vec regs mvec ms h0 mc (Suc k + n) vs (s\<lparr>hw := h2\<rparr>)" "here SMode b (s\<lparr>hw := h2\<rparr>)"
    using h1(2,3) h2 gate_hart_config [OF h2(2)] same_config_simps [OF h2(2)] by (simp_all add: skips_def here_def)
  from skips_read [OF code(1,4) s2 s(3), unfolded Let_def] s(4,6) obtain h3 where h3: "runs code (s\<lparr>hw := h2\<rparr>) (s\<lparr>hw := h3\<rparr>)"
    "skips vec regs mvec ms h0 mc (Suc (Suc k + n)) vs (s\<lparr>hw := h3\<rparr>)" "here SMode (b + 4) (s\<lparr>hw := h3\<rparr>)"
    "reg_get q0 h3 = reg_get q0 h2" "reg_get q1 h3 = reading c h0 (retired h0 + (Suc k + n))" by auto
  have "runs code s (s\<lparr>hw := h3\<rparr>)"
    using runs_trans [OF h1(1)] runs_one [OF skips_step [OF code(1) h1(2,3) code(3)], unfolded h2(1)] h3(1) by (blast intro: runs_trans)
  moreover have "Suc (Suc k + n) = k + n + 2" "retired h0 + (Suc k + n) = retired h0 + k + n + 1" by simp_all
  ultimately show ?thesis using h3 h1(4) h2(6) by (intro exI [of _ h3]) (simp add: Let_def add.assoc)
qed

lemma pause_step:
  "\<exists>h'. final (pause n b) (s\<lparr>hw := h\<rparr>) = s\<lparr>hw := h'\<rparr> \<and> same_config h h' \<and> priv h' = priv h \<and> pc h' = b \<and>
     retired h' = retired h + n \<and> reg_get q h' = reg_get q h"
  by (intro exI [of _ "((retire ^^ n) h)\<lparr>pc := b\<rparr>"]) (simp add: pause_def nops_def final_def gate_exec)

text \<open>A run that ends with the pass word, and with a given checksum.\<close>

definition passes_with :: "(u64 \<times> gprog) list \<Rightarrow> u64 \<Rightarrow> gate \<Rightarrow> bool" where
  "passes_with code ck s \<longleftrightarrow> (\<exists>t. runs code s t \<and> mode_step code t = None \<and> finisher t = Some FINISHER_PASS \<and> fails t = 0 \<and> cksum t = ck)"

lemma passes_withI:
  assumes "runs code s t" "parked t \<and> fails t = 0 \<and> finisher t = Some FINISHER_PASS \<and> cksum t = ck"
  shows "passes_with code ck s"
  using assms parked_stops by (auto simp: passes_with_def)

end
