(* ===== verification/Sgate.thy ===== *)
theory Sgate
  imports Skip
begin

text \<open>
  Four experiments on the S-mode counter gate, all around the skipping trap entry of theory Skip:
  \<open>src/src/mcounteren-cy-gate\<close> (\<open>mcg\<close>), \<open>mcounteren-time-gate\<close> (\<open>mtg\<close>), \<open>mcounteren-ir-gate\<close> (\<open>mir\<close>) and \<open>scounteren-trap\<close> (\<open>st\<close>).
  Each reads a gated counter in S-mode, checks the trap record, has the gate opened (or reads an open counter) and takes two
  samples.
\<close>

unbundle bit_operations_syntax

text \<open>
  The symbols of such a program: its functions, entries and records, the sites of the counter reads and of the \<open>ecall\<close>, and the
  registers the compiler chose for the results.
\<close>

record sg_syms =
  g_main :: u64
  g_strap :: u64
  g_mtrap :: u64
  g_regs :: u64
  g_mregs :: u64
  g_test :: u64
  g_next :: u64
  site_a :: u64
  site_c :: u64
  site_e :: u64
  site_1 :: u64
  site_2 :: u64
  q_v :: nat
  q_c :: nat
  q_0 :: nat
  q_1 :: nat


text \<open>\<open>main\<close>: the write probe, the closed gate, vectors and scratch registers, delegation, PMP, drop.\<close>

fun write_csrs :: "(csr \<times> u64) list \<Rightarrow> gprog" where
  "write_csrs [] = State_Monad.return ()"
| "write_csrs ((c, v) # ws) = do { csrw c v; write_csrs ws }"

definition sg_main :: "piece list \<Rightarrow> string \<Rightarrow> u64 \<Rightarrow> string \<Rightarrow> (csr \<times> u64) list \<Rightarrow> string \<Rightarrow> u64 \<Rightarrow> gprog" where
  "sg_main banner label gv msg ws ready driver = do {
     puts banner;
     close_gate label gv msg;
     write_csrs ws;
     delegate_illegal;
     open_pmp;
     puts [Str ready];
     drop_to_smode driver }"


subsection \<open>mcounteren-cy-gate\<close>

definition mcg_smode_test :: "sg_syms \<Rightarrow> gprog" where
  "mcg_smode_test y = fault_start [Str ''in S-mode; mcounteren cycle-gate experiment begins\<newline>\<newline>''] (q_v y) (site_a y)"

definition mcg_fault_done :: "sg_syms \<Rightarrow> gprog" where
  "mcg_fault_done y = fault_done ''phase A: rdcycle with mcounteren=0x0 (expect S-mode trap):\<newline>'' ''rdcycle''
     ''phase A: '' ''phase A: trap count is not 1'' 1 ''it'' (q_v y) (site_a y) \<bind> (\<lambda>_. goto (site_e y))"

definition mcg_ecall_done :: "sg_syms \<Rightarrow> gprog" where
  "mcg_ecall_done y = do {
     r \<leftarrow> gets m_regs;
     puts [Str ''\<newline>phase B: ecall to M-mode to set mcounteren=0x1:\<newline>'', Str ''  ecall site (label 1) = '', Hex (site_e y),
       Str ''\<newline>  mcause  = '', Hex (r 0), Str ''\<newline>  mepc    = '', Hex (r 1), Str ''\<newline>  M-mode traps = '', Dec (r 2),
       Str ''\<newline>  mcounteren readback after set = '', Hex (r 3), Str ''\<newline>''];
     check_feed (r 2 = 1) ''phase B: M-mode trap count is not 1'' (r 2);
     check_feed (r 0 = 9) ''phase B: mcause is not 9 (ecall from S-mode)'' (r 0);
     check_feed (r 1 = site_e y) ''phase B: mepc is not at the ecall site'' (of_bool (r 1 = site_e y));
     check_feed (r 3 = 1) ''phase B: mcounteren readback is not 0x1 after set'' (r 3);
     goto (site_1 y) }"

definition mcg_samples :: "sg_syms \<Rightarrow> gprog" where
  "mcg_samples y = do {
     c0 \<leftarrow> get_reg (q_0 y);
     c1 \<leftarrow> get_reg (q_1 y);
     traps \<leftarrow> gets (\<lambda>s. t_regs s 3);
     puts [Str ''\<newline>phase C: rdcycle with mcounteren=0x1 (expect success):\<newline>'', Str ''  fault site (label 1) = '', Hex (site_1 y),
       Str ''\<newline>  sample 1 = '', Hex c0, Str ''\<newline>  sample 2 = '', Hex c1, Str ''  (delta = '', Dec (c1 - c0), Str '')\<newline>'',
       Str ''  S-mode traps after phase C = '', Dec traps, Str ''\<newline>''];
     check_feed (traps = 1) ''phase C: unexpected S-mode trap on rdcycle'' traps;
     check_feed (c0 > 0) ''phase C: first rdcycle sample is not strictly positive'' (of_bool (c0 > 0));
     check_feed (c1 > c0) ''phase C: rdcycle samples did not advance'' (of_bool (c1 > c0));
     gate_verdict }"

text \<open>The M-mode entry saves t1 and t2, parks on any cause but 9, opens the gate and resumes after the \<open>ecall\<close>.\<close>

definition mcg_mtrap_entry :: "sg_syms \<Rightarrow> gprog" where
  "mcg_mtrap_entry y = do {
     base \<leftarrow> csrr Mscratch;
     if base \<noteq> g_mregs y then modify (\<lambda>s. s\<lparr>stuck := True\<rparr>)
     else do {
       t1 \<leftarrow> get_reg xt1; t2 \<leftarrow> get_reg xt2;
       modify (\<lambda>s. s\<lparr>m_regs := (m_regs s)(4 := t1, 5 := t2)\<rparr>);
       cause \<leftarrow> csrr Mcause;
       if cause \<noteq> 9 then park
       else do {
         epc \<leftarrow> csrr Mepc;
         modify (\<lambda>s. s\<lparr>m_regs := (m_regs s)(0 := cause, 1 := epc, 2 := m_regs s 2 + 1)\<rparr>);
         csrw Mcounteren 1;
         rb \<leftarrow> csrr Mcounteren;
         modify (\<lambda>s. s\<lparr>m_regs := (m_regs s)(3 := rb)\<rparr>);
         csrw Mepc (epc + 4);
         mret } } }"

definition mcg_main :: "sg_syms \<Rightarrow> gprog" where
  "mcg_main y = sg_main
     [Str ''\<newline>========================================\<newline>'', Str ''mcounteren: S-mode rdcycle gating trap\<newline>'',
       Str ''mcounteren=0x0: rdcycle must trap; 0x1: it must read\<newline>'', Str ''========================================\<newline>\<newline>'']
     ''write: csrw mcounteren, 0x0; readback='' 0 ''mcounteren write of 0x0 did not read back as 0x0''
     [(Mtvec, g_mtrap y), (Stvec, g_strap y), (Mscratch, g_mregs y), (Sscratch, g_regs y)]
     ''setup complete; dropping to S-mode...\<newline>'' (g_test y)"

definition mcg_code :: "sg_syms \<Rightarrow> (u64 \<times> gprog) list" where
  "mcg_code y =
    [(g_main y, mcg_main y),
     (g_strap y, skip_entry (g_regs y)),
     (g_mtrap y, mcg_mtrap_entry y),
     (g_test y, mcg_smode_test y),
     (site_a y, rd_counter CY (q_v y) (site_a y) (csrr_insn 0xC00 (q_v y))),
     (site_a y + 4, mcg_fault_done y),
     (site_e y, ecall (site_e y)),
     (site_e y + 4, mcg_ecall_done y),
     (site_1 y, rd_counter CY (q_0 y) (site_1 y) (csrr_insn 0xC00 (q_0 y))),
     (site_1 y + 4, pause 0 (site_2 y)),
     (site_2 y, rd_counter CY (q_1 y) (site_2 y) (csrr_insn 0xC00 (q_1 y))),
     (site_2 y + 4, mcg_samples y)]"


subsection \<open>mcounteren-time-gate\<close>

definition mtg_smode_test :: "sg_syms \<Rightarrow> gprog" where
  "mtg_smode_test y = fault_start [Str ''in S-mode; mcounteren time-gate experiment begins\<newline>\<newline>''] (q_v y) (site_a y)"

definition mtg_fault_done :: "sg_syms \<Rightarrow> gprog" where
  "mtg_fault_done y = fault_done ''phase A: rdtime with mcounteren=0x1 (expect S-mode trap):\<newline>'' ''rdtime''
     ''phase A: '' ''phase A: trap count is not 1'' 1 ''it'' (q_v y) (site_a y) \<bind> (\<lambda>_. goto (site_1 y))"

definition mtg_samples :: "sg_syms \<Rightarrow> gprog" where
  "mtg_samples y = do {
     c0 \<leftarrow> get_reg (q_0 y);
     c1 \<leftarrow> get_reg (q_1 y);
     traps \<leftarrow> gets (\<lambda>s. t_regs s 3);
     puts [Str ''\<newline>phase B: rdcycle with mcounteren=0x1 (expect success):\<newline>'', Str ''  fault site (label 1) = '', Hex (site_1 y),
       Str ''\<newline>  sample 1 = '', Hex c0, Str ''\<newline>  sample 2 = '', Hex c1, Str ''  (delta = '', Dec (c1 - c0), Str '')\<newline>'',
       Str ''  S-mode traps after phase B = '', Dec traps, Str ''\<newline>''];
     check_feed (traps = 1) ''phase B: unexpected S-mode trap on rdcycle'' traps;
     check_feed (c0 > 0) ''phase B: first rdcycle sample is not strictly positive'' (of_bool (c0 > 0));
     check_feed (c1 > c0) ''phase B: rdcycle samples did not advance'' (of_bool (c1 > c0));
     gate_verdict }"

definition mtg_main :: "sg_syms \<Rightarrow> gprog" where
  "mtg_main y = sg_main
     [Str ''\<newline>========================================\<newline>'', Str ''mcounteren: S-mode rdtime gating trap\<newline>'',
       Str ''mcounteren=0x1: rdtime must trap, rdcycle must read\<newline>'', Str ''========================================\<newline>\<newline>'']
     ''write: csrw mcounteren, 0x1; readback='' 1 ''mcounteren write of 0x1 did not read back as 0x1''
     [(Mtvec, g_mtrap y), (Stvec, g_strap y), (Sscratch, g_regs y)]
     ''setup complete; dropping to S-mode...\<newline>'' (g_test y)"

definition mtg_code :: "sg_syms \<Rightarrow> (u64 \<times> gprog) list" where
  "mtg_code y =
    [(g_main y, mtg_main y),
     (g_strap y, skip_entry (g_regs y)),
     (g_mtrap y, park),
     (g_test y, mtg_smode_test y),
     (site_a y, rd_counter TM (q_v y) (site_a y) (csrr_insn 0xC01 (q_v y))),
     (site_a y + 4, mtg_fault_done y),
     (site_1 y, rd_counter CY (q_0 y) (site_1 y) (csrr_insn 0xC00 (q_0 y))),
     (site_1 y + 4, pause 0 (site_2 y)),
     (site_2 y, rd_counter CY (q_1 y) (site_2 y) (csrr_insn 0xC00 (q_1 y))),
     (site_2 y + 4, mtg_samples y)]"


subsection \<open>mcounteren-ir-gate\<close>

definition mir_smode_phase_a :: "sg_syms \<Rightarrow> gprog" where
  "mir_smode_phase_a y = fault_start [Str ''in S-mode; phase A: IR gate closed (mcounteren=0x3)\<newline>\<newline>''] (q_v y) (site_a y)"

definition mir_fault_done :: "sg_syms \<Rightarrow> gprog" where
  "mir_fault_done y = fault_done ''gated: rdinstret with mcounteren=0x3 (expect S-mode trap):\<newline>'' ''rdinstret''
     ''phase A: '' ''phase A: S-mode trap count is not 1'' 1 ''it'' (q_v y) (site_a y) \<bind> (\<lambda>_. goto (site_c y))"

definition mir_ungated :: "sg_syms \<Rightarrow> gprog" where
  "mir_ungated y = do {
     c0 \<leftarrow> get_reg (q_c y);
     traps \<leftarrow> gets (\<lambda>s. t_regs s 3);
     puts [Str ''\<newline>ungated: one rdcycle with mcounteren=0x3 (expect success):\<newline>'', Str ''  fault site (label 1) = '', Hex (site_c y),
       Str ''\<newline>  resume site (label 2) = '', Hex (site_c y + 4), Str ''\<newline>  sample = '', Hex c0,
       Str ''\<newline>  S-mode traps after rdcycle = '', Dec traps, Str ''\<newline>''];
     check_feed (traps = 1) ''phase A: unexpected S-mode trap on rdcycle'' traps;
     check_feed (c0 > 0) ''phase A: rdcycle sample is not strictly positive'' (of_bool (c0 > 0));
     puts [Str ''\<newline>phase A done; ecall to M-mode to reopen the IR gate\<newline>''];
     goto (site_e y) }"

definition mir_smode_phase_b :: "sg_syms \<Rightarrow> gprog" where
  "mir_smode_phase_b y = do {
     puts [Str ''\<newline>in S-mode; phase B: IR gate reopened (mcounteren=0x7)\<newline>\<newline>''];
     r \<leftarrow> gets m_regs;
     puts [Str ''M-mode ecall record:\<newline>'', Str ''  mcause = '', Hex (r 0), Str ''\<newline>  mepc = '', Hex (r 1),
       Str ''\<newline>  ecall site (phase A) = '', Hex (site_e y), Str ''\<newline>  M-mode traps = '', Dec (r 2),
       Str ''\<newline>  mcounteren readback after reopen = '', Hex (r 3), Str ''\<newline>''];
     check_feed (r 0 = 9) ''phase B: mcause is not 9 (ecall from S-mode)'' (of_bool (r 0 = 9));
     check_feed (r 1 = site_e y) ''phase B: mepc is not at the ecall site'' (of_bool (r 1 = site_e y));
     check_feed (r 2 = 1) ''phase B: M-mode trap count is not 1'' (r 2);
     check_feed (r 3 = 7) ''phase B: mcounteren reopen readback is not 0x7'' (r 3);
     goto (site_1 y) }"

text \<open>The delay: \<open>li t0, 200000\<close> is two instructions, the loop two per iteration.\<close>

definition mir_delay :: "sg_syms \<Rightarrow> gprog" where
  "mir_delay y = do { nops 400002; put_reg xt0 0; goto (site_2 y) }"

definition mir_samples :: "sg_syms \<Rightarrow> gprog" where
  "mir_samples y = do {
     i0 \<leftarrow> get_reg (q_0 y);
     i1 \<leftarrow> get_reg (q_1 y);
     traps \<leftarrow> gets (\<lambda>s. t_regs s 3);
     puts [Str ''\<newline>enabled: two rdinstret with mcounteren=0x7 (expect success):\<newline>'', Str ''  fault site (label 1) = '', Hex (site_1 y),
       Str ''\<newline>  resume site (label 2) = '', Hex (site_1 y + 4),
       Str ''\<newline>  sample 1 = '', Hex i0, Str ''\<newline>  sample 2 = '', Hex i1, Str ''  (delta = '', Dec (i1 - i0), Str '')\<newline>'',
       Str ''  S-mode traps after phase B = '', Dec traps, Str ''\<newline>''];
     check_feed (traps = 1) ''phase B: unexpected S-mode trap on rdinstret'' traps;
     check_feed (i0 > 0) ''phase B: first rdinstret sample is not strictly positive'' (of_bool (i0 > 0));
     check_feed (i1 > i0) ''phase B: rdinstret samples did not advance'' (of_bool (i1 > i0));
     gate_verdict }"

text \<open>The M-mode entry records before it looks at the cause, reopens the gate and returns into phase B.\<close>

definition mir_mtrap_entry :: "sg_syms \<Rightarrow> gprog" where
  "mir_mtrap_entry y = do {
     base \<leftarrow> csrr Mscratch;
     if base \<noteq> g_mregs y then modify (\<lambda>s. s\<lparr>stuck := True\<rparr>)
     else do {
       cause \<leftarrow> csrr Mcause; epc \<leftarrow> csrr Mepc;
       modify (\<lambda>s. s\<lparr>m_regs := (m_regs s)(0 := cause, 1 := epc, 2 := m_regs s 2 + 1)\<rparr>);
       if cause \<noteq> 9 then park
       else do {
         csrw Mcounteren 7;
         rb \<leftarrow> csrr Mcounteren;
         t0 \<leftarrow> get_reg xt0;
         modify (\<lambda>s. s\<lparr>m_regs := (m_regs s)(3 := rb, 4 := t0)\<rparr>);
         drop_to_smode (g_next y) } } }"

definition mir_main :: "sg_syms \<Rightarrow> gprog" where
  "mir_main y = sg_main
     [Str ''\<newline>========================================\<newline>'', Str ''mcounteren: S-mode rdinstret gating trap\<newline>'',
       Str ''mcounteren=0x3: rdinstret must trap (IR clear);\<newline>'', Str ''reopened to 0x7: rdinstret must read and advance\<newline>'',
       Str ''========================================\<newline>\<newline>'']
     ''write: csrw mcounteren, 0x3; readback='' 3 ''mcounteren write of 0x3 did not read back as 0x3''
     [(Mtvec, g_mtrap y), (Stvec, g_strap y), (Sscratch, g_regs y), (Mscratch, g_mregs y)]
     ''setup complete; dropping to S-mode (phase A)...\<newline>'' (g_test y)"

definition mir_code :: "sg_syms \<Rightarrow> (u64 \<times> gprog) list" where
  "mir_code y =
    [(g_main y, mir_main y),
     (g_strap y, skip_entry (g_regs y)),
     (g_mtrap y, mir_mtrap_entry y),
     (g_test y, mir_smode_phase_a y),
     (site_a y, rd_counter IR (q_v y) (site_a y) (csrr_insn 0xC02 (q_v y))),
     (site_a y + 4, mir_fault_done y),
     (site_c y, rd_counter CY (q_c y) (site_c y) (csrr_insn 0xC00 (q_c y))),
     (site_c y + 4, mir_ungated y),
     (site_e y, ecall (site_e y)),
     (g_next y, mir_smode_phase_b y),
     (site_1 y, rd_counter IR (q_0 y) (site_1 y) (csrr_insn 0xC02 (q_0 y))),
     (site_1 y + 4, mir_delay y),
     (site_2 y, rd_counter IR (q_1 y) (site_2 y) (csrr_insn 0xC02 (q_1 y))),
     (site_2 y + 4, mir_samples y)]"


subsection \<open>scounteren-trap\<close>

text \<open>\<open>mt_traps\<close> and \<open>mt_mc_after\<close> are words 2 and 3 of \<open>m_regs\<close>.\<close>

definition st_smode_test :: "sg_syms \<Rightarrow> gprog" where
  "st_smode_test y = fault_start [Str ''in S-mode; scounteren-trap experiment begins\<newline>\<newline>''] (q_v y) (site_a y)"

definition st_fault_done :: "sg_syms \<Rightarrow> gprog" where
  "st_fault_done y = fault_done ''phase A: rdcycle with mcounteren=0 (expect S-mode trap):\<newline>'' ''rdcycle''
     ''phase A: '' ''phase A: trap count is not 1'' 1 ''it'' (q_v y) (site_a y) \<bind> (\<lambda>_. goto (site_e y))"

definition st_ecall_done :: "sg_syms \<Rightarrow> gprog" where
  "st_ecall_done y = do {
     mt_traps \<leftarrow> gets (\<lambda>s. m_regs s 2);
     mt_mc_after \<leftarrow> gets (\<lambda>s. m_regs s 3);
     puts [Str ''\<newline>phase B: ecall to M-mode helper, then rdcycle with CY set:\<newline>'', Str ''  M-mode ecall count (mt_traps) = '', Dec mt_traps,
       Str ''\<newline>  mcounteren after helper       = '', Hex mt_mc_after, Str ''\<newline>''];
     check_feed (mt_traps = 1) ''phase B: M-mode ecall helper did not run exactly once'' mt_traps;
     check_feed (mt_mc_after AND 1 \<noteq> 0) ''phase B: mcounteren CY bit not set by helper'' (of_bool (mt_mc_after AND 1 \<noteq> 0));
     goto (site_1 y) }"

definition st_samples :: "sg_syms \<Rightarrow> gprog" where
  "st_samples y = do {
     c0 \<leftarrow> get_reg (q_0 y);
     c1 \<leftarrow> get_reg (q_1 y);
     traps \<leftarrow> gets (\<lambda>s. t_regs s 3);
     puts [Str ''  fault site (label 1) = '', Hex (site_1 y),
       Str ''\<newline>  sample 1 = '', Hex c0, Str ''\<newline>  sample 2 = '', Hex c1, Str ''  (delta = '', Dec (c1 - c0), Str '')\<newline>'',
       Str ''  S-mode traps after phase B = '', Dec traps, Str ''\<newline>''];
     check_feed (traps = 1) ''phase B: unexpected S-mode trap on the second rdcycle'' traps;
     check_feed (c1 > c0) ''phase B: rdcycle samples did not advance'' (of_bool (c1 > c0));
     gate_verdict }"

text \<open>The helper stores the value it writes, not what \<open>mcounteren\<close> then reads, and leaves t0, t1 and t2 changed.\<close>

definition mt_trap_entry :: "sg_syms \<Rightarrow> gprog" where
  "mt_trap_entry y = do {
     cause \<leftarrow> csrr Mcause;
     if cause \<noteq> 9 then park
     else do {
       mc \<leftarrow> csrr Mcounteren;
       csrw Mcounteren (mc OR 1);
       modify (\<lambda>s. s\<lparr>m_regs := (m_regs s)(3 := mc OR 1, 2 := m_regs s 2 + 1)\<rparr>);
       n \<leftarrow> gets (\<lambda>s. m_regs s 2);
       put_reg xt2 (g_mregs y);
       put_reg xt1 n;
       epc \<leftarrow> csrr Mepc;
       put_reg xt0 (epc + 4);
       csrw Mepc (epc + 4);
       mret } }"

definition st_main :: "sg_syms \<Rightarrow> gprog" where
  "st_main y = sg_main
     [Str ''\<newline>========================================\<newline>'', Str ''scounteren: S-mode rdcycle gating trap\<newline>'',
       Str ''mcounteren=0 must trap, CY set must read\<newline>'', Str ''========================================\<newline>\<newline>'']
     ''write: csrw mcounteren, 0; readback='' 0 ''mcounteren write of 0 did not read back as 0''
     [(Mtvec, g_mtrap y), (Stvec, g_strap y), (Sscratch, g_regs y)]
     ''setup complete; dropping to S-mode...\<newline>'' (g_test y)"

definition st_code :: "sg_syms \<Rightarrow> (u64 \<times> gprog) list" where
  "st_code y =
    [(g_main y, st_main y),
     (g_strap y, skip_entry (g_regs y)),
     (g_mtrap y, mt_trap_entry y),
     (g_test y, st_smode_test y),
     (site_a y, rd_counter CY (q_v y) (site_a y) (csrr_insn 0xC00 (q_v y))),
     (site_a y + 4, st_fault_done y),
     (site_e y, ecall (site_e y)),
     (site_e y + 4, st_ecall_done y),
     (site_1 y, rd_counter CY (q_0 y) (site_1 y) (csrr_insn 0xC00 (q_0 y))),
     (site_1 y + 4, pause 0 (site_2 y)),
     (site_2 y, rd_counter CY (q_1 y) (site_2 y) (csrr_insn 0xC00 (q_1 y))),
     (site_2 y + 4, st_samples y)]"


subsection \<open>Runs\<close>

definition sg_hart :: "sg_syms \<Rightarrow> u64 \<Rightarrow> hart \<Rightarrow> bool" where
  "sg_hart y gv h \<longleftrightarrow> skip_hart (g_strap y) (g_regs y) (g_mtrap y) h \<and> takes h Mscratch (g_mregs y) \<and>
     takes h Mcounteren 7 \<and> takes h Mcounteren gv"

text \<open>The compiler keeps no result in t1 across the refused read, and the two samples apart.\<close>

definition sg_regs_ok :: "sg_syms \<Rightarrow> bool" where
  "sg_regs_ok y \<longleftrightarrow> q_v y \<notin> {0, xt1} \<and> q_c y \<noteq> 0 \<and> q_0 y \<notin> {0, xt0} \<and> q_1 y \<noteq> 0 \<and> q_0 y \<noteq> q_1 y"

definition sg_boot :: "sg_syms \<Rightarrow> gate \<Rightarrow> bool" where
  "sg_boot y s \<longleftrightarrow> booted (g_main y) s \<and> t_regs s 3 = 0 \<and> m_regs s 2 = 0 \<and> sg_regs_ok y"

abbreviation (input) sg_stage :: "sg_syms \<Rightarrow> u64 \<Rightarrow> hart \<Rightarrow> u64 \<Rightarrow> nat \<Rightarrow> u64 list \<Rightarrow> gate \<Rightarrow> bool" where
  "sg_stage y ms h0 mc k vs s \<equiv> skips (g_strap y) (g_regs y) (g_mtrap y) ms h0 mc k vs s"

text \<open>The hart at the drop, whichever order the registers were written in.\<close>

lemma skip_drop:
  assumes h: "csrf h Stvec = vec" "csrf h Sscratch = regs" "csrf h Medeleg = 4" "pmp_everything h" "legal h = legal h0"
    and h0: "skip_hart vec regs mvec h0" and a: "code_addr a"
  shows "deleg_hart 4 vec regs (s_drop a h)" "priv (s_drop a h) = SMode" "pc (s_drop a h) = a"
    "c \<notin> {Mstatus, Mepc, Mcause, Mtval, Sepc, Scause, Stval} \<Longrightarrow> csrf (s_drop a h) c = csrf h c"
    "legal (s_drop a h) = legal h0" "clock (s_drop a h) = clock h" "instret (s_drop a h) = instret h"
proof -
  have g: "deleg_hart 4 vec regs h" using h h0 by (simp add: deleg_hart_def skip_hart_def keeps_bits_def takes_def)
  have c: "same_config h (s_drop a h)" by simp
  show "deleg_hart 4 vec regs (s_drop a h)" by (rule gate_hart_config [OF c g])
  show "priv (s_drop a h) = SMode" "pc (s_drop a h) = a" using deleg_drops [OF g a] by simp_all
  show "c \<notin> {Mstatus, Mepc, Mcause, Mtval, Sepc, Scause, Stval} \<Longrightarrow> csrf (s_drop a h) c = csrf h c"
    "legal (s_drop a h) = legal h0" "clock (s_drop a h) = clock h" "instret (s_drop a h) = instret h"
    using same_config_simps [OF c] h(5) by simp_all
qed

lemma run_write_csrs: "run_state (write_csrs ws) s = ((), s\<lparr>hw := fold (\<lambda>(c, v) h. csr_write c v h) ws (hw s)\<rparr>)"
  by (induction ws arbitrary: s rule: write_csrs.induct) (simp_all add: exec_basic)

lemma sg_main_stage:
  fixes banner :: "piece list" and l msg ready :: string
  assumes h: "sg_hart y gv (hw s)" and s: "sg_boot y s" and a: "code_addr (g_test y)"
    and w: "fold (\<lambda>(c, v) h. csr_write c v h) ws (csr_store Mcounteren gv (csr_store Mcounteren 7 (hw s))) = h1"
      "csrf h1 Stvec = g_strap y" "csrf h1 Sscratch = g_regs y" "csrf h1 Mtvec = g_mtrap y" "csrf h1 Mscratch = ms"
      "csrf h1 Mcounteren = gv" "csrf h1 Pmpcfg0 = 0" "legal h1 = legal (hw s)" "clock h1 = clock (hw s)"
      "instret h1 = instret (hw s)" "retired h1 = retired (hw s)"
  defines "t \<equiv> final (sg_main banner l gv msg ws ready (g_test y)) s"
  shows "sg_stage y ms (hw s) gv 0 [7, gv, 1] t \<and> here SMode (g_test y) t \<and> t_regs t 3 = 0 \<and> m_regs t = m_regs s"
proof -
  let ?h = "csr_store Pmpcfg0 31 (csr_store Pmpaddr0 (- 1) (csr_store Medeleg 4 h1))"
  have facts: "csrf ?h Stvec = g_strap y" "csrf ?h Sscratch = g_regs y" "csrf ?h Medeleg = 4" "pmp_everything ?h" "legal ?h = legal (hw s)"
    using h w by (simp_all add: sg_hart_def skip_hart_def takes_def pmp_everything_def)
  have p: "skip_hart (g_strap y) (g_regs y) (g_mtrap y) (hw s)" using h by (simp add: sg_hart_def)
  show ?thesis
    using skip_drop [OF facts p a] w(2-) h s
    by (simp add: t_def sg_main_def close_gate_def delegate_illegal_def open_pmp_def exec_assoc skips_run run_write_csrs [THEN exec_step]
        run_m_gate_readback [THEN exec_step] w(1) sg_hart_def skip_hart_def sg_boot_def booted_def takes_def cong: probe_cong)
qed

text \<open>From boot to the first driver.\<close>

lemma sg_starts:
  assumes code: "well_placed code" "(g_main y, sg_main banner l gv msg ws ready (g_test y)) \<in> set code" "(g_test y, b) \<in> set code"
    and s: "sg_hart y gv (hw s)" "sg_boot y s"
    and w: "fold (\<lambda>(c, v) h. csr_write c v h) ws (csr_store Mcounteren gv (csr_store Mcounteren 7 (hw s))) = h1"
      "csrf h1 Stvec = g_strap y" "csrf h1 Sscratch = g_regs y" "csrf h1 Mtvec = g_mtrap y" "csrf h1 Mscratch = ms"
      "csrf h1 Mcounteren = gv" "csrf h1 Pmpcfg0 = 0" "legal h1 = legal (hw s)" "clock h1 = clock (hw s)"
      "instret h1 = instret (hw s)" "retired h1 = retired (hw s)"
  shows "\<exists>s0. runs code s s0 \<and> sg_stage y ms (hw s) gv 0 [7, gv, 1] s0 \<and> here SMode (g_test y) s0 \<and> t_regs s0 3 = 0 \<and> m_regs s0 2 = 0"
proof -
  have "mode_step code s = Some (final (sg_main banner l gv msg ws ready (g_test y)) s)"
    using boot_step [OF code(1) _ code(2)] s by (simp add: sg_boot_def sg_hart_def skip_hart_def)
  moreover have "m_regs s 2 = 0" using s(2) by (simp add: sg_boot_def)
  ultimately show ?thesis
    using sg_main_stage [OF s placed_addr [OF code(1,3)] w, of banner l msg ready]
    by (intro exI [of _ "final (sg_main banner l gv msg ws ready (g_test y)) s"]) (simp add: runs_one)
qed

text \<open>From boot through the refused read.\<close>

lemma sg_opening:
  assumes code: "well_placed code" "(g_main y, sg_main banner l gv msg ws ready (g_test y)) \<in> set code"
      "(g_test y, fault_start ps (q_v y) (site_a y)) \<in> set code" "(site_a y, rd_counter c (q_v y) (site_a y) insn) \<in> set code"
      "(g_strap y, skip_entry (g_regs y)) \<in> set code"
      "(site_a y + 4, fault_done title rdname ph cm 1 sj (q_v y) (site_a y) \<bind> (\<lambda>_. goto n)) \<in> set code"
    and s: "sg_hart y gv (hw s)" "sg_boot y s" "\<not> bit gv (gate_bit c)"
    and w: "fold (\<lambda>(c, v) h. csr_write c v h) ws (csr_store Mcounteren gv (csr_store Mcounteren 7 (hw s))) = h1"
      "csrf h1 Stvec = g_strap y" "csrf h1 Sscratch = g_regs y" "csrf h1 Mtvec = g_mtrap y" "csrf h1 Mscratch = ms"
      "csrf h1 Mcounteren = gv" "csrf h1 Pmpcfg0 = 0" "legal h1 = legal (hw s)" "clock h1 = clock (hw s)"
      "instret h1 = instret (hw s)" "retired h1 = retired (hw s)"
  shows "\<exists>s1. runs code s s1 \<and> sg_stage y ms (hw s) gv 0 ([7, gv, 1] @ [1, 2, 1, 1, 1]) s1 \<and> here SMode n s1 \<and> t_regs s1 3 = 1 \<and>
    m_regs s1 2 = 0"
proof -
  from sg_starts [OF code(1-3) s(1,2) w] obtain s0 where s0: "runs code s s0" "sg_stage y ms (hw s) gv 0 [7, gv, 1] s0"
    "here SMode (g_test y) s0" "t_regs s0 3 = 0" "m_regs s0 2 = 0" by blast
  have q: "q_v y \<notin> {0, xt1}" using s(2) by (simp add: sg_boot_def sg_regs_ok_def)
  let ?b = "rd_counter c (q_v y) (site_a y) insn"
  have b: "final ?b s' = s'\<lparr>hw := route 2 (site_a y) insn (hw s')\<rparr>"
    if "sg_stage y ms (hw s) gv 0 [7, gv, 1] s'" "here SMode (site_a y) s'" for s'
    using shut_counter [OF that s(3)] .
  have n: "t_regs s0 3 + 1 = 1" using s0(4) by simp
  from fault_phase [OF code(1,3,4,5,6) s0(2,3) n q _ b] obtain s1 where s1: "runs code s0 (final (goto n) s1)"
    "sg_stage y ms (hw s) gv 0 ([7, gv, 1] @ [1, 2, 1, 1, 1]) s1" "here SMode (site_a y + 4) s1" "t_regs s1 3 = 1" "m_regs s1 = m_regs s0"
    by auto
  have "final (goto n) s1 = s1\<lparr>hw := (hw s1)\<lparr>pc := n\<rparr>\<rparr>" by (simp add: final_def)
  with s1 s0(1,5) skips_config [OF s1(2), of "(hw s1)\<lparr>pc := n\<rparr>"] show ?thesis
    by (intro exI [of _ "final (goto n) s1"]) (auto simp: here_def intro: runs_trans)
qed

text \<open>What the M-mode entries of \<open>mcg\<close>, \<open>mir\<close> and \<open>st\<close> do on the supervisor call.\<close>

lemma trap_back:
  assumes "csrf h Mstatus = csrf (trap_to_m 9 a v g) Mstatus" "priv g = SMode"
  shows "priv (do_mret h) = SMode"
  using assms mpp_trap [of 9 a v g] by (simp add: do_mret_def)

lemma mcg_mtrap_stage:
  assumes s: "sg_stage y (g_mregs y) h0 0 k vs s" "here SMode (site_e y) s" "m_regs s 2 = 0" and h0: "takes h0 Mcounteren 1"
    and a: "code_addr (site_e y + 4)"
  defines "t \<equiv> final (mcg_mtrap_entry y) (s\<lparr>hw := trap_to_m 9 (site_e y) 0 (hw s)\<rparr>)"
  shows "sg_stage y (g_mregs y) h0 1 k vs t \<and> here SMode (site_e y + 4) t \<and> t_regs t = t_regs s \<and>
    m_regs t 0 = 9 \<and> m_regs t 1 = site_e y \<and> m_regs t 2 = 1 \<and> m_regs t 3 = 1"
proof -
  let ?h1 = "trap_to_m 9 (site_e y) 0 (hw s)"
  let ?h2 = "csr_store Mepc (site_e y + 4) (csr_store Mcounteren 1 ?h1)"
  have conf: "same_config (csr_store Mcounteren 1 ?h1) (do_mret ?h2)" by simp
  have g: "deleg_hart 4 (g_strap y) (g_regs y) ?h1" using gate_hart_config [of "hw s" ?h1] s(1) by (simp add: skips_def)
  have "csrf ?h1 Mscratch = g_mregs y" using s(1) by (simp add: trap_to_m_def skips_def)
  moreover have "priv (do_mret ?h2) = SMode" using trap_back [of ?h2 "site_e y" 0 "hw s"] s(2) by (simp add: here_def)
  moreover have "pc (do_mret ?h2) = site_e y + 4" using g a by (simp add: do_mret_def deleg_hart_def takes_def)
  ultimately show ?thesis
    using s h0 gate_hart_config [OF conf] same_config_simps [OF conf] g
    by (simp add: t_def mcg_mtrap_entry_def skips_run trap_to_m_csrs takes_def cong: probe_cong)
qed

lemma mcg_ecall_done_stage:
  assumes "sg_stage y ms h0 mc k vs s" "here SMode a s" "m_regs s 0 = 9" "m_regs s 1 = site_e y" "m_regs s 2 = 1" "m_regs s 3 = 1"
  shows "sg_stage y ms h0 mc k (vs @ [1, 9, 1, 1]) (final (mcg_ecall_done y) s) \<and> here SMode (site_1 y) (final (mcg_ecall_done y) s) \<and>
    t_regs (final (mcg_ecall_done y) s) = t_regs s"
  using assms by (simp add: mcg_ecall_done_def skips_run cong: probe_cong)

lemma mcg_samples_finish:
  assumes "sg_stage y ms h0 mc k vs s" "t_regs s 3 = 1" "0 < reg_get (q_0 y) (hw s)" "reg_get (q_0 y) (hw s) < reg_get (q_1 y) (hw s)"
  defines "t \<equiv> final (mcg_samples y) s"
  shows "parked t \<and> fails t = 0 \<and> finisher t = Some FINISHER_PASS \<and> cksum t = foldl fnv64 FNV_BASIS (vs @ [1, 1, 1])"
  using assms by (simp add: t_def mcg_samples_def skips_run verdict_fields cong: probe_cong)

lemma mcg_blocks:
  "(g_main y, mcg_main y) \<in> set (mcg_code y)" "(g_strap y, skip_entry (g_regs y)) \<in> set (mcg_code y)"
  "(g_mtrap y, mcg_mtrap_entry y) \<in> set (mcg_code y)" "(g_test y, mcg_smode_test y) \<in> set (mcg_code y)"
  "(site_a y, rd_counter CY (q_v y) (site_a y) (csrr_insn 0xC00 (q_v y))) \<in> set (mcg_code y)"
  "(site_a y + 4, mcg_fault_done y) \<in> set (mcg_code y)" "(site_e y, ecall (site_e y)) \<in> set (mcg_code y)"
  "(site_e y + 4, mcg_ecall_done y) \<in> set (mcg_code y)"
  "(site_1 y, rd_counter CY (q_0 y) (site_1 y) (csrr_insn 0xC00 (q_0 y))) \<in> set (mcg_code y)"
  "(site_1 y + 4, pause 0 (site_2 y)) \<in> set (mcg_code y)"
  "(site_2 y, rd_counter CY (q_1 y) (site_2 y) (csrr_insn 0xC00 (q_1 y))) \<in> set (mcg_code y)"
  "(site_2 y + 4, mcg_samples y) \<in> set (mcg_code y)"
  by (simp_all add: mcg_code_def)

text \<open>A counter that moves between two reads with \<open>n\<close> instructions between them.\<close>

definition moves :: "counter \<Rightarrow> nat \<Rightarrow> nat \<Rightarrow> hart \<Rightarrow> bool" where
  "moves c k n h \<longleftrightarrow> 0 < reading c h (retired h + k) \<and> reading c h (retired h + k) < reading c h (retired h + k + n + 1)"

lemma mcg_checksum: "foldl fnv64 FNV_BASIS ((([7, 0, 1] @ [1, 2, 1, 1, 1]) @ [1, 9, 1, 1]) @ [1, 1, 1]) = 0x4d74f3e95211308e"
  by code_simp

lemma mcg_passes:
  assumes code: "well_placed (mcg_code y)" and s: "sg_hart y 0 (hw s)" "sg_boot y s" and h0: "takes (hw s) Mcounteren 1" "moves CY 0 0 (hw s)"
  shows "passes_with (mcg_code y) 0x4d74f3e95211308e s"
proof -
  let ?c = "mcg_code y"
  have rg: "q_v y \<notin> {0, xt1}" "q_0 y \<noteq> 0" "q_1 y \<noteq> 0" "q_0 y \<noteq> q_1 y" using s(2) by (simp_all add: sg_boot_def sg_regs_ok_def)
  note ad = mcg_blocks [THEN placed_addr [OF code]]
  have "\<not> bit (0 :: u64) (gate_bit CY)" by simp
  from sg_opening [OF code mcg_blocks(1) [unfolded mcg_main_def] mcg_blocks(4) [unfolded mcg_smode_test_def] mcg_blocks(5,2)
      mcg_blocks(6) [unfolded mcg_fault_done_def] s this refl] s(1) obtain s1 where
    s1: "runs ?c s s1" "sg_stage y (g_mregs y) (hw s) 0 0 ([7, 0, 1] @ [1, 2, 1, 1, 1]) s1" "here SMode (site_e y) s1" "t_regs s1 3 = 1"
    "m_regs s1 2 = 0" by (auto simp: sg_hart_def skip_hart_def takes_def)
  let ?s2 = "final (mcg_mtrap_entry y) (s1\<lparr>hw := trap_to_m 9 (site_e y) 0 (hw s1)\<rparr>)"
  have r2: "runs ?c s1 ?s2" by (rule skips_handoff(1) [OF code mcg_blocks(7,3) s1(2,3)])
  have s2: "sg_stage y (g_mregs y) (hw s) 1 0 ([7, 0, 1] @ [1, 2, 1, 1, 1]) ?s2" "here SMode (site_e y + 4) ?s2" "t_regs ?s2 = t_regs s1"
    "m_regs ?s2 0 = 9" "m_regs ?s2 1 = site_e y" "m_regs ?s2 2 = 1" "m_regs ?s2 3 = 1"
    using mcg_mtrap_stage [OF s1(2,3,5) h0(1) ad(8)] by simp_all
  let ?s3 = "final (mcg_ecall_done y) ?s2"
  have r3: "runs ?c ?s2 ?s3" by (rule runs_one [OF skips_step [OF code s2(1,2) mcg_blocks(8)]])
  have s3: "sg_stage y (g_mregs y) (hw s) 1 0 (([7, 0, 1] @ [1, 2, 1, 1, 1]) @ [1, 9, 1, 1]) ?s3" "here SMode (site_1 y) ?s3" "t_regs ?s3 = t_regs s1"
    using mcg_ecall_done_stage [OF s2(1,2,4-7)] s2(3) by simp_all
  have b1: "bit (1 :: u64) (gate_bit CY)" by (simp add: gate_bit_def)
  from pair_phase [OF code mcg_blocks(9,10,11) s3(1,2) b1 rg(4,2,3) pause_step, unfolded Let_def] obtain h4 where
    s4: "runs ?c ?s3 (?s3\<lparr>hw := h4\<rparr>)" "sg_stage y (g_mregs y) (hw s) 1 (0 + 0 + 2) (([7, 0, 1] @ [1, 2, 1, 1, 1]) @ [1, 9, 1, 1]) (?s3\<lparr>hw := h4\<rparr>)"
    "here SMode (site_2 y + 4) (?s3\<lparr>hw := h4\<rparr>)" "reg_get (q_0 y) h4 = reading CY (hw s) (retired (hw s) + 0)"
    "reg_get (q_1 y) h4 = reading CY (hw s) (retired (hw s) + 0 + 0 + 1)" by blast
  let ?s4 = "?s3\<lparr>hw := h4\<rparr>"
  have "runs ?c s (final (mcg_samples y) ?s4)"
    using s1(1) r2 r3 s4(1) runs_one [OF skips_step [OF code s4(2,3) mcg_blocks(12)]] by (blast intro: runs_trans)
  moreover have "t_regs ?s4 3 = 1" "0 < reg_get (q_0 y) (hw ?s4)" "reg_get (q_0 y) (hw ?s4) < reg_get (q_1 y) (hw ?s4)"
    using s4(4,5) s3(3) s1(4) h0(2) by (simp_all add: moves_def)
  note mcg_samples_finish [OF s4(2) this, unfolded mcg_checksum]
  ultimately show ?thesis by (rule passes_withI)
qed

lemma mtg_samples_finish:
  assumes "sg_stage y ms h0 mc k vs s" "t_regs s 3 = 1" "0 < reg_get (q_0 y) (hw s)" "reg_get (q_0 y) (hw s) < reg_get (q_1 y) (hw s)"
  defines "t \<equiv> final (mtg_samples y) s"
  shows "parked t \<and> fails t = 0 \<and> finisher t = Some FINISHER_PASS \<and> cksum t = foldl fnv64 FNV_BASIS (vs @ [1, 1, 1])"
  using assms by (simp add: t_def mtg_samples_def skips_run verdict_fields cong: probe_cong)

lemma mtg_blocks:
  "(g_main y, mtg_main y) \<in> set (mtg_code y)" "(g_strap y, skip_entry (g_regs y)) \<in> set (mtg_code y)"
  "(g_test y, mtg_smode_test y) \<in> set (mtg_code y)"
  "(site_a y, rd_counter TM (q_v y) (site_a y) (csrr_insn 0xC01 (q_v y))) \<in> set (mtg_code y)"
  "(site_a y + 4, mtg_fault_done y) \<in> set (mtg_code y)"
  "(site_1 y, rd_counter CY (q_0 y) (site_1 y) (csrr_insn 0xC00 (q_0 y))) \<in> set (mtg_code y)"
  "(site_1 y + 4, pause 0 (site_2 y)) \<in> set (mtg_code y)"
  "(site_2 y, rd_counter CY (q_1 y) (site_2 y) (csrr_insn 0xC00 (q_1 y))) \<in> set (mtg_code y)"
  "(site_2 y + 4, mtg_samples y) \<in> set (mtg_code y)"
  by (simp_all add: mtg_code_def)

lemma mtg_checksum: "foldl fnv64 FNV_BASIS (([7, 1, 1] @ [1, 2, 1, 1, 1]) @ [1, 1, 1]) = 0xd1d0b4647fd56387"
  by code_simp

lemma mtg_passes:
  assumes code: "well_placed (mtg_code y)" and s: "sg_hart y 1 (hw s)" "sg_boot y s" and h0: "moves CY 0 0 (hw s)"
  shows "passes_with (mtg_code y) 0xd1d0b4647fd56387 s"
proof -
  let ?c = "mtg_code y"
  have rg: "q_0 y \<noteq> q_1 y" "q_0 y \<noteq> 0" "q_1 y \<noteq> 0" using s(2) by (simp_all add: sg_boot_def sg_regs_ok_def)
  have "\<not> bit (1 :: u64) (gate_bit TM)" by (simp add: gate_bit_def bit_iff_odd)
  from sg_opening [OF code mtg_blocks(1) [unfolded mtg_main_def] mtg_blocks(3) [unfolded mtg_smode_test_def] mtg_blocks(4,2)
      mtg_blocks(5) [unfolded mtg_fault_done_def] s this refl] s(1) obtain s1 ms where
    s1: "runs ?c s s1" "sg_stage y ms (hw s) 1 0 ([7, 1, 1] @ [1, 2, 1, 1, 1]) s1" "here SMode (site_1 y) s1" "t_regs s1 3 = 1"
    by (auto simp: sg_hart_def skip_hart_def takes_def)
  have b1: "bit (1 :: u64) (gate_bit CY)" by (simp add: gate_bit_def)
  from pair_phase [OF code mtg_blocks(6,7,8) s1(2,3) b1 rg pause_step, unfolded Let_def] obtain h4 where
    s4: "runs ?c s1 (s1\<lparr>hw := h4\<rparr>)" "sg_stage y ms (hw s) 1 (0 + 0 + 2) ([7, 1, 1] @ [1, 2, 1, 1, 1]) (s1\<lparr>hw := h4\<rparr>)"
    "here SMode (site_2 y + 4) (s1\<lparr>hw := h4\<rparr>)" "reg_get (q_0 y) h4 = reading CY (hw s) (retired (hw s) + 0)"
    "reg_get (q_1 y) h4 = reading CY (hw s) (retired (hw s) + 0 + 0 + 1)" by blast
  let ?s4 = "s1\<lparr>hw := h4\<rparr>"
  have "runs ?c s (final (mtg_samples y) ?s4)"
    using s1(1) s4(1) runs_one [OF skips_step [OF code s4(2,3) mtg_blocks(9)]] by (blast intro: runs_trans)
  moreover have "t_regs ?s4 3 = 1" "0 < reg_get (q_0 y) (hw ?s4)" "reg_get (q_0 y) (hw ?s4) < reg_get (q_1 y) (hw ?s4)"
    using s4(4,5) s1(4) h0 by (simp_all add: moves_def)
  note mtg_samples_finish [OF s4(2) this, unfolded mtg_checksum]
  ultimately show ?thesis by (rule passes_withI)
qed

text \<open>\<open>scounteren-trap\<close>: the helper's word for the CY bit is the value it wrote.\<close>

lemma mt_trap_stage:
  assumes s: "sg_stage y ms h0 0 k vs s" "here SMode (site_e y) s" "m_regs s 2 = 0" and a: "code_addr (site_e y + 4)"
  defines "t \<equiv> final (mt_trap_entry y) (s\<lparr>hw := trap_to_m 9 (site_e y) 0 (hw s)\<rparr>)"
  shows "sg_stage y ms h0 (legal h0 Mcounteren 0 1) k vs t \<and> here SMode (site_e y + 4) t \<and> t_regs t = t_regs s \<and>
    m_regs t 2 = 1 \<and> m_regs t 3 = 1"
proof -
  let ?h1 = "trap_to_m 9 (site_e y) 0 (hw s)"
  let ?h2 = "csr_store Mepc (site_e y + 4) (reg_set xt0 (site_e y + 4) (reg_set xt1 1 (reg_set xt2 (g_mregs y) (csr_store Mcounteren 1 ?h1))))"
  have conf: "same_config (csr_store Mcounteren 1 ?h1) (do_mret ?h2)" by simp
  have g: "deleg_hart 4 (g_strap y) (g_regs y) ?h1" using gate_hart_config [of "hw s" ?h1] s(1) by (simp add: skips_def)
  have "csrf ?h1 Mscratch = ms" using s(1) by (simp add: trap_to_m_def skips_def)
  moreover have "priv (do_mret ?h2) = SMode" using trap_back [of ?h2 "site_e y" 0 "hw s"] s(2) by (simp add: here_def reg_set_def)
  moreover have "pc (do_mret ?h2) = site_e y + 4" using g a by (simp add: do_mret_def deleg_hart_def takes_def reg_set_def)
  ultimately show ?thesis
    using s gate_hart_config [OF conf] same_config_simps [OF conf] g
    by (simp add: t_def mt_trap_entry_def skips_run trap_to_m_csrs takes_def reg_set_frame(1) cong: probe_cong)
qed

lemma st_ecall_done_stage:
  assumes "sg_stage y ms h0 mc k vs s" "here SMode a s" "m_regs s 2 = 1" "m_regs s 3 = 1"
  shows "sg_stage y ms h0 mc k (vs @ [1, 1]) (final (st_ecall_done y) s) \<and> here SMode (site_1 y) (final (st_ecall_done y) s) \<and>
    t_regs (final (st_ecall_done y) s) = t_regs s"
  using assms by (simp add: st_ecall_done_def skips_run cong: probe_cong)

lemma st_samples_finish:
  assumes "sg_stage y ms h0 mc k vs s" "t_regs s 3 = 1" "reg_get (q_0 y) (hw s) < reg_get (q_1 y) (hw s)"
  defines "t \<equiv> final (st_samples y) s"
  shows "parked t \<and> fails t = 0 \<and> finisher t = Some FINISHER_PASS \<and> cksum t = foldl fnv64 FNV_BASIS (vs @ [1, 1])"
  using assms by (simp add: t_def st_samples_def skips_run verdict_fields cong: probe_cong)

lemma st_blocks:
  "(g_main y, st_main y) \<in> set (st_code y)" "(g_strap y, skip_entry (g_regs y)) \<in> set (st_code y)"
  "(g_mtrap y, mt_trap_entry y) \<in> set (st_code y)" "(g_test y, st_smode_test y) \<in> set (st_code y)"
  "(site_a y, rd_counter CY (q_v y) (site_a y) (csrr_insn 0xC00 (q_v y))) \<in> set (st_code y)"
  "(site_a y + 4, st_fault_done y) \<in> set (st_code y)" "(site_e y, ecall (site_e y)) \<in> set (st_code y)"
  "(site_e y + 4, st_ecall_done y) \<in> set (st_code y)"
  "(site_1 y, rd_counter CY (q_0 y) (site_1 y) (csrr_insn 0xC00 (q_0 y))) \<in> set (st_code y)"
  "(site_1 y + 4, pause 0 (site_2 y)) \<in> set (st_code y)"
  "(site_2 y, rd_counter CY (q_1 y) (site_2 y) (csrr_insn 0xC00 (q_1 y))) \<in> set (st_code y)"
  "(site_2 y + 4, st_samples y) \<in> set (st_code y)"
  by (simp_all add: st_code_def)

lemma st_checksum: "foldl fnv64 FNV_BASIS ((([7, 0, 1] @ [1, 2, 1, 1, 1]) @ [1, 1]) @ [1, 1]) = 0xefbc32d301fc1227"
  by code_simp

lemma st_passes:
  assumes code: "well_placed (st_code y)" and s: "sg_hart y 0 (hw s)" "sg_boot y s"
    and h0: "bit (legal (hw s) Mcounteren 0 1) 0" "moves CY 0 0 (hw s)"
  shows "passes_with (st_code y) 0xefbc32d301fc1227 s"
proof -
  let ?c = "st_code y"
  have rg: "q_0 y \<noteq> q_1 y" "q_0 y \<noteq> 0" "q_1 y \<noteq> 0" using s(2) by (simp_all add: sg_boot_def sg_regs_ok_def)
  have "\<not> bit (0 :: u64) (gate_bit CY)" by simp
  from sg_opening [OF code st_blocks(1) [unfolded st_main_def] st_blocks(4) [unfolded st_smode_test_def] st_blocks(5,2)
      st_blocks(6) [unfolded st_fault_done_def] s this refl] s(1) obtain s1 ms where
    s1: "runs ?c s s1" "sg_stage y ms (hw s) 0 0 ([7, 0, 1] @ [1, 2, 1, 1, 1]) s1" "here SMode (site_e y) s1" "t_regs s1 3 = 1"
    "m_regs s1 2 = 0" by (auto simp: sg_hart_def skip_hart_def takes_def)
  let ?s2 = "final (mt_trap_entry y) (s1\<lparr>hw := trap_to_m 9 (site_e y) 0 (hw s1)\<rparr>)" and ?m = "legal (hw s) Mcounteren 0 1"
  have r2: "runs ?c s1 ?s2" by (rule skips_handoff(1) [OF code st_blocks(7,3) s1(2,3)])
  have s2: "sg_stage y ms (hw s) ?m 0 ([7, 0, 1] @ [1, 2, 1, 1, 1]) ?s2" "here SMode (site_e y + 4) ?s2" "t_regs ?s2 = t_regs s1"
    "m_regs ?s2 2 = 1" "m_regs ?s2 3 = 1"
    using mt_trap_stage [OF s1(2,3,5) placed_addr [OF code st_blocks(8)]] by simp_all
  let ?s3 = "final (st_ecall_done y) ?s2"
  have r3: "runs ?c ?s2 ?s3" by (rule runs_one [OF skips_step [OF code s2(1,2) st_blocks(8)]])
  have s3: "sg_stage y ms (hw s) ?m 0 (([7, 0, 1] @ [1, 2, 1, 1, 1]) @ [1, 1]) ?s3" "here SMode (site_1 y) ?s3" "t_regs ?s3 = t_regs s1"
    using st_ecall_done_stage [OF s2(1,2,4,5)] s2(3) by simp_all
  have b1: "bit ?m (gate_bit CY)" using h0(1) by (simp add: gate_bit_def)
  from pair_phase [OF code st_blocks(9,10,11) s3(1,2) b1 rg pause_step, unfolded Let_def] obtain h4 where
    s4: "runs ?c ?s3 (?s3\<lparr>hw := h4\<rparr>)" "sg_stage y ms (hw s) ?m (0 + 0 + 2) (([7, 0, 1] @ [1, 2, 1, 1, 1]) @ [1, 1]) (?s3\<lparr>hw := h4\<rparr>)"
    "here SMode (site_2 y + 4) (?s3\<lparr>hw := h4\<rparr>)" "reg_get (q_0 y) h4 = reading CY (hw s) (retired (hw s) + 0)"
    "reg_get (q_1 y) h4 = reading CY (hw s) (retired (hw s) + 0 + 0 + 1)" by blast
  let ?s4 = "?s3\<lparr>hw := h4\<rparr>"
  have "runs ?c s (final (st_samples y) ?s4)"
    using s1(1) r2 r3 s4(1) runs_one [OF skips_step [OF code s4(2,3) st_blocks(12)]] by (blast intro: runs_trans)
  moreover have "t_regs ?s4 3 = 1" "reg_get (q_0 y) (hw ?s4) < reg_get (q_1 y) (hw ?s4)"
    using s4(4,5) s3(3) s1(4) h0(2) by (simp_all add: moves_def)
  note st_samples_finish [OF s4(2) this, unfolded st_checksum]
  ultimately show ?thesis by (rule passes_withI)
qed

text \<open>\<open>mcounteren-ir-gate\<close>.\<close>

lemma mir_ungated_stage:
  assumes "sg_stage y ms h0 mc k vs s" "here SMode a s" "t_regs s 3 = 1" "0 < reg_get (q_c y) (hw s)"
  shows "sg_stage y ms h0 mc k (vs @ [1, 1]) (final (mir_ungated y) s) \<and> here SMode (site_e y) (final (mir_ungated y) s) \<and>
    t_regs (final (mir_ungated y) s) = t_regs s \<and> m_regs (final (mir_ungated y) s) = m_regs s"
  using assms by (simp add: mir_ungated_def skips_run cong: probe_cong)

lemma mir_mtrap_stage:
  assumes s: "sg_stage y (g_mregs y) h0 mc k vs s" "here SMode (site_e y) s" "m_regs s 2 = 0" and h0: "takes h0 Mcounteren 7"
    and a: "code_addr (g_next y)"
  defines "t \<equiv> final (mir_mtrap_entry y) (s\<lparr>hw := trap_to_m 9 (site_e y) 0 (hw s)\<rparr>)"
  shows "sg_stage y (g_mregs y) h0 7 k vs t \<and> here SMode (g_next y) t \<and> t_regs t = t_regs s \<and>
    m_regs t 0 = 9 \<and> m_regs t 1 = site_e y \<and> m_regs t 2 = 1 \<and> m_regs t 3 = 7"
proof -
  let ?h1 = "trap_to_m 9 (site_e y) 0 (hw s)"
  let ?h2 = "csr_store Mcounteren 7 ?h1"
  have g: "deleg_hart 4 (g_strap y) (g_regs y) ?h1" using gate_hart_config [of "hw s" ?h1] s(1) by (simp add: skips_def)
  have conf: "same_config ?h2 (s_drop (g_next y) ?h2)" by simp
  have "csrf ?h1 Mscratch = g_mregs y" using s(1) by (simp add: trap_to_m_def skips_def)
  then show ?thesis
    using s h0 gate_hart_config [OF conf] same_config_simps [OF conf] g deleg_drops [of 4 "g_strap y" "g_regs y" ?h2, OF _ a]
    by (simp add: t_def mir_mtrap_entry_def skips_run trap_to_m_csrs takes_def cong: probe_cong)
qed

lemma mir_phase_b_stage:
  assumes "sg_stage y ms h0 mc k vs s" "here SMode a s" "m_regs s 0 = 9" "m_regs s 1 = site_e y" "m_regs s 2 = 1" "m_regs s 3 = 7"
  shows "sg_stage y ms h0 mc k (vs @ [1, 1, 1, 7]) (final (mir_smode_phase_b y) s) \<and> here SMode (site_1 y) (final (mir_smode_phase_b y) s) \<and>
    t_regs (final (mir_smode_phase_b y) s) = t_regs s"
  using assms by (simp add: mir_smode_phase_b_def skips_run cong: probe_cong)

lemma mir_delay_step:
  "q \<noteq> xt0 \<Longrightarrow> \<exists>h'. final (mir_delay y) (s\<lparr>hw := h\<rparr>) = s\<lparr>hw := h'\<rparr> \<and> same_config h h' \<and> priv h' = priv h \<and> pc h' = site_2 y \<and>
     retired h' = retired h + 400002 \<and> reg_get q h' = reg_get q h"
  by (intro exI [of _ "(reg_set xt0 0 ((retire ^^ 400002) h))\<lparr>pc := site_2 y\<rparr>"]) (simp add: mir_delay_def nops_def final_def gate_exec)

lemma mir_samples_finish:
  assumes "sg_stage y ms h0 mc k vs s" "t_regs s 3 = 1" "0 < reg_get (q_0 y) (hw s)" "reg_get (q_0 y) (hw s) < reg_get (q_1 y) (hw s)"
  defines "t \<equiv> final (mir_samples y) s"
  shows "parked t \<and> fails t = 0 \<and> finisher t = Some FINISHER_PASS \<and> cksum t = foldl fnv64 FNV_BASIS (vs @ [1, 1, 1])"
  using assms by (simp add: t_def mir_samples_def skips_run verdict_fields cong: probe_cong)

lemma mir_blocks:
  "(g_main y, mir_main y) \<in> set (mir_code y)" "(g_strap y, skip_entry (g_regs y)) \<in> set (mir_code y)"
  "(g_mtrap y, mir_mtrap_entry y) \<in> set (mir_code y)" "(g_test y, mir_smode_phase_a y) \<in> set (mir_code y)"
  "(site_a y, rd_counter IR (q_v y) (site_a y) (csrr_insn 0xC02 (q_v y))) \<in> set (mir_code y)"
  "(site_a y + 4, mir_fault_done y) \<in> set (mir_code y)"
  "(site_c y, rd_counter CY (q_c y) (site_c y) (csrr_insn 0xC00 (q_c y))) \<in> set (mir_code y)"
  "(site_c y + 4, mir_ungated y) \<in> set (mir_code y)" "(site_e y, ecall (site_e y)) \<in> set (mir_code y)"
  "(g_next y, mir_smode_phase_b y) \<in> set (mir_code y)"
  "(site_1 y, rd_counter IR (q_0 y) (site_1 y) (csrr_insn 0xC02 (q_0 y))) \<in> set (mir_code y)"
  "(site_1 y + 4, mir_delay y) \<in> set (mir_code y)"
  "(site_2 y, rd_counter IR (q_1 y) (site_2 y) (csrr_insn 0xC02 (q_1 y))) \<in> set (mir_code y)"
  "(site_2 y + 4, mir_samples y) \<in> set (mir_code y)"
  by (simp_all add: mir_code_def)

lemma mir_checksum:
  "foldl fnv64 FNV_BASIS (((([7, 3, 1] @ [1, 2, 1, 1, 1]) @ [1, 1]) @ [1, 1, 1, 7]) @ [1, 1, 1]) = 0xdd2308106691e2e3"
  by code_simp

lemma mir_passes:
  assumes code: "well_placed (mir_code y)" and s: "sg_hart y 3 (hw s)" "sg_boot y s"
    and h0: "0 < reading CY (hw s) (retired (hw s))" "moves IR 1 400002 (hw s)"
  shows "passes_with (mir_code y) 0xdd2308106691e2e3 s"
proof -
  let ?c = "mir_code y"
  have rg: "q_0 y \<noteq> q_1 y" "q_0 y \<noteq> 0" "q_1 y \<noteq> 0" "q_0 y \<noteq> xt0" "q_c y \<noteq> 0" using s(2) by (simp_all add: sg_boot_def sg_regs_ok_def)
  have "\<not> bit (3 :: u64) (gate_bit IR)" by (simp add: gate_bit_def bit_iff_odd)
  from sg_opening [OF code mir_blocks(1) [unfolded mir_main_def] mir_blocks(4) [unfolded mir_smode_phase_a_def] mir_blocks(5,2)
      mir_blocks(6) [unfolded mir_fault_done_def] s this refl] s(1) obtain s1 where
    s1: "runs ?c s s1" "sg_stage y (g_mregs y) (hw s) 3 0 ([7, 3, 1] @ [1, 2, 1, 1, 1]) s1" "here SMode (site_c y) s1" "t_regs s1 3 = 1"
    "m_regs s1 2 = 0" by (auto simp: sg_hart_def skip_hart_def takes_def)
  have "bit (3 :: u64) (gate_bit CY)" by (simp add: gate_bit_def)
  from skips_read [OF code mir_blocks(7) s1(2,3) this, unfolded Let_def] obtain h where
    s2: "runs ?c s1 (s1\<lparr>hw := h\<rparr>)" "sg_stage y (g_mregs y) (hw s) 3 (Suc 0) ([7, 3, 1] @ [1, 2, 1, 1, 1]) (s1\<lparr>hw := h\<rparr>)"
    "here SMode (site_c y + 4) (s1\<lparr>hw := h\<rparr>)" "reg_get (q_c y) h = reading CY (hw s) (retired (hw s) + 0)" using rg(5) by auto
  let ?s3 = "final (mir_ungated y) (s1\<lparr>hw := h\<rparr>)"
  have r3: "runs ?c (s1\<lparr>hw := h\<rparr>) ?s3" by (rule runs_one [OF skips_step [OF code s2(2,3) mir_blocks(8)]])
  have s3: "sg_stage y (g_mregs y) (hw s) 3 (Suc 0) (([7, 3, 1] @ [1, 2, 1, 1, 1]) @ [1, 1]) ?s3" "here SMode (site_e y) ?s3"
    "t_regs ?s3 = t_regs s1" "m_regs ?s3 = m_regs s1"
    using mir_ungated_stage [OF s2(2,3)] s1(4) s2(4) h0(1) by simp_all
  let ?s4 = "final (mir_mtrap_entry y) (?s3\<lparr>hw := trap_to_m 9 (site_e y) 0 (hw ?s3)\<rparr>)"
  have r4: "runs ?c ?s3 ?s4" by (rule skips_handoff(1) [OF code mir_blocks(9,3) s3(1,2)])
  have s4: "sg_stage y (g_mregs y) (hw s) 7 (Suc 0) (([7, 3, 1] @ [1, 2, 1, 1, 1]) @ [1, 1]) ?s4" "here SMode (g_next y) ?s4"
    "t_regs ?s4 = t_regs s1" "m_regs ?s4 0 = 9" "m_regs ?s4 1 = site_e y" "m_regs ?s4 2 = 1" "m_regs ?s4 3 = 7"
    using mir_mtrap_stage [OF s3(1,2) _ _ placed_addr [OF code mir_blocks(10)]] s3(3,4) s1(5) s(1) by (simp_all add: sg_hart_def)
  let ?s5 = "final (mir_smode_phase_b y) ?s4"
  have r5: "runs ?c ?s4 ?s5" by (rule runs_one [OF skips_step [OF code s4(1,2) mir_blocks(10)]])
  have s5: "sg_stage y (g_mregs y) (hw s) 7 (Suc 0) ((([7, 3, 1] @ [1, 2, 1, 1, 1]) @ [1, 1]) @ [1, 1, 1, 7]) ?s5"
    "here SMode (site_1 y) ?s5" "t_regs ?s5 = t_regs s1"
    using mir_phase_b_stage [OF s4(1,2,4-7)] s4(3) by simp_all
  have "bit (7 :: u64) (gate_bit IR)" by (simp add: gate_bit_def bit_iff_odd)
  from pair_phase [OF code mir_blocks(11-13) s5(1,2) this rg(1-3) mir_delay_step [OF rg(4)], unfolded Let_def] obtain h6 where
    s6: "runs ?c ?s5 (?s5\<lparr>hw := h6\<rparr>)" "sg_stage y (g_mregs y) (hw s) 7 (Suc 0 + 400002 + 2)
      ((([7, 3, 1] @ [1, 2, 1, 1, 1]) @ [1, 1]) @ [1, 1, 1, 7]) (?s5\<lparr>hw := h6\<rparr>)" "here SMode (site_2 y + 4) (?s5\<lparr>hw := h6\<rparr>)"
    "reg_get (q_0 y) h6 = reading IR (hw s) (retired (hw s) + Suc 0)"
    "reg_get (q_1 y) h6 = reading IR (hw s) (retired (hw s) + Suc 0 + 400002 + 1)" by blast
  let ?s6 = "?s5\<lparr>hw := h6\<rparr>"
  have "runs ?c s (final (mir_samples y) ?s6)"
    using s1(1) s2(1) r3 r4 r5 s6(1) runs_one [OF skips_step [OF code s6(2,3) mir_blocks(14)]] by (blast intro: runs_trans)
  moreover have "t_regs ?s6 3 = 1" "0 < reg_get (q_0 y) (hw ?s6)" "reg_get (q_0 y) (hw ?s6) < reg_get (q_1 y) (hw ?s6)"
    using s6(4,5) s5(3) s1(4) h0(2) by (simp_all add: moves_def)
  note mir_samples_finish [OF s6(2) this, unfolded mir_checksum]
  ultimately show ?thesis by (rule passes_withI)
qed


subsection \<open>Properties\<close>

text \<open>
  C32. The four S-mode gate experiments pass, each with the checksum its PROOF.md reports, on a hart that keeps the values written
  to \<open>mcounteren\<close> and whose counters move: the gated read takes one illegal-instruction trap, the skip handler resumes behind it
  with the destination untouched, the \<open>ecall\<close> opens the gate, and the two samples advance.
\<close>

theorem smode_gates_pass:
  assumes "sg_boot y s" "takes (hw s) Mcounteren 1" "moves CY 0 0 (hw s)" "0 < reading CY (hw s) (retired (hw s))" "moves IR 1 400002 (hw s)"
  shows "(well_placed (mcg_code y) \<and> sg_hart y 0 (hw s) \<longrightarrow> passes_with (mcg_code y) 0x4d74f3e95211308e s) \<and>
    (well_placed (mtg_code y) \<and> sg_hart y 1 (hw s) \<longrightarrow> passes_with (mtg_code y) 0xd1d0b4647fd56387 s) \<and>
    (well_placed (mir_code y) \<and> sg_hart y 3 (hw s) \<longrightarrow> passes_with (mir_code y) 0xdd2308106691e2e3 s) \<and>
    (well_placed (st_code y) \<and> sg_hart y 0 (hw s) \<longrightarrow> passes_with (st_code y) 0xefbc32d301fc1227 s)"
  using assms mcg_passes mtg_passes mir_passes st_passes by (simp add: takes_def)

text \<open>A placement for the witness.\<close>

definition sg_example :: sg_syms where
  "sg_example = \<lparr>g_main = 0x80000000, g_strap = 0x80000010, g_mtrap = 0x80000020, g_regs = 0x80010000, g_mregs = 0x80010100,
     g_test = 0x80000040, g_next = 0x80000050, site_a = 0x80000060, site_c = 0x80000070, site_e = 0x80000080,
     site_1 = 0x80000090, site_2 = 0x800000a0, q_v = 9, q_c = 9, q_0 = 8, q_1 = 18\<rparr>"

lemma sg_example_placed:
  "well_placed (mcg_code sg_example)" "well_placed (mtg_code sg_example)" "well_placed (mir_code sg_example)" "well_placed (st_code sg_example)"
  by (simp_all add: well_placed_def code_addr_def mcg_code_def mtg_code_def mir_code_def st_code_def sg_example_def)

lemma sg_example_boot:
  defines "s \<equiv> gate_example 0x80000000 (\<lambda>c old v. v)"
  shows "sg_boot sg_example s" "takes (hw s) Mcounteren 1" "moves CY 0 0 (hw s)" "0 < reading CY (hw s) (retired (hw s))" "moves IR 1 400002 (hw s)"
    "sg_hart sg_example v (hw s)"
  by (simp_all add: s_def sg_boot_def sg_regs_ok_def booted_def moves_def reading_def sg_hart_def skip_hart_def keeps_bits_def takes_def
      gate_example_def gate_example_hart_def sg_example_def)

theorem smode_gates_pass_witness:
  "passes_with (mcg_code sg_example) 0x4d74f3e95211308e (gate_example 0x80000000 (\<lambda>c old v. v)) \<and>
   passes_with (mir_code sg_example) 0xdd2308106691e2e3 (gate_example 0x80000000 (\<lambda>c old v. v))"
  using smode_gates_pass [OF sg_example_boot(1-5)] sg_example_placed sg_example_boot(6) by blast

end
