(* ===== verification/Mhart.thy ===== *)
theory Mhart
  imports Sgate
begin

text \<open>
  Reads of \<open>mhartid\<close> below M-mode: \<open>src/src/mhartid-s-mode-read\<close> (\<open>mhs\<close>) and \<open>src/src/mhartid-u-mode-read\<close> (\<open>mhu\<close>), both
  around the skipping trap entry of theory Skip. The first reads \<open>sstatus\<close> as a control, which S-mode may; in the second that
  read traps too, and the payload ends with an \<open>ecall\<close> into an M-mode entry that restores \<open>medeleg\<close> and \<open>pmpcfg0\<close> and
  writes the finisher.
\<close>

unbundle bit_operations_syntax


subsection \<open>Reading a privileged register\<close>

text \<open>The lowest mode a register may be read in is in bits 9 and 8 of its number.\<close>

definition csr_level :: "csr \<Rightarrow> priv_mode" where
  "csr_level c = (if c \<in> {Sstatus, Sie, Stvec, Sscratch, Sepc, Scause, Stval, Sip, Stimecmp, Satp, Scounteren} then SMode else MMode)"

definition may_read :: "priv_mode \<Rightarrow> csr \<Rightarrow> bool" where
  "may_read p c \<longleftrightarrow> p = MMode \<or> p = SMode \<and> csr_level c = SMode"

definition rd_csr :: "csr \<Rightarrow> nat \<Rightarrow> u64 \<Rightarrow> u64 \<Rightarrow> gprog" where
  "rd_csr c r site insn = on_hart (\<lambda>h.
     if may_read (priv h) c then (retire (reg_set r (csr_read c h) h))\<lparr>pc := site + 4\<rparr>
     else route 2 site insn h)"


subsection \<open>Shared statements\<close>

text \<open>The two reads in M-mode, the vectors, delegation and PMP.\<close>

definition hartid_baseline :: gprog where
  "hartid_baseline = do {
     boot_id \<leftarrow> csrr Mhartid;
     boot_id2 \<leftarrow> csrr Mhartid;
     puts [Str ''boot: mhartid='', Hex boot_id, Str '' second='', Hex boot_id2, Str ''\<newline>''];
     check_feed (boot_id = 0) ''boot: mhartid is not 0 on the virt boot hart'' boot_id;
     check_feed (boot_id2 = boot_id) ''boot: second M-mode mhartid read disagrees with the first'' (of_bool (boot_id2 = boot_id)) }"

definition feed_stval :: gprog where
  "feed_stval = gets (\<lambda>s. t_regs s 1) \<bind> cks_feed"

text \<open>No M-mode trap is to have been counted; \<open>mt_traps\<close> is word 2 of \<open>m_regs\<close>.\<close>

definition no_m_traps :: gprog where
  "no_m_traps = do {
     n \<leftarrow> gets (\<lambda>s. m_regs s 2);
     check_feed (n = 0) ''phase C: an M-mode trap fired during the run'' n }"

definition summary :: "string \<Rightarrow> gprog" where
  "summary checks = do {
     c \<leftarrow> gets cksum;
     f \<leftarrow> get_fails;
     puts [Str ''\<newline>checksum (FNV-1a over verdict values) = '', Str (hex64 c), Str ''\<newline>'',
       Str (''summary: checks='' @ checks @ '' mismatches=''), Dec (of_nat f), Str ''\<newline>''];
     puts [Str (if f = 0 then ''RESULT: PASS\<newline>'' else ''RESULT: FAIL\<newline>'')] }"

definition count_and_park :: gprog where
  "count_and_park = do {
     modify (\<lambda>s. s\<lparr>m_regs := (m_regs s)(2 := m_regs s 2 + 1)\<rparr>);
     park }"


subsection \<open>mhartid-s-mode-read\<close>

definition mhs_main :: "sg_syms \<Rightarrow> gprog" where
  "mhs_main y = do {
     puts [Str ''\<newline>mhartid-s-mode-read: S-mode read of the M-mode hart ID register\<newline>''];
     hartid_baseline;
     write_csrs [(Mtvec, g_mtrap y), (Stvec, g_strap y), (Sscratch, g_regs y)];
     delegate_illegal;
     open_pmp;
     puts [Str ''setup complete; dropping to S-mode...\<newline>''];
     drop_to_smode (g_test y) }"

definition mhs_smode_test :: "sg_syms \<Rightarrow> gprog" where
  "mhs_smode_test y = fault_start [Str ''in S-mode; mhartid read experiment begins\<newline>\<newline>''] (q_v y) (site_a y)"

definition mhs_fault_done :: "sg_syms \<Rightarrow> gprog" where
  "mhs_fault_done y = fault_done ''phase A: csrr mhartid in S-mode (expect S-mode trap):\<newline>'' ''csrr''
     ''phase A: '' ''phase A: trap count is not 1'' 1 ''the read'' (q_v y) (site_a y) \<bind> (\<lambda>_. do {
     feed_stval;
     put_reg (q_0 y) U_SENTINEL;
     goto (site_1 y) })"

definition mhs_control :: "sg_syms \<Rightarrow> gprog" where
  "mhs_control y = do {
     v2 \<leftarrow> get_reg (q_0 y);
     traps \<leftarrow> gets (\<lambda>s. t_regs s 3);
     puts [Str ''\<newline>phase B: csrr sstatus in S-mode (expect success):\<newline>'', Str ''  sstatus readback = '', Hex v2,
       Str ''\<newline>  S-mode traps after phase B = '', Dec traps, Str ''\<newline>''];
     check_feed (traps = 1) ''phase B: unexpected S-mode trap on the sstatus read'' traps;
     check_feed (v2 \<noteq> U_SENTINEL) ''phase B: sstatus read did not overwrite its destination'' (of_bool (v2 \<noteq> U_SENTINEL));
     no_m_traps;
     summary ''11'';
     f \<leftarrow> get_fails;
     only_if (f = 0) (finish FINISHER_PASS);
     park }"

definition mhs_code :: "sg_syms \<Rightarrow> (u64 \<times> gprog) list" where
  "mhs_code y =
    [(g_main y, mhs_main y),
     (g_strap y, skip_entry (g_regs y)),
     (g_mtrap y, count_and_park),
     (g_test y, mhs_smode_test y),
     (site_a y, rd_csr Mhartid (q_v y) (site_a y) (csrr_insn 0xF14 (q_v y))),
     (site_a y + 4, mhs_fault_done y),
     (site_1 y, rd_csr Sstatus (q_0 y) (site_1 y) (csrr_insn 0x100 (q_0 y))),
     (site_1 y + 4, mhs_control y)]"


subsection \<open>mhartid-u-mode-read\<close>

text \<open>\<open>mhu_boot_pmpcfg0\<close> and \<open>mhu_result\<close> are words 0 and 1 of \<open>m_regs\<close>, \<open>mhu_boot_medeleg\<close> is \<open>boot_deleg\<close>.\<close>

definition m_drop_to_umode :: "u64 \<Rightarrow> gprog" where
  "m_drop_to_umode payload = do {
     csrw Mepc payload;
     v \<leftarrow> csrr Mstatus;
     csrw Mstatus (v AND NOT 0x1800);
     mret }"

definition mhu_main :: "sg_syms \<Rightarrow> gprog" where
  "mhu_main y = do {
     puts [Str ''\<newline>mhartid-u-mode-read: U-mode read of the M-mode hart ID register\<newline>''];
     d \<leftarrow> csrr Medeleg;
     modify (\<lambda>s. s\<lparr>boot_deleg := d\<rparr>);
     p \<leftarrow> csrr Pmpcfg0;
     modify (\<lambda>s. s\<lparr>m_regs := (m_regs s)(0 := p)\<rparr>);
     puts [Str ''boot: medeleg='', Hex d, Str '' pmpcfg0='', Hex p, Str ''\<newline>''];
     hartid_baseline;
     write_csrs [(Mtvec, g_mtrap y), (Stvec, g_strap y), (Sscratch, g_regs y)];
     delegate_illegal;
     open_pmp;
     puts [Str ''setup complete; dropping to U-mode...\<newline>''];
     m_drop_to_umode (g_test y) }"

definition mhu_umode_test :: "sg_syms \<Rightarrow> gprog" where
  "mhu_umode_test y = fault_start [Str ''in U-mode; mhartid read experiment begins\<newline>\<newline>''] (q_v y) (site_a y)"

definition mhu_fault_done :: "sg_syms \<Rightarrow> gprog" where
  "mhu_fault_done y = fault_done ''phase A: csrr mhartid in U-mode (expect S-mode trap):\<newline>'' ''csrr''
     ''phase A: '' ''phase A: trap count is not 1'' 1 ''the read'' (q_v y) (site_a y) \<bind> (\<lambda>_. do {
     feed_stval;
     goto (g_next y) })"

text \<open>The second half of the payload, from the second sentinel on.\<close>

definition mhu_phase_b :: "sg_syms \<Rightarrow> gprog" where
  "mhu_phase_b y = fault_start [] (q_0 y) (site_1 y)"

definition mhu_close :: "sg_syms \<Rightarrow> gprog" where
  "mhu_close y = do {
     feed_stval;
     no_m_traps;
     summary ''14'';
     f \<leftarrow> get_fails;
     modify (\<lambda>s. s\<lparr>m_regs := (m_regs s)(1 := of_bool (f = 0))\<rparr>);
     goto (site_e y) }"

definition mhu_control :: "sg_syms \<Rightarrow> gprog" where
  "mhu_control y = fault_done ''\<newline>phase B: csrr sstatus in U-mode (expect S-mode trap):\<newline>'' ''csrr''
     ''phase B: '' ''phase B: trap count is not 2'' 2 ''the read'' (q_0 y) (site_1 y) \<bind> (\<lambda>_. mhu_close y)"

definition mhu_mt_trap_entry :: gprog where
  "mhu_mt_trap_entry = do {
     cause \<leftarrow> csrr Mcause;
     if cause \<noteq> 8 then count_and_park
     else do {
       d \<leftarrow> gets boot_deleg;
       csrw Medeleg d;
       p \<leftarrow> gets (\<lambda>s. m_regs s 0);
       csrw Pmpcfg0 p;
       r \<leftarrow> gets (\<lambda>s. m_regs s 1);
       only_if (r \<noteq> 0) (finish FINISHER_PASS);
       park } }"

definition mhu_code :: "sg_syms \<Rightarrow> (u64 \<times> gprog) list" where
  "mhu_code y =
    [(g_main y, mhu_main y),
     (g_strap y, skip_entry (g_regs y)),
     (g_mtrap y, mhu_mt_trap_entry),
     (g_test y, mhu_umode_test y),
     (site_a y, rd_csr Mhartid (q_v y) (site_a y) (csrr_insn 0xF14 (q_v y))),
     (site_a y + 4, mhu_fault_done y),
     (g_next y, mhu_phase_b y),
     (site_1 y, rd_csr Sstatus (q_0 y) (site_1 y) (csrr_insn 0x100 (q_0 y))),
     (site_1 y + 4, mhu_control y),
     (site_e y, ecall (site_e y))]"


subsection \<open>Running\<close>

lemma refused_csr:
  "here p a s \<Longrightarrow> \<not> may_read p c \<Longrightarrow> final (rd_csr c q a insn) s = s\<lparr>hw := route 2 a insn (hw s)\<rparr>"
  by (simp add: final_def rd_csr_def here_def)

lemma not_read: "\<not> may_read SMode Mhartid" "\<not> may_read UMode c" "may_read SMode Sstatus"
  by (simp_all add: may_read_def csr_level_def)

definition mu_drop :: "u64 \<Rightarrow> hart \<Rightarrow> hart" where
  "mu_drop a h = do_mret (csr_write Mstatus (csr_read Mstatus (csr_write Mepc a h) AND NOT 0x1800) (csr_write Mepc a h))"

lemma run_mu_drop: "run_state (m_drop_to_umode a) s = ((), s\<lparr>hw := mu_drop a (hw s)\<rparr>)"
  by (simp add: m_drop_to_umode_def gate_exec mu_drop_def)

lemma mu_drop_simps [simp]: "same_config b (mu_drop a h) = same_config b h" "retired (mu_drop a h) = retired h"
  by (simp_all add: mu_drop_def del: csr_write.simps)

lemma mu_drop_mode:
  assumes "keeps_bits h Mstatus STEER" "takes h Mepc a"
  shows "priv (mu_drop a h) = UMode" "pc (mu_drop a h) = a"
proof -
  have "\<not> bit (csrf (csr_write Mstatus (csr_read Mstatus (csr_write Mepc a h) AND NOT 0x1800) (csr_write Mepc a h)) Mstatus) i"
    if "i \<in> {11, 12}" for i
    using that keeps_bitsD [OF assms(1)] by (auto simp: csr_store_def bit_simps)
  then show "priv (mu_drop a h) = UMode" by (simp add: mu_drop_def do_mret_def mpp_of_def)
  show "pc (mu_drop a h) = a" using assms(2) by (simp add: mu_drop_def do_mret_def csr_store_def takes_def)
qed

text \<open>The hart once the vectors, the delegation and the PMP entry are set.\<close>

definition outfit :: "sg_syms \<Rightarrow> hart \<Rightarrow> hart" where
  "outfit y h = csr_store Pmpcfg0 31 (csr_store Pmpaddr0 (- 1) (csr_store Medeleg 4
     (csr_store Sscratch (g_regs y) (csr_store Stvec (g_strap y) (csr_store Mtvec (g_mtrap y) h)))))"

abbreviation (input) mh_hart :: "sg_syms \<Rightarrow> hart \<Rightarrow> bool" where
  "mh_hart y h \<equiv> skip_hart (g_strap y) (g_regs y) (g_mtrap y) h \<and> csrf h Mhartid = 0"

abbreviation (input) mh_stage :: "sg_syms \<Rightarrow> hart \<Rightarrow> nat \<Rightarrow> u64 list \<Rightarrow> gate \<Rightarrow> bool" where
  "mh_stage y h0 k vs s \<equiv> skips (g_strap y) (g_regs y) (g_mtrap y) (csrf h0 Mscratch) h0 (csrf h0 Mcounteren) k vs s"

lemma outfit_facts:
  assumes "mh_hart y h0"
  shows "deleg_hart 4 (g_strap y) (g_regs y) (outfit y h0)" "csrf (outfit y h0) Mtvec = g_mtrap y"
    "csrf (outfit y h0) Mscratch = csrf h0 Mscratch" "csrf (outfit y h0) Mcounteren = csrf h0 Mcounteren"
    "legal (outfit y h0) = legal h0" "clock (outfit y h0) = clock h0" "instret (outfit y h0) = instret h0" "retired (outfit y h0) = retired h0"
  using assms by (auto simp: outfit_def skip_hart_def deleg_hart_def takes_def keeps_bits_def pmp_everything_def)

lemma mhs_main_stage:
  assumes h: "mh_hart y (hw s)" and s: "sg_boot y s" and a: "code_addr (g_test y)"
  defines "t \<equiv> final (mhs_main y) s"
  shows "mh_stage y (hw s) 0 [0, 1, 1] t \<and> here SMode (g_test y) t \<and> t_regs t 3 = 0 \<and> m_regs t = m_regs s"
proof -
  note o = outfit_facts [OF h] and d = deleg_drops [OF outfit_facts(1) [OF h] a]
  have c: "same_config (outfit y (hw s)) (s_drop (g_test y) (outfit y (hw s)))" by simp
  show ?thesis
    using h s o d gate_hart_config [OF c o(1)] same_config_simps [OF c]
    by (simp add: t_def mhs_main_def hartid_baseline_def delegate_illegal_def open_pmp_def exec_assoc skips_run
        run_write_csrs [THEN exec_step] outfit_def skip_hart_def sg_boot_def booted_def takes_def cong: probe_cong)
qed

lemma mhu_main_stage:
  assumes h: "mh_hart y (hw s)" and s: "sg_boot y s" and a: "code_addr (g_test y)"
  defines "t \<equiv> final (mhu_main y) s"
  shows "mh_stage y (hw s) 0 [0, 1, 1] t \<and> here UMode (g_test y) t \<and> t_regs t 3 = 0 \<and> m_regs t 2 = 0 \<and> m_regs t 0 = 0 \<and>
    boot_deleg t = csrf (hw s) Medeleg"
proof -
  note o = outfit_facts [OF h]
  have d: "priv (mu_drop (g_test y) (outfit y (hw s))) = UMode" "pc (mu_drop (g_test y) (outfit y (hw s))) = g_test y"
    using mu_drop_mode [of "outfit y (hw s)"] o(1) a by (simp_all add: deleg_hart_def)
  have c: "same_config (outfit y (hw s)) (mu_drop (g_test y) (outfit y (hw s)))" by simp
  show ?thesis
    using h s o d gate_hart_config [OF c o(1)] same_config_simps [OF c]
    by (simp add: t_def mhu_main_def hartid_baseline_def delegate_illegal_def open_pmp_def exec_assoc skips_run run_mu_drop
        run_write_csrs [THEN exec_step] outfit_def skip_hart_def sg_boot_def booted_def takes_def cong: probe_cong)
qed

text \<open>From boot through the refused read of \<open>mhartid\<close>, in the mode the program drops to.\<close>

lemma mh_opening:
  assumes code: "well_placed code" "(g_main y, b) \<in> set code" "(g_test y, fault_start ps (q_v y) (site_a y)) \<in> set code"
      "(site_a y, rd_csr Mhartid (q_v y) (site_a y) insn) \<in> set code" "(g_strap y, skip_entry (g_regs y)) \<in> set code"
      "(site_a y + 4, fault_done title rdname ph cm 1 sj (q_v y) (site_a y) \<bind> (\<lambda>_. rest)) \<in> set code"
    and s: "mh_hart y (hw s)" "sg_boot y s" "pv \<noteq> MMode"
    and m: "mh_stage y (hw s) 0 [0, 1, 1] (final b s) \<and> here pv (g_test y) (final b s) \<and> t_regs (final b s) 3 = 0"
  shows "\<exists>s'. runs code s (final rest s') \<and> mh_stage y (hw s) 0 ([0, 1, 1] @ [1, 2, 1, 1, 1]) s' \<and> here pv (site_a y + 4) s' \<and>
    t_regs s' 3 = 1 \<and> t_regs s' 1 = insn \<and> m_regs s' = m_regs (final b s) \<and> boot_deleg s' = boot_deleg (final b s)"
proof -
  have st: "runs code s (final b s)" using boot_step [OF code(1) _ code(2)] s by (simp add: sg_boot_def skip_hart_def runs_one)
  have q: "q_v y \<notin> {0, xt1}" using s(2) by (simp add: sg_boot_def sg_regs_ok_def)
  have r: "final (rd_csr Mhartid (q_v y) (site_a y) insn) s' = s'\<lparr>hw := route 2 (site_a y) insn (hw s')\<rparr>"
    if "here pv (site_a y) s'" for s'
    by (rule refused_csr [OF that]) (use s(3) not_read in \<open>cases pv; simp\<close>)
  have n: "t_regs (final b s) 3 + 1 = 1" and m1: "mh_stage y (hw s) 0 [0, 1, 1] (final b s)" "here pv (g_test y) (final b s)" using m by simp_all
  from fault_phase [OF code(1,3,4,5,6) m1 n q s(3) r] obtain s' where "runs code (final b s) (final rest s')"
    "mh_stage y (hw s) 0 ([0, 1, 1] @ [1, 2, 1, 1, 1]) s'" "here pv (site_a y + 4) s'" "t_regs s' 3 = 1" "t_regs s' 1 = insn"
    "m_regs s' = m_regs (final b s)" "boot_deleg s' = boot_deleg (final b s)" by blast
  with st show ?thesis by (blast intro: runs_trans)
qed

text \<open>The control read in S-mode: \<open>sstatus\<close> never reads the sentinel, whose bit 0 it does not have.\<close>

lemma sstatus_not_sentinel: "csr_read Sstatus h \<noteq> U_SENTINEL"
proof
  assume "csr_read Sstatus h = U_SENTINEL"
  then have "bit (csr_read Sstatus h) 0 = bit U_SENTINEL 0" by simp
  then show False by (simp add: sstatus_mask_def bit_simps)
qed

lemma mhs_control_read:
  fixes insn :: u64
  assumes "mh_stage y h0 k vs s" "here SMode a s" "q \<noteq> 0"
  defines "t \<equiv> final (rd_csr Sstatus q a insn) s"
  shows "mh_stage y h0 (Suc k) vs t \<and> here SMode (a + 4) t \<and> reg_get q (hw t) = csr_read Sstatus (hw s) \<and> t_regs t = t_regs s \<and> m_regs t = m_regs s"
proof -
  let ?h = "(retire (reg_set q (csr_read Sstatus (hw s)) (hw s)))\<lparr>pc := a + 4\<rparr>"
  have t: "t = s\<lparr>hw := ?h\<rparr>" using assms(2) not_read(3) by (simp add: t_def final_def rd_csr_def here_def)
  have c: "same_config (hw s) ?h" by simp
  show ?thesis
    using assms(1-3) gate_hart_config [OF c] same_config_simps [OF c]
    by (simp add: t skips_def here_def del: csr_read.simps)
qed

lemma mhs_rest_stage:
  assumes "mh_stage y h0 k vs s" "here SMode a s"
  defines "t \<equiv> final (do { feed_stval; put_reg (q_0 y) U_SENTINEL; goto (site_1 y) }) s"
  shows "mh_stage y h0 k (vs @ [t_regs s 1]) t \<and> here SMode (site_1 y) t \<and> t_regs t = t_regs s \<and> m_regs t = m_regs s"
proof -
  let ?h = "(reg_set (q_0 y) U_SENTINEL (hw s))\<lparr>pc := site_1 y\<rparr>"
  have t: "t = s\<lparr>cksum := fnv64 (cksum s) (t_regs s 1), hw := ?h\<rparr>" by (simp add: t_def final_def gate_exec feed_stval_def exec_assoc)
  have c: "same_config (hw s) ?h" by simp
  show ?thesis
    using assms(1,2) gate_hart_config [OF c] same_config_simps [OF c] by (simp add: t skips_def here_def)
qed

lemma mhs_control_finish:
  assumes "mh_stage y h0 k vs s" "t_regs s 3 = 1" "m_regs s 2 = 0" "reg_get (q_0 y) (hw s) \<noteq> U_SENTINEL"
  defines "t \<equiv> final (mhs_control y) s"
  shows "parked t \<and> fails t = 0 \<and> finisher t = Some FINISHER_PASS \<and> cksum t = foldl fnv64 FNV_BASIS (vs @ [1, 1, 0])"
  using assms by (simp add: t_def mhs_control_def no_m_traps_def summary_def only_if_def exec_assoc skips_run cong: probe_cong)

lemma mhs_blocks:
  "(g_main y, mhs_main y) \<in> set (mhs_code y)" "(g_strap y, skip_entry (g_regs y)) \<in> set (mhs_code y)"
  "(g_test y, mhs_smode_test y) \<in> set (mhs_code y)"
  "(site_a y, rd_csr Mhartid (q_v y) (site_a y) (csrr_insn 0xF14 (q_v y))) \<in> set (mhs_code y)"
  "(site_a y + 4, mhs_fault_done y) \<in> set (mhs_code y)"
  "(site_1 y, rd_csr Sstatus (q_0 y) (site_1 y) (csrr_insn 0x100 (q_0 y))) \<in> set (mhs_code y)"
  "(site_1 y + 4, mhs_control y) \<in> set (mhs_code y)"
  by (simp_all add: mhs_code_def)

lemma mhs_passes:
  assumes code: "well_placed (mhs_code y)" and s: "mh_hart y (hw s)" "sg_boot y s"
  shows "passes_with (mhs_code y) (foldl fnv64 FNV_BASIS ((([0, 1, 1] @ [1, 2, 1, 1, 1]) @ [csrr_insn 0xF14 (q_v y)]) @ [1, 1, 0])) s"
proof -
  let ?c = "mhs_code y" and ?i = "csrr_insn 0xF14 (q_v y)"
  note m = mhs_main_stage [OF s placed_addr [OF code mhs_blocks(3)]]
  from mh_opening [OF code mhs_blocks(1) mhs_blocks(3) [unfolded mhs_smode_test_def] mhs_blocks(4,2)
      mhs_blocks(5) [unfolded mhs_fault_done_def] s, of SMode] m obtain s1 where
    s1: "runs ?c s (final (do { feed_stval; put_reg (q_0 y) U_SENTINEL; goto (site_1 y) }) s1)"
    "mh_stage y (hw s) 0 ([0, 1, 1] @ [1, 2, 1, 1, 1]) s1" "here SMode (site_a y + 4) s1" "t_regs s1 3 = 1" "t_regs s1 1 = ?i"
    "m_regs s1 = m_regs (final (mhs_main y) s)" by auto
  define s2 where "s2 = final (do { feed_stval; put_reg (q_0 y) U_SENTINEL; goto (site_1 y) }) s1"
  have s2: "mh_stage y (hw s) 0 (([0, 1, 1] @ [1, 2, 1, 1, 1]) @ [?i]) s2" "here SMode (site_1 y) s2" "t_regs s2 3 = 1" "m_regs s2 2 = 0"
    using mhs_rest_stage [OF s1(2,3)] s1(4-6) m s(2) by (simp_all add: s2_def sg_boot_def)
  define s3 where "s3 = final (rd_csr Sstatus (q_0 y) (site_1 y) (csrr_insn 0x100 (q_0 y))) s2"
  have q: "q_0 y \<noteq> 0" using s(2) by (simp add: sg_boot_def sg_regs_ok_def)
  note r = mhs_control_read [OF s2(1,2) q, of "csrr_insn 0x100 (q_0 y)", folded s3_def]
  have "runs ?c s (final (mhs_control y) s3)"
    using runs_trans [OF s1(1) [folded s2_def]] runs_trans [OF runs_one [OF skips_step [OF code s2(1,2) mhs_blocks(6), folded s3_def]]]
      runs_one [OF skips_step [OF code _ _ mhs_blocks(7)]] r by blast
  moreover from r have "mh_stage y (hw s) (Suc 0) (([0, 1, 1] @ [1, 2, 1, 1, 1]) @ [?i]) s3" "t_regs s3 3 = 1" "m_regs s3 2 = 0"
    "reg_get (q_0 y) (hw s3) \<noteq> U_SENTINEL" using s2(3,4) sstatus_not_sentinel by simp_all
  note mhs_control_finish [OF this]
  ultimately show ?thesis by (rule passes_withI)
qed

text \<open>The U-mode payload.\<close>

lemma mhu_rest_stage:
  assumes "mh_stage y h0 k vs s" "here UMode a s"
  defines "t \<equiv> final (do { feed_stval; goto (g_next y) }) s"
  shows "mh_stage y h0 k (vs @ [t_regs s 1]) t \<and> here UMode (g_next y) t \<and> t_regs t = t_regs s \<and> m_regs t = m_regs s \<and> boot_deleg t = boot_deleg s"
proof -
  let ?h = "(hw s)\<lparr>pc := g_next y\<rparr>"
  have t: "t = s\<lparr>cksum := fnv64 (cksum s) (t_regs s 1), hw := ?h\<rparr>" by (simp add: t_def final_def gate_exec feed_stval_def exec_assoc)
  have c: "same_config (hw s) ?h" by simp
  show ?thesis
    using assms(1,2) gate_hart_config [OF c] same_config_simps [OF c] by (simp add: t skips_def here_def)
qed

lemma mhu_close_stage:
  assumes "mh_stage y h0 k vs s" "here UMode a s" "m_regs s 2 = 0"
  defines "t \<equiv> final (mhu_close y) s"
  shows "mh_stage y h0 k (vs @ [t_regs s 1, 0]) t \<and> here UMode (site_e y) t \<and> m_regs t = (m_regs s)(1 := 1) \<and> boot_deleg t = boot_deleg s"
proof -
  have c: "same_config (hw s) ((hw s)\<lparr>pc := site_e y\<rparr>)" by simp
  show ?thesis
    using assms(1-3) gate_hart_config [OF c] same_config_simps [OF c]
    by (simp add: t_def mhu_close_def feed_stval_def no_m_traps_def summary_def exec_assoc skips_run cong: probe_cong)
qed

lemma mhu_exit:
  assumes "mh_stage y h0 k vs s" "csrf (hw s) Mcause = 8" "m_regs s 1 = 1" "takes h0 Medeleg (boot_deleg s)" "takes h0 Pmpcfg0 (m_regs s 0)"
  defines "t \<equiv> final mhu_mt_trap_entry s"
  shows "parked t \<and> fails t = 0 \<and> finisher t = Some FINISHER_PASS \<and> cksum t = foldl fnv64 FNV_BASIS vs \<and>
    csrf (hw t) Medeleg = boot_deleg s \<and> csrf (hw t) Pmpcfg0 = m_regs s 0"
  using assms by (simp add: t_def mhu_mt_trap_entry_def only_if_def skips_run takes_def cong: probe_cong)

lemma mhu_blocks:
  "(g_main y, mhu_main y) \<in> set (mhu_code y)" "(g_strap y, skip_entry (g_regs y)) \<in> set (mhu_code y)"
  "(g_test y, mhu_umode_test y) \<in> set (mhu_code y)"
  "(site_a y, rd_csr Mhartid (q_v y) (site_a y) (csrr_insn 0xF14 (q_v y))) \<in> set (mhu_code y)"
  "(site_a y + 4, mhu_fault_done y) \<in> set (mhu_code y)" "(g_next y, mhu_phase_b y) \<in> set (mhu_code y)"
  "(site_1 y, rd_csr Sstatus (q_0 y) (site_1 y) (csrr_insn 0x100 (q_0 y))) \<in> set (mhu_code y)"
  "(site_1 y + 4, mhu_control y) \<in> set (mhu_code y)" "(site_e y, ecall (site_e y)) \<in> set (mhu_code y)"
  "(g_mtrap y, mhu_mt_trap_entry) \<in> set (mhu_code y)"
  by (simp_all add: mhu_code_def)

lemma mhu_passes:
  assumes code: "well_placed (mhu_code y)" and s: "mh_hart y (hw s)" "sg_boot y s" "q_0 y \<noteq> xt1"
    and h: "takes (hw s) Medeleg (csrf (hw s) Medeleg)" "takes (hw s) Pmpcfg0 0"
  shows "\<exists>t. runs (mhu_code y) s t \<and> parked t \<and> fails t = 0 \<and> finisher t = Some FINISHER_PASS \<and>
    cksum t = foldl fnv64 FNV_BASIS ((((([0, 1, 1] @ [1, 2, 1, 1, 1]) @ [csrr_insn 0xF14 (q_v y)]) @ [2, 2, 1, 1, 1]) @
      [csrr_insn 0x100 (q_0 y), 0])) \<and>
    csrf (hw t) Medeleg = csrf (hw s) Medeleg \<and> csrf (hw t) Pmpcfg0 = csrf (hw s) Pmpcfg0"
proof -
  let ?c = "mhu_code y" and ?i = "csrr_insn 0xF14 (q_v y)" and ?j = "csrr_insn 0x100 (q_0 y)"
  let ?vs = "([0, 1, 1] @ [1, 2, 1, 1, 1]) @ [?i]"
  note m = mhu_main_stage [OF s(1,2) placed_addr [OF code mhu_blocks(3)]]
  from mh_opening [OF code mhu_blocks(1) mhu_blocks(3) [unfolded mhu_umode_test_def] mhu_blocks(4,2)
      mhu_blocks(5) [unfolded mhu_fault_done_def] s(1,2), of UMode] m obtain s1 where
    s1: "runs ?c s (final (do { feed_stval; goto (g_next y) }) s1)"
    "mh_stage y (hw s) 0 ([0, 1, 1] @ [1, 2, 1, 1, 1]) s1" "here UMode (site_a y + 4) s1" "t_regs s1 3 = 1" "t_regs s1 1 = ?i"
    "m_regs s1 2 = 0" "m_regs s1 0 = 0" "boot_deleg s1 = csrf (hw s) Medeleg" by auto
  define s2 where "s2 = final (do { feed_stval; goto (g_next y) }) s1"
  have s2: "mh_stage y (hw s) 0 ?vs s2" "here UMode (g_next y) s2" "t_regs s2 3 + 1 = 2" "m_regs s2 2 = 0" "m_regs s2 0 = 0"
    "boot_deleg s2 = csrf (hw s) Medeleg"
    using mhu_rest_stage [OF s1(2,3)] s1(4-8) by (simp_all add: s2_def)
  have q: "q_0 y \<notin> {0, xt1}" using s(2,3) by (simp add: sg_boot_def sg_regs_ok_def)
  from fault_phase [OF code mhu_blocks(6) [unfolded mhu_phase_b_def] mhu_blocks(7,2) mhu_blocks(8) [unfolded mhu_control_def]
      s2(1-3) q _ refused_csr [OF _ not_read(2)]] obtain s3 where
    s3: "runs ?c s2 (final (mhu_close y) s3)" "mh_stage y (hw s) 0 (?vs @ [2, 2, 1, 1, 1]) s3" "here UMode (site_1 y + 4) s3"
    "t_regs s3 1 = ?j" "m_regs s3 = m_regs s2" "boot_deleg s3 = boot_deleg s2" by auto
  define s4 where "s4 = final (mhu_close y) s3"
  have s4: "mh_stage y (hw s) 0 ((?vs @ [2, 2, 1, 1, 1]) @ [?j, 0]) s4" "here UMode (site_e y) s4" "m_regs s4 1 = 1" "m_regs s4 0 = 0"
    "boot_deleg s4 = csrf (hw s) Medeleg"
    using mhu_close_stage [OF s3(2,3)] s3(4-6) s2(4-6) by (simp_all add: s4_def)
  let ?s5 = "s4\<lparr>hw := trap_to_m 8 (site_e y) 0 (hw s4)\<rparr>"
  note e = skips_ecall [OF code mhu_blocks(9,10) s4(1,2), of 8, simplified]
  have c: "csrf (hw ?s5) Mcause = 8" by (simp add: trap_to_m_def)
  have r: "runs ?c s (final mhu_mt_trap_entry ?s5)" by (rule runs_trans [OF s1(1) [folded s2_def] runs_trans [OF s3(1) [folded s4_def] e(1)]])
  have z: "csrf (hw s) Pmpcfg0 = 0" using s(1) by (simp add: skip_hart_def)
  show ?thesis
    using r mhu_exit [of y "hw s" 0 _ ?s5, OF _ c] e(2) s4(3-5) h by (intro exI [of _ "final mhu_mt_trap_entry ?s5"]) (simp add: z)
qed


subsection \<open>Properties\<close>

text \<open>
  C33. Below M-mode \<open>mhartid\<close> cannot be read, and both experiments report so: on a hart that keeps the vectors, delegation and PMP
  values written, the S-mode program and the U-mode program end with the pass word and no failed check, with a checksum that
  depends on nothing but the encodings of the refused instructions. The U-mode program leaves \<open>medeleg\<close> and \<open>pmpcfg0\<close> as it found
  them.
\<close>

theorem hartid_reads_refused:
  assumes "skip_hart (g_strap y) (g_regs y) (g_mtrap y) (hw s)" "csrf (hw s) Mhartid = 0" "sg_boot y s" "q_0 y \<noteq> xt1"
    and "takes (hw s) Medeleg (csrf (hw s) Medeleg)" "takes (hw s) Pmpcfg0 0"
  shows "(well_placed (mhs_code y) \<longrightarrow>
      passes_with (mhs_code y) (foldl fnv64 FNV_BASIS [0, 1, 1, 1, 2, 1, 1, 1, csrr_insn 0xF14 (q_v y), 1, 1, 0]) s) \<and>
    (well_placed (mhu_code y) \<longrightarrow>
      (\<exists>t. runs (mhu_code y) s t \<and> mode_step (mhu_code y) t = None \<and> fails t = 0 \<and> finisher t = Some FINISHER_PASS \<and>
        cksum t = foldl fnv64 FNV_BASIS [0, 1, 1, 1, 2, 1, 1, 1, csrr_insn 0xF14 (q_v y), 2, 2, 1, 1, 1, csrr_insn 0x100 (q_0 y), 0] \<and>
        csrf (hw t) Medeleg = csrf (hw s) Medeleg \<and> csrf (hw t) Pmpcfg0 = csrf (hw s) Pmpcfg0))"
proof -
  have "well_placed (mhs_code y) \<Longrightarrow>
    passes_with (mhs_code y) (foldl fnv64 FNV_BASIS [0, 1, 1, 1, 2, 1, 1, 1, csrr_insn 0xF14 (q_v y), 1, 1, 0]) s"
    using mhs_passes [of y s] assms by (simp only: append.simps simp_thms)
  moreover have "\<exists>t. runs (mhu_code y) s t \<and> mode_step (mhu_code y) t = None \<and> fails t = 0 \<and> finisher t = Some FINISHER_PASS \<and>
        cksum t = foldl fnv64 FNV_BASIS [0, 1, 1, 1, 2, 1, 1, 1, csrr_insn 0xF14 (q_v y), 2, 2, 1, 1, 1, csrr_insn 0x100 (q_0 y), 0] \<and>
        csrf (hw t) Medeleg = csrf (hw s) Medeleg \<and> csrf (hw t) Pmpcfg0 = csrf (hw s) Pmpcfg0" if "well_placed (mhu_code y)"
    using mhu_passes [OF that _ assms(3-6)] assms(1,2) parked_stops unfolding append.simps by blast
  ultimately show ?thesis by blast
qed

text \<open>The published checksums, with the registers of the recorded builds: s1 in the one, s2 in the other.\<close>

lemma mh_checksums:
  "foldl fnv64 FNV_BASIS [0, 1, 1, 1, 2, 1, 1, 1, csrr_insn 0xF14 9, 1, 1, 0] = 0xc3067c713d5fdc59"
  "foldl fnv64 FNV_BASIS [0, 1, 1, 1, 2, 1, 1, 1, csrr_insn 0xF14 18, 2, 2, 1, 1, 1, csrr_insn 0x100 18, 0] = 0x4504320e66bc7b23"
  by code_simp+

lemma mh_example:
  defines "y \<equiv> sg_example\<lparr>q_v := 18, q_0 := 18, q_1 := 19\<rparr>" and "s \<equiv> gate_example 0x80000000 (\<lambda>c old v. v)"
  shows "well_placed (mhs_code sg_example)" "well_placed (mhu_code y)" "sg_boot y s" "skip_hart (g_strap y) (g_regs y) (g_mtrap y) (hw s)"
    "skip_hart (g_strap sg_example) (g_regs sg_example) (g_mtrap sg_example) (hw s)"
    "csrf (hw s) Mhartid = 0" "takes (hw s) Medeleg (csrf (hw s) Medeleg)" "takes (hw s) Pmpcfg0 0" "q_0 y \<noteq> xt1" "q_0 sg_example \<noteq> xt1"
    "q_v y = 18" "q_0 y = 18" "q_v sg_example = 9"
  by (simp_all add: y_def s_def well_placed_def code_addr_def mhs_code_def mhu_code_def sg_boot_def sg_regs_ok_def booted_def skip_hart_def
      keeps_bits_def takes_def gate_example_def gate_example_hart_def sg_example_def)

theorem hartid_reads_refused_witness:
  "passes_with (mhs_code sg_example) 0xc3067c713d5fdc59 (gate_example 0x80000000 (\<lambda>c old v. v)) \<and>
   (\<exists>t. runs (mhu_code (sg_example\<lparr>q_v := 18, q_0 := 18, q_1 := 19\<rparr>)) (gate_example 0x80000000 (\<lambda>c old v. v)) t \<and> cksum t = 0x4504320e66bc7b23)"
  using hartid_reads_refused [OF mh_example(5,6) sg_example_boot(1) mh_example(10,7,8)]
    hartid_reads_refused [OF mh_example(4,6,3,9,7,8)] mh_example(1,2) unfolding mh_example(11-13) mh_checksums by blast

end
