(* ===== verification/Verdict.thy ===== *)
theory Verdict
  imports Mtmu Mcyu Scount Mhart
begin

text \<open>
  What the counter-gate programs keep on any hart. \<open>quiet\<close> statements leave the finisher alone and the history in its array; an
  \<open>honest\<close> block keeps the history too, and writes the finisher only with the pass word, with no check failed, and then parks. A
  program whose blocks are all honest never reports a pass it has not earned and never stores outside its history, whatever the
  hart does.
\<close>

definition quiet :: "(unit gate_ext modes_ext, 'a) prog \<Rightarrow> bool" where
  "quiet p \<longleftrightarrow> (\<forall>s. finisher (snd (run_state p s)) = finisher s \<and> (hist_n s \<le> HIST_N \<longrightarrow> hist_n (snd (run_state p s)) \<le> HIST_N))"

definition earned :: "gate \<Rightarrow> bool" where
  "earned s \<longleftrightarrow> parked s \<and> fails s = 0 \<and> finisher s = Some FINISHER_PASS"

definition honest :: "(unit gate_ext modes_ext, 'a) prog \<Rightarrow> bool" where
  "honest p \<longleftrightarrow> (\<forall>s. finisher s = None \<longrightarrow> (finisher (snd (run_state p s)) = None \<or> earned (snd (run_state p s))) \<and>
     (hist_n s \<le> HIST_N \<longrightarrow> hist_n (snd (run_state p s)) \<le> HIST_N))"

lemma honestD:
  assumes "honest p" "finisher s = None"
  shows "finisher (final p s) = None \<or> earned (final p s)" "hist_n s \<le> HIST_N \<Longrightarrow> hist_n (final p s) \<le> HIST_N"
  using assms by (simp_all add: honest_def final_def)

named_theorems verdict_intros

lemma run_bind_snd: "snd (run_state (p \<bind> f) s) = snd (run_state (f (fst (run_state p s))) (snd (run_state p s)))"
  by (simp add: exec_step [OF surjective_pairing])

lemma quiet_bind [verdict_intros]: "quiet p \<Longrightarrow> (\<And>x. quiet (f x)) \<Longrightarrow> quiet (p \<bind> f)"
  by (simp add: quiet_def run_bind_snd)

lemma honest_bind [verdict_intros]: "quiet p \<Longrightarrow> (\<And>x. honest (f x)) \<Longrightarrow> honest (p \<bind> f)"
  by (simp add: quiet_def honest_def run_bind_snd)

lemma quiet_honest: "quiet p \<Longrightarrow> honest p"
  by (simp add: quiet_def honest_def)

lemma verdict_if [verdict_intros]:
  "quiet p \<Longrightarrow> quiet q \<Longrightarrow> quiet (if b then p else q)" "honest u \<Longrightarrow> honest w \<Longrightarrow> honest (if b then u else w)"
  by simp_all

lemma quiet_modify: "(\<And>s. finisher (g s) = finisher s \<and> hist_n (g s) = hist_n s) \<Longrightarrow> quiet (modify g)"
  by (simp add: quiet_def)

lemma quiet_basic [verdict_intros]:
  "quiet (puts ps)" "quiet (on_hart g)" "quiet (gets f)" "quiet (csrr c)" "quiet (csrw c v)" "quiet get_fails" "quiet park"
  "quiet (goto a)" "quiet (check_feed b m v)" "quiet (print_trap i tg)" "quiet (m_gate_readback l w)" "quiet (drop_to_smode a)"
  "quiet (drop_to_umode a)" "quiet (csrs c v)" "quiet (get_reg r)" "quiet (put_reg r v)" "quiet sret"
  "quiet (State_Monad.return x)" "quiet (resume_at a)" "quiet record_trap" "quiet (rd_counter k r a insn)" "quiet (ecall a)" "quiet (nops n)"
  by (simp_all add: quiet_def checked_def record_trap_def rd_counter_def ecall_def nops_def)

lemma quiet_print_hist [verdict_intros]: "quiet (print_hist i k)"
  by (induction k arbitrary: i) (auto intro: verdict_intros)

lemma quiet_helpers [verdict_intros]:
  "quiet (m_restore c v l m)" "quiet (m_arm ph m a)" "quiet (set_vectors a b c')" "quiet open_pmp" "quiet set_delegation"
  "quiet (m_scounteren m)" "quiet (s_gate_readback l w)"
  by (auto simp: m_restore_def m_arm_def set_vectors_def open_pmp_def set_delegation_def m_scounteren_def s_gate_readback_def
      intro!: verdict_intros quiet_modify)

lemma honest_verdict [verdict_intros]: "honest gate_verdict"
  by (auto simp: honest_def earned_def gate_verdict_def gate_exec only_if_def)

lemmas honest_quiet [verdict_intros] = quiet_basic [THEN quiet_honest] quiet_helpers [THEN quiet_honest]

lemma quiet_entries [verdict_intros]:
  "quiet handle \<Longrightarrow> quiet (s_trap_entry regs left handle)"
  by (auto simp: s_trap_entry_def intro!: verdict_intros quiet_modify)

lemma honest_entries [verdict_intros]:
  "honest q \<Longrightarrow> honest (m_trap_entry q)" "honest q \<Longrightarrow> honest (mcyu_mt_trap_entry q)"
  by (auto simp: m_trap_entry_def mcyu_mt_trap_entry_def intro!: verdict_intros quiet_modify)

lemma honest_payloads:
  "(a, b) \<in> set (read_blocks c p i j sig late) \<Longrightarrow> honest b" "(a, b) \<in> set (straight_blocks c p i j sig) \<Longrightarrow> honest b"
  "(a, b) \<in> set (gated_blocks c e site esite i sig) \<Longrightarrow> honest b"
  by (auto simp: read_blocks_def straight_blocks_def gated_blocks_def intro!: verdict_intros quiet_honest)

text \<open>Programs made of honest blocks.\<close>

locale honest_program =
  fixes code :: "(u64 \<times> gprog) list"
  assumes all_honest: "(a, b) \<in> set code \<Longrightarrow> honest b"
begin

lemma step_honest:
  assumes "mode_step code s = Some t" "finisher s = None"
  shows "finisher t = None \<or> earned t" "hist_n s \<le> HIST_N \<Longrightarrow> hist_n t \<le> HIST_N"
proof -
  have "t = s\<lparr>hw := route 1 (pc (hw s)) (pc (hw s)) (hw s)\<rparr> \<or> (\<exists>b. (pc (hw s), b) \<in> set code \<and> t = final b s)"
    using assms by (auto simp: mode_step_def Let_def dest: map_of_SomeD split: if_splits option.splits)
  then show "finisher t = None \<or> earned t" "hist_n s \<le> HIST_N \<Longrightarrow> hist_n t \<le> HIST_N"
    using honestD [OF all_honest assms(2)] assms(2) by auto
qed

lemma sound: "runs code s t \<Longrightarrow> finisher s = None \<Longrightarrow>
    (finisher t = None \<or> earned t) \<and> (hist_n s \<le> HIST_N \<longrightarrow> hist_n t \<le> HIST_N)"
proof (induction rule: runs.induct)
  case (runs_step s t u)
  note st = step_honest [OF runs_step.hyps(1) runs_step.prems]
  show ?case
  proof (cases "finisher t")
    case None
    with runs_step.IH st(2) show ?thesis by blast
  next
    case Some
    with st(1) have "earned t" by simp
    with runs_step.hyps(2) have "u = t" by (auto elim: runs.cases simp: earned_def parked_stops)
    with \<open>earned t\<close> st(2) show ?thesis by simp
  qed
qed simp

end

interpretation mtmu_v: honest_program "mtmu_code y" for y
proof unfold_locales
  fix a b assume "(a, b) \<in> set (mtmu_code y)"
  then show "honest b"
    by (auto simp: mtmu_code_def mtmu_main_def mtmu_boot_gates_def mtmu_delegate_def mtmu_handle_def mtmu_m_handle_def
        mtmu_smode_test_def mtmu_phase_a_done_def mtmu_phase_b_start_def mtmu_phase_b_done_def mtmu_phase_c_start_def
        mtmu_phase_c_done_def mtmu_unexpected_def Let_def dest: honest_payloads
        intro!: verdict_intros quiet_modify intro: quiet_honest)
qed

interpretation mcyu_v: honest_program "mcyu_code y" for y
proof unfold_locales
  fix a b assume "(a, b) \<in> set (mcyu_code y)"
  then show "honest b"
    by (auto simp: mcyu_code_def mcyu_main_def mcyu_gates_def mcyu_handle_def mcyu_m_handle_def mcyu_smode_test_def
        mcyu_phase_a_done_def mcyu_phase_b_start_def mcyu_phase_b_done_def mcyu_unexpected_def Let_def dest: honest_payloads
        intro!: verdict_intros quiet_modify intro: quiet_honest)
qed

interpretation sc_v: honest_program "sc_code p y" for p y
proof unfold_locales
  fix a b assume "(a, b) \<in> set (sc_code p y)"
  then show "honest b"
    by (auto simp: sc_code_def sc_main_def sc_gates_def sc_handle_def sc_smode_test_def sc_phase_a_done_def sc_phase_b_done_def
        sc_unexpected_def sc_payload_b_def Let_def dest: honest_payloads split: if_splits
        intro!: verdict_intros quiet_modify intro: quiet_honest)
qed

text \<open>The S-mode gate experiments.\<close>

lemma quiet_write_csrs [verdict_intros]: "quiet (write_csrs ws)"
  by (induction ws rule: write_csrs.induct) (auto intro: verdict_intros)

lemma quiet_mret [verdict_intros]: "quiet mret"
  by (simp add: quiet_def)

lemma quiet_skip [verdict_intros]:
  "quiet (skip_entry regs)" "quiet (fault_start ps q a)" "quiet (fault_done title rdname ph cm n sj q a)" "quiet (pause k a)"
  "quiet delegate_illegal" "quiet (close_gate l v msg)"
  by (auto simp: skip_entry_def fault_start_def fault_done_def skip_report_def fault_checks_def pause_def delegate_illegal_def
      close_gate_def intro!: verdict_intros quiet_modify)

lemma honest_sg_main [verdict_intros]: "honest (sg_main banner l gv msg ws ready a)"
  by (auto simp: sg_main_def intro!: verdict_intros)

lemmas honest_skip [verdict_intros] = quiet_skip [THEN quiet_honest] quiet_mret [THEN quiet_honest]

interpretation mcg_v: honest_program "mcg_code y" for y
proof unfold_locales
  fix a b assume "(a, b) \<in> set (mcg_code y)"
  then show "honest b"
    by (auto simp: mcg_code_def mcg_main_def mcg_mtrap_entry_def mcg_smode_test_def mcg_fault_done_def mcg_ecall_done_def mcg_samples_def
        intro!: verdict_intros quiet_modify intro: quiet_honest)
qed

interpretation mtg_v: honest_program "mtg_code y" for y
proof unfold_locales
  fix a b assume "(a, b) \<in> set (mtg_code y)"
  then show "honest b"
    by (auto simp: mtg_code_def mtg_main_def mtg_smode_test_def mtg_fault_done_def mtg_samples_def
        intro!: verdict_intros quiet_modify intro: quiet_honest)
qed

interpretation mir_v: honest_program "mir_code y" for y
proof unfold_locales
  fix a b assume "(a, b) \<in> set (mir_code y)"
  then show "honest b"
    by (auto simp: mir_code_def mir_main_def mir_mtrap_entry_def mir_smode_phase_a_def mir_fault_done_def mir_ungated_def
        mir_smode_phase_b_def mir_delay_def mir_samples_def intro!: verdict_intros quiet_modify intro: quiet_honest)
qed

interpretation st_v: honest_program "st_code y" for y
proof unfold_locales
  fix a b assume "(a, b) \<in> set (st_code y)"
  then show "honest b"
    by (auto simp: st_code_def st_main_def mt_trap_entry_def st_smode_test_def st_fault_done_def st_ecall_done_def st_samples_def
        intro!: verdict_intros quiet_modify intro: quiet_honest)
qed

text \<open>
  The S-mode read of \<open>mhartid\<close>. The U-mode one is not of this kind: its M-mode entry trusts \<open>mhu_result\<close>, which the payload wrote.
\<close>

lemma honest_final [verdict_intros]: "honest (get_fails \<bind> (\<lambda>f. only_if (f = 0) (finish FINISHER_PASS) \<bind> (\<lambda>_. park)))"
  by (auto simp: honest_def earned_def gate_exec only_if_def)

lemma quiet_mh [verdict_intros]:
  "quiet (rd_csr c q a insn)" "quiet hartid_baseline" "quiet feed_stval" "quiet no_m_traps" "quiet (summary n)" "quiet count_and_park"
  by (auto simp: hartid_baseline_def feed_stval_def no_m_traps_def summary_def count_and_park_def intro!: verdict_intros quiet_modify)
    (simp_all add: quiet_def rd_csr_def)

interpretation mhs_v: honest_program "mhs_code y" for y
proof unfold_locales
  fix a b assume "(a, b) \<in> set (mhs_code y)"
  then show "honest b"
    by (auto simp: mhs_code_def mhs_main_def mhs_smode_test_def mhs_fault_done_def mhs_control_def
        intro!: verdict_intros quiet_modify intro: quiet_honest)
qed

text \<open>
  C30. No false pass. In every run of the nine counter-gate programs and the S-mode read of \<open>mhartid\<close>, on any hart whatever its counters, gates, traps and
  WARL behaviour, and from any state in which the test finisher is not yet written: if the finisher is ever written, the word is
  the pass word, no check has failed, and the hart is parked.
\<close>

theorem no_false_pass:
  assumes "code \<in> {mtmu_code y1, mcyu_code y2, sc_code p y3, mcg_code y, mtg_code y, mir_code y, st_code y, mhs_code y}"
    "runs code s t" "finisher s = None" "finisher t \<noteq> None"
  shows "finisher t = Some FINISHER_PASS \<and> fails t = 0 \<and> parked t"
  using assms mtmu_v.sound [of _ s t] mcyu_v.sound [of _ s t] sc_v.sound [of _ _ s t] mcg_v.sound [of _ s t] mtg_v.sound [of _ s t]
    mir_v.sound [of _ s t] st_v.sound [of _ s t] mhs_v.sound [of _ s t] by (auto simp: earned_def)

theorem no_false_pass_witness:
  "\<exists>t. runs (sc_code scir sc_example_syms) (gate_example 0x80000000 (\<lambda>c old v. v)) t \<and> finisher t = Some FINISHER_PASS \<and> fails t = 0"
proof -
  let ?s = "gate_example 0x80000000 (\<lambda>c old v. v)"
  from scir.passes [OF sc_example_placed sc_example_boot] obtain t where
    t: "runs (sc_code scir sc_example_syms) ?s t" "finisher t = Some FINISHER_PASS" by blast
  have "finisher ?s = None" by (simp add: gate_example_def)
  from no_false_pass [of "sc_code scir sc_example_syms" _ _ scir sc_example_syms, OF _ t(1) this] t show ?thesis by auto
qed



end
