(* ===== verification/Menvcfg.thy ===== *)
theory Menvcfg
  imports Modes
begin

text \<open>
  Write/readback probes of a field of an M-mode register: \<open>src/src/menvcfg-cbze-write\<close> (\<open>mcw\<close>), \<open>menvcfg-cbie-write\<close> (\<open>cbie\<close>),
  \<open>menvcfg-stce-write\<close> (\<open>msw\<close>), \<open>menvcfg-pbmte-write\<close> (\<open>mpw\<close>) and \<open>mstatus-mprv-readback\<close> (\<open>mprv\<close>). Each writes the field with
  the other bits held, reads back, restores the boot value and prints a checksum of what it read. The checksum is a local value here, since only
  \<open>main\<close> touches it. No instruction of these programs can trap in M-mode, so their common trap entry, which
  records and parks the hart, is never entered.

  The theorem decides the verdicts on the harts whose register has a mask of writable bits, the other bits being read-only.
\<close>

unbundle bit_operations_syntax


subsection \<open>Shared statements\<close>

abbreviation (input) CKS_BASIS :: u64 where "CKS_BASIS \<equiv> 1469598103934665603"

definition rule_off :: string where
  "rule_off = ''========================================\<newline>''"

text \<open>A value to \<open>menvcfg\<close> and back, printed as a pair.\<close>

definition menv_readback :: "string \<Rightarrow> u64 \<Rightarrow> ('x, u64) prog" where
  "menv_readback label w = do {
     csrw Menvcfg w;
     rb \<leftarrow> csrr Menvcfg;
     puts [Str label, Hex w, Str '' readback='', Hex rb, Str ''\<newline>''];
     State_Monad.return rb }"

text \<open>The all-ones probe: two writes, both readbacks printed.\<close>

definition warl_twice :: "('x, u64 \<times> u64) prog" where
  "warl_twice = do {
     csrw Menvcfg (- 1);
     warl1 \<leftarrow> csrr Menvcfg;
     csrw Menvcfg (- 1);
     warl2 \<leftarrow> csrr Menvcfg;
     puts [Str ''warl: write all-ones; legalized readback (1st)='', Hex warl1,
       Str ''\<newline>warl: write all-ones; legalized readback (2nd)='', Hex warl2, Str ''\<newline>''];
     State_Monad.return (warl1, warl2) }"

definition warl_checks :: "u64 \<Rightarrow> u64 \<times> u64 \<Rightarrow> ('x, unit) prog" where
  "warl_checks boot ws = do {
     check_n (fst ws AND boot = boot) ''WARL probe: bits set at boot vanished under all-ones write'';
     check_n (snd ws = fst ws) ''WARL probe: all-ones legalization not stable across two writes'' }"

text \<open>The trap count and the verdict.\<close>

definition field_verdict :: "string \<Rightarrow> ('x, unit) prog" where
  "field_verdict line = do {
     traps \<leftarrow> get_save 4;
     puts [Str ''traps recorded by the handler: '', Dec traps, Str ''\<newline>''];
     check_n (traps = 0) ''unexpected trap fired during the run'';
     n \<leftarrow> get_nchecks; f \<leftarrow> get_fails;
     puts [Str line, Str ''\<newline>'', Str ''checks: '', Dec (of_nat n), Str ''  mismatches: '', Dec (of_nat f), Str ''\<newline>''];
     puts [Str (if f = 0 then ''RESULT: PASS\<newline>'' else ''RESULT: FAIL\<newline>'')];
     only_if (f = 0) (finish 0x5555) }"

definition pairs_sum :: "u64 list \<Rightarrow> string" where
  "pairs_sum vs = ''\<newline>checksum (FNV-1a over the write/readback pairs) = '' @ hex64 (foldl fnv64 CKS_BASIS vs)"

text \<open>The trap entry of all five: any trap is recorded, counted, and ends the run.\<close>

definition field_trap_entry :: "('y modes_ext, unit) prog" where
  "field_trap_entry = do {
     t1 \<leftarrow> get_reg xt1; put_save 0 t1;
     c \<leftarrow> csrr Mcause; put_save 1 c;
     e \<leftarrow> csrr Mepc; put_save 2 e;
     v \<leftarrow> csrr Mtval; put_save 3 v;
     n \<leftarrow> get_save 4; put_save 4 (n + 1);
     park }"


subsection \<open>menvcfg-cbze-write and menvcfg-cbie-write\<close>

text \<open>The two programs differ in the name and the place of their two-bit field.\<close>

record field_text =
  f_name :: string
  f_lower :: string
  f_bits :: string
  f_shift :: nat

definition mcw :: field_text where
  "mcw = \<lparr>f_name = ''CBZE'', f_lower = ''cbze'', f_bits = ''7:6'', f_shift = 6\<rparr>"

definition cbie :: field_text where
  "cbie = \<lparr>f_name = ''CBIE'', f_lower = ''cbie'', f_bits = ''5:4'', f_shift = 4\<rparr>"

definition f_mask :: "field_text \<Rightarrow> u64" where
  "f_mask p = push_bit (f_shift p) 3"

text \<open>One round of the loop over the values 1, 2 and 3, whose messages are written out in the source.\<close>

definition stick_msg :: "field_text \<Rightarrow> nat \<Rightarrow> string" where
  "stick_msg p v = f_name p @ (if v = 1 then ''=1'' else if v = 2 then ''=2'' else ''=3'') @
     '' probe: readback != write (field did not stick exactly, or other bits changed)''"

definition field_round :: "field_text \<Rightarrow> u64 \<Rightarrow> nat \<Rightarrow> ('x, u64) prog" where
  "field_round p base v = do {
     let w = base OR push_bit (f_shift p) (of_nat v);
     csrw Menvcfg w;
     rb \<leftarrow> csrr Menvcfg;
     puts [Str (f_lower p @ ''=''), Dec (of_nat v), Str '': write='', Hex w, Str '' readback='', Hex rb, Str ''\<newline>''];
     check_n (rb = w) (stick_msg p v);
     State_Monad.return rb }"

definition field_main :: "field_text \<Rightarrow> u64 \<Rightarrow> ('x, unit) prog" where
  "field_main p tvec = do {
     puts [Str ''\<newline>'', Str rule_off, Str (''menvcfg.'' @ f_name p @ '' (bits '' @ f_bits p @ '') write/readback WARL probe\<newline>''), Str rule_off, Str ''\<newline>''];
     csrw Mtvec tvec;
     boot \<leftarrow> csrr Menvcfg;
     puts [Str ''boot: menvcfg='', Hex boot, Str ('' '' @ f_name p @ ''(bits'' @ f_bits p @ '')=''), Dec (drop_bit (f_shift p) boot AND 3), Str ''\<newline>''];
     let base = boot AND NOT (f_mask p);
     rb1 \<leftarrow> field_round p base 1;
     rb2 \<leftarrow> field_round p base 2;
     rb3 \<leftarrow> field_round p base 3;
     rb0 \<leftarrow> menv_readback (f_lower p @ ''=0: write='') base;
     check_n (rb0 = base) (f_name p @ ''=0 probe: readback != write (field did not clear exactly, or other bits changed)'');
     ws \<leftarrow> warl_twice;
     check_n (fst ws AND f_mask p = f_mask p) (''WARL probe: '' @ f_name p @ '' field did not read back all-set on all-ones write'');
     warl_checks boot ws;
     rst \<leftarrow> menv_readback ''restore: write boot='' boot;
     check_n (rst = boot) ''restore: menvcfg did not read back the boot value exactly'';
     field_verdict (pairs_sum [boot, rb1, rb2, rb3, rb0, fst ws, snd ws, rst]) }"

definition mcw_main :: "u64 \<Rightarrow> ('x, unit) prog" where
  "mcw_main tvec = field_main mcw tvec"

definition cbie_main :: "u64 \<Rightarrow> ('x, unit) prog" where
  "cbie_main tvec = field_main cbie tvec"


subsection \<open>menvcfg-stce-write\<close>

abbreviation (input) MENVCFG_STCE :: u64 where "MENVCFG_STCE \<equiv> push_bit 63 1"

definition msw_main :: "u64 \<Rightarrow> ('x, unit) prog" where
  "msw_main tvec = do {
     puts [Str ''\<newline>'', Str rule_off, Str ''menvcfg.STCE write/readback: set, clear, WARL legalize\<newline>'', Str rule_off, Str ''\<newline>''];
     csrw Mtvec tvec;
     boot \<leftarrow> csrr Menvcfg;
     puts [Str ''boot: menvcfg='', Hex boot, Str '' STCE(bit63)='', Dec (drop_bit 63 boot AND 1), Str ''\<newline>''];
     let set_w = boot OR MENVCFG_STCE;
     set_rb \<leftarrow> menv_readback ''set: write boot|STCE='' set_w;
     check_n (set_rb = set_w) ''STCE set probe: readback != write (bit did not stick exactly, or other bits changed)'';
     let clr_w = boot AND NOT MENVCFG_STCE;
     clr_rb \<leftarrow> menv_readback ''clear: write boot&~STCE='' clr_w;
     check_n (clr_rb = clr_w) ''STCE clear probe: readback != write (bit did not clear exactly, or other bits changed)'';
     ws \<leftarrow> warl_twice;
     check_n (fst ws AND MENVCFG_STCE \<noteq> 0) ''WARL probe: STCE bit did not read back set on all-ones write'';
     warl_checks boot ws;
     rst \<leftarrow> menv_readback ''restore: write boot='' boot;
     check_n (rst = boot) ''restore: menvcfg did not read back the boot value'';
     field_verdict (pairs_sum [boot, set_rb, clr_rb, fst ws, snd ws, rst]) }"


subsection \<open>menvcfg-pbmte-write\<close>

abbreviation (input) MENVCFG_PBMTE :: u64 where "MENVCFG_PBMTE \<equiv> push_bit 62 1"

text \<open>This program expects that the bit may be missing, and then only asks that the others stay.\<close>

definition mpw_main :: "u64 \<Rightarrow> ('x, unit) prog" where
  "mpw_main tvec = do {
     puts [Str ''\<newline>'', Str rule_off, Str ''menvcfg.PBMTE write/readback: set, clear, WARL legalize\<newline>'', Str rule_off, Str ''\<newline>''];
     csrw Mtvec tvec;
     boot \<leftarrow> csrr Menvcfg;
     puts [Str ''boot: menvcfg='', Hex boot, Str '' PBMTE(bit62)='', Dec (drop_bit 62 boot AND 1), Str ''\<newline>''];
     let set_w = boot OR MENVCFG_PBMTE;
     csrw Menvcfg set_w;
     set_rb \<leftarrow> csrr Menvcfg;
     let pbmte_stuck = (set_rb AND MENVCFG_PBMTE \<noteq> 0);
     puts [Str ''set: write boot|PBMTE='', Hex set_w, Str '' readback='', Hex set_rb, Str '' PBMTE(bit62)='', Dec (drop_bit 62 set_rb AND 1), Str ''\<newline>''];
     check_n (set_rb AND NOT MENVCFG_PBMTE = set_w AND NOT MENVCFG_PBMTE) ''PBMTE set probe: bits other than bit 62 changed under the write'';
     let clr_w = boot AND NOT MENVCFG_PBMTE;
     clr_rb \<leftarrow> menv_readback ''clear: write boot&~PBMTE='' clr_w;
     check_n (clr_rb = clr_w) ''PBMTE clear probe: readback != write (boot value not restored exactly)'';
     ws \<leftarrow> warl_twice;
     (if pbmte_stuck then check_n (fst ws AND MENVCFG_PBMTE \<noteq> 0) ''WARL probe: PBMTE bit did not read back set on all-ones write''
      else puts [Str ''  note: PBMTE not implemented on this hart (set probe did not stick); survival skipped\<newline>'']);
     warl_checks boot ws;
     rst \<leftarrow> menv_readback ''restore: write boot='' boot;
     check_n (rst = boot) ''restore: menvcfg did not read back the boot value'';
     field_verdict (pairs_sum [boot, set_rb, clr_rb, fst ws, snd ws, rst]) }"


subsection \<open>mstatus-mprv-readback\<close>

abbreviation (input) MSTATUS_MPRV :: u64 where "MSTATUS_MPRV \<equiv> push_bit 17 1"

definition mprv_probes :: "u64 \<Rightarrow> ('x, u64 \<times> u64) prog" where
  "mprv_probes m = do {
     csrs Mstatus m;
     set_rb \<leftarrow> csrr Mstatus;
     csrc Mstatus m;
     clr_rb \<leftarrow> csrr Mstatus;
     State_Monad.return (set_rb, clr_rb) }"

definition mprv_main :: "u64 \<Rightarrow> ('x, unit) prog" where
  "mprv_main tvec = do {
     puts [Str ''\<newline>'', Str rule_off, Str ''mstatus.MPRV write/readback: set via csrs, clear via csrc\<newline>'', Str rule_off, Str ''\<newline>''];
     csrw Mtvec tvec;
     boot \<leftarrow> csrr Mstatus;
     puts [Str ''boot: mstatus='', Hex boot, Str '' MPRV(bit17)='', Dec (drop_bit 17 boot AND 1),
       Str '' MPP(bits12:11)='', Dec (drop_bit 11 boot AND 3), Str ''\<newline>''];
     rbs \<leftarrow> mprv_probes MSTATUS_MPRV;
     puts [Str ''set: csrs mstatus, bit17; readback='', Hex (fst rbs), Str ''\<newline>''];
     check_n (fst rbs AND MSTATUS_MPRV \<noteq> 0) ''MPRV set probe: bit 17 not set in the readback'';
     check_n (fst rbs = boot OR MSTATUS_MPRV) ''MPRV set probe: readback != boot|MPRV (unexpected bits changed alongside bit 17)'';
     puts [Str ''clear: csrc mstatus, bit17; readback='', Hex (snd rbs), Str ''\<newline>''];
     check_n (snd rbs = boot) ''MPRV clear probe: readback != boot mstatus (bit did not clear exactly, or other bits changed)'';
     post \<leftarrow> csrr Mstatus;
     puts [Str ''restore: mstatus='', Hex post, Str '' (boot was '', Hex boot, Str '')\<newline>''];
     check_n (post = boot) ''restore: mstatus did not read back the boot value after the probes'';
     field_verdict (text_of [Str ''\<newline>checksum (FNV-1a over the readback values) = '',
       Hex (foldl fnv64 CKS_BASIS [boot, fst rbs, snd rbs, post])]) }"


subsection \<open>Verdicts\<close>

text \<open>What each program asks of its hart, with \<open>L\<close> what the register keeps of a write and \<open>b\<close> its boot value.\<close>

definition restores :: "(u64 \<Rightarrow> u64 \<Rightarrow> u64) \<Rightarrow> u64 \<Rightarrow> u64 \<Rightarrow> bool" where
  "restores L b c \<longleftrightarrow> (let o1 = L c (- 1) in o1 AND b = b \<and> L o1 (- 1) = o1 \<and> L o1 b = b)"

definition takes_in_turn :: "(u64 \<Rightarrow> u64 \<Rightarrow> u64) \<Rightarrow> u64 \<Rightarrow> u64 list \<Rightarrow> bool" where
  "takes_in_turn L b vs \<longleftrightarrow> list_all2 (\<lambda>old v. L old v = v) (butlast (b # vs)) vs"

lemma csrs_runs [simp]:
  "run_state (csrs c v) s = ((), s\<lparr>hw := csr_write c (csr_read c (hw s) OR v) (hw s)\<rparr>)"
  "run_state (csrc c v) s = ((), s\<lparr>hw := csr_write c (csr_read c (hw s) AND NOT v) (hw s)\<rparr>)"
  by (simp_all add: csrs_def csrc_def on_hart_def)

lemmas field_run = probe_run exec_assoc csrs_runs [THEN exec_step] Let_def menv_readback_def warl_twice_def warl_checks_def field_verdict_def

lemma field_main_verdict:
  assumes "finisher s = None"
  shows "finisher (final (field_main p e) s) =
    (if fails s = 0 \<and> save s 4 = 0 \<and>
        (let L = legal (hw s) Menvcfg; b = csrf (hw s) Menvcfg; c = b AND NOT (f_mask p); v = (\<lambda>n. c OR push_bit (f_shift p) n) in
         takes_in_turn L b [v 1, v 2, v 3, c] \<and> L c (- 1) AND f_mask p = f_mask p \<and> restores L b c)
     then Some 0x5555 else None)"
  using assms
  by (cases s) (simp add: field_run field_main_def field_round_def takes_in_turn_def restores_def cong: probe_cong, auto)

lemma msw_verdict:
  assumes "finisher s = None"
  shows "finisher (final (msw_main e) s) =
    (if fails s = 0 \<and> save s 4 = 0 \<and>
        (let L = legal (hw s) Menvcfg; b = csrf (hw s) Menvcfg; c = b AND NOT MENVCFG_STCE in
         takes_in_turn L b [b OR MENVCFG_STCE, c] \<and> L c (- 1) AND MENVCFG_STCE \<noteq> 0 \<and> restores L b c)
     then Some 0x5555 else None)"
  using assms by (cases s) (simp add: field_run msw_main_def takes_in_turn_def restores_def cong: probe_cong, auto)

lemma mpw_verdict:
  assumes "finisher s = None"
  shows "finisher (final (mpw_main e) s) =
    (if fails s = 0 \<and> save s 4 = 0 \<and>
        (let L = legal (hw s) Menvcfg; b = csrf (hw s) Menvcfg; c = b AND NOT MENVCFG_PBMTE; r = L b (b OR MENVCFG_PBMTE) in
         r AND NOT MENVCFG_PBMTE = (b OR MENVCFG_PBMTE) AND NOT MENVCFG_PBMTE \<and> L r c = c \<and>
         (r AND MENVCFG_PBMTE \<noteq> 0 \<longrightarrow> L c (- 1) AND MENVCFG_PBMTE \<noteq> 0) \<and> restores L b c)
     then Some 0x5555 else None)"
proof (cases "legal (hw s) Menvcfg (csrf (hw s) Menvcfg) (csrf (hw s) Menvcfg OR MENVCFG_PBMTE) AND MENVCFG_PBMTE = 0")
  case True
  with assms show ?thesis by (cases s) (simp add: field_run mpw_main_def restores_def cong: probe_cong, auto)
next
  case False
  with assms show ?thesis by (cases s) (simp add: field_run mpw_main_def restores_def cong: probe_cong, auto)
qed

lemma mprv_verdict:
  assumes "finisher s = None"
  shows "finisher (final (mprv_main e) s) =
    (if fails s = 0 \<and> save s 4 = 0 \<and>
        (let L = legal (hw s) Mstatus; b = csrf (hw s) Mstatus; r = L b (b OR MSTATUS_MPRV) in
         r AND MSTATUS_MPRV \<noteq> 0 \<and> r = b OR MSTATUS_MPRV \<and> L r (r AND NOT MSTATUS_MPRV) = b)
     then Some 0x5555 else None)"
  using assms by (cases s) (simp add: field_run mprv_main_def mprv_probes_def cong: probe_cong, auto)

text \<open>A trap is fatal: the entry parks, and a run with a counted trap does not pass.\<close>

lemma field_trap_fatal:
  "parked (final field_trap_entry s) \<and> save (final field_trap_entry s) 4 = save s 4 + 1 \<and> save (final field_trap_entry s) 1 = csrf (hw s) Mcause \<and>
   finisher (final field_trap_entry s) = finisher s"
proof -
  have "run_state (get_reg xt1) s = (reg_get xt1 (hw s), s)" "\<And>s. run_state park s = ((), s\<lparr>parked := True\<rparr>)" by (simp_all add: get_reg_def park_def)
  then show ?thesis by (simp add: field_trap_entry_def final_def exec_basic exec_step)
qed


subsection \<open>Registers with a mask of writable bits\<close>

definition masked :: "u64 \<Rightarrow> u64 \<Rightarrow> u64 \<Rightarrow> u64" where
  "masked w old v = (old AND NOT w) OR (v AND w)"

lemma masked_takes: "masked w old v = v \<longleftrightarrow> (\<forall>n < 64. \<not> bit w n \<longrightarrow> bit old n = bit v n)"
  by (auto simp: masked_def bit_eq_iff bit_simps)

lemma masked_restores: "restores (masked w) b c \<longleftrightarrow> (\<forall>n < 64. \<not> bit w n \<longrightarrow> bit c n = bit b n)"
  by (auto simp: restores_def masked_def bit_eq_iff bit_simps Let_def)

lemma bits_of_three: "bit (3 :: u64) n \<longleftrightarrow> n = 0 \<or> n = 1" "bit (2 :: u64) n \<longleftrightarrow> n = 1" "bit (1 :: u64) n \<longleftrightarrow> n = 0"
proof -
  have "bit (3 :: u64) n = bit (mask 2 :: u64) n" "bit (2 :: u64) n = bit (push_bit 1 1 :: u64) n" by (simp_all add: mask_eq_exp_minus_1)
  then show "bit (3 :: u64) n \<longleftrightarrow> n = 0 \<or> n = 1" "bit (2 :: u64) n \<longleftrightarrow> n = 1" by (auto simp: bit_simps simp del: push_bit_numeral)
qed (simp add: bit_simps)

lemma shifted_bits:
  "bit (push_bit k 1 :: u64) n \<longleftrightarrow> n = k \<and> n < 64"
  "bit (push_bit k 2 :: u64) n \<longleftrightarrow> n = Suc k \<and> n < 64"
  "bit (push_bit k 3 :: u64) n \<longleftrightarrow> (n = k \<or> n = Suc k) \<and> n < 64"
proof -
  have x: "bit (push_bit k x :: u64) n \<longleftrightarrow> k \<le> n \<and> n < 64 \<and> bit x (n - k)" for x :: u64 by (auto simp: bit_push_bit_iff)
  show "bit (push_bit k 1 :: u64) n \<longleftrightarrow> n = k \<and> n < 64" unfolding x [of 1] bits_of_three by presburger
  show "bit (push_bit k 2 :: u64) n \<longleftrightarrow> n = Suc k \<and> n < 64" unfolding x [of 2] bits_of_three by presburger
  show "bit (push_bit k 3 :: u64) n \<longleftrightarrow> (n = k \<or> n = Suc k) \<and> n < 64" unfolding x [of 3] bits_of_three by presburger
qed

lemmas word_bits = bit_and_iff bit_or_iff bit_not_iff_eq shifted_bits shifted_bits(1) [unfolded push_bit_of_1]

lemma field_decides:
  assumes "f_shift p < 63"
  defines "v \<equiv> \<lambda>b n. (b AND NOT (f_mask p)) OR push_bit (f_shift p) n"
  shows "takes_in_turn (masked w) b [v b 1, v b 2, v b 3, b AND NOT (f_mask p)] \<and>
      masked w (b AND NOT (f_mask p)) (- 1) AND f_mask p = f_mask p \<and> restores (masked w) b (b AND NOT (f_mask p)) \<longleftrightarrow>
    bit w (f_shift p) \<and> bit w (Suc (f_shift p))" (is "?passes \<longleftrightarrow> ?writable")
proof
  let ?k = "f_shift p"
  assume "?passes"
  then have "masked w (v b 1) (v b 2) = v b 2" by (simp add: takes_in_turn_def)
  then have eq: "\<not> bit w n \<Longrightarrow> n < 64 \<Longrightarrow> bit (v b 1) n = bit (v b 2) n" for n by (simp add: masked_takes)
  have "bit (v b 1) ?k" "\<not> bit (v b 2) ?k" "\<not> bit (v b 1) (Suc ?k)" "bit (v b 2) (Suc ?k)"
    using assms(1) by (simp_all add: v_def f_mask_def word_bits)
  with eq [of ?k] eq [of "Suc ?k"] assms(1) show "?writable" by auto
next
  assume w: "?writable"
  have m: "bit (f_mask p) n \<Longrightarrow> n = f_shift p \<or> n = Suc (f_shift p)" for n
    by (simp add: f_mask_def word_bits)
  have same: "bit (v b x) n = bit b n" if "\<not> bit w n" "n < 64" "x \<in> {1, 2, 3}" for x n
    using that w m [of n] by (auto simp: v_def f_mask_def word_bits)
  have base: "bit (b AND NOT (f_mask p)) n = bit b n" if "\<not> bit w n" "n < 64" for n
    using that w m [of n] by (auto simp: word_bits)
  have "bit (masked w (b AND NOT (f_mask p)) (- 1) AND f_mask p) n = bit (f_mask p) n" if "n < 64" for n
    using w m [of n] that by (auto simp: masked_def word_bits)
  then have "masked w (b AND NOT (f_mask p)) (- 1) AND f_mask p = f_mask p" by (intro bit_word_eqI) simp
  with same base show "?passes" by (simp add: takes_in_turn_def masked_takes masked_restores)
qed

lemma stce_decides:
  "takes_in_turn (masked w) b [b OR MENVCFG_STCE, b AND NOT MENVCFG_STCE] \<and> masked w (b AND NOT MENVCFG_STCE) (- 1) AND MENVCFG_STCE \<noteq> 0 \<and>
     restores (masked w) b (b AND NOT MENVCFG_STCE) \<longleftrightarrow> bit w 63" (is "?passes \<longleftrightarrow> _")
proof
  assume "?passes"
  then have "masked w (b OR MENVCFG_STCE) (b AND NOT MENVCFG_STCE) = b AND NOT MENVCFG_STCE" by (simp add: takes_in_turn_def)
  then have "\<not> bit w 63 \<Longrightarrow> bit (b OR MENVCFG_STCE) 63 = bit (b AND NOT MENVCFG_STCE) 63" unfolding masked_takes by simp
  then show "bit w 63" by (auto simp: bit_simps)
next
  assume w: "bit w 63"
  then have "bit (masked w (b AND NOT MENVCFG_STCE) (- 1) AND MENVCFG_STCE) 63" by (simp add: masked_def bit_simps)
  then have "masked w (b AND NOT MENVCFG_STCE) (- 1) AND MENVCFG_STCE \<noteq> 0" by (metis bit_0_eq bot_apply bot_bool_def)
  moreover have "bit (b OR MENVCFG_STCE) n = bit b n" "bit (b AND NOT MENVCFG_STCE) n = bit b n" if "\<not> bit w n" "n < 64" for n
    using that w by (auto simp: word_bits simp del: push_bit_of_1)
  ultimately show "?passes" by (simp add: takes_in_turn_def masked_takes masked_restores)
qed

lemma pbmte_decides:
  fixes w b :: u64
  defines "r \<equiv> masked w b (b OR MENVCFG_PBMTE)" and "c \<equiv> b AND NOT MENVCFG_PBMTE"
  shows "r AND NOT MENVCFG_PBMTE = (b OR MENVCFG_PBMTE) AND NOT MENVCFG_PBMTE \<and> masked w r c = c \<and>
     (r AND MENVCFG_PBMTE \<noteq> 0 \<longrightarrow> masked w c (- 1) AND MENVCFG_PBMTE \<noteq> 0) \<and> restores (masked w) b c \<longleftrightarrow> bit w 62 \<or> \<not> bit b 62"
    (is "?a \<and> ?b \<and> ?c \<and> ?d \<longleftrightarrow> _")
proof -
  have bits: "bit r n = (if bit w n then n = 62 \<or> bit b n else bit b n)" "bit c n = (bit b n \<and> n \<noteq> 62)" if "n < 64" for n
    using that by (auto simp: r_def c_def masked_def word_bits simp del: push_bit_of_1)
  have p: "x AND MENVCFG_PBMTE \<noteq> 0 \<longleftrightarrow> bit x 62" for x :: u64
    using and_exp_eq_0_iff_not_bit [of x 62] by (simp add: push_bit_of_1)
  have "bit (r AND NOT MENVCFG_PBMTE) n = bit ((b OR MENVCFG_PBMTE) AND NOT MENVCFG_PBMTE) n" if "n < 64" for n
    using bits(1) [OF that] that by (auto simp: word_bits simp del: push_bit_of_1)
  then have a: "?a" by (intro bit_word_eqI) simp
  have "?b \<longleftrightarrow> bit w 62 \<or> \<not> bit b 62" "?d \<longleftrightarrow> bit w 62 \<or> \<not> bit b 62"
    unfolding masked_takes masked_restores using bits by (auto dest: spec [of _ 62])
  moreover have "?c" if "bit w 62 \<or> \<not> bit b 62" unfolding p using that bits [of 62] by (auto simp: masked_def word_bits)
  ultimately show ?thesis using a by blast
qed

lemma mprv_decides:
  fixes w b :: u64
  defines "r \<equiv> masked w b (b OR MSTATUS_MPRV)"
  shows "r AND MSTATUS_MPRV \<noteq> 0 \<and> r = b OR MSTATUS_MPRV \<and> masked w r (r AND NOT MSTATUS_MPRV) = b \<longleftrightarrow> bit w 17 \<noteq> bit b 17"
    (is "?a \<and> ?b \<and> ?c \<longleftrightarrow> _")
proof -
  have bits: "bit r n = (if bit w n then n = 17 \<or> bit b n else bit b n)" if "n < 64" for n
    using that by (auto simp: r_def masked_def word_bits simp del: push_bit_of_1)
  have p: "x AND MSTATUS_MPRV \<noteq> 0 \<longleftrightarrow> bit x 17" for x :: u64
    using and_exp_eq_0_iff_not_bit [of x 17] by (simp add: push_bit_of_1)
  have b: "?b \<longleftrightarrow> bit w 17 \<or> bit b 17"
  proof
    assume "?b"
    then have "bit r 17 = bit (b OR MSTATUS_MPRV) 17" by simp
    then show "bit w 17 \<or> bit b 17" using bits [of 17] by (auto simp: word_bits split: if_splits)
  next
    assume "bit w 17 \<or> bit b 17"
    then have "bit r n = bit (b OR MSTATUS_MPRV) n" if "n < 64" for n
      using bits [OF that] that by (auto simp: word_bits simp del: push_bit_of_1)
    then show "?b" by (intro bit_word_eqI) simp
  qed
  have cb: "bit (masked w r (r AND NOT MSTATUS_MPRV)) n = (bit b n \<and> (bit w n \<longrightarrow> n \<noteq> 17))" if "n < 64" for n
    using bits [OF that] that by (auto simp: masked_def word_bits simp del: push_bit_of_1)
  have c: "?c \<longleftrightarrow> \<not> (bit w 17 \<and> bit b 17)"
  proof
    assume "?c"
    then show "\<not> (bit w 17 \<and> bit b 17)" using cb [of 17] by auto
  next
    assume "\<not> (bit w 17 \<and> bit b 17)"
    with cb show "?c" by (intro bit_word_eqI) auto
  qed
  show ?thesis unfolding p b c using bits [of 17] by auto
qed


subsection \<open>Properties\<close>

text \<open>
  C34. The field probes decide whether a field is implemented. On a hart whose \<open>menvcfg\<close> has the writable bits \<open>w\<close> and otherwise holds its
  boot value, and whose \<open>mstatus\<close> has the writable bits \<open>u\<close>: the CBZE, CBIE and STCE probes write the pass word exactly if all bits of
  their field are writable; the PBMTE probe exactly if the bit is writable or was clear at boot, so also on a hart without it; the
  MPRV probe exactly if the bit is writable and clear at boot, or stuck at one. In every other case the finisher is not touched.
\<close>

theorem field_probes_decide:
  fixes s :: "'x probe_scheme"
  assumes "legal (hw s) Menvcfg = masked w" "legal (hw s) Mstatus = masked u" "fails s = 0" "save s 4 = 0" "finisher s = None"
  defines "passes \<equiv> \<lambda>p :: ('x, unit) prog. finisher (final p s) = Some 0x5555"
  shows "(passes (mcw_main e) \<longleftrightarrow> bit w 6 \<and> bit w 7) \<and> (passes (cbie_main e) \<longleftrightarrow> bit w 4 \<and> bit w 5) \<and>
    (passes (msw_main e) \<longleftrightarrow> bit w 63) \<and> (passes (mpw_main e) \<longleftrightarrow> bit w 62 \<or> \<not> bit (csrf (hw s) Menvcfg) 62) \<and>
    (passes (mprv_main e) \<longleftrightarrow> bit u 17 \<noteq> bit (csrf (hw s) Mstatus) 17)"
proof -
  have "f_shift mcw < 63" "f_shift cbie < 63" and sh: "f_shift mcw = 6" "f_shift cbie = 4" by (simp_all add: mcw_def cbie_def)
  note fields = field_decides [OF this(1)] field_decides [OF this(2)]
  have "passes (mcw_main e) \<longleftrightarrow> bit w 6 \<and> bit w 7" "passes (cbie_main e) \<longleftrightarrow> bit w 4 \<and> bit w 5"
    using fields [of w "csrf (hw s) Menvcfg"] by (simp_all only: passes_def mcw_main_def cbie_main_def field_main_verdict [OF assms(5)] assms Let_def) (simp_all add: sh)
  moreover have "passes (msw_main e) \<longleftrightarrow> bit w 63" "passes (mpw_main e) \<longleftrightarrow> bit w 62 \<or> \<not> bit (csrf (hw s) Menvcfg) 62"
    "passes (mprv_main e) \<longleftrightarrow> bit u 17 \<noteq> bit (csrf (hw s) Mstatus) 17"
    by (simp_all only: passes_def msw_verdict [OF assms(5)] mpw_verdict [OF assms(5)] mprv_verdict [OF assms(5)] assms Let_def
        stce_decides pbmte_decides mprv_decides simp_thms) simp_all
  ultimately show ?thesis by blast
qed

text \<open>A hart as QEMU's: every field but CBIE is writable.\<close>

definition field_example :: probe where
  "field_example = \<lparr>out = [], hw = \<lparr>gpr = \<lambda>_. 0, csrf = \<lambda>_. 0, ram = \<lambda>_. 0, pc = 0, priv = MMode, clock = \<lambda>_. (0, 0), retired = 0,
     legal = (\<lambda>c. if c = Menvcfg then masked 0xC0000000000000C0 else masked 0x20000), instret = \<lambda>_. 0\<rparr>,
     fails = 0, nchecks = 0, save = \<lambda>_. 0, finisher = None, overrun = []\<rparr>"

theorem field_probes_decide_witness:
  "finisher (final (mcw_main 0x80000100) field_example) = Some 0x5555 \<and>
   finisher (final (cbie_main 0x80000100) field_example) \<noteq> Some 0x5555 \<and>
   finisher (final (mprv_main 0x80000100) field_example) = Some 0x5555"
  using field_probes_decide [of field_example "0xC0000000000000C0" "0x20000" "0x80000100"]
  by (simp add: field_example_def bit_iff_odd drop_bit_eq_div [symmetric])

end
