(* ===== verification/Warl.thy ===== *)
theory Warl
  imports Menvcfg
begin

text \<open>
  Five more register probes in M-mode: \<open>src/src/mcause-warl\<close>, \<open>sepc-warl\<close>, \<open>mtvec-mode-war\<close> (\<open>mmw\<close>), \<open>mie-write-readback\<close> (\<open>mwr\<close>)
  and \<open>misa-mxl-warl\<close> (\<open>mxl\<close>). The first two take deliberate traps: an \<open>ecall\<close> enters the handler only if the vector points to it, and
  the program goes on only if the handler returns behind the \<open>ecall\<close>; otherwise the run leaves the modelled code, which is \<open>stuck\<close>.
  The wait for the transmitter before the finisher is written is part of the console here.
\<close>

unbundle bit_operations_syntax


subsection \<open>Deliberate traps\<close>

text \<open>The globals of the two programs besides the scratch area, which is \<open>save\<close>.\<close>

record traps = modes +
  trap_count :: u64
  last_cause :: u64
  last_sepc :: u64
  last_mepc :: u64

type_synonym tprog = "(unit traps_ext modes_ext, unit) prog"

abbreviation (input) ECALL_MCAUSE :: u64 where "ECALL_MCAUSE \<equiv> 11"

definition gets_t :: "(traps \<Rightarrow> 'a) \<Rightarrow> (unit traps_ext modes_ext, 'a) prog" where
  "gets_t f = State (\<lambda>s. (f s, s))"

definition sets_t :: "(traps \<Rightarrow> traps) \<Rightarrow> tprog" where
  "sets_t f = State (\<lambda>s. ((), f s))"

text \<open>An \<open>ecall\<close> at \<open>site\<close> and the rest of the program.\<close>

definition ecall_at :: "u64 \<Rightarrow> u64 \<Rightarrow> tprog \<Rightarrow> tprog \<Rightarrow> tprog" where
  "ecall_at vec site handler rest = do {
     take_trap ECALL_MCAUSE site 0;
     a \<leftarrow> gets_t (\<lambda>s. pc (hw s));
     if a \<noteq> vec then sets_t (\<lambda>s. s\<lparr>stuck := True\<rparr>)
     else do {
       handler;
       ok \<leftarrow> gets_t (\<lambda>s. \<not> parked s \<and> \<not> stuck s);
       b \<leftarrow> gets_t (\<lambda>s. pc (hw s));
       if \<not> ok then State_Monad.return ()
       else if b \<noteq> site + 4 then sets_t (\<lambda>s. s\<lparr>stuck := True\<rparr>)
       else rest } }"

text \<open>The spin loop of \<open>wait_for_trap\<close>; the count cannot change while it runs, since no interrupt is enabled.\<close>

primrec wait_loop :: "u64 \<Rightarrow> u64 \<Rightarrow> nat \<Rightarrow> nat \<Rightarrow> nat" where
  "wait_loop count want 0 spins = spins"
| "wait_loop count want (Suc budget) spins = (if count < want then wait_loop count want budget (Suc spins) else spins)"

lemma wait_loop_spins: "wait_loop count want budget spins = (if count < want then spins + budget else spins)"
  by (induction budget arbitrary: spins) auto

definition wait_for_trap :: "u64 \<Rightarrow> nat \<Rightarrow> (unit traps_ext modes_ext, nat) prog" where
  "wait_for_trap want budget = do {
     c \<leftarrow> gets_t trap_count;
     State_Monad.return (wait_loop c want budget 0) }"

text \<open>The vector of both programs, and the end.\<close>

definition trap_setup :: "u64 \<Rightarrow> u64 \<Rightarrow> tprog" where
  "trap_setup vec regs = do {
     csrw Mtvec vec;
     csrw Mscratch regs;
     tv \<leftarrow> csrr Mtvec;
     puts [Str ''trap: mtvec='', Hex tv, Str ''\<newline>''];
     check (tv AND NOT 3 = vec) ''mtvec did not take the handler address'';
     check (tv AND 3 = 0) ''mtvec not in direct mode'' }"

definition trap_verdict :: tprog where
  "trap_verdict = do {
     f \<leftarrow> get_fails;
     n \<leftarrow> gets_t trap_count;
     puts [Str ''RESULT: '', Str (if f = 0 then ''PASS'' else ''FAIL''), Str '' (traps='', Dec n, Str '')\<newline>''];
     only_if (f = 0) (finish 0x5555) }"

text \<open>What the handlers do with the deliberate trap, and with any other.\<close>

definition skip_or_park :: "u64 \<Rightarrow> tprog" where
  "skip_or_park cause =
     (if cause = ECALL_MCAUSE then do { epc \<leftarrow> csrr Mepc; csrw Mepc (epc + 4) }
      else park)"

definition leave_trap :: tprog where
  "leave_trap = do {
     q \<leftarrow> gets_t parked;
     only_if (\<not> q) mret }"


subsection \<open>mcause-warl\<close>

definition mca_c_handle :: tprog where
  "mca_c_handle = do {
     cause \<leftarrow> get_save 2;
     epc \<leftarrow> get_save 3;
     sets_t (\<lambda>s. s\<lparr>trap_count := trap_count s + 1, last_cause := cause, last_mepc := epc\<rparr>);
     skip_or_park cause }"

definition mcause_trap_entry :: "u64 \<Rightarrow> tprog" where
  "mcause_trap_entry regs = do {
     base \<leftarrow> csrr Mscratch;
     if base \<noteq> regs then sets_t (\<lambda>s. s\<lparr>stuck := True\<rparr>)
     else do {
       t1 \<leftarrow> get_reg xt1; put_save 1 t1;
       c \<leftarrow> csrr Mcause; put_save 2 c;
       e \<leftarrow> csrr Mepc; put_save 3 e;
       ra \<leftarrow> get_reg xra; put_save 4 ra;
       a0 \<leftarrow> get_reg xa0; put_save 5 a0;
       mca_c_handle;
       leave_trap } }"

definition print_triple :: "string \<Rightarrow> u64 \<Rightarrow> u64 \<Rightarrow> u64 \<Rightarrow> tprog" where
  "print_triple tag written lst readback =
     puts [Str tag, Str '': write='', Hex written, Str '' last-cause='', Hex lst, Str '' readback='', Hex readback, Str ''\<newline>'']"

text \<open>A write to \<open>mcause\<close> with its two checks.\<close>

definition mcause_write :: "string \<Rightarrow> u64 \<Rightarrow> string \<Rightarrow> string \<Rightarrow> tprog" where
  "mcause_write tag w msg trap_msg = do {
     csrw Mcause w;
     v \<leftarrow> csrr Mcause;
     l \<leftarrow> gets_t last_cause;
     print_triple tag w l v;
     check (v = w) msg;
     n \<leftarrow> gets_t trap_count;
     check (n = 1) trap_msg }"

text \<open>\<open>main\<close> after the second trap, after the first, and from the start.\<close>

definition mcause_second :: tprog where
  "mcause_second = do {
     spins \<leftarrow> wait_for_trap 2 10000000;
     check (spins < 10000000) ''second ecall did not trap'';
     v \<leftarrow> csrr Mcause;
     l \<leftarrow> gets_t last_cause; n \<leftarrow> gets_t trap_count;
     puts [Str ''trap2: handler-cause='', Hex l, Str '' mcause-readback='', Hex v, Str '' count='', Dec n, Str ''\<newline>''];
     check (n = 2) ''trap_count != 2 after second ecall'';
     check (l = ECALL_MCAUSE) ''handler cause != 11 on second ecall'';
     check (v = ECALL_MCAUSE) ''mcause not updated by second trap'';
     trap_verdict }"

definition mcause_first :: "u64 \<Rightarrow> u64 \<Rightarrow> u64 \<Rightarrow> tprog" where
  "mcause_first vec regs site2 = do {
     spins \<leftarrow> wait_for_trap 1 10000000;
     check (spins < 10000000) ''first ecall did not trap'';
     l \<leftarrow> gets_t last_cause; e \<leftarrow> gets_t last_mepc; n \<leftarrow> gets_t trap_count;
     puts [Str ''trap1: handler-cause='', Hex l, Str '' mepc='', Hex e, Str '' count='', Dec n, Str ''\<newline>''];
     check (l = ECALL_MCAUSE) ''handler cause != 11 after ecall'';
     check (n = 1) ''trap_count != 1 after first ecall'';
     v \<leftarrow> csrr Mcause;
     puts [Str ''trap1: mcause-readback='', Hex v, Str '' (expect 0xb)\<newline>''];
     check (v = ECALL_MCAUSE) ''mcause readback != 11 after ecall'';
     mcause_write ''write-ones'' (- 1) ''mcause readback != all-ones after write'' ''trap fired from the all-ones write'';
     mcause_write ''write-zero'' 0 ''mcause readback != 0 after write'' ''trap fired from the zero write'';
     ecall_at vec site2 (mcause_trap_entry regs) mcause_second }"

definition mcause_main :: "u64 \<Rightarrow> u64 \<Rightarrow> u64 \<Rightarrow> u64 \<Rightarrow> tprog" where
  "mcause_main vec regs site1 site2 = do {
     puts [Str ''mcause-warl: mcause write-any/read-legal check\<newline>''];
     v \<leftarrow> csrr Mcause;
     puts [Str ''boot: mcause='', Hex v, Str ''\<newline>''];
     check (v = 0) ''mcause nonzero at boot'';
     trap_setup vec regs;
     ecall_at vec site1 (mcause_trap_entry regs) (mcause_first vec regs site2) }"


subsection \<open>sepc-warl\<close>

definition sep_c_handle :: tprog where
  "sep_c_handle = do {
     cause \<leftarrow> get_save 2;
     sepc \<leftarrow> get_save 3;
     epc \<leftarrow> get_save 6;
     sets_t (\<lambda>s. s\<lparr>trap_count := trap_count s + 1, last_cause := cause, last_sepc := sepc, last_mepc := epc\<rparr>);
     skip_or_park cause }"

definition sepc_trap_entry :: "u64 \<Rightarrow> tprog" where
  "sepc_trap_entry regs = do {
     base \<leftarrow> csrr Mscratch;
     if base \<noteq> regs then sets_t (\<lambda>s. s\<lparr>stuck := True\<rparr>)
     else do {
       t1 \<leftarrow> get_reg xt1; put_save 1 t1;
       c \<leftarrow> csrr Mcause; put_save 2 c;
       p \<leftarrow> csrr Sepc; put_save 3 p;
       e \<leftarrow> csrr Mepc; put_save 6 e;
       ra \<leftarrow> get_reg xra; put_save 4 ra;
       a0 \<leftarrow> get_reg xa0; put_save 5 a0;
       sep_c_handle;
       leave_trap } }"

definition sepc_write :: "string \<Rightarrow> u64 \<Rightarrow> string \<Rightarrow> string \<Rightarrow> tprog" where
  "sepc_write tag w msg trap_msg = do {
     csrw Sepc w;
     v \<leftarrow> csrr Sepc;
     puts [Str tag, Str '': write='', Hex w, Str '' readback='', Hex v, Str ''\<newline>''];
     check (v = w) msg;
     n \<leftarrow> gets_t trap_count;
     check (n = 0) trap_msg }"

definition sepc_after :: "u64 \<Rightarrow> tprog" where
  "sepc_after ecall_pc = do {
     spins \<leftarrow> wait_for_trap 1 10000000;
     check (spins < 10000000) ''deliberate ecall did not trap'';
     e \<leftarrow> gets_t last_mepc; p \<leftarrow> gets_t last_sepc; c \<leftarrow> gets_t last_cause; n \<leftarrow> gets_t trap_count;
     puts [Str ''trap: ecall-pc='', Hex ecall_pc, Str '' handler-mepc='', Hex e, Str '' handler-sepc='', Hex p, Str '' cause='', Hex c,
       Str '' count='', Dec n, Str ''\<newline>''];
     check (n = 1) ''trap_count != 1 after deliberate ecall'';
     check (c = ECALL_MCAUSE) ''trap cause != 11 after ecall'';
     check (e = ecall_pc) ''handler mepc != ecall pc'';
     check (p = 0) ''sepc clobbered by M-mode trap entry'';
     v \<leftarrow> csrr Sepc;
     puts [Str ''trap: sepc-readback='', Hex v, Str '' (expect 0x0)\<newline>''];
     check (v = 0) ''sepc readback != 0 after trap'';
     v \<leftarrow> csrr Mepc;
     puts [Str ''trap: mepc-readback='', Hex v, Str '' (expect ecall pc + 4)\<newline>''];
     check (v = ecall_pc + 4) ''mepc readback != ecall pc + 4'';
     trap_verdict }"

definition sepc_main :: "u64 \<Rightarrow> u64 \<Rightarrow> u64 \<Rightarrow> tprog" where
  "sepc_main vec regs ecall_pc = do {
     puts [Str ''sepc-warl: sepc software-write probe\<newline>''];
     v \<leftarrow> csrr Sepc;
     puts [Str ''boot: sepc='', Hex v, Str ''\<newline>''];
     check (v = 0) ''sepc nonzero at boot'';
     trap_setup vec regs;
     sepc_write ''write-ones'' (- 1) ''sepc readback != all-ones after write'' ''trap fired from the all-ones write'';
     sepc_write ''write-zero'' 0 ''sepc readback != 0 after write'' ''trap fired from the zero write'';
     ecall_at vec ecall_pc (sepc_trap_entry regs) (sepc_after ecall_pc) }"


subsection \<open>Verdicts of the trapping probes\<close>

lemma run_traps_basic [simp]:
  "run_state (gets_t f) s = (f s, s)" "run_state (sets_t g) s = ((), g s)"
  by (simp_all add: gets_t_def sets_t_def)

lemma run_on_regs [simp]: "run_state (get_reg r) s = (reg_get r (hw s), s)" "run_state park s = ((), s\<lparr>parked := True\<rparr>)"
  by (simp_all add: get_reg_def park_def)

lemma run_wait [simp]:
  "run_state (wait_for_trap want budget) s = (if trap_count s < want then budget else 0, s)"
  by (simp add: wait_for_trap_def wait_loop_spins run_traps_basic [THEN exec_step])

lemma run_leave [simp]: "run_state leave_trap s = ((), if parked s then s else s\<lparr>hw := do_mret (hw s)\<rparr>)"
  by (simp add: leave_trap_def run_traps_basic [THEN exec_step] only_if_def)

lemmas warl_run = probe_run exec_assoc Let_def run_traps_basic [THEN exec_step] run_on_regs [THEN exec_step] run_wait [THEN exec_step]
  run_leave [THEN exec_step]

text \<open>Whether an \<open>ecall\<close> at \<open>site\<close> is caught and skipped.\<close>

definition catches :: "u64 \<Rightarrow> u64 \<Rightarrow> u64 \<Rightarrow> hart \<Rightarrow> bool" where
  "catches vec regs site h \<longleftrightarrow> csrf h Mtvec AND NOT 3 = vec \<and> csrf h Mscratch = regs \<and> legal h Mepc site (site + 4) = site + 4"

definition skipped :: "u64 \<Rightarrow> hart \<Rightarrow> hart" where
  "skipped site h = do_mret (csr_store Mepc (site + 4) (trap_to_m 11 site 0 h))"

lemma trap_fields [simp]:
  "csrf (trap_to_m c e v h) Mcause = c" "csrf (trap_to_m c e v h) Mepc = e" "pc (trap_to_m c e v h) = csrf h Mtvec AND NOT 3"
  by (simp_all add: trap_to_m_def)

lemma skipped_fields [simp]:
  "legal (skipped site h) = legal h"
  "c \<noteq> Mstatus \<Longrightarrow> csrf (skipped site h) c = (if c = Mepc then legal h Mepc site (site + 4) else if c = Mcause then 11 else if c = Mtval then 0
     else csrf h c)"
  by (simp_all add: skipped_def trap_to_m_def do_mret_def)

text \<open>Both handlers, by the save area they leave.\<close>

locale skipping_handler =
  fixes handler :: "u64 \<Rightarrow> tprog" and record_trap :: "u64 \<Rightarrow> traps \<Rightarrow> traps"
  assumes caught: "csrf (hw s) Mscratch = regs \<Longrightarrow> csrf (hw s) Mcause = 11 \<Longrightarrow> \<not> parked s \<Longrightarrow>
      run_state (handler regs) s = ((), (record_trap (csrf (hw s) Mepc) s)\<lparr>hw := do_mret (csr_store Mepc (csrf (hw s) Mepc + 4) (hw s))\<rparr>)"
    and missed: "csrf (hw s) Mscratch \<noteq> regs \<Longrightarrow> run_state (handler regs) s = ((), s\<lparr>stuck := True\<rparr>)"
    and frame: "parked (record_trap e s) = parked s" "stuck (record_trap e s) = stuck s" "hw (record_trap e s) = hw s"
      "record_trap e (s\<lparr>hw := trap_to_m 11 e 0 (hw s)\<rparr>) = (record_trap e s)\<lparr>hw := trap_to_m 11 e 0 (hw s)\<rparr>"
begin

lemma goes_on:
  assumes "catches vec regs site (hw s)" "\<not> parked s" "\<not> stuck s"
  shows "run_state (ecall_at vec site (handler regs) rest) s = run_state rest ((record_trap site s)\<lparr>hw := skipped site (hw s)\<rparr>)"
proof -
  let ?s = "s\<lparr>hw := trap_to_m 11 site 0 (hw s)\<rparr>"
  have "run_state (handler regs) ?s = ((), (record_trap site s)\<lparr>hw := skipped site (hw s)\<rparr>)"
    using caught [of ?s regs] assms(1,2) by (simp add: catches_def frame skipped_def)
  moreover have "pc (skipped site (hw s)) = site + 4" using assms(1) by (simp add: catches_def skipped_def do_mret_def trap_to_m_def)
  ultimately show ?thesis
    using assms by (simp add: ecall_at_def warl_run catches_def exec_step frame)
qed

lemma gets_lost:
  assumes "\<not> catches vec regs site (hw s)" "\<not> parked s" "\<not> stuck s" "\<And>e s. finisher (record_trap e s) = finisher s"
  shows "finisher (final (ecall_at vec site (handler regs) rest) s) = finisher s"
proof -
  let ?s = "s\<lparr>hw := trap_to_m 11 site 0 (hw s)\<rparr>"
  consider "csrf (hw s) Mtvec AND NOT 3 \<noteq> vec" | "csrf (hw s) Mtvec AND NOT 3 = vec" "csrf (hw s) Mscratch \<noteq> regs"
    | "csrf (hw s) Mtvec AND NOT 3 = vec" "csrf (hw s) Mscratch = regs" "legal (hw s) Mepc site (site + 4) \<noteq> site + 4"
    using assms(1) by (auto simp: catches_def)
  then show ?thesis
  proof cases
    case 1
    then show ?thesis by (simp add: ecall_at_def warl_run)
  next
    case 2
    then have "run_state (handler regs) ?s = ((), ?s\<lparr>stuck := True\<rparr>)" by (simp add: missed)
    with 2 show ?thesis by (simp add: ecall_at_def warl_run exec_step)
  next
    case 3
    then have "run_state (handler regs) ?s = ((), (record_trap site s)\<lparr>hw := skipped site (hw s)\<rparr>)"
      using caught [of ?s regs] assms(2) by (simp add: frame skipped_def)
    moreover have "pc (skipped site (hw s)) \<noteq> site + 4" using 3 by (simp add: skipped_def do_mret_def trap_to_m_def)
    ultimately show ?thesis using 3 assms(2-4) by (simp add: ecall_at_def warl_run exec_step frame)
  qed
qed

end

definition mca_record :: "u64 \<Rightarrow> traps \<Rightarrow> traps" where
  "mca_record e s = s\<lparr>save := (save s)(1 := reg_get xt1 (hw s), 2 := 11, 3 := e, 4 := reg_get xra (hw s), 5 := reg_get xa0 (hw s)),
     trap_count := trap_count s + 1, last_cause := 11, last_mepc := e\<rparr>"

definition sep_record :: "u64 \<Rightarrow> traps \<Rightarrow> traps" where
  "sep_record e s = s\<lparr>save := (save s)(1 := reg_get xt1 (hw s), 2 := 11, 3 := csrf (hw s) Sepc, 6 := e, 4 := reg_get xra (hw s), 5 := reg_get xa0 (hw s)),
     trap_count := trap_count s + 1, last_cause := 11, last_sepc := csrf (hw s) Sepc, last_mepc := e\<rparr>"

interpretation mca: skipping_handler mcause_trap_entry mca_record
  by unfold_locales (simp_all add: mcause_trap_entry_def mca_c_handle_def skip_or_park_def mca_record_def warl_run)

interpretation sep: skipping_handler sepc_trap_entry sep_record
  by unfold_locales (simp_all add: sepc_trap_entry_def sep_c_handle_def skip_or_park_def sep_record_def warl_run)

lemma mcause_second_verdict:
  assumes "finisher s = None" "trap_count s = 2" "last_cause s = 11"
  shows "finisher (final mcause_second s) = (if fails s = 0 \<and> csrf (hw s) Mcause = 11 then Some 0x5555 else None)"
  using assms by (cases s) (simp add: warl_run mcause_second_def trap_verdict_def cong: probe_cong)

lemma mcause_ecall2:
  assumes "finisher s = None" "trap_count s = 1" "\<not> parked s" "\<not> stuck s"
  shows "finisher (snd (run_state (ecall_at vec b (mcause_trap_entry regs) mcause_second) s)) =
    (if catches vec regs b (hw s) \<and> fails s = 0 then Some 0x5555 else None)"
proof (cases "catches vec regs b (hw s)")
  case True
  with assms show ?thesis
    using mca.goes_on [OF True, of mcause_second] mcause_second_verdict [of "(mca_record b s)\<lparr>hw := skipped b (hw s)\<rparr>"]
    by (simp add: final_def mca_record_def)
next
  case False
  with assms mca.gets_lost [OF False, of mcause_second] show ?thesis by (simp add: final_def mca_record_def)
qed

lemma mcause_first_verdict:
  assumes "finisher s = None" "trap_count s = 1" "last_cause s = 11" "\<not> parked s" "\<not> stuck s" "csrf (hw s) Mcause = 11"
  shows "finisher (snd (run_state (mcause_first vec regs b) s)) =
    (if fails s = 0 \<and> legal (hw s) Mcause 11 (- 1) = - 1 \<and> legal (hw s) Mcause (- 1) 0 = 0 \<and> catches vec regs b (hw s)
     then Some 0x5555 else None)"
  using assms
  by (cases s) (simp add: warl_run mcause_first_def mcause_write_def print_triple_def mcause_ecall2 catches_def cong: probe_cong, auto)

lemma mcause_ecall1:
  assumes "finisher s = None" "trap_count s = 0" "\<not> parked s" "\<not> stuck s"
  shows "finisher (snd (run_state (ecall_at vec a (mcause_trap_entry regs) (mcause_first vec regs b)) s)) =
    (if fails s = 0 \<and> catches vec regs a (hw s) \<and> catches vec regs b (hw s) \<and>
        legal (hw s) Mcause 11 (- 1) = - 1 \<and> legal (hw s) Mcause (- 1) 0 = 0 then Some 0x5555 else None)"
proof (cases "catches vec regs a (hw s)")
  case True
  with assms show ?thesis
    using mca.goes_on [OF True, of "mcause_first vec regs b"] mcause_first_verdict [of "(mca_record a s)\<lparr>hw := skipped a (hw s)\<rparr>" vec regs b]
    by (auto simp: mca_record_def catches_def)
next
  case False
  with assms mca.gets_lost [OF False, of "mcause_first vec regs b"] show ?thesis by (simp add: final_def mca_record_def)
qed

text \<open>Direct mode at an aligned entry.\<close>

definition vector_taken :: "u64 \<Rightarrow> u64 \<Rightarrow> hart \<Rightarrow> bool" where
  "vector_taken vec regs h \<longleftrightarrow> (let t = legal h Mtvec (csrf h Mtvec) vec in t AND NOT 3 = vec \<and> t AND 3 = 0) \<and>
     legal h Mscratch (csrf h Mscratch) regs = regs"

definition mepc_taken :: "u64 \<Rightarrow> hart \<Rightarrow> bool" where
  "mepc_taken site h \<longleftrightarrow> legal h Mepc site (site + 4) = site + 4"

lemma mcause_verdict:
  assumes "finisher s = None" "trap_count s = 0" "\<not> parked s" "\<not> stuck s"
  shows "finisher (final (mcause_main vec regs a b) s) =
    (if fails s = 0 \<and> csrf (hw s) Mcause = 0 \<and> vector_taken vec regs (hw s) \<and> mepc_taken a (hw s) \<and> mepc_taken b (hw s) \<and>
        legal (hw s) Mcause 11 (- 1) = - 1 \<and> legal (hw s) Mcause (- 1) 0 = 0 then Some 0x5555 else None)"
  using assms
  by (cases s) (simp add: warl_run mcause_main_def trap_setup_def mcause_ecall1 catches_def vector_taken_def mepc_taken_def cong: probe_cong)

lemma sepc_ecall:
  assumes "finisher s = None" "trap_count s = 0" "\<not> parked s" "\<not> stuck s"
  shows "finisher (snd (run_state (ecall_at vec a (sepc_trap_entry regs) (sepc_after a)) s)) =
    (if fails s = 0 \<and> csrf (hw s) Sepc = 0 \<and> catches vec regs a (hw s) then Some 0x5555 else None)"
proof (cases "catches vec regs a (hw s)")
  case True
  have v: "finisher (snd (run_state (sepc_after a) t)) = (if fails t = 0 \<and> csrf (hw t) Sepc = 0 \<and> csrf (hw t) Mepc = a + 4 then Some 0x5555 else None)"
    if "finisher t = None" "trap_count t = 1" "last_cause t = 11" "last_mepc t = a" "last_sepc t = csrf (hw t) Sepc" for t
    using that by (cases t) (simp add: warl_run sepc_after_def trap_verdict_def cong: probe_cong)
  show ?thesis
    using assms True sep.goes_on [OF True, of "sepc_after a"] v [of "(sep_record a s)\<lparr>hw := skipped a (hw s)\<rparr>"]
    by (auto simp: sep_record_def catches_def)
next
  case False
  with assms sep.gets_lost [OF False, of "sepc_after a"] show ?thesis by (simp add: final_def sep_record_def)
qed

lemma sepc_verdict:
  assumes "finisher s = None" "trap_count s = 0" "\<not> parked s" "\<not> stuck s"
  shows "finisher (final (sepc_main vec regs a) s) =
    (if fails s = 0 \<and> csrf (hw s) Sepc = 0 \<and> vector_taken vec regs (hw s) \<and> mepc_taken a (hw s) \<and>
        legal (hw s) Sepc 0 (- 1) = - 1 \<and> legal (hw s) Sepc (- 1) 0 = 0 then Some 0x5555 else None)"
  using assms
  by (cases s) (simp add: warl_run sepc_main_def sepc_write_def trap_setup_def sepc_ecall catches_def vector_taken_def mepc_taken_def
      cong: probe_cong, auto)


subsection \<open>Properties\<close>

text \<open>
  C35. Which harts the two trapping probes accept. \<open>mcause-warl\<close> writes the pass word exactly if \<open>mcause\<close> is zero at boot and keeps an all-ones and
  a zero write, \<open>sepc-warl\<close> exactly if \<open>sepc\<close> does, in both cases on a hart that takes the vector and the scratch pointer and resumes behind
  each \<open>ecall\<close>; otherwise the finisher stays untouched. So a hart on which bit 0 of \<open>sepc\<close> always reads zero never passes \<open>sepc-warl\<close>.
\<close>

theorem trapping_probes_decide:
  assumes "finisher s = None" "trap_count s = 0" "\<not> parked s" "\<not> stuck s" "fails s = 0"
  shows "finisher (final (mcause_main vec regs a b) s) =
      (if csrf (hw s) Mcause = 0 \<and> vector_taken vec regs (hw s) \<and> mepc_taken a (hw s) \<and> mepc_taken b (hw s) \<and>
          legal (hw s) Mcause 11 (- 1) = - 1 \<and> legal (hw s) Mcause (- 1) 0 = 0 then Some 0x5555 else None) \<and>
    finisher (final (sepc_main vec regs a) s) =
      (if csrf (hw s) Sepc = 0 \<and> vector_taken vec regs (hw s) \<and> mepc_taken a (hw s) \<and>
          legal (hw s) Sepc 0 (- 1) = - 1 \<and> legal (hw s) Sepc (- 1) 0 = 0 then Some 0x5555 else None) \<and>
    ((\<forall>old v. \<not> bit (legal (hw s) Sepc old v) 0) \<longrightarrow> finisher (final (sepc_main vec regs a) s) = None)"
proof -
  have "legal (hw s) Sepc 0 (- 1) \<noteq> - 1" if "\<forall>old v. \<not> bit (legal (hw s) Sepc old v) 0"
    using that by (metis bit_minus_1_iff possible_bit_0)
  then show ?thesis using mcause_verdict [OF assms(1-4)] sepc_verdict [OF assms(1-4)] assms(5) by auto
qed

definition warl_example :: traps where
  "warl_example = \<lparr>out = [], hw = \<lparr>gpr = \<lambda>_. 0, csrf = \<lambda>_. 0, ram = \<lambda>_. 0, pc = 0, priv = MMode, clock = \<lambda>_. (0, 0), retired = 0,
     legal = (\<lambda>c old v. if c = Sepc then v AND NOT 1 else v), instret = \<lambda>_. 0\<rparr>,
     fails = 0, nchecks = 0, save = \<lambda>_. 0, finisher = None, overrun = [], parked = False, stuck = False,
     trap_count = 0, last_cause = 0, last_sepc = 0, last_mepc = 0\<rparr>"

theorem trapping_probes_decide_witness:
  "finisher (final (mcause_main 0x80000100 0x80010000 0x80000200 0x80000300) warl_example) = Some 0x5555 \<and>
   finisher (final (sepc_main 0x80000100 0x80010000 0x80000200) warl_example) = None"
  using trapping_probes_decide [of warl_example "0x80000100" "0x80010000" "0x80000200" "0x80000300"]
  by (simp add: warl_example_def vector_taken_def mepc_taken_def bit_and_iff bit_not_iff)

end
