(* ===== verification/Mwrite.thy ===== *)
theory Mwrite
  imports Warl Csr_probes
begin

text \<open>
  Three register probes that take no trap: \<open>src/src/mtvec-mode-war\<close> (\<open>mmw\<close>), \<open>mie-write-readback\<close> (\<open>mwr\<close>) and \<open>misa-mxl-warl\<close>
  (\<open>mxl\<close>). They keep \<open>mstatus.MIE\<close> clear, so that no interrupt is taken whatever they enable; interrupts are not part of the model. Their
  digests are printed from the list of the values fed.
\<close>

unbundle bit_operations_syntax

abbreviation (input) FNV64_BASIS :: u64 where "FNV64_BASIS \<equiv> 14695981039346656037"
abbreviation (input) MSTATUS_MIE :: u64 where "MSTATUS_MIE \<equiv> 8"


subsection \<open>What mtvec-mode-war and mie-write-readback share\<close>

text \<open>The report of traps, which counts a check only when it fails, and the end.\<close>

definition unexpected_traps :: "('x, unit) prog" where
  "unexpected_traps = do {
     count \<leftarrow> get_save 0; cause \<leftarrow> get_save 1; epc \<leftarrow> get_save 2; tval \<leftarrow> get_save 3;
     only_if (count \<noteq> 0) (do {
       puts [Str ''  FAIL: unexpected trap(s), count='', Dec count, Str '' mcause='', Hex cause, Str '' mepc='', Hex epc,
         Str '' mtval='', Hex tval, Str ''\<newline>''];
       State (\<lambda>s. ((), s\<lparr>nchecks := nchecks s + 1\<rparr>));
       add_fail });
     puts [Str ''traps: count='', Dec count, Str ''\<newline>''] }"

definition digest_verdict :: "u64 list \<Rightarrow> ('x, unit) prog" where
  "digest_verdict vs = do {
     n \<leftarrow> get_nchecks; f \<leftarrow> get_fails;
     puts [Str ''checks: '', Dec (of_nat n), Str '' mismatches: '', Dec (of_nat f), Str ''\<newline>'',
       Str ''digest: '', Hex (foldl fnv64 FNV64_BASIS vs), Str ''\<newline>''];
     if f = 0 then do { puts [Str ''RESULT: PASS\<newline>'']; finish 0x5555 }
     else puts [Str ''RESULT: FAIL\<newline>''] }"

text \<open>Their trap entry: it counts, records, and skips the instruction.\<close>

definition digest_trap_entry :: "u64 \<Rightarrow> ('y modes_ext, unit) prog" where
  "digest_trap_entry regs = do {
     base \<leftarrow> csrr Mscratch;
     if base \<noteq> regs then State (\<lambda>s. ((), s\<lparr>stuck := True\<rparr>))
     else do {
       t1 \<leftarrow> get_reg xt1; put_save 4 t1;
       n \<leftarrow> get_save 0; put_save 0 (n + 1);
       c \<leftarrow> csrr Mcause; put_save 1 c;
       e \<leftarrow> csrr Mepc; put_save 2 e;
       v \<leftarrow> csrr Mtval; put_save 3 v;
       csrw Mepc (e + 4);
       mret } }"


subsection \<open>mtvec-mode-war\<close>

definition mmw_install :: "u64 \<Rightarrow> u64 \<Rightarrow> ('x, u64) prog" where
  "mmw_install handler_base regs = do {
     csrw Mtvec handler_base;
     csrw Mscratch regs;
     mtvec \<leftarrow> csrr Mtvec;
     puts [Str ''trap: mtvec='', Hex mtvec, Str ''\<newline>''];
     check_n (mtvec = handler_base) ''mtvec did not take the handler address'';
     State_Monad.return mtvec }"

definition mmw_phase1 :: "string \<Rightarrow> u64 \<Rightarrow> u64 \<Rightarrow> string \<Rightarrow> ('x, u64) prog" where
  "mmw_phase1 label w expect msg = do {
     csrw Mtvec w;
     ones_rb \<leftarrow> csrr Mtvec;
     puts [Str label, Hex ones_rb, Str ''\<newline>''];
     check_n (ones_rb = expect) msg;
     State_Monad.return ones_rb }"

definition mmw_phase2 :: "string \<Rightarrow> u64 \<Rightarrow> u64 \<Rightarrow> ('x, u64) prog" where
  "mmw_phase2 mode handler_base w = do {
     csrw Mtvec w;
     rb \<leftarrow> csrr Mtvec;
     puts [Str (''phase2 '' @ mode @ '': written=''), Hex w, Str '' readback='', Hex rb, Str ''\<newline>''];
     check_n (rb AND 3 \<le> 1) (''phase 2: '' @ mode @ '' MODE read back reserved'');
     check_n (rb AND NOT 3 = handler_base) (''phase 2: '' @ mode @ '' BASE changed'');
     State_Monad.return rb }"

definition mmw_restore :: "u64 \<Rightarrow> u64 \<Rightarrow> ('x, u64 \<times> u64) prog" where
  "mmw_restore boot_mtvec boot_mstatus = do {
     csrw Mtvec boot_mtvec;
     rest_rb \<leftarrow> csrr Mtvec;
     mstatus \<leftarrow> csrr Mstatus;
     puts [Str ''restored: mtvec='', Hex rest_rb, Str '' mstatus='', Hex mstatus, Str ''\<newline>''];
     check_n (rest_rb = boot_mtvec) ''mtvec did not restore to the boot value'';
     check_n (mstatus = boot_mstatus) ''mstatus changed during run'';
     State_Monad.return (rest_rb, mstatus) }"

definition mmw_main :: "u64 \<Rightarrow> u64 \<Rightarrow> ('x, unit) prog" where
  "mmw_main vec regs = do {
     puts [Str ''mtvec-mode-war: mtvec MODE WARL write/readback probe\<newline>''];
     mstatus \<leftarrow> csrr Mstatus;
     check_n (mstatus AND MSTATUS_MIE = 0) ''mstatus.MIE set at boot'';
     boot_mtvec \<leftarrow> csrr Mtvec;
     boot_mstatus \<leftarrow> csrr Mstatus;
     puts [Str ''boot: mtvec='', Hex boot_mtvec, Str '' mstatus='', Hex boot_mstatus, Str ''\<newline>''];
     let handler_base = vec AND NOT 3;
     mtvec \<leftarrow> mmw_install handler_base regs;
     ones_rb \<leftarrow> mmw_phase1 ''phase1 ones: mtvec='' (- 1) mtvec ''phase 1: reserved-MODE write was not fully ignored'';
     base_rb \<leftarrow> mmw_phase1 ''phase1 ones-base: mtvec='' (NOT 3) (NOT 3) ''phase 1: all-ones BASE with MODE=0 did not stick'';
     let vec_write = handler_base OR 1;
     vec_rb \<leftarrow> mmw_phase2 ''vectored'' handler_base vec_write;
     dir_rb \<leftarrow> mmw_phase2 ''direct'' handler_base handler_base;
     r \<leftarrow> mmw_restore boot_mtvec boot_mstatus;
     traps \<leftarrow> get_save 0;
     unexpected_traps;
     digest_verdict [boot_mtvec, boot_mstatus, mtvec, - 1, ones_rb, NOT 3, base_rb, vec_write, vec_rb, handler_base, dir_rb,
       fst r, snd r, traps] }"


subsection \<open>mie-write-readback\<close>

definition mwr_write :: "string \<Rightarrow> u64 \<Rightarrow> ('x, u64) prog" where
  "mwr_write label w = do {
     csrw Mie w;
     rb \<leftarrow> csrr Mie;
     puts [Str label, Hex rb, Str ''\<newline>''];
     State_Monad.return rb }"

text \<open>The per-bit loop, with the union of the bits that stuck and the values it feeds to the digest.\<close>

fun mwr_bits :: "nat list \<Rightarrow> u64 \<Rightarrow> ('x, u64 \<times> u64 list) prog" where
  "mwr_bits [] u = State_Monad.return (u, [])"
| "mwr_bits (b # bs) u = do {
     csrw Mie (push_bit b 1);
     rb \<leftarrow> csrr Mie;
     puts [Str ''  bit '', Dec (of_nat b), Str '': mie='', Hex rb, Str ''\<newline>''];
     (if rb \<noteq> push_bit b 1 \<and> rb \<noteq> 0 then check_n False ''phase 2: per-bit write read back stray bits'' else State_Monad.return ());
     r \<leftarrow> mwr_bits bs (if rb = push_bit b 1 then u OR rb else u);
     State_Monad.return (fst r, push_bit b 1 # rb # snd r) }"

definition mwr_setup :: "u64 \<Rightarrow> u64 \<Rightarrow> ('x, unit) prog" where
  "mwr_setup vec regs = do {
     mstatus \<leftarrow> csrr Mstatus;
     check_n (mstatus AND MSTATUS_MIE = 0) ''mstatus.MIE set at boot'';
     csrw Mtvec vec;
     csrw Mscratch regs;
     mtvec \<leftarrow> csrr Mtvec;
     puts [Str ''trap: mtvec='', Hex mtvec, Str ''\<newline>''];
     check_n (mtvec AND NOT 3 = vec) ''mtvec did not take the handler address'';
     check_n (mtvec AND 3 = 0) ''mtvec not in direct mode'' }"

definition mwr_restore :: "u64 \<Rightarrow> ('x, u64 \<times> u64) prog" where
  "mwr_restore boot_mie = do {
     csrw Mie boot_mie;
     mie \<leftarrow> csrr Mie;
     mstatus \<leftarrow> csrr Mstatus;
     puts [Str ''restored: mie='', Hex mie, Str '' mstatus='', Hex mstatus, Str ''\<newline>''];
     check_n (mie = boot_mie) ''mie did not restore to the boot value'';
     check_n (mstatus AND MSTATUS_MIE = 0) ''mstatus.MIE changed during run'';
     State_Monad.return (mie, mstatus) }"

definition mwr_main :: "u64 \<Rightarrow> u64 \<Rightarrow> ('x, unit) prog" where
  "mwr_main vec regs = do {
     puts [Str ''mie-write-readback: mie all-ones WARL write/readback probe\<newline>''];
     mwr_setup vec regs;
     boot_mie \<leftarrow> csrr Mie;
     boot_mstatus \<leftarrow> csrr Mstatus;
     boot_mideleg \<leftarrow> csrr Mideleg;
     puts [Str ''boot: mie='', Hex boot_mie, Str '' mstatus='', Hex boot_mstatus, Str '' mideleg='', Hex boot_mideleg, Str ''\<newline>''];
     check_n (boot_mstatus AND MSTATUS_MIE = 0) ''mstatus.MIE not clear at boot'';
     r1 \<leftarrow> mwr_write ''phase1 ones: mie='' (- 1);
     z \<leftarrow> mwr_write ''phase1 zero: mie='' 0;
     check_n (z = 0) ''phase 1: zero write did not read back 0'';
     u \<leftarrow> mwr_bits [0..<12] 0;
     check_n (fst u \<noteq> 0 \<or> r1 = 0) ''phase 2: no bit stuck but phase 1 read back nonzero'';
     puts [Str ''phase2 sticky-union: mie='', Hex (fst u), Str ''\<newline>''];
     rb \<leftarrow> mwr_write ''phase3 ones: mie='' (- 1);
     check_n (rb = r1) ''phase 3: all-ones readback differs from phase 1'';
     check_n (rb AND 0xfff = fst u) ''phase 3: low-12-bit all-ones readback differs from per-bit union'';
     r \<leftarrow> mwr_restore boot_mie;
     traps \<leftarrow> get_save 0;
     unexpected_traps;
     digest_verdict ([boot_mie, boot_mstatus, boot_mideleg, - 1, r1, z] @ snd u @ [fst u, rb, fst r, snd r, traps]) }"


subsection \<open>misa-mxl-warl\<close>

abbreviation (input) MXL_MASK :: u64 where "MXL_MASK \<equiv> push_bit 62 3"
abbreviation (input) EXT_MASK :: u64 where "EXT_MASK \<equiv> 0x3FFFFFF"

text \<open>The vector and the trap report are those of \<open>misa-readonly\<close>. The model goes on in 64-bit mode even on a hart that takes the write.\<close>

definition mxl_main :: "u64 \<Rightarrow> u64 \<Rightarrow> ('x, unit) prog" where
  "mxl_main vec regs = do {
     puts [Str ''misa-mxl-warl: misa.MXL WARL legalization check\<newline>''];
     misa_vector vec regs;
     boot \<leftarrow> read_misa;
     puts [Str ''boot: misa='', Hex boot, Str ''\<newline>''];
     let attempt = (boot AND NOT MXL_MASK) OR push_bit 62 1;
     write_misa attempt;
     puts [Str ''write: value='', Hex attempt, Str ''\<newline>''];
     readback \<leftarrow> read_misa;
     puts [Str ''readback: misa='', Hex readback, Str ''\<newline>''];
     check (drop_bit 62 readback AND 3 = 2) (''MXL field changed: the write altered the hart'' @ [CHR 0x27] @ ''s XLEN encoding'');
     check (readback AND EXT_MASK = boot AND EXT_MASK) ''extension bits 25:0 differ from the boot value'';
     write_misa boot;
     restored \<leftarrow> read_misa;
     puts [Str ''restore: misa='', Hex restored, Str ''\<newline>''];
     check (restored = boot) ''restoring the boot misa value did not read back exactly'';
     misa_traps;
     count \<leftarrow> get_save 3;
     puts [Str ''checksum='', Hex (foldl fnv64 0xCBF29CE484222325 [boot, attempt, readback, restored, count]), Str ''\<newline>''];
     f \<leftarrow> get_fails;
     if f = 0 then do { puts [Str ''RESULT: PASS\<newline>'']; finish 0x5555 }
     else puts [Str ''RESULT: FAIL\<newline>''] }"

text \<open>Its trap entry records and counts, but neither skips the instruction nor restores t1.\<close>

definition mxl_trap_entry :: "u64 \<Rightarrow> ('y modes_ext, unit) prog" where
  "mxl_trap_entry regs = do {
     base \<leftarrow> csrr Mscratch;
     if base \<noteq> regs then State (\<lambda>s. ((), s\<lparr>stuck := True\<rparr>))
     else do {
       c \<leftarrow> csrr Mcause; put_save 0 c;
       e \<leftarrow> csrr Mepc; put_save 1 e;
       v \<leftarrow> csrr Mtval; put_save 2 v;
       n \<leftarrow> get_save 3; put_save 3 (n + 1);
       put_reg xt1 (n + 1);
       mret } }"


subsection \<open>Verdicts\<close>

lemma run_count [simp]: "run_state (State (\<lambda>s. ((), f s))) s = ((), f s)"
  by simp

lemma digest_trap_skips:
  assumes "csrf (hw s) Mscratch = regs" "legal (hw s) Mepc a (a + 4) = a + 4" "csrf (hw s) Mepc = a"
  defines "t \<equiv> final (digest_trap_entry regs) s"
  shows "pc (hw t) = a + 4 \<and> save t 0 = save s 0 + 1 \<and> save t 1 = csrf (hw s) Mcause \<and> reg_get r (hw t) = reg_get r (hw s)"
  using assms by (simp add: t_def digest_trap_entry_def final_def warl_run) (simp add: do_mret_def)

text \<open>A trap in the MXL probe never gets past its instruction: the entry returns to it, with the count in t1.\<close>

lemma mxl_trap_repeats:
  assumes "csrf (hw s) Mscratch = regs"
  defines "t \<equiv> final (mxl_trap_entry regs) s"
  shows "pc (hw t) = csrf (hw s) Mepc \<and> save t 3 = save s 3 + 1 \<and> reg_get xt1 (hw t) = save s 3 + 1"
proof -
  have "run_state (put_reg r v) s = ((), s\<lparr>hw := reg_set r v (hw s)\<rparr>)" for r v and s :: "'a modes_scheme"
    by (simp add: put_reg_def on_hart_def)
  with assms show ?thesis by (simp add: t_def mxl_trap_entry_def final_def warl_run exec_step) (simp add: do_mret_def reg_set_def)
qed

lemma run_unexpected:
  "\<exists>ps. run_state unexpected_traps s = ((), (emit ps s)\<lparr>fails := fails s + of_bool (save s 0 \<noteq> 0), nchecks := nchecks s + of_bool (save s 0 \<noteq> 0)\<rparr>)"
proof (cases "save s 0 = 0")
  case True
  then show ?thesis
    by (cases s) (auto simp: unexpected_traps_def exec_basic exec_only_if exec_assoc emit_def)
next
  case False
  then show ?thesis
    by (cases s) (auto simp: unexpected_traps_def exec_basic exec_only_if exec_assoc run_count [THEN exec_step] emit_def text_of_append [symmetric])
qed

lemma unexpected_end:
  "finisher (snd (run_state (unexpected_traps \<bind> (\<lambda>_. digest_verdict vs)) s)) =
    (if fails s = 0 \<and> save s 0 = 0 then Some 0x5555 else finisher s)"
proof -
  obtain ps where u: "run_state unexpected_traps s =
      ((), (emit ps s)\<lparr>fails := fails s + of_bool (save s 0 \<noteq> 0), nchecks := nchecks s + of_bool (save s 0 \<noteq> 0)\<rparr>)"
    using run_unexpected by blast
  show ?thesis by (simp add: exec_step [OF u] digest_verdict_def exec_basic)
qed

lemmas mwrite_run = probe_run exec_assoc Let_def

lemma mmw_verdict:
  fixes s :: "'x probe_scheme" and vec :: u64
  defines "L \<equiv> legal (hw s) Mtvec" and "b \<equiv> csrf (hw s) Mtvec" and "v \<equiv> vec AND NOT 3"
  assumes "finisher s = None"
  shows "finisher (final (mmw_main vec regs) s) =
    (if fails s = 0 \<and> save s 0 = 0 \<and> csrf (hw s) Mstatus AND MSTATUS_MIE = 0 \<and> L b v = v \<and> L v (- 1) = v \<and> L v (NOT 3) = NOT 3 \<and>
        (let x = L (NOT 3) (v OR 1); y = L x v in x AND 3 \<le> 1 \<and> x AND NOT 3 = v \<and> y AND 3 \<le> 1 \<and> y AND NOT 3 = v \<and> L y b = b)
     then Some 0x5555 else None)"
  using assms
  by (cases s) (simp add: mwrite_run mmw_main_def mmw_install_def mmw_phase1_def mmw_phase2_def mmw_restore_def unexpected_end
      cong: probe_cong, auto)

lemma mxl_verdict:
  assumes "finisher s = None"
  shows "finisher (final (mxl_main vec regs) s) =
    (let L = legal (hw s) Misa; b = csrf (hw s) Misa; r = L b ((b AND NOT MXL_MASK) OR push_bit 62 1);
         t = legal (hw s) Mtvec (csrf (hw s) Mtvec) vec in
     if fails s = 0 \<and> save s 3 = 0 \<and> t AND NOT 3 = vec \<and> t AND 3 = 0 \<and> drop_bit 62 r AND 3 = 2 \<and> r AND EXT_MASK = b AND EXT_MASK \<and> L r b = b
     then Some 0x5555 else None)"
  using assms
  by (cases s) (simp add: mwrite_run mxl_main_def misa_vector_def misa_traps_def read_misa_def write_misa_def exec_only_if cong: probe_cong)

text \<open>The loop on a register with writable bits \<open>w\<close>, from a state in which only these can be set.\<close>

definition bit_union :: "u64 \<Rightarrow> nat list \<Rightarrow> u64 \<Rightarrow> u64" where
  "bit_union w bs u = foldl (\<lambda>u b. if bit w b then u OR push_bit b 1 else u) u bs"

lemma bit_union_bits: "list_all (\<lambda>b. b < 64) bs \<Longrightarrow> bit (bit_union w bs u) n \<longleftrightarrow> bit u n \<or> n \<in> set bs \<and> bit w n"
  by (induction bs arbitrary: u) (auto simp: bit_union_def bit_or_iff shifted_bits simp del: push_bit_of_1)

lemma low_twelve: "bit_union w [0..<12] 0 = w AND 0xfff"
proof -
  have "bit (bit_union w [0..<12] 0) n = bit (w AND mask 12) n" for n
    using bit_union_bits [of "[0..<12]" w 0 n] by (auto simp: bit_simps list_all_iff)
  then have "bit_union w [0..<12] 0 = w AND mask 12" by (intro bit_eqI)
  then show ?thesis by (simp add: mask_eq_exp_minus_1)
qed

definition mwr_said :: "nat list \<Rightarrow> u64 \<Rightarrow> 'x probe_scheme \<Rightarrow> string" where
  "mwr_said bs u s = out (snd (run_state (mwr_bits bs u) s))"

definition mwr_fed :: "nat list \<Rightarrow> u64 \<Rightarrow> 'x probe_scheme \<Rightarrow> u64 list" where
  "mwr_fed bs u s = snd (fst (run_state (mwr_bits bs u) s))"

lemma masked_bit_write:
  assumes "old AND NOT w = 0" "b < 64"
  shows "masked w old (push_bit b 1) = (if bit w b then push_bit b 1 else 0)"
proof -
  have "masked w old (push_bit b 1) = push_bit b 1 AND w" using assms(1) by (simp add: masked_def)
  also have "\<dots> = (if bit w b then push_bit b 1 else 0)"
    by (rule bit_word_eqI) (auto simp: bit_and_iff shifted_bits simp del: push_bit_of_1)
  finally show ?thesis .
qed

lemma run_mwr_bits:
  assumes "legal (hw s) Mie = masked w" "csrf (hw s) Mie AND NOT w = 0" "list_all (\<lambda>b. b < 64) bs"
  shows "run_state (mwr_bits bs u) s = ((bit_union w bs u, mwr_fed bs u s),
    s\<lparr>out := mwr_said bs u s, hw := fold (\<lambda>b. csr_store Mie (push_bit b 1)) bs (hw s)\<rparr>)"
  using assms
proof (induction bs arbitrary: u s)
  case Nil
  then show ?case by (simp add: mwr_fed_def mwr_said_def bit_union_def)
next
  case (Cons b bs)
  note [simp del] = push_bit_of_1
  define x :: u64 where "x = (if bit w b then push_bit b 1 else 0)"
  let ?h = "csr_store Mie (push_bit b 1) (hw s)"
  let ?t = "emit [Str ''  bit '', Dec (of_nat b), Str '': mie='', Hex x, Str ''\<newline>''] (s\<lparr>hw := ?h\<rparr>)"
  define v where "v = (if x = push_bit b 1 then u OR x else u)"
  have b: "b < 64" using Cons.prems(3) by simp
  have m: "masked w (csrf (hw s) Mie) (push_bit b 1) = x" unfolding x_def by (rule masked_bit_write [OF Cons.prems(2) b])
  have nz: "push_bit b 1 \<noteq> (0 :: u64)" using shifted_bits(1) [of b b] b by (metis bit_0_eq bot_apply bot_bool_def)
  have w: "x AND NOT w = 0" by (rule bit_word_eqI) (auto simp: x_def bit_and_iff bit_not_iff_eq shifted_bits)
  from Cons.IH [of ?t v] Cons.prems w m have ih: "run_state (mwr_bits bs v) ?t = ((bit_union w bs v, mwr_fed bs v ?t),
      ?t\<lparr>out := mwr_said bs v ?t, hw := fold (\<lambda>b. csr_store Mie (push_bit b 1)) bs ?h\<rparr>)" by simp
  have u: "bit_union w bs v = bit_union w (b # bs) u" using nz by (simp add: bit_union_def x_def v_def)
  have "run_state (mwr_bits (b # bs) u) s = run_state (mwr_bits bs v \<bind> (\<lambda>r. State_Monad.return (fst r, push_bit b 1 # x # snd r))) ?t"
    using m Cons.prems(1) nz by (cases "bit w b") (simp_all add: exec_basic x_def v_def)
  then have "run_state (mwr_bits (b # bs) u) s = ((bit_union w (b # bs) u, push_bit b 1 # x # mwr_fed bs v ?t),
      ?t\<lparr>out := mwr_said bs v ?t, hw := fold (\<lambda>b. csr_store Mie (push_bit b 1)) bs ?h\<rparr>)"
    unfolding exec_step [OF ih] by (simp add: u)
  then show ?case by (simp add: mwr_fed_def mwr_said_def emit_def del: mwr_bits.simps)
qed

lemma mie_writes:
  fixes bs :: "nat list"
  assumes "legal h Mie = masked w" "csrf h Mie AND NOT w = 0"
  defines "h' \<equiv> fold (\<lambda>b. csr_store Mie (push_bit b 1)) bs h"
  shows "legal h' = legal h" "csrf h' Mie AND NOT w = 0" "c \<noteq> Mie \<Longrightarrow> csrf h' c = csrf h c"
proof -
  have "legal h' = legal h \<and> csrf h' Mie AND NOT w = 0 \<and> (\<forall>c. c \<noteq> Mie \<longrightarrow> csrf h' c = csrf h c)"
    using assms(1,2) unfolding h'_def
  proof (induction bs arbitrary: h)
    case (Cons b bs)
    have "masked w (csrf h Mie) (push_bit b 1) AND NOT w = 0"
      using Cons.prems(2) by (intro bit_word_eqI) (auto simp: masked_def bit_eq_iff bit_and_iff bit_or_iff bit_not_iff_eq)
    with Cons.IH [of "csr_store Mie (push_bit b 1) h"] Cons.prems show ?case by simp
  qed simp
  then show "legal h' = legal h" "csrf h' Mie AND NOT w = 0" "c \<noteq> Mie \<Longrightarrow> csrf h' c = csrf h c" by simp_all
qed

lemma masked_extremes:
  assumes "old AND NOT w = 0"
  shows "masked w old (- 1) = w" "masked w old 0 = 0" "v AND NOT w = 0 \<Longrightarrow> masked w old v = v"
proof -
  have m: "masked w old x = x AND w" for x using assms by (simp add: masked_def)
  then show "masked w old (- 1) = w" "masked w old 0 = 0" by simp_all
  have "v = (v AND w) OR (v AND NOT w)" by (rule bit_word_eqI) (auto simp: bit_and_iff bit_or_iff bit_not_iff_eq)
  then show "v AND NOT w = 0 \<Longrightarrow> masked w old v = v" unfolding m by simp
qed

lemma mwr_verdict:
  assumes w: "legal (hw s) Mie = masked w" "csrf (hw s) Mie AND NOT w = 0" and s: "finisher s = None"
  shows "finisher (final (mwr_main vec regs) s) =
    (let t = legal (hw s) Mtvec (csrf (hw s) Mtvec) vec in
     if fails s = 0 \<and> save s 0 = 0 \<and> csrf (hw s) Mstatus AND MSTATUS_MIE = 0 \<and> t AND NOT 3 = vec \<and> t AND 3 = 0 \<and> (w AND 0xfff \<noteq> 0 \<or> w = 0)
     then Some 0x5555 else None)"
proof -
  have z: "(0 :: u64) AND NOT w = 0" "w AND NOT w = 0" "list_all (\<lambda>b. b < 64) [0..<12]" by (simp_all add: list_all_iff)
  show ?thesis
    using assms z
    by (cases s) (simp add: mwrite_run mwr_main_def mwr_setup_def mwr_write_def mwr_restore_def unexpected_end masked_extremes
        run_mwr_bits [THEN exec_step] mie_writes low_twelve cong: probe_cong del: upt.simps upt_rec_numeral push_bit_of_1)
qed


subsection \<open>Properties\<close>


definition write_example :: probe where
  "write_example = \<lparr>out = [], hw = \<lparr>gpr = \<lambda>_. 0, csrf = (\<lambda>_. 0)(Misa := 0x8000000000000000), ram = \<lambda>_. 0, pc = 0, priv = MMode,
     clock = \<lambda>_. (0, 0), retired = 0,
     legal = (\<lambda>c old v. if c = Mtvec then (if v AND 3 > 1 then old else v) else if c = Mie then masked 0xaaa old v else old), instret = \<lambda>_. 0\<rparr>,
     fails = 0, nchecks = 0, save = \<lambda>_. 0, finisher = None, overrun = []\<rparr>"


end
