(* ===== verification/Deleg.thy ===== *)
theory Deleg
  imports Gate
begin

text \<open>
  Three experiments on where an exception from S-mode goes as its bit of \<open>medeleg\<close> flips: \<open>src/src/medeleg-ecall-destination\<close> (\<open>mede\<close>,
  bit 9), \<open>medeleg-breakpoint\<close> (\<open>mebk\<close>, bit 3) and \<open>medeleg-illegal-inst-route\<close> (\<open>mili\<close>, bit 2). Phase 1 traps with \<open>medeleg\<close> zeroed; the
  M-mode entry records the trap and jumps to a continuation in M-mode, which delegates the exception and drops to S-mode
  again; phase 2 traps once more, the S-mode entry skips the instruction, and the program reports.

  The theorem follows the run on every hart, whatever \<open>medeleg\<close> keeps of the two values written: a hart that cannot clear the bit, or cannot
  set it, leaves the program parked without a verdict.
\<close>

unbundle bit_operations_syntax


subsection \<open>State and symbols\<close>

text \<open>
  The trap records, the done flag and the globals of the programs, whose names differ only in \<open>p1_ecall_addr\<close>, \<open>p1_brk_addr\<close>, \<open>p1_ill_addr\<close>. The
  last two fields belong to the program of theory Udeleg, which shares the state.
\<close>

record deleg = modes +
  dm_regs :: "nat \<Rightarrow> u64"
  ds_regs :: "nat \<Rightarrow> u64"
  s_done :: u64
  p1_addr :: u64
  p2_addr :: u64
  boot_medeleg :: u64
  p1_medeleg_rb :: u64
  p2_medeleg_rb :: u64
  p1_m_traps :: u64
  p1_s_traps :: u64
  restore_armed :: u64
  restore_rb :: u64

type_synonym dprog = "(unit deleg_ext modes_ext, unit) prog"

text \<open>
  The symbols, the register that holds \<open>addr\<close> in \<open>smode_phase2\<close>, and the trap value the hart reports, which the architecture leaves to the
  hart for both a breakpoint and an illegal instruction.
\<close>

record dl_syms =
  a_main :: u64
  a_mtrap :: u64
  a_strap :: u64
  a_m_regs :: u64
  a_s_regs :: u64
  a_done :: u64
  a_phase1 :: u64
  a_phase2_mmode :: u64
  a_phase2 :: u64
  trap_1 :: u64
  trap_2 :: u64
  q_addr :: nat
  hart_tval :: u64

definition gets_d :: "(deleg \<Rightarrow> 'a) \<Rightarrow> (unit deleg_ext modes_ext, 'a) prog" where
  "gets_d f = State (\<lambda>s. (f s, s))"

definition sets_d :: "(deleg \<Rightarrow> deleg) \<Rightarrow> dprog" where
  "sets_d f = State (\<lambda>s. ((), f s))"


subsection \<open>Trap entries\<close>

text \<open>
  The M-mode entry: \<open>mscratch\<close> holds the interrupted t0 while the entry runs. Slot 7 is the continuation, entered in M-mode; zero parks the hart.
\<close>

definition route_m_entry :: "bool \<Rightarrow> u64 \<Rightarrow> dprog" where
  "route_m_entry with_tval regs = do {
     t0 \<leftarrow> get_reg xt0;
     base \<leftarrow> csrrw Mscratch t0;
     if base \<noteq> regs then sets_d (\<lambda>s. s\<lparr>stuck := True\<rparr>)
     else do {
       t1 \<leftarrow> get_reg xt1; t2 \<leftarrow> get_reg xt2;
       cause \<leftarrow> csrr Mcause; epc \<leftarrow> csrr Mepc; st \<leftarrow> csrr Mstatus; tv \<leftarrow> csrr Mtval;
       sets_d (\<lambda>s. s\<lparr>dm_regs := (dm_regs s)(1 := t1, 6 := t2, 0 := dm_regs s 0 + 1, 2 := cause, 3 := epc, 4 := st)\<rparr>);
       sets_d (\<lambda>s. if with_tval then s\<lparr>dm_regs := (dm_regs s)(8 := tv)\<rparr> else s);
       k \<leftarrow> gets_d (\<lambda>s. dm_regs s 7);
       if k = 0 then park
       else do {
         csrw Mepc k;
         st \<leftarrow> csrr Mstatus;
         csrw Mstatus (st OR 0x1800);
         csrw Mscratch base;
         mret } } }"

text \<open>The S-mode entry skips the instruction and raises the flag slot 5 points to.\<close>

definition route_s_entry :: "bool \<Rightarrow> u64 \<Rightarrow> u64 \<Rightarrow> dprog" where
  "route_s_entry with_tval regs flag = do {
     t0 \<leftarrow> get_reg xt0;
     base \<leftarrow> csrrw Sscratch t0;
     if base \<noteq> regs then sets_d (\<lambda>s. s\<lparr>stuck := True\<rparr>)
     else do {
       t1 \<leftarrow> get_reg xt1; t2 \<leftarrow> get_reg xt2;
       cause \<leftarrow> csrr Scause; epc \<leftarrow> csrr Sepc;
       csrw Sepc (epc + 4);
       st \<leftarrow> csrr Sstatus; tv \<leftarrow> csrr Stval;
       sets_d (\<lambda>s. s\<lparr>ds_regs := (ds_regs s)(1 := t1, 6 := t2, 0 := ds_regs s 0 + 1, 2 := cause, 3 := epc, 4 := st)\<rparr>);
       sets_d (\<lambda>s. if with_tval then s\<lparr>ds_regs := (ds_regs s)(8 := tv)\<rparr> else s);
       p \<leftarrow> gets_d (\<lambda>s. ds_regs s 5);
       if p \<noteq> flag then sets_d (\<lambda>s. s\<lparr>stuck := True\<rparr>)
       else do {
         sets_d (\<lambda>s. s\<lparr>s_done := 1\<rparr>);
         csrw Sscratch base;
         sret } } }"


subsection \<open>What the programs share\<close>

text \<open>\<open>drop_to_smode\<close>, by \<open>sret\<close>.\<close>

definition sret_to_smode_at :: "u64 \<Rightarrow> ('x, unit) prog" where
  "sret_to_smode_at a = do {
     v \<leftarrow> csrr Sstatus;
     csrw Sstatus (v OR 0x100);
     v \<leftarrow> csrr Mstatus;
     csrw Mstatus ((v AND NOT 0x1800) OR 0x800);
     csrw Sepc a;
     sret }"

definition route_main :: "dl_syms \<Rightarrow> dprog" where
  "route_main y = do {
     csrw Mtvec (a_mtrap y);
     csrw Mscratch (a_m_regs y);
     csrw Stvec (a_strap y);
     csrw Sscratch (a_s_regs y);
     sets_d (\<lambda>s. s\<lparr>ds_regs := (ds_regs s)(5 := a_done y)\<rparr>);
     boot \<leftarrow> csrr Medeleg;
     csrw Medeleg 0;
     rb \<leftarrow> csrr Medeleg;
     sets_d (\<lambda>s. s\<lparr>boot_medeleg := boot, p1_medeleg_rb := rb\<rparr>);
     csrw Pmpaddr0 (- 1);
     csrw Pmpcfg0 0x1f;
     csrw Mie 0;
     csrc Mstatus 8;
     sets_d (\<lambda>s. s\<lparr>dm_regs := (dm_regs s)(7 := a_phase2_mmode y)\<rparr>);
     sret_to_smode_at (a_phase1 y) }"

text \<open>The address of the trap is stored before the instruction runs.\<close>

definition route_phase1 :: "dl_syms \<Rightarrow> dprog" where
  "route_phase1 y = do {
     put_reg xt0 (trap_1 y);
     sets_d (\<lambda>s. s\<lparr>p1_addr := trap_1 y\<rparr>);
     goto (trap_1 y) }"

definition route_phase2_mmode :: "(u64 \<Rightarrow> u64) \<Rightarrow> dl_syms \<Rightarrow> dprog" where
  "route_phase2_mmode want y = do {
     sets_d (\<lambda>s. s\<lparr>dm_regs := (dm_regs s)(7 := 0)\<rparr>);
     old \<leftarrow> csrr Medeleg;
     csrw Medeleg (want old);
     rb \<leftarrow> csrr Medeleg;
     sets_d (\<lambda>s. s\<lparr>p2_medeleg_rb := rb, p1_m_traps := dm_regs s 0, p1_s_traps := ds_regs s 0\<rparr>);
     sret_to_smode_at (a_phase2 y) }"

definition route_phase2 :: "dl_syms \<Rightarrow> dprog" where
  "route_phase2 y = do { put_reg (q_addr y) (trap_2 y); goto (trap_2 y) }"

definition mpp_field :: "u64 \<Rightarrow> u64" where
  "mpp_field st = drop_bit 11 st AND 3"

definition spp_field :: "u64 \<Rightarrow> u64" where
  "spp_field st = drop_bit 8 st AND 1"

definition route_report :: "bool \<Rightarrow> string \<Rightarrow> string \<Rightarrow> dprog" where
  "route_report with_tval title p2_label = do {
     s \<leftarrow> gets_d (\<lambda>s. s);
     let m = dm_regs s; r = ds_regs s in
     puts ([Str title, Str ''boot: medeleg='', Hex (boot_medeleg s), Str ''\<newline>phase1: medeleg-write=0x0 readback='', Hex (p1_medeleg_rb s),
       Str ''\<newline>'', Str p2_label, Hex (p2_medeleg_rb s), Str ''\<newline>p1: m_traps='', Dec (p1_m_traps s), Str '' mcause='', Hex (m 2),
       Str '' mepc='', Hex (m 3), Str '' expected='', Hex (p1_addr s), Str '' mstatus_mpp='', Dec (mpp_field (m 4))] @
       (if with_tval then [Str '' mtval='', Hex (m 8)] else []) @
       [Str '' s_traps='', Dec (p1_s_traps s), Str ''\<newline>p2: s_traps='', Dec (r 0), Str '' scause='', Hex (r 2),
       Str '' sepc='', Hex (r 3), Str '' expected='', Hex (p2_addr s), Str '' sstatus_spp='', Dec (spp_field (r 4))] @
       (if with_tval then [Str '' stval='', Hex (r 8)] else []) @
       [Str '' m_traps='', Dec (m 0), Str ''\<newline>'']) }"

text \<open>The quiet window counts to two million and nothing can interrupt it.\<close>

primrec count_up :: "nat \<Rightarrow> nat \<Rightarrow> nat" where
  "count_up 0 spins = spins"
| "count_up (Suc left) spins = count_up left (Suc spins)"

definition quiet_window :: "(bool \<Rightarrow> string \<Rightarrow> dprog) \<Rightarrow> dprog" where
  "quiet_window chk = do {
     _ \<leftarrow> State_Monad.return (count_up 2000000 0);
     m \<leftarrow> gets_d dm_regs; r \<leftarrow> gets_d ds_regs;
     puts [Str ''quiet: m_traps='', Dec (m 0), Str '' s_traps='', Dec (r 0), Str ''\<newline>''];
     chk (m 0 = 1 \<and> r 0 = 1) ''trap count moved during the quiet window'' }"

definition route_values :: "deleg \<Rightarrow> u64 list" where
  "route_values s = [dm_regs s 0, dm_regs s 2, dm_regs s 3, ds_regs s 0, ds_regs s 2, ds_regs s 3, p1_medeleg_rb s, p2_medeleg_rb s]"

definition route_checksum :: dprog where
  "route_checksum = do {
     vals \<leftarrow> gets_d route_values;
     puts [Str ''checksum='', Hex (foldl fnv64 0xcbf29ce484222325 vals), Str ''\<newline>''] }"

text \<open>The verdict of the two programs that count their checks and shut the machine down.\<close>

definition route_verdict :: dprog where
  "route_verdict = do {
     f \<leftarrow> get_fails; n \<leftarrow> get_nchecks;
     if f = 0 then do {
       puts [Str ''RESULT: PASS (checks='', Dec (of_nat n), Str '')\<newline>''];
       finish FINISHER_PASS;
       park }
     else do {
       puts [Str ''RESULT: FAIL (checks='', Dec (of_nat n), Str '' fails='', Dec (of_nat f), Str '')\<newline>'', Str ''done\<newline>''];
       park } }"

text \<open>\<open>smode_phase2\<close> after the trap.\<close>

definition route_resumed :: "bool \<Rightarrow> string \<Rightarrow> string \<Rightarrow> dprog \<Rightarrow> (bool \<Rightarrow> string \<Rightarrow> dprog) \<Rightarrow> dprog \<Rightarrow> dl_syms \<Rightarrow> dprog" where
  "route_resumed with_tval title p2_label checks chk verdict y = do {
     addr \<leftarrow> get_reg (q_addr y);
     sets_d (\<lambda>s. s\<lparr>p2_addr := addr\<rparr>);
     route_report with_tval title p2_label;
     checks;
     quiet_window chk;
     route_checksum;
     verdict }"


subsection \<open>medeleg-ecall-destination\<close>

definition mede_checks :: dprog where
  "mede_checks = do {
     s \<leftarrow> gets_d (\<lambda>s. s);
     let m = dm_regs s; r = ds_regs s in do {
       check (p1_medeleg_rb s = 0) ''phase-1 medeleg readback != 0'';
       check (p1_medeleg_rb s AND 0x200 = 0) ''phase-1 medeleg readback has bit 9 set'';
       check (p1_m_traps s = 1) ''phase-1 M-mode trap did not fire exactly once'';
       check (m 2 = 9) ''phase-1 mcause != environment call from S-mode (9)'';
       check (m 3 = p1_addr s) ''phase-1 mepc != ecall address'';
       check (mpp_field (m 4) = 1) ''phase-1 trap did not arrive from S-mode (mstatus.MPP)'';
       check (p1_s_traps s = 0) ''phase-1 S-mode trap fired with medeleg bit 9 clear'';
       check (p2_medeleg_rb s AND 0x200 \<noteq> 0) ''phase-2 medeleg readback missing bit 9'';
       check (r 0 = 1) ''phase-2 S-mode trap did not fire exactly once'';
       check (r 2 = 9) ''phase-2 scause != environment call from S-mode (9)'';
       check (r 3 = p2_addr s) ''phase-2 sepc != ecall address'';
       check (spp_field (r 4) = 1) ''phase-2 trap did not arrive from S-mode (sstatus.SPP)'';
       check (r 0 = 1 \<and> m 0 = 1) ''trap leaked into the wrong mode's handler'' } }"

definition mede_verdict :: dprog where
  "mede_verdict = do {
     f \<leftarrow> get_fails;
     puts ((if f = 0 then [Str ''RESULT: PASS\<newline>''] else [Str ''RESULT: FAIL ('', Dec (of_nat f), Str '' checks failed)\<newline>'']) @ [Str ''done\<newline>'']);
     park }"

definition mede_report :: "dl_syms \<Rightarrow> dprog" where
  "mede_report = route_resumed False ''medeleg-ecall-destination: S-mode ecall destination switch test\<newline>'' ''phase2: medeleg-write=0x200 readback=''
     mede_checks check mede_verdict"

definition mede_main :: "dl_syms \<Rightarrow> dprog" where
  "mede_main = route_main"

definition mede_smode_phase1 :: "dl_syms \<Rightarrow> dprog" where
  "mede_smode_phase1 = route_phase1"

definition mede_phase2_mmode :: "dl_syms \<Rightarrow> dprog" where
  "mede_phase2_mmode = route_phase2_mmode (\<lambda>_. 0x200)"

definition mede_smode_phase2 :: "dl_syms \<Rightarrow> dprog" where
  "mede_smode_phase2 = route_phase2"

definition mede_m_trap_entry :: "dl_syms \<Rightarrow> dprog" where
  "mede_m_trap_entry y = route_m_entry False (a_m_regs y)"

definition mede_s_trap_entry :: "dl_syms \<Rightarrow> dprog" where
  "mede_s_trap_entry y = route_s_entry False (a_s_regs y) (a_done y)"

definition mede_code :: "dl_syms \<Rightarrow> (u64 \<times> dprog) list" where
  "mede_code y =
    [(a_main y, mede_main y),
     (a_mtrap y, mede_m_trap_entry y),
     (a_strap y, mede_s_trap_entry y),
     (a_phase1 y, mede_smode_phase1 y),
     (trap_1 y, ecall (trap_1 y)),
     (trap_1 y + 4, park),
     (a_phase2_mmode y, mede_phase2_mmode y),
     (a_phase2 y, mede_smode_phase2 y),
     (trap_2 y, ecall (trap_2 y)),
     (trap_2 y + 4, mede_report y)]"

lemmas mede_blocks = mede_code_def mede_main_def mede_smode_phase1_def mede_phase2_mmode_def mede_smode_phase2_def mede_m_trap_entry_def mede_s_trap_entry_def


subsection \<open>medeleg-breakpoint\<close>

text \<open>\<open>.word 0x00100073\<close>, the four-byte \<open>ebreak\<close>.\<close>

definition ebreak :: "u64 \<Rightarrow> u64 \<Rightarrow> ('x, unit) prog" where
  "ebreak tv site = on_hart (route 3 site tv)"

definition mebk_checks :: dprog where
  "mebk_checks = do {
     s \<leftarrow> gets_d (\<lambda>s. s);
     let m = dm_regs s; r = ds_regs s in do {
       check_n (p1_medeleg_rb s AND 8 = 0) ''phase-1 medeleg readback has bit 3 set'';
       check_n (p1_m_traps s = 1) ''phase-1 M-mode trap did not fire exactly once'';
       check_n (m 2 = 3) ''phase-1 mcause != breakpoint (3)'';
       check_n (m 3 = p1_addr s) ''phase-1 mepc != ebreak address'';
       check_n (mpp_field (m 4) = 1) ''phase-1 trap did not arrive from S-mode (mstatus.MPP)'';
       check_n (p1_s_traps s = 0) ''phase-1 S-mode trap fired with medeleg bit 3 clear'';
       check_n (p2_medeleg_rb s AND 8 \<noteq> 0) ''phase-2 medeleg readback missing bit 3'';
       check_n (p2_medeleg_rb s = 8) ''phase-2 medeleg readback != 0x8 (bit 3 alone)'';
       check_n (r 0 = 1) ''phase-2 S-mode trap did not fire exactly once'';
       check_n (r 2 = 3) ''phase-2 scause != breakpoint (3)'';
       check_n (r 3 = p2_addr s) ''phase-2 sepc != ebreak address'';
       check_n (spp_field (r 4) = 1) ''phase-2 trap did not arrive from S-mode (sstatus.SPP)'';
       check_n (m 0 = 1 \<and> r 0 = 1) ''trap leaked into the wrong mode's handler'' } }"

definition mebk_report :: "dl_syms \<Rightarrow> dprog" where
  "mebk_report = route_resumed True ''medeleg-breakpoint-route: breakpoint trap destination switch test\<newline>'' ''phase2: medeleg bit3 set readback=''
     mebk_checks check_n route_verdict"

definition mebk_main :: "dl_syms \<Rightarrow> dprog" where
  "mebk_main = route_main"

definition mebk_smode_phase1 :: "dl_syms \<Rightarrow> dprog" where
  "mebk_smode_phase1 = route_phase1"

definition mebk_phase2_mmode :: "dl_syms \<Rightarrow> dprog" where
  "mebk_phase2_mmode = route_phase2_mmode (\<lambda>old. old OR 8)"

definition mebk_smode_phase2 :: "dl_syms \<Rightarrow> dprog" where
  "mebk_smode_phase2 = route_phase2"

definition mebk_m_trap_entry :: "dl_syms \<Rightarrow> dprog" where
  "mebk_m_trap_entry y = route_m_entry True (a_m_regs y)"

definition mebk_s_trap_entry :: "dl_syms \<Rightarrow> dprog" where
  "mebk_s_trap_entry y = route_s_entry True (a_s_regs y) (a_done y)"

definition mebk_code :: "dl_syms \<Rightarrow> (u64 \<times> dprog) list" where
  "mebk_code y =
    [(a_main y, mebk_main y),
     (a_mtrap y, mebk_m_trap_entry y),
     (a_strap y, mebk_s_trap_entry y),
     (a_phase1 y, mebk_smode_phase1 y),
     (trap_1 y, ebreak (hart_tval y) (trap_1 y)),
     (trap_1 y + 4, park),
     (a_phase2_mmode y, mebk_phase2_mmode y),
     (a_phase2 y, mebk_smode_phase2 y),
     (trap_2 y, ebreak (hart_tval y) (trap_2 y)),
     (trap_2 y + 4, mebk_report y)]"

lemmas mebk_blocks = mebk_code_def mebk_main_def mebk_smode_phase1_def mebk_phase2_mmode_def mebk_smode_phase2_def mebk_m_trap_entry_def mebk_s_trap_entry_def


subsection \<open>medeleg-illegal-inst-route\<close>

text \<open>\<open>.word 0xffffffff\<close>, which no extension defines.\<close>

definition illegal_word :: "u64 \<Rightarrow> u64 \<Rightarrow> ('x, unit) prog" where
  "illegal_word tv site = on_hart (route 2 site tv)"

definition mili_checks :: dprog where
  "mili_checks = do {
     s \<leftarrow> gets_d (\<lambda>s. s);
     let m = dm_regs s; r = ds_regs s in do {
       check_n (p1_medeleg_rb s AND 4 = 0) ''phase-1 medeleg readback has bit 2 set'';
       check_n (p1_m_traps s = 1) ''phase-1 M-mode trap did not fire exactly once'';
       check_n (m 2 = 2) ''phase-1 mcause != illegal instruction (2)'';
       check_n (m 3 = p1_addr s) ''phase-1 mepc != illegal-word address'';
       check_n (mpp_field (m 4) = 1) ''phase-1 trap did not arrive from S-mode (mstatus.MPP)'';
       check_n (p1_s_traps s = 0) ''phase-1 S-mode trap fired with medeleg bit 2 clear'';
       check_n (p2_medeleg_rb s AND 4 \<noteq> 0) ''phase-2 medeleg readback missing bit 2'';
       check_n (r 0 = 1) ''phase-2 S-mode trap did not fire exactly once'';
       check_n (r 2 = 2) ''phase-2 scause != illegal instruction (2)'';
       check_n (r 3 = p2_addr s) ''phase-2 sepc != illegal-word address'';
       check_n (spp_field (r 4) = 1) ''phase-2 trap did not arrive from S-mode (sstatus.SPP)'';
       check_n (m 0 = 1 \<and> r 0 = 1) ''trap leaked into the wrong mode's handler'' } }"

definition mili_report :: "dl_syms \<Rightarrow> dprog" where
  "mili_report = route_resumed True ''medeleg-illegal-inst-route: illegal-instruction trap destination switch test\<newline>''
     ''phase2: medeleg bit2 set readback='' mili_checks check_n route_verdict"

definition mili_main :: "dl_syms \<Rightarrow> dprog" where
  "mili_main = route_main"

definition mili_smode_phase1 :: "dl_syms \<Rightarrow> dprog" where
  "mili_smode_phase1 = route_phase1"

definition mili_phase2_mmode :: "dl_syms \<Rightarrow> dprog" where
  "mili_phase2_mmode = route_phase2_mmode (\<lambda>old. old OR 4)"

definition mili_smode_phase2 :: "dl_syms \<Rightarrow> dprog" where
  "mili_smode_phase2 = route_phase2"

definition mili_m_trap_entry :: "dl_syms \<Rightarrow> dprog" where
  "mili_m_trap_entry y = route_m_entry True (a_m_regs y)"

definition mili_s_trap_entry :: "dl_syms \<Rightarrow> dprog" where
  "mili_s_trap_entry y = route_s_entry True (a_s_regs y) (a_done y)"

definition mili_code :: "dl_syms \<Rightarrow> (u64 \<times> dprog) list" where
  "mili_code y =
    [(a_main y, mili_main y),
     (a_mtrap y, mili_m_trap_entry y),
     (a_strap y, mili_s_trap_entry y),
     (a_phase1 y, mili_smode_phase1 y),
     (trap_1 y, illegal_word (hart_tval y) (trap_1 y)),
     (trap_1 y + 4, park),
     (a_phase2_mmode y, mili_phase2_mmode y),
     (a_phase2 y, mili_smode_phase2 y),
     (trap_2 y, illegal_word (hart_tval y) (trap_2 y)),
     (trap_2 y + 4, mili_report y)]"

lemmas mili_blocks = mili_code_def mili_main_def mili_smode_phase1_def mili_phase2_mmode_def mili_smode_phase2_def mili_m_trap_entry_def mili_s_trap_entry_def



subsection \<open>Running\<close>

lemma run_deleg [simp]: "run_state (gets_d f) s = (f s, s)" "run_state (sets_d g) s = ((), g s)"
  by (simp_all add: gets_d_def sets_d_def)

lemma emit_deleg [simp]:
  "dm_regs (emit ps s) = dm_regs s" "ds_regs (emit ps s) = ds_regs s" "s_done (emit ps s) = s_done s" "p1_addr (emit ps s) = p1_addr s"
  "p2_addr (emit ps s) = p2_addr s" "boot_medeleg (emit ps s) = boot_medeleg s" "p1_medeleg_rb (emit ps s) = p1_medeleg_rb s"
  "p2_medeleg_rb (emit ps s) = p2_medeleg_rb s" "p1_m_traps (emit ps s) = p1_m_traps s" "p1_s_traps (emit ps s) = p1_s_traps s"
  "restore_armed (emit ps s) = restore_armed s" "restore_rb (emit ps s) = restore_rb s"
  by (simp_all add: emit_def)

lemmas deleg_exec = run_deleg [THEN exec_step] modes_exec exec_basic exec_check_n

lemma count_up: "count_up n spins = spins + n"
  by (induction n arbitrary: spins) simp_all

definition sret_drop :: "u64 \<Rightarrow> hart \<Rightarrow> hart" where
  "sret_drop a h = (let h1 = csr_write Sstatus (csr_read Sstatus h OR 0x100) h
     in do_sret (csr_write Sepc a (csr_write Mstatus ((csr_read Mstatus h1 AND NOT 0x1800) OR 0x800) h1)))"

lemma run_sret_drop [simp]: "run_state (sret_to_smode_at a) s = ((), s\<lparr>hw := sret_drop a (hw s)\<rparr>)"
  by (simp add: sret_to_smode_at_def deleg_exec sret_drop_def Let_def)

lemma sret_drop:
  assumes "keeps_bits h Mstatus STEER" "takes h Sepc a"
  shows "priv (sret_drop a h) = SMode" "pc (sret_drop a h) = a" "same_config h (sret_drop a h)"
  using assms keeps_bitsD [OF assms(1), of 8]
  by (simp_all add: sret_drop_def Let_def do_sret_def same_config_def csr_store_def takes_def bit_simps sstatus_mask_def)

text \<open>What the programs ask of their hart; \<open>medeleg\<close> may keep anything.\<close>

definition route_legal :: "dl_syms \<Rightarrow> hart \<Rightarrow> bool" where
  "route_legal y h \<longleftrightarrow> keeps_bits h Mstatus STEER \<and> (\<forall>a. code_addr a \<longrightarrow> takes h Sepc a \<and> takes h Mepc a) \<and>
     takes h Mtvec (a_mtrap y) \<and> takes h Stvec (a_strap y) \<and> plain_csr h Mscratch \<and> plain_csr h Sscratch \<and>
     takes h Pmpcfg0 0x1f \<and> (\<forall>old. legal h Pmpaddr0 old (- 1) \<in> {- 1, mask 54})"

definition laid_out :: "(u64 \<times> dprog) list \<Rightarrow> bool" where
  "laid_out code \<longleftrightarrow> distinct (map fst code) \<and> list_all code_addr (map fst code)"

definition set_up :: "dl_syms \<Rightarrow> u64 \<Rightarrow> hart \<Rightarrow> deleg \<Rightarrow> bool" where
  "set_up y d h0 s \<longleftrightarrow> route_legal y h0 \<and> legal (hw s) = legal h0 \<and> csrf (hw s) Mtvec = a_mtrap y \<and> csrf (hw s) Stvec = a_strap y \<and>
     csrf (hw s) Mscratch = a_m_regs y \<and> csrf (hw s) Sscratch = a_s_regs y \<and> csrf (hw s) Medeleg = d \<and> pmp_everything (hw s) \<and>
     \<not> parked s \<and> \<not> stuck s"

definition at :: "priv_mode \<Rightarrow> u64 \<Rightarrow> deleg \<Rightarrow> bool" where
  "at p a s \<longleftrightarrow> priv (hw s) = p \<and> pc (hw s) = a"

lemma laid_addr: "laid_out code \<Longrightarrow> (a, p) \<in> set code \<Longrightarrow> code_addr a"
  by (auto simp: laid_out_def list_all_iff)

lemma set_up_config:
  assumes "set_up y d h0 s" "same_config (hw s) h"
  shows "set_up y d h0 (s\<lparr>hw := h\<rparr>)"
  using assms(1) same_config_simps [OF assms(2)] by (simp add: set_up_def)

lemma set_up_step:
  assumes "laid_out code" "set_up y d h0 s" "at p a s" "(a, b) \<in> set code"
  shows "mode_step code s = Some (final b s)"
proof (rule block_step)
  show "pmp_allows (hw s) Exec (pc (hw s)) 4"
    using assms(2,3) laid_addr [OF assms(1,4)] by (intro pmp_everything_allows) (simp_all add: set_up_def at_def code_addr_def)
qed (use assms in \<open>simp_all add: laid_out_def set_up_def at_def\<close>)

lemma set_up_legal:
  assumes "set_up y d h0 s"
  shows "keeps_bits (hw s) Mstatus STEER" "code_addr a \<Longrightarrow> legal (hw s) Sepc old a = a" "code_addr a \<Longrightarrow> legal (hw s) Mepc old a = a"
    "legal (hw s) Mscratch old v = v" "legal (hw s) Sscratch old v = v"
  using assms by (simp_all add: set_up_def route_legal_def keeps_bits_def takes_def plain_csr_def)

lemma status_fields:
  "spp_field st = of_bool (bit st 8)" "bit st 11 \<Longrightarrow> \<not> bit st 12 \<Longrightarrow> mpp_field st = 1"
proof -
  show "spp_field st = of_bool (bit st 8)" by (simp add: spp_field_def and_one_eq bit_iff_odd_drop_bit mod_2_eq_odd)
  have three: "(3 :: u64) = mask 2" by (simp add: mask_eq_exp_minus_1)
  show "mpp_field st = 1" if "bit st 11" "\<not> bit st 12"
    unfolding mpp_field_def three
  proof (rule bit_word_eqI)
    fix i :: nat
    consider "i = 0" | "i = 1" | "2 \<le> i" by linarith
    then show "bit (drop_bit 11 st AND mask 2) i = bit (1 :: u64) i"
      using that by cases (simp_all add: bit_simps bit_1_iff)
  qed
qed

text \<open>A delegated exception: through the S-mode entry and back behind the instruction.\<close>

lemma route_s_trip:
  assumes code: "laid_out code" "(a_strap y, route_s_entry w (a_s_regs y) (a_done y)) \<in> set code" "(a, b) \<in> set code"
    and s: "set_up y d h0 s" "at SMode a s" "code_addr (a + 4)" "ds_regs s 5 = a_done y" "bit d n"
    and b: "final b s = s\<lparr>hw := route n a tv (hw s)\<rparr>"
  shows "\<exists>h' r. let s' = s\<lparr>ds_regs := r, s_done := 1, hw := h'\<rparr> in runs code s s' \<and> set_up y d h0 s' \<and> at SMode (a + 4) s' \<and>
    (\<forall>q. reg_get q h' = reg_get q (hw s)) \<and> r 0 = ds_regs s 0 + 1 \<and> r 2 = of_nat n \<and> r 3 = a \<and> spp_field (r 4) = 1"
proof -
  let ?h1 = "trap_to_s (of_nat n) a tv (hw s)"
  have "route n a tv (hw s) = ?h1" using s by (simp add: route_def set_up_def at_def)
  with b have step1: "mode_step code s = Some (s\<lparr>hw := ?h1\<rparr>)" using set_up_step [OF code(1) s(1,2) code(3)] by simp
  have s1: "set_up y d h0 (s\<lparr>hw := ?h1\<rparr>)" by (rule set_up_config [OF s(1)]) simp
  have at1: "at SMode (a_strap y) (s\<lparr>hw := ?h1\<rparr>)"
    using s(1) aligned_vector [OF laid_addr [OF code(1,2)]] by (simp add: at_def trap_to_s_def set_up_def)
  note step2 = set_up_step [OF code(1) s1 at1 code(2)]
  let ?h2 = "do_sret (csr_store Sscratch (a_s_regs y) (csr_store Sepc (a + 4) (csr_store Sscratch (reg_get xt0 (hw s)) ?h1)))"
  let ?r0 = "(ds_regs s)(1 := reg_get xt1 (hw s), 6 := reg_get xt2 (hw s), 0 := ds_regs s 0 + 1, 2 := of_nat n, 3 := a, 4 := csrf ?h1 Mstatus AND sstatus_mask)"
  let ?r = "if w then ?r0(8 := tv) else ?r0"
  have trap: "csrf ?h1 Sscratch = a_s_regs y" "csrf ?h1 Scause = of_nat n" "csrf ?h1 Sepc = a" "csrf ?h1 Stval = tv"
    using s(1) by (simp_all add: trap_to_s_def set_up_def)
  have f: "final (route_s_entry w (a_s_regs y) (a_done y)) (s\<lparr>hw := ?h1\<rparr>) = s\<lparr>ds_regs := ?r, s_done := 1, hw := ?h2\<rparr>"
    using s(4) trap by (cases s) (simp add: final_def route_s_entry_def deleg_exec)
  have "runs code s (s\<lparr>ds_regs := ?r, s_done := 1, hw := ?h2\<rparr>)" by (rule runs_trans [OF runs_one [OF step1] runs_one [OF step2 [unfolded f]]])
  moreover have "set_up y d h0 (s\<lparr>ds_regs := ?r, s_done := 1, hw := ?h2\<rparr>)"
    using s(1) by (simp add: set_up_def do_sret_def csr_store_def trap_to_s_def pmp_everything_def route_legal_def plain_csr_def)
  moreover have "at SMode (a + 4) (s\<lparr>ds_regs := ?r, s_done := 1, hw := ?h2\<rparr>)"
    using s(2) set_up_legal(2) [OF s(1,3)] by (simp add: at_def do_sret_def csr_store_def trap_to_s_def bit_put_bit)
  moreover have "spp_field (csrf ?h1 Mstatus AND sstatus_mask) = 1"
    using s(2) by (simp add: status_fields trap_to_s_def at_def sstatus_mask_def bit_put_bit bit_simps)
  ultimately show ?thesis
    by - (rule exI [of _ ?h2], rule exI [of _ ?r], simp add: Let_def)
qed


text \<open>An exception that is not delegated: into the M-mode entry, and from there to the continuation or into the park loop.\<close>

definition m_record :: "bool \<Rightarrow> nat \<Rightarrow> u64 \<Rightarrow> u64 \<Rightarrow> hart \<Rightarrow> (nat \<Rightarrow> u64) \<Rightarrow> nat \<Rightarrow> u64" where
  "m_record w n a tv h r = (let r0 = r(1 := reg_get xt1 h, 6 := reg_get xt2 h, 0 := r 0 + 1, 2 := of_nat n, 3 := a,
     4 := csrf (trap_to_m (of_nat n) a tv h) Mstatus) in if w then r0(8 := tv) else r0)"

lemma m_record_slots [simp]:
  "m_record w n a tv h r 0 = r 0 + 1" "m_record w n a tv h r 2 = of_nat n" "m_record w n a tv h r 3 = a"
  "m_record w n a tv h r 7 = r 7" "m_record w n a tv h r 4 = csrf (trap_to_m (of_nat n) a tv h) Mstatus"
  by (simp_all add: m_record_def Let_def)

lemma m_record_mpp: "priv h = SMode \<Longrightarrow> mpp_field (m_record w n a tv h r 4) = 1"
  by (simp add: trap_to_m_def put_mpp_def status_fields bit_put_bit)

lemma route_m_arrive:
  assumes code: "laid_out code" "(a_mtrap y, m) \<in> set code" "(a, b) \<in> set code"
    and s: "set_up y d h0 s" "at SMode a s" "\<not> bit d n" and b: "final b s = s\<lparr>hw := route n a tv (hw s)\<rparr>"
  shows "runs code s (final m (s\<lparr>hw := trap_to_m (of_nat n) a tv (hw s)\<rparr>))"
proof -
  let ?s1 = "s\<lparr>hw := trap_to_m (of_nat n) a tv (hw s)\<rparr>"
  have "route n a tv (hw s) = trap_to_m (of_nat n) a tv (hw s)" using s by (simp add: route_def set_up_def)
  with b have step1: "mode_step code s = Some ?s1" using set_up_step [OF code(1) s(1,2) code(3)] by simp
  have s1: "set_up y d h0 ?s1" by (rule set_up_config [OF s(1)]) simp
  have "at MMode (a_mtrap y) ?s1"
    using s(1) aligned_vector [OF laid_addr [OF code(1,2)]] by (simp add: at_def trap_to_m_def set_up_def)
  from runs_one [OF set_up_step [OF code(1) s1 this code(2)]] runs_one [OF step1] show ?thesis by (blast intro: runs_trans)
qed

lemma route_m_entry_run:
  assumes "csrf (hw s) Mscratch = regs"
  defines "h \<equiv> hw s"
  shows "final (route_m_entry w regs) (s\<lparr>hw := trap_to_m (of_nat n) a tv h\<rparr>) =
    (let h1 = csr_store Mscratch (reg_get xt0 h) (trap_to_m (of_nat n) a tv h); k = dm_regs s 7; t = s\<lparr>dm_regs := m_record w n a tv h (dm_regs s)\<rparr>
     in if k = 0 then t\<lparr>hw := h1, parked := True\<rparr>
        else t\<lparr>hw := do_mret (csr_store Mscratch regs (csr_store Mstatus (csrf h1 Mstatus OR 0x1800) (csr_store Mepc k h1)))\<rparr>)"
proof -
  have "csrf (trap_to_m (of_nat n) a tv h) Mscratch = regs" "csrf (trap_to_m (of_nat n) a tv h) Mcause = of_nat n"
    "csrf (trap_to_m (of_nat n) a tv h) Mepc = a" "csrf (trap_to_m (of_nat n) a tv h) Mtval = tv"
    using assms(1) by (simp_all add: trap_to_m_def h_def)
  then show ?thesis by (cases s) (simp add: final_def route_m_entry_def deleg_exec m_record_def Let_def)
qed


lemma route_m_trip:
  assumes code: "laid_out code" "(a_mtrap y, route_m_entry w (a_m_regs y)) \<in> set code" "(a, b) \<in> set code"
    and s: "set_up y d h0 s" "at SMode a s" "\<not> bit d n" and b: "final b s = s\<lparr>hw := route n a tv (hw s)\<rparr>"
    and k: "dm_regs s 7 = k" "k \<noteq> 0" "code_addr k"
  shows "\<exists>h'. let s' = s\<lparr>dm_regs := m_record w n a tv (hw s) (dm_regs s), hw := h'\<rparr> in
    runs code s s' \<and> set_up y d h0 s' \<and> at MMode k s'"
proof -
  let ?h1 = "csr_store Mscratch (reg_get xt0 (hw s)) (trap_to_m (of_nat n) a tv (hw s))"
  let ?h2 = "do_mret (csr_store Mscratch (a_m_regs y) (csr_store Mstatus (csrf ?h1 Mstatus OR 0x1800) (csr_store Mepc k ?h1)))"
  have m: "csrf (hw s) Mscratch = a_m_regs y" using s(1) by (simp add: set_up_def)
  have "runs code s (s\<lparr>dm_regs := m_record w n a tv (hw s) (dm_regs s), hw := ?h2\<rparr>)"
    using route_m_arrive [OF code s b] k(1,2) by (simp only: route_m_entry_run [OF m] Let_def if_False)
  moreover have "set_up y d h0 (s\<lparr>dm_regs := m_record w n a tv (hw s) (dm_regs s), hw := ?h2\<rparr>)"
    using s(1) by (simp add: set_up_def do_mret_def csr_store_def trap_to_m_def pmp_everything_def route_legal_def plain_csr_def)
  moreover have "at MMode k (s\<lparr>dm_regs := m_record w n a tv (hw s) (dm_regs s), hw := ?h2\<rparr>)"
    using keeps_bitsD [OF set_up_legal(1) [OF s(1)], of 12] set_up_legal(3) [OF s(1) k(3)]
    by (simp add: at_def do_mret_def csr_store_def mpp_of_def trap_to_m_def bit_simps)
  ultimately show ?thesis by (intro exI [of _ ?h2]) (simp add: Let_def)
qed

text \<open>The hart when \<open>main\<close> has written its registers, with \<open>v\<close> in \<open>medeleg\<close>.\<close>

definition equip_route :: "dl_syms \<Rightarrow> u64 \<Rightarrow> hart \<Rightarrow> hart" where
  "equip_route y v h = (let h1 = csr_store Mie 0 (csr_store Pmpcfg0 0x1f (csr_store Pmpaddr0 (- 1) (csr_store Medeleg v
     (csr_store Sscratch (a_s_regs y) (csr_store Stvec (a_strap y) (csr_store Mscratch (a_m_regs y) (csr_store Mtvec (a_mtrap y) h)))))))
     in csr_store Mstatus (csrf h1 Mstatus AND NOT 8) h1)"

lemma equip_route:
  assumes "route_legal y (hw s)" "\<not> parked s" "\<not> stuck s"
  shows "legal (equip_route y v (hw s)) = legal (hw s)"
    "set_up y (legal (hw s) Medeleg (csrf (hw s) Medeleg) v) (hw s) (s\<lparr>hw := equip_route y v (hw s)\<rparr>)"
proof -
  show leg: "legal (equip_route y v (hw s)) = legal (hw s)" by (simp add: equip_route_def Let_def)
  show "set_up y (legal (hw s) Medeleg (csrf (hw s) Medeleg) v) (hw s) (s\<lparr>hw := equip_route y v (hw s)\<rparr>)"
    using assms by (simp add: set_up_def leg)
      (simp add: equip_route_def Let_def route_legal_def takes_def plain_csr_def pmp_everything_def)
qed

lemma route_main_run:
  assumes "route_legal y (hw s)" "code_addr (a_phase1 y)" "\<not> parked s" "\<not> stuck s"
  defines "d \<equiv> legal (hw s) Medeleg (csrf (hw s) Medeleg) 0"
  shows "\<exists>h'. let s' = s\<lparr>ds_regs := (ds_regs s)(5 := a_done y), boot_medeleg := csrf (hw s) Medeleg, p1_medeleg_rb := d,
      dm_regs := (dm_regs s)(7 := a_phase2_mmode y), hw := h'\<rparr> in
    final (route_main y) s = s' \<and> set_up y d (hw s) s' \<and> at SMode (a_phase1 y) s'"
proof -
  let ?h = "equip_route y 0 (hw s)"
  let ?h' = "sret_drop (a_phase1 y) ?h"
  note e = equip_route [OF assms(1,3,4), of 0]
  have drop: "priv ?h' = SMode" "pc ?h' = a_phase1 y" "same_config ?h ?h'"
    using sret_drop [of ?h "a_phase1 y"] assms(1,2) by (simp_all add: route_legal_def keeps_bits_def takes_def e(1))
  have "final (route_main y) s = s\<lparr>ds_regs := (ds_regs s)(5 := a_done y), boot_medeleg := csrf (hw s) Medeleg, p1_medeleg_rb := d,
      dm_regs := (dm_regs s)(7 := a_phase2_mmode y), hw := ?h'\<rparr>"
    by (cases s) (simp add: final_def route_main_def deleg_exec d_def equip_route_def Let_def)
  then show ?thesis using drop set_up_config [OF e(2), of ?h'] by (intro exI [of _ ?h']) (simp add: Let_def at_def set_up_def d_def)
qed

lemma route_phase2_mmode_run:
  fixes want :: "u64 \<Rightarrow> u64"
  assumes s: "set_up y d h0 s" "code_addr (a_phase2 y)"
  defines "d' \<equiv> legal h0 Medeleg d (want d)"
  shows "\<exists>h'. let s' = s\<lparr>dm_regs := (dm_regs s)(7 := 0), p2_medeleg_rb := d', p1_m_traps := dm_regs s 0, p1_s_traps := ds_regs s 0, hw := h'\<rparr> in
    final (route_phase2_mmode want y) s = s' \<and> set_up y d' h0 s' \<and> at SMode (a_phase2 y) s'"
proof -
  define h where "h = csr_store Medeleg (want d) (hw s)"
  let ?h' = "sret_drop (a_phase2 y) h"
  let ?s' = "\<lambda>h'. s\<lparr>dm_regs := (dm_regs s)(7 := 0), p2_medeleg_rb := d', p1_m_traps := dm_regs s 0, p1_s_traps := ds_regs s 0, hw := h'\<rparr>"
  have drop: "priv ?h' = SMode" "pc ?h' = a_phase2 y" "same_config h ?h'"
    using sret_drop [of h "a_phase2 y"] set_up_legal(1,2) [OF s(1)] s(2) by (simp_all add: h_def keeps_bits_def takes_def)
  have "final (route_phase2_mmode want y) s = ?s' ?h'"
    using s(1) by (cases s) (simp add: final_def route_phase2_mmode_def deleg_exec d'_def h_def set_up_def)
  moreover have "set_up y d' h0 (?s' h)"
    using s(1) by (simp add: set_up_def h_def d'_def pmp_everything_def)
  ultimately show ?thesis using drop set_up_config [of y d' h0 "?s' h" ?h'] by (intro exI [of _ ?h']) (simp add: Let_def at_def)
qed



subsection \<open>The run of every such program\<close>

text \<open>A run that stops without printing anything, with the traps the two entries have counted.\<close>

definition silent :: "(u64 \<times> dprog) list \<Rightarrow> deleg \<Rightarrow> u64 \<Rightarrow> u64 \<Rightarrow> bool" where
  "silent code s m k \<longleftrightarrow> (\<exists>t. runs code s t \<and> mode_step code t = None \<and> parked t \<and> out t = out s \<and> finisher t = finisher s \<and>
     dm_regs t 0 = m \<and> ds_regs t 0 = k)"

text \<open>What the trap records hold when the exception went to M-mode in phase 1 and to S-mode in phase 2.\<close>

definition both_taken :: "dl_syms \<Rightarrow> nat \<Rightarrow> u64 \<Rightarrow> u64 \<Rightarrow> deleg \<Rightarrow> bool" where
  "both_taken y n d0 d1 t \<longleftrightarrow> dm_regs t 0 = 1 \<and> dm_regs t 2 = of_nat n \<and> dm_regs t 3 = trap_1 y \<and> mpp_field (dm_regs t 4) = 1 \<and>
     ds_regs t 0 = 1 \<and> ds_regs t 2 = of_nat n \<and> ds_regs t 3 = trap_2 y \<and> spp_field (ds_regs t 4) = 1 \<and> p1_addr t = trap_1 y \<and>
     p1_medeleg_rb t = d0 \<and> p2_medeleg_rb t = d1 \<and> p1_m_traps t = 1 \<and> p1_s_traps t = 0"

definition route_sum :: "dl_syms \<Rightarrow> nat \<Rightarrow> u64 \<Rightarrow> u64 \<Rightarrow> u64" where
  "route_sum y n d0 d1 = foldl fnv64 0xcbf29ce484222325 [1, of_nat n, trap_1 y, 1, of_nat n, trap_2 y, d0, d1]"

text \<open>A run to the end: both traps where they belong, the checks that failed, and the last lines printed.\<close>

definition route_ends :: "deleg \<Rightarrow> dl_syms \<Rightarrow> nat \<Rightarrow> u64 \<Rightarrow> u64 \<Rightarrow> nat \<Rightarrow> piece list \<Rightarrow> bool" where
  "route_ends t y n d0 d1 f verdict \<longleftrightarrow> parked t \<and> both_taken y n d0 d1 t \<and> fails t = f \<and>
     (\<exists>o1. out t = say verdict (say [Str ''checksum='', Hex (route_sum y n d0 d1), Str ''\<newline>''] o1))"

text \<open>A hart that cannot clear the bit, one that cannot set it, and one that can do both.\<close>

definition route_decided :: "(u64 \<times> dprog) list \<Rightarrow> deleg \<Rightarrow> dl_syms \<Rightarrow> nat \<Rightarrow> u64 \<Rightarrow> u64 \<Rightarrow> bool \<Rightarrow> piece list \<Rightarrow> u32 option \<Rightarrow> bool" where
  "route_decided code s y n d0 d1 ok verdict fin \<longleftrightarrow>
     (if bit d0 n then silent code s 0 1
      else if \<not> bit d1 n then silent code s 2 0
      else \<exists>t. runs code s t \<and> mode_step code t = None \<and> route_ends t y n d0 d1 (of_bool (\<not> ok)) verdict \<and> finisher t = fin)"

definition route_boot :: "dl_syms \<Rightarrow> deleg \<Rightarrow> bool" where
  "route_boot y s \<longleftrightarrow> priv (hw s) = MMode \<and> pc (hw s) = a_main y \<and> csrf (hw s) Pmpcfg0 = 0 \<and> route_legal y (hw s) \<and> \<not> parked s \<and> \<not> stuck s \<and>
     fails s = 0 \<and> nchecks s = 0 \<and> finisher s = None \<and> dm_regs s 0 = 0 \<and> ds_regs s 0 = 0 \<and> a_phase2_mmode y \<noteq> 0 \<and> q_addr y \<noteq> 0"

lemma ends_stop: "route_ends t y n d0 d1 f verdict \<Longrightarrow> mode_step code t = None"
  by (simp add: route_ends_def mode_step_def)

locale delegation_case =
  fixes code :: "dl_syms \<Rightarrow> (u64 \<times> dprog) list" and n :: nat and w :: bool and trap :: "dl_syms \<Rightarrow> u64 \<Rightarrow> dprog"
    and want :: "u64 \<Rightarrow> u64" and report :: "dl_syms \<Rightarrow> dprog"
  assumes blocks: "(a_main y, route_main y) \<in> set (code y)" "(a_mtrap y, route_m_entry w (a_m_regs y)) \<in> set (code y)"
      "(a_strap y, route_s_entry w (a_s_regs y) (a_done y)) \<in> set (code y)" "(a_phase1 y, route_phase1 y) \<in> set (code y)"
      "(trap_1 y, trap y (trap_1 y)) \<in> set (code y)" "(trap_1 y + 4, park) \<in> set (code y)"
      "(a_phase2_mmode y, route_phase2_mmode want y) \<in> set (code y)" "(a_phase2 y, route_phase2 y) \<in> set (code y)"
      "(trap_2 y, trap y (trap_2 y)) \<in> set (code y)" "(trap_2 y + 4, report y) \<in> set (code y)"
    and raises: "priv (hw s) = SMode \<Longrightarrow> \<exists>tv. final (trap y a) s = s\<lparr>hw := route n a tv (hw s)\<rparr>"
begin

lemma first_trap:
  assumes "laid_out (code y)" "route_boot y s"
  defines "d0 \<equiv> legal (hw s) Medeleg (csrf (hw s) Medeleg) 0"
  shows "\<exists>t. runs (code y) s t \<and> set_up y d0 (hw s) t \<and> at SMode (trap_1 y) t \<and> p1_addr t = trap_1 y \<and> p1_medeleg_rb t = d0 \<and>
    dm_regs t 0 = 0 \<and> dm_regs t 7 = a_phase2_mmode y \<and> ds_regs t 0 = 0 \<and> ds_regs t 5 = a_done y \<and>
    fails t = 0 \<and> nchecks t = 0 \<and> finisher t = None \<and> out t = out s"
proof -
  note la = laid_addr [OF assms(1)]
  from assms(2) have b: "route_legal y (hw s)" "\<not> parked s" "\<not> stuck s" by (simp_all add: route_boot_def)
  obtain h' where h': "let s' = s\<lparr>ds_regs := (ds_regs s)(5 := a_done y), boot_medeleg := csrf (hw s) Medeleg, p1_medeleg_rb := d0,
      dm_regs := (dm_regs s)(7 := a_phase2_mmode y), hw := h'\<rparr> in
    final (route_main y) s = s' \<and> set_up y d0 (hw s) s' \<and> at SMode (a_phase1 y) s'"
    unfolding d0_def using route_main_run [OF b(1) la [OF blocks(4)] b(2,3)] by blast
  define t where "t = s\<lparr>ds_regs := (ds_regs s)(5 := a_done y), boot_medeleg := csrf (hw s) Medeleg, p1_medeleg_rb := d0,
      dm_regs := (dm_regs s)(7 := a_phase2_mmode y), hw := h'\<rparr>"
  from h' have t: "final (route_main y) s = t" "set_up y d0 (hw s) t" "at SMode (a_phase1 y) t" by (simp_all add: t_def Let_def)
  have "pc (hw s) = a_main y" using assms(2) by (simp add: route_boot_def)
  then have m: "mode_step (code y) s = Some t"
    using block_step [OF b(2,3) pmp_open, of "code y" "route_main y"] assms(1,2) blocks(1) [of y] t(1)
    by (simp add: route_boot_def laid_out_def)
  let ?u = "t\<lparr>p1_addr := trap_1 y, hw := (reg_set xt0 (trap_1 y) (hw t))\<lparr>pc := trap_1 y\<rparr>\<rparr>"
  have "final (route_phase1 y) t = ?u" by (cases t) (simp add: final_def route_phase1_def deleg_exec)
  then have "mode_step (code y) t = Some ?u" using set_up_step [OF assms(1) t(2,3) blocks(4)] by simp
  then have "runs (code y) s ?u" using m by (blast intro: runs.intros)
  moreover have "set_up y d0 (hw s) ?u" using set_up_config [OF t(2), of "(reg_set xt0 (trap_1 y) (hw t))\<lparr>pc := trap_1 y\<rparr>"]
    by (simp add: set_up_def)
  ultimately show ?thesis using t(3) assms(2) by (intro exI [of _ ?u]) (simp add: at_def t_def route_boot_def)
qed

lemma kept_in_smode:
  assumes "laid_out (code y)" "route_boot y s" "bit (legal (hw s) Medeleg (csrf (hw s) Medeleg) 0) n"
  shows "silent (code y) s 0 1"
proof -
  from first_trap [OF assms(1,2)] obtain t where t: "runs (code y) s t" "set_up y (legal (hw s) Medeleg (csrf (hw s) Medeleg) 0) (hw s) t"
    "at SMode (trap_1 y) t" "dm_regs t 0 = 0" "ds_regs t 0 = 0" "ds_regs t 5 = a_done y" "finisher t = None" "out t = out s" by blast
  from raises [of t] t(3) obtain tv where tv: "final (trap y (trap_1 y)) t = t\<lparr>hw := route n (trap_1 y) tv (hw t)\<rparr>" by (auto simp: at_def)
  from route_s_trip [OF assms(1) blocks(3,5) t(2,3) laid_addr [OF assms(1) blocks(6)] t(6) assms(3) tv] obtain h' r
    where u: "runs (code y) t (t\<lparr>ds_regs := r, s_done := 1, hw := h'\<rparr>)"
      "set_up y (legal (hw s) Medeleg (csrf (hw s) Medeleg) 0) (hw s) (t\<lparr>ds_regs := r, s_done := 1, hw := h'\<rparr>)"
      "at SMode (trap_1 y + 4) (t\<lparr>ds_regs := r, s_done := 1, hw := h'\<rparr>)" "r 0 = 1"
    using t(5) by (auto simp: Let_def)
  let ?u = "t\<lparr>ds_regs := r, s_done := 1, hw := h'\<rparr>"
  have "mode_step (code y) ?u = Some (?u\<lparr>parked := True\<rparr>)" using set_up_step [OF assms(1) u(2,3) blocks(6)] by (simp add: final_def)
  then have "runs (code y) s (?u\<lparr>parked := True\<rparr>)" using t(1) u(1) by (blast intro: runs_trans runs_one)
  then show ?thesis using t(4,7,8) u(4) assms(2)
    unfolding silent_def by (intro exI [of _ "?u\<lparr>parked := True\<rparr>"]) (simp add: mode_step_def route_boot_def)
qed

lemma second_trap:
  assumes "laid_out (code y)" "route_boot y s"
  defines "d0 \<equiv> legal (hw s) Medeleg (csrf (hw s) Medeleg) 0"
  defines "d1 \<equiv> legal (hw s) Medeleg d0 (want d0)"
  assumes "\<not> bit d0 n"
  shows "\<exists>t. runs (code y) s t \<and> set_up y d1 (hw s) t \<and> at SMode (trap_2 y) t \<and> reg_get (q_addr y) (hw t) = trap_2 y \<and> p1_addr t = trap_1 y \<and>
    p1_medeleg_rb t = d0 \<and> p2_medeleg_rb t = d1 \<and> p1_m_traps t = 1 \<and> p1_s_traps t = 0 \<and> dm_regs t 0 = 1 \<and> dm_regs t 2 = of_nat n \<and>
    dm_regs t 3 = trap_1 y \<and> mpp_field (dm_regs t 4) = 1 \<and> dm_regs t 7 = 0 \<and> ds_regs t 0 = 0 \<and> ds_regs t 5 = a_done y \<and>
    fails t = 0 \<and> nchecks t = 0 \<and> finisher t = None \<and> out t = out s"
proof -
  note la = laid_addr [OF assms(1)]
  from first_trap [OF assms(1,2)] obtain t where t: "runs (code y) s t" "set_up y d0 (hw s) t" "at SMode (trap_1 y) t"
    "p1_addr t = trap_1 y" "p1_medeleg_rb t = d0" "dm_regs t 0 = 0" "dm_regs t 7 = a_phase2_mmode y" "ds_regs t 0 = 0" "ds_regs t 5 = a_done y"
    "fails t = 0" "nchecks t = 0" "finisher t = None" "out t = out s" unfolding d0_def by blast
  from raises [of t] t(3) obtain tv where tv: "final (trap y (trap_1 y)) t = t\<lparr>hw := route n (trap_1 y) tv (hw t)\<rparr>" by (auto simp: at_def)
  have k: "a_phase2_mmode y \<noteq> 0" "q_addr y \<noteq> 0" using assms(2) by (simp_all add: route_boot_def)
  define r where "r = m_record w n (trap_1 y) tv (hw t) (dm_regs t)"
  have r: "r 0 = 1" "r 2 = of_nat n" "r 3 = trap_1 y" "mpp_field (r 4) = 1"
    using t(3,6) m_record_mpp by (simp_all add: r_def at_def)
  from route_m_trip [OF assms(1) blocks(2,5) t(2,3) assms(5) tv t(7) k(1) la [OF blocks(7)]] obtain h1
    where u: "runs (code y) t (t\<lparr>dm_regs := r, hw := h1\<rparr>)" "set_up y d0 (hw s) (t\<lparr>dm_regs := r, hw := h1\<rparr>)"
      "at MMode (a_phase2_mmode y) (t\<lparr>dm_regs := r, hw := h1\<rparr>)"
    by (auto simp: Let_def r_def)
  let ?u = "t\<lparr>dm_regs := r, hw := h1\<rparr>"
  from route_phase2_mmode_run [OF u(2) la [OF blocks(8)], of want] obtain h2
    where v: "final (route_phase2_mmode want y) ?u = t\<lparr>dm_regs := r(7 := 0), p2_medeleg_rb := d1, p1_m_traps := r 0, p1_s_traps := 0, hw := h2\<rparr>" "set_up y d1 (hw s) (t\<lparr>dm_regs := r(7 := 0), p2_medeleg_rb := d1, p1_m_traps := r 0, p1_s_traps := 0, hw := h2\<rparr>)"
      "at SMode (a_phase2 y) (t\<lparr>dm_regs := r(7 := 0), p2_medeleg_rb := d1, p1_m_traps := r 0, p1_s_traps := 0, hw := h2\<rparr>)" by (auto simp: Let_def d1_def t(8))
  let ?v = "t\<lparr>dm_regs := r(7 := 0), p2_medeleg_rb := d1, p1_m_traps := r 0, p1_s_traps := 0, hw := h2\<rparr>"
  let ?h3 = "(reg_set (q_addr y) (trap_2 y) h2)\<lparr>pc := trap_2 y\<rparr>"
  have f: "final (route_phase2 y) ?v = ?v\<lparr>hw := ?h3\<rparr>" by (simp add: final_def route_phase2_def deleg_exec)
  have "runs (code y) s (?v\<lparr>hw := ?h3\<rparr>)"
    using t(1) u(1) runs_one [OF set_up_step [OF assms(1) u(2,3) blocks(7)], unfolded v(1)]
      runs_one [OF set_up_step [OF assms(1) v(2,3) blocks(8)], unfolded f] by (blast intro: runs_trans)
  moreover have "set_up y d1 (hw s) (?v\<lparr>hw := ?h3\<rparr>)" by (rule set_up_config [OF v(2)]) simp
  ultimately show ?thesis using v(3) t(4,5,8-13) r k(2) by (intro exI [of _ "?v\<lparr>hw := ?h3\<rparr>"]) (simp add: at_def reg_get_set)
qed

lemma back_to_mmode:
  assumes "laid_out (code y)" "route_boot y s"
  defines "d0 \<equiv> legal (hw s) Medeleg (csrf (hw s) Medeleg) 0"
  assumes "\<not> bit d0 n" "\<not> bit (legal (hw s) Medeleg d0 (want d0)) n"
  shows "silent (code y) s 2 0"
proof -
  from second_trap [OF assms(1,2) assms(4) [unfolded d0_def]] obtain t where t: "runs (code y) s t"
    "set_up y (legal (hw s) Medeleg d0 (want d0)) (hw s) t" "at SMode (trap_2 y) t" "dm_regs t 0 = 1" "dm_regs t 7 = 0" "ds_regs t 0 = 0"
    "finisher t = None" "out t = out s" unfolding d0_def by blast
  from raises [of t] t(3) obtain tv where tv: "final (trap y (trap_2 y)) t = t\<lparr>hw := route n (trap_2 y) tv (hw t)\<rparr>" by (auto simp: at_def)
  let ?u = "final (route_m_entry w (a_m_regs y)) (t\<lparr>hw := trap_to_m (of_nat n) (trap_2 y) tv (hw t)\<rparr>)"
  have "csrf (hw t) Mscratch = a_m_regs y" using t(2) by (simp add: set_up_def)
  note run = route_m_entry_run [OF this, of w n "trap_2 y" tv]
  have "parked ?u \<and> out ?u = out s \<and> finisher ?u = finisher s \<and> dm_regs ?u 0 = 2 \<and> ds_regs ?u 0 = 0"
    using t(4-8) assms(2) by (simp add: run Let_def route_boot_def)
  then show ?thesis using runs_trans [OF t(1) route_m_arrive [OF assms(1) blocks(2,9) t(2,3) assms(5) tv]]
    unfolding silent_def by (intro exI [of _ ?u]) (simp add: mode_step_def)
qed

lemma reports:
  assumes "laid_out (code y)" "route_boot y s"
  defines "d0 \<equiv> legal (hw s) Medeleg (csrf (hw s) Medeleg) 0"
  defines "d1 \<equiv> legal (hw s) Medeleg d0 (want d0)"
  assumes "\<not> bit d0 n" "bit d1 n"
  shows "\<exists>t. runs (code y) s (final (report y) t) \<and> both_taken y n d0 d1 t \<and> reg_get (q_addr y) (hw t) = trap_2 y \<and>
    fails t = 0 \<and> nchecks t = 0 \<and> finisher t = None \<and> out t = out s"
proof -
  from second_trap [OF assms(1,2) assms(5) [unfolded d0_def]] obtain t where t: "runs (code y) s t" "set_up y d1 (hw s) t" "at SMode (trap_2 y) t"
    "reg_get (q_addr y) (hw t) = trap_2 y" "p1_addr t = trap_1 y" "p1_medeleg_rb t = d0" "p2_medeleg_rb t = d1" "p1_m_traps t = 1" "p1_s_traps t = 0"
    "dm_regs t 0 = 1" "dm_regs t 2 = of_nat n" "dm_regs t 3 = trap_1 y" "mpp_field (dm_regs t 4) = 1" "ds_regs t 0 = 0" "ds_regs t 5 = a_done y"
    "fails t = 0" "nchecks t = 0" "finisher t = None" "out t = out s" unfolding d0_def d1_def by blast
  from raises [of t] t(3) obtain tv where tv: "final (trap y (trap_2 y)) t = t\<lparr>hw := route n (trap_2 y) tv (hw t)\<rparr>" by (auto simp: at_def)
  from route_s_trip [OF assms(1) blocks(3,9) t(2,3) laid_addr [OF assms(1) blocks(10)] t(15) assms(6) tv] obtain h' r
    where u: "runs (code y) t (t\<lparr>ds_regs := r, s_done := 1, hw := h'\<rparr>)" "set_up y d1 (hw s) (t\<lparr>ds_regs := r, s_done := 1, hw := h'\<rparr>)"
      "at SMode (trap_2 y + 4) (t\<lparr>ds_regs := r, s_done := 1, hw := h'\<rparr>)"
      "reg_get (q_addr y) h' = trap_2 y" "r 0 = 1" "r 2 = of_nat n" "r 3 = trap_2 y" "spp_field (r 4) = 1"
    using t(4,14) by (auto simp: Let_def)
  let ?u = "t\<lparr>ds_regs := r, s_done := 1, hw := h'\<rparr>"
  have "runs (code y) s (final (report y) ?u)"
    using t(1) u(1) runs_one [OF set_up_step [OF assms(1) u(2,3) blocks(10)]] by (blast intro: runs_trans)
  then show ?thesis using t(5-13,16-19) u(4-8) by (intro exI [of _ ?u]) (simp add: both_taken_def)
qed

lemma decided:
  assumes "laid_out (code y)" "route_boot y s"
  defines "d0 \<equiv> legal (hw s) Medeleg (csrf (hw s) Medeleg) 0"
  defines "d1 \<equiv> legal (hw s) Medeleg d0 (want d0)"
  assumes ends: "\<And>t. both_taken y n d0 d1 t \<Longrightarrow> reg_get (q_addr y) (hw t) = trap_2 y \<Longrightarrow> \<not> bit d0 n \<Longrightarrow> bit d1 n \<Longrightarrow> fails t = 0 \<Longrightarrow>
    nchecks t = 0 \<Longrightarrow> finisher t = None \<Longrightarrow>
    route_ends (final (report y) t) y n d0 d1 (of_bool (\<not> ok)) verdict \<and> finisher (final (report y) t) = fin"
  shows "route_decided (code y) s y n d0 d1 ok verdict fin"
proof -
  have "\<exists>t. runs (code y) s t \<and> mode_step (code y) t = None \<and> route_ends t y n d0 d1 (of_bool (\<not> ok)) verdict \<and> finisher t = fin"
    if d: "\<not> bit d0 n" "bit d1 n"
  proof -
    from reports [OF assms(1,2)] d obtain t where t: "runs (code y) s (final (report y) t)" "both_taken y n d0 d1 t"
      "reg_get (q_addr y) (hw t) = trap_2 y" "fails t = 0" "nchecks t = 0" "finisher t = None" unfolding d0_def d1_def by blast
    from ends [OF t(2,3) d t(4-6)] t(1) show ?thesis using ends_stop by blast
  qed
  then show ?thesis
    using kept_in_smode [OF assms(1,2)] back_to_mmode [OF assms(1,2)] by (simp add: route_decided_def d0_def d1_def)
qed

end

interpretation mede: delegation_case mede_code 9 False "\<lambda>y. ecall" "\<lambda>_. 0x200" mede_report
  by unfold_locales (simp_all add: mede_blocks ecall_def final_def, blast)

interpretation mebk: delegation_case mebk_code 3 True "\<lambda>y. ebreak (hart_tval y)" "\<lambda>old. old OR 8" mebk_report
  by unfold_locales (simp_all add: mebk_blocks ebreak_def final_def, blast)

interpretation mili: delegation_case mili_code 2 True "\<lambda>y. illegal_word (hart_tval y)" "\<lambda>old. old OR 4" mili_report
  by unfold_locales (simp_all add: mili_blocks illegal_word_def final_def, blast)


subsection \<open>Reports\<close>

lemma bit_masks:
  fixes x :: u64
  shows "x AND 0x200 = 0 \<longleftrightarrow> \<not> bit x 9" "x AND 8 = 0 \<longleftrightarrow> \<not> bit x 3" "x AND 4 = 0 \<longleftrightarrow> \<not> bit x 2"
  using and_exp_eq_0_iff_not_bit [of x 9] and_exp_eq_0_iff_not_bit [of x 3] and_exp_eq_0_iff_not_bit [of x 2] by simp_all

lemmas report_run = probe_run exec_assoc Let_def run_deleg [THEN exec_step] modes_exec bit_masks route_report_def quiet_window_def
  route_checksum_def route_values_def

lemma route_sum_values:
  "both_taken y n d0 d1 t \<Longrightarrow> route_sum y n d0 d1 = foldl fnv64 0xcbf29ce484222325 (route_values t)"
  by (simp add: both_taken_def route_values_def route_sum_def)

lemma run_route_checksum:
  assumes "both_taken y n d0 d1 t"
  shows "run_state route_checksum t = ((), emit [Str ''checksum='', Hex (route_sum y n d0 d1), Str ''\<newline>''] t)"
  using route_sum_values [OF assms] by (simp add: route_checksum_def deleg_exec)

lemma both_taken_frame [simp]:
  "both_taken y n d0 d1 (emit ps t) = both_taken y n d0 d1 t" "both_taken y n d0 d1 (t\<lparr>p2_addr := a\<rparr>) = both_taken y n d0 d1 t"
  "both_taken y n d0 d1 (checked b msg t) = both_taken y n d0 d1 t" "both_taken y n d0 d1 (t\<lparr>nchecks := k\<rparr>) = both_taken y n d0 d1 t"
  "both_taken y n d0 d1 (t\<lparr>parked := b\<rparr>) = both_taken y n d0 d1 t" "both_taken y n d0 d1 (t\<lparr>finisher := f\<rparr>) = both_taken y n d0 d1 t"
  by (simp_all add: both_taken_def checked_def)

text \<open>The report up to the checks, and the end of each program.\<close>

lemma run_route_report: "\<exists>ps. run_state (route_report w title l) t = ((), emit ps t)"
  by (simp add: route_report_def deleg_exec Let_def) blast

lemma run_quiet_window:
  assumes "both_taken y n d0 d1 t"
  shows "\<exists>ps. run_state (quiet_window chk) t = run_state (chk True ''trap count moved during the quiet window'') (emit ps t)"
  using assms by (simp add: quiet_window_def both_taken_def deleg_exec) blast

lemma run_mede_verdict:
  "run_state mede_verdict t = ((), (emit ((if fails t = 0 then [Str ''RESULT: PASS\<newline>'']
     else [Str ''RESULT: FAIL ('', Dec (of_nat (fails t)), Str '' checks failed)\<newline>'']) @ [Str ''done\<newline>'']) t)\<lparr>parked := True\<rparr>)"
  by (simp add: mede_verdict_def deleg_exec)


lemma run_route_verdict:
  "run_state route_verdict t = ((), if fails t = 0
     then (emit [Str ''RESULT: PASS (checks='', Dec (of_nat (nchecks t)), Str '')\<newline>''] t)\<lparr>finisher := Some FINISHER_PASS, parked := True\<rparr>
     else (emit [Str ''RESULT: FAIL (checks='', Dec (of_nat (nchecks t)), Str '' fails='', Dec (of_nat (fails t)), Str '')\<newline>'', Str ''done\<newline>''] t)
       \<lparr>parked := True\<rparr>)"
  by (simp add: route_verdict_def deleg_exec)

text \<open>From the resumed payload to the verdict: the checks that fail are those of the program's own list.\<close>

lemma report_to_verdict:
  assumes t: "both_taken y n d0 d1 t" "reg_get (q_addr y) (hw t) = trap_2 y"
    and checks: "\<And>u. both_taken y n d0 d1 u \<Longrightarrow> p2_addr u = trap_2 y \<Longrightarrow> \<exists>v. run_state checks u = ((), v) \<and> both_taken y n d0 d1 v \<and>
      fails v = fails u + f \<and> nchecks v = nchecks u + k \<and> finisher v = finisher u"
    and chk: "\<And>msg u. run_state (chk True msg) u = ((), u\<lparr>nchecks := nchecks u + j\<rparr>)"
  shows "\<exists>v. final (route_resumed w title l checks chk verdict y) t =
      final verdict (emit [Str ''checksum='', Hex (route_sum y n d0 d1), Str ''\<newline>''] v) \<and>
    both_taken y n d0 d1 v \<and> fails v = fails t + f \<and> nchecks v = nchecks t + k + j \<and> finisher v = finisher t"
proof -
  let ?t1 = "t\<lparr>p2_addr := trap_2 y\<rparr>"
  obtain ps where r: "run_state (route_report w title l) ?t1 = ((), emit ps ?t1)" using run_route_report by blast
  have "both_taken y n d0 d1 (emit ps ?t1)" "p2_addr (emit ps ?t1) = trap_2 y" using t(1) by simp_all
  from checks [OF this] obtain u where u: "run_state checks (emit ps ?t1) = ((), u)" "both_taken y n d0 d1 u" "fails u = fails t + f"
    "nchecks u = nchecks t + k" "finisher u = finisher t" by auto
  obtain qs where q: "run_state (quiet_window chk) u = ((), (emit qs u)\<lparr>nchecks := nchecks t + k + j\<rparr>)"
    using run_quiet_window [OF u(2), of chk] chk u(4) by auto
  let ?v = "(emit qs u)\<lparr>nchecks := nchecks t + k + j\<rparr>"
  have v: "both_taken y n d0 d1 ?v" using u(2) by simp
  show ?thesis using t(2) u v
    by (intro exI [of _ ?v])
      (simp add: final_def route_resumed_def deleg_exec exec_step [OF r] exec_step [OF u(1)] exec_step [OF q] exec_step [OF run_route_checksum [OF v]])
qed

lemma check_True: "run_state (check True msg) (u :: deleg) = ((), u\<lparr>nchecks := nchecks u + 0\<rparr>)"
  "run_state (check_n True msg) (u :: deleg) = ((), u\<lparr>nchecks := nchecks u + 1\<rparr>)"
  by (simp_all add: checked_True)

lemmas checks_run = deleg_exec checked_True both_taken_def bit_masks Let_def

lemma mede_checks_run:
  assumes "both_taken y 9 d0 d1 u" "p2_addr u = trap_2 y" "\<not> bit d0 9" "bit d1 9"
  shows "\<exists>v. run_state mede_checks u = ((), v) \<and> both_taken y 9 d0 d1 v \<and> fails v = fails u + of_bool (d0 \<noteq> 0) \<and>
    nchecks v = nchecks u + 0 \<and> finisher v = finisher u"
proof (intro exI conjI)
  show "run_state mede_checks u = ((), checked (d0 = 0) ''phase-1 medeleg readback != 0'' u)"
    using assms by (simp add: mede_checks_def checks_run)
qed (use assms in simp_all)

lemma mebk_checks_run:
  assumes "both_taken y 3 d0 d1 u" "p2_addr u = trap_2 y" "\<not> bit d0 3" "bit d1 3"
  shows "\<exists>v. run_state mebk_checks u = ((), v) \<and> both_taken y 3 d0 d1 v \<and> fails v = fails u + of_bool (d1 \<noteq> 8) \<and>
    nchecks v = nchecks u + 13 \<and> finisher v = finisher u"
proof (intro exI conjI)
  show "run_state mebk_checks u = ((), (checked (d1 = 8) ''phase-2 medeleg readback != 0x8 (bit 3 alone)'' u)\<lparr>nchecks := nchecks u + 13\<rparr>)"
    using assms by (simp add: mebk_checks_def checks_run checked_def emit_def)
qed (use assms in simp_all)

lemma mili_checks_run:
  assumes "both_taken y 2 d0 d1 u" "p2_addr u = trap_2 y" "\<not> bit d0 2" "bit d1 2"
  shows "\<exists>v. run_state mili_checks u = ((), v) \<and> both_taken y 2 d0 d1 v \<and> fails v = fails u + 0 \<and>
    nchecks v = nchecks u + 12 \<and> finisher v = finisher u"
proof (intro exI conjI)
  show "run_state mili_checks u = ((), u\<lparr>nchecks := nchecks u + 12\<rparr>)"
    using assms by (simp add: mili_checks_def checks_run)
qed (use assms in simp_all)


definition plain_verdict :: "bool \<Rightarrow> piece list" where
  "plain_verdict ok =
     (if ok then [Str ''RESULT: PASS\<newline>''] else [Str ''RESULT: FAIL ('', Dec 1, Str '' checks failed)\<newline>'']) @ [Str ''done\<newline>'']"

lemma mede_ends:
  assumes "both_taken y 9 d0 d1 t" "reg_get (q_addr y) (hw t) = trap_2 y" "\<not> bit d0 9" "bit d1 9" "fails t = 0" "finisher t = None"
  shows "route_ends (final (mede_report y) t) y 9 d0 d1 (of_bool (d0 \<noteq> 0))
      (plain_verdict (d0 = 0))"
    "finisher (final (mede_report y) t) = None"
proof -
  have "\<exists>v. final (mede_report y) t = final mede_verdict (emit [Str ''checksum='', Hex (route_sum y 9 d0 d1), Str ''\<newline>''] v) \<and>
    both_taken y 9 d0 d1 v \<and> fails v = fails t + of_bool (d0 \<noteq> 0) \<and> nchecks v = nchecks t + 0 + 0 \<and> finisher v = finisher t"
    unfolding mede_report_def by (rule report_to_verdict [where chk = check, OF assms(1,2) mede_checks_run [OF _ _ assms(3,4)] check_True(1)])
  then obtain v where "final (mede_report y) t = final mede_verdict (emit [Str ''checksum='', Hex (route_sum y 9 d0 d1), Str ''\<newline>''] v)"
      "both_taken y 9 d0 d1 v" "fails v = of_bool (d0 \<noteq> 0)" "finisher v = None"
    using assms(5,6) by auto
  then show "route_ends (final (mede_report y) t) y 9 d0 d1 (of_bool (d0 \<noteq> 0))
      (plain_verdict (d0 = 0))"
    "finisher (final (mede_report y) t) = None"
    by (auto simp: route_ends_def final_def run_mede_verdict plain_verdict_def) (simp_all add: emit_def say_def)
qed

definition counted_verdict :: "nat \<Rightarrow> bool \<Rightarrow> piece list" where
  "counted_verdict k ok = (if ok then [Str ''RESULT: PASS (checks='', Dec (of_nat k), Str '')\<newline>'']
     else [Str ''RESULT: FAIL (checks='', Dec (of_nat k), Str '' fails='', Dec 1, Str '')\<newline>'', Str ''done\<newline>''])"

lemma counted_ends:
  assumes "final report t = final route_verdict (emit [Str ''checksum='', Hex (route_sum y n d0 d1), Str ''\<newline>''] v)"
    and "both_taken y n d0 d1 v" "fails v = of_bool (\<not> ok)" "nchecks v = k" "finisher v = None"
  shows "route_ends (final report t) y n d0 d1 (of_bool (\<not> ok))
      (counted_verdict k ok)"
    "finisher (final report t) = (if ok then Some FINISHER_PASS else None)"
  using assms by (auto simp: route_ends_def final_def run_route_verdict counted_verdict_def) (simp_all add: emit_def say_def)


lemma laid_out_same:
  "laid_out (mebk_code y) = laid_out (mede_code y)" "laid_out (mili_code y) = laid_out (mede_code y)"
  by (simp_all add: laid_out_def mede_code_def mebk_code_def mili_code_def)

lemma mebk_ends:
  assumes "both_taken y 3 d0 d1 t" "reg_get (q_addr y) (hw t) = trap_2 y" "\<not> bit d0 3" "bit d1 3" "fails t = 0" "nchecks t = 0" "finisher t = None"
  shows "route_ends (final (mebk_report y) t) y 3 d0 d1 (of_bool (\<not> d1 = 8)) (counted_verdict 14 (d1 = 8)) \<and>
    finisher (final (mebk_report y) t) = (if d1 = 8 then Some FINISHER_PASS else None)"
proof -
  have "\<exists>v. final (mebk_report y) t = final route_verdict (emit [Str ''checksum='', Hex (route_sum y 3 d0 d1), Str ''\<newline>''] v) \<and>
    both_taken y 3 d0 d1 v \<and> fails v = fails t + of_bool (d1 \<noteq> 8) \<and> nchecks v = nchecks t + 13 + 1 \<and> finisher v = finisher t"
    unfolding mebk_report_def by (rule report_to_verdict [where chk = check_n, OF assms(1,2) mebk_checks_run [OF _ _ assms(3,4)] check_True(2)])
  then show ?thesis using counted_ends [of "mebk_report y" t y 3 d0 d1 _ "d1 = 8" 14] assms(5-7) by auto
qed

lemma mili_ends:
  assumes "both_taken y 2 d0 d1 t" "reg_get (q_addr y) (hw t) = trap_2 y" "\<not> bit d0 2" "bit d1 2" "fails t = 0" "nchecks t = 0" "finisher t = None"
  shows "route_ends (final (mili_report y) t) y 2 d0 d1 (of_bool (\<not> True)) (counted_verdict 13 True) \<and>
    finisher (final (mili_report y) t) = Some FINISHER_PASS"
proof -
  have "\<exists>v. final (mili_report y) t = final route_verdict (emit [Str ''checksum='', Hex (route_sum y 2 d0 d1), Str ''\<newline>''] v) \<and>
    both_taken y 2 d0 d1 v \<and> fails v = fails t + 0 \<and> nchecks v = nchecks t + 12 + 1 \<and> finisher v = finisher t"
    unfolding mili_report_def by (rule report_to_verdict [where chk = check_n, OF assms(1,2) mili_checks_run [OF _ _ assms(3,4)] check_True(2)])
  then show ?thesis using counted_ends [of "mili_report y" t y 2 d0 d1 _ True 13] assms(5-7) by auto
qed


subsection \<open>Properties\<close>

text \<open>
  C37. The three experiments decide where their exception goes, on every hart, whatever \<open>medeleg\<close> keeps of the values written. If the
  bit stays set in phase 1, the S-mode entry takes the first trap and the payload parks behind it; if it stays clear in phase 2, the
  M-mode entry takes the second trap too and parks; either way not a character is printed. Otherwise M-mode records exactly the first trap and
  S-mode exactly the second, each with the right cause, address and interrupted mode, and the report ends with the checksum of those values and the verdict:
  \<open>mede\<close> passes exactly if \<open>medeleg\<close> read back as zero, \<open>mebk\<close> exactly if it read back as \<open>8\<close> (writing the pass word), and \<open>mili\<close> always.
\<close>

theorem delegation_decides:
  assumes "laid_out (mede_code y)" "route_boot y s"
  defines "L \<equiv> legal (hw s) Medeleg"
  defines "d0 \<equiv> L (csrf (hw s) Medeleg) 0"
  shows "route_decided (mede_code y) s y 9 d0 (L d0 0x200) (d0 = 0)
      (plain_verdict (d0 = 0)) None \<and>
    route_decided (mebk_code y) s y 3 d0 (L d0 (d0 OR 8)) (L d0 (d0 OR 8) = 8)
      (counted_verdict 14 (L d0 (d0 OR 8) = 8)) (if L d0 (d0 OR 8) = 8 then Some FINISHER_PASS else None) \<and>
    route_decided (mili_code y) s y 2 d0 (L d0 (d0 OR 4)) True (counted_verdict 13 True) (Some FINISHER_PASS)"
proof -
  note laid = assms(1) assms(1) [folded laid_out_same(1)] assms(1) [folded laid_out_same(2)]
  have "route_decided (mede_code y) s y 9 d0 (L d0 0x200) (d0 = 0)
      (plain_verdict (d0 = 0)) None"
    unfolding d0_def L_def by (rule mede.decided [OF laid(1) assms(2)]) (rule conjI, (rule mede_ends; assumption)+)
  moreover have "route_decided (mebk_code y) s y 3 d0 (L d0 (d0 OR 8)) (L d0 (d0 OR 8) = 8)
      (counted_verdict 14 (L d0 (d0 OR 8) = 8)) (if L d0 (d0 OR 8) = 8 then Some FINISHER_PASS else None)"
    unfolding d0_def L_def by (rule mebk.decided [OF laid(2) assms(2)], rule mebk_ends)
  moreover have "route_decided (mili_code y) s y 2 d0 (L d0 (d0 OR 4)) True (counted_verdict 13 True) (Some FINISHER_PASS)"
    unfolding d0_def L_def by (rule mili.decided [OF laid(3) assms(2)], rule mili_ends)
  ultimately show ?thesis by blast
qed

text \<open>A hart whose \<open>medeleg\<close> takes any value, and symbols for the three programs.\<close>

definition dl_example_syms :: dl_syms where
  "dl_example_syms = \<lparr>a_main = 0x80000000, a_mtrap = 0x80000100, a_strap = 0x80000200, a_m_regs = 0x80010000, a_s_regs = 0x80010100,
     a_done = 0x80010200, a_phase1 = 0x80000300, a_phase2_mmode = 0x80000400, a_phase2 = 0x80000500, trap_1 = 0x80000310, trap_2 = 0x80000510,
     q_addr = 10, hart_tval = 0\<rparr>"

definition dl_example :: deleg where
  "dl_example = \<lparr>out = [], hw = gate_example_hart 0x80000000 (\<lambda>c old v. v), fails = 0, nchecks = 0, save = \<lambda>_. 0, finisher = None, overrun = [],
     parked = False, stuck = False, dm_regs = \<lambda>_. 0, ds_regs = \<lambda>_. 0, s_done = 0, p1_addr = 0, p2_addr = 0, boot_medeleg = 0, p1_medeleg_rb = 0,
     p2_medeleg_rb = 0, p1_m_traps = 0, p1_s_traps = 0, restore_armed = 0,
     restore_rb = 0\<rparr>"

theorem delegation_decides_witness:
  "\<exists>t. runs (mebk_code dl_example_syms) dl_example t \<and> mode_step (mebk_code dl_example_syms) t = None \<and> fails t = 0 \<and>
     finisher t = Some FINISHER_PASS \<and> dm_regs t 3 = 0x80000310 \<and> ds_regs t 3 = 0x80000510"
proof -
  have "laid_out (mede_code dl_example_syms)"
    by (simp add: laid_out_def mede_code_def dl_example_syms_def code_addr_def)
  moreover have "route_boot dl_example_syms dl_example"
    by (simp add: route_boot_def route_legal_def dl_example_def dl_example_syms_def gate_example_hart_def keeps_bits_def takes_def plain_csr_def)
  ultimately have "route_decided (mebk_code dl_example_syms) dl_example dl_example_syms 3 0 8 True (counted_verdict 14 True) (Some FINISHER_PASS)"
    using delegation_decides [of dl_example_syms dl_example] by (simp add: dl_example_def gate_example_hart_def)
  moreover have "bit (8 :: u64) 3" by (simp add: bit_iff_odd)
  ultimately show ?thesis
    by (auto simp: route_decided_def route_ends_def both_taken_def dl_example_syms_def)
qed

end
