(* ===== verification/Udeleg.thy ===== *)
theory Udeleg
  imports Deleg
begin

text \<open>
  \<open>src/src/medeleg-ecall-u-route\<close> (\<open>umede\<close>): the \<open>ecall\<close> of a U-mode payload, delegated to S-mode by bit 8 of \<open>medeleg\<close>. The S-mode entry goes on to
  \<open>s_report\<close> in S-mode, whose own \<open>ecall\<close> asks M-mode to restore \<open>medeleg\<close>; the M-mode entry does and goes on to \<open>m_finalize\<close>, which gives the
  verdict. If the U-mode call arrives in M-mode instead, the entry notes it in slot 7 and \<open>m_finalize\<close> reports that.

  The state and the symbols are those of theory Deleg. The payload, \<open>s_report\<close> and \<open>m_finalize\<close> are at \<open>a_phase1\<close>, \<open>a_phase2\<close> and \<open>a_phase2_mmode\<close>, the two
  \<open>ecall\<close>s at \<open>trap_1\<close> and \<open>trap_2\<close>; \<open>u_ecall_addr\<close>, \<open>restore_ecall_addr\<close> and \<open>medeleg_rb\<close> are \<open>p1_addr\<close>, \<open>p2_addr\<close> and \<open>p1_medeleg_rb\<close>.
\<close>

unbundle bit_operations_syntax


subsection \<open>The program\<close>

text \<open>\<open>drop_to_umode\<close>, by \<open>sret\<close> from M-mode.\<close>

definition sret_to_umode_at :: "u64 \<Rightarrow> ('x, unit) prog" where
  "sret_to_umode_at a = do {
     v \<leftarrow> csrr Sstatus;
     csrw Sstatus (v AND NOT 0x100);
     v \<leftarrow> csrr Mstatus;
     csrw Mstatus (v AND NOT 0x1800);
     csrw Sepc a;
     sret }"

definition umede_main :: "dl_syms \<Rightarrow> dprog" where
  "umede_main y = do {
     csrw Mtvec (a_mtrap y);
     csrw Mscratch (a_m_regs y);
     csrw Stvec (a_strap y);
     csrw Sscratch (a_s_regs y);
     sets_d (\<lambda>s. s\<lparr>ds_regs := (ds_regs s)(5 := a_done y)\<rparr>);
     boot \<leftarrow> csrr Medeleg;
     csrw Medeleg 0x100;
     rb \<leftarrow> csrr Medeleg;
     sets_d (\<lambda>s. s\<lparr>boot_medeleg := boot, p1_medeleg_rb := rb\<rparr>);
     csrw Pmpaddr0 (- 1);
     csrw Pmpcfg0 0x1f;
     csrw Mie 0;
     csrc Mstatus 8;
     sret_to_umode_at (a_phase1 y) }"

definition umede_payload :: "dl_syms \<Rightarrow> dprog" where
  "umede_payload y = do {
     put_reg xt0 (trap_1 y);
     sets_d (\<lambda>s. s\<lparr>p1_addr := trap_1 y\<rparr>);
     goto (trap_1 y) }"

definition umede_s_trap_entry :: "dl_syms \<Rightarrow> dprog" where
  "umede_s_trap_entry y = do {
     t0 \<leftarrow> get_reg xt0;
     base \<leftarrow> csrrw Sscratch t0;
     if base \<noteq> a_s_regs y then sets_d (\<lambda>s. s\<lparr>stuck := True\<rparr>)
     else do {
       t1 \<leftarrow> get_reg xt1; t2 \<leftarrow> get_reg xt2;
       cause \<leftarrow> csrr Scause; epc \<leftarrow> csrr Sepc; st \<leftarrow> csrr Sstatus;
       sets_d (\<lambda>s. s\<lparr>ds_regs := (ds_regs s)(1 := t1, 6 := t2, 0 := ds_regs s 0 + 1, 2 := cause, 3 := epc, 4 := st)\<rparr>);
       p \<leftarrow> gets_d (\<lambda>s. ds_regs s 5);
       if p \<noteq> a_done y then sets_d (\<lambda>s. s\<lparr>stuck := True\<rparr>)
       else do {
         sets_d (\<lambda>s. s\<lparr>s_done := 1\<rparr>);
         csrw Sepc (a_phase2 y);
         st \<leftarrow> csrr Sstatus;
         csrw Sstatus (st OR 0x100);
         csrw Sscratch base;
         sret } } }"

definition umede_m_trap_entry :: "dl_syms \<Rightarrow> dprog" where
  "umede_m_trap_entry y = do {
     t0 \<leftarrow> get_reg xt0;
     base \<leftarrow> csrrw Mscratch t0;
     if base \<noteq> a_m_regs y then sets_d (\<lambda>s. s\<lparr>stuck := True\<rparr>)
     else do {
       t1 \<leftarrow> get_reg xt1; t2 \<leftarrow> get_reg xt2;
       cause \<leftarrow> csrr Mcause; epc \<leftarrow> csrr Mepc; st \<leftarrow> csrr Mstatus;
       sets_d (\<lambda>s. s\<lparr>dm_regs := (dm_regs s)(1 := t1, 6 := t2, 0 := dm_regs s 0 + 1, 2 := cause, 3 := epc, 4 := st)\<rparr>);
       armed \<leftarrow> gets_d restore_armed;
       (if armed = 0 then sets_d (\<lambda>s. s\<lparr>dm_regs := (dm_regs s)(7 := 1)\<rparr>)
       else do {
         boot \<leftarrow> gets_d boot_medeleg;
         csrw Medeleg boot;
         rb \<leftarrow> csrr Medeleg;
         sets_d (\<lambda>s. s\<lparr>restore_rb := rb\<rparr>) });
       csrw Mepc (a_phase2_mmode y);
       st \<leftarrow> csrr Mstatus;
       csrw Mstatus (st OR 0x1800);
       csrw Mscratch base;
       mret } }"

definition umede_checks :: dprog where
  "umede_checks = do {
     s \<leftarrow> gets_d (\<lambda>s. s);
     let m = dm_regs s; r = ds_regs s in do {
       check (p1_medeleg_rb s = 0x100) ''medeleg readback after writing 0x100 != 0x100'';
       check (r 0 = 1) ''S-mode trap did not fire exactly once'';
       check (r 2 = 8) ''scause != environment call from U-mode (8)'';
       check (r 3 = p1_addr s) ''sepc != ecall address'';
       check (spp_field (r 4) = 0) ''trap did not arrive from U-mode (sstatus.SPP)'';
       check (m 0 = 0) ''M-mode trap fired during the delegation phase'' } }"

definition umede_quiet :: dprog where
  "umede_quiet = do {
     _ \<leftarrow> State_Monad.return (count_up 2000000 0);
     m \<leftarrow> gets_d dm_regs; r \<leftarrow> gets_d ds_regs;
     puts [Str ''quiet: m_traps='', Dec (m 0), Str '' s_traps='', Dec (r 0), Str ''\<newline>''];
     check (m 0 = 0 \<and> r 0 = 1) ''trap count moved during the quiet window'' }"

definition umede_values :: dprog where
  "umede_values = do {
     s \<leftarrow> gets_d (\<lambda>s. s);
     let m = dm_regs s; r = ds_regs s in
     puts [Str ''medeleg-ecall-u-route: U-mode ecall route test\<newline>'', Str ''boot: medeleg='', Hex (boot_medeleg s), Str '' write=0x100 readback='',
       Hex (p1_medeleg_rb s), Str ''\<newline>u-ecall: s_traps='', Dec (r 0), Str '' scause='', Hex (r 2), Str '' sepc='', Hex (r 3), Str '' expected='',
       Hex (p1_addr s), Str '' sstatus_spp='', Dec (spp_field (r 4)), Str '' m_traps='', Dec (m 0), Str ''\<newline>''] }"

definition umede_report :: "dl_syms \<Rightarrow> dprog" where
  "umede_report y = do {
     umede_values;
     umede_checks;
     umede_quiet;
     put_reg xt0 (trap_2 y);
     sets_d (\<lambda>s. s\<lparr>restore_armed := 1, p2_addr := trap_2 y\<rparr>);
     goto (trap_2 y) }"

definition umede_premature :: dprog where
  "umede_premature = do {
     m \<leftarrow> gets_d dm_regs; boot \<leftarrow> gets_d boot_medeleg;
     puts [Str ''premature M-mode trap: mcause='', Hex (m 2), Str '' mepc='', Hex (m 3), Str '' (expected the U-mode ecall to be delegated)\<newline>''];
     add_fail;
     csrw Medeleg boot;
     rb \<leftarrow> csrr Medeleg;
     sets_d (\<lambda>s. s\<lparr>restore_rb := rb\<rparr>) }"

definition umede_sum :: "deleg \<Rightarrow> u64" where
  "umede_sum s = foldl fnv64 0xcbf29ce484222325 [ds_regs s 0, ds_regs s 2, ds_regs s 3, dm_regs s 0, dm_regs s 2, p1_medeleg_rb s, restore_rb s,
     p1_addr s, p2_addr s]"

definition umede_restore_checks :: dprog where
  "umede_restore_checks = do {
     s \<leftarrow> gets_d (\<lambda>s. s);
     m \<leftarrow> gets_d dm_regs;
     puts [Str ''restore: m_traps='', Dec (m 0), Str '' mcause='', Hex (m 2), Str '' mepc='', Hex (m 3), Str '' expected='', Hex (p2_addr s),
       Str '' medeleg_restored='', Hex (restore_rb s), Str ''\<newline>''];
     check (m 2 = 9) ''restore trap mcause != environment call from S-mode (9)'';
     check (m 3 = p2_addr s) ''restore trap mepc != restore-ecall address'';
     check (restore_rb s = boot_medeleg s) ''medeleg was not restored to the boot value'' }"

definition umede_finalize :: dprog where
  "umede_finalize = do {
     p \<leftarrow> gets_d (\<lambda>s. dm_regs s 7);
     only_if (p \<noteq> 0) umede_premature;
     umede_restore_checks;
     h \<leftarrow> gets_d umede_sum;
     puts [Str ''checksum='', Hex h, Str ''\<newline>''];
     mede_verdict }"

definition umede_code :: "dl_syms \<Rightarrow> (u64 \<times> dprog) list" where
  "umede_code y =
    [(a_main y, umede_main y),
     (a_mtrap y, umede_m_trap_entry y),
     (a_strap y, umede_s_trap_entry y),
     (a_phase1 y, umede_payload y),
     (trap_1 y, ecall (trap_1 y)),
     (trap_1 y + 4, park),
     (a_phase2 y, umede_report y),
     (trap_2 y, ecall (trap_2 y)),
     (trap_2 y + 4, park),
     (a_phase2_mmode y, umede_finalize)]"



subsection \<open>Running\<close>

definition u_sret_drop :: "u64 \<Rightarrow> hart \<Rightarrow> hart" where
  "u_sret_drop a h = (let h1 = csr_write Sstatus (csr_read Sstatus h AND NOT 0x100) h
     in do_sret (csr_write Sepc a (csr_write Mstatus (csr_read Mstatus h1 AND NOT 0x1800) h1)))"

lemma run_u_sret_drop [simp]: "run_state (sret_to_umode_at a) s = ((), s\<lparr>hw := u_sret_drop a (hw s)\<rparr>)"
  by (simp add: sret_to_umode_at_def deleg_exec u_sret_drop_def Let_def)

lemma u_sret_drop:
  assumes "keeps_bits h Mstatus STEER" "takes h Sepc a"
  shows "priv (u_sret_drop a h) = UMode" "pc (u_sret_drop a h) = a" "same_config h (u_sret_drop a h)"
  using assms keeps_bitsD [OF assms(1), of 8]
  by (simp_all add: u_sret_drop_def Let_def do_sret_def same_config_def csr_store_def takes_def bit_simps sstatus_mask_def)

text \<open>To the \<open>ecall\<close> of the payload.\<close>

definition u_boot :: "dl_syms \<Rightarrow> deleg \<Rightarrow> bool" where
  "u_boot y s \<longleftrightarrow> route_boot y s \<and> dm_regs s 7 = 0 \<and> restore_armed s = 0 \<and> p2_addr s = 0"

lemma umede_to_payload:
  assumes "laid_out (umede_code y)" "u_boot y s"
  defines "d \<equiv> legal (hw s) Medeleg (csrf (hw s) Medeleg) 0x100"
  shows "\<exists>t. runs (umede_code y) s t \<and> set_up y d (hw s) t \<and> at UMode (trap_1 y) t \<and> p1_addr t = trap_1 y \<and> p1_medeleg_rb t = d \<and>
    boot_medeleg t = csrf (hw s) Medeleg \<and> dm_regs t 0 = 0 \<and> dm_regs t 7 = 0 \<and> ds_regs t 0 = 0 \<and> ds_regs t 5 = a_done y \<and>
    restore_armed t = 0 \<and> p2_addr t = 0 \<and> fails t = 0"
proof -
  from assms(2) have b: "route_legal y (hw s)" "\<not> parked s" "\<not> stuck s" "pc (hw s) = a_main y" by (simp_all add: u_boot_def route_boot_def)
  let ?h = "equip_route y 0x100 (hw s)"
  let ?h' = "u_sret_drop (a_phase1 y) ?h"
  have a: "code_addr (a_phase1 y)" by (rule laid_addr [OF assms(1), of _ "umede_payload y"]) (simp add: umede_code_def)
  note e = equip_route [OF b(1-3), of "0x100"]
  have drop: "priv ?h' = UMode" "pc ?h' = a_phase1 y" "same_config ?h ?h'"
    using u_sret_drop [of ?h "a_phase1 y"] b(1) a by (simp_all add: route_legal_def keeps_bits_def takes_def e(1))
  define t where "t = s\<lparr>ds_regs := (ds_regs s)(5 := a_done y), boot_medeleg := csrf (hw s) Medeleg, p1_medeleg_rb := d, hw := ?h'\<rparr>"
  have f: "final (umede_main y) s = t"
    by (cases s) (simp add: final_def umede_main_def deleg_exec d_def equip_route_def Let_def t_def)
  have t: "set_up y d (hw s) t" "at UMode (a_phase1 y) t"
    using drop set_up_config [OF e(2), of ?h'] by (simp_all add: t_def at_def set_up_def d_def)
  have m: "mode_step (umede_code y) s = Some t"
    using block_step [OF b(2,3) pmp_open, of "umede_code y" "umede_main y"] assms(1,2) b(4) f
    by (simp add: u_boot_def route_boot_def laid_out_def umede_code_def)
  let ?u = "t\<lparr>p1_addr := trap_1 y, hw := (reg_set xt0 (trap_1 y) (hw t))\<lparr>pc := trap_1 y\<rparr>\<rparr>"
  have "final (umede_payload y) t = ?u" by (cases t) (simp add: final_def umede_payload_def deleg_exec)
  then have "mode_step (umede_code y) t = Some ?u"
    using set_up_step [OF assms(1) t, of "umede_payload y"] by (simp add: umede_code_def)
  then have "runs (umede_code y) s ?u" using m by (blast intro: runs.intros)
  moreover have "set_up y d (hw s) ?u" using set_up_config [OF t(1), of "(reg_set xt0 (trap_1 y) (hw t))\<lparr>pc := trap_1 y\<rparr>"]
    by (simp add: set_up_def)
  ultimately show ?thesis using t(2) assms(2) by (intro exI [of _ ?u]) (simp add: at_def t_def u_boot_def route_boot_def)
qed

text \<open>The S-mode entry goes on to the report.\<close>

lemma umede_s_entry_run:
  assumes s: "set_up y d h0 s" "ds_regs s 5 = a_done y" "code_addr (a_phase2 y)"
  shows "\<exists>h'. let s' = s\<lparr>ds_regs := (ds_regs s)(1 := reg_get xt1 (hw s), 6 := reg_get xt2 (hw s), 0 := ds_regs s 0 + 1,
      2 := csrf (hw s) Scause, 3 := csrf (hw s) Sepc, 4 := csrf (hw s) Mstatus AND sstatus_mask), s_done := 1, hw := h'\<rparr> in
    final (umede_s_trap_entry y) s = s' \<and> set_up y d h0 s' \<and> at SMode (a_phase2 y) s'"
proof -
  let ?h1 = "csr_store Sepc (a_phase2 y) (csr_store Sscratch (reg_get xt0 (hw s)) (hw s))"
  let ?h' = "do_sret (csr_store Sscratch (a_s_regs y) (csr_write Sstatus (csr_read Sstatus ?h1 OR 0x100) ?h1))"
  let ?s' = "s\<lparr>ds_regs := (ds_regs s)(1 := reg_get xt1 (hw s), 6 := reg_get xt2 (hw s), 0 := ds_regs s 0 + 1,
      2 := csrf (hw s) Scause, 3 := csrf (hw s) Sepc, 4 := csrf (hw s) Mstatus AND sstatus_mask), s_done := 1, hw := ?h'\<rparr>"
  have "csrf (hw s) Sscratch = a_s_regs y" using s(1) by (simp add: set_up_def)
  then have "final (umede_s_trap_entry y) s = ?s'" using s(2) by (cases s) (simp add: final_def umede_s_trap_entry_def deleg_exec)
  moreover have "set_up y d h0 ?s'"
    using s(1) by (simp add: set_up_def do_sret_def csr_store_def pmp_everything_def route_legal_def plain_csr_def)
  moreover have "at SMode (a_phase2 y) ?s'"
    using set_up_legal(2) [OF s(1,3)] keeps_bitsD [OF set_up_legal(1) [OF s(1)], of 8]
    by (simp add: at_def do_sret_def csr_store_def bit_simps sstatus_mask_def)
  ultimately show ?thesis by (intro exI [of _ ?h']) (simp add: Let_def)
qed


text \<open>An \<open>ecall\<close> at \<open>a\<close>: one step into the S-mode or the M-mode entry.\<close>

lemma umede_ecall:
  assumes "laid_out (umede_code y)" "set_up y d h0 s" "at p a s" "a \<in> {trap_1 y, trap_2 y}" "(p, n) \<in> {(UMode, 8), (SMode, 9)}"
  shows "mode_step (umede_code y) s = Some (s\<lparr>hw := route n a 0 (hw s)\<rparr>)"
    "set_up y d h0 (s\<lparr>hw := route n a 0 (hw s)\<rparr>)"
    "bit d n \<Longrightarrow> at SMode (a_strap y) (s\<lparr>hw := route n a 0 (hw s)\<rparr>)"
    "\<not> bit d n \<Longrightarrow> at MMode (a_mtrap y) (s\<lparr>hw := route n a 0 (hw s)\<rparr>)"
proof -
  have "(a, ecall a) \<in> set (umede_code y)" using assms(4) by (auto simp: umede_code_def)
  from set_up_step [OF assms(1-3) this] show "mode_step (umede_code y) s = Some (s\<lparr>hw := route n a 0 (hw s)\<rparr>)"
    using assms(3,5) by (auto simp: final_def ecall_def at_def)
  show "set_up y d h0 (s\<lparr>hw := route n a 0 (hw s)\<rparr>)" by (rule set_up_config [OF assms(2)]) simp
  have "code_addr (a_strap y)" "code_addr (a_mtrap y)" using assms(1) by (simp_all add: laid_out_def umede_code_def)
  note v = this [THEN aligned_vector]
  show "at SMode (a_strap y) (s\<lparr>hw := route n a 0 (hw s)\<rparr>)" if "bit d n"
    using that assms(2,3,5) v(1) by (auto simp: at_def route_def trap_to_s_def set_up_def)
  show "at MMode (a_mtrap y) (s\<lparr>hw := route n a 0 (hw s)\<rparr>)" if "\<not> bit d n"
    using that assms(2,3) v(2) by (simp add: at_def route_def trap_to_m_def set_up_def)
qed

text \<open>The report prints, checks, arms the restore and stops at its \<open>ecall\<close>.\<close>

definition report_fails :: "deleg \<Rightarrow> nat" where
  "report_fails s = of_bool (p1_medeleg_rb s \<noteq> 0x100) + of_bool (ds_regs s 0 \<noteq> 1) + of_bool (ds_regs s 2 \<noteq> 8) + of_bool (ds_regs s 3 \<noteq> p1_addr s) +
     of_bool (spp_field (ds_regs s 4) \<noteq> 0) + of_bool (dm_regs s 0 \<noteq> 0) + of_bool (\<not> (dm_regs s 0 = 0 \<and> ds_regs s 0 = 1))"

lemma umede_report_run:
  "\<exists>tx. final (umede_report y) s = s\<lparr>out := tx, fails := fails s + report_fails s, restore_armed := 1, p2_addr := trap_2 y,
     hw := (reg_set xt0 (trap_2 y) (hw s))\<lparr>pc := trap_2 y\<rparr>\<rparr>"
  by (cases s) (simp add: report_run umede_report_def umede_values_def umede_checks_def umede_quiet_def report_fails_def add.assoc cong: probe_cong)

text \<open>The M-mode entry, with the restore armed or not.\<close>

lemma umede_m_entry_run:
  assumes s: "set_up y d h0 s" "code_addr (a_phase2_mmode y)"
  defines "r \<equiv> (dm_regs s)(1 := reg_get xt1 (hw s), 6 := reg_get xt2 (hw s), 0 := dm_regs s 0 + 1, 2 := csrf (hw s) Mcause,
     3 := csrf (hw s) Mepc, 4 := csrf (hw s) Mstatus)"
  defines "rb \<equiv> legal h0 Medeleg d (boot_medeleg s)"
  defines "armed \<equiv> restore_armed s \<noteq> 0"
  defines "t \<equiv> final (umede_m_trap_entry y) s"
  shows "set_up y (if armed then rb else d) h0 t" "at MMode (a_phase2_mmode y) t" "dm_regs t = (if armed then r else r(7 := 1))"
    "restore_rb t = (if armed then rb else restore_rb s)" "boot_medeleg t = boot_medeleg s" "fails t = fails s" "p2_addr t = p2_addr s"
proof -
  let ?armed = "restore_armed s \<noteq> 0"
  let ?h0 = "csr_store Mscratch (reg_get xt0 (hw s)) (hw s)"
  let ?h1 = "if ?armed then csr_store Medeleg (boot_medeleg s) ?h0 else ?h0"
  let ?h' = "do_mret (csr_store Mscratch (a_m_regs y) (csr_store Mstatus (csrf ?h1 Mstatus OR 0x1800) (csr_store Mepc (a_phase2_mmode y) ?h1)))"
  let ?s' = "s\<lparr>dm_regs := if ?armed then r else r(7 := 1), restore_rb := if ?armed then rb else restore_rb s, hw := ?h'\<rparr>"
  have c: "csrf (hw s) Mscratch = a_m_regs y" "csrf (hw s) Medeleg = d" "legal (hw s) = legal h0" using s(1) by (simp_all add: set_up_def)
  then have t: "t = ?s'"
    by (cases s) (simp add: t_def final_def umede_m_trap_entry_def deleg_exec exec_assoc r_def rb_def)
  have "set_up y (if ?armed then rb else d) h0 ?s'"
    using s(1) by (simp add: set_up_def do_mret_def csr_store_def pmp_everything_def route_legal_def plain_csr_def rb_def)
  moreover have "at MMode (a_phase2_mmode y) ?s'"
    using keeps_bitsD [OF set_up_legal(1) [OF s(1)], of 12] set_up_legal(3) [OF s]
    by (simp add: at_def do_mret_def csr_store_def mpp_of_def bit_simps)
  ultimately show "set_up y (if armed then rb else d) h0 t" "at MMode (a_phase2_mmode y) t" by (simp_all only: t armed_def)
  show "dm_regs t = (if armed then r else r(7 := 1))" "restore_rb t = (if armed then rb else restore_rb s)" "boot_medeleg t = boot_medeleg s"
    "fails t = fails s" "p2_addr t = p2_addr s"
    by (simp_all only: t armed_def) simp_all
qed

text \<open>The end: what \<open>m_finalize\<close> counts and says.\<close>

definition final_fails :: "deleg \<Rightarrow> nat" where
  "final_fails s = of_bool (dm_regs s 2 \<noteq> 9) + of_bool (dm_regs s 3 \<noteq> p2_addr s) + of_bool (restore_rb s \<noteq> boot_medeleg s)"

definition umede_line :: "nat \<Rightarrow> piece list" where
  "umede_line f = (if f = 0 then [Str ''RESULT: PASS\<newline>''] else [Str ''RESULT: FAIL ('', Dec (of_nat f), Str '' checks failed)\<newline>'']) @ [Str ''done\<newline>'']"

lemma umede_restore_checks_run:
  "\<exists>tx. run_state umede_restore_checks s = ((), s\<lparr>out := tx, fails := fails s + final_fails s\<rparr>)"
  by (cases s) (simp add: report_run umede_restore_checks_def final_fails_def add.assoc cong: probe_cong)

lemma umede_sum_frame [simp]: "umede_sum (s\<lparr>out := tx\<rparr>) = umede_sum s" "umede_sum (s\<lparr>fails := f\<rparr>) = umede_sum s"
  by (simp_all add: umede_sum_def)

lemma umede_premature_run:
  "\<exists>tx. run_state umede_premature s = ((), s\<lparr>out := tx, fails := fails s + 1, hw := csr_store Medeleg (boot_medeleg s) (hw s),
     restore_rb := legal (hw s) Medeleg (csrf (hw s) Medeleg) (boot_medeleg s)\<rparr>)"
  by (cases s) (simp add: report_run umede_premature_def cong: probe_cong)

lemma umede_finalize_run:
  "\<exists>tx. let s' = if dm_regs s 7 = 0 then s else s\<lparr>fails := fails s + 1, hw := csr_store Medeleg (boot_medeleg s) (hw s),
        restore_rb := legal (hw s) Medeleg (csrf (hw s) Medeleg) (boot_medeleg s)\<rparr>; f = fails s' + final_fails s' in
     final umede_finalize s = s'\<lparr>out := say (umede_line f) (say [Str ''checksum='', Hex (umede_sum s'), Str ''\<newline>''] tx), fails := f, parked := True\<rparr>"
proof -
  define s' where "s' = (if dm_regs s 7 = 0 then s else s\<lparr>fails := fails s + 1, hw := csr_store Medeleg (boot_medeleg s) (hw s),
        restore_rb := legal (hw s) Medeleg (csrf (hw s) Medeleg) (boot_medeleg s)\<rparr>)"
  have "\<exists>t1. run_state (only_if (dm_regs s 7 \<noteq> 0) umede_premature) s = ((), s'\<lparr>out := t1\<rparr>)"
  proof (cases "dm_regs s 7 = 0")
    case True
    then show ?thesis by (intro exI [of _ "out s"]) (simp add: s'_def run_only_if)
  next
    case False
    from umede_premature_run [of s] obtain tx where "run_state umede_premature s = ((), s\<lparr>out := tx, fails := fails s + 1,
      hw := csr_store Medeleg (boot_medeleg s) (hw s), restore_rb := legal (hw s) Medeleg (csrf (hw s) Medeleg) (boot_medeleg s)\<rparr>)" ..
    with False show ?thesis by (intro exI [of _ tx]) (simp add: s'_def run_only_if)
  qed
  then obtain t1 where t1: "run_state (only_if (dm_regs s 7 \<noteq> 0) umede_premature) s = ((), s'\<lparr>out := t1\<rparr>)" ..
  have ff: "final_fails (s'\<lparr>out := t1\<rparr>) = final_fails s'" by (simp add: final_fails_def)
  obtain t2 where t2: "run_state umede_restore_checks (s'\<lparr>out := t1\<rparr>) = ((), s'\<lparr>out := t2, fails := fails s' + final_fails s'\<rparr>)"
    using umede_restore_checks_run [of "s'\<lparr>out := t1\<rparr>"] ff by auto
  have "final umede_finalize s = s'\<lparr>out := say (umede_line (fails s' + final_fails s')) (say [Str ''checksum='', Hex (umede_sum s'), Str ''\<newline>''] t2),
      fails := fails s' + final_fails s', parked := True\<rparr>"
    by (simp add: final_def umede_finalize_def deleg_exec exec_step [OF t1] exec_step [OF t2] run_mede_verdict umede_line_def emit_def say_def)
  then show ?thesis unfolding Let_def s'_def by blast
qed



subsection \<open>The three outcomes\<close>

text \<open>A stop with \<open>f\<close> failed checks, the verdict line for them, and \<open>medeleg\<close> as restored.\<close>

definition umede_ends :: "dl_syms \<Rightarrow> deleg \<Rightarrow> nat \<Rightarrow> u64 \<Rightarrow> bool" where
  "umede_ends y s f rb \<longleftrightarrow> (\<exists>t tx. runs (umede_code y) s t \<and> mode_step (umede_code y) t = None \<and> parked t \<and> fails t = f \<and> csrf (hw t) Medeleg = rb \<and>
     out t = say (umede_line f) (say [Str ''checksum='', Hex (umede_sum t), Str ''\<newline>''] tx))"

definition never_stops :: "(u64 \<times> dprog) list \<Rightarrow> deleg \<Rightarrow> bool" where
  "never_stops code s \<longleftrightarrow> (\<forall>t. runs code s t \<longrightarrow> mode_step code t \<noteq> None)"

lemma never_stopsI:
  assumes "P s" "\<And>s. P s \<Longrightarrow> \<exists>t. mode_step code s = Some t \<and> P t"
  shows "never_stops code s"
proof -
  have "P t" if "runs code u t" "P u" for u t
    using that by (induction rule: runs.induct) (use assms(2) in fastforce)+
  with assms show ?thesis unfolding never_stops_def by (metis option.distinct(1))
qed

lemma never_stops_later: "runs code s t \<Longrightarrow> never_stops code t \<Longrightarrow> never_stops code s"
proof (induction rule: runs.induct)
  case (runs_step s t u)
  then have t: "never_stops code t" by blast
  show ?case unfolding never_stops_def
  proof (intro allI impI)
    fix v assume "runs code s v"
    then show "mode_step code v \<noteq> None"
    proof (cases rule: runs.cases)
      case runs_refl
      with runs_step.hyps(1) show ?thesis by simp
    next
      case (runs_step w)
      with t \<open>mode_step code s = Some t\<close> show ?thesis by (simp add: never_stops_def)
    qed
  qed
qed simp

text \<open>In M-mode, the finalizer is the last block.\<close>

lemma umede_end:
  assumes "laid_out (umede_code y)" "set_up y d h0 s" "at MMode (a_phase2_mmode y) s"
  defines "rb \<equiv> if dm_regs s 7 = 0 then d else legal h0 Medeleg d (boot_medeleg s)"
  defines "s' \<equiv> if dm_regs s 7 = 0 then s else s\<lparr>fails := fails s + 1, restore_rb := rb\<rparr>"
  shows "umede_ends y s (fails s' + final_fails s') rb"
proof -
  have "(a_phase2_mmode y, umede_finalize) \<in> set (umede_code y)" by (simp add: umede_code_def)
  note step = set_up_step [OF assms(1-3) this]
  have c: "csrf (hw s) Medeleg = d" "legal (hw s) = legal h0" using assms(2) by (simp_all add: set_up_def)
  obtain tx where f: "let s' = if dm_regs s 7 = 0 then s else s\<lparr>fails := fails s + 1, hw := csr_store Medeleg (boot_medeleg s) (hw s),
        restore_rb := legal (hw s) Medeleg (csrf (hw s) Medeleg) (boot_medeleg s)\<rparr>; f = fails s' + final_fails s' in
     final umede_finalize s = s'\<lparr>out := say (umede_line f) (say [Str ''checksum='', Hex (umede_sum s'), Str ''\<newline>''] tx), fails := f, parked := True\<rparr>"
    using umede_finalize_run [of s] ..
  show ?thesis
    unfolding umede_ends_def using f runs_one [OF step] c
    by (intro exI [of _ "final umede_finalize s"] exI [of _ tx])
      (auto simp: Let_def s'_def rb_def mode_step_def final_fails_def umede_sum_def split: if_splits)
qed


lemma umede_ends_later: "runs (umede_code y) s t \<Longrightarrow> umede_ends y t f rb \<Longrightarrow> umede_ends y s f rb"
  unfolding umede_ends_def by (blast intro: runs_trans)

text \<open>A call that is not delegated: through the M-mode entry to the end.\<close>

lemma umede_m_end:
  assumes code: "laid_out (umede_code y)" and s: "set_up y d h0 s" "at p a s" "a \<in> {trap_1 y, trap_2 y}" "(p, n) \<in> {(UMode, 8), (SMode, 9)}" "\<not> bit d n"
    and k: "dm_regs s 7 = 0"
  defines "rb \<equiv> legal h0 Medeleg d (boot_medeleg s)"
  shows "umede_ends y s (fails s + of_bool (restore_armed s = 0) + of_bool (n \<noteq> 9) + of_bool (a \<noteq> p2_addr s) + of_bool (rb \<noteq> boot_medeleg s)) rb"
proof -
  let ?s1 = "s\<lparr>hw := route n a 0 (hw s)\<rparr>"
  note e = umede_ecall [OF code s(1-4)]
  have m: "(a_mtrap y, umede_m_trap_entry y) \<in> set (umede_code y)" "code_addr (a_phase2_mmode y)"
    using code by (simp_all add: umede_code_def laid_out_def)
  have c: "csrf (route n a 0 (hw s)) Mcause = of_nat n" "csrf (route n a 0 (hw s)) Mepc = a"
    using s(1,2,5) by (simp_all add: route_def trap_to_m_def set_up_def)
  define t where "t = final (umede_m_trap_entry y) ?s1"
  note t = umede_m_entry_run [OF e(2) m(2), folded t_def, simplified]
  have r: "dm_regs t 2 = of_nat n" "dm_regs t 3 = a" "dm_regs t 7 = of_bool (restore_armed s = 0)" using k by (simp_all add: t(3) c)
  have n: "(of_nat n :: u64) = 9 \<longleftrightarrow> n = 9" using s(4) by auto
  have "runs (umede_code y) s t"
    unfolding t_def by (rule runs_trans [OF runs_one [OF e(1)] runs_one [OF set_up_step [OF code e(2) e(4) [OF s(5)] m(1)]]])
  then show ?thesis
    using umede_end [OF code t(1,2)] t(4-7) n
    by (cases "restore_armed s = 0") (simp_all add: umede_ends_later r final_fails_def rb_def add.assoc)
qed

lemma umede_reported:
  assumes code: "laid_out (umede_code y)" and s: "u_boot y s"
  defines "d \<equiv> legal (hw s) Medeleg (csrf (hw s) Medeleg) 0x100"
  assumes d: "bit d 8"
  shows "\<exists>t. runs (umede_code y) s t \<and> set_up y d (hw s) t \<and> at SMode (trap_2 y) t \<and> fails t = of_bool (d \<noteq> 0x100) \<and> restore_armed t = 1 \<and>
    p2_addr t = trap_2 y \<and> boot_medeleg t = csrf (hw s) Medeleg \<and> dm_regs t 7 = 0 \<and> ds_regs t 5 = a_done y"
proof -
  from umede_to_payload [OF code s] obtain t where t: "runs (umede_code y) s t" "set_up y d (hw s) t" "at UMode (trap_1 y) t" "p1_addr t = trap_1 y"
    "p1_medeleg_rb t = d" "boot_medeleg t = csrf (hw s) Medeleg" "dm_regs t 0 = 0" "dm_regs t 7 = 0" "ds_regs t 0 = 0" "ds_regs t 5 = a_done y" "fails t = 0"
    unfolding d_def by blast
  let ?h1 = "route 8 (trap_1 y) 0 (hw t)"
  let ?t1 = "t\<lparr>hw := ?h1\<rparr>"
  have e: "mode_step (umede_code y) t = Some ?t1" "set_up y d (hw s) ?t1" "at SMode (a_strap y) ?t1"
    using umede_ecall [OF code t(2,3), of 8] d by simp_all
  have b: "(a_strap y, umede_s_trap_entry y) \<in> set (umede_code y)" "(a_phase2 y, umede_report y) \<in> set (umede_code y)" "code_addr (a_phase2 y)"
    using code by (simp_all add: umede_code_def laid_out_def)
  have h1: "csrf ?h1 Scause = 8" "csrf ?h1 Sepc = trap_1 y" "spp_field (csrf ?h1 Mstatus AND sstatus_mask) = 0"
    using t(2,3) d by (simp_all add: route_def trap_to_s_def set_up_def at_def status_fields bit_put_bit bit_simps)
  define u where "u = final (umede_s_trap_entry y) ?t1"
  from umede_s_entry_run [OF e(2) _ b(3)] t(10) have "\<exists>h'. let t' = t\<lparr>ds_regs := (ds_regs t)(1 := reg_get xt1 ?h1, 6 := reg_get xt2 ?h1, 0 := 1,
      2 := 8, 3 := trap_1 y, 4 := csrf ?h1 Mstatus AND sstatus_mask), s_done := 1, hw := h'\<rparr> in
    u = t' \<and> set_up y d (hw s) t' \<and> at SMode (a_phase2 y) t'"
    by (simp add: u_def t(9) h1(1,2) Let_def)
  then have u: "set_up y d (hw s) u" "at SMode (a_phase2 y) u" "report_fails u = of_bool (d \<noteq> 0x100)" "fails u = 0" "boot_medeleg u = csrf (hw s) Medeleg"
    "dm_regs u 7 = 0" "ds_regs u 5 = a_done y"
    using t h1(3) by (auto simp: Let_def report_fails_def)
  obtain tx where v: "final (umede_report y) u = u\<lparr>out := tx, fails := fails u + report_fails u, restore_armed := 1, p2_addr := trap_2 y,
     hw := (reg_set xt0 (trap_2 y) (hw u))\<lparr>pc := trap_2 y\<rparr>\<rparr>" using umede_report_run ..
  have "runs (umede_code y) s (final (umede_report y) u)"
    using t(1) runs_one [OF e(1)] runs_one [OF set_up_step [OF code e(2,3) b(1)], folded u_def] runs_one [OF set_up_step [OF code u(1,2) b(2)]]
    by (blast intro: runs_trans)
  moreover have "set_up y d (hw s) (final (umede_report y) u)"
    using set_up_config [OF u(1), of "(reg_set xt0 (trap_2 y) (hw u))\<lparr>pc := trap_2 y\<rparr>"] by (simp add: v set_up_def)
  ultimately show ?thesis using u by (intro exI [of _ "final (umede_report y) u"]) (simp add: v at_def)
qed


text \<open>With bit 9 delegated too, the restore call of the report comes back to the S-mode entry, which enters the report again.\<close>

lemma umede_loops:
  assumes code: "laid_out (umede_code y)" and s: "set_up y d h0 s" "at SMode (trap_2 y) s" "ds_regs s 5 = a_done y" "bit d 9"
  shows "never_stops (umede_code y) s"
proof (rule never_stopsI)
  let ?P = "\<lambda>s. set_up y d h0 s \<and> ds_regs s 5 = a_done y \<and> (at SMode (trap_2 y) s \<or> at SMode (a_strap y) s \<or> at SMode (a_phase2 y) s)"
  show "?P s" using s by simp
  fix t assume P: "?P t"
  have b: "(a_strap y, umede_s_trap_entry y) \<in> set (umede_code y)" "(a_phase2 y, umede_report y) \<in> set (umede_code y)" "code_addr (a_phase2 y)"
    using code by (simp_all add: umede_code_def laid_out_def)
  from P have t: "set_up y d h0 t" "ds_regs t 5 = a_done y" by simp_all
  from P consider "at SMode (trap_2 y) t" | "at SMode (a_strap y) t" | "at SMode (a_phase2 y) t" by blast
  then show "\<exists>u. mode_step (umede_code y) t = Some u \<and> ?P u"
  proof cases
    case 1
    with t umede_ecall [OF code t(1) 1, of 9] s(4) show ?thesis by auto
  next
    case 2
    then show ?thesis using set_up_step [OF code t(1) 2 b(1)] umede_s_entry_run [OF t b(3)] t(2) by (auto simp: Let_def)
  next
    case 3
    obtain tx where v: "final (umede_report y) t = t\<lparr>out := tx, fails := fails t + report_fails t, restore_armed := 1, p2_addr := trap_2 y,
      hw := (reg_set xt0 (trap_2 y) (hw t))\<lparr>pc := trap_2 y\<rparr>\<rparr>" using umede_report_run ..
    have "set_up y d h0 (final (umede_report y) t)"
      using set_up_config [OF t(1), of "(reg_set xt0 (trap_2 y) (hw t))\<lparr>pc := trap_2 y\<rparr>"] by (simp add: v set_up_def)
    with t(2) 3 show ?thesis using set_up_step [OF code t(1) 3 b(2)] by (simp add: v at_def)
  qed
qed


subsection \<open>Properties\<close>


text \<open>On the example hart the program passes; on a hart that hard-wires bit 9 of \<open>medeleg\<close> it runs for ever.\<close>

definition forced_example :: deleg where
  "forced_example = dl_example\<lparr>hw := gate_example_hart 0x80000000 (\<lambda>c old v. if c = Medeleg then v OR 0x200 else v)\<rparr>"

lemma dl_example_boots: "laid_out (umede_code dl_example_syms)" "u_boot dl_example_syms dl_example" "u_boot dl_example_syms forced_example"
  by (simp add: laid_out_def umede_code_def dl_example_syms_def code_addr_def)
    (simp_all add: u_boot_def route_boot_def route_legal_def dl_example_def forced_example_def dl_example_syms_def gate_example_hart_def keeps_bits_def
      takes_def plain_csr_def)


end
