(* ===== verification/Mpp.thy ===== *)
theory Mpp
  imports Deleg
begin

text \<open>
  \<open>src/src/mpp-encoding\<close>: four phases, one for each value of \<open>mstatus.MPP\<close>. A phase writes the field, reads it back, drops with \<open>mret\<close> to
  a payload that is a single \<open>ecall\<close>, and the trap entry returns in M-mode to \<open>phase_done\<close>, which checks the phase and starts the next one. The wait
  for the transmitter in \<open>finish\<close> is part of the console here. The trap entry keeps the address of its save area in t0 while it calls
  \<open>mpp_handle\<close>; the model takes the call to leave t0 alone, as the compiled function does.

  The theorem is about the harts with M-, S- and U-mode that delegate no \<open>ecall\<close>. What they make of the reserved value is open.
\<close>

unbundle bit_operations_syntax


subsection \<open>The program\<close>

record mpp_state = modes +
  mpp_regs :: "nat \<Rightarrow> u64"
  trap_mcause :: u64
  trap_mepc :: u64
  trap_mtval :: u64
  trap_mstatus :: u64
  trap_count :: u64
  payload_addr :: u64
  written_mpp :: u64
  readback_mpp :: u64
  phase :: nat

type_synonym mprog = "(unit mpp_state_ext modes_ext, unit) prog"

record mpp_syms =
  m_main :: u64
  m_entry :: u64
  m_save :: u64
  m_done :: u64
  m_payload :: u64

abbreviation (input) NPHASES :: nat where "NPHASES \<equiv> 4"

definition phase_mpp :: "u64 list" where
  "phase_mpp = [0, 1, 2, 3]"

definition phase_name :: "string list" where
  "phase_name = [''00 (U)'', ''01 (S)'', ''10 (reserved)'', ''11 (M)'']"

definition phase_mcause :: "u64 list" where
  "phase_mcause = [8, 9, 8, 11]"

definition phase_entry_mpp :: "u64 list" where
  "phase_entry_mpp = [0, 1, 0, 3]"

definition gets_m :: "(mpp_state \<Rightarrow> 'a) \<Rightarrow> (unit mpp_state_ext modes_ext, 'a) prog" where
  "gets_m f = State (\<lambda>s. (f s, s))"

definition sets_m :: "(mpp_state \<Rightarrow> mpp_state) \<Rightarrow> mprog" where
  "sets_m f = State (\<lambda>s. ((), f s))"

definition mpp_check :: "bool \<Rightarrow> string \<Rightarrow> mprog" where
  "mpp_check cond msg =
     (if cond then State_Monad.return () else do { puts [Str ''  check failed: '', Str msg, Str ''\<newline>'']; add_fail })"

definition write_mpp :: "u64 \<Rightarrow> mprog" where
  "write_mpp v = do { csrc Mstatus 0x1800; csrs Mstatus (push_bit 11 v) }"

definition drop_to_payload :: "mpp_syms \<Rightarrow> mprog" where
  "drop_to_payload y = do {
     put_reg xt0 (m_payload y);
     sets_m (\<lambda>s. s\<lparr>payload_addr := m_payload y\<rparr>);
     csrw Mepc (m_payload y);
     mret }"

definition run_phase :: "mpp_syms \<Rightarrow> nat \<Rightarrow> mprog" where
  "run_phase y p = do {
     sets_m (\<lambda>s. s\<lparr>phase := p, trap_count := 0\<rparr>);
     write_mpp (phase_mpp ! p);
     v \<leftarrow> csrr Mstatus;
     sets_m (\<lambda>s. s\<lparr>written_mpp := phase_mpp ! p, readback_mpp := mpp_field v\<rparr>);
     puts [Str ''\<newline>phase '', Dec (of_nat p), Str '': MPP='', Str (phase_name ! p), Str '', write done, readback MPP='', Dec (mpp_field v), Str ''\<newline>''];
     drop_to_payload y }"

definition mpp_finish :: mprog where
  "mpp_finish = do {
     f \<leftarrow> get_fails;
     puts [Str (if f = 0 then ''\<newline>RESULT: PASS\<newline>'' else ''\<newline>RESULT: FAIL\<newline>'')];
     only_if (f = 0) (finish FINISHER_PASS);
     park }"

definition phase_report :: mprog where
  "phase_report = do {
     s \<leftarrow> gets_m (\<lambda>s. s);
     puts [Str ''\<newline>--- phase '', Dec (of_nat (phase s)), Str '': wrote MPP='', Str (phase_name ! phase s), Str '' ---\<newline>write/return: wrote MPP='',
       Dec (written_mpp s), Str '', MPP readback='', Dec (readback_mpp s), Str ''\<newline>landing (payload ecall) address: '', Hex (payload_addr s),
       Str ''\<newline>trap: mcause='', Hex (trap_mcause s), Str '' mepc='', Hex (trap_mepc s), Str '' mtval='', Hex (trap_mtval s), Str '' entry MPP='',
       Dec (mpp_field (trap_mstatus s)), Str ''\<newline>''] }"

definition phase_checks :: mprog where
  "phase_checks = do {
     s \<leftarrow> gets_m (\<lambda>s. s);
     mpp_check (trap_count s = 1) ''expected exactly 1 trap in this phase'';
     mpp_check (trap_mcause s = phase_mcause ! phase s) ''mcause is not the expected ecall code'';
     mpp_check (trap_mepc s = payload_addr s) ''mepc is not the payload ecall address'';
     mpp_check (trap_mtval s = 0) ''mtval is not 0'';
     mpp_check (mpp_field (trap_mstatus s) = phase_entry_mpp ! phase s) ''entry MPP is not the expected mode'';
     if phase s = 2 then mpp_check (readback_mpp s = 0) ''reserved MPP write was not coerced to 0 by the CSR''
     else mpp_check (readback_mpp s = written_mpp s) ''MPP readback differs from the written value'' }"

definition phase_done :: "mpp_syms \<Rightarrow> mprog" where
  "phase_done y = do {
     phase_report;
     phase_checks;
     sets_m (\<lambda>s. s\<lparr>phase := phase s + 1\<rparr>);
     p \<leftarrow> gets_m phase;
     if p < NPHASES then run_phase y p else mpp_finish }"

definition mpp_handle :: mprog where
  "mpp_handle = sets_m (\<lambda>s. s\<lparr>trap_mcause := mpp_regs s 2, trap_mepc := mpp_regs s 3, trap_mtval := mpp_regs s 4, trap_mstatus := mpp_regs s 5,
     trap_count := trap_count s + 1\<rparr>)"

definition mpp_trap_entry :: "mpp_syms \<Rightarrow> mprog" where
  "mpp_trap_entry y = do {
     t0 \<leftarrow> get_reg xt0;
     base \<leftarrow> csrrw Mscratch t0;
     if base \<noteq> m_save y then sets_m (\<lambda>s. s\<lparr>stuck := True\<rparr>)
     else do {
       t1 \<leftarrow> get_reg xt1;
       cause \<leftarrow> csrr Mcause; epc \<leftarrow> csrr Mepc; tv \<leftarrow> csrr Mtval; st \<leftarrow> csrr Mstatus; t0 \<leftarrow> csrr Mscratch;
       sets_m (\<lambda>s. s\<lparr>mpp_regs := (mpp_regs s)(1 := t1, 2 := cause, 3 := epc, 4 := tv, 5 := st, 0 := t0)\<rparr>);
       mpp_handle;
       csrw Mepc (m_done y);
       csrs Mstatus 0x1800;
       csrw Mscratch base;
       mret } }"

definition mpp_main :: "mpp_syms \<Rightarrow> mprog" where
  "mpp_main y = do {
     puts [Str ''mstatus.MPP encoding write/return/verify\<newline>''];
     csrw Mtvec (m_entry y);
     csrw Mscratch (m_save y);
     csrw Pmpaddr0 (- 1);
     csrw Pmpcfg0 0x1f;
     run_phase y 0 }"

definition mpp_code :: "mpp_syms \<Rightarrow> (u64 \<times> mprog) list" where
  "mpp_code y =
    [(m_main y, mpp_main y),
     (m_entry y, mpp_trap_entry y),
     (m_done y, phase_done y),
     (m_payload y, ecall (m_payload y)),
     (m_payload y + 4, park)]"


subsection \<open>Running\<close>

lemma run_mpp_basic [simp]: "run_state (gets_m f) s = (f s, s)" "run_state (sets_m g) s = ((), g s)"
  by (simp_all add: gets_m_def sets_m_def)

lemma run_mpp_check [simp]:
  "run_state (mpp_check b msg) s = ((), if b then s else (emit [Str ''  check failed: '', Str msg, Str ''\<newline>''] s)\<lparr>fails := fails s + 1\<rparr>)"
  by (simp add: mpp_check_def exec_basic)

lemma emit_mpp [simp]:
  "mpp_regs (emit ps s) = mpp_regs s" "trap_mcause (emit ps s) = trap_mcause s" "trap_mepc (emit ps s) = trap_mepc s"
  "trap_mtval (emit ps s) = trap_mtval s" "trap_mstatus (emit ps s) = trap_mstatus s" "trap_count (emit ps s) = trap_count s"
  "payload_addr (emit ps s) = payload_addr s" "written_mpp (emit ps s) = written_mpp s" "readback_mpp (emit ps s) = readback_mpp s"
  "phase (emit ps s) = phase s"
  by (simp_all add: emit_def)

lemmas mpp_exec = run_mpp_basic [THEN exec_step] run_mpp_check [THEN exec_step] modes_exec exec_basic

lemma mpp_bits: "mpp_field st = (if bit st 12 then 2 else 0) + (if bit st 11 then 1 else 0)"
proof -
  have "mpp_field st = take_bit 2 (drop_bit 11 st)" by (simp add: mpp_field_def take_bit_eq_mask mask_eq_exp_minus_1)
  moreover have "drop_bit 11 st div 2 = drop_bit 1 (drop_bit 11 st)" by (simp only: drop_bit_eq_div [of 1] power_one_right)
  then have "drop_bit 11 st div 2 = drop_bit 12 st" by (simp only: drop_bit_drop_bit) simp
  ultimately show ?thesis
    by (simp add: numeral_2_eq_2 take_bit_Suc take_bit_0 bit_iff_odd_drop_bit mod_2_eq_odd)
qed

definition mode_no :: "priv_mode \<Rightarrow> u64" where
  "mode_no p = (case p of UMode \<Rightarrow> 0 | SMode \<Rightarrow> 1 | MMode \<Rightarrow> 3)"

lemma mpp_field_modes:
  "mpp_field (put_mpp p st) = mode_no p" "mpp_field st = mode_no p \<Longrightarrow> mpp_of st = p"
  "mpp_field (st AND NOT 0x1800) = 0" "mpp_field st = 0 \<Longrightarrow> v \<in> {0, 1, 2, 3} \<Longrightarrow> mpp_field (st OR push_bit 11 v) = v" "mpp_field (st OR 0x1800) = 3"
  by (auto simp: mpp_bits put_mpp_def bit_put_bit mode_no_def mpp_of_def bit_simps split: priv_mode.splits if_splits)


text \<open>A hart with the three modes: \<open>f\<close> is what the field keeps of a value written to it.\<close>

definition mpp_legal :: "(u64 \<Rightarrow> u64) \<Rightarrow> mpp_syms \<Rightarrow> hart \<Rightarrow> bool" where
  "mpp_legal f y h \<longleftrightarrow> (\<forall>old v. mpp_field (legal h Mstatus old v) = f (mpp_field v)) \<and> f 0 = 0 \<and> f 1 = 1 \<and> f 3 = 3 \<and> f 2 \<in> {0, 1, 3} \<and>
     takes h Mtvec (m_entry y) \<and> plain_csr h Mscratch \<and> (\<forall>a. code_addr a \<longrightarrow> takes h Mepc a) \<and>
     takes h Pmpcfg0 0x1f \<and> (\<forall>old. legal h Pmpaddr0 old (- 1) \<in> {- 1, mask 54})"

definition mpp_set :: "(u64 \<Rightarrow> u64) \<Rightarrow> mpp_syms \<Rightarrow> hart \<Rightarrow> mpp_state \<Rightarrow> bool" where
  "mpp_set f y h0 s \<longleftrightarrow> mpp_legal f y h0 \<and> legal (hw s) = legal h0 \<and> csrf (hw s) Mtvec = m_entry y \<and> csrf (hw s) Mscratch = m_save y \<and>
     \<not> bit (csrf (hw s) Medeleg) 8 \<and> \<not> bit (csrf (hw s) Medeleg) 9 \<and> pmp_everything (hw s) \<and> \<not> parked s \<and> \<not> stuck s"

definition mpp_placed :: "mpp_syms \<Rightarrow> bool" where
  "mpp_placed y \<longleftrightarrow> distinct (map fst (mpp_code y)) \<and> list_all code_addr (map fst (mpp_code y))"

lemma mpp_set_legal:
  assumes "mpp_set f y h0 s"
  shows "mpp_field (legal (hw s) Mstatus old v) = f (mpp_field v)" "code_addr a \<Longrightarrow> legal (hw s) Mepc old a = a" "legal (hw s) Mscratch old v = v"
    "f 0 = 0" "f 1 = 1" "f 3 = 3" "f 2 \<in> {0, 1, 3}"
  using assms by (simp_all add: mpp_set_def mpp_legal_def takes_def plain_csr_def)

lemma mpp_set_config:
  assumes "mpp_set f y h0 s" "same_config (hw s) h"
  shows "mpp_set f y h0 (s\<lparr>hw := h\<rparr>)"
  using assms(1) same_config_simps [OF assms(2)] by (simp add: mpp_set_def)

lemma mpp_set_step:
  assumes "mpp_placed y" "mpp_set f y h0 s" "(pc (hw s), b) \<in> set (mpp_code y)"
  shows "mode_step (mpp_code y) s = Some (final b s)"
proof (rule block_step)
  have "code_addr (pc (hw s))" using assms(1,3) by (auto simp: mpp_placed_def list_all_iff)
  then show "pmp_allows (hw s) Exec (pc (hw s)) 4"
    using assms(2) by (intro pmp_everything_allows) (simp_all add: mpp_set_def code_addr_def)
qed (use assms in \<open>simp_all add: mpp_placed_def mpp_set_def\<close>)

text \<open>The mode the field names, and the cause of a call from it.\<close>

definition mode_of :: "u64 \<Rightarrow> priv_mode" where
  "mode_of g = (if g = 0 then UMode else if g = 1 then SMode else MMode)"

lemma mode_of_no: "g \<in> {0, 1, 3} \<Longrightarrow> mode_no (mode_of g) = g"
  by (auto simp: mode_of_def mode_no_def)

definition call_cause :: "priv_mode \<Rightarrow> nat" where
  "call_cause p = (case p of UMode \<Rightarrow> 8 | SMode \<Rightarrow> 9 | MMode \<Rightarrow> 11)"

lemma phase_kept: "mpp_set f y h0 s \<Longrightarrow> p < 4 \<Longrightarrow> f (phase_mpp ! p) \<in> {0, 1, 3} \<and> phase_mpp ! p \<in> {0, 1, 2, 3}"
  using mpp_set_legal(4-7) [of f y h0 s] by (auto simp: phase_mpp_def less_Suc_eq numeral_eq_Suc)

lemma run_phase_run:
  assumes s: "mpp_set f y h0 s" "p < 4" "code_addr (m_payload y)"
  defines "g \<equiv> f (phase_mpp ! p)"
  shows "\<exists>h' tx. let s' = s\<lparr>out := tx, phase := p, trap_count := 0, written_mpp := phase_mpp ! p, readback_mpp := g, payload_addr := m_payload y, hw := h'\<rparr> in
    final (run_phase y p) s = s' \<and> mpp_set f y h0 s' \<and> pc h' = m_payload y \<and> priv h' = mode_of g"
proof -
  note leg = mpp_set_legal [OF s(1)]
  let ?h1 = "csr_store Mstatus (csrf (hw s) Mstatus AND NOT 0x1800) (hw s)"
  let ?h2 = "csr_store Mstatus (csrf ?h1 Mstatus OR push_bit 11 (phase_mpp ! p)) ?h1"
  let ?h3 = "csr_store Mepc (m_payload y) (reg_set xt0 (m_payload y) ?h2)"
  have f1: "mpp_field (csrf ?h1 Mstatus) = 0" using leg(1,4) mpp_field_modes(3) [of "csrf (hw s) Mstatus"] by simp
  have g: "mpp_field (csrf ?h2 Mstatus) = g" "g \<in> {0, 1, 3}"
    using mpp_field_modes(4) [OF f1, of "phase_mpp ! p"] phase_kept [OF s(1,2)] leg(1) by (simp_all add: g_def)
  then have m: "mpp_of (csrf ?h2 Mstatus) = mode_of g" using mpp_field_modes(2) mode_of_no by metis
  let ?ps = "[Str ''\<newline>phase '', Dec (of_nat p), Str '': MPP='', Str (phase_name ! p), Str '', write done, readback MPP='', Dec g, Str ''\<newline>'']"
  let ?s' = "s\<lparr>out := out s @ text_of ?ps, phase := p, trap_count := 0, written_mpp := phase_mpp ! p, readback_mpp := g, payload_addr := m_payload y,
     hw := do_mret ?h3\<rparr>"
  have "final (run_phase y p) s = ?s'"
    using g(1) by (cases s) (simp add: final_def run_phase_def write_mpp_def drop_to_payload_def mpp_exec exec_assoc emit_def)
  moreover have "mpp_set f y h0 ?s'" using mpp_set_config [OF s(1), of "do_mret ?h3"] by (simp add: mpp_set_def)
  moreover have "pc (do_mret ?h3) = m_payload y" "priv (do_mret ?h3) = mode_of g"
    using leg(2) [OF s(3)] m by (simp_all add: do_mret_def reg_set_def)
  ultimately show ?thesis by - (rule exI [of _ "do_mret ?h3"], rule exI [of _ "out s @ text_of ?ps"], simp add: Let_def)
qed

text \<open>The call of the payload, through the trap entry, to \<open>phase_done\<close>.\<close>

lemma payload_trip:
  assumes y: "mpp_placed y" and s: "mpp_set f y h0 s" "pc (hw s) = m_payload y"
  shows "\<exists>h' r st. let s' = s\<lparr>mpp_regs := r, trap_mcause := of_nat (call_cause (priv (hw s))), trap_mepc := m_payload y, trap_mtval := 0,
      trap_mstatus := st, trap_count := trap_count s + 1, hw := h'\<rparr> in
    runs (mpp_code y) s s' \<and> mpp_set f y h0 s' \<and> pc h' = m_done y \<and> priv h' = MMode \<and> mpp_field st = mode_no (priv (hw s))"
proof -
  let ?n = "call_cause (priv (hw s))"
  let ?h1 = "trap_to_m (of_nat ?n) (m_payload y) 0 (hw s)"
  let ?s1 = "s\<lparr>hw := ?h1\<rparr>"
  note leg = mpp_set_legal [OF s(1)]
  have a: "code_addr (m_entry y)" "code_addr (m_done y)" using y by (simp_all add: mpp_placed_def mpp_code_def)
  have "final (ecall (m_payload y)) s = ?s1"
    using s(1) by (cases "priv (hw s)") (simp_all add: final_def ecall_def route_def call_cause_def mpp_set_def)
  then have step1: "mode_step (mpp_code y) s = Some ?s1"
    using mpp_set_step [OF y s(1), of "ecall (m_payload y)"] s(2) by (simp add: mpp_code_def)
  have s1: "mpp_set f y h0 ?s1" by (rule mpp_set_config [OF s(1)]) simp
  have "pc ?h1 = m_entry y" using s(1) aligned_vector [OF a(1)] by (simp add: trap_to_m_def mpp_set_def)
  then have step2: "mode_step (mpp_code y) ?s1 = Some (final (mpp_trap_entry y) ?s1)"
    using mpp_set_step [OF y s1, of "mpp_trap_entry y"] by (simp add: mpp_code_def)
  let ?h2 = "csr_store Mepc (m_done y) (csr_store Mscratch (reg_get xt0 (hw s)) ?h1)"
  let ?h3 = "do_mret (csr_store Mscratch (m_save y) (csr_store Mstatus (csrf ?h2 Mstatus OR 0x1800) ?h2))"
  let ?r = "(mpp_regs s)(1 := reg_get xt1 (hw s), 2 := of_nat ?n, 3 := m_payload y, 4 := 0, 5 := csrf ?h1 Mstatus, 0 := reg_get xt0 (hw s))"
  let ?s' = "s\<lparr>mpp_regs := ?r, trap_mcause := of_nat ?n, trap_mepc := m_payload y, trap_mtval := 0,
      trap_mstatus := csrf ?h1 Mstatus, trap_count := trap_count s + 1, hw := ?h3\<rparr>"
  have t: "csrf ?h1 Mscratch = m_save y" "csrf ?h1 Mcause = of_nat ?n" "csrf ?h1 Mepc = m_payload y" "csrf ?h1 Mtval = 0" "legal ?h1 = legal (hw s)"
    using s(1) by (simp_all add: trap_to_m_def mpp_set_def)
  have "final (mpp_trap_entry y) ?s1 = ?s'"
    using t leg(3) by (cases s) (simp add: final_def mpp_trap_entry_def mpp_handle_def mpp_exec)
  then have "runs (mpp_code y) s ?s'" using runs_trans [OF runs_one [OF step1] runs_one [OF step2]] by simp
  moreover have "mpp_set f y h0 ?s'"
    using s(1) by (simp add: mpp_set_def do_mret_def csr_store_def trap_to_m_def pmp_everything_def mpp_legal_def plain_csr_def)
  moreover have "priv ?h3 = MMode"
    using mpp_field_modes(2) [of "legal (hw s) Mstatus (csrf ?h1 Mstatus) (csrf ?h1 Mstatus OR 0x1800)" MMode] leg(1,6)
    by (simp add: do_mret_def mpp_field_modes mode_no_def t(5))
  moreover have "pc ?h3 = m_done y" using leg(2) [OF a(2)] by (simp add: do_mret_def t(5))
  moreover have "mpp_field (csrf ?h1 Mstatus) = mode_no (priv (hw s))" by (simp add: trap_to_m_def mpp_field_modes)
  ultimately show ?thesis
    by - (rule exI [of _ ?h3], rule exI [of _ ?r], rule exI [of _ "csrf ?h1 Mstatus"], simp add: Let_def)
qed


subsection \<open>The phases\<close>

text \<open>Phase \<open>p\<close> has come back to \<open>phase_done\<close>, with \<open>n\<close> checks failed so far.\<close>

definition at_done :: "(u64 \<Rightarrow> u64) \<Rightarrow> mpp_syms \<Rightarrow> hart \<Rightarrow> nat \<Rightarrow> nat \<Rightarrow> mpp_state \<Rightarrow> bool" where
  "at_done f y h0 p n s \<longleftrightarrow> mpp_set f y h0 s \<and> pc (hw s) = m_done y \<and> phase s = p \<and> trap_count s = 1 \<and>
     trap_mcause s = of_nat (call_cause (mode_of (f (phase_mpp ! p)))) \<and> trap_mepc s = m_payload y \<and> payload_addr s = m_payload y \<and> trap_mtval s = 0 \<and>
     mpp_field (trap_mstatus s) = f (phase_mpp ! p) \<and> readback_mpp s = f (phase_mpp ! p) \<and> written_mpp s = phase_mpp ! p \<and>
     fails s = n \<and> finisher s = None"

lemma phase_round:
  assumes y: "mpp_placed y" and s: "mpp_set f y h0 s" "p < 4" "fails s = n" "finisher s = None"
  shows "\<exists>t. runs (mpp_code y) (final (run_phase y p) s) t \<and> at_done f y h0 p n t"
proof -
  have "code_addr (m_payload y)" using y by (simp add: mpp_placed_def mpp_code_def)
  from run_phase_run [OF s(1,2) this] obtain h' tx where u: "let s' = s\<lparr>out := tx, phase := p, trap_count := 0, written_mpp := phase_mpp ! p,
      readback_mpp := f (phase_mpp ! p), payload_addr := m_payload y, hw := h'\<rparr> in
    final (run_phase y p) s = s' \<and> mpp_set f y h0 s' \<and> pc h' = m_payload y \<and> priv h' = mode_of (f (phase_mpp ! p))" by blast
  define u where "u = final (run_phase y p) s"
  from u have u: "mpp_set f y h0 u" "pc (hw u) = m_payload y" "priv (hw u) = mode_of (f (phase_mpp ! p))" "phase u = p" "trap_count u = 0"
    "written_mpp u = phase_mpp ! p" "readback_mpp u = f (phase_mpp ! p)" "payload_addr u = m_payload y" "fails u = n" "finisher u = None"
    using s(3,4) by (simp_all add: u_def Let_def)
  from payload_trip [OF y u(1,2)] obtain h'' r st where t: "let t = u\<lparr>mpp_regs := r, trap_mcause := of_nat (call_cause (priv (hw u))),
      trap_mepc := m_payload y, trap_mtval := 0, trap_mstatus := st, trap_count := trap_count u + 1, hw := h''\<rparr> in
    runs (mpp_code y) u t \<and> mpp_set f y h0 t \<and> pc h'' = m_done y \<and> priv h'' = MMode \<and> mpp_field st = mode_no (priv (hw u))" by blast
  then show ?thesis
    unfolding u_def [symmetric] using u mode_of_no phase_kept [OF s(1,2)]
    by (intro exI [of _ "u\<lparr>mpp_regs := r, trap_mcause := of_nat (call_cause (priv (hw u))),
      trap_mepc := m_payload y, trap_mtval := 0, trap_mstatus := st, trap_count := trap_count u + 1, hw := h''\<rparr>"]) (simp add: at_done_def Let_def)
qed

text \<open>Three checks fail in phase 2 if the reserved value is kept as the number of another mode.\<close>

definition phase_bad :: "(u64 \<Rightarrow> u64) \<Rightarrow> nat \<Rightarrow> nat" where
  "phase_bad f p = (if p = 2 \<and> f 2 \<noteq> 0 then 3 else 0)"

lemma phase_checks_run:
  assumes "at_done f y h0 p n s" "p < 4"
  shows "\<exists>tx. run_state phase_checks s = ((), s\<lparr>out := tx, fails := n + phase_bad f p\<rparr>)"
proof -
  have "mpp_set f y h0 s" using assms(1) by (simp add: at_done_def)
  note f = mpp_set_legal(4-7) [OF this]
  have d: "trap_count s = 1" "trap_mcause s = of_nat (call_cause (mode_of (f (phase_mpp ! p))))" "trap_mepc s = payload_addr s" "trap_mtval s = 0" "phase s = p"
    "mpp_field (trap_mstatus s) = f (phase_mpp ! p)" "readback_mpp s = f (phase_mpp ! p)" "written_mpp s = phase_mpp ! p"
    "fails s = n"
    using assms(1) by (simp_all add: at_done_def)
  from assms(2) consider "p = 0" | "p = 1" | "p = 2" | "p = 3" by linarith
  then show ?thesis
  proof cases
    case 3
    show ?thesis
    proof (cases "f 2 = 0")
      case True
      with d 3 show ?thesis
        by (intro exI [of _ "out s"])
          (simp add: phase_checks_def mpp_exec phase_bad_def phase_mpp_def phase_mcause_def phase_entry_mpp_def call_cause_def mode_of_def)
    next
      case False
      with f(4) have "f 2 = 1 \<or> f 2 = 3" by auto
      with d 3 show ?thesis
        by (auto simp: phase_checks_def mpp_exec phase_bad_def phase_mpp_def phase_mcause_def phase_entry_mpp_def call_cause_def mode_of_def emit_def numeral_3_eq_3)
    qed
  qed (use f d in \<open>intro exI [of _ "out s"],
    simp add: phase_checks_def mpp_exec phase_bad_def phase_mpp_def phase_mcause_def phase_entry_mpp_def call_cause_def mode_of_def\<close>)+
qed


lemma phase_done_run:
  assumes "at_done f y h0 p n s" "p < 4"
  shows "\<exists>tx. final (phase_done y) s =
    final (if p + 1 < 4 then run_phase y (p + 1) else mpp_finish) (s\<lparr>out := tx, fails := n + phase_bad f p, phase := p + 1\<rparr>)"
proof -
  obtain ps where r: "run_state phase_report s = ((), emit ps s)" by (simp add: phase_report_def mpp_exec)
  have "at_done f y h0 p n (emit ps s)" using assms(1) by (simp add: at_done_def mpp_set_def)
  from phase_checks_run [OF this assms(2)] obtain tx where
    c: "run_state phase_checks (emit ps s) = ((), (emit ps s)\<lparr>out := tx, fails := n + phase_bad f p\<rparr>)" by blast
  moreover have "(emit ps s)\<lparr>out := tx, fails := n + phase_bad f p\<rparr> = s\<lparr>out := tx, fails := n + phase_bad f p\<rparr>" by (simp add: emit_def)
  ultimately have c: "run_state phase_checks (emit ps s) = ((), s\<lparr>out := tx, fails := n + phase_bad f p\<rparr>)" by (simp only:)
  have "phase s = p" using assms(1) by (simp add: at_done_def)
  then have "final (phase_done y) s =
    final (if p + 1 < 4 then run_phase y (p + 1) else mpp_finish) (s\<lparr>out := tx, fails := n + phase_bad f p, phase := p + 1\<rparr>)"
    by (simp add: phase_done_def final_def exec_step [OF r] exec_step [OF c] mpp_exec)
  then show ?thesis ..
qed

lemma next_phase:
  assumes y: "mpp_placed y" and s: "at_done f y h0 p n s" "p + 1 < 4"
  shows "\<exists>t. runs (mpp_code y) s t \<and> at_done f y h0 (p + 1) (n + phase_bad f p) t"
proof -
  have p: "p < 4" using s(2) by simp
  from phase_done_run [OF s(1) p] s(2) obtain tx where d: "final (phase_done y) s =
    final (run_phase y (p + 1)) (s\<lparr>out := tx, fails := n + phase_bad f p, phase := p + 1\<rparr>)" by auto
  have a: "mpp_set f y h0 s" "(pc (hw s), phase_done y) \<in> set (mpp_code y)" "finisher s = None"
    using s(1) by (simp_all add: at_done_def mpp_code_def)
  then have "mpp_set f y h0 (s\<lparr>out := tx, fails := n + phase_bad f p, phase := p + 1\<rparr>)" by (simp add: mpp_set_def)
  from phase_round [OF y this s(2)] a(3) obtain t where "runs (mpp_code y) (final (phase_done y) s) t" "at_done f y h0 (p + 1) (n + phase_bad f p) t"
    unfolding d by auto
  then show ?thesis using runs_trans [OF runs_one [OF mpp_set_step [OF y a(1,2)]]] by blast
qed

lemma last_phase:
  assumes y: "mpp_placed y" and s: "at_done f y h0 3 n s"
  shows "\<exists>t. runs (mpp_code y) s t \<and> mode_step (mpp_code y) t = None \<and> parked t \<and> phase t = 4 \<and> fails t = n \<and>
    finisher t = (if n = 0 then Some FINISHER_PASS else None)"
proof -
  from phase_done_run [OF s] obtain tx where d: "final (phase_done y) s = final mpp_finish (s\<lparr>out := tx, fails := n, phase := 4\<rparr>)"
    by (auto simp: phase_bad_def)
  have a: "mpp_set f y h0 s" "(pc (hw s), phase_done y) \<in> set (mpp_code y)" "finisher s = None"
    using s by (simp_all add: at_done_def mpp_code_def)
  let ?t = "final mpp_finish (s\<lparr>out := tx, fails := n, phase := 4\<rparr>)"
  have "parked ?t \<and> phase ?t = 4 \<and> fails ?t = n \<and> finisher ?t = (if n = 0 then Some FINISHER_PASS else None)"
    using a(3) by (simp add: final_def mpp_finish_def mpp_exec)
  then show ?thesis using runs_one [OF mpp_set_step [OF y a(1,2)]] unfolding d
    by (intro exI [of _ ?t]) (simp add: mode_step_def)
qed


subsection \<open>Properties\<close>

definition mpp_boot :: "(u64 \<Rightarrow> u64) \<Rightarrow> mpp_syms \<Rightarrow> mpp_state \<Rightarrow> bool" where
  "mpp_boot f y s \<longleftrightarrow> mpp_legal f y (hw s) \<and> priv (hw s) = MMode \<and> pc (hw s) = m_main y \<and> csrf (hw s) Pmpcfg0 = 0 \<and>
     \<not> bit (csrf (hw s) Medeleg) 8 \<and> \<not> bit (csrf (hw s) Medeleg) 9 \<and> \<not> parked s \<and> \<not> stuck s \<and> fails s = 0 \<and> finisher s = None"

text \<open>
  C39. On every hart with M-, S- and U-mode that delegates no \<open>ecall\<close>, the MPP experiment runs through its four phases and stops. It writes the pass word
  exactly if the hart turns the reserved value 2 of \<open>mstatus.MPP\<close> into 0. On a hart that keeps it as another mode, which the architecture allows as well, exactly three
  checks fail, all in phase 2.
\<close>

theorem mpp_encoding_decides:
  assumes "mpp_placed y" "mpp_boot f y s"
  shows "\<exists>t. runs (mpp_code y) s t \<and> mode_step (mpp_code y) t = None \<and> parked t \<and> phase t = 4 \<and> fails t = (if f 2 = 0 then 0 else 3) \<and>
    finisher t = (if f 2 = 0 then Some FINISHER_PASS else None)"
proof -
  let ?h = "csr_store Pmpcfg0 0x1f (csr_store Pmpaddr0 (- 1) (csr_store Mscratch (m_save y) (csr_store Mtvec (m_entry y) (hw s))))"
  let ?s0 = "(emit [Str ''mstatus.MPP encoding write/return/verify\<newline>''] s)\<lparr>hw := ?h\<rparr>"
  have m: "final (mpp_main y) s = final (run_phase y 0) ?s0" by (cases s) (simp add: final_def mpp_main_def mpp_exec emit_def)
  have s0: "mpp_set f y (hw s) ?s0"
    using assms(2) by (simp add: mpp_set_def mpp_boot_def) (simp add: mpp_legal_def takes_def plain_csr_def pmp_everything_def)
  have "mode_step (mpp_code y) s = Some (final (mpp_main y) s)"
    using block_step [of s "mpp_code y" "mpp_main y"] pmp_open assms by (auto simp: mpp_boot_def mpp_placed_def mpp_code_def)
  note start = runs_one [OF this, unfolded m]
  have "fails ?s0 = 0" "finisher ?s0 = None" using assms(2) by (simp_all add: mpp_boot_def)
  from phase_round [OF assms(1) s0 _ this, of 0] obtain t0 where t0: "runs (mpp_code y) (final (run_phase y 0) ?s0) t0" "at_done f y (hw s) 0 0 t0" by auto
  from next_phase [OF assms(1) t0(2)] obtain t1 where t1: "runs (mpp_code y) t0 t1" "at_done f y (hw s) 1 0 t1" by (auto simp: phase_bad_def)
  from next_phase [OF assms(1) t1(2)] obtain t2 where t2: "runs (mpp_code y) t1 t2" "at_done f y (hw s) 2 0 t2" by (auto simp: phase_bad_def numeral_2_eq_2)
  from next_phase [OF assms(1) t2(2)] obtain t3 where t3: "runs (mpp_code y) t2 t3" "at_done f y (hw s) 3 (phase_bad f 2) t3"
    by (auto simp: numeral_3_eq_3)
  from last_phase [OF assms(1) t3(2)] obtain t where t: "runs (mpp_code y) t3 t" "mode_step (mpp_code y) t = None" "parked t" "phase t = 4"
    "fails t = phase_bad f 2" "finisher t = (if phase_bad f 2 = 0 then Some FINISHER_PASS else None)" by blast
  have "runs (mpp_code y) s t" using start t0(1) t1(1) t2(1) t3(1) t(1) by (blast intro: runs_trans)
  then show ?thesis using t(2-6) by (intro exI [of _ t]) (simp add: phase_bad_def split: if_splits)
qed

text \<open>A hart that turns the reserved value into U-mode, and one that turns it into M-mode.\<close>

definition mpp_example_syms :: mpp_syms where
  "mpp_example_syms = \<lparr>m_main = 0x80000000, m_entry = 0x80000100, m_save = 0x80010000, m_done = 0x80000200, m_payload = 0x80000300\<rparr>"

definition reserved_as :: "u64 \<Rightarrow> csr \<Rightarrow> u64 \<Rightarrow> u64 \<Rightarrow> u64" where
  "reserved_as g c old v = (if c = Mstatus \<and> bit v 12 \<and> \<not> bit v 11 then (v AND NOT 0x1800) OR push_bit 11 g else v)"

definition mpp_example :: "u64 \<Rightarrow> mpp_state" where
  "mpp_example g = \<lparr>out = [], hw = gate_example_hart 0x80000000 (reserved_as g), fails = 0, nchecks = 0, save = \<lambda>_. 0, finisher = None, overrun = [],
     parked = False, stuck = False, mpp_regs = \<lambda>_. 0, trap_mcause = 0, trap_mepc = 0, trap_mtval = 0, trap_mstatus = 0, trap_count = 0, payload_addr = 0,
     written_mpp = 0, readback_mpp = 0, phase = 0\<rparr>"

lemma mpp_example_boots:
  "mpp_placed mpp_example_syms" "g \<in> {0, 1, 3} \<Longrightarrow> mpp_boot (\<lambda>v. if v = 2 then g else v) mpp_example_syms (mpp_example g)"
proof -
  show "mpp_placed mpp_example_syms" by (simp add: mpp_placed_def mpp_code_def mpp_example_syms_def code_addr_def)
  have "mpp_field (reserved_as g Mstatus old v) = (if mpp_field v = 2 then g else mpp_field v)" if "g \<in> {0, 1, 3}" for old v
  proof (cases "bit v 12 \<and> \<not> bit v 11")
    case True
    then show ?thesis using that mpp_field_modes(4) [OF mpp_field_modes(3), of g v] by (auto simp: reserved_as_def mpp_bits [of v])
  next
    case False
    then show ?thesis by (auto simp: reserved_as_def mpp_bits [of v])
  qed
  then show "mpp_boot (\<lambda>v. if v = 2 then g else v) mpp_example_syms (mpp_example g)" if "g \<in> {0, 1, 3}"
    using that by (auto simp: mpp_boot_def mpp_legal_def mpp_example_def gate_example_hart_def takes_def plain_csr_def mpp_example_syms_def reserved_as_def)
qed

theorem mpp_encoding_decides_witness:
  "(\<exists>t. runs (mpp_code mpp_example_syms) (mpp_example 0) t \<and> mode_step (mpp_code mpp_example_syms) t = None \<and> finisher t = Some FINISHER_PASS) \<and>
   (\<exists>t. runs (mpp_code mpp_example_syms) (mpp_example 3) t \<and> mode_step (mpp_code mpp_example_syms) t = None \<and> fails t = 3)"
  using mpp_encoding_decides [OF mpp_example_boots, of 0] mpp_encoding_decides [OF mpp_example_boots, of 3] by auto

end
