(* ===== verification/Mskip.thy ===== *)
theory Mskip
  imports Modes
begin

text \<open>
  Three M-mode programs that take deliberate traps and check what the handler recorded: \<open>src/src/ebreak-tripwire\<close> (\<open>ebt\<close>), \<open>mepc-resume-skip\<close> (\<open>mrs\<close>) and
  \<open>mret-no-restore\<close> (\<open>mnr\<close>). The registers the compiler chose for the operands of the inline assembly are symbols, because the outcome depends on them: the
  handlers of the last two leave t1 changed, which their assembly blocks do not declare, and in the first two an output operand may share the register of an
  input that is read later. A store through a register that no longer holds its pointer is \<open>stuck\<close>. The wait for the transmitter is part of the
  console.
\<close>

unbundle bit_operations_syntax


subsection \<open>State and traps\<close>

text \<open>The array \<open>mscratch\<close> points to is \<open>save\<close>.\<close>

record mskip = modes +
  marker :: u64
  pre :: "nat \<Rightarrow> u64"
  post :: "nat \<Rightarrow> u64"

type_synonym kprog = "(unit mskip_ext modes_ext, unit) prog"

text \<open>The symbols and the operand registers; \<open>insn_at\<close> is what the program reads when it loads the instruction at an address.\<close>

record ms_syms =
  k_vec :: u64
  k_regs :: u64
  k_site :: u64
  k_site2 :: u64
  k_ptr :: u64
  insn_at :: "u64 \<Rightarrow> u64"
  r_fault :: nat
  r_resume :: nat
  r_ptr :: nat
  r_fault2 :: nat
  r_resume2 :: nat
  r_ptr2 :: nat

definition gets_k :: "(mskip \<Rightarrow> 'a) \<Rightarrow> (unit mskip_ext modes_ext, 'a) prog" where
  "gets_k f = State (\<lambda>s. (f s, s))"

definition sets_k :: "(mskip \<Rightarrow> mskip) \<Rightarrow> kprog" where
  "sets_k f = State (\<lambda>s. ((), f s))"

definition lost :: kprog where
  "lost = sets_k (\<lambda>s. s\<lparr>stuck := True\<rparr>)"

text \<open>A trap at \<open>site\<close>: the handler runs if the vector points to it, the program goes on if the handler returns to \<open>resume\<close>.\<close>

definition trap_at :: "u64 \<Rightarrow> u64 \<Rightarrow> u64 \<Rightarrow> u64 \<Rightarrow> u64 \<Rightarrow> kprog \<Rightarrow> kprog \<Rightarrow> kprog" where
  "trap_at vec cause site tv resume handler rest = do {
     take_trap cause site tv;
     a \<leftarrow> gets_k (\<lambda>s. pc (hw s));
     if a \<noteq> vec then lost
     else do {
       handler;
       bad \<leftarrow> gets_k stuck;
       b \<leftarrow> gets_k (\<lambda>s. pc (hw s));
       if bad then State_Monad.return () else if b \<noteq> resume then lost else rest } }"

definition skip_setup :: "ms_syms \<Rightarrow> string \<Rightarrow> kprog" where
  "skip_setup y title = do {
     puts [Str title];
     csrw Mtvec (k_vec y);
     csrw Mscratch (k_regs y);
     csrc Mstatus 8;
     tv \<leftarrow> csrr Mtvec;
     mie \<leftarrow> csrr Mie;
     puts [Str ''setup: mtvec='', Hex tv, Str '' mie='', Hex mie, Str ''\<newline>''];
     check (tv AND NOT 3 = k_vec y) ''mtvec did not take the handler address'';
     check (tv AND 3 = 0) ''mtvec not in direct mode'';
     check (mie = 0) ''mie nonzero at boot'' }"

definition skip_verdict :: "u64 \<Rightarrow> kprog" where
  "skip_verdict count = do {
     f \<leftarrow> get_fails;
     puts [Str ''RESULT: '', Str (if f = 0 then ''PASS'' else ''FAIL''), Str '' (traps='', Dec count, Str '')\<newline>''];
     only_if (f = 0) (finish 0x5555) }"


subsection \<open>ebreak-tripwire\<close>

text \<open>The entry keeps one record of three words per trap, at an index the count gives.\<close>

definition ebt_trap_entry :: "ms_syms \<Rightarrow> kprog" where
  "ebt_trap_entry y = do {
     t0 \<leftarrow> get_reg xt0;
     base \<leftarrow> csrrw Mscratch t0;
     if base \<noteq> k_regs y then lost
     else do {
       t1 \<leftarrow> get_reg xt1; t2 \<leftarrow> get_reg xt2;
       put_save 18 t1;
       put_save 19 t2;
       n \<leftarrow> get_save 16;
       let i = 3 * unat n in
       if 20 \<le> i + 2 then lost
       else do {
         cause \<leftarrow> csrr Mcause; put_save i cause;
         epc \<leftarrow> csrr Mepc; put_save (i + 1) epc;
         r \<leftarrow> get_save (i + 2); csrw Mepc r;
         put_save 16 (n + 1);
         csrw Mscratch base;
         mret } } }"

definition ebt_report :: "u64 \<Rightarrow> u64 \<Rightarrow> u64 \<Rightarrow> u64 \<Rightarrow> u64 \<Rightarrow> u64 \<Rightarrow> (nat \<Rightarrow> u64) \<Rightarrow> u64 \<Rightarrow> u64 \<Rightarrow> kprog" where
  "ebt_report brk_a post_a brk_b post_b marker_a marker_b r insn_a insn_b = do {
     puts [Str ''phase A: tripwire='', Hex brk_a, Str '' post='', Hex post_a, Str '' delta='', Dec (post_a - brk_a),
       Str ''\<newline>phase A trap: mcause='', Hex (r 0), Str '' mepc='', Hex (r 1), Str '' insn='', Hex insn_a,
       Str ''\<newline>phase B: tripwire='', Hex brk_b, Str '' post='', Hex post_b, Str '' delta='', Dec (post_b - brk_b),
       Str ''\<newline>phase B trap: mcause='', Hex (r 3), Str '' mepc='', Hex (r 4), Str '' insn='', Hex insn_b,
       Str ''\<newline>resume: stored_a='', Hex (r 2), Str '' stored_b='', Hex (r 5), Str '' marker_a='', Hex marker_a, Str '' marker_b='', Hex marker_b,
       Str '' traps='', Dec (r 16), Str ''\<newline>''] }"

definition ebt_checks :: "u64 \<Rightarrow> u64 \<Rightarrow> u64 \<Rightarrow> u64 \<Rightarrow> u64 \<Rightarrow> u64 \<Rightarrow> (nat \<Rightarrow> u64) \<Rightarrow> u64 \<Rightarrow> u64 \<Rightarrow> kprog" where
  "ebt_checks brk_a post_a brk_b post_b marker_a marker_b r insn_a insn_b = do {
     check (r 16 = 2) ''trap count != 2: the tripwires were not the only traps'';
     check (r 0 = 3) ''phase A mcause != 3 (breakpoint)'';
     check (r 3 = 3) ''phase B mcause != 3 (breakpoint)'';
     check (r 1 = brk_a) ''phase A mepc != captured ebreak address: the trap did not name the tripwire'';
     check (r 4 = brk_b) ''phase B mepc != captured c.ebreak address: the trap did not name the tripwire'';
     check (insn_a = 0x00100073) ''instruction at phase A mepc is not ebreak (0x00100073)'';
     check (insn_b = 0x9002) ''halfword at phase B mepc is not c.ebreak (0x9002)'';
     check (post_a - brk_a = 4) ''phase A post - tripwire != 4 (ebreak not 4 bytes?)'';
     check (post_b - brk_b = 2) ''phase B post - tripwire != 2 (c.ebreak not 2 bytes?)'';
     check (r 2 = post_a) ''phase A stored resume != post-tripwire address'';
     check (r 5 = post_b) ''phase B stored resume != post-tripwire address'';
     check (marker_a = 0xEBBE4A) ''phase A marker missing: execution did not continue past the ebreak'';
     check (marker_b = 0xEBBE4B) ''phase B marker missing: execution did not continue past the c.ebreak'' }"

definition ebt_end :: "ms_syms \<Rightarrow> u64 \<Rightarrow> u64 \<Rightarrow> u64 \<Rightarrow> kprog" where
  "ebt_end y brk_a post_a marker_a = do {
     brk_b \<leftarrow> get_reg (r_fault2 y); post_b \<leftarrow> get_reg (r_resume2 y);
     r \<leftarrow> gets_k save;
     let insn_a = insn_at y (r 1); insn_b = insn_at y (r 4) in do {
       ebt_report brk_a post_a brk_b post_b marker_a 0xEBBE4B r insn_a insn_b;
       ebt_checks brk_a post_a brk_b post_b marker_a 0xEBBE4B r insn_a insn_b;
       skip_verdict (r 16) } }"

text \<open>An assembly block up to its trap: the operands are loaded and the resume address is stored through the pointer operand.\<close>

definition tripwire :: "ms_syms \<Rightarrow> nat \<Rightarrow> nat \<Rightarrow> nat \<Rightarrow> u64 \<Rightarrow> u64 \<Rightarrow> nat \<Rightarrow> u64 \<Rightarrow> kprog \<Rightarrow> kprog" where
  "tripwire y q_brk q_post q_save site resume slot tv rest = do {
     put_reg q_save (k_regs y);
     put_reg q_brk site;
     put_reg q_post resume;
     base \<leftarrow> get_reg q_save; v \<leftarrow> get_reg q_post;
     if base \<noteq> k_regs y then lost
     else do {
       put_save slot v;
       trap_at (k_vec y) 3 site tv resume (ebt_trap_entry y) rest } }"

definition ebt_main :: "ms_syms \<Rightarrow> u64 \<Rightarrow> kprog" where
  "ebt_main y tv = do {
     skip_setup y ''ebreak-tripwire: two planted tripwires, two named traps\<newline>'';
     tripwire y (r_fault y) (r_resume y) (r_ptr y) (k_site y) (k_site y + 4) 2 tv (do {
       brk_a \<leftarrow> get_reg (r_fault y); post_a \<leftarrow> get_reg (r_resume y);
       tripwire y (r_fault2 y) (r_resume2 y) (r_ptr2 y) (k_site2 y) (k_site2 y + 2) 5 tv (ebt_end y brk_a post_a 0xEBBE4A) }) }"


subsection \<open>mepc-resume-skip\<close>

abbreviation (input) UNMAPPED_ADDR :: u64 where "UNMAPPED_ADDR \<equiv> 0xFFFFFFFFC0000000"
abbreviation (input) SENTINEL_A0 :: u64 where "SENTINEL_A0 \<equiv> 0xA0A0A0A0A0A0A0A0"
abbreviation (input) RESUME_MARKER :: u64 where "RESUME_MARKER \<equiv> 0xDEADBEEFDEADBEEF"

text \<open>The handler leaves the adjusted \<open>mepc\<close> in t1.\<close>

definition mrs_trap_entry :: "ms_syms \<Rightarrow> kprog" where
  "mrs_trap_entry y = do {
     t0 \<leftarrow> get_reg xt0;
     base \<leftarrow> csrrw Mscratch t0;
     if base \<noteq> k_regs y then lost
     else do {
       cause \<leftarrow> csrr Mcause; put_save 0 cause;
       tv \<leftarrow> csrr Mtval; put_save 1 tv;
       epc \<leftarrow> csrr Mepc; put_save 2 epc;
       n \<leftarrow> get_save 3; put_save 3 (n + 1);
       put_save 4 (epc + 4);
       put_reg xt1 (epc + 4);
       csrw Mepc (epc + 4);
       csrw Mscratch base;
       mret } }"

definition mrs_checks :: "u64 \<Rightarrow> u64 \<Rightarrow> u64 \<Rightarrow> u64 \<Rightarrow> (nat \<Rightarrow> u64) \<Rightarrow> u64 \<Rightarrow> kprog" where
  "mrs_checks fault_addr resume_addr a0 a1 r insn = do {
     mk \<leftarrow> gets_k marker;
     puts [Str ''addrs: fault='', Hex fault_addr, Str '' resume='', Hex resume_addr, Str '' delta='', Dec (resume_addr - fault_addr),
       Str ''\<newline>trap: count='', Dec (r 3), Str '' mcause='', Hex (r 0), Str '' mtval='', Hex (r 1), Str ''\<newline>mepc: before='', Hex (r 2),
       Str '' after='', Hex (r 4), Str '' delta='', Dec (r 4 - r 2), Str '' insn@mepc_before='', Hex insn, Str ''\<newline>post: marker='', Hex mk,
       Str '' a0='', Hex a0, Str '' a1='', Hex a1, Str ''\<newline>''];
     check (r 3 = 1) ''trap count != 1 (fault re-executed?)'';
     check (r 0 = 5) ''mcause != 5 (load access fault)'';
     check (r 1 = UNMAPPED_ADDR) ''mtval != unmapped address'';
     check (r 2 = fault_addr) ''mepc at trap entry != captured fault address'';
     check (r 4 - r 2 = 4) ''handler mepc delta != 4'';
     check (r 4 = resume_addr) ''adjusted mepc != captured resume address'';
     check (resume_addr - fault_addr = 4) ''resume - fault != 4 (faulting insn not 4 bytes?)'';
     check (insn = 0x0005A503) ''instruction at fault address is not lw a0,0(a1)'';
     check (mk = RESUME_MARKER) ''marker at faulting+4 did not run'';
     check (a0 = SENTINEL_A0) ''a0 changed: faulting load committed'';
     check (a1 = UNMAPPED_ADDR) ''a1 changed: handler clobbered the faulting address'';
     skip_verdict (r 3) }"

definition mrs_resume :: "ms_syms \<Rightarrow> kprog" where
  "mrs_resume y = do {
     put_reg xt0 RESUME_MARKER;
     slot \<leftarrow> get_reg (r_ptr y);
     if slot \<noteq> k_ptr y then lost
     else do {
       sets_k (\<lambda>s. s\<lparr>marker := RESUME_MARKER\<rparr>);
       a0 \<leftarrow> get_reg xa0; a1 \<leftarrow> get_reg xa1;
       fault_addr \<leftarrow> get_reg (r_fault y); resume_addr \<leftarrow> get_reg (r_resume y);
       r \<leftarrow> gets_k save;
       mrs_checks fault_addr resume_addr a0 a1 r (insn_at y (r 2)) } }"

text \<open>The load from the unmapped address is an access fault of the platform; \<open>tv\<close> is the trap value the hart reports for it.\<close>

definition mrs_main :: "ms_syms \<Rightarrow> u64 \<Rightarrow> kprog" where
  "mrs_main y tv = do {
     skip_setup y ''mepc-resume-skip: handler adds 4 to mepc, fault skipped once\<newline>'';
     put_reg (r_ptr y) (k_ptr y);
     put_reg (r_fault y) (k_site y);
     put_reg (r_resume y) (k_site y + 4);
     put_reg xa0 SENTINEL_A0;
     put_reg xa1 UNMAPPED_ADDR;
     trap_at (k_vec y) 5 (k_site y) tv (k_site y + 4) (mrs_trap_entry y) (mrs_resume y) }"


subsection \<open>mret-no-restore\<close>

definition pre_vals :: "u64 list" where
  "pre_vals = [0x1111111111111111, 0x2222222222222222, 0x3333333333333333, 0x4444444444444444,
     0x5555555555555555, 0x6666666666666666, 0x7777777777777777, 0x8888888888888888]"

definition post_vals :: "u64 list" where
  "post_vals = [0x9999999999999999, 0xaaaaaaaaaaaaaaaa, 0xbbbbbbbbbbbbbbbb, 0xcccccccccccccccc,
     0xdddddddddddddddd, 0xeeeeeeeeeeeeeeee, 0xffffffffffffffff, 0x123456789abcdef0]"

text \<open>\<open>li a0, \<dots>; li a1, \<dots>\<close> and so on.\<close>

fun load_args :: "nat \<Rightarrow> u64 list \<Rightarrow> kprog" where
  "load_args r [] = State_Monad.return ()"
| "load_args r (v # vs) = do { put_reg r v; load_args (Suc r) vs }"

definition mnr_trap_entry :: "ms_syms \<Rightarrow> kprog" where
  "mnr_trap_entry y = do {
     t0 \<leftarrow> get_reg xt0;
     base \<leftarrow> csrrw Mscratch t0;
     if base \<noteq> k_regs y then lost
     else do {
       cause \<leftarrow> csrr Mcause; put_save 0 cause;
       epc \<leftarrow> csrr Mepc; put_save 1 epc;
       tv \<leftarrow> csrr Mtval; put_save 2 tv;
       n \<leftarrow> get_save 3; put_save 3 (n + 1);
       put_reg xt1 (epc + 4);
       csrw Mepc (epc + 4);
       csrw Mscratch base;
       load_args xa0 post_vals;
       mret } }"

text \<open>The double loop over the two sets.\<close>

fun differ_from :: "u64 \<Rightarrow> u64 list \<Rightarrow> kprog" where
  "differ_from v [] = State_Monad.return ()"
| "differ_from v (w # ws) = do { check (v \<noteq> w) ''sentinel sets overlap''; differ_from v ws }"

fun disjoint_sets :: "u64 list \<Rightarrow> u64 list \<Rightarrow> kprog" where
  "disjoint_sets [] ws = State_Monad.return ()"
| "disjoint_sets (v # vs) ws = do { differ_from v ws; disjoint_sets vs ws }"

text \<open>The register dump and its checks, from register \<open>i\<close> on, \<open>k\<close> left.\<close>

fun dump_regs :: "(nat \<Rightarrow> u64) \<Rightarrow> (nat \<Rightarrow> u64) \<Rightarrow> nat \<Rightarrow> nat \<Rightarrow> kprog" where
  "dump_regs pr po i 0 = State_Monad.return ()"
| "dump_regs pr po i (Suc k) = do {
     puts [Str ''  a'', Dec (of_nat i), Str '': '', Hex (pr i), Str '' -> '', Hex (po i), Str '' (handler '', Hex (post_vals ! i), Str '')''];
     only_if (po i \<noteq> post_vals ! i \<or> po i = pr i \<or> pr i \<noteq> pre_vals ! i) (puts [Str ''  MISMATCH'']);
     puts [Str ''\<newline>''];
     check (pr i = pre_vals ! i) ''pre-trap record != loaded sentinel'';
     check (po i = post_vals ! i) ''post-trap register != handler value'';
     check (po i \<noteq> pr i) ''register unchanged across the trap'';
     dump_regs pr po (Suc i) k }"

definition mnr_end :: "ms_syms \<Rightarrow> kprog" where
  "mnr_end y = do {
     base \<leftarrow> get_reg (r_ptr y);
     if base \<noteq> k_ptr y then lost
     else do {
       sets_k (\<lambda>s. s\<lparr>post := (\<lambda>i. if i < 8 then reg_get (xa0 + i) (hw s) else post s i)\<rparr>);
       r \<leftarrow> gets_k save; pr \<leftarrow> gets_k pre; po \<leftarrow> gets_k post;
       let insn = insn_at y (r 1) in do {
         puts [Str ''trap: count='', Dec (r 3), Str '' mcause='', Hex (r 0), Str '' mepc='', Hex (r 1), Str '' mtval='', Hex (r 2),
           Str '' insn@mepc='', Hex insn, Str ''\<newline>''];
         check (r 3 = 1) ''trap count != 1'';
         check (r 0 = 11) ''mcause != 11 (M-mode ecall)'';
         check (r 2 = 0) ''mtval != 0'';
         check (insn = 0x73) ''instruction at mepc is not ecall'';
         puts [Str ''regs: before -> after (handler wrote)\<newline>''];
         dump_regs pr po 0 8;
         skip_verdict (r 3) } } }"

text \<open>The pointers to the two arrays are in registers; the second is used after the trap.\<close>

definition mnr_main :: "ms_syms \<Rightarrow> kprog" where
  "mnr_main y = do {
     skip_setup y ''mret-no-restore: handler clobbers a0..a7 with no restore\<newline>'';
     disjoint_sets pre_vals post_vals;
     put_reg (r_ptr y) (k_ptr y);
     load_args xa0 pre_vals;
     sets_k (\<lambda>s. s\<lparr>pre := (\<lambda>i. if i < 8 then reg_get (xa0 + i) (hw s) else pre s i)\<rparr>);
     trap_at (k_vec y) 11 (k_site y) 0 (k_site y + 4) (mnr_trap_entry y) (mnr_end y) }"



subsection \<open>Running\<close>

lemma run_mskip_basic [simp]: "run_state (gets_k f) s = (f s, s)" "run_state (sets_k g) s = ((), g s)" "run_state lost s = ((), s\<lparr>stuck := True\<rparr>)"
  by (simp_all add: gets_k_def sets_k_def lost_def)

lemmas mskip_exec = probe_run exec_assoc Let_def run_mskip_basic [THEN exec_step] modes_exec

text \<open>After the setup: the hart, and the checks that failed.\<close>

definition setup_hart :: "ms_syms \<Rightarrow> hart \<Rightarrow> hart" where
  "setup_hart y h = (let h1 = csr_store Mscratch (k_regs y) (csr_store Mtvec (k_vec y) h) in csr_store Mstatus (csrf h1 Mstatus AND NOT 8) h1)"

definition vectored :: "ms_syms \<Rightarrow> hart \<Rightarrow> bool" where
  "vectored y h \<longleftrightarrow> (let t = legal h Mtvec (csrf h Mtvec) (k_vec y) in t AND NOT 3 = k_vec y \<and> t AND 3 = 0) \<and> csrf h Mie = 0"

lemma run_skip_setup:
  "\<exists>tx f. run_state (skip_setup y title) s = ((), s\<lparr>out := tx, fails := fails s + f, hw := setup_hart y (hw s)\<rparr>) \<and> (f = 0 \<longleftrightarrow> vectored y (hw s))"
  by (cases s) (simp add: skip_setup_def mskip_exec setup_hart_def vectored_def cong: probe_cong)

lemma setup_hart_simps [simp]:
  "legal (setup_hart y h) = legal h" "csrf (setup_hart y h) Mtvec = legal h Mtvec (csrf h Mtvec) (k_vec y)"
  "csrf (setup_hart y h) Mscratch = legal h Mscratch (csrf h Mscratch) (k_regs y)" "reg_get q (setup_hart y h) = reg_get q h"
  by (simp_all add: setup_hart_def Let_def)

lemma trap_at_run:
  assumes "csrf (hw s) Mtvec AND NOT 3 = vec" "run_state handler (s\<lparr>hw := trap_to_m c e tv (hw s)\<rparr>) = ((), t)" "\<not> stuck t"
  shows "run_state (trap_at vec c e tv resume handler rest) s = (if pc (hw t) = resume then run_state rest t else ((), t\<lparr>stuck := True\<rparr>))"
  using assms by (simp add: trap_at_def exec_basic run_mskip_basic [THEN exec_step] exec_step [OF assms(2)]) (simp add: trap_to_m_def)

lemma trap_at_lost:
  assumes "csrf (hw s) Mtvec AND NOT 3 \<noteq> vec"
  shows "finisher (snd (run_state (trap_at vec c e tv resume handler rest) s)) = finisher s"
  using assms by (simp add: trap_at_def exec_basic run_mskip_basic [THEN exec_step]) (simp add: trap_to_m_def)

text \<open>The way back from the entries.\<close>

definition way_back :: "ms_syms \<Rightarrow> u64 \<Rightarrow> hart \<Rightarrow> hart" where
  "way_back y r h = do_mret (csr_store Mscratch (k_regs y) (csr_store Mepc r (csr_store Mscratch (reg_get xt0 h) h)))"

lemma way_back_simps [simp]:
  "legal (way_back y r (trap_to_m c e tv h)) = legal h" "csrf (way_back y r (trap_to_m c e tv h)) Mtvec = csrf h Mtvec"
  "reg_get q (way_back y r (trap_to_m c e tv h)) = reg_get q h" "pc (way_back y r (trap_to_m c e tv h)) = legal h Mepc e r"
  by (simp_all add: way_back_def do_mret_def trap_to_m_def reg_get_def csr_store_def)

lemma way_back_scratch [simp]: "plain_csr h Mscratch \<Longrightarrow> csrf (way_back y r (trap_to_m c e tv h)) Mscratch = k_regs y"
  by (simp add: way_back_def plain_csr_def)

lemma run_ebt_entry:
  assumes "csrf (hw s) Mscratch = k_regs y" "save s 16 = of_nat n" "n \<le> 1"
  shows "run_state (ebt_trap_entry y) (s\<lparr>hw := trap_to_m c e tv (hw s)\<rparr>) = ((), s\<lparr>save := (save s)(18 := reg_get xt1 (hw s), 19 := reg_get xt2 (hw s),
    3 * n := c, 3 * n + 1 := e, 16 := of_nat n + 1), hw := way_back y (save s (3 * n + 2)) (trap_to_m c e tv (hw s))\<rparr>)"
proof -
  have t: "csrf (trap_to_m c e tv (hw s)) Mscratch = k_regs y" "csrf (trap_to_m c e tv (hw s)) Mcause = c" "csrf (trap_to_m c e tv (hw s)) Mepc = e"
    using assms(1) by (simp_all add: trap_to_m_def)
  from assms(3) consider "n = 0" | "n = 1" by linarith
  then show ?thesis
    by cases (use t assms(2) in \<open>simp_all add: ebt_trap_entry_def mskip_exec way_back_def fun_upd_twist\<close>)
qed



subsection \<open>Verdict of ebreak-tripwire\<close>

text \<open>A block whose trap is taken and returned from: the pointer survives the loads of the outputs, and \<open>mepc\<close> keeps the resume address.\<close>

definition wired :: "ms_syms \<Rightarrow> nat \<Rightarrow> nat \<Rightarrow> nat \<Rightarrow> u64 \<Rightarrow> u64 \<Rightarrow> hart \<Rightarrow> bool" where
  "wired y q_brk q_post q_save site resume h \<longleftrightarrow> csrf h Mtvec AND NOT 3 = k_vec y \<and> q_save \<noteq> q_brk \<and> q_save \<noteq> q_post \<and> legal h Mepc site resume = resume"

definition operands :: "ms_syms \<Rightarrow> nat \<Rightarrow> nat \<Rightarrow> nat \<Rightarrow> u64 \<Rightarrow> u64 \<Rightarrow> bool" where
  "operands y q_brk q_post q_save site resume \<longleftrightarrow> q_brk \<noteq> 0 \<and> q_post \<noteq> 0 \<and> q_save \<noteq> 0 \<and> q_brk \<noteq> q_post \<and> k_regs y \<noteq> site \<and> k_regs y \<noteq> resume"

lemma tripwire_run:
  assumes o: "operands y q_brk q_post q_save site resume"
    and s: "plain_csr (hw s) Mscratch" "csrf (hw s) Mscratch = k_regs y" "save s 16 = of_nat n" "n \<le> 1" "\<not> stuck s" "finisher s = None"
  shows "\<not> wired y q_brk q_post q_save site resume (hw s) \<Longrightarrow>
      finisher (snd (run_state (tripwire y q_brk q_post q_save site resume (3 * n + 2) tv rest) s)) = None"
    "wired y q_brk q_post q_save site resume (hw s) \<Longrightarrow>
      \<exists>h' a b. run_state (tripwire y q_brk q_post q_save site resume (3 * n + 2) tv rest) s =
        run_state rest (s\<lparr>save := (save s)(3 * n + 2 := resume, 18 := a, 19 := b, 3 * n := 3, 3 * n + 1 := site, 16 := of_nat n + 1), hw := h'\<rparr>) \<and>
      reg_get q_brk h' = site \<and> reg_get q_post h' = resume \<and> legal h' = legal (hw s) \<and> csrf h' Mtvec = csrf (hw s) Mtvec \<and> csrf h' Mscratch = k_regs y"
proof -
  let ?h = "reg_set q_post resume (reg_set q_brk site (reg_set q_save (k_regs y) (hw s)))"
  let ?s = "s\<lparr>hw := ?h, save := (save s)(3 * n + 2 := resume)\<rparr>"
  let ?run = "run_state (tripwire y q_brk q_post q_save site resume (3 * n + 2) tv rest) s"
  let ?trap = "run_state (trap_at (k_vec y) 3 site tv resume (ebt_trap_entry y) rest) ?s"
  have v: "reg_get q_post ?h = resume" "reg_get q_brk ?h = site" using o by (simp_all add: operands_def)
  have b: "reg_get q_save ?h = k_regs y \<longleftrightarrow> q_save \<noteq> q_brk \<and> q_save \<noteq> q_post" using o by (auto simp: operands_def)
  have t: "q_save \<noteq> q_brk \<Longrightarrow> q_save \<noteq> q_post \<Longrightarrow> ?run = ?trap" and
    u: "\<not> (q_save \<noteq> q_brk \<and> q_save \<noteq> q_post) \<Longrightarrow> finisher (snd ?run) = None"
    using v b s(6) by (auto simp add: tripwire_def modes_exec exec_basic)
  have h: "csrf ?h = csrf (hw s)" "legal ?h = legal (hw s)" by (simp_all add: machine_simps)
  have e: "run_state (ebt_trap_entry y) (?s\<lparr>hw := trap_to_m 3 site tv (hw ?s)\<rparr>) = ((), ?s\<lparr>save := (save ?s)(18 := reg_get xt1 (hw ?s), 19 := reg_get xt2 (hw ?s),
    3 * n := 3, 3 * n + 1 := site, 16 := of_nat n + 1), hw := way_back y (save ?s (3 * n + 2)) (trap_to_m 3 site tv (hw ?s))\<rparr>)"
    by (rule run_ebt_entry) (use s(2-4) h in simp_all)
  show "finisher (snd ?run) = None" if "\<not> wired y q_brk q_post q_save site resume (hw s)"
  proof (cases "q_save \<noteq> q_brk \<and> q_save \<noteq> q_post \<and> csrf (hw s) Mtvec AND NOT 3 = k_vec y")
    case True
    then have "legal (hw s) Mepc site resume \<noteq> resume" using that by (simp add: wired_def)
    with True t trap_at_run [OF _ e, of "k_vec y" resume rest] s(5,6) h show ?thesis by simp
  next
    case False
    with t u trap_at_lost [of ?s "k_vec y" 3 site tv resume "ebt_trap_entry y" rest] s(6) h show ?thesis
      by (cases "q_save = q_brk \<or> q_save = q_post") auto
  qed
  show "\<exists>h' a b. ?run = run_state rest (s\<lparr>save := (save s)(3 * n + 2 := resume, 18 := a, 19 := b, 3 * n := 3, 3 * n + 1 := site, 16 := of_nat n + 1), hw := h'\<rparr>) \<and>
      reg_get q_brk h' = site \<and> reg_get q_post h' = resume \<and> legal h' = legal (hw s) \<and> csrf h' Mtvec = csrf (hw s) Mtvec \<and> csrf h' Mscratch = k_regs y"
    if "wired y q_brk q_post q_save site resume (hw s)"
    using that t trap_at_run [OF _ e, of "k_vec y" resume rest] s(1,5) h v
    by (intro exI [of _ "way_back y resume (trap_to_m 3 site tv ?h)"] exI [of _ "reg_get xt1 ?h"] exI [of _ "reg_get xt2 ?h"])
      (simp add: wired_def plain_csr_def)
qed


lemma ebt_end_verdict:
  assumes "finisher s = None"
  shows "finisher (snd (run_state (ebt_end y ba pa ma) s)) =
    (let r = save s; bb = reg_get (r_fault2 y) (hw s); pb = reg_get (r_resume2 y) (hw s) in
     if fails s = 0 \<and> r 16 = 2 \<and> r 0 = 3 \<and> r 3 = 3 \<and> r 1 = ba \<and> r 4 = bb \<and> insn_at y (r 1) = 0x00100073 \<and> insn_at y (r 4) = 0x9002 \<and>
        pa - ba = 4 \<and> pb - bb = 2 \<and> r 2 = pa \<and> r 5 = pb \<and> ma = 0xEBBE4A then Some 0x5555 else None)"
  using assms
  by (cases s) (simp add: ebt_end_def ebt_report_def ebt_checks_def skip_verdict_def mskip_exec cong: probe_cong, auto)

text \<open>The state every program starts in.\<close>

definition ms_boot :: "mskip \<Rightarrow> bool" where
  "ms_boot s \<longleftrightarrow> plain_csr (hw s) Mscratch \<and> save s = (\<lambda>_. 0) \<and> \<not> stuck s \<and> \<not> parked s \<and> fails s = 0 \<and> finisher s = None"

definition ebt_accepts :: "ms_syms \<Rightarrow> hart \<Rightarrow> bool" where
  "ebt_accepts y h \<longleftrightarrow> vectored y h \<and> wired y (r_fault y) (r_resume y) (r_ptr y) (k_site y) (k_site y + 4) (setup_hart y h) \<and>
     wired y (r_fault2 y) (r_resume2 y) (r_ptr2 y) (k_site2 y) (k_site2 y + 2) (setup_hart y h) \<and>
     insn_at y (k_site y) = 0x00100073 \<and> insn_at y (k_site2 y) = 0x9002"

lemma wired_same: "legal h' = legal h \<Longrightarrow> csrf h' Mtvec = csrf h Mtvec \<Longrightarrow> wired y a b c d e h' = wired y a b c d e h"
  by (simp add: wired_def)

lemma ebt_second:
  assumes o: "operands y (r_fault2 y) (r_resume2 y) (r_ptr2 y) (k_site2 y) (k_site2 y + 2)"
    and s: "plain_csr (hw s) Mscratch" "csrf (hw s) Mscratch = k_regs y" "save s 16 = 1" "save s 0 = 3" "save s 1 = k_site y" "save s 2 = k_site y + 4"
      "\<not> stuck s" "finisher s = None"
  shows "finisher (snd (run_state (tripwire y (r_fault2 y) (r_resume2 y) (r_ptr2 y) (k_site2 y) (k_site2 y + 2) 5 tv
      (ebt_end y (k_site y) (k_site y + 4) 0xEBBE4A)) s)) =
    (if fails s = 0 \<and> wired y (r_fault2 y) (r_resume2 y) (r_ptr2 y) (k_site2 y) (k_site2 y + 2) (hw s) \<and>
        insn_at y (k_site y) = 0x00100073 \<and> insn_at y (k_site2 y) = 0x9002 then Some 0x5555 else None)"
proof -
  have n: "save s 16 = of_nat 1" "(1 :: nat) \<le> 1" "(5 :: nat) = 3 * 1 + 2" using s(3) by simp_all
  note t = tripwire_run [OF o s(1,2) n(1,2) s(7,8), of tv "ebt_end y (k_site y) (k_site y + 4) 0xEBBE4A", folded n(3)]
  show ?thesis
  proof (cases "wired y (r_fault2 y) (r_resume2 y) (r_ptr2 y) (k_site2 y) (k_site2 y + 2) (hw s)")
    case True
    from t(2) [OF this] obtain h' a b where e: "run_state (tripwire y (r_fault2 y) (r_resume2 y) (r_ptr2 y) (k_site2 y) (k_site2 y + 2) 5 tv
        (ebt_end y (k_site y) (k_site y + 4) 0xEBBE4A)) s = run_state (ebt_end y (k_site y) (k_site y + 4) 0xEBBE4A)
        (s\<lparr>save := (save s)(5 := k_site2 y + 2, 18 := a, 19 := b, 3 := 3, 4 := k_site2 y, 16 := 2), hw := h'\<rparr>)"
      "reg_get (r_fault2 y) h' = k_site2 y" "reg_get (r_resume2 y) h' = k_site2 y + 2" by auto
    show ?thesis unfolding e(1) using True s(4-6,8) e(2,3) by (simp add: ebt_end_verdict Let_def)
  next
    case False
    with t(1) [OF False] show ?thesis by simp
  qed
qed

lemma ebt_verdict:
  assumes o: "operands y (r_fault y) (r_resume y) (r_ptr y) (k_site y) (k_site y + 4)"
      "operands y (r_fault2 y) (r_resume2 y) (r_ptr2 y) (k_site2 y) (k_site2 y + 2)" and s: "ms_boot s"
  shows "finisher (final (ebt_main y tv) s) = (if ebt_accepts y (hw s) then Some 0x5555 else None)"
proof -
  from run_skip_setup obtain tx f where u: "run_state (skip_setup y ''ebreak-tripwire: two planted tripwires, two named traps\<newline>'') s =
    ((), s\<lparr>out := tx, fails := fails s + f, hw := setup_hart y (hw s)\<rparr>)" "f = 0 \<longleftrightarrow> vectored y (hw s)" by blast
  let ?u = "s\<lparr>out := tx, fails := fails s + f, hw := setup_hart y (hw s)\<rparr>"
  let ?rest = "do { brk_a \<leftarrow> get_reg (r_fault y); post_a \<leftarrow> get_reg (r_resume y);
       tripwire y (r_fault2 y) (r_resume2 y) (r_ptr2 y) (k_site2 y) (k_site2 y + 2) 5 tv (ebt_end y brk_a post_a 0xEBBE4A) }"
  let ?w = "wired y (r_fault y) (r_resume y) (r_ptr y) (k_site y) (k_site y + 4) (setup_hart y (hw s))"
  have b: "plain_csr (hw ?u) Mscratch" "csrf (hw ?u) Mscratch = k_regs y" "save ?u 16 = of_nat 0" "(0 :: nat) \<le> 1" "\<not> stuck ?u" "finisher ?u = None"
    using s by (simp_all add: ms_boot_def plain_csr_def)
  note t = tripwire_run [OF o(1) b, of tv ?rest, simplified]
  have m: "final (ebt_main y tv) s = snd (run_state (tripwire y (r_fault y) (r_resume y) (r_ptr y) (k_site y) (k_site y + 4) 2 tv ?rest) ?u)"
    by (simp add: final_def ebt_main_def exec_step [OF u(1)])
  show ?thesis
  proof (cases ?w)
    case True
    from t(2) [OF True] obtain h' x z where e: "run_state (tripwire y (r_fault y) (r_resume y) (r_ptr y) (k_site y) (k_site y + 4) 2 tv ?rest) ?u =
        run_state ?rest (?u\<lparr>save := (save s)(2 := k_site y + 4, 18 := x, 19 := z, 0 := 3, 1 := k_site y, 16 := 1), hw := h'\<rparr>)"
      "reg_get (r_fault y) h' = k_site y" "reg_get (r_resume y) h' = k_site y + 4" "legal h' = legal (hw s)"
      "csrf h' Mtvec = csrf (setup_hart y (hw s)) Mtvec" "csrf h' Mscratch = k_regs y" by (auto simp: numeral_2_eq_2)
    let ?v = "?u\<lparr>save := (save s)(2 := k_site y + 4, 18 := x, 19 := z, 0 := 3, 1 := k_site y, 16 := 1), hw := h'\<rparr>"
    have "finisher (final (ebt_main y tv) s) = finisher (snd (run_state (tripwire y (r_fault2 y) (r_resume2 y) (r_ptr2 y) (k_site2 y) (k_site2 y + 2) 5 tv
        (ebt_end y (k_site y) (k_site y + 4) 0xEBBE4A)) ?v))"
      unfolding m e(1) using e(2,3) by (simp add: modes_exec)
    also have "\<dots> = (if fails ?v = 0 \<and> wired y (r_fault2 y) (r_resume2 y) (r_ptr2 y) (k_site2 y) (k_site2 y + 2) (hw ?v) \<and>
        insn_at y (k_site y) = 0x00100073 \<and> insn_at y (k_site2 y) = 0x9002 then Some 0x5555 else None)"
      by (rule ebt_second [OF o(2)]) (use b e(4,6) in \<open>simp_all add: plain_csr_def\<close>)
    also have "\<dots> = (if ebt_accepts y (hw s) then Some 0x5555 else None)"
      using True u(2) s e(4,5) wired_same [of h' "setup_hart y (hw s)"] by (simp add: ebt_accepts_def ms_boot_def)
    finally show ?thesis .
  next
    case False
    then show ?thesis using t(1) m by (simp add: ebt_accepts_def numeral_2_eq_2)
  qed
qed



subsection \<open>Verdicts of mepc-resume-skip and mret-no-restore\<close>

text \<open>The way back of the two handlers that skip and keep t1.\<close>

definition skip_back :: "ms_syms \<Rightarrow> u64 \<Rightarrow> hart \<Rightarrow> hart" where
  "skip_back y e h = csr_store Mscratch (k_regs y) (csr_store Mepc (e + 4) (reg_set xt1 (e + 4) (csr_store Mscratch (reg_get xt0 h) h)))"

lemma skip_back_simps [simp]:
  "reg_get q (skip_back y e (trap_to_m c e tv h)) = (if q = xt1 then e + 4 else reg_get q h)" "csrf (skip_back y e (trap_to_m c e tv h)) Mepc = legal h Mepc e (e + 4)"
  by (simp_all add: skip_back_def machine_simps) (simp add: trap_to_m_def)

lemma run_mrs_entry:
  assumes "csrf (hw s) Mscratch = k_regs y"
  shows "run_state (mrs_trap_entry y) (s\<lparr>hw := trap_to_m c e tv (hw s)\<rparr>) = ((), s\<lparr>save := (save s)(0 := c, 1 := tv, 2 := e, 3 := save s 3 + 1, 4 := e + 4),
    hw := do_mret (skip_back y e (trap_to_m c e tv (hw s)))\<rparr>)"
proof -
  have "csrf (trap_to_m c e tv (hw s)) Mscratch = k_regs y" "csrf (trap_to_m c e tv (hw s)) Mcause = c" "csrf (trap_to_m c e tv (hw s)) Mepc = e"
    "csrf (trap_to_m c e tv (hw s)) Mtval = tv" using assms by (simp_all add: trap_to_m_def)
  then show ?thesis by (simp add: mrs_trap_entry_def mskip_exec skip_back_def fun_upd_twist)
qed

lemma mrs_resume_verdict:
  assumes "finisher s = None" "r_ptr y \<noteq> xt0" "r_fault y \<noteq> xt0" "r_resume y \<noteq> xt0"
  shows "finisher (snd (run_state (mrs_resume y) s)) =
    (let r = save s; g = (\<lambda>q. reg_get q (hw s)) in
     if fails s = 0 \<and> g (r_ptr y) = k_ptr y \<and> r 3 = 1 \<and> r 0 = 5 \<and> r 1 = UNMAPPED_ADDR \<and> r 2 = g (r_fault y) \<and> r 4 - r 2 = 4 \<and> r 4 = g (r_resume y) \<and>
        g (r_resume y) - g (r_fault y) = 4 \<and> insn_at y (r 2) = 0x0005A503 \<and> g xa0 = SENTINEL_A0 \<and> g xa1 = UNMAPPED_ADDR then Some 0x5555 else None)"
  using assms
  by (cases s) (simp add: mrs_resume_def mrs_checks_def skip_verdict_def mskip_exec cong: probe_cong, auto)

definition mrs_operands :: "ms_syms \<Rightarrow> bool" where
  "mrs_operands y \<longleftrightarrow> {r_ptr y, r_fault y, r_resume y} \<inter> {0, xt0, xa0, xa1} = {} \<and> r_fault y \<noteq> r_resume y \<and> k_ptr y \<noteq> k_site y \<and> k_ptr y \<noteq> k_site y + 4"

definition mrs_accepts :: "ms_syms \<Rightarrow> u64 \<Rightarrow> hart \<Rightarrow> bool" where
  "mrs_accepts y tv h \<longleftrightarrow> vectored y h \<and> legal h Mepc (k_site y) (k_site y + 4) = k_site y + 4 \<and> r_fault y \<noteq> xt1 \<and>
     r_ptr y \<noteq> xt1 \<and> r_ptr y \<noteq> r_fault y \<and> r_ptr y \<noteq> r_resume y \<and> tv = UNMAPPED_ADDR \<and> insn_at y (k_site y) = 0x0005A503"

lemma mrs_verdict:
  assumes o: "mrs_operands y" and s: "ms_boot s"
  shows "finisher (final (mrs_main y tv) s) = (if mrs_accepts y tv (hw s) then Some 0x5555 else None)"
proof -
  from run_skip_setup obtain tx f where u: "run_state (skip_setup y ''mepc-resume-skip: handler adds 4 to mepc, fault skipped once\<newline>'') s =
    ((), s\<lparr>out := tx, fails := fails s + f, hw := setup_hart y (hw s)\<rparr>)" "f = 0 \<longleftrightarrow> vectored y (hw s)" by blast
  define h where "h = reg_set xa1 UNMAPPED_ADDR (reg_set xa0 SENTINEL_A0 (reg_set (r_resume y) (k_site y + 4) (reg_set (r_fault y) (k_site y)
    (reg_set (r_ptr y) (k_ptr y) (setup_hart y (hw s))))))"
  let ?u = "s\<lparr>out := tx, fails := fails s + f, hw := h\<rparr>"
  have m: "final (mrs_main y tv) s = snd (run_state (trap_at (k_vec y) 5 (k_site y) tv (k_site y + 4) (mrs_trap_entry y) (mrs_resume y)) ?u)"
    by (simp add: final_def mrs_main_def exec_step [OF u(1)] modes_exec h_def)
  have h: "legal h = legal (hw s)" "csrf h Mtvec = csrf (setup_hart y (hw s)) Mtvec" "csrf h Mscratch = k_regs y"
    using s by (simp_all add: h_def machine_simps ms_boot_def plain_csr_def)
  have g: "reg_get (r_fault y) h = k_site y" "reg_get (r_resume y) h = k_site y + 4" "reg_get xa0 h = SENTINEL_A0" "reg_get xa1 h = UNMAPPED_ADDR"
    "reg_get (r_ptr y) h = k_ptr y \<longleftrightarrow> r_ptr y \<noteq> r_fault y \<and> r_ptr y \<noteq> r_resume y"
    using o by (auto simp: h_def mrs_operands_def)
  show ?thesis
  proof (cases "csrf h Mtvec AND NOT 3 = k_vec y")
    case True
    let ?h2 = "do_mret (skip_back y (k_site y) (trap_to_m 5 (k_site y) tv h))"
    let ?v = "?u\<lparr>save := (save s)(0 := 5, 1 := tv, 2 := k_site y, 3 := save s 3 + 1, 4 := k_site y + 4), hw := ?h2\<rparr>"
    have e: "run_state (mrs_trap_entry y) (?u\<lparr>hw := trap_to_m 5 (k_site y) tv (hw ?u)\<rparr>) = ((), ?v)" using run_mrs_entry [of ?u y] h(3) by simp
    have "pc ?h2 = legal (hw s) Mepc (k_site y) (k_site y + 4)" by (simp add: do_mret_def h(1))
    then have a: "finisher (final (mrs_main y tv) s) = (if legal (hw s) Mepc (k_site y) (k_site y + 4) = k_site y + 4
        then finisher (snd (run_state (mrs_resume y) ?v)) else None)"
      unfolding m using trap_at_run [OF _ e, of "k_vec y" "k_site y + 4" "mrs_resume y"] True s by (simp add: ms_boot_def)
    have b: "finisher (snd (run_state (mrs_resume y) ?v)) = (if vectored y (hw s) \<and> r_fault y \<noteq> xt1 \<and> r_ptr y \<noteq> xt1 \<and> r_ptr y \<noteq> r_fault y \<and>
        r_ptr y \<noteq> r_resume y \<and> tv = UNMAPPED_ADDR \<and> insn_at y (k_site y) = 0x0005A503 then Some 0x5555 else None)"
      by (subst mrs_resume_verdict) (use o s u(2) g in \<open>auto simp: Let_def ms_boot_def mrs_operands_def\<close>)
    show ?thesis unfolding a b mrs_accepts_def by auto
  next
    case False
    then show ?thesis
      unfolding m using trap_at_lost [of ?u "k_vec y" 5 "k_site y" tv "k_site y + 4" "mrs_trap_entry y" "mrs_resume y"] h(2) s
      by (simp add: mrs_accepts_def vectored_def Let_def ms_boot_def)
  qed
qed


text \<open>The argument registers after \<open>load_args\<close>.\<close>

fun args :: "nat \<Rightarrow> u64 list \<Rightarrow> hart \<Rightarrow> hart" where
  "args r [] h = h"
| "args r (v # vs) h = args (Suc r) vs (reg_set r v h)"

lemma run_load_args [simp]: "run_state (load_args r vs) s = ((), s\<lparr>hw := args r vs (hw s)\<rparr>)"
  by (induction vs arbitrary: r s) (simp_all add: modes_exec)

lemma args_frame [simp]:
  "csrf (args r vs h) = csrf h" "legal (args r vs h) = legal h" "pc (args r vs h) = pc h"
  by (induction vs arbitrary: r h) (simp_all add: machine_simps)

lemma args_get: "0 < r \<Longrightarrow> reg_get q (args r vs h) = (if r \<le> q \<and> q < r + length vs then vs ! (q - r) else reg_get q h)"
  by (induction vs arbitrary: r h) (auto simp: nth_Cons' Suc_diff_Suc)

lemma sentinels: "length pre_vals = 8" "length post_vals = 8" "set pre_vals \<inter> set post_vals = {}"
  by (simp_all add: pre_vals_def post_vals_def)

lemma run_disjoint_sets: "set vs \<inter> set ws = {} \<Longrightarrow> run_state (disjoint_sets vs ws) s = ((), s)"
proof (induction vs)
  case (Cons v vs)
  have "v \<notin> set us \<Longrightarrow> run_state (differ_from v us) s = ((), s)" for us
    by (induction us) (simp_all add: exec_basic checked_True)
  then have "run_state (differ_from v ws) s = ((), s)" using Cons.prems by simp
  with Cons show ?case by (simp add: exec_step)
qed simp

lemma run_dump_regs:
  assumes "\<forall>i < 8. pr i = pre_vals ! i \<and> po i = post_vals ! i" "i + k \<le> 8"
  shows "\<exists>tx. run_state (dump_regs pr po i k) s = ((), s\<lparr>out := tx\<rparr>)"
  using assms(2)
proof (induction k arbitrary: i s)
  case 0
  show ?case by (intro exI [of _ "out s"]) simp
next
  case (Suc k)
  have i: "pr i = pre_vals ! i" "po i = post_vals ! i" using assms(1) Suc.prems by simp_all
  have "pre_vals ! i \<in> set pre_vals" "post_vals ! i \<in> set post_vals" using Suc.prems sentinels(1,2) by (auto intro!: nth_mem)
  then have d: "post_vals ! i \<noteq> pre_vals ! i" using sentinels(3) by (metis disjoint_iff)
  let ?s = "emit [Str ''\<newline>''] (emit [Str ''  a'', Dec (of_nat i), Str '': '', Hex (pr i), Str '' -> '', Hex (po i), Str '' (handler '',
    Hex (post_vals ! i), Str '')''] s)"
  obtain tx where "run_state (dump_regs pr po (Suc i) k) ?s = ((), ?s\<lparr>out := tx\<rparr>)" using Suc.IH [of "Suc i" ?s] Suc.prems by (metis add_Suc_shift)
  moreover have "run_state (dump_regs pr po i (Suc k)) s = run_state (dump_regs pr po (Suc i) k) ?s"
    using i d by (simp add: exec_basic checked_True exec_only_if)
  moreover have "?s\<lparr>out := tx\<rparr> = s\<lparr>out := tx\<rparr>" by (simp add: emit_def)
  ultimately show ?case by (intro exI [of _ tx]) (simp only:)
qed

lemma run_mnr_entry:
  assumes "csrf (hw s) Mscratch = k_regs y"
  shows "run_state (mnr_trap_entry y) (s\<lparr>hw := trap_to_m c e tv (hw s)\<rparr>) = ((), s\<lparr>save := (save s)(0 := c, 1 := e, 2 := tv, 3 := save s 3 + 1),
    hw := do_mret (args xa0 post_vals (skip_back y e (trap_to_m c e tv (hw s))))\<rparr>)"
proof -
  have "csrf (trap_to_m c e tv (hw s)) Mscratch = k_regs y" "csrf (trap_to_m c e tv (hw s)) Mcause = c" "csrf (trap_to_m c e tv (hw s)) Mepc = e"
    "csrf (trap_to_m c e tv (hw s)) Mtval = tv" using assms by (simp_all add: trap_to_m_def)
  then show ?thesis by (simp add: mnr_trap_entry_def mskip_exec run_load_args [THEN exec_step] skip_back_def fun_upd_twist)
qed

lemma mnr_end_verdict:
  assumes "finisher s = None" "\<forall>i < 8. pre s i = pre_vals ! i \<and> reg_get (xa0 + i) (hw s) = post_vals ! i"
  shows "finisher (snd (run_state (mnr_end y) s)) = (let r = save s in
     if fails s = 0 \<and> reg_get (r_ptr y) (hw s) = k_ptr y \<and> r 3 = 1 \<and> r 0 = 11 \<and> r 2 = 0 \<and> insn_at y (r 1) = 0x73 then Some 0x5555 else None)"
proof -
  let ?po = "\<lambda>i. if i < 8 then reg_get (xa0 + i) (hw s) else post s i"
  have dump: "\<exists>tx. run_state (dump_regs (pre s) ?po 0 8) t = ((), t\<lparr>out := tx\<rparr>)" for t
    by (rule run_dump_regs) (use assms(2) in simp_all)
  have rest: "finisher (snd (run_state (State_Monad.bind (dump_regs (pre s) ?po 0 8) (\<lambda>_. skip_verdict k)) t)) =
      (if fails t = 0 then Some 0x5555 else None)" if "finisher t = None" for k t
  proof -
    from dump [of t] obtain tx where d: "run_state (dump_regs (pre s) ?po 0 8) t = ((), t\<lparr>out := tx\<rparr>)" ..
    show ?thesis using that by (simp add: exec_step [OF d] skip_verdict_def exec_basic)
  qed
  show ?thesis
    using assms(1)
    by (simp add: mnr_end_def exec_basic modes_exec run_mskip_basic [THEN exec_step] Let_def rest del: dump_regs.simps)
qed


definition mnr_operands :: "ms_syms \<Rightarrow> bool" where
  "mnr_operands y \<longleftrightarrow> r_ptr y \<noteq> 0 \<and> r_ptr y \<notin> {xa0..xa7} \<and> k_ptr y \<noteq> k_site y + 4"

definition mnr_accepts :: "ms_syms \<Rightarrow> hart \<Rightarrow> bool" where
  "mnr_accepts y h \<longleftrightarrow> vectored y h \<and> legal h Mepc (k_site y) (k_site y + 4) = k_site y + 4 \<and> r_ptr y \<noteq> xt1 \<and> insn_at y (k_site y) = 0x73"

lemma mnr_verdict:
  assumes o: "mnr_operands y" and s: "ms_boot s"
  shows "finisher (final (mnr_main y) s) = (if mnr_accepts y (hw s) then Some 0x5555 else None)"
proof -
  from run_skip_setup obtain tx f where u: "run_state (skip_setup y ''mret-no-restore: handler clobbers a0..a7 with no restore\<newline>'') s =
    ((), s\<lparr>out := tx, fails := fails s + f, hw := setup_hart y (hw s)\<rparr>)" "f = 0 \<longleftrightarrow> vectored y (hw s)" by blast
  define h where "h = args xa0 pre_vals (reg_set (r_ptr y) (k_ptr y) (setup_hart y (hw s)))"
  let ?u = "s\<lparr>out := tx, fails := fails s + f, hw := h, pre := (\<lambda>i. if i < 8 then reg_get (xa0 + i) h else pre s i)\<rparr>"
  have m: "final (mnr_main y) s = snd (run_state (trap_at (k_vec y) 11 (k_site y) 0 (k_site y + 4) (mnr_trap_entry y) (mnr_end y)) ?u)"
    by (simp add: final_def mnr_main_def exec_step [OF u(1)] modes_exec h_def run_load_args [THEN exec_step] run_mskip_basic [THEN exec_step]
        run_disjoint_sets [OF sentinels(3), THEN exec_step] cong: if_cong)
  have h: "legal h = legal (hw s)" "csrf h Mtvec = csrf (setup_hart y (hw s)) Mtvec" "csrf h Mscratch = k_regs y"
    using s by (simp_all add: h_def machine_simps ms_boot_def plain_csr_def)
  have g: "reg_get (r_ptr y) h = k_ptr y" "i < 8 \<Longrightarrow> reg_get (xa0 + i) h = pre_vals ! i" for i
    using o by (auto simp: h_def args_get sentinels mnr_operands_def)
  show ?thesis
  proof (cases "csrf h Mtvec AND NOT 3 = k_vec y")
    case True
    let ?h1 = "skip_back y (k_site y) (trap_to_m 11 (k_site y) 0 h)"
    let ?h2 = "do_mret (args xa0 post_vals ?h1)"
    let ?v = "?u\<lparr>save := (save s)(0 := 11, 1 := k_site y, 2 := 0, 3 := save s 3 + 1), hw := ?h2\<rparr>"
    have e: "run_state (mnr_trap_entry y) (?u\<lparr>hw := trap_to_m 11 (k_site y) 0 (hw ?u)\<rparr>) = ((), ?v)" using run_mnr_entry [of ?u y] h(3) by simp
    have "pc ?h2 = legal (hw s) Mepc (k_site y) (k_site y + 4)" by (simp add: do_mret_def h(1))
    then have a: "finisher (final (mnr_main y) s) = (if legal (hw s) Mepc (k_site y) (k_site y + 4) = k_site y + 4
        then finisher (snd (run_state (mnr_end y) ?v)) else None)"
      unfolding m using trap_at_run [OF _ e, of "k_vec y" "k_site y + 4" "mnr_end y"] True s by (simp add: ms_boot_def)
    have b: "finisher (snd (run_state (mnr_end y) ?v)) =
        (if vectored y (hw s) \<and> r_ptr y \<noteq> xt1 \<and> insn_at y (k_site y) = 0x73 then Some 0x5555 else None)"
      by (subst mnr_end_verdict) (use o s u(2) g in \<open>auto simp: Let_def ms_boot_def mnr_operands_def args_get sentinels\<close>)
    show ?thesis unfolding a b mnr_accepts_def by auto
  next
    case False
    then show ?thesis
      unfolding m using trap_at_lost [of ?u "k_vec y" 11 "k_site y" 0 "k_site y + 4" "mnr_trap_entry y" "mnr_end y"] h(2) s
      by (simp add: mnr_accepts_def vectored_def Let_def ms_boot_def)
  qed
qed


subsection \<open>Properties\<close>

text \<open>
  C40. Which harts and which register allocations the three programs accept. Each writes the pass word exactly if the vector is taken in direct mode with \<open>mie\<close> zero,
  \<open>mepc\<close> keeps the resume addresses, the words read at the trapping addresses are the expected instructions, for \<open>mrs\<close> the trap value is the
  unmapped address, and the compiler has chosen its registers well: in \<open>ebt\<close> and \<open>mrs\<close> no output operand shares the register of the
  pointer, in \<open>mrs\<close> neither the pointer nor the fault address is in t1, and in \<open>mnr\<close> the pointer to the second array is not in t1. Nothing in the source
  rules those choices out.
\<close>

theorem deliberate_traps_decide:
  assumes "operands y (r_fault y) (r_resume y) (r_ptr y) (k_site y) (k_site y + 4)"
    and "operands y (r_fault2 y) (r_resume2 y) (r_ptr2 y) (k_site2 y) (k_site2 y + 2)"
    and "mrs_operands y" "mnr_operands y" "ms_boot s"
  shows "finisher (final (ebt_main y tv) s) = (if ebt_accepts y (hw s) then Some 0x5555 else None) \<and>
    finisher (final (mrs_main y tv) s) = (if mrs_accepts y tv (hw s) then Some 0x5555 else None) \<and>
    finisher (final (mnr_main y) s) = (if mnr_accepts y (hw s) then Some 0x5555 else None)"
  using ebt_verdict [OF assms(1,2,5)] mrs_verdict [OF assms(3,5)] mnr_verdict [OF assms(4,5)] by blast

text \<open>One allocation that \<open>mrs\<close> accepts, and one with the fault address in t1, which it does not.\<close>

definition ms_example_syms :: "nat \<Rightarrow> ms_syms" where
  "ms_example_syms q = \<lparr>k_vec = 0x80000100, k_regs = 0x80010000, k_site = 0x80000200, k_site2 = 0x80000300, k_ptr = 0x80010100,
     insn_at = (\<lambda>_. 0x0005A503), r_fault = q, r_resume = 14, r_ptr = 18, r_fault2 = 13, r_resume2 = 14, r_ptr2 = 18\<rparr>"

definition ms_example :: mskip where
  "ms_example = \<lparr>out = [], hw = \<lparr>gpr = \<lambda>_. 0, csrf = \<lambda>_. 0, ram = \<lambda>_. 0, pc = 0, priv = MMode, clock = \<lambda>_. (0, 0), retired = 0,
     legal = (\<lambda>c old v. v), instret = \<lambda>_. 0\<rparr>, fails = 0, nchecks = 0, save = \<lambda>_. 0, finisher = None, overrun = [], parked = False, stuck = False,
     marker = 0, pre = \<lambda>_. 0, post = \<lambda>_. 0\<rparr>"

theorem deliberate_traps_decide_witness:
  "finisher (final (mrs_main (ms_example_syms 13) 0xFFFFFFFFC0000000) ms_example) = Some 0x5555 \<and>
   finisher (final (mrs_main (ms_example_syms 6) 0xFFFFFFFFC0000000) ms_example) = None"
proof -
  have "ms_boot ms_example" by (simp add: ms_boot_def ms_example_def plain_csr_def)
  then show ?thesis
    using deliberate_traps_decide [of "ms_example_syms 13" ms_example "0xFFFFFFFFC0000000"]
      deliberate_traps_decide [of "ms_example_syms 6" ms_example "0xFFFFFFFFC0000000"]
    by (simp add: operands_def mrs_operands_def mnr_operands_def mrs_accepts_def vectored_def ms_example_syms_def ms_example_def)
qed

end
