(* ===== verification/Spec2Isabelle.thy ===== *)
theory Spec2Isabelle
  imports Tasks Shell Preempt Ssched Smp Blk Csr_probes Sv39 Mtimecmp Wfi Verdict Mwrite Udeleg Mpp Mskip
begin

text \<open>
  \<^bold>\<open>The programs.\<close> The repository holds bare-metal RISC-V programs for the QEMU virt board: small systems (a cooperative and two
  preemptive schedulers, a UART shell, an SMP bring-up, a virtio block driver) and about 170 experiments, each a \<open>main\<close> that pokes one
  feature of the privileged architecture, checks what it sees, prints a report and, if every check held, writes the pass word 0x5555 to
  the test device. All sit on the UART driver \<open>src/src/uart.c\<close>; beyond that the programs are independent executables.

  \<^bold>\<open>The machine.\<close> Prelude has the C integer types as words, bounds-checked array accesses and bit lemmas. Riscv has the hart: general
  registers, CSRs, memory, program counter, privilege mode, traps and returns, and the instructions of the assembly files. What a CSR
  keeps of a written value is the hart's \<open>legal\<close> function and what the counters read are its \<open>clock\<close> and \<open>instret\<close> streams, so that
  every theorem says which harts it holds on. Trapframe has the register save and restore sequences of the trap entries.

  \<^bold>\<open>The systems.\<close>
  \<^item> Uart: \<open>uart.c\<close> over a device whose answers are a parameter. On a live device each print call returns and sends exactly the text of
    an abstract console; all later theories print to that console.
  \<^item> Sched, Tasks: \<open>sched.c\<close>, \<open>switch.S\<close>, \<open>tasks.c\<close>, \<open>main.c\<close>. The register switch is a round trip, the loop is round robin and ends, and
    the demo prints the interleaving one expects.
  \<^item> Shell: \<open>shell/cmds.c\<close> and its trap entry. The line editor equals a reference editor and never leaves its buffer; the register snapshot is
    exact once, and a second snapshot goes wrong.
  \<^item> Ticks, Samples, Preempt, Smode, Ssched: \<open>preempt/\<close> and \<open>smode/\<close>, the schedulers on the M-mode and S-mode timer with their statistics. One trap is
    one step; the runs end at tick 200, the order is round robin, contexts survive, and the reported minima, maxima and medians are those of
    the samples.
  \<^item> Smp: \<open>smp/\<close>, two harts as interleaved steps, one UART byte per step; mutual exclusion and unmixed lines for every interleaving.
  \<^item> Virtio, Blk: \<open>virtio-blk/\<close>. The device is a record of functions; the handshake order, the outcome of the completion poll, the ring layout, and
    write-then-read for conforming devices, soundness of the exit code for all.

  \<^bold>\<open>The experiments.\<close>
  \<^item> Probe: checks, counters, trap save area and verdict, in the state monad. Csr_probes, Pmp, Sv39 model the probes of \<open>mscratch-csrrw\<close>,
    \<open>misa-readonly\<close>, \<open>mideleg-warl\<close>, \<open>medeleg-mask\<close>, \<open>pmp-napot-encode\<close>, \<open>pmp\<close>, \<open>pmp-napot-size\<close> and \<open>sv39\<close>, with models of the PMP check and of
    the page walk; Latency, Wfi, Mtimecmp the two timer experiments.
  \<^item> Menvcfg, Warl, Mwrite: ten programs that write a CSR and read it back. The theorems decide their verdicts: on a register with a given mask of
    writable bits, or given legal values, the program passes exactly if the tested field behaves.
  \<^item> Modes: a machine whose program is a table of blocks by address, run through traps, delegation and returns. Gate, Mtmu, Mcyu, Scount: the U-mode
    counter gates; Skip, Sgate, Mhart: the programs around the skipping S-mode trap entry. They pass on conforming harts, with the checksums
    their documents publish. Deleg, Udeleg: where an exception goes as its bit of \<open>medeleg\<close> changes, in four programs; their outcome is decided on every
    hart, the ways to hang included. Mpp: the drop to each mode \<open>mstatus.MPP\<close> can name.
  \<^item> Mskip: three M-mode programs with deliberate traps. Which harts they accept depends on the registers the compiler gives to the operands of
    their inline assembly, and the theorem says how.
  \<^item> Verdict: what these programs never do, on any hart: report a pass that was not earned, or store outside the trap history.

  \<^bold>\<open>Interfaces.\<close> Locales state what one part relies on and are interpreted on the definitions of the model: among them the trap dispatcher of
  the gate programs (\<open>dispatcher\<close>, with \<open>sc_program\<close> as a sublocale), \<open>honest_program\<close> for programs made of honest blocks, \<open>skipping_handler\<close> for
  the handlers of deliberate traps, and \<open>delegation_case\<close> for the two-phase delegation programs.

  \<^bold>\<open>Bounds.\<close> Loops of the code are structural recursions or have their C bound: the completion poll its 100000000 rounds, the wait for a
  deliberate trap its 10000000, the U-mode spin its 2^20. Loops that may not end (the UART polls) are partial functions, and the theorems prove
  that they return on live devices. The block machine has no fuel: theorems state that a run reaches a stop.

  \<^bold>\<open>Not modelled.\<close> The compiler: C code is translated statement by statement, and where inline assembly leaves the choice of a register to the
  compiler, the register is a symbol and what the proof needs of it a hypothesis. The reset code before \<open>main\<close>. Instruction fetch and data
  accesses inside a block. Interrupts, outside the schedulers and the latency experiments. The waits for the UART transmitter before shutdown, which
  belong to the console. The experiments on floating point, TLB maintenance, page faults, interrupt delivery, larger PMP setups, atomics and single
  instructions, for the reasons the component list gives; the remaining trap and delegation experiments fit
  theory Modes and are what to model next.
\<close>

end
